(* ===== verification/Moh_Prelude.thy ===== *)
theory Moh_Prelude
  imports Main "HOL-Library.Word"
begin

text \<open>
  Shared vocabulary of the development: the machine types the library's headers use
  (\<open>uint8_t\<close>, \<open>uint16_t\<close>, \<open>uint32_t\<close>), the arithmetic of \<open>size_t\<close> where a subtraction can
  wrap, the sequencing of computations that can throw, and the list lemmas about memory
  blocks and bit strings that every component uses.
\<close>

unbundle bit_operations_syntax

section \<open>Machine types\<close>

type_synonym byte = "8 word"
type_synonym u16 = "16 word"
type_synonym u32 = "32 word"

named_theorems mem_simps \<open>reading and writing blocks of memory\<close>
named_theorems bits_simps \<open>bytes as strings of eight bits\<close>

text \<open>
  \<open>size_t\<close> has 64 bits. Sizes of objects in memory are natural numbers and their sums stay
  far below \<open>2 ^ 64\<close>; a subtraction of two sizes can wrap, and does so here.
\<close>

definition sz_sub :: "nat \<Rightarrow> nat \<Rightarrow> nat" where
  "sz_sub a b = (if b \<le> a then a - b else a + 2 ^ 64 - b)"

lemma sz_sub_le [simp]: "b \<le> a \<Longrightarrow> sz_sub a b = a - b"
  by (simp add: sz_sub_def)

lemma sz_sub_wraps: "a < b \<Longrightarrow> sz_sub a b = a + 2 ^ 64 - b"
  by (simp add: sz_sub_def)

section \<open>Computations that can throw\<close>

text \<open>\<open>Inl e\<close> is an exception \<open>e\<close> that leaves the function, \<open>Inr x\<close> a normal return of \<open>x\<close>.\<close>

fun rbind :: "'e + 'a \<Rightarrow> ('a \<Rightarrow> 'e + 'b) \<Rightarrow> 'e + 'b" where
  "rbind (Inl e) f = Inl e"
| "rbind (Inr x) f = f x"

lemma rbind_eq_Inr [simp]: "rbind r f = Inr y \<longleftrightarrow> (\<exists>x. r = Inr x \<and> f x = Inr y)"
  by (cases r) auto

lemma rbind_eq_Inl: "rbind r f = Inl e \<longleftrightarrow> r = Inl e \<or> (\<exists>x. r = Inr x \<and> f x = Inl e)"
  by (cases r) auto

lemma rbind_assoc: "rbind (rbind r f) g = rbind r (\<lambda>x. rbind (f x) g)"
  by (cases r) auto

lemma rbind_cong [fundef_cong]:
  "r = r' \<Longrightarrow> (\<And>x. r' = Inr x \<Longrightarrow> f x = f' x) \<Longrightarrow> rbind r f = rbind r' f'"
  by (cases r') auto

section \<open>Blocks of memory\<close>

text \<open>\<open>memcpy(mem + p, bs, n)\<close> on a block of memory seen as a list of bytes.\<close>

definition blit :: "'a list \<Rightarrow> nat \<Rightarrow> 'a list \<Rightarrow> 'a list" where
  "blit mem p bs = take p mem @ bs @ drop (p + length bs) mem"

lemma length_blit [simp, mem_simps]:
  "p + length bs \<le> length mem \<Longrightarrow> length (blit mem p bs) = length mem"
  by (simp add: blit_def)

lemma blit_Nil [simp, mem_simps]: "blit mem p [] = mem"
  by (simp add: blit_def)

lemma take_blit_before [mem_simps]:
  "n \<le> p \<Longrightarrow> p \<le> length mem \<Longrightarrow> take n (blit mem p bs) = take n mem"
  by (simp add: blit_def min_absorb1 min_absorb2)

lemma take_blit_end [mem_simps]:
  "p \<le> length mem \<Longrightarrow> take (p + length bs) (blit mem p bs) = take p mem @ bs"
  by (simp add: blit_def min_absorb2)

lemma drop_blit_after [mem_simps]:
  "p + length bs \<le> n \<Longrightarrow> p \<le> length mem \<Longrightarrow> drop n (blit mem p bs) = drop n mem"
  by (simp add: blit_def min_absorb2 add.commute drop_drop)

lemma read_blit [mem_simps]:
  "p \<le> length mem \<Longrightarrow> take (length bs) (drop p (blit mem p bs)) = bs"
  by (simp add: blit_def min_absorb2)

lemma take_blit_inside [mem_simps]:
  assumes "p + length bs \<le> n" "n \<le> length mem"
  shows "take n (blit mem p bs) = blit (take n mem) p bs"
proof -
  from assms have "n - (p + length bs) + (p + length bs) = n" by simp
  then show ?thesis using assms
    by (simp add: blit_def min_absorb1 min_absorb2 take_drop diff_diff_left)
qed

lemma blit_append:
  "length a = p \<Longrightarrow> blit (a @ b) p bs = a @ bs @ drop (length bs) b"
  by (simp add: blit_def)

lemma blit_blit [mem_simps]:
  "p \<le> length mem \<Longrightarrow> blit (blit mem p a) (p + length a) b = blit mem p (a @ b)"
  by (simp add: blit_def min_absorb2 add.commute add.left_commute)

lemma drop_take_chunk:
  assumes "r \<le> n - p"
  shows "drop p (take n xs) = take r (drop p xs) @ drop (p + r) (take n xs)"
proof -
  have "take r (drop p (take n xs)) = take r (drop p xs)"
    using assms by (simp add: drop_take min_absorb1)
  moreover have "drop r (drop p (take n xs)) = drop (p + r) (take n xs)"
    by (simp only: drop_drop add.commute)
  ultimately show ?thesis by (metis append_take_drop_id)
qed

section \<open>Bytes as strings of bits\<close>

text \<open>Bit \<open>i\<close> of a byte is its \<open>i\<close>-th element: the least significant bit comes first.\<close>

definition byte_bits :: "byte \<Rightarrow> bool list" where
  "byte_bits b = map (bit b) [0..<8]"

definition bits_byte :: "bool list \<Rightarrow> byte" where
  "bits_byte bs = horner_sum of_bool 2 bs"

definition bytes_bits :: "byte list \<Rightarrow> bool list" where
  "bytes_bits bs = concat (map byte_bits bs)"

lemma length_byte_bits [simp, bits_simps]: "length (byte_bits b) = 8"
  by (simp add: byte_bits_def)

lemma nth_byte_bits [simp, bits_simps]: "i < 8 \<Longrightarrow> byte_bits b ! i = bit b i"
  by (simp add: byte_bits_def)

lemma bits_byte_bits [simp, bits_simps]: "bits_byte (byte_bits b) = b"
proof -
  have "bits_byte (byte_bits b) = take_bit 8 b"
    unfolding bits_byte_def byte_bits_def by (rule horner_sum_bit_eq_take_bit)
  then show ?thesis by (simp add: take_bit_word_eq_self)
qed

lemma bit_bits_byte:
  "length bs \<le> 8 \<Longrightarrow> bit (bits_byte bs) i \<longleftrightarrow> i < length bs \<and> bs ! i"
  unfolding bits_byte_def
  by (subst bit_horner_sum_bit_word_iff) auto

lemma byte_bits_byte [simp, bits_simps]: "length bs = 8 \<Longrightarrow> byte_bits (bits_byte bs) = bs"
  by (rule nth_equalityI) (simp_all add: bit_bits_byte)

lemma byte_bits_inject: "byte_bits a = byte_bits b \<Longrightarrow> a = b"
  by (metis bits_byte_bits)

lemma bytes_bits_Nil [simp, bits_simps]: "bytes_bits [] = []"
  by (simp add: bytes_bits_def)

lemma bytes_bits_Cons [simp, bits_simps]: "bytes_bits (b # bs) = byte_bits b @ bytes_bits bs"
  by (simp add: bytes_bits_def)

lemma bytes_bits_append [simp, bits_simps]: "bytes_bits (xs @ ys) = bytes_bits xs @ bytes_bits ys"
  by (simp add: bytes_bits_def)

lemma length_bytes_bits [simp, bits_simps]: "length (bytes_bits bs) = 8 * length bs"
  by (induction bs) auto

lemma nth_bytes_bits:
  "i < 8 * length bs \<Longrightarrow> bytes_bits bs ! i = bit (bs ! (i div 8)) (i mod 8)"
proof (induction bs arbitrary: i)
  case Nil
  then show ?case by simp
next
  case (Cons b bs)
  show ?case
  proof (cases "i < 8")
    case True
    then show ?thesis by (simp add: nth_append)
  next
    case False
    then have "i div 8 = Suc ((i - 8) div 8)" "(i - 8) mod 8 = i mod 8"
      by (simp_all add: le_div_geq le_mod_geq)
    with False Cons show ?thesis by (simp add: nth_append)
  qed
qed

lemma bytes_bits_drop: "bytes_bits (drop n bs) = drop (8 * n) (bytes_bits bs)"
  by (induction bs arbitrary: n) (auto simp: drop_Cons split: nat.splits)

lemma bytes_bits_take: "bytes_bits (take n bs) = take (8 * n) (bytes_bits bs)"
  by (induction bs arbitrary: n) (auto simp: take_Cons split: nat.splits)

lemma bytes_bits_replicate0: "bytes_bits (replicate n 0) = replicate (8 * n) False"
proof (induction n)
  case 0
  then show ?case by simp
next
  case (Suc n)
  have "byte_bits 0 = replicate 8 False"
    by (rule nth_equalityI) simp_all
  then show ?case using Suc
    by (simp add: replicate_add [symmetric])
qed

lemma bytes_bits_inject: "length a = length b \<Longrightarrow> bytes_bits a = bytes_bits b \<Longrightarrow> a = b"
  by (induction a b rule: list_induct2) (auto dest: byte_bits_inject)

text \<open>\<open>chunk8\<close> cuts a string of bits into groups of eight, \<open>bits_bytes\<close> packs them into bytes.\<close>

fun bits_bytes :: "nat \<Rightarrow> bool list \<Rightarrow> byte list" where
  "bits_bytes 0 bs = []"
| "bits_bytes (Suc n) bs = bits_byte (take 8 bs) # bits_bytes n (drop 8 bs)"

lemma length_bits_bytes [simp, bits_simps]: "length (bits_bytes n bs) = n"
  by (induction n arbitrary: bs) auto

lemma bytes_bits_bits_bytes:
  "length bs = 8 * n \<Longrightarrow> bytes_bits (bits_bytes n bs) = bs"
  by (induction n arbitrary: bs) (auto simp: min_def)

lemma bits_bytes_bytes_bits [simp, bits_simps]: "bits_bytes (length bs) (bytes_bits bs) = bs"
  by (induction bs) auto

section \<open>Numbers in little-endian order\<close>

fun le_bytes :: "nat \<Rightarrow> nat \<Rightarrow> byte list" where
  "le_bytes 0 v = []"
| "le_bytes (Suc n) v = of_nat v # le_bytes n (v div 256)"

fun le_val :: "byte list \<Rightarrow> nat" where
  "le_val [] = 0"
| "le_val (b # bs) = unat b + 256 * le_val bs"

lemma length_le_bytes [simp]: "length (le_bytes n v) = n"
  by (induction n arbitrary: v) auto

lemma unat_of_nat_byte: "unat (of_nat v :: byte) = v mod 256"
  by (simp add: unat_of_nat)

lemma le_val_le_bytes: "le_val (le_bytes n v) = v mod 256 ^ n"
proof (induction n arbitrary: v)
  case 0
  then show ?case by simp
next
  case (Suc n)
  have "v mod 256 ^ Suc n = v mod 256 + 256 * (v div 256 mod 256 ^ n)"
    by (simp add: mod_mult2_eq)
  then show ?case by (simp add: Suc unat_of_nat_byte)
qed

lemma le_val_bound: "le_val bs < 256 ^ length bs"
proof (induction bs)
  case Nil
  then show ?case by simp
next
  case (Cons b bs)
  have "unat b < 256" using unsigned_less [of b] by simp
  moreover from Cons have "le_val bs + 1 \<le> 256 ^ length bs" by simp
  then have "256 * le_val bs + 256 \<le> 256 * 256 ^ length bs" by simp
  ultimately have "unat b + 256 * le_val bs < 256 * 256 ^ length bs" by linarith
  then show ?case by simp
qed

lemma le_bytes_le_val: "le_bytes (length bs) (le_val bs) = bs"
proof (induction bs)
  case Nil
  then show ?case by simp
next
  case (Cons b bs)
  have "unat b < 256" using unsigned_less [of b] by simp
  then have d: "(unat b + 256 * le_val bs) div 256 = le_val bs" by simp
  have z: "(256 :: byte) = 0" by transfer (simp add: take_bit_eq_mod)
  have "(of_nat (unat b + 256 * le_val bs) :: byte) = of_nat (unat b) + 256 * of_nat (le_val bs)"
    by simp
  also have "\<dots> = of_nat (unat b)" by (simp only: z mult_zero_left add_0_right)
  finally have "(of_nat (unat b + 256 * le_val bs) :: byte) = b" by simp
  then show ?case using Cons by (simp add: d)
qed

section \<open>C strings\<close>

text \<open>The characters before the terminator, as \<open>strlen\<close> counts them.\<close>

definition c_chars :: "byte list \<Rightarrow> byte list" where
  "c_chars s = takeWhile (\<lambda>c. c \<noteq> 0) s"

end
