(* ===== verification/Stream.thy ===== *)
theory Stream
  imports Moh_Prelude
begin

text \<open>
  The message streams of \<open>Utility/Misc/MSG/Stream.h\<close> and \<open>Stream.cpp\<close>: a stream over a block
  the caller owns (\<open>FixedDataMessageStream\<close>), a stream that grows
  (\<open>DynamicDataMessageStream\<close>), the virtual interface \<open>IMessageStream\<close> as a choice of the two
  and \<open>streamHelpers::Copy\<close>. The locale \<open>byte_stream\<close> states what a client of the interface
  relies on; both streams and the interface are interpretations of it.

  Storage is a list of bytes as long as the block allocated. Every \<open>memcpy\<close> that would leave
  the block is the value \<open>UndefinedAccess\<close>, so that staying inside the block is something to prove.
\<close>

section \<open>Exceptions of a stream\<close>

datatype stream_mode = Reading | Writing

datatype stream_error =
    StreamOverflowException stream_mode
  | UndefinedAccess

datatype SeekPos = Begin | Current | End

section \<open>FixedDataMessageStream\<close>

record fixed_stream =
  fs_storage :: "byte list"
  fs_length :: nat
  fs_maxLength :: nat
  fs_curPos :: nat

text \<open>The readable length defaults to \<open>size_t(-1)\<close>.\<close>

definition size_max :: nat where
  "size_max = 2 ^ 64 - 1"

definition fixed_new :: "byte list \<Rightarrow> nat \<Rightarrow> nat \<Rightarrow> fixed_stream" where
  "fixed_new data sz readableLength =
     \<lparr>fs_storage = data, fs_length = readableLength, fs_maxLength = sz, fs_curPos = 0\<rparr>"

definition fixed_Read :: "fixed_stream \<Rightarrow> nat \<Rightarrow> stream_error + byte list \<times> fixed_stream" where
  "fixed_Read s readLen =
     (if readLen = 0 then Inr ([], s)
      else if fs_curPos s + readLen - 1 > min (fs_length s) (fs_maxLength s)
        then Inl (StreamOverflowException Reading)
      else if fs_curPos s + readLen > length (fs_storage s) then Inl UndefinedAccess
      else Inr (take readLen (drop (fs_curPos s) (fs_storage s)),
                s\<lparr>fs_curPos := fs_curPos s + readLen\<rparr>))"

definition fixed_Write :: "fixed_stream \<Rightarrow> byte list \<Rightarrow> stream_error + fixed_stream" where
  "fixed_Write s data =
     (let writeLen = length data in
      if writeLen = 0 then Inr s
      else if fs_curPos s + writeLen > fs_maxLength s
        then Inl (StreamOverflowException Writing)
      else if fs_curPos s + writeLen > length (fs_storage s) then Inl UndefinedAccess
      else
        (let pos = fs_curPos s + writeLen in
         Inr (s\<lparr>fs_storage := blit (fs_storage s) (fs_curPos s) data,
                fs_curPos := pos,
                fs_length := (if pos > fs_length s then pos else fs_length s)\<rparr>)))"

definition fixed_Seek :: "fixed_stream \<Rightarrow> nat \<Rightarrow> SeekPos \<Rightarrow> fixed_stream" where
  "fixed_Seek s offset from =
     (let pos = (case from of
          Begin \<Rightarrow> min (fs_maxLength s) offset
        | Current \<Rightarrow> min (fs_maxLength s) (fs_curPos s + offset)
        | End \<Rightarrow> min (fs_maxLength s) (sz_sub (fs_length s) offset))
      in s\<lparr>fs_curPos := pos, fs_length := (if pos \<ge> fs_length s then pos else fs_length s)\<rparr>)"

definition fixed_GetLength :: "fixed_stream \<Rightarrow> nat" where
  "fixed_GetLength s = min (fs_length s) (fs_maxLength s)"

definition fixed_GetPosition :: "fixed_stream \<Rightarrow> nat" where
  "fixed_GetPosition s = fs_curPos s"

section \<open>DynamicDataMessageStream\<close>

text \<open>
  \<open>new uint8_t[n]\<close> does not clear the block: \<open>ds_fresh\<close> is the byte found in fresh memory,
  arbitrary in every theorem. A null \<open>storage\<close> is the empty block.
\<close>

record dyn_stream =
  ds_storage :: "byte list"
  ds_length :: nat
  ds_maxLength :: nat
  ds_curPos :: nat
  ds_fresh :: byte

definition dyn_new :: "byte \<Rightarrow> dyn_stream" where
  "dyn_new fresh =
     \<lparr>ds_storage = [], ds_length = 0, ds_maxLength = 0, ds_curPos = 0, ds_fresh = fresh\<rparr>"

text \<open>The move constructor: the new stream and what is left of the old one.\<close>

definition dyn_move :: "dyn_stream \<Rightarrow> dyn_stream \<times> dyn_stream" where
  "dyn_move other =
     (other, other\<lparr>ds_storage := [], ds_length := 0, ds_maxLength := 0, ds_curPos := 0\<rparr>)"

definition dyn_Read :: "dyn_stream \<Rightarrow> nat \<Rightarrow> stream_error + byte list \<times> dyn_stream" where
  "dyn_Read s readLen =
     (if readLen = 0 then Inr ([], s)
      else if ds_curPos s + readLen - 1 > ds_length s
        then Inl (StreamOverflowException Reading)
      else if ds_curPos s + readLen > length (ds_storage s) then Inl UndefinedAccess
      else Inr (take readLen (drop (ds_curPos s) (ds_storage s)),
                s\<lparr>ds_curPos := ds_curPos s + readLen\<rparr>))"

definition dyn_reallocate :: "dyn_stream \<Rightarrow> nat \<Rightarrow> dyn_stream" where
  "dyn_reallocate s newLen =
     (let n = min newLen (ds_maxLength s) in
      s\<lparr>ds_storage := take n (ds_storage s) @ replicate (newLen - n) (ds_fresh s),
        ds_maxLength := newLen\<rparr>)"

definition dyn_allocate :: "dyn_stream \<Rightarrow> nat \<Rightarrow> dyn_stream" where
  "dyn_allocate s writeLength = dyn_reallocate s ((ds_maxLength s + writeLength) * 2)"

definition dyn_Write :: "dyn_stream \<Rightarrow> byte list \<Rightarrow> stream_error + dyn_stream" where
  "dyn_Write s data =
     (let writeLen = length data;
          s1 = (if ds_curPos s + writeLen > ds_maxLength s then dyn_allocate s writeLen else s)
      in if ds_curPos s1 + writeLen > length (ds_storage s1) then Inl UndefinedAccess
         else
           (let pos = ds_curPos s1 + writeLen in
            Inr (s1\<lparr>ds_storage := blit (ds_storage s1) (ds_curPos s1) data,
                    ds_curPos := pos,
                    ds_length := (if pos > ds_length s1 then pos else ds_length s1)\<rparr>)))"

definition dyn_reserve :: "dyn_stream \<Rightarrow> nat \<Rightarrow> dyn_stream" where
  "dyn_reserve s sz = (if sz > ds_maxLength s then dyn_reallocate s sz else s)"

definition dyn_Seek :: "dyn_stream \<Rightarrow> nat \<Rightarrow> SeekPos \<Rightarrow> dyn_stream" where
  "dyn_Seek s offset from =
     (let pos = (case from of
          Begin \<Rightarrow> offset
        | Current \<Rightarrow> ds_curPos s + offset
        | End \<Rightarrow> sz_sub (ds_length s) offset);
          s1 = s\<lparr>ds_curPos := pos\<rparr>
      in if pos > ds_length s1
         then (let s2 = s1\<lparr>ds_length := pos\<rparr>
               in if ds_length s2 > ds_maxLength s2
                  then dyn_allocate s2 (ds_length s2 - ds_maxLength s2) else s2)
         else s1)"

definition dyn_clear :: "dyn_stream \<Rightarrow> bool \<Rightarrow> dyn_stream" where
  "dyn_clear s freeMemory =
     (let s1 = (if ds_storage s \<noteq> [] \<and> freeMemory
                then s\<lparr>ds_storage := [], ds_maxLength := 0\<rparr> else s)
      in s1\<lparr>ds_length := 0, ds_curPos := 0\<rparr>)"

definition dyn_GetPosition :: "dyn_stream \<Rightarrow> nat" where
  "dyn_GetPosition s = ds_curPos s"

definition dyn_GetLength :: "dyn_stream \<Rightarrow> nat" where
  "dyn_GetLength s = ds_length s"

definition dyn_getStorage :: "dyn_stream \<Rightarrow> byte list" where
  "dyn_getStorage s = ds_storage s"

section \<open>IMessageStream\<close>

text \<open>A reference to the interface is a reference to one of its two implementations.\<close>

datatype mstream = FixedS fixed_stream | DynS dyn_stream

fun st_Read :: "mstream \<Rightarrow> nat \<Rightarrow> stream_error + byte list \<times> mstream" where
  "st_Read (FixedS s) n = rbind (fixed_Read s n) (\<lambda>(bs, s'). Inr (bs, FixedS s'))"
| "st_Read (DynS s) n = rbind (dyn_Read s n) (\<lambda>(bs, s'). Inr (bs, DynS s'))"

fun st_Write :: "mstream \<Rightarrow> byte list \<Rightarrow> stream_error + mstream" where
  "st_Write (FixedS s) bs = rbind (fixed_Write s bs) (\<lambda>s'. Inr (FixedS s'))"
| "st_Write (DynS s) bs = rbind (dyn_Write s bs) (\<lambda>s'. Inr (DynS s'))"

fun st_Seek :: "mstream \<Rightarrow> nat \<Rightarrow> SeekPos \<Rightarrow> mstream" where
  "st_Seek (FixedS s) off from = FixedS (fixed_Seek s off from)"
| "st_Seek (DynS s) off from = DynS (dyn_Seek s off from)"

fun st_GetPosition :: "mstream \<Rightarrow> nat" where
  "st_GetPosition (FixedS s) = fixed_GetPosition s"
| "st_GetPosition (DynS s) = dyn_GetPosition s"

fun st_GetLength :: "mstream \<Rightarrow> nat" where
  "st_GetLength (FixedS s) = fixed_GetLength s"
| "st_GetLength (DynS s) = dyn_GetLength s"

text \<open>
  \<open>streamHelpers::Copy<BLOCK_SIZE>\<close>: the amount of each block is computed from the position of
  the input stream. The block size is positive in every instance.
\<close>

function st_Copy_loop ::
  "nat \<Rightarrow> mstream \<Rightarrow> mstream \<Rightarrow> nat \<Rightarrow> nat \<Rightarrow> stream_error + mstream \<times> mstream" where
  "st_Copy_loop BLOCK_SIZE out inp len block =
     (if block < len \<and> 0 < BLOCK_SIZE then
        (let remaining = min (sz_sub len (st_GetPosition inp)) BLOCK_SIZE in
         rbind (st_Read inp remaining) (\<lambda>(buf, inp').
         rbind (st_Write out buf) (\<lambda>out'.
         st_Copy_loop BLOCK_SIZE out' inp' len (block + BLOCK_SIZE))))
      else Inr (out, inp))"
  by pat_completeness auto
termination
  by (relation "measure (\<lambda>(B, out, inp, len, block). len - block)") auto

declare st_Copy_loop.simps [simp del]

definition st_Copy :: "nat \<Rightarrow> mstream \<Rightarrow> mstream \<Rightarrow> nat \<Rightarrow> stream_error + mstream \<times> mstream" where
  "st_Copy BLOCK_SIZE out inp len = st_Copy_loop BLOCK_SIZE out inp len 0"

section \<open>The contract of a message stream\<close>

text \<open>
  \<open>content\<close> is the readable part of a stream and \<open>room s n\<close> says that it can grow to \<open>n\<close>
  bytes. A read inside the content returns the bytes at the position, a write inside the room
  overwrites or extends the content, a seek inside the content only moves the position.
\<close>

locale byte_stream =
  fixes rd :: "'s \<Rightarrow> nat \<Rightarrow> stream_error + byte list \<times> 's"
    and wr :: "'s \<Rightarrow> byte list \<Rightarrow> stream_error + 's"
    and sk :: "'s \<Rightarrow> nat \<Rightarrow> 's"
    and ps :: "'s \<Rightarrow> nat"
    and content :: "'s \<Rightarrow> byte list"
    and invar :: "'s \<Rightarrow> bool"
    and room :: "'s \<Rightarrow> nat \<Rightarrow> bool"
  assumes pos_le: "invar s \<Longrightarrow> ps s \<le> length (content s)"
    and rd_ok: "invar s \<Longrightarrow> ps s + n \<le> length (content s) \<Longrightarrow>
      \<exists>s'. rd s n = Inr (take n (drop (ps s) (content s)), s') \<and> invar s' \<and>
        content s' = content s \<and> ps s' = ps s + n \<and> room s' = room s"
    and wr_ok: "invar s \<Longrightarrow> room s (ps s + length bs) \<Longrightarrow>
      \<exists>s'. wr s bs = Inr s' \<and> invar s' \<and> content s' = blit (content s) (ps s) bs \<and>
        ps s' = ps s + length bs \<and> room s' = room s"
    and sk_ok: "invar s \<Longrightarrow> n \<le> length (content s) \<Longrightarrow>
      invar (sk s n) \<and> content (sk s n) = content s \<and> ps (sk s n) = n \<and> room (sk s n) = room s"
begin

lemma write_seek_read:
  assumes "invar s" and "room s (ps s + length bs)"
  shows "\<exists>s1 s2. wr s bs = Inr s1 \<and> rd (sk s1 (ps s)) (length bs) = Inr (bs, s2) \<and>
    ps s2 = ps s + length bs \<and> content s2 = blit (content s) (ps s) bs"
proof -
  obtain s1 where w: "wr s bs = Inr s1" "invar s1" "content s1 = blit (content s) (ps s) bs"
    using wr_ok [OF assms] by blast
  have p: "ps s \<le> length (content s)" using assms(1) by (rule pos_le)
  then have l: "ps s + length bs \<le> length (content s1)"
    by (simp add: w(3) blit_def)
  have k: "invar (sk s1 (ps s))" "content (sk s1 (ps s)) = content s1" "ps (sk s1 (ps s)) = ps s"
    using sk_ok [OF w(2), of "ps s"] l by auto
  obtain s2 where "rd (sk s1 (ps s)) (length bs) = Inr (take (length bs) (drop (ps s) (content s1)), s2)"
    "content s2 = content s1" "ps s2 = ps s + length bs"
    using rd_ok [OF k(1), of "length bs"] l k by auto
  with w p show ?thesis by (auto simp: read_blit)
qed

lemma write_append:
  assumes "invar s" and "ps s = length (content s)" and "room s (ps s + length bs)"
  shows "\<exists>s'. wr s bs = Inr s' \<and> invar s' \<and> content s' = content s @ bs \<and>
    ps s' = length (content s') \<and> room s' = room s"
  using wr_ok [OF assms(1,3)] assms(2) by (auto simp: blit_def)

lemma read_all:
  assumes "invar s"
  shows "\<exists>s'. rd (sk s 0) (length (content s)) = Inr (content s, s') \<and> content s' = content s"
proof -
  have k: "invar (sk s 0)" "content (sk s 0) = content s" "ps (sk s 0) = 0"
    using sk_ok [OF assms, of 0] by auto
  show ?thesis using rd_ok [OF k(1), of "length (content s)"] k by auto
qed

end

subsection \<open>Both streams and the interface keep the contract\<close>

definition fixed_invar :: "fixed_stream \<Rightarrow> bool" where
  "fixed_invar s \<longleftrightarrow> length (fs_storage s) = fs_maxLength s \<and>
     fs_curPos s \<le> min (fs_length s) (fs_maxLength s)"

definition fixed_content :: "fixed_stream \<Rightarrow> byte list" where
  "fixed_content s = take (min (fs_length s) (fs_maxLength s)) (fs_storage s)"

definition dyn_invar :: "dyn_stream \<Rightarrow> bool" where
  "dyn_invar s \<longleftrightarrow> length (ds_storage s) = ds_maxLength s \<and>
     ds_length s \<le> ds_maxLength s \<and> ds_curPos s \<le> ds_length s"

definition dyn_content :: "dyn_stream \<Rightarrow> byte list" where
  "dyn_content s = take (ds_length s) (ds_storage s)"

fun st_invar :: "mstream \<Rightarrow> bool" where
  "st_invar (FixedS s) = fixed_invar s"
| "st_invar (DynS s) = dyn_invar s"

fun st_content :: "mstream \<Rightarrow> byte list" where
  "st_content (FixedS s) = fixed_content s"
| "st_content (DynS s) = dyn_content s"

fun st_room :: "mstream \<Rightarrow> nat \<Rightarrow> bool" where
  "st_room (FixedS s) n = (n \<le> fs_maxLength s)"
| "st_room (DynS s) n = True"

lemma fixed_new_invar [simp]: "length d = n \<Longrightarrow> fixed_invar (fixed_new d n r)"
  by (simp add: fixed_invar_def fixed_new_def)

lemma fixed_new_content [simp]: "length d = n \<Longrightarrow> n \<le> r \<Longrightarrow> fixed_content (fixed_new d n r) = d"
  by (simp add: fixed_content_def fixed_new_def)

lemma dyn_new_invar [simp]: "dyn_invar (dyn_new b)"
  by (simp add: dyn_invar_def dyn_new_def)

lemma dyn_new_content [simp]: "dyn_content (dyn_new b) = []"
  by (simp add: dyn_content_def dyn_new_def)

lemma fixed_GetLength_content: "fixed_invar s \<Longrightarrow> fixed_GetLength s = length (fixed_content s)"
  by (simp add: fixed_GetLength_def fixed_invar_def fixed_content_def)

lemma dyn_GetLength_content: "dyn_invar s \<Longrightarrow> dyn_GetLength s = length (dyn_content s)"
  by (simp add: dyn_GetLength_def dyn_invar_def dyn_content_def)

lemma st_GetLength_content: "st_invar s \<Longrightarrow> st_GetLength s = length (st_content s)"
  by (cases s) (simp_all add: fixed_GetLength_content dyn_GetLength_content)

lemma fixed_Write_content:
  assumes inv: "fixed_invar s" and room: "fs_curPos s + length bs \<le> fs_maxLength s"
  shows "\<exists>s'. fixed_Write s bs = Inr s' \<and> fixed_invar s' \<and>
      fixed_content s' = blit (fixed_content s) (fs_curPos s) bs \<and>
      fs_curPos s' = fs_curPos s + length bs \<and>
      (\<lambda>m. m \<le> fs_maxLength s') = (\<lambda>m. m \<le> fs_maxLength s)"
proof (cases "bs = []")
  case True
  then show ?thesis using inv by (simp add: fixed_Write_def)
next
  case False
  from inv have l: "length (fs_storage s) = fs_maxLength s" "fs_curPos s \<le> fs_length s"
    by (simp_all add: fixed_invar_def)
  show ?thesis
  proof (cases "fs_curPos s + length bs > fs_length s")
    case True
    with False room l inv show ?thesis
      by (simp add: fixed_Write_def fixed_invar_def fixed_content_def Let_def blit_def min_absorb1)
  next
    case shorter: False
    have "take (min (fs_length s) (fs_maxLength s)) (blit (fs_storage s) (fs_curPos s) bs) =
        blit (take (min (fs_length s) (fs_maxLength s)) (fs_storage s)) (fs_curPos s) bs"
      using shorter room l by (intro take_blit_inside) auto
    with False shorter room l inv show ?thesis
      by (simp add: fixed_Write_def fixed_invar_def fixed_content_def Let_def)
  qed
qed

interpretation fixedst: byte_stream fixed_Read fixed_Write "\<lambda>s n. fixed_Seek s n Begin"
  fs_curPos fixed_content fixed_invar "\<lambda>s n. n \<le> fs_maxLength s"
proof
  fix s :: fixed_stream and n :: nat and bs :: "byte list"
  assume inv: "fixed_invar s"
  show "fs_curPos s \<le> length (fixed_content s)"
    using inv by (simp add: fixed_invar_def fixed_content_def)
  show "\<exists>s'. fixed_Read s n = Inr (take n (drop (fs_curPos s) (fixed_content s)), s') \<and>
      fixed_invar s' \<and> fixed_content s' = fixed_content s \<and> fs_curPos s' = fs_curPos s + n \<and>
      (\<lambda>m. m \<le> fs_maxLength s') = (\<lambda>m. m \<le> fs_maxLength s)"
    if "fs_curPos s + n \<le> length (fixed_content s)"
    using inv that
    by (auto simp: fixed_Read_def fixed_invar_def fixed_content_def take_drop min_def add.commute
        split: if_splits)
  show "\<exists>s'. fixed_Write s bs = Inr s' \<and> fixed_invar s' \<and>
      fixed_content s' = blit (fixed_content s) (fs_curPos s) bs \<and>
      fs_curPos s' = fs_curPos s + length bs \<and>
      (\<lambda>m. m \<le> fs_maxLength s') = (\<lambda>m. m \<le> fs_maxLength s)"
    if "fs_curPos s + length bs \<le> fs_maxLength s"
    using fixed_Write_content [OF inv that] .
  show "fixed_invar (fixed_Seek s n Begin) \<and> fixed_content (fixed_Seek s n Begin) = fixed_content s \<and>
      fs_curPos (fixed_Seek s n Begin) = n \<and>
      (\<lambda>m. m \<le> fs_maxLength (fixed_Seek s n Begin)) = (\<lambda>m. m \<le> fs_maxLength s)"
    if "n \<le> length (fixed_content s)"
    using inv that
    by (auto simp: fixed_Seek_def fixed_invar_def fixed_content_def Let_def min_def
        split: if_splits)
qed

lemma dyn_allocate_simps [simp]:
  "ds_curPos (dyn_allocate s n) = ds_curPos s" "ds_length (dyn_allocate s n) = ds_length s"
  "ds_maxLength (dyn_allocate s n) = (ds_maxLength s + n) * 2"
  by (simp_all add: dyn_allocate_def dyn_reallocate_def Let_def)

lemma dyn_allocate_storage:
  "length (ds_storage s) = ds_maxLength s \<Longrightarrow>
   ds_storage (dyn_allocate s n) =
     ds_storage s @ replicate (ds_maxLength s + 2 * n) (ds_fresh s)"
  by (simp add: dyn_allocate_def dyn_reallocate_def Let_def min_def)

interpretation dynst: byte_stream dyn_Read dyn_Write "\<lambda>s n. dyn_Seek s n Begin"
  ds_curPos dyn_content dyn_invar "\<lambda>s n. True"
proof
  fix s :: dyn_stream and n :: nat and bs :: "byte list"
  assume inv: "dyn_invar s"
  show "ds_curPos s \<le> length (dyn_content s)"
    using inv by (simp add: dyn_invar_def dyn_content_def)
  show "\<exists>s'. dyn_Read s n = Inr (take n (drop (ds_curPos s) (dyn_content s)), s') \<and>
      dyn_invar s' \<and> dyn_content s' = dyn_content s \<and> ds_curPos s' = ds_curPos s + n \<and>
      (\<lambda>n. True) = (\<lambda>n. True)"
    if "ds_curPos s + n \<le> length (dyn_content s)"
    using inv that
    by (auto simp: dyn_Read_def dyn_invar_def dyn_content_def take_drop min_def add.commute
        split: if_splits)
  show "\<exists>s'. dyn_Write s bs = Inr s' \<and> dyn_invar s' \<and>
      dyn_content s' = blit (dyn_content s) (ds_curPos s) bs \<and>
      ds_curPos s' = ds_curPos s + length bs \<and> (\<lambda>n. True) = (\<lambda>n. True)"
    using inv
    by (auto simp: dyn_Write_def dyn_invar_def dyn_content_def Let_def blit_def
        min_def take_drop add.commute dyn_allocate_storage)
  show "dyn_invar (dyn_Seek s n Begin) \<and> dyn_content (dyn_Seek s n Begin) = dyn_content s \<and>
      ds_curPos (dyn_Seek s n Begin) = n \<and> (\<lambda>n. True) = (\<lambda>n. True)"
    if "n \<le> length (dyn_content s)"
    using inv that
    by (auto simp: dyn_Seek_def dyn_invar_def dyn_content_def Let_def)
qed

lemma st_room_fixed: "st_room (FixedS s) = (\<lambda>n. n \<le> fs_maxLength s)"
  by (simp add: fun_eq_iff)

lemma st_room_dyn: "st_room (DynS s) = (\<lambda>n. True)"
  by (simp add: fun_eq_iff)

interpretation ms: byte_stream st_Read st_Write "\<lambda>s n. st_Seek s n Begin"
  st_GetPosition st_content st_invar st_room
proof
  fix s :: mstream and n :: nat and bs :: "byte list"
  assume inv: "st_invar s"
  show "st_GetPosition s \<le> length (st_content s)"
    using inv fixedst.pos_le dynst.pos_le
    by (cases s) (auto simp: fixed_GetPosition_def dyn_GetPosition_def)
  show "\<exists>s'. st_Read s n = Inr (take n (drop (st_GetPosition s) (st_content s)), s') \<and>
      st_invar s' \<and> st_content s' = st_content s \<and> st_GetPosition s' = st_GetPosition s + n \<and>
      st_room s' = st_room s"
    if "st_GetPosition s + n \<le> length (st_content s)"
  proof (cases s)
    case (FixedS f)
    with inv that obtain f' where "fixed_Read f n = Inr (take n (drop (fs_curPos f) (fixed_content f)), f')"
        "fixed_invar f'" "fixed_content f' = fixed_content f" "fs_curPos f' = fs_curPos f + n" "(\<lambda>m. m \<le> fs_maxLength f') = (\<lambda>m. m \<le> fs_maxLength f)"
      using fixedst.rd_ok [of f n] by (auto simp: fixed_GetPosition_def)
    with FixedS show ?thesis
      by (intro exI [of _ "FixedS f'"]) (simp add: st_room_fixed fixed_GetPosition_def)
  next
    case (DynS f)
    with inv that obtain f' where "dyn_Read f n = Inr (take n (drop (ds_curPos f) (dyn_content f)), f')"
        "dyn_invar f'" "dyn_content f' = dyn_content f" "ds_curPos f' = ds_curPos f + n" 
      using dynst.rd_ok [of f n] by (auto simp: dyn_GetPosition_def)
    with DynS show ?thesis
      by (intro exI [of _ "DynS f'"]) (simp add: st_room_dyn dyn_GetPosition_def)
  qed
  show "\<exists>s'. st_Write s bs = Inr s' \<and> st_invar s' \<and>
      st_content s' = blit (st_content s) (st_GetPosition s) bs \<and>
      st_GetPosition s' = st_GetPosition s + length bs \<and> st_room s' = st_room s"
    if "st_room s (st_GetPosition s + length bs)"
  proof (cases s)
    case (FixedS f)
    with inv that obtain f' where "fixed_Write f bs = Inr f'"
        "fixed_invar f'" "fixed_content f' = blit (fixed_content f) (fs_curPos f) bs" "fs_curPos f' = fs_curPos f + length bs" "(\<lambda>m. m \<le> fs_maxLength f') = (\<lambda>m. m \<le> fs_maxLength f)"
      using fixedst.wr_ok [of f bs] by (auto simp: fixed_GetPosition_def)
    with FixedS show ?thesis
      by (intro exI [of _ "FixedS f'"]) (simp add: st_room_fixed fixed_GetPosition_def)
  next
    case (DynS f)
    with inv that obtain f' where "dyn_Write f bs = Inr f'"
        "dyn_invar f'" "dyn_content f' = blit (dyn_content f) (ds_curPos f) bs" "ds_curPos f' = ds_curPos f + length bs" 
      using dynst.wr_ok [of f bs] by (auto simp: dyn_GetPosition_def)
    with DynS show ?thesis
      by (intro exI [of _ "DynS f'"]) (simp add: st_room_dyn dyn_GetPosition_def)
  qed
  show "st_invar (st_Seek s n Begin) \<and> st_content (st_Seek s n Begin) = st_content s \<and>
      st_GetPosition (st_Seek s n Begin) = n \<and> st_room (st_Seek s n Begin) = st_room s"
    if "n \<le> length (st_content s)"
    using inv that fixedst.sk_ok [of _ n] dynst.sk_ok [of _ n]
    by (cases s) (auto simp: st_room_fixed st_room_dyn fixed_GetPosition_def dyn_GetPosition_def)
qed


section \<open>Properties of the streams\<close>

text \<open>What is written to a message stream (either kind) at a position is what a read of the same
  length returns after seeking back, the rest of the content is untouched, and nothing is thrown
  while the stream has room.\<close>

theorem stream_write_seek_read:
  assumes "st_invar s" and "st_room s (st_GetPosition s + length bs)"
  shows "\<exists>s1 s2. st_Write s bs = Inr s1 \<and>
    st_Read (st_Seek s1 (st_GetPosition s) Begin) (length bs) = Inr (bs, s2) \<and>
    st_GetPosition s2 = st_GetPosition s + length bs \<and>
    st_content s2 = blit (st_content s) (st_GetPosition s) bs"
  by (rule ms.write_seek_read [OF assms])

theorem stream_write_seek_read_witness:
  "\<exists>s1 s2. st_Write (DynS (dyn_new 7)) [1, 2, 3] = Inr s1 \<and>
    st_Read (st_Seek s1 0 Begin) 3 = Inr ([1, 2, 3], s2)"
  using stream_write_seek_read [of "DynS (dyn_new 7)" "[1, 2, 3]"]
  by (auto simp: dyn_GetPosition_def dyn_new_def dyn_invar_def numeral_3_eq_3)

text \<open>The bounds check of a read lets one byte too many through: a fixed stream whose readable
  length is smaller than its block returns a byte past its length, and when the length is the
  whole block the access leaves the block.\<close>

theorem fixed_Read_one_past_end:
  assumes "fixed_invar s" and "n > 0" and "fs_curPos s + n = fixed_GetLength s + 1"
  shows "fixed_Read s n \<noteq> Inl (StreamOverflowException Reading) \<and>
    (fs_maxLength s \<le> fs_length s \<longrightarrow> fixed_Read s n = Inl UndefinedAccess) \<and>
    (fs_length s < fs_maxLength s \<longrightarrow>
      fixed_Read s n = Inr (drop (fs_curPos s) (fixed_content s) @ [fs_storage s ! fs_length s],
        s\<lparr>fs_curPos := fs_length s + 1\<rparr>))"
proof (intro conjI impI)
  from assms show "fixed_Read s n \<noteq> Inl (StreamOverflowException Reading)"
    by (simp add: fixed_Read_def fixed_GetLength_def)
next
  assume "fs_maxLength s \<le> fs_length s"
  with assms show "fixed_Read s n = Inl UndefinedAccess"
    by (simp add: fixed_Read_def fixed_GetLength_def fixed_invar_def min_absorb2)
next
  assume lt: "fs_length s < fs_maxLength s"
  with assms have p: "fs_curPos s + n = Suc (fs_length s)" "fs_curPos s \<le> fs_length s"
    "length (fs_storage s) = fs_maxLength s"
    by (auto simp: fixed_GetLength_def fixed_invar_def)
  have "take n (drop (fs_curPos s) (fs_storage s)) =
      drop (fs_curPos s) (take (Suc (fs_length s)) (fs_storage s))"
    using p(1) by (simp add: drop_take) (metis add_diff_cancel_left')
  also have "\<dots> = drop (fs_curPos s) (take (fs_length s) (fs_storage s)) @ [fs_storage s ! fs_length s]"
    using lt p by (simp add: take_Suc_conv_app_nth)
  finally show "fixed_Read s n = Inr (drop (fs_curPos s) (fixed_content s) @ [fs_storage s ! fs_length s],
      s\<lparr>fs_curPos := fs_length s + 1\<rparr>)"
    using lt p assms(2) by (simp add: fixed_Read_def fixed_content_def min_absorb1)
qed

theorem fixed_Read_one_past_end_witness:
  "fixed_Read (fixed_new [1, 2] 2 2) 3 = Inl UndefinedAccess \<and>
   fixed_Read (fixed_new [1, 2] 2 1) 2 = Inr ([1, 2], (fixed_new [1, 2] 2 1)\<lparr>fs_curPos := 2\<rparr>)"
  using fixed_Read_one_past_end [of "fixed_new [1, 2] 2 2" 3]
    fixed_Read_one_past_end [of "fixed_new [1, 2] 2 1" 2]
  by (simp add: fixed_new_def fixed_invar_def fixed_GetLength_def fixed_content_def)

lemma st_Copy_loop_ok:
  assumes "0 < B" and "st_invar inp" and "st_invar out" and "len \<le> length (st_content inp)"
    and "st_GetPosition inp = min len (p + block)" and "p \<le> len"
    and "st_room out (st_GetPosition out + (len - st_GetPosition inp))"
  shows "\<exists>out' inp'. st_Copy_loop B out inp len block = Inr (out', inp') \<and>
    st_invar out' \<and> st_invar inp' \<and> st_content inp' = st_content inp \<and>
    st_GetPosition inp' = len \<and> st_room out' = st_room out \<and>
    st_GetPosition out' = st_GetPosition out + (len - st_GetPosition inp) \<and>
    st_content out' = blit (st_content out) (st_GetPosition out)
      (drop (st_GetPosition inp) (take len (st_content inp)))"
  using assms
proof (induction "len - block" arbitrary: out inp block rule: less_induct)
  case less
  let ?pi = "st_GetPosition inp" and ?po = "st_GetPosition out" and ?ci = "st_content inp"
  show ?case
  proof (cases "block < len")
    case False
    with less.prems have "?pi = len" by simp
    with False less.prems show ?thesis
      by (simp add: st_Copy_loop.simps [of B out inp len block])
  next
    case True
    let ?r = "min (len - ?pi) B"
    have le: "?pi \<le> len" using less.prems(5) by simp
    have rl: "?pi + ?r \<le> length ?ci" using less.prems(4) le by linarith
    obtain inp1 where i1: "st_Read inp ?r = Inr (take ?r (drop ?pi ?ci), inp1)" "st_invar inp1"
      "st_content inp1 = ?ci" "st_GetPosition inp1 = ?pi + ?r"
      using ms.rd_ok [OF less.prems(2) rl] by blast
    let ?bs = "take ?r (drop ?pi ?ci)"
    have lbs: "length ?bs = ?r" using less.prems(4) le by simp
    have room1: "st_room out (?po + length ?bs)"
    proof (cases out)
      case (FixedS f)
      with less.prems(7) lbs show ?thesis by simp
    qed simp
    obtain out1 where o1: "st_Write out ?bs = Inr out1" "st_invar out1"
      "st_content out1 = blit (st_content out) ?po ?bs" "st_GetPosition out1 = ?po + ?r"
      "st_room out1 = st_room out"
      using ms.wr_ok [OF less.prems(3) room1] lbs by auto
    have step: "st_Copy_loop B out inp len block = st_Copy_loop B out1 inp1 len (block + B)"
      using True less.prems(1) le i1(1) o1(1)
      by (simp add: st_Copy_loop.simps [of B out inp len block] Let_def)
    have pos1: "st_GetPosition inp1 = min len (p + (block + B))"
      using i1(4) less.prems(5) by (auto simp: min_def)
    have room2: "st_room out1 (st_GetPosition out1 + (len - st_GetPosition inp1))"
      using less.prems(7) o1(4,5) i1(4) le by (simp add: add.commute add.left_commute)
    obtain out' inp' where IH: "st_Copy_loop B out1 inp1 len (block + B) = Inr (out', inp')"
      "st_invar out'" "st_invar inp'" "st_content inp' = ?ci" "st_GetPosition inp' = len"
      "st_room out' = st_room out1"
      "st_GetPosition out' = st_GetPosition out1 + (len - st_GetPosition inp1)"
      "st_content out' = blit (st_content out1) (st_GetPosition out1)
        (drop (st_GetPosition inp1) (take len ?ci))"
      using less.hyps [of "block + B" inp1 out1] True less.prems(1,4,6) i1(2,3) o1(2) pos1 room2
      by (metis (no_types, lifting) diff_less_mono2 less_add_same_cancel1)
    have po: "?po \<le> length (st_content out)" by (rule ms.pos_le [OF less.prems(3)])
    have split: "drop ?pi (take len ?ci) = ?bs @ drop (?pi + ?r) (take len ?ci)"
      by (rule drop_take_chunk) simp
    have "st_content out' = blit (st_content out) ?po (drop ?pi (take len ?ci))"
      unfolding IH(8) o1(3,4) i1(4) split
      using blit_blit [OF po, of ?bs "drop (?pi + ?r) (take len ?ci)"] by (simp only: lbs)
    then show ?thesis
      using IH step o1(4,5) i1(4) le by auto
  qed
qed

end
