(* ===== verification/HuffmanTable.thy ===== *)
theory HuffmanTable
  imports Moh_Prelude
begin

text \<open>
  The constant Huffman tree of the message codec: the rows of \<open>CodecCompressor.h\<close>
  (\<open>archivedNodes\<close>, \<open>locNums\<close>; \<open>CodecDecompressor.h\<close> is the same text) and the
  \<open>constexpr\<close> constructor of \<open>ConstHuff\<close> in \<open>HuffmanTree.h\<close>, which links the rows into a tree.
  \<open>huff_shape\<close> is the shape of that tree; \<open>huff_shape_rows\<close> checks, by evaluation, that the
  linked rows are exactly the nodes of the shape, each with its children, parent and symbol.
\<close>

section \<open>Rows of the table\<close>

text \<open>The fields of \<open>archivedNode_t\<close>: left, right, parent, next, prev, head, weight, symbol.\<close>

datatype archivedNode_t = ArchivedNode int int int int int int nat nat

definition archivedNodes_0 :: "archivedNode_t list" where
  "archivedNodes_0 = [
   ArchivedNode (-1) (-1) 512 495 (-1) (-1) 0 256, ArchivedNode (-1) (-1) 6 10 12 0 250315 0,
   ArchivedNode 6 4 (-1) (-1) 4 2 1053340 257, ArchivedNode (-1) (-1) 30 56 58 1 41193 1,
   ArchivedNode 10 8 2 2 6 87 591364 257, ArchivedNode (-1) (-1) 160 262 253 5 6292 2,
   ArchivedNode 12 1 2 4 8 132 461976 257, ArchivedNode (-1) (-1) 144 240 242 3 7106 3,
   ArchivedNode 16 14 4 6 10 9 332475 257, ArchivedNode (-1) (-1) 234 344 137 7 3730 4,
   ArchivedNode 20 18 4 8 1 263 258889 257, ArchivedNode (-1) (-1) 230 342 243 11 3750 5,
   ArchivedNode 24 22 6 1 14 12 211661 257, ArchivedNode (-1) (-1) 164 131 235 10 6110 6,
   ArchivedNode 28 26 8 12 16 49 177673 257, ArchivedNode (-1) (-1) 50 92 257 14 23283 7,
   ArchivedNode 32 30 8 14 18 46 154802 257, ArchivedNode (-1) (-1) 36 66 68 16 33317 8,
   ArchivedNode 36 34 10 16 20 19 135775 257, ArchivedNode (-1) (-1) 148 246 248 18 6950 9,
   ArchivedNode 40 38 10 18 22 38 123114 257, ArchivedNode (-1) (-1) 130 222 259 21 7838 10,
   ArchivedNode 44 42 12 20 24 36 111584 257, ArchivedNode (-1) (-1) 106 188 190 23 9714 11,
   ArchivedNode 48 46 12 22 26 64 100077 257, ArchivedNode (-1) (-1) 110 194 196 25 9257 12,
   ArchivedNode 52 50 14 24 28 172 92056 257, ArchivedNode (-1) (-1) 66 118 120 27 17259 13,
   ArchivedNode 56 54 14 26 30 100 85617 257, ArchivedNode (-1) (-1) 220 330 332 29 3949 14,
   ArchivedNode 58 3 16 28 32 69 80813 257, ArchivedNode (-1) (-1) 352 494 161 31 1778 15,
   ArchivedNode 62 60 16 30 34 50 73989 257, ArchivedNode (-1) (-1) 122 255 214 30 8288 16,
   ArchivedNode 66 64 18 32 36 125 69441 257, ArchivedNode (-1) (-1) 370 504 506 15 1604 17,
   ArchivedNode 68 17 18 34 38 111 66334 257, ArchivedNode (-1) (-1) 374 183 508 32 1590 18,
   ArchivedNode 72 70 20 36 40 108 63013 257, ArchivedNode (-1) (-1) 366 69 502 24 1663 19,
   ArchivedNode 76 74 20 38 42 147 60101 257, ArchivedNode (-1) (-1) 432 445 329 34 1100 20,
   ArchivedNode 80 78 22 40 44 90 56962 257, ArchivedNode (-1) (-1) 404 349 127 43 1213 21,
   ArchivedNode 84 82 22 42 46 72 54622 257, ArchivedNode (-1) (-1) 400 313 297 35 1238 22,
   ArchivedNode 88 86 24 44 48 144 51358 257, ArchivedNode (-1) (-1) 422 147 121 37 1134 23,
   ArchivedNode 92 90 24 46 50 193 48719 257, ArchivedNode (-1) (-1) 356 93 498 41 1749 24,
   ArchivedNode 257 15 26 48 52 184 46526 257, ArchivedNode (-1) (-1) 448 437 507 51 1059 25,
   ArchivedNode 96 94 26 50 54 384 45530 257, ArchivedNode (-1) (-1) 396 155 305 40 1246 26,
   ArchivedNode 98 65 28 52 56 131 43333 257, ArchivedNode (-1) (-1) 418 309 291 42 1149 27,
   ArchivedNode 102 100 28 54 3 302 42284 257, ArchivedNode (-1) (-1) 390 317 167 57 1273 28,
   ArchivedNode 106 104 30 3 60 127 39620 257, ArchivedNode (-1) (-1) 200 99 267 58 4486 29,
   ArchivedNode 110 108 32 58 62 129 37748 257, ArchivedNode (-1) (-1) 268 207 199 55 2805 30,
   ArchivedNode 114 112 32 60 64 351 36241 257, ArchivedNode (-1) (-1) 248 279 385 53 3472 31,
   ArchivedNode 118 116 34 62 66 54 35243 257, ArchivedNode (-1) (-1) 54 96 98 20 21819 32,
   ArchivedNode 120 27 34 64 17 134 34198 257, ArchivedNode (-1) (-1) 412 461 365 56 1159 33,
   ArchivedNode 124 122 36 17 70 83 33017 257, ArchivedNode (-1) (-1) 364 125 39 28 1670 34,
   ArchivedNode 128 126 38 68 72 149 31788 257, ArchivedNode (-1) (-1) 444 429 347 52 1066 35,
   ArchivedNode 132 130 38 70 74 286 31225 257, ArchivedNode (-1) (-1) 454 425 411 63 1043 36,
   ArchivedNode 136 134 40 72 76 297 30519 257, ArchivedNode (-1) (-1) 464 497 323 70 1012 37,
   ArchivedNode 140 138 40 74 78 299 29582 257, ArchivedNode (-1) (-1) 452 383 425 22 1053 38,
   ArchivedNode 209 142 42 76 80 332 28663 257, ArchivedNode (-1) (-1) 442 415 429 59 1070 39,
   ArchivedNode 146 144 42 78 82 306 28299 257, ArchivedNode (-1) (-1) 358 498 321 81 1726 40,
   ArchivedNode 150 148 44 80 84 153 27743 257, ArchivedNode (-1) (-1) 494 363 403 39 888 41,
   ArchivedNode 152 511 44 82 86 361 26879 257, ArchivedNode (-1) (-1) 408 175 369 85 1180 42,
   ArchivedNode 156 154 46 84 88 331 26076 257, ArchivedNode (-1) (-1) 500 371 455 78 850 43,
   ArchivedNode 160 158 46 86 90 252 25282 257, ArchivedNode (-1) (-1) 476 171 459 4 960 44,
   ArchivedNode 164 162 48 88 92 390 24575 257, ArchivedNode (-1) (-1) 508 503 483 61 780 45,
   ArchivedNode 166 391 48 90 15 433 24144 257, ArchivedNode (-1) (-1) 356 496 49 92 1752 46,
   ArchivedNode 509 168 52 257 96 325 23190 257, ArchivedNode (-1) (-1) 254 366 399 45 3296 47,
   ArchivedNode 172 170 52 94 65 311 22340 257, ArchivedNode (-1) (-1) 100 178 180 74 10630 48,
   ArchivedNode 176 174 54 65 100 338 21514 257, ArchivedNode (-1) (-1) 200 300 59 44 4514 49,
   ArchivedNode 97 178 56 98 102 217 21270 257, ArchivedNode (-1) (-1) 168 266 249 86 5881 50,
   ArchivedNode 182 180 56 100 104 221 21014 257, ArchivedNode (-1) (-1) 274 384 201 94 2685 51,
   ArchivedNode 186 184 58 102 106 312 20114 257, ArchivedNode (-1) (-1) 194 294 296 62 4650 52,
   ArchivedNode 23 188 58 104 108 176 19506 257, ArchivedNode (-1) (-1) 226 336 338 80 3837 53,
   ArchivedNode 192 190 60 106 110 431 19180 257, ArchivedNode (-1) (-1) 320 452 454 33 2093 54,
   ArchivedNode 25 194 60 108 112 208 18568 257, ArchivedNode (-1) (-1) 344 451 484 82 1867 55,
   ArchivedNode 198 196 62 110 114 387 18285 257, ArchivedNode (-1) (-1) 278 388 390 26 2584 56,
   ArchivedNode 202 200 62 112 116 212 17956 257, ArchivedNode (-1) (-1) 334 401 474 101 1949 57,
   ArchivedNode 204 263 64 114 118 326 17804 257, ArchivedNode (-1) (-1) 332 470 472 102 1972 58,
   ArchivedNode 208 206 64 116 27 241 17439 257, ArchivedNode (-1) (-1) 482 463 471 104 940 59,
   ArchivedNode 212 210 66 27 122 243 16939 257, ArchivedNode (-1) (-1) 422 47 473 37 1134 60,
   ArchivedNode 33 255 68 120 124 245 16579 257, ArchivedNode (-1) (-1) 350 492 494 95 1788 61,
   ArchivedNode 216 214 68 122 126 318 16438 257, ArchivedNode (-1) (-1) 364 215 69 28 1670 62,
   ArchivedNode 220 218 70 124 128 355 15989 257, ArchivedNode (-1) (-1) 404 43 159 17 1206 63]"

definition archivedNodes_1 :: "archivedNode_t list" where
  "archivedNodes_1 = [
   ArchivedNode 222 233 70 126 130 254 15799 257, ArchivedNode (-1) (-1) 170 249 268 105 5719 64,
   ArchivedNode 259 21 72 128 132 430 15676 257, ArchivedNode (-1) (-1) 164 203 13 66 6128 65,
   ArchivedNode 393 465 72 130 134 250 15549 257, ArchivedNode (-1) (-1) 142 238 240 112 7222 66,
   ArchivedNode 226 224 74 132 136 257 15410 257, ArchivedNode (-1) (-1) 152 252 254 122 6654 67,
   ArchivedNode 230 228 74 134 138 258 15109 257, ArchivedNode (-1) (-1) 234 9 346 75 3710 68,
   ArchivedNode 234 232 76 136 140 473 14913 257, ArchivedNode (-1) (-1) 228 340 342 113 3795 69,
   ArchivedNode 238 236 76 138 142 204 14669 257, ArchivedNode (-1) (-1) 378 293 510 115 1492 70,
   ArchivedNode 240 133 78 140 209 291 14410 257, ArchivedNode (-1) (-1) 376 181 293 114 1524 71,
   ArchivedNode 242 7 80 209 146 305 14199 257, ArchivedNode (-1) (-1) 306 213 430 137 2215 72,
   ArchivedNode 244 261 80 144 148 65 14100 257, ArchivedNode (-1) (-1) 420 381 47 117 1140 73,
   ArchivedNode 19 246 82 146 150 293 13943 257, ArchivedNode (-1) (-1) 384 481 177 96 1355 74,
   ArchivedNode 250 248 82 148 511 244 13800 257, ArchivedNode (-1) (-1) 474 453 171 91 971 75,
   ArchivedNode 135 252 84 511 154 321 13375 257, ArchivedNode (-1) (-1) 310 434 436 118 2180 76,
   ArchivedNode 256 254 86 152 156 296 13172 257, ArchivedNode (-1) (-1) 396 301 53 97 1248 77,
   ArchivedNode 260 258 86 154 158 417 12904 257, ArchivedNode (-1) (-1) 386 395 397 150 1328 78,
   ArchivedNode 262 251 88 156 160 403 12765 257, ArchivedNode (-1) (-1) 406 127 325 148 1195 79,
   ArchivedNode 253 5 88 158 162 470 12517 257, ArchivedNode (-1) (-1) 354 31 496 76 1770 80,
   ArchivedNode 203 264 90 160 164 346 12337 257, ArchivedNode (-1) (-1) 436 377 333 48 1078 81,
   ArchivedNode 13 131 90 162 391 401 12238 257, ArchivedNode (-1) (-1) 392 167 345 126 1264 82,
   ArchivedNode 266 235 92 391 168 317 12008 257, ArchivedNode (-1) (-1) 392 57 165 120 1266 83,
   ArchivedNode 249 101 94 166 509 226 11733 257, ArchivedNode (-1) (-1) 410 369 461 136 1168 84,
   ArchivedNode 268 129 96 509 172 247 11364 257, ArchivedNode (-1) (-1) 474 151 89 161 965 85,
   ArchivedNode 265 270 96 170 174 464 10976 257, ArchivedNode (-1) (-1) 414 365 341 170 1155 86,
   ArchivedNode 277 272 98 172 176 398 10794 257, ArchivedNode (-1) (-1) 408 325 85 155 1186 87,
   ArchivedNode 237 274 98 174 178 348 10720 257, ArchivedNode (-1) (-1) 384 149 395 165 1347 88,
   ArchivedNode 273 275 100 176 97 385 10640 257, ArchivedNode (-1) (-1) 402 297 349 163 1228 89,
   ArchivedNode 229 276 102 97 182 365 10578 257, ArchivedNode (-1) (-1) 376 508 143 128 1529 90,
   ArchivedNode 278 271 102 180 184 267 10436 257, ArchivedNode (-1) (-1) 372 506 37 168 1600 91,
   ArchivedNode 282 280 104 182 186 397 10156 257, ArchivedNode (-1) (-1) 276 386 388 173 2617 92,
   ArchivedNode 286 284 104 184 188 386 9958 257, ArchivedNode (-1) (-1) 326 460 462 145 2048 93,
   ArchivedNode 241 288 106 186 23 143 9792 257, ArchivedNode (-1) (-1) 280 390 392 119 2546 94,
   ArchivedNode 247 290 108 23 192 413 9636 257, ArchivedNode (-1) (-1) 258 368 370 181 3275 95,
   ArchivedNode 292 223 108 190 194 411 9544 257, ArchivedNode (-1) (-1) 290 404 406 156 2410 96,
   ArchivedNode 105 294 110 192 25 394 9311 257, ArchivedNode (-1) (-1) 240 350 352 79 3585 97,
   ArchivedNode 298 296 112 25 198 273 9197 257, ArchivedNode (-1) (-1) 284 394 396 133 2504 98,
   ArchivedNode 300 245 112 196 200 334 9088 257, ArchivedNode (-1) (-1) 270 61 219 175 2800 99,
   ArchivedNode 59 99 114 198 202 404 9000 257, ArchivedNode (-1) (-1) 274 103 386 84 2675 100,
   ArchivedNode 302 267 114 200 263 354 8956 257, ArchivedNode (-1) (-1) 162 264 131 123 6146 101,
   ArchivedNode 306 304 116 263 206 121 8869 257, ArchivedNode (-1) (-1) 236 346 348 73 3663 102,
   ArchivedNode 389 308 118 204 208 436 8795 257, ArchivedNode (-1) (-1) 268 380 61 191 2840 103,
   ArchivedNode 312 310 118 206 210 135 8644 257, ArchivedNode (-1) (-1) 78 142 144 185 14253 104,
   ArchivedNode 316 314 120 208 212 381 8510 257, ArchivedNode (-1) (-1) 262 372 374 192 3164 105,
   ArchivedNode 320 318 120 210 255 419 8429 257, ArchivedNode (-1) (-1) 304 428 145 195 2221 106,
   ArchivedNode 324 322 124 33 216 437 8266 257, ArchivedNode (-1) (-1) 362 283 125 197 1687 107,
   ArchivedNode 326 225 124 214 218 471 8172 257, ArchivedNode (-1) (-1) 260 370 475 110 3208 108,
   ArchivedNode 231 328 126 216 220 380 8051 257, ArchivedNode (-1) (-1) 270 199 382 200 2739 109,
   ArchivedNode 29 330 126 218 233 339 7938 257, ArchivedNode (-1) (-1) 244 227 356 213 3512 110,
   ArchivedNode 239 332 128 233 21 465 7862 257, ArchivedNode (-1) (-1) 192 247 292 103 4796 111,
   ArchivedNode 336 334 134 393 226 313 7751 257, ArchivedNode (-1) (-1) 216 324 326 194 4091 112,
   ArchivedNode 338 107 134 224 228 347 7659 257, ArchivedNode (-1) (-1) 244 354 221 219 3515 113,
   ArchivedNode 139 340 136 226 230 328 7597 257, ArchivedNode (-1) (-1) 180 276 271 199 5288 114,
   ArchivedNode 11 342 136 228 232 152 7512 257, ArchivedNode (-1) (-1) 218 328 330 157 4016 115,
   ArchivedNode 344 243 138 230 234 350 7473 257, ArchivedNode (-1) (-1) 128 220 222 225 7937 116,
   ArchivedNode 137 9 138 232 236 295 7440 257, ArchivedNode (-1) (-1) 166 13 266 227 6031 117,
   ArchivedNode 205 346 140 234 238 400 7372 257, ArchivedNode (-1) (-1) 176 274 275 47 5360 118,
   ArchivedNode 269 348 140 236 133 323 7297 257, ArchivedNode (-1) (-1) 222 332 334 160 3924 119,
   ArchivedNode 195 350 142 133 7 374 7188 257, ArchivedNode (-1) (-1) 188 288 290 174 4892 120,
   ArchivedNode 354 352 144 7 261 452 7093 257, ArchivedNode (-1) (-1) 232 11 344 139 3743 121,
   ArchivedNode 221 227 146 261 246 466 7027 257, ArchivedNode (-1) (-1) 198 298 300 190 4566 122,
   ArchivedNode 279 356 148 244 19 444 6993 257, ArchivedNode (-1) (-1) 190 290 223 166 4807 123,
   ArchivedNode 385 63 150 19 250 441 6934 257, ArchivedNode (-1) (-1) 168 101 129 124 5852 124,
   ArchivedNode 360 358 150 248 252 278 6866 257, ArchivedNode (-1) (-1) 158 260 262 171 6400 125,
   ArchivedNode 364 362 152 250 135 375 6721 257, ArchivedNode (-1) (-1) 160 5 264 60 6225 126,
   ArchivedNode 95 366 154 135 256 418 6617 257, ArchivedNode (-1) (-1) 122 212 33 222 8291 127]"

definition archivedNodes_2 :: "archivedNode_t list" where
  "archivedNodes_2 = [
   ArchivedNode 368 399 154 254 258 476 6555 257, ArchivedNode (-1) (-1) 50 15 94 224 23243 128,
   ArchivedNode 370 191 156 256 260 220 6489 257, ArchivedNode (-1) (-1) 130 21 465 21 7838 129,
   ArchivedNode 475 217 156 258 251 368 6415 257, ArchivedNode (-1) (-1) 146 242 244 167 7073 130,
   ArchivedNode 211 372 158 251 5 251 6365 257, ArchivedNode (-1) (-1) 116 202 204 106 8935 131,
   ArchivedNode 376 374 162 253 203 316 6191 257, ArchivedNode (-1) (-1) 172 270 272 142 5437 132,
   ArchivedNode 380 378 166 235 101 393 5977 257, ArchivedNode (-1) (-1) 202 59 302 164 4483 133,
   ArchivedNode 61 207 170 129 270 388 5645 257, ArchivedNode (-1) (-1) 238 348 350 202 3641 134,
   ArchivedNode 219 199 172 268 265 469 5539 257, ArchivedNode (-1) (-1) 182 229 278 189 5256 135,
   ArchivedNode 384 382 174 265 277 427 5424 257, ArchivedNode (-1) (-1) 178 275 276 210 5312 136,
   ArchivedNode 201 103 176 277 237 47 5360 257, ArchivedNode (-1) (-1) 178 237 273 182 5328 137,
   ArchivedNode 185 386 180 273 229 246 5290 257, ArchivedNode (-1) (-1) 174 272 274 99 5370 138,
   ArchivedNode 113 388 182 271 280 423 5180 257, ArchivedNode (-1) (-1) 246 356 63 180 3492 139,
   ArchivedNode 189 390 184 278 282 320 5106 257, ArchivedNode (-1) (-1) 288 400 402 272 2458 140,
   ArchivedNode 394 392 184 280 284 405 5050 257, ArchivedNode (-1) (-1) 362 500 215 274 1694 141,
   ArchivedNode 396 197 186 282 286 392 4998 257, ArchivedNode (-1) (-1) 348 490 492 276 1821 142,
   ArchivedNode 400 398 186 284 288 460 4960 257, ArchivedNode (-1) (-1) 316 446 448 240 2121 143,
   ArchivedNode 402 281 188 286 241 409 4900 257, ArchivedNode (-1) (-1) 338 476 478 280 1916 144,
   ArchivedNode 193 404 190 241 247 329 4829 257, ArchivedNode (-1) (-1) 418 55 381 42 1149 145,
   ArchivedNode 408 406 192 223 294 463 4748 257, ArchivedNode (-1) (-1) 378 143 141 237 1516 146,
   ArchivedNode 412 410 194 292 105 275 4661 257, ArchivedNode (-1) (-1) 382 417 481 229 1367 147,
   ArchivedNode 416 414 196 105 298 442 4615 257, ArchivedNode (-1) (-1) 400 45 179 270 1236 148,
   ArchivedNode 420 418 196 296 245 407 4582 257, ArchivedNode (-1) (-1) 458 343 311 178 1029 149,
   ArchivedNode 424 422 198 245 99 468 4522 257, ArchivedNode (-1) (-1) 394 345 155 294 1258 150,
   ArchivedNode 426 387 202 267 304 425 4473 257, ArchivedNode (-1) (-1) 430 357 445 207 1104 151,
   ArchivedNode 213 428 204 302 306 447 4444 257, ArchivedNode (-1) (-1) 398 53 313 198 1245 152,
   ArchivedNode 430 145 204 304 308 485 4425 257, ArchivedNode (-1) (-1) 466 501 419 89 1006 153,
   ArchivedNode 434 432 206 306 389 264 4398 257, ArchivedNode (-1) (-1) 416 341 55 42 1149 154,
   ArchivedNode 436 153 208 389 312 215 4345 257, ArchivedNode (-1) (-1) 460 299 405 287 1025 155,
   ArchivedNode 440 438 208 310 314 448 4299 257, ArchivedNode (-1) (-1) 398 305 45 259 1241 156,
   ArchivedNode 444 442 210 312 316 358 4268 257, ArchivedNode (-1) (-1) 478 467 489 261 952 157,
   ArchivedNode 287 446 210 314 318 455 4242 257, ArchivedNode (-1) (-1) 390 469 57 277 1287 158,
   ArchivedNode 450 448 212 316 320 459 4231 257, ArchivedNode (-1) (-1) 468 419 505 300 997 159,
   ArchivedNode 109 452 212 318 322 162 4198 257, ArchivedNode (-1) (-1) 360 81 500 188 1713 160,
   ArchivedNode 456 454 214 320 324 211 4159 257, ArchivedNode (-1) (-1) 464 75 501 77 1009 161,
   ArchivedNode 460 458 214 322 225 109 4107 257, ArchivedNode (-1) (-1) 406 159 175 179 1187 162,
   ArchivedNode 462 187 216 225 328 333 4081 257, ArchivedNode (-1) (-1) 496 403 431 281 879 163,
   ArchivedNode 466 464 218 326 231 396 4035 257, ArchivedNode (-1) (-1) 434 41 421 282 1099 164,
   ArchivedNode 470 468 220 231 29 130 3989 257, ArchivedNode (-1) (-1) 486 355 479 271 929 165,
   ArchivedNode 472 117 222 29 239 367 3938 257, ArchivedNode (-1) (-1) 438 163 409 48 1078 166,
   ArchivedNode 115 401 224 239 336 378 3899 257, ArchivedNode (-1) (-1) 480 489 463 242 951 167,
   ArchivedNode 476 474 224 334 107 472 3852 257, ArchivedNode (-1) (-1) 368 502 353 201 1656 168,
   ArchivedNode 478 289 226 107 340 416 3822 257, ArchivedNode (-1) (-1) 484 471 355 298 930 169,
   ArchivedNode 449 480 228 338 139 218 3802 257, ArchivedNode (-1) (-1) 416 173 309 309 1153 170,
   ArchivedNode 451 482 230 139 11 483 3762 257, ArchivedNode (-1) (-1) 458 361 299 310 1030 171,
   ArchivedNode 484 111 232 243 9 7 3730 257, ArchivedNode (-1) (-1) 394 165 301 266 1262 172,
   ArchivedNode 488 486 236 137 205 376 3709 257, ArchivedNode (-1) (-1) 444 71 413 335 1062 173,
   ArchivedNode 285 490 238 205 269 443 3656 257, ArchivedNode (-1) (-1) 402 179 43 140 1214 174,
   ArchivedNode 123 492 240 269 195 235 3603 257, ArchivedNode (-1) (-1) 446 413 437 307 1060 175,
   ArchivedNode 31 494 242 195 354 177 3558 257, ArchivedNode (-1) (-1) 368 337 504 13 1621 176,
   ArchivedNode 496 161 242 352 227 214 3535 257, ArchivedNode (-1) (-1) 486 339 331 298 930 177,
   ArchivedNode 49 93 246 221 279 370 3501 257, ArchivedNode (-1) (-1) 430 433 303 283 1106 178,
   ArchivedNode 81 498 250 385 360 475 3453 257, ArchivedNode (-1) (-1) 492 423 375 349 912 179,
   ArchivedNode 500 321 250 358 362 445 3413 257, ArchivedNode (-1) (-1) 456 485 343 284 1034 180,
   ArchivedNode 215 283 252 360 364 304 3381 257, ArchivedNode (-1) (-1) 494 375 83 248 892 181,
   ArchivedNode 69 125 252 362 366 138 3340 257, ArchivedNode (-1) (-1) 414 67 173 231 1158 182,
   ArchivedNode 502 39 254 364 95 340 3321 257, ArchivedNode (-1) (-1) 472 427 453 357 990 183,
   ArchivedNode 353 337 256 399 191 353 3277 257, ArchivedNode (-1) (-1) 410 85 169 315 1175 184,
   ArchivedNode 35 504 258 191 217 399 3214 257, ArchivedNode (-1) (-1) 500 435 87 78 850 185,
   ArchivedNode 183 506 262 475 211 236 3201 257, ArchivedNode (-1) (-1) 426 457 407 289 1121 186,
   ArchivedNode 508 37 264 211 376 429 3138 257, ArchivedNode (-1) (-1) 492 359 363 324 903 187,
   ArchivedNode 143 181 264 374 378 285 3053 257, ArchivedNode (-1) (-1) 436 421 163 352 1087 188,
   ArchivedNode 141 293 266 376 380 228 3008 257, ArchivedNode (-1) (-1) 490 443 423 169 920 189,
   ArchivedNode 417 510 266 378 207 260 2969 257, ArchivedNode (-1) (-1) 420 291 147 337 1144 190,
   ArchivedNode 481 295 272 219 384 490 2722 257, ArchivedNode (-1) (-1) 450 507 77 372 1056 191]"

definition archivedNodes_3 :: "archivedNode_t list" where
  "archivedNodes_3 = [
   ArchivedNode 177 149 272 382 103 492 2702 257, ArchivedNode (-1) (-1) 248 63 358 344 3462 192,
   ArchivedNode 157 395 276 201 185 308 2673 257, ArchivedNode (-1) (-1) 302 424 426 268 2240 193,
   ArchivedNode 469 397 278 185 113 451 2596 257, ArchivedNode (-1) (-1) 206 308 310 327 4397 194,
   ArchivedNode 57 317 280 113 189 362 2560 257, ArchivedNode (-1) (-1) 92 164 166 336 12136 195,
   ArchivedNode 165 167 282 189 394 342 2530 257, ArchivedNode (-1) (-1) 132 465 224 262 7758 196,
   ArchivedNode 301 345 282 392 197 158 2520 257, ArchivedNode (-1) (-1) 386 177 157 116 1345 197,
   ArchivedNode 53 155 284 197 398 151 2494 257, ArchivedNode (-1) (-1) 388 157 469 230 1307 198,
   ArchivedNode 313 305 286 396 400 420 2486 257, ArchivedNode (-1) (-1) 256 95 368 366 3278 199,
   ArchivedNode 297 45 286 398 281 141 2474 257, ArchivedNode (-1) (-1) 334 472 115 383 1950 200,
   ArchivedNode 349 179 288 281 404 379 2442 257, ArchivedNode (-1) (-1) 496 83 327 322 886 201,
   ArchivedNode 127 43 290 402 193 301 2419 257, ArchivedNode (-1) (-1) 460 311 477 290 1023 202,
   ArchivedNode 325 159 292 193 408 449 2382 257, ArchivedNode (-1) (-1) 426 373 441 373 1112 203,
   ArchivedNode 85 175 292 406 410 68 2366 257, ArchivedNode (-1) (-1) 438 333 493 233 1077 204,
   ArchivedNode 169 369 294 408 412 356 2343 257, ArchivedNode (-1) (-1) 454 73 485 209 1042 205,
   ArchivedNode 67 461 294 410 414 462 2318 257, ArchivedNode (-1) (-1) 446 347 351 265 1061 206,
   ArchivedNode 173 365 296 412 416 474 2313 257, ArchivedNode (-1) (-1) 440 493 79 389 1071 207,
   ArchivedNode 309 341 296 414 418 438 2302 257, ArchivedNode (-1) (-1) 380 510 295 98 1484 208,
   ArchivedNode 291 55 298 416 420 196 2298 257, ArchivedNode (-1) (-1) 468 307 319 239 1001 209,
   ArchivedNode 147 381 298 418 422 446 2284 257, ArchivedNode (-1) (-1) 434 329 377 146 1096 210,
   ArchivedNode 121 47 300 420 424 478 2268 257, ArchivedNode (-1) (-1) 490 379 359 314 915 211,
   ArchivedNode 457 473 300 422 387 395 2254 257, ArchivedNode (-1) (-1) 452 77 73 256 1052 212,
   ArchivedNode 407 373 302 387 428 481 2233 257, ArchivedNode (-1) (-1) 470 505 367 303 995 213,
   ArchivedNode 433 441 304 426 213 408 2223 257, ArchivedNode (-1) (-1) 442 79 71 59 1070 214,
   ArchivedNode 303 357 306 145 432 440 2210 257, ArchivedNode (-1) (-1) 498 327 435 360 876 215,
   ArchivedNode 41 445 308 430 434 343 2203 257, ArchivedNode (-1) (-1) 428 441 357 412 1111 216,
   ArchivedNode 421 329 308 432 153 491 2195 257, ArchivedNode (-1) (-1) 498 431 371 67 851 217,
   ArchivedNode 163 377 310 153 438 480 2165 257, ArchivedNode (-1) (-1) 448 351 51 51 1059 218,
   ArchivedNode 409 333 312 436 440 319 2155 257, ArchivedNode (-1) (-1) 504 499 491 159 805 219,
   ArchivedNode 415 493 312 438 442 486 2144 257, ArchivedNode (-1) (-1) 428 407 433 373 1112 220,
   ArchivedNode 429 79 314 440 444 371 2140 257, ArchivedNode (-1) (-1) 488 479 379 377 923 221,
   ArchivedNode 347 71 314 442 446 482 2128 257, ArchivedNode (-1) (-1) 432 303 41 269 1103 222,
   ArchivedNode 351 413 316 444 287 240 2121 257, ArchivedNode (-1) (-1) 502 455 499 223 817 223,
   ArchivedNode 51 437 318 287 450 489 2118 257, ArchivedNode (-1) (-1) 340 480 482 183 1899 224,
   ArchivedNode 383 507 318 448 452 154 2113 257, ArchivedNode (-1) (-1) 342 482 111 107 1872 225,
   ArchivedNode 425 77 320 450 109 422 2105 257, ArchivedNode (-1) (-1) 472 367 151 421 976 226,
   ArchivedNode 411 73 322 109 456 428 2085 257, ArchivedNode (-1) (-1) 502 87 447 410 841 227,
   ArchivedNode 361 485 322 454 458 238 2074 257, ArchivedNode (-1) (-1) 424 473 373 415 1127 228,
   ArchivedNode 299 343 324 456 460 363 2059 257, ArchivedNode (-1) (-1) 476 89 467 186 956 229,
   ArchivedNode 405 311 324 458 187 145 2048 257, ArchivedNode (-1) (-1) 412 169 67 56 1159 230,
   ArchivedNode 497 477 326 187 464 292 2033 257, ArchivedNode (-1) (-1) 482 335 119 432 950 231,
   ArchivedNode 323 75 328 462 466 457 2021 257, ArchivedNode (-1) (-1) 132 259 393 330 7791 232,
   ArchivedNode 307 501 328 464 468 488 2014 257, ArchivedNode (-1) (-1) 478 459 315 232 954 233,
   ArchivedNode 319 419 330 466 470 467 1998 257, ArchivedNode (-1) (-1) 388 397 317 391 1289 234,
   ArchivedNode 427 505 330 468 117 426 1991 257, ArchivedNode (-1) (-1) 484 119 339 435 933 235,
   ArchivedNode 453 367 332 117 401 288 1966 257, ArchivedNode (-1) (-1) 424 121 457 415 1127 236,
   ArchivedNode 171 151 336 115 476 203 1936 257, ArchivedNode (-1) (-1) 260 217 372 453 3207 237,
   ArchivedNode 459 89 336 474 289 280 1916 257, ArchivedNode (-1) (-1) 462 405 497 234 1020 238,
   ArchivedNode 315 467 338 289 480 359 1906 257, ArchivedNode (-1) (-1) 488 331 443 206 927 239,
   ArchivedNode 335 489 340 478 449 484 1903 257, ArchivedNode (-1) (-1) 382 295 149 96 1355 240,
   ArchivedNode 119 463 342 449 451 345 1890 257, ArchivedNode (-1) (-1) 508 91 487 406 768 241,
   ArchivedNode 339 471 344 111 486 279 1863 257, ArchivedNode (-1) (-1) 456 411 361 450 1040 242,
   ArchivedNode 331 355 346 484 488 364 1859 257, ArchivedNode (-1) (-1) 510 483 512 205 745 243,
   ArchivedNode 443 479 346 486 490 454 1850 257, ArchivedNode (-1) (-1) 480 315 335 261 952 244,
   ArchivedNode 423 379 348 488 285 88 1835 257, ArchivedNode (-1) (-1) 506 439 503 159 805 245,
   ArchivedNode 375 359 350 285 123 187 1815 257, ArchivedNode (-1) (-1) 440 409 415 253 1073 246,
   ArchivedNode 83 363 352 123 31 487 1780 257, ArchivedNode (-1) (-1) 512 512 0 461 740 247,
   ArchivedNode 327 403 354 161 93 458 1765 257, ArchivedNode (-1) (-1) 462 477 75 382 1013 248,
   ArchivedNode 435 431 358 49 81 341 1727 257, ArchivedNode (-1) (-1) 504 447 439 159 805 249,
   ArchivedNode 87 371 360 321 283 216 1700 257, ArchivedNode (-1) (-1) 466 323 307 8 1008 250,
   ArchivedNode 447 455 366 39 337 6 1658 257, ArchivedNode (-1) (-1) 506 491 91 424 796 251,
   ArchivedNode 439 499 370 353 35 434 1610 257, ArchivedNode (-1) (-1) 470 319 427 93 996 252,
   ArchivedNode 503 491 372 35 183 456 1601 257, ArchivedNode (-1) (-1) 450 51 383 71 1057 253,
   ArchivedNode 483 91 374 37 181 479 1548 257, ArchivedNode (-1) (-1) 94 168 170 369 11457 254,
   ArchivedNode 512 487 380 141 417 414 1485 257, ArchivedNode (-1) (-1) 84 150 152 255 13504 255,
   ArchivedNode 0 495 510 487 495 461 740 257]"

definition archivedNodes :: "archivedNode_t list" where
  "archivedNodes = archivedNodes_0 @ archivedNodes_1 @ archivedNodes_2 @ archivedNodes_3"

definition locNums :: "int list" where
  "locNums = [
   1, 3, 5, 7, 9, 11, 13, 15, 17, 19, 21, 23, 25, 27, 29, 31,
   33, 35, 37, 39, 41, 43, 45, 47, 49, 51, 53, 55, 57, 59, 61, 63,
   65, 67, 69, 71, 73, 75, 77, 79, 81, 83, 85, 87, 89, 91, 93, 95,
   97, 99, 101, 103, 105, 107, 109, 111, 113, 115, 117, 119, 121, 123, 125, 127,
   129, 131, 133, 135, 137, 139, 141, 143, 145, 147, 149, 151, 153, 155, 157, 159,
   161, 163, 165, 167, 169, 171, 173, 175, 177, 179, 181, 183, 185, 187, 189, 191,
   193, 195, 197, 199, 201, 203, 205, 207, 209, 211, 213, 215, 217, 219, 221, 223,
   225, 227, 229, 231, 233, 235, 237, 239, 241, 243, 245, 247, 249, 251, 253, 255,
   257, 259, 261, 263, 265, 267, 269, 271, 273, 275, 277, 279, 281, 283, 285, 287,
   289, 291, 293, 295, 297, 299, 301, 303, 305, 307, 309, 311, 313, 315, 317, 319,
   321, 323, 325, 327, 329, 331, 333, 335, 337, 339, 341, 343, 345, 347, 349, 351,
   353, 355, 357, 359, 361, 363, 365, 367, 369, 371, 373, 375, 377, 379, 381, 383,
   385, 387, 389, 391, 393, 395, 397, 399, 401, 403, 405, 407, 409, 411, 413, 415,
   417, 419, 421, 423, 425, 427, 429, 431, 433, 435, 437, 439, 441, 443, 445, 447,
   449, 451, 453, 455, 457, 459, 461, 463, 465, 467, 469, 471, 473, 475, 477, 479,
   481, 483, 485, 487, 489, 491, 493, 495, 497, 499, 501, 503, 505, 507, 509, 511,
   0]"

section \<open>Linking the rows\<close>

text \<open>A pointer into \<open>nodeList\<close> is the index it points at, the null pointer is \<open>None\<close>.\<close>

record constNode_t =
  cn_left :: "nat option"
  cn_right :: "nat option"
  cn_parent :: "nat option"
  cn_symbol :: nat

definition node_ptr :: "int \<Rightarrow> nat option" where
  "node_ptr i = (if i \<noteq> -1 then Some (nat i) else None)"

fun link_node :: "archivedNode_t \<Rightarrow> constNode_t" where
  "link_node (ArchivedNode l r p nx pv hdp w s) =
     \<lparr>cn_left = node_ptr l, cn_right = node_ptr r, cn_parent = node_ptr p, cn_symbol = s\<rparr>"

record ConstHuff =
  ch_tree :: nat
  ch_loc :: "nat option list"
  ch_nodeList :: "constNode_t list"

definition ConstHuff_new :: "nat \<Rightarrow> int list \<Rightarrow> archivedNode_t list \<Rightarrow> ConstHuff" where
  "ConstHuff_new treeNum inLocs nodes =
     \<lparr>ch_tree = treeNum, ch_loc = map node_ptr inLocs, ch_nodeList = map link_node nodes\<rparr>"

definition huff :: ConstHuff where
  "huff = ConstHuff_new 2 locNums archivedNodes"

section \<open>The shape of the tree\<close>

datatype htree = HLeaf nat nat | HNode nat htree htree

fun hroot :: "htree \<Rightarrow> nat" where
  "hroot (HLeaf i s) = i"
| "hroot (HNode i l r) = i"

text \<open>The node a list of turns leads to (right is \<open>True\<close>), with its index and its row.\<close>

fun row_at :: "nat option \<Rightarrow> htree \<Rightarrow> bool list \<Rightarrow> (nat \<times> constNode_t) option" where
  "row_at p (HLeaf i s) [] =
     Some (i, \<lparr>cn_left = None, cn_right = None, cn_parent = p, cn_symbol = s\<rparr>)"
| "row_at p (HLeaf i s) (b # bs) = None"
| "row_at p (HNode i l r) [] =
     Some (i, \<lparr>cn_left = Some (hroot l), cn_right = Some (hroot r), cn_parent = p,
               cn_symbol = 257\<rparr>)"
| "row_at p (HNode i l r) (b # bs) = row_at (Some i) (if b then r else l) bs"

fun shape_paths :: "htree \<Rightarrow> bool list list" where
  "shape_paths (HLeaf i s) = [[]]"
| "shape_paths (HNode i l r) =
     [] # map ((#) False) (shape_paths l) @ map ((#) True) (shape_paths r)"

fun shape_ok :: "htree \<Rightarrow> bool" where
  "shape_ok (HLeaf i s) = (s \<noteq> 257)"
| "shape_ok (HNode i l r) = (hroot l \<noteq> hroot r \<and> shape_ok l \<and> shape_ok r)"

fun shape_height :: "htree \<Rightarrow> nat" where
  "shape_height (HLeaf i s) = 0"
| "shape_height (HNode i l r) = 1 + max (shape_height l) (shape_height r)"

definition huff_shape_48 :: htree where
  "huff_shape_48 =
    (HNode 48 (HNode 92 (HNode 166 (HNode 266 (HNode 380 (HLeaf 417 208) (HNode 510 (HNode 512
    (HLeaf 0 256) (HLeaf 495 247)) (HLeaf 487 243))) (HNode 378 (HLeaf 141 70) (HLeaf 293 146)))
    (HLeaf 235 117)) (HLeaf 391 195)) (HNode 90 (HNode 164 (HLeaf 13 6) (HLeaf 131 65)) (HNode
    162 (HLeaf 203 101) (HNode 264 (HNode 376 (HLeaf 143 71) (HLeaf 181 90)) (HNode 374 (HNode
    508 (HLeaf 483 241) (HLeaf 91 45)) (HLeaf 37 18))))))"

definition huff_shape_46 :: htree where
  "huff_shape_46 =
    (HNode 46 (HNode 88 (HNode 160 (HLeaf 253 126) (HLeaf 5 2)) (HNode 158 (HNode 262 (HLeaf 211
    105) (HNode 372 (HLeaf 183 91) (HNode 506 (HLeaf 503 251) (HLeaf 491 245)))) (HLeaf 251
    125))) (HNode 86 (HNode 156 (HNode 260 (HLeaf 475 237) (HLeaf 217 108)) (HNode 258 (HNode
    370 (HLeaf 35 17) (HNode 504 (HLeaf 439 219) (HLeaf 499 249))) (HLeaf 191 95))) (HNode 154
    (HNode 256 (HNode 368 (HLeaf 353 176) (HLeaf 337 168)) (HLeaf 399 199)) (HNode 254 (HLeaf 95
    47) (HNode 366 (HNode 502 (HLeaf 447 223) (HLeaf 455 227)) (HLeaf 39 19))))))"

definition huff_shape_44 :: htree where
  "huff_shape_44 =
    (HNode 44 (HNode 84 (HNode 152 (HLeaf 135 67) (HNode 252 (HNode 364 (HLeaf 69 34) (HLeaf 125
    62)) (HNode 362 (HLeaf 215 107) (HLeaf 283 141)))) (HLeaf 511 255)) (HNode 82 (HNode 150
    (HNode 250 (HNode 360 (HNode 500 (HLeaf 87 43) (HLeaf 371 185)) (HLeaf 321 160)) (HNode 358
    (HLeaf 81 40) (HNode 498 (HLeaf 435 217) (HLeaf 431 215)))) (HNode 248 (HLeaf 385 192)
    (HLeaf 63 31))) (HNode 148 (HLeaf 19 9) (HNode 246 (HLeaf 279 139) (HNode 356 (HLeaf 49 24)
    (HLeaf 93 46))))))"

definition huff_shape_42 :: htree where
  "huff_shape_42 =
    (HNode 42 (HNode 80 (HNode 146 (HNode 244 (HLeaf 221 110) (HLeaf 227 113)) (HLeaf 261 130))
    (HNode 144 (HNode 242 (HNode 354 (HNode 496 (HLeaf 327 163) (HLeaf 403 201)) (HLeaf 161 80))
    (HNode 352 (HLeaf 31 15) (HNode 494 (HLeaf 83 41) (HLeaf 363 181)))) (HLeaf 7 3))) (HNode 78
    (HLeaf 209 104) (HNode 142 (HNode 240 (HLeaf 195 97) (HNode 350 (HLeaf 123 61) (HNode 492
    (HLeaf 375 187) (HLeaf 359 179)))) (HLeaf 133 66))))"

definition huff_shape_40 :: htree where
  "huff_shape_40 =
    (HNode 40 (HNode 76 (HNode 140 (HNode 238 (HLeaf 269 134) (HNode 348 (HLeaf 285 142) (HNode
    490 (HLeaf 423 211) (HLeaf 379 189)))) (HNode 236 (HLeaf 205 102) (HNode 346 (HNode 488
    (HLeaf 443 221) (HLeaf 479 239)) (HNode 486 (HLeaf 331 165) (HLeaf 355 177))))) (HNode 138
    (HNode 234 (HLeaf 137 68) (HLeaf 9 4)) (HNode 232 (HNode 344 (HNode 484 (HLeaf 339 169)
    (HLeaf 471 235)) (HLeaf 111 55)) (HLeaf 243 121)))) (HNode 74 (HNode 136 (HNode 230 (HLeaf
    11 5) (HNode 342 (HLeaf 451 225) (HNode 482 (HLeaf 119 59) (HLeaf 463 231)))) (HNode 228
    (HLeaf 139 69) (HNode 340 (HLeaf 449 224) (HNode 480 (HLeaf 335 167) (HLeaf 489 244)))))
    (HNode 134 (HNode 226 (HNode 338 (HNode 478 (HLeaf 315 157) (HLeaf 467 233)) (HLeaf 289
    144)) (HLeaf 107 53)) (HNode 224 (HNode 336 (HNode 476 (HLeaf 459 229) (HLeaf 89 44)) (HNode
    474 (HLeaf 171 85) (HLeaf 151 75))) (HNode 334 (HLeaf 115 57) (HLeaf 401 200))))))"

definition huff_shape_38 :: htree where
  "huff_shape_38 =
    (HNode 38 (HNode 72 (HNode 132 (HLeaf 393 196) (HLeaf 465 232)) (HNode 130 (HLeaf 259 129)
    (HLeaf 21 10))) (HNode 70 (HNode 128 (HNode 222 (HLeaf 239 119) (HNode 332 (HNode 472 (HLeaf
    453 226) (HLeaf 367 183)) (HLeaf 117 58))) (HLeaf 233 116)) (HNode 126 (HNode 220 (HLeaf 29
    14) (HNode 330 (HNode 470 (HLeaf 427 213) (HLeaf 505 252)) (HNode 468 (HLeaf 319 159) (HLeaf
    419 209)))) (HNode 218 (HLeaf 231 115) (HNode 328 (HNode 466 (HLeaf 307 153) (HLeaf 501
    250)) (HNode 464 (HLeaf 323 161) (HLeaf 75 37)))))))"

definition huff_shape_36 :: htree where
  "huff_shape_36 =
    (HNode 36 (HNode 68 (HNode 124 (HNode 216 (HNode 326 (HNode 462 (HLeaf 497 248) (HLeaf 477
    238)) (HLeaf 187 93)) (HLeaf 225 112)) (HNode 214 (HNode 324 (HNode 460 (HLeaf 405 202)
    (HLeaf 311 155)) (HNode 458 (HLeaf 299 149) (HLeaf 343 171))) (HNode 322 (HNode 456 (HLeaf
    361 180) (HLeaf 485 242)) (HNode 454 (HLeaf 411 205) (HLeaf 73 36))))) (HNode 122 (HLeaf 33
    16) (HLeaf 255 127))) (HLeaf 17 8))"

definition huff_shape_34 :: htree where
  "huff_shape_34 =
    (HNode 34 (HNode 66 (HNode 120 (HNode 212 (HNode 320 (HLeaf 109 54) (HNode 452 (HLeaf 425
    212) (HLeaf 77 38))) (HNode 318 (HNode 450 (HLeaf 383 191) (HLeaf 507 253)) (HNode 448
    (HLeaf 51 25) (HLeaf 437 218)))) (HNode 210 (HNode 316 (HLeaf 287 143) (HNode 446 (HLeaf 351
    175) (HLeaf 413 206))) (HNode 314 (HNode 444 (HLeaf 347 173) (HLeaf 71 35)) (HNode 442
    (HLeaf 429 214) (HLeaf 79 39))))) (HLeaf 27 13)) (HNode 64 (HNode 118 (HNode 208 (HNode 312
    (HNode 440 (HLeaf 415 207) (HLeaf 493 246)) (HNode 438 (HLeaf 409 204) (HLeaf 333 166)))
    (HNode 310 (HNode 436 (HLeaf 163 81) (HLeaf 377 188)) (HLeaf 153 76))) (HNode 206 (HLeaf 389
    194) (HNode 308 (HNode 434 (HLeaf 421 210) (HLeaf 329 164)) (HNode 432 (HLeaf 41 20) (HLeaf
    445 222))))) (HNode 116 (HNode 204 (HNode 306 (HNode 430 (HLeaf 303 151) (HLeaf 357 178))
    (HLeaf 145 72)) (HNode 304 (HLeaf 213 106) (HNode 428 (HLeaf 433 216) (HLeaf 441 220))))
    (HLeaf 263 131))))"

definition huff_shape_32 :: htree where
  "huff_shape_32 =
    (HNode 32 (HNode 62 (HNode 114 (HNode 202 (HNode 302 (HNode 426 (HLeaf 407 203) (HLeaf 373
    186)) (HLeaf 387 193)) (HLeaf 267 133)) (HNode 200 (HLeaf 59 29) (HLeaf 99 49))) (HNode 112
    (HNode 198 (HNode 300 (HNode 424 (HLeaf 457 228) (HLeaf 473 236)) (HNode 422 (HLeaf 121 60)
    (HLeaf 47 23))) (HLeaf 245 122)) (HNode 196 (HNode 298 (HNode 420 (HLeaf 147 73) (HLeaf 381
    190)) (HNode 418 (HLeaf 291 145) (HLeaf 55 27))) (HNode 296 (HNode 416 (HLeaf 309 154)
    (HLeaf 341 170)) (HNode 414 (HLeaf 173 86) (HLeaf 365 182)))))) (HNode 60 (HNode 110 (HLeaf
    25 12) (HNode 194 (HLeaf 105 52) (HNode 294 (HNode 412 (HLeaf 67 33) (HLeaf 461 230)) (HNode
    410 (HLeaf 169 84) (HLeaf 369 184))))) (HNode 108 (HNode 192 (HNode 292 (HNode 408 (HLeaf 85
    42) (HLeaf 175 87)) (HNode 406 (HLeaf 325 162) (HLeaf 159 79))) (HLeaf 223 111)) (HNode 190
    (HLeaf 247 123) (HNode 290 (HLeaf 193 96) (HNode 404 (HLeaf 127 63) (HLeaf 43 21)))))))"

definition huff_shape_30 :: htree where
  "huff_shape_30 =
    (HNode 30 (HNode 58 (HNode 106 (HLeaf 23 11) (HNode 188 (HLeaf 241 120) (HNode 288 (HNode
    402 (HLeaf 349 174) (HLeaf 179 89)) (HLeaf 281 140)))) (HNode 104 (HNode 186 (HNode 286
    (HNode 400 (HLeaf 297 148) (HLeaf 45 22)) (HNode 398 (HLeaf 313 156) (HLeaf 305 152)))
    (HNode 284 (HNode 396 (HLeaf 53 26) (HLeaf 155 77)) (HLeaf 197 98))) (HNode 184 (HNode 282
    (HNode 394 (HLeaf 301 150) (HLeaf 345 172)) (HNode 392 (HLeaf 165 82) (HLeaf 167 83)))
    (HNode 280 (HLeaf 189 94) (HNode 390 (HLeaf 57 28) (HLeaf 317 158)))))) (HLeaf 3 1))"

definition huff_shape_28 :: htree where
  "huff_shape_28 =
    (HNode 28 (HNode 56 (HNode 102 (HNode 182 (HNode 278 (HLeaf 113 56) (HNode 388 (HLeaf 469
    234) (HLeaf 397 198))) (HLeaf 271 135)) (HNode 180 (HLeaf 229 114) (HNode 276 (HLeaf 185 92)
    (HNode 386 (HLeaf 157 78) (HLeaf 395 197))))) (HNode 100 (HLeaf 97 48) (HNode 178 (HLeaf 273
    136) (HLeaf 275 137)))) (HNode 54 (HNode 98 (HNode 176 (HLeaf 237 118) (HNode 274 (HLeaf 201
    100) (HLeaf 103 51))) (HNode 174 (HLeaf 277 138) (HNode 272 (HNode 384 (HLeaf 177 88) (HLeaf
    149 74)) (HNode 382 (HLeaf 481 240) (HLeaf 295 147))))) (HLeaf 65 32)))"

definition huff_shape_26 :: htree where
  "huff_shape_26 =
    (HNode 26 (HNode 52 (HNode 96 (HNode 172 (HLeaf 265 132) (HNode 270 (HLeaf 219 109) (HLeaf
    199 99))) (HNode 170 (HNode 268 (HLeaf 61 30) (HLeaf 207 103)) (HLeaf 129 64))) (HNode 94
    (HLeaf 509 254) (HNode 168 (HLeaf 249 124) (HLeaf 101 50)))) (HNode 50 (HLeaf 257 128)
    (HLeaf 15 7)))"

definition huff_shape :: htree where
  "huff_shape =
    (HNode 2 (HNode 6 (HNode 12 (HNode 24 huff_shape_48 huff_shape_46) (HNode 22 huff_shape_44
    huff_shape_42)) (HLeaf 1 0)) (HNode 4 (HNode 10 (HNode 20 huff_shape_40 huff_shape_38)
    (HNode 18 huff_shape_36 huff_shape_34)) (HNode 8 (HNode 16 huff_shape_32 huff_shape_30)
    (HNode 14 huff_shape_28 huff_shape_26))))"

lemmas huff_subshape_defs =
    huff_shape_48_def huff_shape_46_def huff_shape_44_def huff_shape_42_def huff_shape_40_def
    huff_shape_38_def huff_shape_36_def huff_shape_34_def huff_shape_32_def huff_shape_30_def
    huff_shape_28_def huff_shape_26_def

lemma row_at_48: "row_at p huff_shape_48 bs = row_at p 
    (HNode 48 (HNode 92 (HNode 166 (HNode 266 (HNode 380 (HLeaf 417 208) (HNode 510 (HNode 512
    (HLeaf 0 256) (HLeaf 495 247)) (HLeaf 487 243))) (HNode 378 (HLeaf 141 70) (HLeaf 293 146)))
    (HLeaf 235 117)) (HLeaf 391 195)) (HNode 90 (HNode 164 (HLeaf 13 6) (HLeaf 131 65)) (HNode
    162 (HLeaf 203 101) (HNode 264 (HNode 376 (HLeaf 143 71) (HLeaf 181 90)) (HNode 374 (HNode
    508 (HLeaf 483 241) (HLeaf 91 45)) (HLeaf 37 18)))))) bs"
  by (simp only: huff_shape_48_def)

lemma hroot_48: "hroot huff_shape_48 = 48"
  by (simp add: huff_shape_48_def)

lemma row_at_46: "row_at p huff_shape_46 bs = row_at p 
    (HNode 46 (HNode 88 (HNode 160 (HLeaf 253 126) (HLeaf 5 2)) (HNode 158 (HNode 262 (HLeaf 211
    105) (HNode 372 (HLeaf 183 91) (HNode 506 (HLeaf 503 251) (HLeaf 491 245)))) (HLeaf 251
    125))) (HNode 86 (HNode 156 (HNode 260 (HLeaf 475 237) (HLeaf 217 108)) (HNode 258 (HNode
    370 (HLeaf 35 17) (HNode 504 (HLeaf 439 219) (HLeaf 499 249))) (HLeaf 191 95))) (HNode 154
    (HNode 256 (HNode 368 (HLeaf 353 176) (HLeaf 337 168)) (HLeaf 399 199)) (HNode 254 (HLeaf 95
    47) (HNode 366 (HNode 502 (HLeaf 447 223) (HLeaf 455 227)) (HLeaf 39 19)))))) bs"
  by (simp only: huff_shape_46_def)

lemma hroot_46: "hroot huff_shape_46 = 46"
  by (simp add: huff_shape_46_def)

lemma row_at_44: "row_at p huff_shape_44 bs = row_at p 
    (HNode 44 (HNode 84 (HNode 152 (HLeaf 135 67) (HNode 252 (HNode 364 (HLeaf 69 34) (HLeaf 125
    62)) (HNode 362 (HLeaf 215 107) (HLeaf 283 141)))) (HLeaf 511 255)) (HNode 82 (HNode 150
    (HNode 250 (HNode 360 (HNode 500 (HLeaf 87 43) (HLeaf 371 185)) (HLeaf 321 160)) (HNode 358
    (HLeaf 81 40) (HNode 498 (HLeaf 435 217) (HLeaf 431 215)))) (HNode 248 (HLeaf 385 192)
    (HLeaf 63 31))) (HNode 148 (HLeaf 19 9) (HNode 246 (HLeaf 279 139) (HNode 356 (HLeaf 49 24)
    (HLeaf 93 46)))))) bs"
  by (simp only: huff_shape_44_def)

lemma hroot_44: "hroot huff_shape_44 = 44"
  by (simp add: huff_shape_44_def)

lemma row_at_42: "row_at p huff_shape_42 bs = row_at p 
    (HNode 42 (HNode 80 (HNode 146 (HNode 244 (HLeaf 221 110) (HLeaf 227 113)) (HLeaf 261 130))
    (HNode 144 (HNode 242 (HNode 354 (HNode 496 (HLeaf 327 163) (HLeaf 403 201)) (HLeaf 161 80))
    (HNode 352 (HLeaf 31 15) (HNode 494 (HLeaf 83 41) (HLeaf 363 181)))) (HLeaf 7 3))) (HNode 78
    (HLeaf 209 104) (HNode 142 (HNode 240 (HLeaf 195 97) (HNode 350 (HLeaf 123 61) (HNode 492
    (HLeaf 375 187) (HLeaf 359 179)))) (HLeaf 133 66)))) bs"
  by (simp only: huff_shape_42_def)

lemma hroot_42: "hroot huff_shape_42 = 42"
  by (simp add: huff_shape_42_def)

lemma row_at_40: "row_at p huff_shape_40 bs = row_at p 
    (HNode 40 (HNode 76 (HNode 140 (HNode 238 (HLeaf 269 134) (HNode 348 (HLeaf 285 142) (HNode
    490 (HLeaf 423 211) (HLeaf 379 189)))) (HNode 236 (HLeaf 205 102) (HNode 346 (HNode 488
    (HLeaf 443 221) (HLeaf 479 239)) (HNode 486 (HLeaf 331 165) (HLeaf 355 177))))) (HNode 138
    (HNode 234 (HLeaf 137 68) (HLeaf 9 4)) (HNode 232 (HNode 344 (HNode 484 (HLeaf 339 169)
    (HLeaf 471 235)) (HLeaf 111 55)) (HLeaf 243 121)))) (HNode 74 (HNode 136 (HNode 230 (HLeaf
    11 5) (HNode 342 (HLeaf 451 225) (HNode 482 (HLeaf 119 59) (HLeaf 463 231)))) (HNode 228
    (HLeaf 139 69) (HNode 340 (HLeaf 449 224) (HNode 480 (HLeaf 335 167) (HLeaf 489 244)))))
    (HNode 134 (HNode 226 (HNode 338 (HNode 478 (HLeaf 315 157) (HLeaf 467 233)) (HLeaf 289
    144)) (HLeaf 107 53)) (HNode 224 (HNode 336 (HNode 476 (HLeaf 459 229) (HLeaf 89 44)) (HNode
    474 (HLeaf 171 85) (HLeaf 151 75))) (HNode 334 (HLeaf 115 57) (HLeaf 401 200)))))) bs"
  by (simp only: huff_shape_40_def)

lemma hroot_40: "hroot huff_shape_40 = 40"
  by (simp add: huff_shape_40_def)

lemma row_at_38: "row_at p huff_shape_38 bs = row_at p 
    (HNode 38 (HNode 72 (HNode 132 (HLeaf 393 196) (HLeaf 465 232)) (HNode 130 (HLeaf 259 129)
    (HLeaf 21 10))) (HNode 70 (HNode 128 (HNode 222 (HLeaf 239 119) (HNode 332 (HNode 472 (HLeaf
    453 226) (HLeaf 367 183)) (HLeaf 117 58))) (HLeaf 233 116)) (HNode 126 (HNode 220 (HLeaf 29
    14) (HNode 330 (HNode 470 (HLeaf 427 213) (HLeaf 505 252)) (HNode 468 (HLeaf 319 159) (HLeaf
    419 209)))) (HNode 218 (HLeaf 231 115) (HNode 328 (HNode 466 (HLeaf 307 153) (HLeaf 501
    250)) (HNode 464 (HLeaf 323 161) (HLeaf 75 37))))))) bs"
  by (simp only: huff_shape_38_def)

lemma hroot_38: "hroot huff_shape_38 = 38"
  by (simp add: huff_shape_38_def)

lemma row_at_36: "row_at p huff_shape_36 bs = row_at p 
    (HNode 36 (HNode 68 (HNode 124 (HNode 216 (HNode 326 (HNode 462 (HLeaf 497 248) (HLeaf 477
    238)) (HLeaf 187 93)) (HLeaf 225 112)) (HNode 214 (HNode 324 (HNode 460 (HLeaf 405 202)
    (HLeaf 311 155)) (HNode 458 (HLeaf 299 149) (HLeaf 343 171))) (HNode 322 (HNode 456 (HLeaf
    361 180) (HLeaf 485 242)) (HNode 454 (HLeaf 411 205) (HLeaf 73 36))))) (HNode 122 (HLeaf 33
    16) (HLeaf 255 127))) (HLeaf 17 8)) bs"
  by (simp only: huff_shape_36_def)

lemma hroot_36: "hroot huff_shape_36 = 36"
  by (simp add: huff_shape_36_def)

lemma row_at_34: "row_at p huff_shape_34 bs = row_at p 
    (HNode 34 (HNode 66 (HNode 120 (HNode 212 (HNode 320 (HLeaf 109 54) (HNode 452 (HLeaf 425
    212) (HLeaf 77 38))) (HNode 318 (HNode 450 (HLeaf 383 191) (HLeaf 507 253)) (HNode 448
    (HLeaf 51 25) (HLeaf 437 218)))) (HNode 210 (HNode 316 (HLeaf 287 143) (HNode 446 (HLeaf 351
    175) (HLeaf 413 206))) (HNode 314 (HNode 444 (HLeaf 347 173) (HLeaf 71 35)) (HNode 442
    (HLeaf 429 214) (HLeaf 79 39))))) (HLeaf 27 13)) (HNode 64 (HNode 118 (HNode 208 (HNode 312
    (HNode 440 (HLeaf 415 207) (HLeaf 493 246)) (HNode 438 (HLeaf 409 204) (HLeaf 333 166)))
    (HNode 310 (HNode 436 (HLeaf 163 81) (HLeaf 377 188)) (HLeaf 153 76))) (HNode 206 (HLeaf 389
    194) (HNode 308 (HNode 434 (HLeaf 421 210) (HLeaf 329 164)) (HNode 432 (HLeaf 41 20) (HLeaf
    445 222))))) (HNode 116 (HNode 204 (HNode 306 (HNode 430 (HLeaf 303 151) (HLeaf 357 178))
    (HLeaf 145 72)) (HNode 304 (HLeaf 213 106) (HNode 428 (HLeaf 433 216) (HLeaf 441 220))))
    (HLeaf 263 131)))) bs"
  by (simp only: huff_shape_34_def)

lemma hroot_34: "hroot huff_shape_34 = 34"
  by (simp add: huff_shape_34_def)

lemma row_at_32: "row_at p huff_shape_32 bs = row_at p 
    (HNode 32 (HNode 62 (HNode 114 (HNode 202 (HNode 302 (HNode 426 (HLeaf 407 203) (HLeaf 373
    186)) (HLeaf 387 193)) (HLeaf 267 133)) (HNode 200 (HLeaf 59 29) (HLeaf 99 49))) (HNode 112
    (HNode 198 (HNode 300 (HNode 424 (HLeaf 457 228) (HLeaf 473 236)) (HNode 422 (HLeaf 121 60)
    (HLeaf 47 23))) (HLeaf 245 122)) (HNode 196 (HNode 298 (HNode 420 (HLeaf 147 73) (HLeaf 381
    190)) (HNode 418 (HLeaf 291 145) (HLeaf 55 27))) (HNode 296 (HNode 416 (HLeaf 309 154)
    (HLeaf 341 170)) (HNode 414 (HLeaf 173 86) (HLeaf 365 182)))))) (HNode 60 (HNode 110 (HLeaf
    25 12) (HNode 194 (HLeaf 105 52) (HNode 294 (HNode 412 (HLeaf 67 33) (HLeaf 461 230)) (HNode
    410 (HLeaf 169 84) (HLeaf 369 184))))) (HNode 108 (HNode 192 (HNode 292 (HNode 408 (HLeaf 85
    42) (HLeaf 175 87)) (HNode 406 (HLeaf 325 162) (HLeaf 159 79))) (HLeaf 223 111)) (HNode 190
    (HLeaf 247 123) (HNode 290 (HLeaf 193 96) (HNode 404 (HLeaf 127 63) (HLeaf 43 21))))))) bs"
  by (simp only: huff_shape_32_def)

lemma hroot_32: "hroot huff_shape_32 = 32"
  by (simp add: huff_shape_32_def)

lemma row_at_30: "row_at p huff_shape_30 bs = row_at p 
    (HNode 30 (HNode 58 (HNode 106 (HLeaf 23 11) (HNode 188 (HLeaf 241 120) (HNode 288 (HNode
    402 (HLeaf 349 174) (HLeaf 179 89)) (HLeaf 281 140)))) (HNode 104 (HNode 186 (HNode 286
    (HNode 400 (HLeaf 297 148) (HLeaf 45 22)) (HNode 398 (HLeaf 313 156) (HLeaf 305 152)))
    (HNode 284 (HNode 396 (HLeaf 53 26) (HLeaf 155 77)) (HLeaf 197 98))) (HNode 184 (HNode 282
    (HNode 394 (HLeaf 301 150) (HLeaf 345 172)) (HNode 392 (HLeaf 165 82) (HLeaf 167 83)))
    (HNode 280 (HLeaf 189 94) (HNode 390 (HLeaf 57 28) (HLeaf 317 158)))))) (HLeaf 3 1)) bs"
  by (simp only: huff_shape_30_def)

lemma hroot_30: "hroot huff_shape_30 = 30"
  by (simp add: huff_shape_30_def)

lemma row_at_28: "row_at p huff_shape_28 bs = row_at p 
    (HNode 28 (HNode 56 (HNode 102 (HNode 182 (HNode 278 (HLeaf 113 56) (HNode 388 (HLeaf 469
    234) (HLeaf 397 198))) (HLeaf 271 135)) (HNode 180 (HLeaf 229 114) (HNode 276 (HLeaf 185 92)
    (HNode 386 (HLeaf 157 78) (HLeaf 395 197))))) (HNode 100 (HLeaf 97 48) (HNode 178 (HLeaf 273
    136) (HLeaf 275 137)))) (HNode 54 (HNode 98 (HNode 176 (HLeaf 237 118) (HNode 274 (HLeaf 201
    100) (HLeaf 103 51))) (HNode 174 (HLeaf 277 138) (HNode 272 (HNode 384 (HLeaf 177 88) (HLeaf
    149 74)) (HNode 382 (HLeaf 481 240) (HLeaf 295 147))))) (HLeaf 65 32))) bs"
  by (simp only: huff_shape_28_def)

lemma hroot_28: "hroot huff_shape_28 = 28"
  by (simp add: huff_shape_28_def)

lemma row_at_26: "row_at p huff_shape_26 bs = row_at p 
    (HNode 26 (HNode 52 (HNode 96 (HNode 172 (HLeaf 265 132) (HNode 270 (HLeaf 219 109) (HLeaf
    199 99))) (HNode 170 (HNode 268 (HLeaf 61 30) (HLeaf 207 103)) (HLeaf 129 64))) (HNode 94
    (HLeaf 509 254) (HNode 168 (HLeaf 249 124) (HLeaf 101 50)))) (HNode 50 (HLeaf 257 128)
    (HLeaf 15 7))) bs"
  by (simp only: huff_shape_26_def)

lemma hroot_26: "hroot huff_shape_26 = 26"
  by (simp add: huff_shape_26_def)

lemmas row_at_subshapes =
    row_at_48 hroot_48 row_at_46 hroot_46 row_at_44 hroot_44 row_at_42 hroot_42 row_at_40
    hroot_40 row_at_38 hroot_38 row_at_36 hroot_36 row_at_34 hroot_34 row_at_32 hroot_32
    row_at_30 hroot_30 row_at_28 hroot_28 row_at_26 hroot_26

text \<open>The turns to each node of the table, and to the leaf of each symbol.\<close>

abbreviation tL :: bool where "tL \<equiv> False"
abbreviation tR :: bool where "tR \<equiv> True"

definition huff_paths :: "bool list list" where
  "huff_paths = [
    [tL,tL,tL,tL,tL,tL,tL,tL,tR,tL,tL], [tL,tR], [], [tR,tR,tL,tR,tR],
    [tR], [tL,tL,tL,tR,tL,tL,tR], [tL], [tL,tL,tR,tR,tL,tR,tR],
    [tR,tR], [tR,tL,tL,tL,tL,tR,tL,tR], [tR,tL], [tR,tL,tL,tL,tR,tL,tL,tL],
    [tL,tL], [tL,tL,tL,tL,tR,tL,tL], [tR,tR,tR], [tR,tR,tR,tR,tR,tR],
    [tR,tR,tL], [tR,tL,tR,tL,tR], [tR,tL,tR], [tL,tL,tR,tL,tR,tR,tL],
    [tR,tL,tL], [tR,tL,tL,tR,tL,tR,tR], [tL,tL,tR], [tR,tR,tL,tR,tL,tL,tL],
    [tL,tL,tL], [tR,tR,tL,tL,tR,tL,tL], [tR,tR,tR,tR], [tR,tL,tR,tR,tL,tR],
    [tR,tR,tR,tL], [tR,tL,tL,tR,tR,tR,tL,tL], [tR,tR,tL,tR], [tL,tL,tR,tR,tL,tR,tL,tR,tL],
    [tR,tR,tL,tL], [tR,tL,tR,tL,tL,tR,tL], [tR,tL,tR,tR], [tL,tL,tL,tR,tR,tL,tR,tL,tL],
    [tR,tL,tR,tL], [tL,tL,tL,tL,tR,tR,tR,tR,tR], [tR,tL,tL,tR], [tL,tL,tL,tR,tR,tR,tR,tR,tR],
    [tR,tL,tL,tL], [tR,tL,tR,tR,tR,tL,tR,tR,tR,tL], [tL,tL,tR,tR], [tR,tR,tL,tL,tR,tR,tR,tR,tR,tR],
    [tL,tL,tR,tL], [tR,tR,tL,tR,tL,tR,tL,tL,tL,tR], [tL,tL,tL,tR], [tR,tR,tL,tL,tL,tR,tL,tL,tR,tR],
    [tL,tL,tL,tL], [tL,tL,tR,tL,tR,tR,tR,tR,tL], [tR,tR,tR,tR,tR], [tR,tL,tR,tR,tL,tL,tL,tR,tR,tL],
    [tR,tR,tR,tR,tL], [tR,tR,tL,tR,tL,tR,tL,tR,tL,tL], [tR,tR,tR,tL,tR], [tR,tR,tL,tL,tL,tR,tR,tL,tR,tR],
    [tR,tR,tR,tL,tL], [tR,tR,tL,tR,tL,tR,tR,tR,tR,tL], [tR,tR,tL,tR,tL], [tR,tR,tL,tL,tL,tL,tR,tL],
    [tR,tR,tL,tL,tR], [tR,tR,tR,tR,tL,tL,tR,tL,tL], [tR,tR,tL,tL,tL], [tL,tL,tR,tL,tR,tL,tR,tR],
    [tR,tL,tR,tR,tR], [tR,tR,tR,tL,tR,tR], [tR,tL,tR,tR,tL], [tR,tR,tL,tL,tR,tL,tR,tR,tL,tL],
    [tR,tL,tR,tL,tL], [tL,tL,tR,tL,tL,tL,tR,tL,tL], [tR,tL,tL,tR,tR], [tR,tL,tR,tR,tL,tL,tR,tR,tL,tR],
    [tR,tL,tL,tR,tL], [tR,tL,tR,tL,tL,tL,tR,tR,tR,tR], [tR,tL,tL,tL,tR], [tR,tL,tL,tR,tR,tR,tR,tR,tR,tR],
    [tR,tL,tL,tL,tL], [tR,tL,tR,tR,tL,tL,tL,tL,tR,tR], [tL,tL,tR,tR,tR], [tR,tL,tR,tR,tL,tL,tR,tR,tR,tR],
    [tL,tL,tR,tR,tL], [tL,tL,tR,tL,tR,tL,tL,tR,tL], [tL,tL,tR,tL,tR], [tL,tL,tR,tR,tL,tR,tL,tR,tR,tL],
    [tL,tL,tR,tL,tL], [tR,tR,tL,tL,tR,tR,tL,tL,tL,tL], [tL,tL,tL,tR,tR], [tL,tL,tR,tL,tR,tL,tL,tL,tL,tL],
    [tL,tL,tL,tR,tL], [tR,tL,tL,tL,tR,tR,tR,tL,tL,tR], [tL,tL,tL,tL,tR], [tL,tL,tL,tL,tR,tR,tR,tR,tL,tR],
    [tL,tL,tL,tL,tL], [tL,tL,tR,tL,tR,tR,tR,tR,tR], [tR,tR,tR,tR,tL,tR], [tL,tL,tL,tR,tR,tR,tR,tL],
    [tR,tR,tR,tR,tL,tL], [tR,tR,tR,tL,tL,tR,tL], [tR,tR,tR,tL,tR,tL], [tR,tR,tL,tL,tL,tL,tR,tR],
    [tR,tR,tR,tL,tL,tR], [tR,tR,tR,tR,tL,tR,tR,tR], [tR,tR,tR,tL,tL,tL], [tR,tR,tR,tL,tR,tL,tL,tR,tR],
    [tR,tR,tL,tR,tL,tR], [tR,tR,tL,tL,tR,tL,tR,tL], [tR,tR,tL,tR,tL,tL], [tR,tL,tL,tL,tR,tR,tL,tR],
    [tR,tR,tL,tL,tR,tR], [tR,tL,tR,tR,tL,tL,tL,tL,tL], [tR,tR,tL,tL,tR,tL], [tR,tL,tL,tL,tL,tR,tR,tL,tR],
    [tR,tR,tL,tL,tL,tR], [tR,tR,tR,tL,tL,tL,tL,tL,tL], [tR,tR,tL,tL,tL,tL], [tR,tL,tL,tL,tR,tR,tR,tR,tL],
    [tR,tL,tR,tR,tR,tR], [tR,tL,tL,tR,tR,tL,tL,tR,tR], [tR,tL,tR,tR,tR,tL], [tR,tL,tL,tL,tR,tL,tL,tR,tR,tL],
    [tR,tL,tR,tR,tL,tL], [tR,tR,tL,tL,tL,tR,tL,tL,tR,tL], [tR,tL,tR,tL,tL,tR], [tL,tL,tR,tR,tR,tR,tL,tR,tL],
    [tR,tL,tR,tL,tL,tL], [tL,tL,tR,tL,tL,tL,tR,tL,tR], [tR,tL,tL,tR,tR,tR], [tR,tR,tL,tL,tR,tR,tR,tR,tR,tL],
    [tR,tL,tL,tR,tR,tL], [tR,tR,tR,tR,tL,tL,tR,tR], [tR,tL,tL,tR,tL,tR], [tL,tL,tL,tL,tR,tL,tR],
    [tR,tL,tL,tR,tL,tL], [tL,tL,tR,tR,tR,tR,tR], [tR,tL,tL,tL,tR,tR], [tL,tL,tR,tL,tL,tL,tL],
    [tR,tL,tL,tL,tR,tL], [tR,tL,tL,tL,tL,tR,tL,tL], [tR,tL,tL,tL,tL,tR], [tR,tL,tL,tL,tR,tL,tR,tL],
    [tR,tL,tL,tL,tL,tL], [tL,tL,tL,tL,tL,tL,tL,tR,tL], [tL,tL,tR,tR,tR,tR], [tL,tL,tL,tL,tR,tR,tR,tL,tL],
    [tL,tL,tR,tR,tL,tR], [tR,tL,tR,tR,tR,tR,tL,tL,tR], [tL,tL,tR,tR,tL,tL], [tR,tR,tL,tL,tL,tR,tR,tL,tL,tL],
    [tL,tL,tR,tL,tR,tR], [tR,tR,tR,tL,tR,tL,tR,tR,tL,tR], [tL,tL,tR,tL,tR,tL], [tR,tL,tL,tL,tR,tR,tR,tL,tR,tR],
    [tL,tL,tR,tL,tL,tL], [tR,tL,tR,tR,tR,tL,tL,tR,tR], [tL,tL,tL,tR,tR,tR], [tR,tR,tL,tR,tL,tR,tL,tR,tL,tR],
    [tL,tL,tL,tR,tR,tL], [tR,tR,tR,tL,tL,tL,tR,tR,tR,tL], [tL,tL,tL,tR,tL,tR], [tR,tR,tL,tL,tR,tR,tL,tL,tR,tR],
    [tL,tL,tL,tR,tL,tL], [tL,tL,tR,tR,tL,tR,tL,tL,tR], [tL,tL,tL,tL,tR,tR], [tR,tL,tR,tR,tR,tL,tL,tR,tL,tL],
    [tL,tL,tL,tL,tR,tL], [tR,tR,tL,tR,tL,tR,tR,tL,tR,tL], [tL,tL,tL,tL,tL,tL], [tR,tR,tL,tR,tL,tR,tR,tL,tR,tR],
    [tR,tR,tR,tR,tL,tR,tR], [tR,tR,tL,tL,tR,tL,tR,tR,tR,tL], [tR,tR,tR,tR,tL,tL,tR], [tR,tL,tL,tL,tR,tR,tR,tL,tR,tL],
    [tR,tR,tR,tR,tL,tL,tL], [tR,tR,tL,tL,tL,tR,tR,tR,tR,tL], [tR,tR,tR,tL,tR,tL,tR], [tR,tR,tL,tL,tR,tR,tL,tL,tL,tR],
    [tR,tR,tR,tL,tR,tL,tL], [tR,tR,tR,tL,tR,tL,tR,tR,tL,tL], [tR,tR,tR,tL,tL,tR,tR], [tR,tR,tL,tR,tL,tL,tR,tR,tL,tR],
    [tR,tR,tR,tL,tL,tL,tR], [tL,tL,tL,tL,tR,tR,tR,tL,tR], [tR,tR,tR,tL,tL,tL,tL], [tL,tL,tL,tR,tL,tR,tL,tR,tL],
    [tR,tR,tL,tR,tL,tR,tR], [tR,tR,tR,tL,tL,tL,tR,tR,tL], [tR,tR,tL,tR,tL,tR,tL], [tR,tL,tR,tL,tL,tL,tL,tL,tR],
    [tR,tR,tL,tR,tL,tL,tR], [tR,tR,tL,tR,tL,tR,tR,tR,tL], [tR,tR,tL,tL,tR,tR,tR], [tL,tL,tL,tR,tR,tL,tR,tR],
    [tR,tR,tL,tL,tR,tR,tL], [tR,tR,tL,tL,tR,tR,tR,tR,tL], [tR,tR,tL,tL,tR,tL,tR], [tL,tL,tR,tR,tR,tR,tL,tL],
    [tR,tR,tL,tL,tL,tR,tR], [tR,tR,tL,tR,tL,tR,tL,tR,tR], [tR,tR,tL,tL,tL,tR,tL], [tR,tR,tR,tR,tL,tL,tL,tR,tR],
    [tR,tR,tL,tL,tL,tL,tR], [tR,tR,tR,tL,tR,tL,tL,tR,tL], [tR,tR,tL,tL,tL,tL,tL], [tL,tL,tL,tL,tR,tR,tL],
    [tR,tL,tR,tR,tR,tR,tL], [tR,tL,tL,tL,tL,tL,tR,tL], [tR,tL,tR,tR,tR,tL,tR], [tR,tR,tR,tR,tL,tL,tR,tL,tR],
    [tR,tL,tR,tR,tR,tL,tL], [tL,tL,tR,tR,tR,tL], [tR,tL,tR,tR,tL,tL,tR], [tL,tL,tL,tR,tL,tR,tL,tL],
    [tR,tL,tR,tR,tL,tL,tL], [tR,tL,tR,tR,tR,tR,tL,tR,tL], [tR,tL,tR,tL,tL,tL,tR], [tL,tL,tR,tL,tL,tL,tR,tR,tL],
    [tR,tL,tR,tL,tL,tL,tL], [tL,tL,tL,tR,tR,tL,tL,tR], [tR,tL,tL,tR,tR,tR,tR], [tR,tR,tR,tR,tL,tL,tL,tR,tL],
    [tR,tL,tL,tR,tR,tR,tL], [tL,tL,tR,tR,tL,tL,tL,tL], [tR,tL,tL,tR,tR,tL,tL], [tR,tR,tL,tL,tR,tR,tL,tR],
    [tR,tL,tL,tL,tR,tR,tR], [tR,tL,tR,tL,tL,tL,tL,tR], [tR,tL,tL,tL,tR,tR,tL], [tL,tL,tR,tR,tL,tL,tL,tR],
    [tR,tL,tL,tL,tR,tL,tR], [tR,tR,tR,tL,tL,tL,tR,tL], [tR,tL,tL,tL,tR,tL,tL], [tR,tL,tL,tR,tR,tR,tR,tL],
    [tR,tL,tL,tL,tL,tR,tR], [tR,tL,tL,tR,tR,tL,tR], [tR,tL,tL,tL,tL,tR,tL], [tL,tL,tL,tL,tL,tL,tR],
    [tR,tL,tL,tL,tL,tL,tR], [tR,tR,tR,tL,tR,tL,tL,tL], [tR,tL,tL,tL,tL,tL,tL], [tR,tL,tL,tR,tR,tL,tL,tL],
    [tL,tL,tR,tR,tR,tR,tL], [tR,tR,tL,tR,tL,tL,tR,tL], [tL,tL,tR,tR,tL,tR,tL], [tR,tL,tL,tL,tL,tR,tR,tR],
    [tL,tL,tR,tR,tL,tL,tL], [tR,tR,tL,tL,tL,tR,tL,tR], [tL,tL,tR,tL,tR,tR,tR], [tR,tR,tL,tL,tR,tR,tR,tL],
    [tL,tL,tR,tL,tR,tL,tR], [tR,tR,tR,tR,tL,tR,tR,tL], [tL,tL,tR,tL,tR,tL,tL], [tL,tL,tL,tR,tL,tR,tR],
    [tL,tL,tR,tL,tL,tL,tR], [tL,tL,tL,tR,tL,tL,tL], [tL,tL,tL,tR,tR,tR,tR], [tR,tL,tR,tL,tL,tR,tR],
    [tL,tL,tL,tR,tR,tR,tL], [tR,tR,tR,tR,tR,tL], [tL,tL,tL,tR,tR,tL,tR], [tR,tL,tL,tR,tL,tR,tL],
    [tL,tL,tL,tR,tR,tL,tL], [tL,tL,tR,tR,tL,tL,tR], [tL,tL,tL,tR,tL,tR,tL], [tR,tL,tR,tR,tR,tR,tR],
    [tL,tL,tL,tL,tR,tR,tR], [tR,tR,tR,tR,tL,tL,tL,tL], [tL,tL,tL,tL,tL,tL,tL], [tR,tR,tL,tL,tL,tL,tL,tR],
    [tR,tR,tR,tR,tL,tL,tR,tL], [tR,tL,tL,tL,tL,tL,tL,tL], [tR,tR,tR,tR,tL,tL,tL,tR], [tR,tR,tR,tL,tL,tL,tL,tR],
    [tR,tR,tR,tL,tR,tL,tR,tR], [tR,tR,tR,tL,tL,tR,tR,tL], [tR,tR,tR,tL,tR,tL,tL,tR], [tR,tR,tR,tL,tL,tR,tR,tR],
    [tR,tR,tR,tL,tL,tL,tR,tR], [tR,tR,tR,tL,tR,tL,tR,tL], [tR,tR,tR,tL,tL,tL,tL,tL], [tL,tL,tR,tL,tR,tR,tR,tL],
    [tR,tR,tL,tR,tL,tR,tR,tR], [tR,tR,tL,tR,tL,tL,tR,tR,tR], [tR,tR,tL,tR,tL,tR,tR,tL], [tL,tL,tR,tL,tL,tL,tR,tR,tR],
    [tR,tR,tL,tR,tL,tR,tL,tR], [tR,tL,tL,tL,tL,tL,tL,tR,tL], [tR,tR,tL,tR,tL,tR,tL,tL], [tR,tL,tR,tR,tL,tL,tR,tL,tL],
    [tR,tR,tL,tR,tL,tL,tR,tR], [tR,tL,tL,tL,tR,tR,tL,tL,tR], [tR,tR,tL,tL,tR,tR,tR,tR], [tR,tR,tL,tL,tL,tR,tR,tL,tR,tL],
    [tR,tR,tL,tL,tR,tR,tL,tL], [tL,tL,tL,tL,tL,tL,tL,tR,tR], [tR,tR,tL,tL,tR,tL,tR,tR], [tR,tR,tR,tL,tR,tL,tR,tR,tR,tR],
    [tR,tR,tL,tL,tL,tR,tR,tR], [tR,tR,tL,tR,tL,tR,tL,tL,tL,tL], [tR,tR,tL,tL,tL,tR,tR,tL], [tR,tL,tR,tL,tL,tL,tR,tL,tR,tL],
    [tR,tR,tL,tL,tL,tR,tL,tL], [tR,tR,tL,tR,tL,tR,tR,tL,tL,tL], [tR,tR,tL,tL,tL,tL,tL,tL], [tR,tL,tR,tR,tR,tR,tL,tL,tL,tL],
    [tR,tL,tR,tR,tR,tR,tL,tR], [tR,tR,tL,tR,tL,tR,tL,tL,tR,tR], [tR,tL,tR,tR,tR,tR,tL,tL], [tR,tL,tL,tR,tR,tR,tR,tR,tL,tL],
    [tR,tL,tR,tR,tR,tL,tR,tR], [tR,tR,tL,tL,tL,tR,tR,tR,tL,tL], [tR,tL,tR,tR,tR,tL,tL,tR], [tR,tL,tR,tL,tL,tL,tR,tL,tL,tR],
    [tR,tL,tR,tR,tR,tL,tL,tL], [tR,tR,tL,tR,tL,tR,tL,tL,tR,tL], [tR,tL,tR,tR,tL,tL,tR,tR], [tR,tL,tL,tL,tR,tR,tL,tL,tL,tL],
    [tR,tL,tR,tR,tL,tL,tR,tL], [tR,tR,tL,tR,tL,tR,tR,tR,tR,tR], [tR,tL,tR,tR,tL,tL,tL,tR], [tR,tL,tL,tR,tR,tR,tL,tR,tR,tL],
    [tR,tL,tR,tR,tL,tL,tL,tL], [tL,tL,tR,tL,tR,tL,tL,tL,tR], [tR,tL,tR,tL,tL,tL,tR,tR], [tR,tL,tL,tR,tR,tR,tR,tR,tR,tL],
    [tR,tL,tR,tL,tL,tL,tR,tL], [tR,tR,tL,tL,tR,tR,tL,tL,tR,tL], [tR,tL,tR,tL,tL,tL,tL,tL], [tL,tL,tR,tR,tL,tR,tL,tL,tL,tL],
    [tR,tL,tL,tR,tR,tR,tR,tR], [tR,tL,tR,tR,tR,tL,tR,tR,tL,tR], [tR,tL,tL,tR,tR,tR,tL,tR], [tR,tL,tL,tL,tL,tL,tR,tR,tR,tL],
    [tR,tL,tL,tR,tR,tL,tL,tR], [tR,tL,tR,tR,tR,tL,tL,tL,tR,tR], [tR,tL,tL,tL,tR,tR,tR,tR], [tR,tL,tL,tL,tR,tL,tR,tR,tR,tL],
    [tR,tL,tL,tL,tR,tR,tR,tL], [tL,tL,tL,tR,tR,tR,tL,tL,tR], [tR,tL,tL,tL,tR,tR,tL,tL], [tR,tL,tL,tL,tL,tR,tR,tL,tL,tL],
    [tR,tL,tL,tL,tR,tL,tR,tR], [tR,tR,tL,tL,tL,tR,tR,tR,tL,tR], [tR,tL,tL,tL,tR,tL,tL,tR], [tR,tL,tR,tL,tL,tL,tR,tL,tR,tR],
    [tR,tL,tL,tL,tL,tR,tR,tL], [tR,tR,tL,tR,tL,tR,tR,tL,tL,tR], [tR,tL,tL,tL,tL,tL,tR,tR], [tR,tL,tR,tR,tL,tL,tR,tR,tL,tL],
    [tR,tL,tL,tL,tL,tL,tL,tR], [tR,tR,tL,tR,tL,tL,tR,tR,tL,tL], [tL,tL,tR,tR,tR,tR,tL,tR], [tR,tL,tR,tR,tL,tL,tR,tL,tR,tL],
    [tL,tL,tR,tR,tL,tR,tL,tR], [tL,tL,tL,tR,tR,tR,tL,tL,tL], [tL,tL,tR,tR,tL,tR,tL,tL], [tR,tL,tL,tL,tL,tL,tR,tR,tR,tR],
    [tL,tL,tR,tL,tR,tR,tR,tR], [tR,tL,tR,tR,tR,tR,tL,tL,tL,tR], [tL,tL,tR,tL,tR,tL,tL,tR], [tL,tL,tR,tR,tR,tR,tL,tR,tR,tR],
    [tL,tL,tR,tL,tR,tL,tL,tL], [tR,tL,tR,tL,tL,tL,tR,tR,tL,tL], [tL,tL,tR,tL,tL,tL,tR,tR], [tL,tL,tR,tR,tL,tR,tL,tR,tR,tR],
    [tL,tL,tR,tL,tL,tL,tR,tL], [tR,tR,tL,tL,tL,tR,tR,tR,tR,tR], [tL,tL,tL,tR,tR,tR,tR,tR], [tR,tL,tL,tR,tR,tL,tL,tR,tL,tR],
    [tL,tL,tL,tR,tR,tR,tL,tL], [tR,tR,tL,tL,tR,tL,tR,tR,tR,tR], [tL,tL,tL,tR,tR,tL,tR,tL], [tL,tL,tR,tL,tR,tL,tL,tL,tL,tR],
    [tL,tL,tL,tR,tL,tR,tL,tR], [tR,tR,tL,tL,tL,tL,tL,tL,tL,tR], [tL,tL,tL,tL,tR,tR,tR,tR], [tL,tL,tR,tR,tR,tR,tL,tR,tR,tL],
    [tL,tL,tL,tL,tR,tR,tR,tL], [tR,tL,tR,tR,tR,tL,tL,tR,tL,tR], [tL,tL,tL,tL,tL,tL,tL,tR], [tR,tL,tL,tL,tL,tL,tL,tR,tR,tR],
    [tL,tL,tL,tL,tL,tL,tL,tL], [tR,tR,tL,tL,tL,tR,tR,tL,tL,tR], [tR,tR,tR,tL,tR,tL,tR,tR,tR], [tR,tL,tR,tR,tL,tL,tL,tR,tL,tL],
    [tR,tR,tR,tL,tR,tL,tR,tR,tL], [tL,tL,tR,tL,tR,tL,tR,tL], [tR,tR,tR,tL,tL,tL,tR,tR,tR], [tR,tR,tL,tL,tL,tL,tL,tL,tR],
    [tR,tR,tR,tL,tL,tL,tL,tL,tR], [tR,tL,tR,tR,tR,tL,tR,tL], [tR,tR,tL,tR,tL,tR,tR,tR,tR], [tL,tL,tL,tL,tL,tR],
    [tR,tR,tL,tR,tL,tR,tR,tL,tR], [tR,tL,tL,tR,tL,tL,tL], [tR,tR,tL,tR,tL,tR,tR,tL,tL], [tR,tR,tR,tL,tL,tL,tR,tR,tR,tR],
    [tR,tR,tL,tR,tL,tR,tL,tR,tL], [tR,tR,tR,tL,tL,tL,tL,tL,tR,tR], [tR,tR,tL,tR,tL,tR,tL,tL,tR], [tL,tL,tL,tR,tR,tR,tL,tR],
    [tR,tR,tL,tR,tL,tR,tL,tL,tL], [tR,tL,tL,tL,tR,tR,tR,tR,tR], [tR,tR,tL,tR,tL,tL,tR,tR,tL], [tL,tL,tR,tR,tL,tR,tL,tL,tL,tR],
    [tR,tR,tL,tL,tR,tR,tR,tR,tR], [tR,tL,tR,tL,tL,tL,tR,tL,tL,tL], [tR,tR,tL,tL,tR,tR,tL,tL,tR], [tR,tR,tL,tL,tL,tL,tL,tL,tL,tL],
    [tR,tR,tL,tL,tR,tR,tL,tL,tL], [tR,tL,tR,tR,tR,tL,tL,tL,tR,tL], [tR,tR,tL,tL,tR,tL,tR,tR,tR], [tR,tL,tR,tL,tL,tL,tR,tR,tR,tL],
    [tR,tR,tL,tL,tR,tL,tR,tR,tL], [tR,tL,tR,tR,tL,tL,tR,tL,tR,tR], [tR,tR,tL,tL,tL,tR,tR,tR,tR], [tR,tL,tR,tR,tR,tL,tL,tL,tL,tL],
    [tR,tR,tL,tL,tL,tR,tR,tR,tL], [tL,tL,tL,tL,tL,tL,tL,tL,tL], [tR,tR,tL,tL,tL,tR,tR,tL,tR], [tR,tL,tL,tR,tR,tR,tL,tR,tR,tR],
    [tR,tR,tL,tL,tL,tR,tR,tL,tL], [tR,tL,tR,tR,tR,tL,tR,tR,tL,tL], [tR,tR,tL,tL,tL,tR,tL,tL,tR], [tR,tL,tL,tL,tL,tL,tL,tR,tR,tL],
    [tR,tR,tL,tL,tL,tR,tL,tL,tL], [tR,tL,tR,tR,tL,tL,tL,tL,tR,tL], [tR,tR,tL,tL,tL,tL,tL,tL,tL], [tR,tL,tL,tR,tR,tR,tL,tR,tL,tL],
    [tR,tL,tR,tR,tR,tR,tL,tR,tR], [tR,tL,tR,tR,tL,tL,tR,tR,tR,tL], [tR,tL,tR,tR,tR,tR,tL,tL,tL], [tL,tL,tR,tL,tR,tL,tL,tR,tR,tR],
    [tR,tL,tR,tR,tR,tL,tR,tR,tR], [tR,tL,tR,tR,tR,tR,tL,tR,tR,tL], [tR,tL,tR,tR,tR,tL,tR,tR,tL], [tL,tL,tR,tL,tR,tL,tL,tR,tR,tL],
    [tR,tL,tR,tR,tR,tL,tL,tR,tL], [tR,tL,tR,tR,tL,tL,tL,tR,tR,tR], [tR,tL,tR,tR,tR,tL,tL,tL,tR], [tL,tL,tL,tR,tR,tL,tR,tL,tR,tL],
    [tR,tL,tR,tR,tR,tL,tL,tL,tL], [tR,tL,tR,tR,tR,tR,tL,tR,tR,tR], [tR,tL,tR,tR,tL,tL,tR,tR,tR], [tR,tL,tL,tL,tL,tL,tR,tR,tL,tL],
    [tR,tL,tR,tR,tL,tL,tR,tR,tL], [tR,tL,tR,tR,tR,tL,tR,tR,tR,tR], [tR,tL,tR,tR,tL,tL,tR,tL,tR], [tL,tL,tL,tR,tR,tR,tR,tR,tL,tL],
    [tR,tL,tR,tR,tL,tL,tL,tR,tR], [tR,tL,tL,tL,tR,tL,tR,tR,tL], [tR,tL,tR,tR,tL,tL,tL,tR,tL], [tR,tL,tL,tL,tR,tL,tL,tR,tL],
    [tR,tL,tR,tR,tL,tL,tL,tL,tR], [tR,tL,tL,tR,tR,tL,tL,tR,tL,tL], [tR,tL,tR,tL,tL,tL,tR,tR,tR], [tL,tL,tL,tR,tR,tR,tR,tR,tL,tR],
    [tR,tL,tR,tL,tL,tL,tR,tR,tL], [tR,tR,tL,tL,tL,tR,tL,tL,tL,tL], [tR,tL,tR,tL,tL,tL,tR,tL,tR], [tR,tL,tL,tL,tR,tR,tR,tL,tL,tL],
    [tR,tL,tR,tL,tL,tL,tR,tL,tL], [tR,tR,tL,tL,tR,tL,tR,tR,tL,tR], [tR,tL,tR,tL,tL,tL,tL,tL,tL], [tR,tL,tL,tL,tR,tL,tL,tR,tR,tR],
    [tR,tL,tL,tR,tR,tR,tR,tR,tR], [tR,tL,tL,tR,tL,tL,tR], [tR,tL,tL,tR,tR,tR,tR,tR,tL], [tR,tL,tL,tL,tR,tR,tL,tL,tL,tR],
    [tR,tL,tL,tR,tR,tR,tL,tR,tR], [tR,tR,tR,tL,tL,tL,tL,tL,tR,tL], [tR,tL,tL,tR,tR,tR,tL,tR,tL], [tR,tL,tL,tL,tL,tR,tR,tL,tL,tR],
    [tR,tL,tL,tR,tR,tL,tL,tR,tL], [tR,tR,tL,tL,tL,tR,tL,tL,tL,tR], [tR,tL,tL,tL,tR,tR,tR,tL,tR], [tL,tL,tL,tR,tR,tL,tL,tL],
    [tR,tL,tL,tL,tR,tR,tR,tL,tL], [tR,tL,tR,tL,tL,tL,tL,tL,tL,tR], [tR,tL,tL,tL,tR,tR,tL,tL,tL], [tR,tL,tL,tL,tL,tL,tR,tR,tL,tR],
    [tR,tL,tL,tL,tR,tL,tR,tR,tR], [tR,tR,tR,tL,tR,tL,tR,tR,tR,tL], [tR,tL,tL,tL,tR,tL,tL,tR,tR], [tL,tL,tL,tL,tR,tR,tR,tR,tL,tL],
    [tR,tL,tL,tL,tL,tR,tR,tL,tL], [tR,tL,tR,tL,tL,tL,tR,tR,tL,tR], [tR,tL,tL,tL,tL,tL,tR,tR,tR], [tL,tL,tL,tL,tL,tL,tL,tL,tR,tR],
    [tR,tL,tL,tL,tL,tL,tR,tR,tL], [tR,tL,tL,tL,tR,tL,tR,tR,tR,tR], [tR,tL,tL,tL,tL,tL,tL,tR,tR], [tL,tL,tL,tR,tL,tR,tL,tR,tR,tR],
    [tL,tL,tR,tR,tR,tR,tL,tR,tR], [tR,tL,tR,tR,tR,tL,tL,tL,tL,tR], [tL,tL,tR,tR,tL,tR,tL,tR,tR], [tL,tL,tL,tL,tL,tL,tL,tL,tR,tL,tR],
    [tL,tL,tR,tR,tL,tR,tL,tL,tL], [tR,tL,tR,tL,tL,tL,tL,tL,tL,tL], [tL,tL,tR,tL,tR,tL,tL,tR,tR], [tL,tL,tL,tR,tR,tL,tR,tL,tR,tR],
    [tL,tL,tR,tL,tR,tL,tL,tL,tL], [tR,tL,tL,tR,tR,tR,tR,tR,tL,tR], [tL,tL,tL,tR,tR,tR,tR,tR,tL], [tL,tL,tL,tR,tL,tR,tL,tR,tR,tL],
    [tL,tL,tL,tR,tR,tL,tR,tL,tR], [tR,tL,tL,tR,tR,tR,tL,tR,tL,tR], [tL,tL,tL,tR,tL,tR,tL,tR,tR], [tR,tL,tR,tR,tL,tL,tL,tR,tL,tR],
    [tL,tL,tL,tL,tR,tR,tR,tR,tL], [tR,tR,tR,tR,tL,tR,tL], [tL,tL,tL,tL,tL,tL,tL,tL,tR], [tL,tL,tR,tL,tL,tR],
    [tL,tL,tL,tL,tL,tL,tL,tL,tR,tL]]"

definition huff_codes :: "bool list list" where
  "huff_codes = [
    [tL,tR], [tR,tR,tL,tR,tR], [tL,tL,tL,tR,tL,tL,tR], [tL,tL,tR,tR,tL,tR,tR],
    [tR,tL,tL,tL,tL,tR,tL,tR], [tR,tL,tL,tL,tR,tL,tL,tL], [tL,tL,tL,tL,tR,tL,tL], [tR,tR,tR,tR,tR,tR],
    [tR,tL,tR,tL,tR], [tL,tL,tR,tL,tR,tR,tL], [tR,tL,tL,tR,tL,tR,tR], [tR,tR,tL,tR,tL,tL,tL],
    [tR,tR,tL,tL,tR,tL,tL], [tR,tL,tR,tR,tL,tR], [tR,tL,tL,tR,tR,tR,tL,tL], [tL,tL,tR,tR,tL,tR,tL,tR,tL],
    [tR,tL,tR,tL,tL,tR,tL], [tL,tL,tL,tR,tR,tL,tR,tL,tL], [tL,tL,tL,tL,tR,tR,tR,tR,tR], [tL,tL,tL,tR,tR,tR,tR,tR,tR],
    [tR,tL,tR,tR,tR,tL,tR,tR,tR,tL], [tR,tR,tL,tL,tR,tR,tR,tR,tR,tR], [tR,tR,tL,tR,tL,tR,tL,tL,tL,tR], [tR,tR,tL,tL,tL,tR,tL,tL,tR,tR],
    [tL,tL,tR,tL,tR,tR,tR,tR,tL], [tR,tL,tR,tR,tL,tL,tL,tR,tR,tL], [tR,tR,tL,tR,tL,tR,tL,tR,tL,tL], [tR,tR,tL,tL,tL,tR,tR,tL,tR,tR],
    [tR,tR,tL,tR,tL,tR,tR,tR,tR,tL], [tR,tR,tL,tL,tL,tL,tR,tL], [tR,tR,tR,tR,tL,tL,tR,tL,tL], [tL,tL,tR,tL,tR,tL,tR,tR],
    [tR,tR,tR,tL,tR,tR], [tR,tR,tL,tL,tR,tL,tR,tR,tL,tL], [tL,tL,tR,tL,tL,tL,tR,tL,tL], [tR,tL,tR,tR,tL,tL,tR,tR,tL,tR],
    [tR,tL,tR,tL,tL,tL,tR,tR,tR,tR], [tR,tL,tL,tR,tR,tR,tR,tR,tR,tR], [tR,tL,tR,tR,tL,tL,tL,tL,tR,tR], [tR,tL,tR,tR,tL,tL,tR,tR,tR,tR],
    [tL,tL,tR,tL,tR,tL,tL,tR,tL], [tL,tL,tR,tR,tL,tR,tL,tR,tR,tL], [tR,tR,tL,tL,tR,tR,tL,tL,tL,tL], [tL,tL,tR,tL,tR,tL,tL,tL,tL,tL],
    [tR,tL,tL,tL,tR,tR,tR,tL,tL,tR], [tL,tL,tL,tL,tR,tR,tR,tR,tL,tR], [tL,tL,tR,tL,tR,tR,tR,tR,tR], [tL,tL,tL,tR,tR,tR,tR,tL],
    [tR,tR,tR,tL,tL,tR,tL], [tR,tR,tL,tL,tL,tL,tR,tR], [tR,tR,tR,tR,tL,tR,tR,tR], [tR,tR,tR,tL,tR,tL,tL,tR,tR],
    [tR,tR,tL,tL,tR,tL,tR,tL], [tR,tL,tL,tL,tR,tR,tL,tR], [tR,tL,tR,tR,tL,tL,tL,tL,tL], [tR,tL,tL,tL,tL,tR,tR,tL,tR],
    [tR,tR,tR,tL,tL,tL,tL,tL,tL], [tR,tL,tL,tL,tR,tR,tR,tR,tL], [tR,tL,tL,tR,tR,tL,tL,tR,tR], [tR,tL,tL,tL,tR,tL,tL,tR,tR,tL],
    [tR,tR,tL,tL,tL,tR,tL,tL,tR,tL], [tL,tL,tR,tR,tR,tR,tL,tR,tL], [tL,tL,tR,tL,tL,tL,tR,tL,tR], [tR,tR,tL,tL,tR,tR,tR,tR,tR,tL],
    [tR,tR,tR,tR,tL,tL,tR,tR], [tL,tL,tL,tL,tR,tL,tR], [tL,tL,tR,tR,tR,tR,tR], [tL,tL,tR,tL,tL,tL,tL],
    [tR,tL,tL,tL,tL,tR,tL,tL], [tR,tL,tL,tL,tR,tL,tR,tL], [tL,tL,tL,tL,tL,tL,tL,tR,tL], [tL,tL,tL,tL,tR,tR,tR,tL,tL],
    [tR,tL,tR,tR,tR,tR,tL,tL,tR], [tR,tR,tL,tL,tL,tR,tR,tL,tL,tL], [tR,tR,tR,tL,tR,tL,tR,tR,tL,tR], [tR,tL,tL,tL,tR,tR,tR,tL,tR,tR],
    [tR,tL,tR,tR,tR,tL,tL,tR,tR], [tR,tR,tL,tR,tL,tR,tL,tR,tL,tR], [tR,tR,tR,tL,tL,tL,tR,tR,tR,tL], [tR,tR,tL,tL,tR,tR,tL,tL,tR,tR],
    [tL,tL,tR,tR,tL,tR,tL,tL,tR], [tR,tL,tR,tR,tR,tL,tL,tR,tL,tL], [tR,tR,tL,tR,tL,tR,tR,tL,tR,tL], [tR,tR,tL,tR,tL,tR,tR,tL,tR,tR],
    [tR,tR,tL,tL,tR,tL,tR,tR,tR,tL], [tR,tL,tL,tL,tR,tR,tR,tL,tR,tL], [tR,tR,tL,tL,tL,tR,tR,tR,tR,tL], [tR,tR,tL,tL,tR,tR,tL,tL,tL,tR],
    [tR,tR,tR,tL,tR,tL,tR,tR,tL,tL], [tR,tR,tL,tR,tL,tL,tR,tR,tL,tR], [tL,tL,tL,tL,tR,tR,tR,tL,tR], [tL,tL,tL,tR,tL,tR,tL,tR,tL],
    [tR,tR,tR,tL,tL,tL,tR,tR,tL], [tR,tL,tR,tL,tL,tL,tL,tL,tR], [tR,tR,tL,tR,tL,tR,tR,tR,tL], [tL,tL,tL,tR,tR,tL,tR,tR],
    [tR,tR,tL,tL,tR,tR,tR,tR,tL], [tL,tL,tR,tR,tR,tR,tL,tL], [tR,tR,tL,tR,tL,tR,tL,tR,tR], [tR,tR,tR,tR,tL,tL,tL,tR,tR],
    [tR,tR,tR,tL,tR,tL,tL,tR,tL], [tL,tL,tL,tL,tR,tR,tL], [tR,tL,tL,tL,tL,tL,tR,tL], [tR,tR,tR,tR,tL,tL,tR,tL,tR],
    [tL,tL,tR,tR,tR,tL], [tL,tL,tL,tR,tL,tR,tL,tL], [tR,tL,tR,tR,tR,tR,tL,tR,tL], [tL,tL,tR,tL,tL,tL,tR,tR,tL],
    [tL,tL,tL,tR,tR,tL,tL,tR], [tR,tR,tR,tR,tL,tL,tL,tR,tL], [tL,tL,tR,tR,tL,tL,tL,tL], [tR,tR,tL,tL,tR,tR,tL,tR],
    [tR,tL,tR,tL,tL,tL,tL,tR], [tL,tL,tR,tR,tL,tL,tL,tR], [tR,tR,tR,tL,tL,tL,tR,tL], [tR,tL,tL,tR,tR,tR,tR,tL],
    [tR,tL,tL,tR,tR,tL,tR], [tL,tL,tL,tL,tL,tL,tR], [tR,tR,tR,tL,tR,tL,tL,tL], [tR,tL,tL,tR,tR,tL,tL,tL],
    [tR,tR,tL,tR,tL,tL,tR,tL], [tR,tL,tL,tL,tL,tR,tR,tR], [tR,tR,tL,tL,tL,tR,tL,tR], [tR,tR,tL,tL,tR,tR,tR,tL],
    [tR,tR,tR,tR,tL,tR,tR,tL], [tL,tL,tL,tR,tL,tR,tR], [tL,tL,tL,tR,tL,tL,tL], [tR,tL,tR,tL,tL,tR,tR],
    [tR,tR,tR,tR,tR,tL], [tR,tL,tL,tR,tL,tR,tL], [tL,tL,tR,tR,tL,tL,tR], [tR,tL,tR,tR,tR,tR,tR],
    [tR,tR,tR,tR,tL,tL,tL,tL], [tR,tR,tL,tL,tL,tL,tL,tR], [tR,tL,tL,tL,tL,tL,tL,tL], [tR,tR,tR,tL,tL,tL,tL,tR],
    [tR,tR,tR,tL,tL,tR,tR,tL], [tR,tR,tR,tL,tL,tR,tR,tR], [tR,tR,tR,tL,tR,tL,tR,tL], [tL,tL,tR,tL,tR,tR,tR,tL],
    [tR,tR,tL,tR,tL,tL,tR,tR,tR], [tL,tL,tR,tL,tL,tL,tR,tR,tR], [tR,tL,tL,tL,tL,tL,tL,tR,tL], [tR,tL,tR,tR,tL,tL,tR,tL,tL],
    [tR,tL,tL,tL,tR,tR,tL,tL,tR], [tR,tR,tL,tL,tL,tR,tR,tL,tR,tL], [tL,tL,tL,tL,tL,tL,tL,tR,tR], [tR,tR,tR,tL,tR,tL,tR,tR,tR,tR],
    [tR,tR,tL,tR,tL,tR,tL,tL,tL,tL], [tR,tL,tR,tL,tL,tL,tR,tL,tR,tL], [tR,tR,tL,tR,tL,tR,tR,tL,tL,tL], [tR,tL,tR,tR,tR,tR,tL,tL,tL,tL],
    [tR,tR,tL,tR,tL,tR,tL,tL,tR,tR], [tR,tL,tL,tR,tR,tR,tR,tR,tL,tL], [tR,tR,tL,tL,tL,tR,tR,tR,tL,tL], [tR,tL,tR,tL,tL,tL,tR,tL,tL,tR],
    [tR,tR,tL,tR,tL,tR,tL,tL,tR,tL], [tR,tL,tL,tL,tR,tR,tL,tL,tL,tL], [tR,tR,tL,tR,tL,tR,tR,tR,tR,tR], [tR,tL,tL,tR,tR,tR,tL,tR,tR,tL],
    [tL,tL,tR,tL,tR,tL,tL,tL,tR], [tR,tL,tL,tR,tR,tR,tR,tR,tR,tL], [tR,tR,tL,tL,tR,tR,tL,tL,tR,tL], [tL,tL,tR,tR,tL,tR,tL,tL,tL,tL],
    [tR,tL,tR,tR,tR,tL,tR,tR,tL,tR], [tR,tL,tL,tL,tL,tL,tR,tR,tR,tL], [tR,tL,tR,tR,tR,tL,tL,tL,tR,tR], [tR,tL,tL,tL,tR,tL,tR,tR,tR,tL],
    [tL,tL,tL,tR,tR,tR,tL,tL,tR], [tR,tL,tL,tL,tL,tR,tR,tL,tL,tL], [tR,tR,tL,tL,tL,tR,tR,tR,tL,tR], [tR,tL,tR,tL,tL,tL,tR,tL,tR,tR],
    [tR,tR,tL,tR,tL,tR,tR,tL,tL,tR], [tR,tL,tR,tR,tL,tL,tR,tR,tL,tL], [tR,tR,tL,tR,tL,tL,tR,tR,tL,tL], [tR,tL,tR,tR,tL,tL,tR,tL,tR,tL],
    [tL,tL,tL,tR,tR,tR,tL,tL,tL], [tR,tL,tL,tL,tL,tL,tR,tR,tR,tR], [tR,tL,tR,tR,tR,tR,tL,tL,tL,tR], [tL,tL,tR,tR,tR,tR,tL,tR,tR,tR],
    [tR,tL,tR,tL,tL,tL,tR,tR,tL,tL], [tL,tL,tR,tR,tL,tR,tL,tR,tR,tR], [tR,tR,tL,tL,tL,tR,tR,tR,tR,tR], [tR,tL,tL,tR,tR,tL,tL,tR,tL,tR],
    [tR,tR,tL,tL,tR,tL,tR,tR,tR,tR], [tL,tL,tR,tL,tR,tL,tL,tL,tL,tR], [tR,tR,tL,tL,tL,tL,tL,tL,tL,tR], [tL,tL,tR,tR,tR,tR,tL,tR,tR,tL],
    [tR,tL,tR,tR,tR,tL,tL,tR,tL,tR], [tR,tL,tL,tL,tL,tL,tL,tR,tR,tR], [tR,tR,tL,tL,tL,tR,tR,tL,tL,tR], [tR,tL,tR,tR,tL,tL,tL,tR,tL,tL],
    [tL,tL,tR,tL,tR,tL,tR,tL], [tR,tR,tL,tL,tL,tL,tL,tL,tR], [tR,tL,tR,tR,tR,tL,tR,tL], [tL,tL,tL,tL,tL,tR],
    [tR,tL,tL,tR,tL,tL,tL], [tR,tR,tR,tL,tL,tL,tR,tR,tR,tR], [tR,tR,tR,tL,tL,tL,tL,tL,tR,tR], [tL,tL,tL,tR,tR,tR,tL,tR],
    [tR,tL,tL,tL,tR,tR,tR,tR,tR], [tL,tL,tR,tR,tL,tR,tL,tL,tL,tR], [tR,tL,tR,tL,tL,tL,tR,tL,tL,tL], [tR,tR,tL,tL,tL,tL,tL,tL,tL,tL],
    [tR,tL,tR,tR,tR,tL,tL,tL,tR,tL], [tR,tL,tR,tL,tL,tL,tR,tR,tR,tL], [tR,tL,tR,tR,tL,tL,tR,tL,tR,tR], [tR,tL,tR,tR,tR,tL,tL,tL,tL,tL],
    [tL,tL,tL,tL,tL,tL,tL,tL,tL], [tR,tL,tL,tR,tR,tR,tL,tR,tR,tR], [tR,tL,tR,tR,tR,tL,tR,tR,tL,tL], [tR,tL,tL,tL,tL,tL,tL,tR,tR,tL],
    [tR,tL,tR,tR,tL,tL,tL,tL,tR,tL], [tR,tL,tL,tR,tR,tR,tL,tR,tL,tL], [tR,tL,tR,tR,tL,tL,tR,tR,tR,tL], [tL,tL,tR,tL,tR,tL,tL,tR,tR,tR],
    [tR,tL,tR,tR,tR,tR,tL,tR,tR,tL], [tL,tL,tR,tL,tR,tL,tL,tR,tR,tL], [tR,tL,tR,tR,tL,tL,tL,tR,tR,tR], [tL,tL,tL,tR,tR,tL,tR,tL,tR,tL],
    [tR,tL,tR,tR,tR,tR,tL,tR,tR,tR], [tR,tL,tL,tL,tL,tL,tR,tR,tL,tL], [tR,tL,tR,tR,tR,tL,tR,tR,tR,tR], [tL,tL,tL,tR,tR,tR,tR,tR,tL,tL],
    [tR,tL,tL,tL,tR,tL,tR,tR,tL], [tR,tL,tL,tL,tR,tL,tL,tR,tL], [tR,tL,tL,tR,tR,tL,tL,tR,tL,tL], [tL,tL,tL,tR,tR,tR,tR,tR,tL,tR],
    [tR,tR,tL,tL,tL,tR,tL,tL,tL,tL], [tR,tL,tL,tL,tR,tR,tR,tL,tL,tL], [tR,tR,tL,tL,tR,tL,tR,tR,tL,tR], [tR,tL,tL,tL,tR,tL,tL,tR,tR,tR],
    [tR,tL,tL,tR,tL,tL,tR], [tR,tL,tL,tL,tR,tR,tL,tL,tL,tR], [tR,tR,tR,tL,tL,tL,tL,tL,tR,tL], [tR,tL,tL,tL,tL,tR,tR,tL,tL,tR],
    [tR,tR,tL,tL,tL,tR,tL,tL,tL,tR], [tL,tL,tL,tR,tR,tL,tL,tL], [tR,tL,tR,tL,tL,tL,tL,tL,tL,tR], [tR,tL,tL,tL,tL,tL,tR,tR,tL,tR],
    [tR,tR,tR,tL,tR,tL,tR,tR,tR,tL], [tL,tL,tL,tL,tR,tR,tR,tR,tL,tL], [tR,tL,tR,tL,tL,tL,tR,tR,tL,tR], [tL,tL,tL,tL,tL,tL,tL,tL,tR,tR],
    [tR,tL,tL,tL,tR,tL,tR,tR,tR,tR], [tL,tL,tL,tR,tL,tR,tL,tR,tR,tR], [tR,tL,tR,tR,tR,tL,tL,tL,tL,tR], [tL,tL,tL,tL,tL,tL,tL,tL,tR,tL,tR],
    [tR,tL,tR,tL,tL,tL,tL,tL,tL,tL], [tL,tL,tL,tR,tR,tL,tR,tL,tR,tR], [tR,tL,tL,tR,tR,tR,tR,tR,tL,tR], [tL,tL,tL,tR,tL,tR,tL,tR,tR,tL],
    [tR,tL,tL,tR,tR,tR,tL,tR,tL,tR], [tR,tL,tR,tR,tL,tL,tL,tR,tL,tR], [tR,tR,tR,tR,tL,tR,tL], [tL,tL,tR,tL,tL,tR],
    [tL,tL,tL,tL,tL,tL,tL,tL,tR,tL,tL]]"

lemma huff_shape_ok: "shape_ok huff_shape"
  by (simp add: huff_shape_def huff_subshape_defs)

lemma huff_shape_height: "shape_height huff_shape = 11"
  by (simp add: huff_shape_def huff_subshape_defs)

lemma huff_shape_size: "length (shape_paths huff_shape) = 513"
  by (simp add: huff_shape_def huff_subshape_defs)

lemma huff_paths_rows:
  "map (row_at None huff_shape) huff_paths = map Some (zip [0..<513] (ch_nodeList huff))"
  by (simp add: huff_shape_def row_at_subshapes huff_def ConstHuff_new_def archivedNodes_def archivedNodes_0_def
      archivedNodes_1_def archivedNodes_2_def archivedNodes_3_def node_ptr_def huff_paths_def
      upt_conv_Cons)

lemma huff_codes_rows:
  "map (\<lambda>bs. map_option (\<lambda>(i, n). (Some i, cn_symbol n)) (row_at None huff_shape bs)) huff_codes =
   map Some (zip (ch_loc huff) [0..<257])"
  by (simp add: huff_shape_def row_at_subshapes huff_def ConstHuff_new_def locNums_def node_ptr_def huff_codes_def
      upt_conv_Cons)

end
