(* ===== verification/Huffman.thy ===== *)
theory Huffman
  imports HuffmanTable
begin

text \<open>
  Bit access (\<open>Huff::addBit\<close>, \<open>Huff::getBit\<close>) and the coder of the constant tree
  (\<open>ConstHuff::receive\<close>, \<open>transmit\<close>, \<open>offsetReceive\<close>, \<open>offsetTransmit\<close>, \<open>send\<close>) of
  \<open>HuffmanTree.h\<close> and \<open>HuffmanTree.cpp\<close>. An access outside the buffer is \<open>None\<close>; the lemmas show
  that the coder appends exactly the code of a byte, that decoding consumes exactly that code,
  and that the codes are a prefix code of at most eleven bits.
\<close>

section \<open>Bits of a buffer\<close>

definition addBit :: "byte \<Rightarrow> byte list \<Rightarrow> nat \<Rightarrow> (byte list \<times> nat) option" where
  "addBit b fout bloc =
     (let index = bloc div 8;
          bf = bloc mod 8
      in if index \<ge> length fout then None
         else
           (let fout1 = (if bf = 0 then fout[index := 0] else fout)
            in Some (fout1[index := (fout1 ! index) OR push_bit bf b], bloc + 1)))"

definition getBit :: "byte list \<Rightarrow> nat \<Rightarrow> (byte \<times> nat) option" where
  "getBit fin bloc =
     (if bloc div 8 \<ge> length fin then None
      else Some (drop_bit (bloc mod 8) (fin ! (bloc div 8)) AND 1, bloc + 1))"

text \<open>The bits above the write position in the byte being written are clear.\<close>

definition clean :: "byte list \<Rightarrow> nat \<Rightarrow> bool" where
  "clean fout bloc \<longleftrightarrow>
     bloc mod 8 \<noteq> 0 \<longrightarrow> (\<forall>i\<in>{bloc mod 8..<8}. \<not> bit (fout ! (bloc div 8)) i)"

lemma clean_aligned [simp]: "bloc mod 8 = 0 \<Longrightarrow> clean fout bloc"
  by (simp add: clean_def)

lemma getBit_bit:
  "bloc < 8 * length fin \<Longrightarrow>
   getBit fin bloc = Some (of_bool (bytes_bits fin ! bloc), bloc + 1)"
  by (auto simp: getBit_def nth_bytes_bits and_one_eq mod_2_eq_odd bit_iff_odd_drop_bit less_mult_imp_div_less
      mult.commute)

lemma bit_or_push_of_bool:
  "i < 8 \<Longrightarrow> k < 8 \<Longrightarrow>
   bit (w OR push_bit k (of_bool v) :: byte) i \<longleftrightarrow> bit w i \<or> (i = k \<and> v)"
  by (auto simp: bit_or_iff bit_push_bit_iff bit_of_bool_iff possible_bit_def)

lemma addBit_ok:
  assumes b: "bloc < 8 * length fout" and c: "clean fout bloc"
  shows "\<exists>fout'. addBit (of_bool v) fout bloc = Some (fout', bloc + 1) \<and> length fout' = length fout \<and>
    take (bloc + 1) (bytes_bits fout') = take bloc (bytes_bits fout) @ [v] \<and> clean fout' (bloc + 1)"
proof -
  let ?k = "bloc div 8" and ?j = "bloc mod 8"
  have k: "?k < length fout" using b by (simp add: less_mult_imp_div_less mult.commute)
  define w0 where "w0 = (if ?j = 0 then 0 else fout ! ?k)"
  define w where "w = w0 OR push_bit ?j (of_bool v :: byte)"
  define fout' where "fout' = fout[?k := w]"
  have low: "bit w i = bit (fout ! ?k) i" if "i < ?j" for i
    using that by (auto simp: w_def w0_def bit_or_push_of_bool)
  have at: "bit w ?j = v"
    using c by (auto simp: w_def w0_def bit_or_push_of_bool clean_def)
  have above: "\<not> bit w i" if "?j < i" "i < 8" for i
    using that c by (auto simp: w_def w0_def bit_or_push_of_bool clean_def)
  have len: "length fout' = length fout" by (simp add: fout'_def)
  have run: "addBit (of_bool v) fout bloc = Some (fout', bloc + 1)"
    using k by (simp add: addBit_def Let_def fout'_def w_def w0_def)
  have nth: "bytes_bits fout' ! i = (if i = bloc then v else bytes_bits fout ! i)" if "i \<le> bloc" for i
  proof -
    have i: "i < 8 * length fout" using that b by simp
    show ?thesis
    proof (cases "i div 8 = ?k")
      case True
      have "i mod 8 < ?j \<or> i = bloc"
        using that True by (metis div_mult_mod_eq le_eq_less_or_eq nat_add_left_cancel_less)
      with True i len k low at show ?thesis
        by (auto simp: nth_bytes_bits fout'_def)
    next
      case False
      with i len show ?thesis by (auto simp: nth_bytes_bits fout'_def)
    qed
  qed
  have "take (bloc + 1) (bytes_bits fout') = take bloc (bytes_bits fout) @ [v]"
    by (rule nth_equalityI) (use b len nth in \<open>auto simp: nth_append less_Suc_eq\<close>)
  moreover have "clean fout' (bloc + 1)"
  proof (cases "(bloc + 1) mod 8 = 0")
    case False
    then have "(bloc + 1) mod 8 = ?j + 1" "(bloc + 1) div 8 = ?k"
      by (simp_all add: mod_Suc div_Suc split: if_splits)
    with k above show ?thesis by (auto simp: clean_def fout'_def)
  qed simp
  ultimately show ?thesis using run len by blast
qed

text \<open>Writing a string of bits, one \<open>addBit\<close> each.\<close>

fun addBits :: "bool list \<Rightarrow> byte list \<Rightarrow> nat \<Rightarrow> (byte list \<times> nat) option" where
  "addBits [] fout bloc = Some (fout, bloc)"
| "addBits (v # vs) fout bloc =
     Option.bind (addBit (of_bool v) fout bloc) (\<lambda>(f, b). addBits vs f b)"

lemma addBits_append:
  "addBits (xs @ ys) f b = Option.bind (addBits xs f b) (\<lambda>(f', b'). addBits ys f' b')"
  by (induction xs arbitrary: f b) (auto simp: split: option.splits bind_splits)

lemma addBits_ok:
  assumes "bloc + length vs \<le> 8 * length fout" and "clean fout bloc"
  shows "\<exists>fout'. addBits vs fout bloc = Some (fout', bloc + length vs) \<and> length fout' = length fout \<and>
    take (bloc + length vs) (bytes_bits fout') = take bloc (bytes_bits fout) @ vs \<and>
    clean fout' (bloc + length vs)"
  using assms
proof (induction vs arbitrary: fout bloc)
  case Nil
  then show ?case by simp
next
  case (Cons v vs)
  obtain f1 where f1: "addBit (of_bool v) fout bloc = Some (f1, bloc + 1)" "length f1 = length fout"
    "take (bloc + 1) (bytes_bits f1) = take bloc (bytes_bits fout) @ [v]" "clean f1 (bloc + 1)"
    using addBit_ok [of bloc fout v] Cons.prems by auto
  with Cons.IH [of "bloc + 1" f1] Cons.prems show ?case by auto
qed

section \<open>ConstHuff\<close>

definition HMAX :: nat where "HMAX = 256"
definition NYT :: nat where "NYT = HMAX"
definition INTERNAL_NODE :: nat where "INTERNAL_NODE = HMAX + 1"

text \<open>
  The loop of \<open>receive\<close> and \<open>offsetReceive\<close>: follow the bits down from \<open>node\<close> to a node that is
  not internal. It stops because every turn consumes a bit of the buffer.
\<close>

function huff_walk :: "ConstHuff \<Rightarrow> byte list \<Rightarrow> nat option \<Rightarrow> nat \<Rightarrow> (nat option \<times> nat) option" where
  "huff_walk h fin node bloc =
     (case node of
        None \<Rightarrow> Some (None, bloc)
      | Some n \<Rightarrow>
          (if cn_symbol (ch_nodeList h ! n) = INTERNAL_NODE
           then (case getBit fin bloc of
                   None \<Rightarrow> None
                 | Some (b, bloc') \<Rightarrow>
                     huff_walk h fin
                       (if b \<noteq> 0 then cn_right (ch_nodeList h ! n) else cn_left (ch_nodeList h ! n))
                       bloc')
           else Some (Some n, bloc)))"
  by pat_completeness auto
termination
  by (relation "measure (\<lambda>(h, fin, node, bloc). 8 * length fin - bloc)")
    (auto simp: getBit_def split: if_splits)

declare huff_walk.simps [simp del]

definition receive :: "ConstHuff \<Rightarrow> byte list \<Rightarrow> nat \<Rightarrow> (nat \<times> nat) option" where
  "receive h fin bloc =
     map_option (\<lambda>(node, bloc').
         (case node of Some n \<Rightarrow> cn_symbol (ch_nodeList h ! n) | None \<Rightarrow> 0, bloc'))
       (huff_walk h fin (Some (ch_tree h)) bloc)"

definition offsetReceive :: "ConstHuff \<Rightarrow> byte list \<Rightarrow> nat \<Rightarrow> (nat \<times> nat) option" where
  "offsetReceive h fin offset =
     map_option (\<lambda>(node, bloc).
         (case node of
            None \<Rightarrow> (0, offset)
          | Some n \<Rightarrow> (cn_symbol (ch_nodeList h ! n), bloc)))
       (huff_walk h fin (Some (ch_tree h)) offset)"

text \<open>\<open>send\<close> climbs to the root first and writes the turns on the way back.\<close>

partial_function (option) send ::
  "ConstHuff \<Rightarrow> nat \<Rightarrow> nat option \<Rightarrow> byte list \<Rightarrow> nat \<Rightarrow> (byte list \<times> nat) option" where
  "send h node child fout offset =
     Option.bind
       (case cn_parent (ch_nodeList h ! node) of
          None \<Rightarrow> Some (fout, offset)
        | Some p \<Rightarrow> send h p (Some node) fout offset)
       (\<lambda>(fout', offset').
          case child of
            None \<Rightarrow> Some (fout', offset')
          | Some c \<Rightarrow>
              addBit (if cn_right (ch_nodeList h ! node) = Some c then 1 else 0) fout' offset')"

definition offsetTransmit :: "ConstHuff \<Rightarrow> byte \<Rightarrow> byte list \<Rightarrow> nat \<Rightarrow> (byte list \<times> nat) option" where
  "offsetTransmit h ch fout offset =
     (case ch_loc h ! unat ch of
        None \<Rightarrow> None
      | Some n \<Rightarrow> send h n None fout offset)"

definition transmit :: "ConstHuff \<Rightarrow> byte \<Rightarrow> byte list \<Rightarrow> nat \<Rightarrow> (byte list \<times> nat) option" where
  "transmit h ch fout offset =
     (case ch_loc h ! unat ch of
        None \<Rightarrow> None
      | Some n \<Rightarrow> send h n None fout offset)"

section \<open>The table is the tree of its shape\<close>

lemma length_huff_nodes [simp]: "length (ch_nodeList huff) = 513"
  using arg_cong [OF huff_paths_rows, of length] arg_cong [OF huff_paths_rows, of "map undefined"]
  by (simp add: huff_def ConstHuff_new_def archivedNodes_def archivedNodes_0_def
      archivedNodes_1_def archivedNodes_2_def archivedNodes_3_def)

lemma length_huff_loc [simp]: "length (ch_loc huff) = 257"
  by (simp add: huff_def ConstHuff_new_def locNums_def)

lemma huff_root: "ch_tree huff = hroot huff_shape"
  by (simp add: huff_def ConstHuff_new_def huff_shape_def)

lemma length_huff_paths: "length huff_paths = 513"
  using arg_cong [OF huff_paths_rows, of length] by simp

lemma length_huff_codes: "length huff_codes = 257"
  using arg_cong [OF huff_codes_rows, of length] by simp

lemma row_at_paths:
  "k < 513 \<Longrightarrow> row_at None huff_shape (huff_paths ! k) = Some (k, ch_nodeList huff ! k)"
  using arg_cong [OF huff_paths_rows, of "\<lambda>xs. xs ! k"] by (simp add: length_huff_paths)

lemma distinct_huff_paths: "distinct huff_paths"
  unfolding distinct_conv_nth length_huff_paths
  by (metis option.inject prod.inject row_at_paths)

lemma row_at_valid: "row_at p t bs \<noteq> None \<longleftrightarrow> bs \<in> set (shape_paths t)"
  by (induction p t bs rule: row_at.induct) (auto split: if_splits)

lemma set_huff_paths: "set huff_paths = set (shape_paths huff_shape)"
proof (rule card_subset_eq)
  show "finite (set (shape_paths huff_shape))" by simp
  show sub: "set huff_paths \<subseteq> set (shape_paths huff_shape)"
    by (metis in_set_conv_nth length_huff_paths option.distinct(1) row_at_paths row_at_valid subsetI)
  have "card (set huff_paths) = 513"
    using distinct_huff_paths by (simp add: distinct_card length_huff_paths)
  moreover have "card (set (shape_paths huff_shape)) \<le> 513"
    using card_length [of "shape_paths huff_shape"] by (simp add: huff_shape_size)
  moreover have "card (set huff_paths) \<le> card (set (shape_paths huff_shape))"
    using sub by (simp add: card_mono)
  ultimately show "card (set huff_paths) = card (set (shape_paths huff_shape))" by simp
qed

text \<open>Every node of the shape is the row of the table with its index.\<close>

lemma row_at_table:
  assumes "row_at None huff_shape bs = Some (i, n)"
  shows "i < 513 \<and> ch_nodeList huff ! i = n"
proof -
  have "bs \<in> set huff_paths" using assms row_at_valid [of None huff_shape bs] set_huff_paths by simp
  then obtain k where "k < 513" "bs = huff_paths ! k"
    by (metis in_set_conv_nth length_huff_paths)
  with assms row_at_paths [of k] show ?thesis by auto
qed

section \<open>Decoding and encoding follow the shape\<close>

text \<open>
  A sub-shape \<open>t\<close> reached from the root by \<open>pre\<close>, under the node \<open>p\<close>.
\<close>

definition subshape :: "bool list \<Rightarrow> nat option \<Rightarrow> htree \<Rightarrow> bool" where
  "subshape pre p t \<longleftrightarrow> shape_ok t \<and> (\<forall>bs. row_at None huff_shape (pre @ bs) = row_at p t bs)"

lemma subshape_root: "subshape [] None huff_shape"
  by (simp add: subshape_def huff_shape_ok)

lemma subshape_child:
  assumes "subshape pre p (HNode i l r)"
  shows "subshape (pre @ [b]) (Some i) (if b then r else l)"
  using assms by (auto simp: subshape_def)

lemma subshape_node:
  assumes "subshape pre p t"
  shows "row_at p t [] = Some (hroot t, ch_nodeList huff ! hroot t)"
proof -
  obtain n where n: "row_at p t [] = Some (hroot t, n)" by (cases t) auto
  have "row_at None huff_shape (pre @ []) = row_at p t []"
    using assms unfolding subshape_def by blast
  then have "row_at None huff_shape pre = Some (hroot t, n)" using n by simp
  from row_at_table [OF this] n show ?thesis by simp
qed

lemma subshape_HNode:
  assumes "subshape pre p (HNode i l r)"
  shows "ch_nodeList huff ! i =
    \<lparr>cn_left = Some (hroot l), cn_right = Some (hroot r), cn_parent = p, cn_symbol = 257\<rparr>"
  using subshape_node [OF assms] by simp

lemma subshape_HLeaf:
  assumes "subshape pre p (HLeaf i s)"
  shows "ch_nodeList huff ! i =
    \<lparr>cn_left = None, cn_right = None, cn_parent = p, cn_symbol = s\<rparr> \<and> s \<noteq> 257"
  using subshape_node [OF assms] assms by (simp add: subshape_def)

lemma subshape_parent:
  assumes "subshape pre p t"
  shows "cn_parent (ch_nodeList huff ! hroot t) = p"
proof (cases t)
  case (HLeaf i s)
  with subshape_HLeaf assms show ?thesis by fastforce
next
  case (HNode i l r)
  with subshape_HNode assms show ?thesis by fastforce
qed

lemma walk_shape:
  assumes "subshape pre p t" and "row_at p t bs = Some (i, n)" and "cn_symbol n \<noteq> 257"
    and "bloc + length bs \<le> 8 * length fin"
    and "take (length bs) (drop bloc (bytes_bits fin)) = bs"
  shows "huff_walk huff fin (Some (hroot t)) bloc = Some (Some i, bloc + length bs)"
  using assms
proof (induction bs arbitrary: pre p t bloc)
  case Nil
  then show ?case
    using subshape_HLeaf
    by (cases t) (auto simp: huff_walk.simps INTERNAL_NODE_def HMAX_def)
next
  case (Cons b bs)
  from Cons.prems(2) obtain j l r where t: "t = HNode j l r" by (cases t) auto
  let ?t' = "if b then r else l"
  have bl: "bloc < 8 * length fin" using Cons.prems(4) by simp
  have dr: "drop bloc (bytes_bits fin) = bytes_bits fin ! bloc # drop (bloc + 1) (bytes_bits fin)"
    using bl by (simp add: Cons_nth_drop_Suc)
  then have b: "bytes_bits fin ! bloc = b"
    and rest: "take (length bs) (drop (bloc + 1) (bytes_bits fin)) = bs"
    using Cons.prems(5) by simp_all
  have "huff_walk huff fin (Some (hroot ?t')) (bloc + 1) = Some (Some i, bloc + 1 + length bs)"
    using Cons.IH [OF subshape_child, of pre p j l r b "bloc + 1"] Cons.prems t rest by simp
  then show ?case
    using getBit_bit [OF bl] subshape_HNode [OF Cons.prems(1) [unfolded t]] b
    by (subst huff_walk.simps) (cases b; simp add: t INTERNAL_NODE_def HMAX_def)
qed

text \<open>Sending a node writes the turns that lead to it, then the turn to \<open>child\<close>.\<close>

definition sends :: "nat \<Rightarrow> bool list \<Rightarrow> bool" where
  "sends i pre \<longleftrightarrow> (\<forall>child f b. send huff i child f b =
     Option.bind (addBits pre f b) (\<lambda>(f', b').
       case child of
         None \<Rightarrow> Some (f', b')
       | Some c \<Rightarrow> addBit (of_bool (cn_right (ch_nodeList huff ! i) = Some c)) f' b'))"

lemma of_bool_if: "(if P then 1 else 0) = (of_bool P :: byte)"
  by simp

lemma sends_root: "sends (hroot huff_shape) []"
proof -
  have "cn_parent (ch_nodeList huff ! hroot huff_shape) = None"
    by (rule subshape_parent [OF subshape_root])
  then show ?thesis
    unfolding sends_def by (auto simp: send.simps of_bool_if split: option.splits)
qed

lemma sends_child:
  assumes sub: "subshape pre p (HNode i l r)" and s: "sends i pre"
  shows "sends (hroot (if b then r else l)) (pre @ [b])"
proof -
  let ?c = "hroot (if b then r else l)"
  have par: "cn_parent (ch_nodeList huff ! ?c) = Some i"
    by (rule subshape_parent [OF subshape_child [OF sub, of b]])
  have dist: "hroot l \<noteq> hroot r" using sub by (simp add: subshape_def)
  have turn: "of_bool (cn_right (ch_nodeList huff ! i) = Some ?c) = (of_bool b :: byte)"
    using subshape_HNode [OF sub] dist by auto
  have up: "send huff i (Some ?c) f bl = addBits (pre @ [b]) f bl" for f bl
    using s turn unfolding sends_def addBits_append
    by (auto split: option.splits bind_splits)
  show ?thesis
    unfolding sends_def
    by (intro allI, subst send.simps) (simp add: par up of_bool_def cong: option.case_cong)
qed

lemma sends_shape:
  assumes "subshape pre p t" and "sends (hroot t) pre" and "row_at p t bs = Some (i, n)"
  shows "sends i (pre @ bs)"
  using assms
proof (induction bs arbitrary: pre p t)
  case Nil
  then show ?case by (cases t) auto
next
  case (Cons b bs)
  from Cons.prems(3) obtain j l r where t: "t = HNode j l r" by (cases t) auto
  from Cons.IH [OF subshape_child [OF Cons.prems(1) [unfolded t]]
      sends_child [OF Cons.prems(1) [unfolded t]], of b] Cons.prems t
  show ?case by simp
qed

section \<open>The code of a byte\<close>

definition huff_code :: "byte \<Rightarrow> bool list" where
  "huff_code ch = huff_codes ! unat ch"

lemma unat_byte_lt: "unat (ch :: byte) < 256"
  using unsigned_less [of ch] by simp

lemma huff_codes_row:
  assumes "c < 257"
  shows "\<exists>i n. row_at None huff_shape (huff_codes ! c) = Some (i, n) \<and>
    ch_loc huff ! c = Some i \<and> cn_symbol n = c"
  using arg_cong [OF huff_codes_rows, of "\<lambda>xs. xs ! c"] assms length_huff_codes
  by (auto simp: nth_map)

lemma huff_code_row:
  obtains i n where "row_at None huff_shape (huff_code ch) = Some (i, n)"
    "ch_loc huff ! unat ch = Some i" "cn_symbol n = unat ch" "cn_symbol n \<noteq> 257"
    "ch_nodeList huff ! i = n"
  using huff_codes_row [of "unat ch"] unat_byte_lt [of ch] row_at_table
  unfolding huff_code_def by fastforce

lemma row_at_length: "row_at p t bs = Some x \<Longrightarrow> length bs \<le> shape_height t"
  by (induction p t bs rule: row_at.induct) (auto split: if_splits)

lemma length_huff_code: "length (huff_code ch) \<le> 11"
  by (metis huff_code_row huff_shape_height row_at_length)

lemma offsetTransmit_code: "offsetTransmit huff ch fout offset = addBits (huff_code ch) fout offset"
proof -
  obtain i n where r: "row_at None huff_shape (huff_code ch) = Some (i, n)"
    "ch_loc huff ! unat ch = Some i"
    by (rule huff_code_row)
  have "sends i (huff_code ch)"
    using sends_shape [OF subshape_root sends_root r(1)] by simp
  then show ?thesis
    by (auto simp: sends_def offsetTransmit_def r(2) split: option.splits bind_splits)
qed

lemma offsetReceive_code:
  assumes "offset + length (huff_code ch) \<le> 8 * length fin"
    and "take (length (huff_code ch)) (drop offset (bytes_bits fin)) = huff_code ch"
  shows "offsetReceive huff fin offset = Some (unat ch, offset + length (huff_code ch))"
proof -
  obtain i n where r: "row_at None huff_shape (huff_code ch) = Some (i, n)"
    "cn_symbol n = unat ch" "cn_symbol n \<noteq> 257" "ch_nodeList huff ! i = n"
    by (rule huff_code_row)
  from walk_shape [OF subshape_root r(1,3) assms] r(2,4) show ?thesis
    by (simp add: offsetReceive_def huff_root)
qed

text \<open>C29: With the table the library ships, every byte value is sent as a code of at most eleven bits
  that leaves the bits already written as they were, and receiving at the same offset returns the
  byte and stops exactly after its code; nothing is accessed outside the buffer.\<close>

theorem huff_transmit_receive:
  assumes "offset + 11 \<le> 8 * length fout" and "clean fout offset"
  shows "\<exists>fout' offset'. offsetTransmit huff ch fout offset = Some (fout', offset') \<and>
    offset < offset' \<and> offset' \<le> offset + 11 \<and> length fout' = length fout \<and>
    take offset (bytes_bits fout') = take offset (bytes_bits fout) \<and>
    offsetReceive huff fout' offset = Some (unat ch, offset')"
proof -
  let ?n = "length (huff_code ch)"
  have n: "offset + ?n \<le> 8 * length fout" using assms(1) length_huff_code [of ch] by simp
  have pos: "huff_code ch \<noteq> []"
  proof
    assume "huff_code ch = []"
    then obtain i n where "row_at None huff_shape [] = Some (i, n)" "cn_symbol n \<noteq> 257"
      by (metis huff_code_row)
    then show False by (auto simp: huff_shape_def)
  qed
  obtain f where f: "addBits (huff_code ch) fout offset = Some (f, offset + ?n)"
    "length f = length fout"
    "take (offset + ?n) (bytes_bits f) = take offset (bytes_bits fout) @ huff_code ch"
    using addBits_ok [OF n assms(2)] by blast
  have "take offset (take (offset + ?n) (bytes_bits f)) = take offset (bytes_bits fout)"
    unfolding f(3) using n by simp
  then have keep: "take offset (bytes_bits f) = take offset (bytes_bits fout)"
    by (simp add: min_absorb1)
  have "drop offset (take (offset + ?n) (bytes_bits f)) = huff_code ch"
    unfolding f(3) using n by simp
  then have "take ?n (drop offset (bytes_bits f)) = huff_code ch"
    by (simp add: drop_take)
  then have "offsetReceive huff f offset = Some (unat ch, offset + ?n)"
    using n f(2) by (intro offsetReceive_code) simp_all
  with f keep pos length_huff_code [of ch] show ?thesis
    by (auto simp: offsetTransmit_code)
qed

theorem huff_transmit_receive_witness:
  "\<exists>f b. offsetTransmit huff 65 (replicate 4 0) 5 = Some (f, b) \<and>
     offsetReceive huff f 5 = Some (65, b)"
  using huff_transmit_receive [of 5 "replicate 4 0" 65]
  by (auto simp: clean_def)

lemma row_at_leaf_extend:
  "row_at p t bs = Some (i, n) \<Longrightarrow> cn_symbol n \<noteq> 257 \<Longrightarrow> row_at p t (bs @ c # cs) = None"
  by (induction p t bs rule: row_at.induct) (auto split: if_splits)

text \<open>The codes of the shipped table form a prefix code: if two coded bytes can begin the same
  bit string they are the same byte.\<close>

theorem huff_code_prefix_free:
  assumes "huff_code a @ xs = huff_code b @ ys"
  shows "a = b"
proof -
  obtain i n where a: "row_at None huff_shape (huff_code a) = Some (i, n)"
    "cn_symbol n = unat a" "cn_symbol n \<noteq> 257"
    by (rule huff_code_row)
  obtain j m where b: "row_at None huff_shape (huff_code b) = Some (j, m)"
    "cn_symbol m = unat b" "cn_symbol m \<noteq> 257"
    by (rule huff_code_row)
  obtain zs where "huff_code a = huff_code b @ zs \<or> huff_code a @ zs = huff_code b"
    using assms by (auto simp: append_eq_append_conv2)
  then have "huff_code a = huff_code b"
    using row_at_leaf_extend [OF a(1,3)] row_at_leaf_extend [OF b(1,3)] a(1) b(1)
    by (cases zs) (auto, metis option.distinct(1))
  with a b show ?thesis by (simp add: word_unat_eq_iff)
qed

theorem huff_code_prefix_free_witness:
  "huff_code 200 @ [True] = huff_code 200 @ [True] \<and> (200 :: byte) = 200"
  using huff_code_prefix_free [of 200 "[True]" 200 "[True]"] by simp

end
