(* ===== verification/Codec.thy ===== *)
theory Codec
  imports Stream Huffman
begin

text \<open>
  The message codecs of \<open>Utility/Misc/MSG/Codec.cpp\<close>: \<open>FlushBits\<close> and \<open>ReadBits\<close>, which move
  bytes between the bit buffer and the stream, the out-of-band codec (\<open>COOBCodec\<close>) and the bit
  codec (\<open>CBitCodec\<close>), which sends the odd bits of a value as they are and its whole bytes through
  the constant Huffman tree.

  The abstract view of a writer is the string of bits it has produced (\<open>wr_bits\<close>), that of a reader
  the string of bits it has still to consume (\<open>rd_bits\<close>). The lemmas show that flushing and
  refilling keep these views, and that encoding appends, and decoding removes, \<open>enc_bits\<close>.
\<close>

datatype msg_error =
    StreamError stream_error
  | BadBitsException nat
  | BadBufferAccess
  | AssertionFailed
  | NonTerminating
  | BadEntityFieldCountException byte

definition lift_stream :: "stream_error + 'a \<Rightarrow> msg_error + 'a" where
  "lift_stream r = (case r of Inl e \<Rightarrow> Inl (StreamError e) | Inr x \<Rightarrow> Inr x)"

lemma lift_stream_simps [simp]:
  "lift_stream (Inl e) = Inl (StreamError e)" "lift_stream (Inr x) = Inr x"
  by (simp_all add: lift_stream_def)

definition lift_access :: "'a option \<Rightarrow> msg_error + 'a" where
  "lift_access r = (case r of None \<Rightarrow> Inl BadBufferAccess | Some x \<Rightarrow> Inr x)"

lemma lift_access_simps [simp]:
  "lift_access None = Inl BadBufferAccess" "lift_access (Some x) = Inr x"
  by (simp_all add: lift_access_def)

text \<open>The state a codec works on: the bit position, the stream and the bit buffer.\<close>

type_synonym bitstate = "nat \<times> mstream \<times> byte list"

section \<open>FlushBits and ReadBits\<close>

definition FlushBits :: "nat \<Rightarrow> mstream \<Rightarrow> byte list \<Rightarrow> msg_error + bitstate" where
  "FlushBits bpos stream bitData =
     (let bitDataSize = length bitData;
          n = bpos div 8
      in if n > bitDataSize div 2 then
           (if n > bitDataSize then Inl BadBufferAccess
            else rbind (lift_stream (st_Write stream (take n bitData))) (\<lambda>stream'.
              let lastNum = bitDataSize - n;
                  moved = blit bitData 0 (drop n bitData);
                  cleared = blit moved lastNum (replicate (bitDataSize - lastNum) 0)
              in Inr (bpos mod 8, stream', cleared)))
         else Inr (bpos, stream, bitData))"

definition ReadBits :: "nat \<Rightarrow> mstream \<Rightarrow> byte list \<Rightarrow> msg_error + bitstate" where
  "ReadBits bpos stream bitData =
     (let bitDataSize = length bitData;
          n = bpos div 8
      in if n > bitDataSize div 2 then
           (if n > bitDataSize then Inl BadBufferAccess
            else
              (let lastNum = bitDataSize - n;
                   moved = blit bitData 0 (drop n bitData);
                   remainingRead = min n (sz_sub (st_GetLength stream) (st_GetPosition stream))
               in rbind
                    (if remainingRead \<noteq> 0
                     then rbind (lift_stream (st_Read stream remainingRead)) (\<lambda>(bs, stream').
                            Inr (stream', blit moved lastNum bs))
                     else if \<forall>b\<in>set moved. b = 0
                          then Inl (StreamError (StreamOverflowException Reading))
                          else Inr (stream, moved))
                    (\<lambda>(stream', filled).
                      Inr (bpos mod 8, stream',
                        blit filled (lastNum + remainingRead)
                          (replicate (bitDataSize - lastNum - remainingRead) 0)))))
         else Inr (bpos, stream, bitData))"

section \<open>The out-of-band codec\<close>

definition OOB_Encode :: "byte list \<Rightarrow> nat \<Rightarrow> bitstate \<Rightarrow> msg_error + bitstate" where
  "OOB_Encode data bits = (\<lambda>(bpos, stream, bitBuffer).
     let put = (\<lambda>k. if k > length data then Inl BadBufferAccess
                    else rbind (lift_stream (st_Write stream (take k data)))
                           (\<lambda>stream'. Inr (bpos, stream', bitBuffer)))
     in if bits = 8 then put 1
        else if bits = 16 then put 2
        else if bits = 32 then put 4
        else if bits = 64 then put 8
        else Inl (BadBitsException bits))"

definition OOB_Decode :: "byte list \<Rightarrow> nat \<Rightarrow> bitstate \<Rightarrow> msg_error + byte list \<times> bitstate" where
  "OOB_Decode data bits = (\<lambda>(bpos, stream, bitBuffer).
     let n = bpos div 8;
         get = (\<lambda>k. if k > length data \<or> n + k > length bitBuffer then Inl BadBufferAccess
                    else rbind (ReadBits (bpos + bits) stream bitBuffer) (\<lambda>st'.
                           Inr (blit data 0 (take k (drop n bitBuffer)), st')))
     in if bits = 8 then get 1
        else if bits = 16 then get 2
        else if bits = 32 then get 4
        else if bits = 64 then get 8
        else Inl (BadBitsException bits))"

section \<open>The bit codec\<close>

text \<open>Write each bit of a partial byte: \<open>addBit(bitVal & 1); bitVal >>= 1\<close>.\<close>

fun encode_bit_loop :: "nat \<Rightarrow> byte \<Rightarrow> byte list \<Rightarrow> nat \<Rightarrow> (byte list \<times> nat) option" where
  "encode_bit_loop 0 bitVal bitBuffer bpos = Some (bitBuffer, bpos)"
| "encode_bit_loop (Suc k) bitVal bitBuffer bpos =
     Option.bind (addBit (bitVal AND 1) bitBuffer bpos) (\<lambda>(f, b).
       encode_bit_loop k (drop_bit 1 bitVal) f b)"

text \<open>Send one byte through the Huffman tree and flush.\<close>

definition put_byte :: "byte \<Rightarrow> bitstate \<Rightarrow> msg_error + bitstate" where
  "put_byte v = (\<lambda>(bpos, stream, bitBuffer).
     rbind (lift_access (offsetTransmit huff v bitBuffer bpos)) (\<lambda>(f, b).
       FlushBits b stream f))"

text \<open>The bytes of a value whose first \<open>bitNum mod 8\<close> bits have been written already.\<close>

function encode_shifted_loop ::
  "byte list \<Rightarrow> nat \<Rightarrow> nat \<Rightarrow> nat \<Rightarrow> bitstate \<Rightarrow> msg_error + bitstate" where
  "encode_shifted_loop buf remainingBits i bitNum st =
     (if bitNum < remainingBits then
        (let index = bitNum div 8;
             subBitNum = bitNum - i
         in if index + 1 \<ge> length buf then Inl BadBufferAccess
            else rbind (put_byte (drop_bit subBitNum (buf ! index) OR
                                  push_bit (8 - subBitNum) (buf ! (index + 1))) st)
                   (\<lambda>st'. encode_shifted_loop buf remainingBits (i + 8) (bitNum + 8) st'))
      else Inr st)"
  by pat_completeness auto
termination
  by (relation "measure (\<lambda>(buf, rb, i, bn, st). rb - bn)") auto

declare encode_shifted_loop.simps [simp del]

function encode_full_loop :: "byte list \<Rightarrow> nat \<Rightarrow> nat \<Rightarrow> nat \<Rightarrow> bitstate \<Rightarrow> msg_error + bitstate" where
  "encode_full_loop buf p remainingBits i st =
     (if i < remainingBits then
        (if p \<ge> length buf then Inl BadBufferAccess
         else rbind (put_byte (buf ! p) st)
                (\<lambda>st'. encode_full_loop buf (p + 1) remainingBits (i + 8) st'))
      else Inr st)"
  by pat_completeness auto
termination
  by (relation "measure (\<lambda>(buf, p, rb, i, st). rb - i)") auto

declare encode_full_loop.simps [simp del]

definition Bit_Encode :: "byte list \<Rightarrow> nat \<Rightarrow> bitstate \<Rightarrow> msg_error + bitstate" where
  "Bit_Encode buf bits st =
     (let nbits = bits mod 8 in
      rbind
        (if nbits \<noteq> 0 then
           (case st of (bpos, stream, bitBuffer) \<Rightarrow>
             if buf = [] then Inl BadBufferAccess
             else rbind (lift_access (encode_bit_loop nbits (buf ! 0) bitBuffer bpos))
                    (\<lambda>(f, b). FlushBits b stream f))
         else Inr st)
        (\<lambda>st1.
          let remainingBits = bits - nbits;
              bitNum = nbits
          in if remainingBits \<noteq> 0 then
               (if bitNum mod 8 \<noteq> 0 then encode_shifted_loop buf remainingBits 0 bitNum st1
                else encode_full_loop buf (bitNum div 8) remainingBits 0 st1)
             else Inr st1))"

text \<open>Decoding reads into \<open>buf\<close>, the memory of the value, and returns it with the new state.\<close>

fun decode_bit_loop :: "nat \<Rightarrow> nat \<Rightarrow> byte \<Rightarrow> byte list \<Rightarrow> nat \<Rightarrow> (byte \<times> nat) option" where
  "decode_bit_loop 0 i bitVal bitBuffer bpos = Some (bitVal, bpos)"
| "decode_bit_loop (Suc k) i bitVal bitBuffer bpos =
     Option.bind (getBit bitBuffer bpos) (\<lambda>(v, b).
       decode_bit_loop k (i + 1) (bitVal OR push_bit i v) bitBuffer b)"

text \<open>Refill and receive one byte.\<close>

definition get_byte :: "bitstate \<Rightarrow> msg_error + byte \<times> bitstate" where
  "get_byte = (\<lambda>(bpos, stream, bitBuffer).
     rbind (ReadBits bpos stream bitBuffer) (\<lambda>(bpos', stream', bitBuffer').
     rbind (lift_access (offsetReceive huff bitBuffer' bpos')) (\<lambda>(v, b).
       Inr (of_nat v, (b, stream', bitBuffer')))))"

function decode_shifted_loop ::
  "byte list \<Rightarrow> nat \<Rightarrow> nat \<Rightarrow> nat \<Rightarrow> bitstate \<Rightarrow> msg_error + byte list \<times> bitstate" where
  "decode_shifted_loop buf remainingBits i bitNum st =
     (if i < remainingBits then
        (let index = bitNum div 8;
             subBitNum = bitNum - i
         in rbind (get_byte st) (\<lambda>(received, st').
              if index + 1 \<ge> length buf then Inl BadBufferAccess
              else
                (let buf1 = buf[index := (buf ! index) OR push_bit subBitNum received];
                     buf2 = buf1[index + 1 := drop_bit (8 - subBitNum) received]
                 in decode_shifted_loop buf2 remainingBits (i + 8) (bitNum + 8) st')))
      else Inr (buf, st))"
  by pat_completeness auto
termination
  by (relation "measure (\<lambda>(buf, rb, i, bn, st). rb - i)") auto

declare decode_shifted_loop.simps [simp del]

function decode_full_loop ::
  "byte list \<Rightarrow> nat \<Rightarrow> nat \<Rightarrow> nat \<Rightarrow> bitstate \<Rightarrow> msg_error + byte list \<times> bitstate" where
  "decode_full_loop buf p remainingBits i st =
     (if i < remainingBits then
        rbind (get_byte st) (\<lambda>(received, st').
          if p \<ge> length buf then Inl BadBufferAccess
          else decode_full_loop (buf[p := received]) (p + 1) remainingBits (i + 8) st')
      else Inr (buf, st))"
  by pat_completeness auto
termination
  by (relation "measure (\<lambda>(buf, p, rb, i, st). rb - i)") auto

declare decode_full_loop.simps [simp del]

definition Bit_Decode :: "byte list \<Rightarrow> nat \<Rightarrow> bitstate \<Rightarrow> msg_error + byte list \<times> bitstate" where
  "Bit_Decode buf bits st =
     (let nbits = bits mod 8 in
      rbind
        (if nbits \<noteq> 0 then
           (case st of (bpos, stream, bitBuffer) \<Rightarrow>
             rbind (ReadBits bpos stream bitBuffer) (\<lambda>(bpos', stream', bitBuffer').
             rbind (lift_access (decode_bit_loop nbits 0 0 bitBuffer' bpos')) (\<lambda>(bitVal, b).
               if buf = [] then Inl BadBufferAccess
               else Inr (buf[0 := bitVal], (b, stream', bitBuffer')))))
         else Inr (buf, st))
        (\<lambda>(buf1, st1).
          let remainingBits = bits - nbits;
              bitNum = nbits
          in if remainingBits \<noteq> 0 then
               (if bitNum mod 8 \<noteq> 0 then decode_shifted_loop buf1 remainingBits 0 bitNum st1
                else decode_full_loop buf1 (bitNum div 8) remainingBits 0 st1)
             else Inr (buf1, st1)))"

section \<open>Writers as strings of bits\<close>

lemma st_room_mono: "st_room s m \<Longrightarrow> n \<le> m \<Longrightarrow> st_room s n"
  by (cases s) auto

text \<open>A writer at the end of its stream with room for \<open>R\<close> bytes; the buffer has 32 bytes.\<close>

fun wr_inv :: "nat \<Rightarrow> bitstate \<Rightarrow> bool" where
  "wr_inv R (bpos, s, buf) \<longleftrightarrow>
     st_invar s \<and> st_GetPosition s = length (st_content s) \<and> st_room s R \<and>
     length buf = 32 \<and> bpos div 8 \<le> 16 \<and> clean buf bpos"

fun wr_bits :: "bitstate \<Rightarrow> bool list" where
  "wr_bits (bpos, s, buf) = bytes_bits (st_content s) @ take bpos (bytes_bits buf)"

lemma flush_buffer:
  "n \<le> length buf \<Longrightarrow>
   blit (blit buf 0 (drop n buf)) (length buf - n) (replicate n 0) = drop n buf @ replicate n (0::byte)"
  by (simp add: blit_def)

lemma take_bits_split:
  "take b xs = take (8 * (b div 8)) xs @ take (b mod 8) (drop (8 * (b div 8)) xs)"
  by (metis mult_div_mod_eq take_add)

lemma FlushBits_ok:
  assumes inv: "st_invar s" "st_GetPosition s = length (st_content s)" "st_room s R"
    and buf: "length buf = 32" "bpos \<le> 256" "clean buf bpos"
    and room: "length (wr_bits (bpos, s, buf)) \<le> 8 * R"
  shows "\<exists>st'. FlushBits bpos s buf = Inr st' \<and> wr_inv R st' \<and> wr_bits st' = wr_bits (bpos, s, buf)"
proof (cases "bpos div 8 > 16")
  case False
  then show ?thesis using assms by (simp add: FlushBits_def)
next
  case True
  let ?n = "bpos div 8"
  have n: "?n \<le> 32" using buf(2) by simp
  have "8 * (length (st_content s) + ?n) \<le> 8 * R"
    using room buf by (simp add: min_absorb2)
  then have "st_room s (st_GetPosition s + length (take ?n buf))"
    using st_room_mono [OF inv(3)] inv(2) n buf(1) by simp
  then obtain s' where s': "st_Write s (take ?n buf) = Inr s'" "st_invar s'"
    "st_content s' = st_content s @ take ?n buf" "st_GetPosition s' = length (st_content s')"
    "st_room s' = st_room s"
    using ms.write_append [OF inv(1,2)] by blast
  let ?buf' = "drop ?n buf @ replicate ?n 0"
  have run: "FlushBits bpos s buf = Inr (bpos mod 8, s', ?buf')"
    using True n buf(1) s'(1) flush_buffer [of ?n buf] by (simp add: FlushBits_def Let_def)
  have "clean ?buf' (bpos mod 8)"
    using buf n by (cases "?n = 32") (auto simp: clean_def nth_append)
  then have "wr_inv R (bpos mod 8, s', ?buf')"
    using s' inv(3) buf(1) n by simp
  moreover have "wr_bits (bpos mod 8, s', ?buf') = wr_bits (bpos, s, buf)"
  proof -
    have "take (bpos mod 8) (bytes_bits ?buf') = take (bpos mod 8) (drop (8 * ?n) (bytes_bits buf))"
    proof (cases "?n = 32")
      case True
      then have "bpos = 256" using buf(2) by linarith
      then show ?thesis by simp
    next
      case False
      with n buf(1) show ?thesis by (simp add: bytes_bits_drop)
    qed
    then show ?thesis
      using take_bits_split [of bpos "bytes_bits buf"] s'(3) by (simp add: bytes_bits_take)
  qed
  ultimately show ?thesis using run by blast
qed

lemma addBits_flush:
  assumes inv: "wr_inv R st" and room: "length (wr_bits st) + length vs \<le> 8 * R"
    and vs: "length vs \<le> 100"
  obtains bpos s buf f b st' where "st = (bpos, s, buf)" "addBits vs buf bpos = Some (f, b)"
    "FlushBits b s f = Inr st'" "wr_inv R st'" "wr_bits st' = wr_bits st @ vs"
proof -
  obtain bpos s buf where st: "st = (bpos, s, buf)" by (cases st)
  have i: "st_invar s" "st_GetPosition s = length (st_content s)" "st_room s R" "length buf = 32"
    "bpos < 136 + 8" "clean buf bpos"
    using inv by (auto simp: st)
  then obtain f where f: "addBits vs buf bpos = Some (f, bpos + length vs)" "length f = length buf"
    "take (bpos + length vs) (bytes_bits f) = take bpos (bytes_bits buf) @ vs"
    "clean f (bpos + length vs)"
    using addBits_ok [of bpos vs buf] vs by auto
  have w: "wr_bits (bpos + length vs, s, f) = wr_bits st @ vs"
    using f(3) by (simp add: st)
  have "length (wr_bits (bpos + length vs, s, f)) \<le> 8 * R"
    unfolding w using room by simp
  then obtain st' where "FlushBits (bpos + length vs) s f = Inr st'" "wr_inv R st'"
    "wr_bits st' = wr_bits st @ vs"
    using FlushBits_ok [of s R f "bpos + length vs"] i f(2,4) vs w by auto
  with st f(1) that show thesis by blast
qed

lemma put_byte_ok:
  assumes "wr_inv R st" and "length (wr_bits st) + length (huff_code v) \<le> 8 * R"
  shows "\<exists>st'. put_byte v st = Inr st' \<and> wr_inv R st' \<and> wr_bits st' = wr_bits st @ huff_code v"
proof -
  have "length (huff_code v) \<le> 100" using length_huff_code [of v] by simp
  from addBits_flush [OF assms this] show ?thesis
    by (metis (no_types, lifting) case_prod_conv lift_access_simps(2) offsetTransmit_code
        put_byte_def rbind.simps(2))
qed

lemma encode_bit_loop_addBits:
  "encode_bit_loop k v f b = addBits (map (bit v) [0..<k]) f b"
proof (induction k arbitrary: v f b)
  case 0
  then show ?case by simp
next
  case (Suc k)
  have "map (bit v) [0..<Suc k] = bit v 0 # map (bit (drop_bit 1 v)) [0..<k]"
    by (simp add: upt_conv_Cons map_Suc_upt [symmetric] bit_drop_bit_eq del: upt_Suc)
  moreover have "v AND 1 = of_bool (bit v 0)"
    by (simp add: and_one_eq mod_2_eq_odd bit_0)
  moreover have "encode_bit_loop k (drop_bit 1 v) =
      (\<lambda>f b. addBits (map (bit (drop_bit 1 v)) [0..<k]) f b)"
    by (intro ext) (rule Suc.IH)
  ultimately show ?case by (simp only: encode_bit_loop.simps addBits.simps)
qed

section \<open>What a value is encoded as\<close>

text \<open>The odd low bits as they are, then the remaining bits in groups of eight, each coded.\<close>

definition enc_bits :: "byte list \<Rightarrow> nat \<Rightarrow> bool list" where
  "enc_bits data bits =
     take (bits mod 8) (bytes_bits data) @
     concat (map huff_code (bits_bytes (bits div 8) (drop (bits mod 8) (bytes_bits data))))"

lemma octet: "r < 8 \<Longrightarrow> (r + 8 * k) div 8 = k \<and> (r + 8 * k) mod 8 = (r :: nat)"
  by simp

lemma shifted_byte:
  assumes "0 < nb" "nb < 8" "k + 1 < length buf"
  shows "drop_bit nb (buf ! k) OR push_bit (8 - nb) (buf ! (k + 1)) =
    bits_byte (take 8 (drop (nb + 8 * k) (bytes_bits buf)))"
proof (rule bit_word_eqI)
  fix i :: nat
  assume "i < LENGTH(8)"
  then have i: "i < 8" by simp
  let ?j = "nb + 8 * k + i"
  have j: "?j < 8 * length buf" using assms i by simp
  have "bit (bits_byte (take 8 (drop (nb + 8 * k) (bytes_bits buf)))) i = bytes_bits buf ! ?j"
    using j i by (subst bit_bits_byte) auto
  also have "\<dots> = bit (buf ! (?j div 8)) (?j mod 8)" using j by (rule nth_bytes_bits)
  also have "\<dots> = (if nb + i < 8 then bit (buf ! k) (nb + i) else bit (buf ! (k + 1)) (nb + i - 8))"
  proof (cases "nb + i < 8")
    case True
    have "?j = (nb + i) + 8 * k" by simp
    then have "?j div 8 = k \<and> ?j mod 8 = nb + i" using octet [OF True, of k] by (simp only:)
    with True show ?thesis by simp
  next
    case False
    then have j': "?j = (nb + i - 8) + 8 * (k + 1)" "nb + i - 8 < 8" using assms i by simp_all
    then have "?j div 8 = k + 1 \<and> ?j mod 8 = nb + i - 8"
      using octet [OF j'(2), of "k + 1"] by (simp only:)
    with False show ?thesis by simp
  qed
  finally show "bit (drop_bit nb (buf ! k) OR push_bit (8 - nb) (buf ! (k + 1))) i =
      bit (bits_byte (take 8 (drop (nb + 8 * k) (bytes_bits buf)))) i"
    using assms i bit_imp_le_length [of "buf ! k" "nb + i"]
    by (auto simp: bit_or_iff bit_drop_bit_eq bit_push_bit_iff add.commute)
qed

lemma encode_shifted_loop_ok:
  assumes "0 < nb" "nb < 8" "m < length data" "k \<le> m"
    and "wr_inv R st"
    and "length (wr_bits st) +
      length (concat (map huff_code (bits_bytes (m - k) (drop (nb + 8 * k) (bytes_bits data))))) \<le> 8 * R"
  shows "\<exists>st'. encode_shifted_loop data (8 * m) (8 * k) (nb + 8 * k) st = Inr st' \<and> wr_inv R st' \<and>
    wr_bits st' = wr_bits st @
      concat (map huff_code (bits_bytes (m - k) (drop (nb + 8 * k) (bytes_bits data))))"
  using assms
proof (induction "m - k" arbitrary: k st)
  case 0
  then have "\<not> nb + 8 * k < 8 * m" by simp
  with 0 show ?case by (simp add: encode_shifted_loop.simps)
next
  case (Suc d)
  let ?v = "bits_byte (take 8 (drop (nb + 8 * k) (bytes_bits data)))"
  have k: "k < m" "m - k = Suc (m - (k + 1))" "d = m - (k + 1)" using Suc.hyps(2) by auto
  have lt: "nb + 8 * k < 8 * m" "(nb + 8 * k) div 8 = k" using k(1) Suc.prems(1,2) by auto
  have bb: "bits_bytes (m - k) (drop (nb + 8 * k) (bytes_bits data)) =
      ?v # bits_bytes (m - (k + 1)) (drop (nb + 8 * (k + 1)) (bytes_bits data))"
    unfolding k(2) by (simp add: add.commute add.left_commute)
  have room: "length (wr_bits st) + length (huff_code ?v) \<le> 8 * R"
    using Suc.prems(6) unfolding bb by simp
  obtain st1 where st1: "put_byte ?v st = Inr st1" "wr_inv R st1"
    "wr_bits st1 = wr_bits st @ huff_code ?v"
    using put_byte_ok [OF Suc.prems(5) room] by blast
  have v: "drop_bit nb (data ! k) OR push_bit (8 - nb) (data ! (k + 1)) = ?v"
    using Suc.prems k(1) by (intro shifted_byte) auto
  have step: "encode_shifted_loop data (8 * m) (8 * k) (nb + 8 * k) st =
      encode_shifted_loop data (8 * m) (8 * (k + 1)) (nb + 8 * (k + 1)) st1"
    using lt k(1) Suc.prems(1,2,3) st1(1) v
    by (subst encode_shifted_loop.simps) (simp add: Let_def add.commute add.left_commute)
  show ?case
    unfolding step bb
    using Suc.hyps(1) [OF k(3) Suc.prems(1-3), of st1] Suc.prems(6) k(1) st1
    unfolding bb by auto
qed

lemma encode_full_loop_ok:
  assumes "m \<le> length data" "k \<le> m" and "wr_inv R st"
    and "length (wr_bits st) +
      length (concat (map huff_code (take (m - k) (drop k data)))) \<le> 8 * R"
  shows "\<exists>st'. encode_full_loop data k (8 * m) (8 * k) st = Inr st' \<and> wr_inv R st' \<and>
    wr_bits st' = wr_bits st @ concat (map huff_code (take (m - k) (drop k data)))"
  using assms
proof (induction "m - k" arbitrary: k st)
  case 0
  then show ?case by (simp add: encode_full_loop.simps)
next
  case (Suc d)
  have k: "k < m" "d = m - (k + 1)" using Suc.hyps(2) by auto
  have bb: "take (m - k) (drop k data) = data ! k # take (m - (k + 1)) (drop (k + 1) data)"
    using k(1) Suc.prems(1) Suc.hyps(2)
    by (metis Cons_nth_drop_Suc Suc_eq_plus1 k(2) less_le_trans take_Suc_Cons)
  have room: "length (wr_bits st) + length (huff_code (data ! k)) \<le> 8 * R"
    using Suc.prems(4) unfolding bb by simp
  obtain st1 where st1: "put_byte (data ! k) st = Inr st1" "wr_inv R st1"
    "wr_bits st1 = wr_bits st @ huff_code (data ! k)"
    using put_byte_ok [OF Suc.prems(3) room] by blast
  have step: "encode_full_loop data k (8 * m) (8 * k) st =
      encode_full_loop data (k + 1) (8 * m) (8 * (k + 1)) st1"
    using k(1) Suc.prems(1) st1(1) by (subst encode_full_loop.simps) (simp add: add.commute)
  show ?case
    unfolding step bb
    using Suc.hyps(1) [OF k(2) Suc.prems(1), of st1] Suc.prems(4) k(1) st1
    unfolding bb by auto
qed

lemma bits_bytes_take: "n \<le> length data \<Longrightarrow> bits_bytes n (bytes_bits data) = take n data"
proof (induction n arbitrary: data)
  case 0
  then show ?case by simp
next
  case (Suc n)
  then show ?case by (cases data) auto
qed

lemma Bit_Encode_ok:
  assumes inv: "wr_inv R st" and data: "bits \<le> 8 * length data"
    and room: "length (wr_bits st) + length (enc_bits data bits) \<le> 8 * R"
  shows "\<exists>st'. Bit_Encode data bits st = Inr st' \<and> wr_inv R st' \<and>
    wr_bits st' = wr_bits st @ enc_bits data bits"
proof (cases "bits mod 8 = 0")
  case True
  let ?m = "bits div 8"
  have m: "bits = 8 * ?m" "?m \<le> length data" using True data by auto
  have e: "enc_bits data bits = concat (map huff_code (take ?m data))"
    using m(2) True by (simp add: enc_bits_def bits_bytes_take)
  obtain st' where "encode_full_loop data 0 (8 * ?m) (8 * 0) st = Inr st'" "wr_inv R st'"
    "wr_bits st' = wr_bits st @ enc_bits data bits"
    using encode_full_loop_ok [OF m(2) _ inv, of 0] room e by auto
  moreover have "Bit_Encode data bits st = encode_full_loop data 0 (8 * ?m) (8 * 0) st"
    using True m(1) by (simp add: Bit_Encode_def Let_def encode_full_loop.simps)
  ultimately show ?thesis by metis
next
  case False
  let ?m = "bits div 8" and ?nb = "bits mod 8"
  have m: "bits - ?nb = 8 * ?m" by (simp add: minus_mod_eq_mult_div)
  have nb: "0 < ?nb" "?nb < 8" using False by simp_all
  have "8 * ?m + ?nb \<le> 8 * length data" using data by simp
  then have ml: "?m < length data" using nb by linarith
  then obtain b0 rest where d: "data = b0 # rest" by (cases data) auto
  have lo: "map (bit (data ! 0)) [0..<?nb] = take ?nb (bytes_bits data)"
    using nb(2) by (simp add: d byte_bits_def take_map)
  have v100: "length (take ?nb (bytes_bits data)) \<le> 100" using nb by simp
  have room1: "length (wr_bits st) + length (take ?nb (bytes_bits data)) \<le> 8 * R"
    using room by (simp add: enc_bits_def)
  obtain bpos s buf f b st1 where st1: "st = (bpos, s, buf)"
    "addBits (take ?nb (bytes_bits data)) buf bpos = Some (f, b)" "FlushBits b s f = Inr st1"
    "wr_inv R st1" "wr_bits st1 = wr_bits st @ take ?nb (bytes_bits data)"
    using addBits_flush [OF inv room1 v100] by blast
  have lo': "map (bit b0) [0..<?nb] = take ?nb (bytes_bits data)" using lo by (simp add: d)
  have mm: "?nb mod 8 = ?nb" by simp
  have first: "Bit_Encode data bits st =
      (if 8 * ?m \<noteq> 0 then encode_shifted_loop data (8 * ?m) 0 ?nb st1 else Inr st1)"
    unfolding Bit_Encode_def Let_def mm m encode_bit_loop_addBits
    using st1(1-3) nb lo' by (simp add: d)
  have "length (wr_bits st1) + length (concat (map huff_code
      (bits_bytes (?m - 0) (drop (?nb + 8 * 0) (bytes_bits data))))) \<le> 8 * R"
    using room st1(5) by (simp add: enc_bits_def)
  then obtain st' where st': "encode_shifted_loop data (8 * ?m) 0 ?nb st1 = Inr st'" "wr_inv R st'"
    "wr_bits st' = wr_bits st @ enc_bits data bits"
    using encode_shifted_loop_ok [OF nb ml, of 0 R st1] st1(4,5) by (auto simp: enc_bits_def)
  have "?m = 0 \<Longrightarrow> enc_bits data bits = take ?nb (bytes_bits data)"
    by (simp add: enc_bits_def)
  with first st' st1(4,5) show ?thesis by (cases "?m = 0") auto
qed

section \<open>Readers as strings of bits\<close>

text \<open>A reader inside its stream, and the bits it has still to consume.\<close>

fun rd_inv :: "bitstate \<Rightarrow> bool" where
  "rd_inv (bpos, s, buf) \<longleftrightarrow> st_invar s \<and> length buf = 32 \<and> bpos \<le> 256 \<and>
     (st_GetPosition s = 0 \<longrightarrow> st_content s = [])"

fun rd_bits :: "bitstate \<Rightarrow> bool list" where
  "rd_bits (bpos, s, buf) =
     drop bpos (bytes_bits buf) @ bytes_bits (drop (st_GetPosition s) (st_content s))"

text \<open>\<open>bs\<close> comes next; a bit set somewhere behind keeps the end of the stream from being reached.\<close>

definition rd_next :: "bitstate \<Rightarrow> bool list \<Rightarrow> bool" where
  "rd_next st bs \<longleftrightarrow> rd_inv st \<and> (\<exists>post. rd_bits st = bs @ post)"

lemma bytes_bits_zero: "\<forall>b\<in>set bs. b = 0 \<Longrightarrow> True \<notin> set (bytes_bits bs)"
  by (induction bs) (auto simp: byte_bits_def)

lemma ReadBits_ok:
  assumes inv: "rd_inv (bpos, s, buf)" and one: "True \<in> set (rd_bits (bpos, s, buf))"
  shows "\<exists>bpos' s' buf' k. ReadBits bpos s buf = Inr (bpos', s', buf') \<and>
    rd_inv (bpos', s', buf') \<and> bpos' < 144 \<and>
    rd_bits (bpos', s', buf') = rd_bits (bpos, s, buf) @ replicate k False"
proof (cases "bpos div 8 > 16")
  case False
  then have "bpos < 144" by linarith
  moreover have "ReadBits bpos s buf = Inr (bpos, s, buf)"
    using False inv by (simp add: ReadBits_def)
  moreover have "rd_bits (bpos, s, buf) = rd_bits (bpos, s, buf) @ replicate 0 False" by simp
  ultimately show ?thesis using inv by blast
next
  case True
  let ?n = "bpos div 8" and ?p = "st_GetPosition s" and ?c = "st_content s"
  let ?r = "min ?n (length ?c - ?p)"
  let ?in = "take ?r (drop ?p ?c)"
  have i: "st_invar s" "length buf = 32" "bpos \<le> 256" using inv by auto
  have n: "?n \<le> 32" using i(3) by simp
  have p: "?p \<le> length ?c" by (rule ms.pos_le [OF i(1)])
  have rem: "min ?n (sz_sub (st_GetLength s) ?p) = ?r"
    using p by (simp add: st_GetLength_content [OF i(1)])
  have lin: "length ?in = ?r" using p by simp
  have rl: "?p + ?r \<le> length ?c" using p by simp
  let ?buf' = "drop ?n buf @ ?in @ replicate (?n - ?r) 0"
  have lb: "length ?buf' = 32" using i(2) n by simp
  obtain s' where s': "st_Read s ?r = Inr (?in, s')" "st_invar s'" "st_content s' = ?c"
    "st_GetPosition s' = ?p + ?r"
    using ms.rd_ok [OF i(1) rl] by blast
  have moved: "blit buf 0 (drop ?n buf) = drop ?n buf @ drop (32 - ?n) buf"
    using i(2) by (simp add: blit_def)
  have filled: "blit (drop ?n buf @ drop (32 - ?n) buf) (32 - ?n) ?in =
      drop ?n buf @ ?in @ drop (32 - ?n + ?r) buf"
    using i(2) lin by (simp add: blit_def add.commute)
  have tail: "blit (drop ?n buf @ ?in @ drop (32 - ?n + ?r) buf) (32 - ?n + ?r)
      (replicate (?n - ?r) 0) = ?buf'"
    using i(2) lin n by (simp add: blit_def)
  have sz: "32 - (32 - ?n) - ?r = ?n - ?r" using n by simp
  have skip: "drop bpos (bytes_bits buf) = drop (bpos mod 8) (bytes_bits (drop ?n buf))"
    by (simp add: bytes_bits_drop drop_drop add.commute)
  have run: "ReadBits bpos s buf = Inr (bpos mod 8, if ?r \<noteq> 0 then s' else s, ?buf')"
  proof (cases "?r = 0")
    case False
    then show ?thesis
      using True n i(2) s'(1) rem moved filled tail sz
      by (simp only: ReadBits_def Let_def i(2) if_True if_False rem moved) simp
  next
    case r0: True
    then have "length ?c - ?p = 0" using True by (auto simp: min_def split: if_splits)
    then have "True \<in> set (drop bpos (bytes_bits buf))"
      using one by simp
    then have "True \<in> set (bytes_bits (drop ?n buf))"
      unfolding skip by (meson in_set_dropD)
    then have nz: "\<not> (\<forall>b\<in>set (drop ?n buf @ drop (32 - ?n) buf). b = 0)"
      using bytes_bits_zero [of "drop ?n buf"] by auto
    show ?thesis
      using True n i(2) rem moved tail sz r0 nz
      by (simp only: ReadBits_def Let_def i(2) if_True if_False rem moved) simp
  qed
  let ?s' = "if ?r \<noteq> 0 then s' else s"
  have s'': "st_invar ?s'" "st_content ?s' = ?c" "st_GetPosition ?s' = ?p + ?r"
    using s' i(1) by auto
  have "rd_bits (bpos mod 8, ?s', ?buf') =
      drop (bpos mod 8) (bytes_bits (drop ?n buf)) @ bytes_bits ?in @
        replicate (8 * (?n - ?r)) False @ bytes_bits (drop (?p + ?r) ?c)"
  proof -
    have "bpos mod 8 \<le> length (bytes_bits (drop ?n buf))"
    proof (cases "bpos = 256")
      case False
      then have "bpos div 8 < 32" using i(3) by linarith
      moreover have "bpos mod 8 < 8" by simp
      ultimately show ?thesis using i(2) by (simp del: mod_less_divisor)
    qed simp
    then show ?thesis using s''(2,3) i(2) by (auto simp: bytes_bits_replicate0)
  qed
  also have "\<dots> = rd_bits (bpos, s, buf) @ replicate (8 * (?n - ?r)) False"
  proof (cases "?r = ?n")
    case True
    have "bytes_bits ?in @ bytes_bits (drop (?p + ?r) ?c) = bytes_bits (drop ?p ?c)"
      using append_take_drop_id [of ?r "drop ?p ?c"]
      by (simp only: bytes_bits_append [symmetric] drop_drop add.commute)
    then show ?thesis using True skip by simp
  next
    case False
    then have "?r = length ?c - ?p" by (auto simp: min_def split: if_splits)
    then show ?thesis using skip p by simp
  qed
  finally have bits: "rd_bits (bpos mod 8, ?s', ?buf') =
      rd_bits (bpos, s, buf) @ replicate (8 * (?n - ?r)) False" .
  have "?r = 0 \<Longrightarrow> ?p = 0 \<Longrightarrow> ?c = []" using True by (auto simp: min_def split: if_splits)
  moreover have "?p = 0 \<Longrightarrow> ?c = []" using inv by simp
  ultimately have "rd_inv (bpos mod 8, ?s', ?buf')" using s'' lb by auto
  moreover have "bpos mod 8 < 144" by simp
  ultimately show ?thesis using run bits by blast
qed

lemma ReadBits_next:
  assumes "rd_next st (bs @ post)" and "True \<in> set (bs @ post)"
  obtains bpos s buf bpos' s' buf' where "st = (bpos, s, buf)"
    "ReadBits bpos s buf = Inr (bpos', s', buf')" "rd_inv (bpos', s', buf')" "bpos' < 144"
    "rd_next (bpos', s', buf') (bs @ post)"
proof -
  obtain bpos s buf where st: "st = (bpos, s, buf)" by (cases st)
  obtain zs where zs: "rd_bits (bpos, s, buf) = bs @ post @ zs" "rd_inv (bpos, s, buf)"
    using assms(1) by (auto simp: rd_next_def st)
  then have "True \<in> set (rd_bits (bpos, s, buf))" using assms(2) by auto
  from ReadBits_ok [OF zs(2) this] that st zs(1) show thesis
    by (fastforce simp: rd_next_def)
qed

text \<open>Consuming bits that lie in the buffer.\<close>

lemma rd_next_buffer:
  assumes "rd_next (bpos, s, buf) (bs @ post)" and "bpos + length bs \<le> 256"
  shows "take (length bs) (drop bpos (bytes_bits buf)) = bs"
    and "rd_next (bpos + length bs, s, buf) post"
proof -
  obtain zs where r: "drop bpos (bytes_bits buf) @
      bytes_bits (drop (st_GetPosition s) (st_content s)) = bs @ post @ zs"
    and inv: "st_invar s" "length buf = 32" "st_GetPosition s = 0 \<longrightarrow> st_content s = []"
    using assms(1) by (auto simp: rd_next_def)
  have l: "length bs \<le> length (drop bpos (bytes_bits buf))" using assms(2) inv(2) by simp
  have "take (length bs) (drop bpos (bytes_bits buf) @
      bytes_bits (drop (st_GetPosition s) (st_content s))) = bs"
    unfolding r by simp
  with l show "take (length bs) (drop bpos (bytes_bits buf)) = bs" by simp
  have "drop (length bs) (drop bpos (bytes_bits buf) @
      bytes_bits (drop (st_GetPosition s) (st_content s))) = post @ zs"
    unfolding r by simp
  with l inv assms(2) show "rd_next (bpos + length bs, s, buf) post"
    by (simp add: rd_next_def drop_drop add.commute)
qed

lemma get_byte_ok:
  assumes "rd_next st (huff_code v @ post)" and "True \<in> set (huff_code v @ post)"
  shows "\<exists>st'. get_byte st = Inr (v, st') \<and> rd_next st' post"
proof -
  obtain bpos s buf bpos' s' buf' where r: "st = (bpos, s, buf)"
    "ReadBits bpos s buf = Inr (bpos', s', buf')" "rd_inv (bpos', s', buf')" "bpos' < 144"
    "rd_next (bpos', s', buf') (huff_code v @ post)"
    by (rule ReadBits_next [OF assms])
  have l: "bpos' + length (huff_code v) \<le> 256" using r(4) length_huff_code [of v] by simp
  have "offsetReceive huff buf' bpos' = Some (unat v, bpos' + length (huff_code v))"
    using rd_next_buffer(1) [OF r(5) l] l r(3) by (intro offsetReceive_code) simp_all
  then show ?thesis
    using r(1,2) rd_next_buffer(2) [OF r(5) l] by (simp add: get_byte_def)
qed

lemma decode_bit_loop_ok:
  assumes "b + k \<le> 8 * length f" and "i + k \<le> 8"
  shows "\<exists>w. decode_bit_loop k i v f b = Some (w, b + k) \<and>
    (\<forall>t<8. bit w t \<longleftrightarrow> bit v t \<or> i \<le> t \<and> t < i + k \<and> bytes_bits f ! (b + (t - i)))"
  using assms
proof (induction k arbitrary: i v b)
  case 0
  then show ?case by auto
next
  case (Suc k)
  let ?v = "v OR push_bit i (of_bool (bytes_bits f ! b))"
  obtain w where w: "decode_bit_loop k (i + 1) ?v f (b + 1) = Some (w, b + 1 + k)"
    "\<forall>t<8. bit w t \<longleftrightarrow> bit ?v t \<or> i + 1 \<le> t \<and> t < i + 1 + k \<and> bytes_bits f ! (b + 1 + (t - (i + 1)))"
    using Suc.IH [of "b + 1" "i + 1" ?v] Suc.prems by auto
  have "bit w t \<longleftrightarrow> bit v t \<or> i \<le> t \<and> t < i + Suc k \<and> bytes_bits f ! (b + (t - i))" if "t < 8" for t
  proof (cases "t \<le> i")
    case True
    then show ?thesis using w(2) that Suc.prems(2)
      by (auto simp: bit_or_push_of_bool)
  next
    case False
    then have "b + 1 + (t - (i + 1)) = b + (t - i)" by simp
    then show ?thesis using w(2) that False Suc.prems(2)
      by (auto simp: bit_or_push_of_bool)
  qed
  moreover have "getBit f b = Some (of_bool (bytes_bits f ! b), b + 1)"
    using Suc.prems by (intro getBit_bit) simp
  ultimately show ?case using w(1) by simp
qed

section \<open>The decoded value\<close>

text \<open>The first \<open>q\<close> bytes of \<open>out\<close> hold the first \<open>n\<close> bits of \<open>D\<close>, then zeros.\<close>

definition holds_bits :: "byte list \<Rightarrow> bool list \<Rightarrow> nat \<Rightarrow> nat \<Rightarrow> bool" where
  "holds_bits out D n q \<longleftrightarrow>
     (\<forall>i<q. \<forall>t<8. bit (out ! i) t \<longleftrightarrow> 8 * i + t < n \<and> D ! (8 * i + t))"

lemma holds_bits_unique:
  assumes "holds_bits a D n q" "holds_bits b D n q" "q \<le> length a" "q \<le> length b"
  shows "take q a = take q b"
proof (rule nth_equalityI)
  show "length (take q a) = length (take q b)" using assms by simp
next
  fix i
  assume "i < length (take q a)"
  then have "i < q" by simp
  then have "a ! i = b ! i"
    using assms(1,2) unfolding holds_bits_def
    by (intro bit_word_eqI) simp
  with \<open>i < q\<close> show "take q a ! i = take q b ! i" by simp
qed

lemma bit_push_byte: "t < 8 \<Longrightarrow> bit (push_bit n w :: byte) t \<longleftrightarrow> n \<le> t \<and> bit w (t - n)"
  by (auto simp: bit_push_bit_iff possible_bit_def)

text \<open>One coded byte spreads over two bytes of the value.\<close>

lemma holds_bits_step:
  assumes nb: "0 < nb" "nb < 8" and k: "k + 1 < length out"
    and D: "nb + 8 * k + 8 \<le> length D" and h: "holds_bits out D (nb + 8 * k) (k + 1)"
    and r: "r = bits_byte (take 8 (drop (nb + 8 * k) D))"
  shows "holds_bits (out[k := (out ! k) OR push_bit nb r, k + 1 := drop_bit (8 - nb) r]) D
    (nb + 8 * (k + 1)) (k + 2)"
  unfolding holds_bits_def
proof (intro allI impI)
  fix i t :: nat
  assume i: "i < k + 2" and t: "t < 8"
  have br: "bit r j \<longleftrightarrow> j < 8 \<and> D ! (nb + 8 * k + j)" for j
    using D by (auto simp: r bit_bits_byte)
  have old: "i < k + 1 \<Longrightarrow> bit (out ! i) t \<longleftrightarrow> 8 * i + t < nb + 8 * k \<and> D ! (8 * i + t)"
    using h t by (simp add: holds_bits_def)
  consider "i < k" | "i = k" | "i = k + 1" using i by linarith
  then show "bit (out[k := (out ! k) OR push_bit nb r, k + 1 := drop_bit (8 - nb) r] ! i) t \<longleftrightarrow>
      8 * i + t < nb + 8 * (k + 1) \<and> D ! (8 * i + t)"
  proof cases
    case 1
    then have "8 * i + t < nb + 8 * k" using t nb by linarith
    then show ?thesis using 1 old by auto
  next
    case 2
    have lhs: "bit (out[k := (out ! k) OR push_bit nb r, k + 1 := drop_bit (8 - nb) r] ! i) t \<longleftrightarrow>
        bit (out ! k) t \<or> nb \<le> t \<and> bit r (t - nb)"
      using 2 k t by (simp add: bit_or_iff bit_push_byte)
    show ?thesis
    proof (cases "nb \<le> t")
      case True
      then have "nb + 8 * k + (t - nb) = 8 * k + t" by simp
      then have "bit r (t - nb) \<longleftrightarrow> D ! (8 * k + t)" using br [of "t - nb"] t by simp
      then show ?thesis unfolding lhs using True 2 t nb old by auto
    next
      case False
      then show ?thesis unfolding lhs using 2 t nb old by auto
    qed
  next
    case 3
    have lhs: "bit (out[k := (out ! k) OR push_bit nb r, k + 1 := drop_bit (8 - nb) r] ! i) t \<longleftrightarrow>
        bit r (8 - nb + t)"
      using 3 k by (simp add: bit_drop_bit_eq)
    have e: "nb + 8 * k + (8 - nb + t) = 8 * i + t" using 3 nb by simp
    have "8 - nb + t < 8 \<longleftrightarrow> t < nb" using nb by arith
    then have c: "8 - nb + t < 8 \<longleftrightarrow> 8 * i + t < nb + 8 * (k + 1)" using 3 by simp
    show ?thesis unfolding lhs br e c ..
  qed
qed

lemma decode_shifted_loop_ok:
  assumes nb: "0 < nb" "nb < 8" and m: "m < length out" "k \<le> m"
    and D: "nb + 8 * m \<le> length D" and h: "holds_bits out D (nb + 8 * k) (k + 1)"
    and n: "rd_next st (concat (map huff_code (bits_bytes (m - k) (drop (nb + 8 * k) D))) @ post)"
    and one: "True \<in> set post"
  shows "\<exists>out' st'. decode_shifted_loop out (8 * m) (8 * k) (nb + 8 * k) st = Inr (out', st') \<and>
    rd_next st' post \<and> length out' = length out \<and> holds_bits out' D (nb + 8 * m) (m + 1) \<and>
    drop (m + 1) out' = drop (m + 1) out"
  using m h n
proof (induction "m - k" arbitrary: k st out)
  case 0
  then show ?case by (simp add: decode_shifted_loop.simps)
next
  case (Suc d)
  let ?v = "bits_byte (take 8 (drop (nb + 8 * k) D))"
  let ?out = "out[k := (out ! k) OR push_bit nb ?v, k + 1 := drop_bit (8 - nb) ?v]"
  have k: "k < m" "m - k = Suc (m - (k + 1))" "d = m - (k + 1)" using Suc.hyps(2) by auto
  have bb: "bits_bytes (m - k) (drop (nb + 8 * k) D) =
      ?v # bits_bytes (m - (k + 1)) (drop (nb + 8 * (k + 1)) D)"
    unfolding k(2) by (simp add: add.commute add.left_commute)
  let ?rest = "concat (map huff_code (bits_bytes (m - (k + 1)) (drop (nb + 8 * (k + 1)) D))) @ post"
  have nx: "rd_next st (huff_code ?v @ ?rest)" using Suc.prems(4) unfolding bb by simp
  obtain st1 where st1: "get_byte st = Inr (?v, st1)" "rd_next st1 ?rest"
    using get_byte_ok [OF nx] one by auto
  have h1: "holds_bits ?out D (nb + 8 * (k + 1)) (k + 1 + 1)"
    using holds_bits_step [OF nb _ _ Suc.prems(3) refl] Suc.prems(1) k(1) D by simp
  have ne: "(out[k := (out ! k) OR push_bit nb ?v]) ! (k + 1) = out ! (k + 1)" by simp
  have step: "decode_shifted_loop out (8 * m) (8 * k) (nb + 8 * k) st =
      decode_shifted_loop ?out (8 * m) (8 * (k + 1)) (nb + 8 * (k + 1)) st1"
    using k(1) nb Suc.prems(1) st1(1)
    by (subst decode_shifted_loop.simps) (simp add: Let_def add.commute add.left_commute)
  have "m < length ?out" "k + 1 \<le> m" using Suc.prems(1) k(1) by simp_all
  from Suc.hyps(1) [OF k(3) this h1 st1(2)] obtain out' st' where
    "decode_shifted_loop ?out (8 * m) (8 * (k + 1)) (nb + 8 * (k + 1)) st1 = Inr (out', st')"
    "rd_next st' post" "length out' = length out" "holds_bits out' D (nb + 8 * m) (m + 1)"
    "drop (m + 1) out' = drop (m + 1) ?out"
    by auto
  moreover have "drop (m + 1) ?out = drop (m + 1) out" using k(1) by simp
  ultimately show ?case unfolding step by auto
qed

lemma decode_full_loop_ok:
  assumes m: "m \<le> length out" "k \<le> m" "length vs = m"
    and n: "rd_next st (concat (map huff_code (drop k vs)) @ post)"
    and one: "True \<in> set post"
  shows "\<exists>out' st'. decode_full_loop out k (8 * m) (8 * k) st = Inr (out', st') \<and>
    rd_next st' post \<and> out' = take k out @ drop k vs @ drop m out"
  using m n
proof (induction "m - k" arbitrary: k st out)
  case 0
  then show ?case by (simp add: decode_full_loop.simps)
next
  case (Suc d)
  have k: "k < m" "d = m - (k + 1)" using Suc.hyps(2) by auto
  have bb: "drop k vs = vs ! k # drop (k + 1) vs"
    using k(1) Suc.prems(3) by (simp add: Cons_nth_drop_Suc)
  have nx: "rd_next st (huff_code (vs ! k) @ concat (map huff_code (drop (k + 1) vs)) @ post)"
    using Suc.prems(4) unfolding bb by simp
  obtain st1 where st1: "get_byte st = Inr (vs ! k, st1)"
    "rd_next st1 (concat (map huff_code (drop (k + 1) vs)) @ post)"
    using get_byte_ok [OF nx] one by auto
  have step: "decode_full_loop out k (8 * m) (8 * k) st =
      decode_full_loop (out[k := vs ! k]) (k + 1) (8 * m) (8 * (k + 1)) st1"
    using k(1) Suc.prems(1) st1(1) by (subst decode_full_loop.simps) (simp add: add.commute)
  have "m \<le> length (out[k := vs ! k])" "k + 1 \<le> m" using Suc.prems(1) k(1) by simp_all
  from Suc.hyps(1) [OF k(2) this Suc.prems(3) st1(2)] obtain out' st' where
    "decode_full_loop (out[k := vs ! k]) (k + 1) (8 * m) (8 * (k + 1)) st1 = Inr (out', st')"
    "rd_next st' post" "out' = take (k + 1) (out[k := vs ! k]) @ drop (k + 1) vs @ drop m (out[k := vs ! k])"
    by auto
  moreover have "take (k + 1) (out[k := vs ! k]) = take k out @ [vs ! k]"
    using k(1) Suc.prems(1) by (simp add: take_Suc_conv_app_nth)
  moreover have "drop m (out[k := vs ! k]) = drop m out" using k(1) by simp
  ultimately show ?case unfolding step bb by auto
qed

lemma holds_bits_bytes:
  assumes "n = 8 * length vs" "take (length vs) out = vs" "bytes_bits vs = take n D"
    and "length vs \<le> length out" "n \<le> length D"
  shows "holds_bits out D n (length vs)"
  unfolding holds_bits_def
proof (intro allI impI)
  fix i t :: nat
  assume i: "i < length vs" and t: "t < 8"
  then have lt: "8 * i + t < n" using assms(1) by simp
  have "out ! i = vs ! i" using i assms(2) by (metis nth_take)
  moreover have "D ! (8 * i + t) = bytes_bits vs ! (8 * i + t)"
    using lt by (simp add: assms(3))
  moreover have "bytes_bits vs ! (8 * i + t) = bit (vs ! i) t"
    using lt assms(1) nth_bytes_bits [of "8 * i + t" vs] octet [OF t, of i]
    by (simp add: add.commute)
  ultimately show "bit (out ! i) t \<longleftrightarrow> 8 * i + t < n \<and> D ! (8 * i + t)" using lt by simp
qed

text \<open>The bits of a value of \<open>bits\<close> bits, from any string of bits that is long enough.\<close>

definition code_bits :: "bool list \<Rightarrow> nat \<Rightarrow> bool list" where
  "code_bits D bits =
     take (bits mod 8) D @ concat (map huff_code (bits_bytes (bits div 8) (drop (bits mod 8) D)))"

lemma enc_bits_code: "enc_bits data bits = code_bits (bytes_bits data) bits"
  by (simp add: enc_bits_def code_bits_def)

definition byte_count :: "nat \<Rightarrow> nat" where
  "byte_count bits = (bits + 7) div 8"

lemma byte_count_eq: "byte_count bits = bits div 8 + (if bits mod 8 = 0 then 0 else 1)"
proof -
  define q r where qr: "q = bits div 8" "r = bits mod 8"
  have "bits + 7 = (r + 7) + 8 * q" by (simp add: qr)
  then have "byte_count bits = (r + 7) div 8 + q" by (simp add: byte_count_def)
  moreover have "r < 8" by (simp add: qr)
  then have "(r + 7) div 8 = (if r = 0 then 0 else 1)" by auto
  ultimately show ?thesis by (simp add: qr [symmetric])
qed

lemma byte_count_aligned [simp]: "bits mod 8 = 0 \<Longrightarrow> byte_count bits = bits div 8"
  by (simp add: byte_count_eq)

lemma byte_count_odd [simp]: "bits mod 8 \<noteq> 0 \<Longrightarrow> byte_count bits = bits div 8 + 1"
  by (simp add: byte_count_eq)

lemma Bit_Decode_ok:
  assumes D: "length D = bits" and out: "byte_count bits \<le> length out"
    and n: "rd_next st (code_bits D bits @ post)" and one: "True \<in> set post"
  shows "\<exists>out' st'. Bit_Decode out bits st = Inr (out', st') \<and> rd_next st' post \<and>
    length out' = length out \<and> holds_bits out' D bits (byte_count bits) \<and>
    drop (byte_count bits) out' = drop (byte_count bits) out"
proof (cases "bits mod 8 = 0")
  case True
  let ?m = "bits div 8" and ?vs = "bits_bytes (bits div 8) D"
  have "8 * ?m + bits mod 8 = bits" by (rule mult_div_mod_eq)
  then have m: "bits = 8 * ?m" "?m \<le> length out" using True out by simp_all
  have n': "rd_next st (concat (map huff_code (drop 0 ?vs)) @ post)"
    using n True by (simp add: code_bits_def)
  obtain out' st' where r: "decode_full_loop out 0 (8 * ?m) (8 * 0) st = Inr (out', st')"
    "rd_next st' post" "out' = ?vs @ drop ?m out"
    using decode_full_loop_ok [OF m(2) _ _ n' one] by auto
  have "Bit_Decode out bits st = Inr (out', st')"
    using r(1) True unfolding m(1) [symmetric]
    by (cases "bits = 0") (simp_all add: Bit_Decode_def Let_def decode_full_loop.simps [of _ _ 0 0])
  moreover have "holds_bits out' D bits (length ?vs)"
  proof (rule holds_bits_bytes)
    have "length D = 8 * ?m" using D m(1) by simp
    then show "bytes_bits ?vs = take bits D" by (simp add: bytes_bits_bits_bytes D)
  qed (use r(3) m D in \<open>simp_all\<close>)
  ultimately show ?thesis using r(2,3) True m(2) by simp
next
  case False
  let ?m = "bits div 8" and ?nb = "bits mod 8"
  have m: "bits - ?nb = 8 * ?m" by (simp add: minus_mod_eq_mult_div)
  have nb: "0 < ?nb" "?nb < 8" using False by simp_all
  have mo: "?m < length out" using out False by simp
  have bs: "?nb + 8 * ?m = bits" by simp
  let ?lo = "take ?nb D"
  let ?hi = "concat (map huff_code (bits_bytes ?m (drop ?nb D))) @ post"
  have nx: "rd_next st (?lo @ ?hi)" using n by (simp add: code_bits_def)
  have oneS: "True \<in> set (?lo @ ?hi)" using one by simp
  have ll: "length ?lo = ?nb" using D bs by simp
  obtain bpos s buf bpos' s' buf' where r: "st = (bpos, s, buf)"
    "ReadBits bpos s buf = Inr (bpos', s', buf')" "rd_inv (bpos', s', buf')" "bpos' < 144"
    "rd_next (bpos', s', buf') (?lo @ ?hi)"
    by (rule ReadBits_next [OF nx oneS])
  have b': "bpos' + length ?lo \<le> 256" using r(4) nb ll by simp
  have lo: "take ?nb (drop bpos' (bytes_bits buf')) = ?lo"
    using rd_next_buffer(1) [OF r(5) b'] ll by simp
  obtain w where w: "decode_bit_loop ?nb 0 0 buf' bpos' = Some (w, bpos' + ?nb)"
    "\<forall>t<8. bit w t \<longleftrightarrow> t < ?nb \<and> bytes_bits buf' ! (bpos' + t)"
    using decode_bit_loop_ok [of bpos' ?nb buf' 0 0] b' r(3) nb ll by auto
  have wD: "bytes_bits buf' ! (bpos' + t) = D ! t" if "t < ?nb" for t
  proof -
    have "bytes_bits buf' ! (bpos' + t) = take ?nb (drop bpos' (bytes_bits buf')) ! t"
      using that r(3) b' ll by simp
    then show ?thesis using that lo by simp
  qed
  let ?out1 = "out[0 := w]" and ?st1 = "(bpos' + ?nb, s', buf')"
  have ne: "out \<noteq> []" using mo by auto
  then have "out[0 := w] ! 0 = w" by simp
  note ne = ne this
  have h1: "holds_bits ?out1 D (?nb + 8 * 0) (0 + 1)"
    using w(2) wD ne by (auto simp: holds_bits_def)
  have n1: "rd_next ?st1 ?hi" using rd_next_buffer(2) [OF r(5) b'] ll by simp
  obtain out' st' where d: "decode_shifted_loop ?out1 (8 * ?m) (8 * 0) (?nb + 8 * 0) ?st1 = Inr (out', st')"
    "rd_next st' post" "length out' = length ?out1" "holds_bits out' D (?nb + 8 * ?m) (?m + 1)"
    "drop (?m + 1) out' = drop (?m + 1) ?out1"
    using decode_shifted_loop_ok [OF nb _ _ _ h1 _ one, of ?m ?st1] mo D bs n1 by auto
  have mm: "?nb mod 8 = ?nb" by simp
  have "Bit_Decode out bits st = decode_shifted_loop ?out1 (8 * ?m) 0 ?nb ?st1"
    unfolding Bit_Decode_def Let_def mm m using r(1,2) w(1) nb ne(1)
    by (simp add: decode_shifted_loop.simps [of _ 0 0])
  with d(1) have "Bit_Decode out bits st = Inr (out', st')" by simp
  moreover have "byte_count bits = ?m + 1" using False by simp
  ultimately show ?thesis using d(2-5) mo bs by simp
qed

section \<open>Values as little-endian numbers\<close>

lemma bit_of_nat_byte: "t < 8 \<Longrightarrow> bit (of_nat v :: byte) t \<longleftrightarrow> bit v t"
  by (simp add: bit_of_nat_iff possible_bit_def)

lemma le_bytes_bit:
  "i < n \<Longrightarrow> t < 8 \<Longrightarrow> bit (le_bytes n v ! i) t \<longleftrightarrow> bit v (8 * i + t)"
proof (induction n arbitrary: i v)
  case 0
  then show ?case by simp
next
  case (Suc n)
  show ?case
  proof (cases i)
    case 0
    with Suc.prems show ?thesis by (simp add: bit_of_nat_byte)
  next
    case (Suc j)
    have "v div 256 = drop_bit 8 v" by (simp add: drop_bit_eq_div)
    moreover have "8 + (8 * j + t) = 8 * i + t" using Suc by simp
    ultimately show ?thesis
      using Suc Suc.IH [of j "v div 256"] Suc.prems by (simp add: bit_drop_bit_eq add.assoc)
  qed
qed

lemma holds_bits_le_bytes:
  assumes "bits \<le> 8 * n" and "q \<le> n"
  shows "holds_bits (le_bytes n (take_bit bits v)) (take bits (bytes_bits (le_bytes n v))) bits q"
  unfolding holds_bits_def
proof (intro allI impI)
  fix i t :: nat
  assume i: "i < q" and t: "t < 8"
  have il: "i < n" using i assms(2) by simp
  have "bytes_bits (le_bytes n v) ! (8 * i + t) = bit v (8 * i + t)"
    using il t nth_bytes_bits [of "8 * i + t" "le_bytes n v"] octet [OF t, of i]
    by (simp add: add.commute le_bytes_bit)
  then show "bit (le_bytes n (take_bit bits v) ! i) t \<longleftrightarrow>
      8 * i + t < bits \<and> take bits (bytes_bits (le_bytes n v)) ! (8 * i + t)"
    using il t by (auto simp: le_bytes_bit bit_take_bit_iff)
qed

lemma bits_bytes_cong: "take (8 * m) a = take (8 * m) b \<Longrightarrow> bits_bytes m a = bits_bytes m b"
proof (induction m arbitrary: a b)
  case 0
  then show ?case by simp
next
  case (Suc m)
  have t: "take 8 (take (8 * Suc m) x) = take 8 x" for x :: "bool list"
    by (simp add: min_absorb1)
  have d: "drop 8 (take (8 * Suc m) x) = take (8 * m) (drop 8 x)" for x :: "bool list"
    by (simp add: drop_take)
  have "take 8 a = take 8 b" using t [of a] t [of b] Suc.prems by metis
  moreover have "take (8 * m) (drop 8 a) = take (8 * m) (drop 8 b)"
    using d [of a] d [of b] Suc.prems by metis
  ultimately show ?case using Suc.IH [of "drop 8 a" "drop 8 b"] by simp
qed

lemma le_bytes_0: "le_bytes k 0 = replicate k 0"
  by (induction k) auto

lemma drop_le_bytes: "drop q (le_bytes k v) = le_bytes (k - q) (v div 256 ^ q)"
proof (induction q arbitrary: k v)
  case 0
  then show ?case by simp
next
  case (Suc q)
  then show ?case by (cases k) (simp_all add: div_mult2_eq)
qed

lemma le_bytes_high:
  "byte_count n \<le> k \<Longrightarrow>
   drop (byte_count n) (le_bytes k (take_bit n v)) = drop (byte_count n) (replicate k 0)"
proof -
  have "n \<le> 8 * byte_count n"
    unfolding byte_count_def by presburger
  then have "(2::nat) ^ n \<le> 2 ^ (8 * byte_count n)" by simp
  also have "\<dots> = 256 ^ byte_count n" by (simp add: power_mult)
  finally have "take_bit n v < 256 ^ byte_count n"
    by (rule less_le_trans [OF take_bit_nat_less_exp])
  then show ?thesis by (simp add: drop_le_bytes le_bytes_0)
qed

end
