(* ===== verification/Msg.thy ===== *)
theory Msg
  imports Codec
begin

text \<open>
  \<open>Utility/Misc/MSG/MSG.cpp\<close> and \<open>MSG.h\<close>: the message over a stream and a codec. A message is its
  stream, its codec, its mode and the bit buffer of 32 bytes with the position in it. A function
  that may throw returns \<open>Inl\<close> the exception; a method that changes the message returns it
  updated. Values are given as their bytes in memory, which the \<open>Endian\<close> functions put in
  little-endian order; \<open>float\<close> values are their 32 bits.

  The locale \<open>wire\<close> is the interface every serialised value offers: a writer that appends its
  encoding and a reader that consumes it. It gives the round trip through a flushed stream.
\<close>

section \<open>Tables and shifted values\<close>

definition charByteMapping :: "byte list" where
  "charByteMapping =
    [254, 120, 89, 13, 27, 73, 103, 78, 74, 102, 21, 117, 76, 86, 238, 96, 88, 62, 59, 60, 40,
      84, 52, 119, 251, 51, 75, 121, 192, 85, 44, 54, 114, 87, 25, 53, 35, 224, 67, 31, 82, 41,
      45, 99, 233, 112, 255, 11, 46, 115, 8, 32, 19, 100, 110, 95, 116, 48, 58, 107, 70, 91, 104,
      81, 118, 109, 36, 24, 17, 39, 43, 65, 49, 83, 56, 57, 33, 64, 80, 28, 184, 160, 18, 105, 42,
      20, 194, 38, 29, 26, 61, 50, 9, 90, 37, 128, 79, 2, 108, 34, 4, 0, 47, 12, 101, 10, 92, 15,
      5, 7, 22, 55, 23, 14, 3, 1, 66, 16, 63, 30, 6, 97, 111, 248, 72, 197, 191, 122, 176, 245,
      250, 68, 195, 77, 232, 106, 228, 93, 240, 98, 208, 69, 164, 144, 186, 222, 94, 246, 148,
      170, 244, 190, 205, 234, 252, 202, 230, 239, 174, 225, 226, 209, 236, 216, 237, 151, 149,
      231, 129, 188, 200, 172, 204, 154, 168, 71, 133, 217, 196, 223, 134, 253, 173, 177, 219,
      235, 214, 182, 132, 227, 183, 175, 137, 152, 158, 221, 243, 150, 210, 136, 167, 211, 179,
      193, 218, 124, 140, 178, 213, 249, 185, 113, 127, 220, 180, 145, 138, 198, 123, 162, 189,
      203, 166, 126, 159, 156, 212, 207, 146, 181, 247, 139, 142, 169, 242, 241, 171, 187, 153,
      135, 201, 155, 161, 125, 163, 130, 229, 206, 165, 157, 141, 147, 143, 199, 215, 131]"

definition byteCharMapping :: "byte list" where
  "byteCharMapping =
    [101, 115, 97, 114, 100, 108, 120, 109, 50, 92, 105, 47, 103, 3, 113, 107, 117, 68, 82, 52,
      85, 10, 110, 112, 67, 34, 89, 4, 79, 88, 119, 39, 51, 76, 99, 36, 66, 94, 87, 69, 20, 41,
      84, 70, 30, 42, 48, 102, 57, 72, 91, 25, 22, 35, 31, 111, 74, 75, 58, 18, 19, 90, 17, 118,
      77, 71, 116, 38, 131, 141, 60, 175, 124, 5, 8, 26, 12, 133, 7, 96, 78, 63, 40, 73, 21, 29,
      13, 33, 16, 2, 93, 61, 106, 137, 146, 55, 15, 121, 139, 43, 53, 104, 9, 6, 62, 83, 135, 59,
      98, 65, 54, 122, 45, 211, 32, 49, 56, 11, 64, 23, 1, 27, 127, 218, 205, 243, 223, 212, 95,
      168, 245, 255, 188, 176, 180, 239, 199, 192, 216, 231, 206, 250, 232, 252, 143, 215, 228,
      251, 148, 166, 197, 165, 193, 238, 173, 241, 225, 249, 194, 224, 81, 242, 219, 244, 142,
      248, 222, 200, 174, 233, 149, 236, 171, 182, 158, 191, 128, 183, 207, 202, 214, 229, 187,
      190, 80, 210, 144, 237, 169, 220, 151, 126, 28, 203, 86, 132, 178, 125, 217, 253, 170, 240,
      155, 221, 172, 152, 247, 227, 140, 161, 198, 201, 226, 208, 186, 254, 163, 177, 204, 184,
      213, 195, 145, 179, 37, 159, 160, 189, 136, 246, 156, 167, 134, 44, 153, 185, 162, 164, 14,
      157, 138, 235, 234, 196, 150, 129, 147, 230, 123, 209, 130, 24, 154, 181, 0, 46]"

definition charCharMapping :: "byte list" where
  "charCharMapping = map of_nat [0..<256]"

text \<open>On a little-endian host \<open>Endian.BigPointer\<close> reverses the bytes and \<open>LittlePointer\<close> keeps them.\<close>

definition BigPointer :: "byte list \<Rightarrow> byte list" where
  "BigPointer val = rev val"

definition LittlePointer :: "byte list \<Rightarrow> byte list" where
  "LittlePointer val = val"

fun unshift_loop :: "bool \<Rightarrow> byte list \<Rightarrow> byte list" where
  "unshift_loop carry [] = []"
| "unshift_loop carry (v # vs) =
     (if carry then drop_bit 1 v OR 128 else drop_bit 1 v) # unshift_loop (v AND 1 \<noteq> 0) vs"

definition unshiftValue_mem :: "byte list \<Rightarrow> byte list" where
  "unshiftValue_mem val =
     (let valB = BigPointer val;
          shouldComp = (last valB AND 1 \<noteq> 0);
          shifted = unshift_loop False valB;
          comp = (if shouldComp then map (\<lambda>v. NOT v) shifted else shifted)
      in BigPointer comp)"

fun shift_loop :: "bool \<Rightarrow> byte list \<Rightarrow> byte list" where
  "shift_loop carry [] = []"
| "shift_loop carry (v # vs) =
     (if carry then push_bit 1 v OR 1 else push_bit 1 v) # shift_loop (v AND 128 \<noteq> 0) vs"

definition shiftValue_mem :: "byte list \<Rightarrow> byte list" where
  "shiftValue_mem val =
     (let valB = shift_loop False (LittlePointer val);
          res = (if valB ! 0 AND 1 \<noteq> 0
                 then (let c = map (\<lambda>v. NOT v) valB in c[length c - 1 := last c OR 1])
                 else valB)
      in LittlePointer res)"

text \<open>The templates, for a signed type of the width of the word; the shift to the right is arithmetic.\<close>

definition unshiftValue :: "'a::len word \<Rightarrow> 'a word" where
  "unshiftValue val = (if \<not> bit val 0 then signed_drop_bit 1 val else NOT (signed_drop_bit 1 val))"

definition shiftValue :: "'a::len word \<Rightarrow> 'a word" where
  "shiftValue val = (if 0 \<le> sint val then push_bit 1 val else push_bit 1 (NOT val) OR 1)"

section \<open>The message\<close>

datatype msgMode_e = msgMode_Reading | msgMode_Writing | msgMode_Both

text \<open>A reference to an \<open>IMessageCodec\<close> is one of the two codecs.\<close>

datatype codec = BitCodec | OOBCodec

record msg =
  m_stream :: mstream
  m_codec :: codec
  m_mode :: msgMode_e
  m_bit :: nat
  m_bitData :: "byte list"

definition IsReading :: "msg \<Rightarrow> bool" where
  "IsReading m \<longleftrightarrow> m_mode m = msgMode_Reading \<or> m_mode m = msgMode_Both"

definition IsWriting :: "msg \<Rightarrow> bool" where
  "IsWriting m \<longleftrightarrow> m_mode m = msgMode_Writing \<or> m_mode m = msgMode_Both"

definition msg_Reset :: "msg \<Rightarrow> msg_error + msg" where
  "msg_Reset m =
     (let s = m_stream m;
          len = min (sz_sub (st_GetLength s) (st_GetPosition s)) 32
      in rbind (lift_stream (st_Read s len)) (\<lambda>(bs, s').
           Inr (m\<lparr>m_stream := s', m_bit := 0, m_bitData := blit (replicate 32 0) 0 bs\<rparr>)))"

definition msg_new :: "mstream \<Rightarrow> msgMode_e \<Rightarrow> msg_error + msg" where
  "msg_new stream inMode =
     (let m = \<lparr>m_stream = stream, m_codec = BitCodec, m_mode = inMode, m_bit = 0,
               m_bitData = replicate 32 0\<rparr>
      in if inMode = msgMode_Reading then msg_Reset m else Inr m)"

definition msg_Flush :: "msg \<Rightarrow> msg_error + msg" where
  "msg_Flush m =
     (if m_bit m \<noteq> 0 \<and> IsWriting m then
        (let sz = (m_bit m + 7) div 8 in
         if sz > length (m_bitData m) then Inl BadBufferAccess
         else rbind (lift_stream (st_Write (m_stream m) (take sz (m_bitData m)))) (\<lambda>s'.
                Inr (m\<lparr>m_stream := s', m_bit := 0\<rparr>)))
      else Inr m)"

definition msg_SetCodec :: "codec \<Rightarrow> msg \<Rightarrow> msg" where
  "msg_SetCodec c m = m\<lparr>m_codec := c\<rparr>"

definition msg_SetMode :: "msgMode_e \<Rightarrow> msg \<Rightarrow> msg" where
  "msg_SetMode md m = m\<lparr>m_mode := md\<rparr>"

definition msg_Size :: "msg \<Rightarrow> nat" where
  "msg_Size m = st_GetLength (m_stream m)"

definition msg_GetPosition :: "msg \<Rightarrow> nat" where
  "msg_GetPosition m =
     (let pos = st_GetPosition (m_stream m) in
      if pos \<ge> 32 then pos - 32 + m_bit m div 8 else m_bit m div 8)"

definition msg_GetBitPosition :: "msg \<Rightarrow> nat" where
  "msg_GetBitPosition m = m_bit m"

fun codec_Encode :: "codec \<Rightarrow> byte list \<Rightarrow> nat \<Rightarrow> bitstate \<Rightarrow> msg_error + bitstate" where
  "codec_Encode BitCodec = Bit_Encode"
| "codec_Encode OOBCodec = OOB_Encode"

fun codec_Decode :: "codec \<Rightarrow> byte list \<Rightarrow> nat \<Rightarrow> bitstate \<Rightarrow> msg_error + byte list \<times> bitstate" where
  "codec_Decode BitCodec = Bit_Decode"
| "codec_Decode OOBCodec = OOB_Decode"

definition msg_WriteBits :: "byte list \<Rightarrow> int \<Rightarrow> msg \<Rightarrow> msg_error + msg" where
  "msg_WriteBits value bits m =
     (if \<not> IsWriting m then Inl AssertionFailed
      else rbind (codec_Encode (m_codec m) value (nat \<bar>bits\<bar>) (m_bit m, m_stream m, m_bitData m))
             (\<lambda>(b, s, f). Inr (m\<lparr>m_bit := b, m_stream := s, m_bitData := f\<rparr>)))"

text \<open>\<open>value\<close> is the memory the bits are read into.\<close>

definition msg_ReadBits :: "byte list \<Rightarrow> int \<Rightarrow> msg \<Rightarrow> msg_error + byte list \<times> msg" where
  "msg_ReadBits value bits m =
     (let s = m_stream m in
      rbind
        (if st_GetPosition s = 0
         then rbind (lift_stream (st_Read s (min (st_GetLength s) 32))) (\<lambda>(bs, s').
                Inr (s', blit (m_bitData m) 0 bs))
         else Inr (s, m_bitData m))
        (\<lambda>(s1, f1).
          rbind (codec_Decode (m_codec m) value (nat \<bar>bits\<bar>) (m_bit m, s1, f1))
            (\<lambda>(value', b, s', f). Inr (value', m\<lparr>m_bit := b, m_stream := s', m_bitData := f\<rparr>))))"

definition msg_SerializeBits :: "byte list \<Rightarrow> int \<Rightarrow> msg \<Rightarrow> msg_error + byte list \<times> msg" where
  "msg_SerializeBits value bits m =
     (if \<not> IsReading m then rbind (msg_WriteBits value bits m) (\<lambda>m'. Inr (value, m'))
      else msg_ReadBits value bits m)"

section \<open>Typed values\<close>

definition WriteBool :: "bool \<Rightarrow> msg \<Rightarrow> msg_error + msg" where
  "WriteBool value m = msg_WriteBits [of_bool value] 1 m"

definition WriteByteBool :: "bool \<Rightarrow> msg \<Rightarrow> msg_error + msg" where
  "WriteByteBool value m = msg_WriteBits [of_bool value] 8 m"

definition WriteChar :: "byte \<Rightarrow> msg \<Rightarrow> msg_error + msg" where
  "WriteChar value m = msg_WriteBits [value] 8 m"

definition WriteByte :: "byte \<Rightarrow> msg \<Rightarrow> msg_error + msg" where
  "WriteByte value m = msg_WriteBits [value] 8 m"

definition WriteShort :: "u16 \<Rightarrow> msg \<Rightarrow> msg_error + msg" where
  "WriteShort value m = msg_WriteBits (le_bytes 2 (unat value)) 16 m"

definition WriteUShort :: "u16 \<Rightarrow> msg \<Rightarrow> msg_error + msg" where
  "WriteUShort value m = msg_WriteBits (le_bytes 2 (unat value)) 16 m"

definition WriteInteger :: "u32 \<Rightarrow> msg \<Rightarrow> msg_error + msg" where
  "WriteInteger value m = msg_WriteBits (le_bytes 4 (unat value)) 32 m"

definition WriteUInteger :: "u32 \<Rightarrow> msg \<Rightarrow> msg_error + msg" where
  "WriteUInteger value m = msg_WriteBits (le_bytes 4 (unat value)) 32 m"

definition WriteFloat :: "u32 \<Rightarrow> msg \<Rightarrow> msg_error + msg" where
  "WriteFloat value m = msg_WriteBits (le_bytes 4 (unat value)) 32 m"

definition ReadBool :: "msg \<Rightarrow> msg_error + bool \<times> msg" where
  "ReadBool m =
     (if \<not> IsReading m then Inl AssertionFailed
      else rbind (msg_ReadBits [0] 1 m) (\<lambda>(v, m'). Inr (v ! 0 \<noteq> 0, m')))"

definition ReadByteBool :: "msg \<Rightarrow> msg_error + bool \<times> msg" where
  "ReadByteBool m =
     (if \<not> IsReading m then Inl AssertionFailed
      else rbind (msg_ReadBits [0] 8 m) (\<lambda>(v, m'). Inr (v ! 0 \<noteq> 0, m')))"

definition ReadChar :: "msg \<Rightarrow> msg_error + byte \<times> msg" where
  "ReadChar m =
     (if \<not> IsReading m then Inl AssertionFailed
      else rbind (msg_ReadBits [0] 8 m) (\<lambda>(v, m'). Inr (v ! 0, m')))"

definition ReadByte :: "msg \<Rightarrow> msg_error + byte \<times> msg" where
  "ReadByte m =
     (if \<not> IsReading m then Inl AssertionFailed
      else rbind (msg_ReadBits [0] 8 m) (\<lambda>(v, m'). Inr (v ! 0, m')))"

definition ReadShort :: "msg \<Rightarrow> msg_error + u16 \<times> msg" where
  "ReadShort m =
     (if \<not> IsReading m then Inl AssertionFailed
      else rbind (msg_ReadBits [0, 0] 16 m) (\<lambda>(v, m'). Inr (of_nat (le_val v), m')))"

definition ReadUShort :: "msg \<Rightarrow> msg_error + u16 \<times> msg" where
  "ReadUShort m =
     (if \<not> IsReading m then Inl AssertionFailed
      else rbind (msg_ReadBits [0, 0] 16 m) (\<lambda>(v, m'). Inr (of_nat (le_val v), m')))"

definition ReadInteger :: "msg \<Rightarrow> msg_error + u32 \<times> msg" where
  "ReadInteger m =
     (if \<not> IsReading m then Inl AssertionFailed
      else rbind (msg_ReadBits [0, 0, 0, 0] 32 m) (\<lambda>(v, m'). Inr (of_nat (le_val v), m')))"

definition ReadUInteger :: "msg \<Rightarrow> msg_error + u32 \<times> msg" where
  "ReadUInteger m =
     (if \<not> IsReading m then Inl AssertionFailed
      else rbind (msg_ReadBits [0, 0, 0, 0] 32 m) (\<lambda>(v, m'). Inr (of_nat (le_val v), m')))"

definition ReadFloat :: "msg \<Rightarrow> msg_error + u32 \<times> msg" where
  "ReadFloat m =
     (if \<not> IsReading m then Inl AssertionFailed
      else rbind (msg_ReadBits [0, 0, 0, 0] 32 m) (\<lambda>(v, m'). Inr (of_nat (le_val v), m')))"

text \<open>\<open>ReadNumber<T>\<close> and \<open>WriteNumber<T>\<close> for a type of \<open>LENGTH('a)\<close> bits, a multiple of eight.\<close>

definition WriteNumber :: "'a::len word \<Rightarrow> nat \<Rightarrow> msg \<Rightarrow> msg_error + msg" where
  "WriteNumber value bits m = msg_WriteBits (le_bytes (LENGTH('a) div 8) (unat value)) (int bits) m"

definition ReadNumber :: "nat \<Rightarrow> msg \<Rightarrow> msg_error + ('a::len word) \<times> msg" where
  "ReadNumber bits m =
     rbind (msg_ReadBits (replicate (LENGTH('a) div 8) 0) (int bits) m)
       (\<lambda>(v, m'). Inr (of_nat (le_val v), m'))"

fun WriteData :: "byte list \<Rightarrow> msg \<Rightarrow> msg_error + msg" where
  "WriteData [] m = Inr m"
| "WriteData (b # bs) m = rbind (WriteByte b m) (WriteData bs)"

fun ReadData :: "nat \<Rightarrow> msg \<Rightarrow> msg_error + byte list \<times> msg" where
  "ReadData 0 m = Inr ([], m)"
| "ReadData (Suc n) m =
     rbind (ReadByte m) (\<lambda>(b, m'). rbind (ReadData n m') (\<lambda>(bs, m''). Inr (b # bs, m'')))"

section \<open>Strings\<close>

text \<open>
  A \<open>StringMessage\<close> is a null pointer or the address of a string; \<open>strlen\<close> stops at the first
  zero byte of it.
\<close>

type_synonym StringMessage = "byte list option"

definition WriteString :: "StringMessage \<Rightarrow> msg \<Rightarrow> msg_error + msg" where
  "WriteString s m =
     (if \<not> IsWriting m then Inl AssertionFailed
      else case s of
        None \<Rightarrow> WriteData [0] m
      | Some p \<Rightarrow> WriteData (c_chars p @ [0]) m)"

fun write_mapped :: "byte list \<Rightarrow> byte list \<Rightarrow> msg \<Rightarrow> msg_error + msg" where
  "write_mapped mapping [] m = Inr m"
| "write_mapped mapping (c # cs) m =
     rbind (WriteData [mapping ! unat c] m) (write_mapped mapping cs)"

definition WriteScrambledString :: "StringMessage \<Rightarrow> byte list \<Rightarrow> msg \<Rightarrow> msg_error + msg" where
  "WriteScrambledString s mapping m =
     rbind (case s of None \<Rightarrow> Inr m | Some p \<Rightarrow> write_mapped mapping (c_chars p) m)
       (WriteData [mapping ! 0])"

text \<open>The first pass counts the characters up to and with the terminator.\<close>

partial_function (option) string_length ::
  "byte list \<Rightarrow> nat \<Rightarrow> msg \<Rightarrow> (msg_error + nat \<times> msg) option" where
  "string_length mapping len m =
     (case ReadByte m of
        Inl e \<Rightarrow> Some (Inl e)
      | Inr (val, m') \<Rightarrow>
          if mapping ! unat val \<noteq> 0 then string_length mapping (len + 1) m'
          else Some (Inr (len + 1, m')))"

fun string_chars :: "byte list \<Rightarrow> nat \<Rightarrow> msg \<Rightarrow> msg_error + byte list \<times> msg" where
  "string_chars mapping 0 m = Inr ([], m)"
| "string_chars mapping (Suc n) m =
     rbind (ReadByte m) (\<lambda>(val, m').
       let c = mapping ! unat val in
       if c = 0 then Inl AssertionFailed
       else rbind (string_chars mapping n m') (\<lambda>(cs, m''). Inr (c # cs, m'')))"

text \<open>A count that never returns is the value \<open>NonTerminating\<close>.\<close>

definition ReadStringInternal :: "byte list \<Rightarrow> msg \<Rightarrow> msg_error + StringMessage \<times> msg" where
  "ReadStringInternal mapping m =
     (let startBit = m_bit m;
          startPos = st_GetPosition (m_stream m);
          oldBits = m_bitData m
      in rbind (case string_length mapping 0 m of None \<Rightarrow> Inl NonTerminating | Some r \<Rightarrow> r)
           (\<lambda>(len, m1).
              let m2 = m1\<lparr>m_bit := startBit, m_stream := st_Seek (m_stream m1) startPos Begin,
                          m_bitData := oldBits\<rparr>
              in rbind (string_chars mapping (len - 1) m2) (\<lambda>(cs, m3).
                 rbind (ReadByte m3) (\<lambda>(_, m4). Inr (Some cs, m4)))))"

definition ReadString :: "msg \<Rightarrow> msg_error + StringMessage \<times> msg" where
  "ReadString m = ReadStringInternal charCharMapping m"

definition ReadScrambledString :: "byte list \<Rightarrow> msg \<Rightarrow> msg_error + StringMessage \<times> msg" where
  "ReadScrambledString mapping m = ReadStringInternal mapping m"

section \<open>Messages as strings of bits\<close>

definition mstate :: "msg \<Rightarrow> bitstate" where
  "mstate m = (m_bit m, m_stream m, m_bitData m)"

definition mw :: "nat \<Rightarrow> msg \<Rightarrow> bool" where
  "mw R m \<longleftrightarrow> m_mode m = msgMode_Writing \<and> m_codec m = BitCodec \<and> wr_inv R (mstate m)"

definition mw_bits :: "msg \<Rightarrow> bool list" where
  "mw_bits m = wr_bits (mstate m)"

definition mr :: "msg \<Rightarrow> bool list \<Rightarrow> bool" where
  "mr m bs \<longleftrightarrow> IsReading m \<and> m_codec m = BitCodec \<and> rd_next (mstate m) bs"

text \<open>\<open>op\<close> appends \<open>bs\<close> to a message with room for it.\<close>

definition puts :: "(msg \<Rightarrow> msg_error + msg) \<Rightarrow> bool list \<Rightarrow> bool" where
  "puts op bs \<longleftrightarrow> (\<forall>R m. mw R m \<longrightarrow> length (mw_bits m) + length bs \<le> 8 * R \<longrightarrow>
     (\<exists>m'. op m = Inr m' \<and> mw R m' \<and> mw_bits m' = mw_bits m @ bs))"

text \<open>\<open>op\<close> consumes \<open>bs\<close> from a message and returns \<open>x\<close>.\<close>

definition gets :: "(msg \<Rightarrow> msg_error + 'a \<times> msg) \<Rightarrow> bool list \<Rightarrow> 'a \<Rightarrow> bool" where
  "gets op bs x \<longleftrightarrow> (\<forall>m post. mr m (bs @ post) \<longrightarrow> True \<in> set post \<longrightarrow>
     (\<exists>m'. op m = Inr (x, m') \<and> mr m' post))"

named_theorems wire_intros \<open>how writers and readers compose\<close>

lemma puts_Inr [wire_intros]: "puts Inr []"
  by (simp add: puts_def)

lemma puts_bind [wire_intros]:
  "puts f as \<Longrightarrow> puts g bs \<Longrightarrow> puts (\<lambda>m. rbind (f m) g) (as @ bs)"
  unfolding puts_def by (fastforce simp: add.assoc)

lemma gets_return [wire_intros]: "gets (\<lambda>m. Inr (x, m)) [] x"
  by (simp add: gets_def)

lemma gets_bind [wire_intros]:
  assumes "gets f as x" and "gets (g x) bs y"
  shows "gets (\<lambda>m. rbind (f m) (\<lambda>(x, m'). g x m')) (as @ bs) y"
  unfolding gets_def
proof (intro allI impI)
  fix m post
  assume m: "mr m ((as @ bs) @ post)" and one: "True \<in> set post"
  then obtain m1 where "f m = Inr (x, m1)" "mr m1 (bs @ post)"
    using assms(1) unfolding gets_def by (metis Un_iff append.assoc set_append)
  moreover obtain m2 where "g x m1 = Inr (y, m2)" "mr m2 post"
    using assms(2) calculation(2) one unfolding gets_def by blast
  ultimately show "\<exists>m'. rbind (f m) (\<lambda>(x, m'). g x m') = Inr (y, m') \<and> mr m' post" by simp
qed

lemma gets_map:
  assumes "gets f bs x" and "\<And>m. g m = rbind (f m) (\<lambda>(x, m'). Inr (h x, m'))"
  shows "gets g bs (h x)"
  using assms unfolding gets_def by fastforce

lemma msg_WriteBits_puts:
  assumes "nat \<bar>bits\<bar> \<le> 8 * length value"
  shows "puts (msg_WriteBits value bits) (enc_bits value (nat \<bar>bits\<bar>))"
  unfolding puts_def
proof (intro allI impI)
  fix R m
  assume m: "mw R m" and room: "length (mw_bits m) + length (enc_bits value (nat \<bar>bits\<bar>)) \<le> 8 * R"
  obtain b s f where e: "Bit_Encode value (nat \<bar>bits\<bar>) (mstate m) = Inr (b, s, f)"
    "wr_inv R (b, s, f)" "wr_bits (b, s, f) = wr_bits (mstate m) @ enc_bits value (nat \<bar>bits\<bar>)"
    using Bit_Encode_ok [of R "mstate m" "nat \<bar>bits\<bar>" "value"] m room assms
    unfolding mw_def mw_bits_def by (metis prod_cases3)
  let ?m' = "m\<lparr>m_bit := b, m_stream := s, m_bitData := f\<rparr>"
  have "msg_WriteBits value bits m = Inr ?m'"
    using m e(1) by (simp add: msg_WriteBits_def mw_def mstate_def IsWriting_def)
  moreover have "mw R ?m'" using m e(2) by (simp add: mw_def mstate_def IsWriting_def)
  moreover have "mw_bits ?m' = mw_bits m @ enc_bits value (nat \<bar>bits\<bar>)"
    using e(3) by (simp add: mw_bits_def mstate_def)
  ultimately show "\<exists>m'. msg_WriteBits value bits m = Inr m' \<and> mw R m' \<and>
      mw_bits m' = mw_bits m @ enc_bits value (nat \<bar>bits\<bar>)" by blast
qed

lemma msg_ReadBits_next:
  assumes m: "mr m (code_bits D n @ post)" "True \<in> set post"
    and D: "length D = n" "n = nat \<bar>bits\<bar>" and v: "byte_count n \<le> length value"
  shows "\<exists>out m'. msg_ReadBits value bits m = Inr (out, m') \<and> mr m' post \<and>
    length out = length value \<and> holds_bits out D n (byte_count n) \<and>
    drop (byte_count n) out = drop (byte_count n) value"
proof -
  let ?s = "m_stream m"
  have rn: "rd_next (m_bit m, ?s, m_bitData m) (code_bits D n @ post)"
    using m(1) by (simp add: mr_def mstate_def)
  then have ri: "st_invar ?s" "st_GetPosition ?s = 0 \<longrightarrow> st_content ?s = []"
    by (simp_all add: rd_next_def)
  obtain out b s f where d: "Bit_Decode value n (m_bit m, ?s, m_bitData m) = Inr (out, b, s, f)"
    "rd_next (b, s, f) post" "length out = length value" "holds_bits out D n (byte_count n)"
    "drop (byte_count n) out = drop (byte_count n) value"
    using Bit_Decode_ok [OF D(1) v rn m(2)] by (metis prod_cases3)
  have "st_GetPosition ?s = 0 \<Longrightarrow> st_GetLength ?s = 0"
    using ri by (simp add: st_GetLength_content)
  moreover have "st_Read ?s 0 = Inr ([], ?s)"
    by (cases ?s) (simp_all add: fixed_Read_def dyn_Read_def)
  ultimately have "msg_ReadBits value bits m =
      Inr (out, m\<lparr>m_bit := b, m_stream := s, m_bitData := f\<rparr>)"
    using d(1) D(2) m(1) by (auto simp: msg_ReadBits_def Let_def mr_def)
  moreover have "mr (m\<lparr>m_bit := b, m_stream := s, m_bitData := f\<rparr>) post"
    using m(1) d(2) by (simp add: mr_def mstate_def IsReading_def)
  ultimately show ?thesis using d(3-5) by blast
qed

text \<open>Reading back a number of \<open>k\<close> bytes sent with \<open>n\<close> bits.\<close>

lemma msg_ReadBits_gets:
  assumes n: "n = nat \<bar>bits\<bar>" "n \<le> 8 * k"
  shows "gets (msg_ReadBits (replicate k 0) bits) (enc_bits (le_bytes k v) n)
    (le_bytes k (take_bit n v))"
  unfolding gets_def
proof (intro allI impI)
  fix m post
  let ?D = "take n (bytes_bits (le_bytes k v))"
  assume m: "mr m (enc_bits (le_bytes k v) n @ post)" and one: "True \<in> set post"
  have D: "length ?D = n" using n(2) by simp
  have q: "byte_count n \<le> k" using n(2) unfolding byte_count_def by simp
  have "code_bits ?D n = enc_bits (le_bytes k v) n"
  proof -
    have "bits_bytes (n div 8) (drop (n mod 8) ?D) =
        bits_bytes (n div 8) (drop (n mod 8) (bytes_bits (le_bytes k v)))"
      by (rule bits_bytes_cong) (simp add: drop_take minus_mod_eq_mult_div)
    then show ?thesis by (simp add: enc_bits_code code_bits_def min_absorb1)
  qed
  with m obtain out m' where r: "msg_ReadBits (replicate k 0) bits m = Inr (out, m')" "mr m' post"
    "length out = k" "holds_bits out ?D n (byte_count n)"
    "drop (byte_count n) out = drop (byte_count n) (replicate k 0)"
    using msg_ReadBits_next [of m ?D n post bits "replicate k 0"] one D n(1) q by auto
  have t: "take (byte_count n) out = take (byte_count n) (le_bytes k (take_bit n v))"
    using holds_bits_unique [OF r(4) holds_bits_le_bytes [OF n(2) q]] r(3) q by simp
  have "out = le_bytes k (take_bit n v)"
    by (metis append_take_drop_id r(5) t le_bytes_high [OF q])
  then show "\<exists>m'. msg_ReadBits (replicate k 0) bits m = Inr (le_bytes k (take_bit n v), m') \<and> mr m' post"
    using r(1,2) by simp
qed

section \<open>Typed values on the wire\<close>

text \<open>The code of a number \<open>v\<close> held in \<open>k\<close> bytes of which \<open>n\<close> bits are sent.\<close>

definition num_code :: "nat \<Rightarrow> nat \<Rightarrow> nat \<Rightarrow> bool list" where
  "num_code k n v = enc_bits (le_bytes k v) n"

lemma gets_assert [wire_intros]:
  "gets f bs x \<Longrightarrow> gets (\<lambda>m. if \<not> IsReading m then Inl e else f m) bs x"
  unfolding gets_def mr_def by simp

lemma puts_bits: "n \<le> 8 * k \<Longrightarrow> puts (msg_WriteBits (le_bytes k v) (int n)) (num_code k n v)"
  using msg_WriteBits_puts [of "int n" "le_bytes k v"] by (simp add: num_code_def)

lemma word_take_bit_unat: "word_of_nat (take_bit n (unat w)) = take_bit n w"
  by (simp flip: unsigned_take_bit_eq)

lemma gets_num:
  assumes "n \<le> 8 * k"
  shows "gets (\<lambda>m. rbind (msg_ReadBits (replicate k 0) (int n) m)
      (\<lambda>(v, m'). Inr (of_nat (le_val v), m'))) (num_code k n (unat w)) (take_bit n (w :: 'a::len word))"
proof -
  have "take_bit n (unat w) < 2 ^ n" by (rule take_bit_nat_less_exp)
  also have "\<dots> \<le> (2::nat) ^ (8 * k)" using assms by simp
  also have "\<dots> = 256 ^ k" by (simp add: power_mult)
  finally have "of_nat (le_val (le_bytes k (take_bit n (unat w)))) = take_bit n w"
    by (simp add: le_val_le_bytes word_take_bit_unat)
  moreover have "n = nat \<bar>int n\<bar>" by simp
  from gets_map [OF msg_ReadBits_gets [OF this assms],
      where h = "\<lambda>v. (of_nat (le_val v) :: 'a word)", OF refl]
  have "gets (\<lambda>m. rbind (msg_ReadBits (replicate k 0) (int n) m)
      (\<lambda>(v, m'). Inr (of_nat (le_val v) :: 'a word, m'))) (num_code k n (unat w))
      (of_nat (le_val (le_bytes k (take_bit n (unat w)))))"
    unfolding num_code_def .
  ultimately show ?thesis by simp
qed

lemma take_bit_whole [simp]: "LENGTH('a) \<le> n \<Longrightarrow> take_bit n (w :: 'a::len word) = w"
  by (rule take_bit_word_eq_self)

lemma le_bytes_numeral:
  "le_bytes 1 v = [of_nat v]" "le_bytes (Suc 0) v = [of_nat v]"
  by simp_all

lemma WriteBool_puts [wire_intros]: "puts (WriteBool b) [b]"
proof -
  have "[of_bool b] = le_bytes 1 (of_bool b)" by simp
  moreover have "num_code 1 1 (of_bool b) = [b]"
    by (simp add: num_code_def enc_bits_def byte_bits_def upt_conv_Cons)
  ultimately show ?thesis
    using puts_bits [of 1 1 "of_bool b"] unfolding WriteBool_def by (simp del: le_bytes.simps)
qed

lemma ReadBool_gets [wire_intros]: "gets ReadBool [b] b"
proof -
  have c: "enc_bits (le_bytes 1 (of_bool b)) 1 = [b]"
    by (simp add: enc_bits_def byte_bits_def upt_conv_Cons)
  have "gets (msg_ReadBits (replicate 1 0) 1) [b] (le_bytes 1 (take_bit 1 (of_bool b)))"
    using msg_ReadBits_gets [of 1 1 1 "of_bool b"] by (simp only: c)
  from gets_map [OF this, where h = "\<lambda>v. v ! 0 \<noteq> 0" and
      g = "\<lambda>m. rbind (msg_ReadBits [0] 1 m) (\<lambda>(v, m'). Inr (v ! 0 \<noteq> 0, m'))"]
  have "gets (\<lambda>m. rbind (msg_ReadBits [0] 1 m) (\<lambda>(v, m'). Inr (v ! 0 \<noteq> 0, m'))) [b] b"
    by (cases b) simp_all
  then show ?thesis unfolding ReadBool_def [abs_def] by (rule gets_assert)
qed

lemma num_code_byte: "num_code 1 8 (unat b) = huff_code b"
  by (simp add: num_code_def enc_bits_def)

lemma WriteByte_puts [wire_intros]: "puts (WriteByte b) (huff_code b)"
  using puts_bits [of 8 1 "unat b"] num_code_byte [of b]
  unfolding WriteByte_def [abs_def] by simp

lemma WriteChar_puts [wire_intros]: "puts (WriteChar b) (huff_code b)"
  using WriteByte_puts [of b] unfolding WriteByte_def [abs_def] WriteChar_def [abs_def] .

lemma ReadByte_gets [wire_intros]: "gets ReadByte (huff_code b) b"
proof -
  have "gets (msg_ReadBits (replicate 1 0) 8) (huff_code b) (le_bytes 1 (take_bit 8 (unat b)))"
    using msg_ReadBits_gets [of 8 8 1 "unat b"] num_code_byte [of b] by (simp add: num_code_def)
  from gets_map [OF this, where h = "\<lambda>v. v ! 0" and
      g = "\<lambda>m. rbind (msg_ReadBits [0] 8 m) (\<lambda>(v, m'). Inr (v ! 0, m'))"]
  have "gets (\<lambda>m. rbind (msg_ReadBits [0] 8 m) (\<lambda>(v, m'). Inr (v ! 0, m'))) (huff_code b) b"
    by (simp add: word_take_bit_unat)
  then show ?thesis unfolding ReadByte_def [abs_def] by (rule gets_assert)
qed

lemma ReadChar_gets [wire_intros]: "gets ReadChar (huff_code b) b"
  using ReadByte_gets [of b] unfolding ReadByte_def [abs_def] ReadChar_def [abs_def] .

lemma WriteByteBool_puts [wire_intros]: "puts (WriteByteBool b) (huff_code (of_bool b))"
  using WriteByte_puts [of "of_bool b"] unfolding WriteByte_def [abs_def] WriteByteBool_def [abs_def] .

lemma ReadByteBool_gets [wire_intros]: "gets ReadByteBool (huff_code (of_bool b)) b"
proof -
  have "gets (\<lambda>m. rbind (ReadByte m) (\<lambda>(v, m'). Inr (v \<noteq> 0, m'))) (huff_code (of_bool b)) b"
    using gets_map [OF ReadByte_gets [of "of_bool b"], where h = "\<lambda>v. v \<noteq> 0"]
    by (cases b) simp_all
  moreover have "(\<lambda>m. rbind (ReadByte m) (\<lambda>(v, m'). Inr (v \<noteq> 0, m'))) = ReadByteBool"
    by (auto simp: fun_eq_iff ReadByte_def ReadByteBool_def rbind_assoc case_prod_unfold)
  ultimately show ?thesis by simp
qed

lemma WriteNumber_puts [wire_intros]:
  "n \<le> 8 * (LENGTH('a) div 8) \<Longrightarrow>
   puts (WriteNumber (w :: 'a::len word) n) (num_code (LENGTH('a) div 8) n (unat w))"
  using puts_bits [of n "LENGTH('a) div 8" "unat w"] unfolding WriteNumber_def [abs_def] .

lemma ReadNumber_gets [wire_intros]:
  "n \<le> 8 * (LENGTH('a) div 8) \<Longrightarrow>
   gets (ReadNumber n) (num_code (LENGTH('a) div 8) n (unat w)) (take_bit n (w :: 'a::len word))"
  using gets_num [of n "LENGTH('a) div 8" w] unfolding ReadNumber_def [abs_def] .

abbreviation code16 :: "u16 \<Rightarrow> bool list" where
  "code16 w \<equiv> num_code 2 16 (unat w)"

abbreviation code32 :: "u32 \<Rightarrow> bool list" where
  "code32 w \<equiv> num_code 4 32 (unat w)"

lemma WriteShort_puts [wire_intros]: "puts (WriteShort w) (code16 w)"
  and WriteUShort_puts [wire_intros]: "puts (WriteUShort w) (code16 w)"
  using puts_bits [of 16 2 "unat w"] unfolding WriteShort_def [abs_def] WriteUShort_def [abs_def]
  by simp_all

lemma WriteInteger_puts [wire_intros]: "puts (WriteInteger v) (code32 v)"
  and WriteUInteger_puts [wire_intros]: "puts (WriteUInteger v) (code32 v)"
  and WriteFloat_puts [wire_intros]: "puts (WriteFloat v) (code32 v)"
  using puts_bits [of 32 4 "unat v"]
  unfolding WriteInteger_def [abs_def] WriteUInteger_def [abs_def] WriteFloat_def [abs_def]
  by simp_all

lemma gets16: "gets (\<lambda>m. rbind (msg_ReadBits [0, 0] 16 m) (\<lambda>(v, m'). Inr (of_nat (le_val v), m')))
    (code16 w) w"
  using gets_num [of 16 2 w] by (simp add: numeral_2_eq_2)

lemma gets32: "gets (\<lambda>m. rbind (msg_ReadBits [0, 0, 0, 0] 32 m) (\<lambda>(v, m'). Inr (of_nat (le_val v), m')))
    (code32 w) w"
  using gets_num [of 32 4 w] by (simp add: eval_nat_numeral(2,3))

lemma ReadShort_gets [wire_intros]: "gets ReadShort (code16 w) w"
  and ReadUShort_gets [wire_intros]: "gets ReadUShort (code16 w) w"
  unfolding ReadShort_def [abs_def] ReadUShort_def [abs_def]
  by (rule gets_assert [OF gets16])+

lemma ReadInteger_gets [wire_intros]: "gets ReadInteger (code32 v) v"
  and ReadUInteger_gets [wire_intros]: "gets ReadUInteger (code32 v) v"
  and ReadFloat_gets [wire_intros]: "gets ReadFloat (code32 v) v"
  unfolding ReadInteger_def [abs_def] ReadUInteger_def [abs_def] ReadFloat_def [abs_def]
  by (rule gets_assert [OF gets32])+

lemma WriteData_puts [wire_intros]: "puts (WriteData bs) (concat (map huff_code bs))"
proof (induction bs)
  case Nil
  have "WriteData [] = Inr" by (simp add: fun_eq_iff)
  then show ?case by (simp add: puts_Inr)
next
  case (Cons b bs)
  have "WriteData (b # bs) = (\<lambda>m. rbind (WriteByte b m) (WriteData bs))" by (simp add: fun_eq_iff)
  then show ?case using puts_bind [OF WriteByte_puts Cons] by simp
qed

lemma ReadData_gets [wire_intros]: "gets (ReadData (length bs)) (concat (map huff_code bs)) bs"
proof (induction bs)
  case Nil
  have "ReadData (length []) = (\<lambda>m. Inr ([], m))" by (simp add: fun_eq_iff)
  then show ?case by (simp add: gets_return)
next
  case (Cons b bs)
  have e: "ReadData (length (b # bs)) = (\<lambda>m. rbind (ReadByte m) (\<lambda>(b, m').
      rbind (ReadData (length bs) m') (\<lambda>(bs, m''). Inr (b # bs, m''))))"
    by (simp add: fun_eq_iff)
  have "gets (\<lambda>m'. rbind (ReadData (length bs) m') (\<lambda>(bs, m''). Inr (b # bs, m'')))
      (concat (map huff_code bs)) (b # bs)"
    by (rule gets_map [OF Cons]) simp
  from gets_bind [OF ReadByte_gets, where g = "\<lambda>b m'. rbind (ReadData (length bs) m')
      (\<lambda>(bs, m''). Inr (b # bs, m''))", OF this]
  show ?case unfolding e by simp
qed

section \<open>Reading keeps the content of the stream\<close>

lemma st_Read_content: "st_Read s n = Inr (bs, s') \<Longrightarrow> st_content s' = st_content s"
  by (cases s) (auto simp: fixed_Read_def dyn_Read_def fixed_content_def dyn_content_def split: if_splits)

lemma lift_stream_Inr [simp]: "lift_stream r = Inr x \<longleftrightarrow> r = Inr x"
  by (cases r) auto

lemma lift_access_Inr [simp]: "lift_access r = Inr x \<longleftrightarrow> r = Some x"
  by (cases r) auto

lemma ReadBits_content:
  "ReadBits bpos s buf = Inr (bpos', s', buf') \<Longrightarrow> st_content s' = st_content s"
  by (auto simp: ReadBits_def Let_def dest: st_Read_content split: if_splits)

lemma get_byte_content:
  "get_byte (bpos, s, buf) = Inr (v, bpos', s', buf') \<Longrightarrow> st_content s' = st_content s"
  by (auto simp: get_byte_def dest: ReadBits_content)

definition st_of :: "bitstate \<Rightarrow> mstream" where
  "st_of st = fst (snd st)"

lemma decode_shifted_loop_content:
  "decode_shifted_loop buf rb i bn st = Inr (out, st') \<Longrightarrow> st_content (st_of st') = st_content (st_of st)"
proof (induction buf rb i bn st rule: decode_shifted_loop.induct)
  case (1 buf rb i bn st)
  show ?case
  proof (cases "i < rb")
    case False
    with 1(2) show ?thesis by (simp add: decode_shifted_loop.simps)
  next
    case True
    with 1(2) obtain r st1 where r: "get_byte st = Inr (r, st1)" "\<not> length buf \<le> bn div 8 + 1"
      "decode_shifted_loop (buf[bn div 8 := (buf ! (bn div 8)) OR push_bit (bn - i) r,
        bn div 8 + 1 := drop_bit (8 - (bn - i)) r]) rb (i + 8) (bn + 8) st1 = Inr (out, st')"
      by (subst (asm) decode_shifted_loop.simps) (auto simp: Let_def split: if_splits)
    have "st_content (st_of st1) = st_content (st_of st)"
      using r(1) get_byte_content by (cases st; cases st1) (auto simp: st_of_def)
    moreover have "st_content (st_of st') = st_content (st_of st1)"
      by (rule 1(1) [OF True refl refl r(1) refl r(2) refl refl r(3)])
    ultimately show ?thesis by simp
  qed
qed

lemma decode_full_loop_content:
  "decode_full_loop buf p rb i st = Inr (out, st') \<Longrightarrow> st_content (st_of st') = st_content (st_of st)"
proof (induction buf p rb i st rule: decode_full_loop.induct)
  case (1 buf p rb i st)
  show ?case
  proof (cases "i < rb")
    case False
    with 1(2) show ?thesis by (simp add: decode_full_loop.simps)
  next
    case True
    with 1(2) obtain r st1 where r: "get_byte st = Inr (r, st1)" "\<not> length buf \<le> p"
      "decode_full_loop (buf[p := r]) (p + 1) rb (i + 8) st1 = Inr (out, st')"
      by (subst (asm) decode_full_loop.simps) (auto split: if_splits)
    have "st_content (st_of st1) = st_content (st_of st)"
      using r(1) get_byte_content by (cases st; cases st1) (auto simp: st_of_def)
    moreover have "st_content (st_of st') = st_content (st_of st1)"
      by (rule 1(1) [OF True r(1) refl r(2,3)])
    ultimately show ?thesis by simp
  qed
qed

lemma Bit_Decode_content:
  "Bit_Decode buf n (b, s, f) = Inr (out, b', s', f') \<Longrightarrow> st_content s' = st_content s"
  by (auto simp: Bit_Decode_def Let_def st_of_def dest!: ReadBits_content decode_shifted_loop_content
      decode_full_loop_content split: if_splits)

lemma msg_ReadBits_content:
  assumes "msg_ReadBits v n m = Inr (x, m')" and "m_codec m = BitCodec"
  shows "st_content (m_stream m') = st_content (m_stream m)"
  using assms
  by (auto simp: msg_ReadBits_def Let_def dest!: Bit_Decode_content st_Read_content split: if_splits)

lemma ReadByte_content:
  assumes "ReadByte m = Inr (v, m')" and "m_codec m = BitCodec"
  shows "st_content (m_stream m') = st_content (m_stream m)"
  using assms by (auto simp: ReadByte_def dest!: msg_ReadBits_content split: if_splits)

lemma ReadInteger_content:
  assumes "ReadInteger m = Inr (v, m')" and "m_codec m = BitCodec"
  shows "st_content (m_stream m') = st_content (m_stream m)"
  using assms by (auto simp: ReadInteger_def dest!: msg_ReadBits_content split: if_splits)

section \<open>Strings on the wire\<close>

lemma gets_step: "gets f bs x \<Longrightarrow> mr m (bs @ post) \<Longrightarrow> True \<in> set post \<Longrightarrow>
    \<exists>m'. f m = Inr (x, m') \<and> mr m' post"
  unfolding gets_def by blast

lemma rd_next_stream:
  "rd_next (b, s, f) bs \<Longrightarrow> st_invar s' \<Longrightarrow> st_content s' = st_content s \<Longrightarrow>
   st_GetPosition s' = st_GetPosition s \<Longrightarrow> rd_next (b, s', f) bs"
  by (simp add: rd_next_def)

lemma string_length_ok:
  assumes "mr m (concat (map huff_code (ws @ [t])) @ post)" and "True \<in> set post"
    and "\<forall>w\<in>set ws. mapping ! unat w \<noteq> 0" and "mapping ! unat t = 0"
  shows "\<exists>m'. string_length mapping n m = Some (Inr (n + length ws + 1, m')) \<and> mr m' post \<and>
    st_content (m_stream m') = st_content (m_stream m)"
  using assms
proof (induction ws arbitrary: m n)
  case Nil
  then obtain m' where "ReadByte m = Inr (t, m')" "mr m' post"
    using gets_step [OF ReadByte_gets, of m t post] by auto
  with Nil show ?case
    using ReadByte_content [of m t m'] by (auto simp: string_length.simps mr_def)
next
  case (Cons w ws)
  then obtain m1 where m1: "ReadByte m = Inr (w, m1)"
    "mr m1 (concat (map huff_code (ws @ [t])) @ post)"
    using gets_step [OF ReadByte_gets, of m w "concat (map huff_code (ws @ [t])) @ post"] by auto
  then obtain m' where "string_length mapping (n + 1) m1 = Some (Inr (n + 1 + length ws + 1, m'))"
    "mr m' post" "st_content (m_stream m') = st_content (m_stream m1)"
    using Cons.IH [of m1 "n + 1"] Cons.prems by auto
  moreover have "st_content (m_stream m1) = st_content (m_stream m)"
    using ReadByte_content [OF m1(1)] Cons.prems(1) by (simp add: mr_def)
  ultimately show ?case
    using m1(1) Cons.prems(3) by (simp add: string_length.simps [of mapping n m])
qed

lemma string_chars_gets:
  "\<forall>w\<in>set ws. mapping ! unat w \<noteq> 0 \<Longrightarrow>
   gets (string_chars mapping (length ws)) (concat (map huff_code ws)) (map (\<lambda>w. mapping ! unat w) ws)"
proof (induction ws)
  case Nil
  have "string_chars mapping (length []) = (\<lambda>m. Inr ([], m))" by (simp add: fun_eq_iff)
  then show ?case by (simp add: gets_return)
next
  case (Cons w ws)
  let ?rest = "\<lambda>val m'. let c = mapping ! unat val in
       if c = 0 then Inl AssertionFailed
       else rbind (string_chars mapping (length ws) m') (\<lambda>(cs, m''). Inr (c # cs, m''))"
  have e: "string_chars mapping (length (w # ws)) = (\<lambda>m. rbind (ReadByte m) (\<lambda>(val, m'). ?rest val m'))"
    by (simp add: fun_eq_iff)
  have "gets (?rest w) (concat (map huff_code ws)) (map (\<lambda>w. mapping ! unat w) (w # ws))"
    using gets_map [OF Cons.IH, where h = "\<lambda>cs. (mapping ! unat w) # cs" and g = "?rest w"] Cons.prems
    by simp
  from gets_bind [OF ReadByte_gets [of w], where g = ?rest, OF this]
  show ?case unfolding e by simp
qed

lemma ReadStringInternal_gets:
  assumes ws: "\<forall>w\<in>set ws. mapping ! unat w \<noteq> 0" and t: "mapping ! unat t = 0"
  shows "gets (ReadStringInternal mapping) (concat (map huff_code (ws @ [t])))
    (Some (map (\<lambda>w. mapping ! unat w) ws))"
  unfolding gets_def
proof (intro allI impI)
  fix m post
  assume m: "mr m (concat (map huff_code (ws @ [t])) @ post)" and one: "True \<in> set post"
  obtain m1 where m1: "string_length mapping 0 m = Some (Inr (length ws + 1, m1))" "mr m1 post"
    "st_content (m_stream m1) = st_content (m_stream m)"
    using string_length_ok [OF m one ws t, of 0] by auto
  let ?m2 = "m1\<lparr>m_bit := m_bit m, m_stream := st_Seek (m_stream m1) (st_GetPosition (m_stream m)) Begin,
    m_bitData := m_bitData m\<rparr>"
  have inv: "st_invar (m_stream m)" "st_invar (m_stream m1)"
    using m m1(2) by (auto simp: mr_def mstate_def rd_next_def)
  have "st_GetPosition (m_stream m) \<le> length (st_content (m_stream m1))"
    using ms.pos_le [OF inv(1)] m1(3) by simp
  note sk = ms.sk_ok [OF inv(2) this]
  have "mr ?m2 (concat (map huff_code ws) @ huff_code t @ post)"
    using rd_next_stream [of "m_bit m" "m_stream m" "m_bitData m", OF _ _ _ _] m m1(2,3) sk
    by (simp add: mr_def mstate_def IsReading_def)
  then obtain m3 where m3: "string_chars mapping (length ws) ?m2 = Inr (map (\<lambda>w. mapping ! unat w) ws, m3)"
    "mr m3 (huff_code t @ post)"
    using gets_step [OF string_chars_gets [OF ws]] one by (metis Un_iff set_append)
  then obtain m4 where "ReadByte m3 = Inr (t, m4)" "mr m4 post"
    using gets_step [OF ReadByte_gets] one by blast
  with m1(1) m3(1) show "\<exists>m'. ReadStringInternal mapping m =
      Inr (Some (map (\<lambda>w. mapping ! unat w) ws), m') \<and> mr m' post"
    by (simp add: ReadStringInternal_def Let_def)
qed

lemma charCharMapping_id [simp]: "charCharMapping ! unat c = c"
  using unat_byte_lt [of c] by (simp add: charCharMapping_def)

lemma c_chars_nonzero: "\<forall>c\<in>set (c_chars p). c \<noteq> 0"
  by (auto simp: c_chars_def dest: set_takeWhileD)

lemma WriteData_one: "puts (WriteData [b]) (huff_code b)"
  using WriteData_puts [of "[b]"] by simp

definition string_code :: "StringMessage \<Rightarrow> bool list" where
  "string_code s = concat (map huff_code (c_chars (case s of None \<Rightarrow> [] | Some p \<Rightarrow> p) @ [0]))"

lemma puts_assert [wire_intros]:
  "puts f bs \<Longrightarrow> puts (\<lambda>m. if \<not> IsWriting m then Inl e else f m) bs"
  unfolding puts_def mw_def IsWriting_def by simp

lemma WriteString_puts [wire_intros]: "puts (WriteString s) (string_code s)"
proof -
  have "puts (\<lambda>m. case s of None \<Rightarrow> WriteData [0] m | Some p \<Rightarrow> WriteData (c_chars p @ [0]) m)
      (string_code s)"
  proof (cases s)
    case None
    then show ?thesis using WriteData_puts [of "[0]"]
      by (simp add: string_code_def c_chars_def del: WriteData.simps)
  next
    case (Some p)
    then show ?thesis using WriteData_puts [of "c_chars p @ [0]"]
      by (simp add: string_code_def del: WriteData.simps)
  qed
  then show ?thesis unfolding WriteString_def [abs_def] by (rule puts_assert)
qed

lemma ReadString_gets [wire_intros]:
  "gets ReadString (string_code s) (Some (c_chars (case s of None \<Rightarrow> [] | Some p \<Rightarrow> p)))"
proof -
  let ?p = "case s of None \<Rightarrow> [] | Some p \<Rightarrow> p"
  have z: "charCharMapping ! unat (0 :: byte) = 0" by (rule charCharMapping_id)
  show ?thesis
    using ReadStringInternal_gets [of "c_chars ?p" charCharMapping 0] c_chars_nonzero [of ?p] z
    unfolding ReadString_def [abs_def] string_code_def by simp
qed

lemma write_mapped_puts: "puts (write_mapped mapping cs) (concat (map (\<lambda>c. huff_code (mapping ! unat c)) cs))"
proof (induction cs)
  case Nil
  have "write_mapped mapping [] = Inr" by (simp add: fun_eq_iff)
  then show ?case by (simp add: puts_Inr)
next
  case (Cons c cs)
  have "write_mapped mapping (c # cs) = (\<lambda>m. rbind (WriteData [mapping ! unat c] m) (write_mapped mapping cs))"
    by (simp add: fun_eq_iff)
  then show ?case using puts_bind [OF WriteData_one Cons] by simp
qed

definition scrambled_code :: "byte list \<Rightarrow> StringMessage \<Rightarrow> bool list" where
  "scrambled_code mapping s = concat (map huff_code
     (map (\<lambda>c. mapping ! unat c) (c_chars (case s of None \<Rightarrow> [] | Some p \<Rightarrow> p) @ [0])))"

lemma WriteScrambledString_puts [wire_intros]:
  "puts (WriteScrambledString s mapping) (scrambled_code mapping s)"
proof -
  let ?p = "case s of None \<Rightarrow> [] | Some p \<Rightarrow> p"
  have "puts (\<lambda>m. case s of None \<Rightarrow> Inr m | Some p \<Rightarrow> write_mapped mapping (c_chars p) m)
      (concat (map (\<lambda>c. huff_code (mapping ! unat c)) (c_chars ?p)))"
    using write_mapped_puts puts_Inr by (cases s) (simp_all add: c_chars_def)
  from puts_bind [OF this WriteData_one [of "mapping ! 0"]]
  show ?thesis
    unfolding WriteScrambledString_def [abs_def] scrambled_code_def by (simp add: o_def)
qed

lemma mapping_inverse:
  "map (\<lambda>c. byteCharMapping ! unat c) charByteMapping = map of_nat [0..<256]"
  by (simp add: byteCharMapping_def charByteMapping_def upt_conv_Cons)

lemma length_charByteMapping [simp]: "length charByteMapping = 256"
  using arg_cong [OF mapping_inverse, of length] by simp

lemma byteChar_charByte [simp]: "byteCharMapping ! unat (charByteMapping ! unat c) = c"
  using arg_cong [OF mapping_inverse, of "\<lambda>xs. xs ! unat c"] unat_byte_lt [of c] by simp

lemma ReadScrambledString_gets [wire_intros]:
  "gets (ReadScrambledString byteCharMapping) (scrambled_code charByteMapping s)
     (Some (c_chars (case s of None \<Rightarrow> [] | Some p \<Rightarrow> p)))"
proof -
  let ?p = "case s of None \<Rightarrow> [] | Some p \<Rightarrow> p"
  let ?ws = "map (\<lambda>c. charByteMapping ! unat c) (c_chars ?p)"
  have "byteCharMapping ! unat (charByteMapping ! unat (0 :: byte)) = 0" by (rule byteChar_charByte)
  then show ?thesis
    using ReadStringInternal_gets [of ?ws byteCharMapping "charByteMapping ! 0"]
      c_chars_nonzero [of ?p]
    unfolding ReadScrambledString_def [abs_def] scrambled_code_def by (simp add: o_def)
qed

end
