(* ===== verification/Wire.thy ===== *)
theory Wire
  imports Msg
begin

text \<open>
  The interface of values sent in a message (locale \<open>wire\<close>) and its round trip through a flushed
  stream.
\<close>

section \<open>From a writer to a reader\<close>

text \<open>
  A message is written to the stream \<open>s\<close>, closed by a \<open>true\<close> and flushed; a second message reads
  the stream from its start. The final bit keeps the reader away from the end of the stream.
\<close>

definition transfer ::
  "('a \<Rightarrow> msg \<Rightarrow> msg_error + msg) \<Rightarrow> (msg \<Rightarrow> msg_error + 'b \<times> msg) \<Rightarrow> 'a \<Rightarrow> mstream \<Rightarrow> msg_error + 'b" where
  "transfer put get x s =
     rbind (msg_new s msgMode_Writing) (\<lambda>m.
     rbind (put x m) (\<lambda>m1.
     rbind (WriteBool True m1) (\<lambda>m2.
     rbind (msg_Flush m2) (\<lambda>m3.
     rbind (msg_new (st_Seek (m_stream m3) 0 Begin) msgMode_Reading) (\<lambda>m4.
     rbind (get m4) (\<lambda>(y, _). Inr y))))))"

lemma msg_new_writes:
  assumes "st_invar s" "st_content s = []" "st_room s R"
  shows "\<exists>m. msg_new s msgMode_Writing = Inr m \<and> mw R m \<and> mw_bits m = []"
proof -
  have "st_GetPosition s = 0" using ms.pos_le [OF assms(1)] assms(2) by simp
  with assms show ?thesis
    by (simp add: msg_new_def mw_def mw_bits_def mstate_def IsWriting_def)
qed

lemma msg_Flush_bits:
  assumes m: "mw R m" and room: "length (mw_bits m) \<le> 8 * R"
  shows "\<exists>m' pad. msg_Flush m = Inr m' \<and> st_invar (m_stream m') \<and>
    bytes_bits (st_content (m_stream m')) = mw_bits m @ pad"
proof (cases "m_bit m = 0")
  case True
  with m show ?thesis by (simp add: msg_Flush_def mw_def mw_bits_def mstate_def)
next
  case False
  let ?s = "m_stream m" and ?b = "m_bit m" and ?f = "m_bitData m"
  let ?sz = "(?b + 7) div 8"
  have i: "st_invar ?s" "st_GetPosition ?s = length (st_content ?s)" "st_room ?s R" "length ?f = 32"
    "?b div 8 \<le> 16" "IsWriting m"
    using m by (auto simp: mw_def mstate_def IsWriting_def)
  have b: "?b < 144" using i(5) by linarith
  then have sz: "?sz \<le> 32" "?b \<le> 8 * ?sz" by linarith+
  have "8 * length (st_content ?s) + ?b \<le> 8 * R"
    using room i(4) b by (simp add: mw_bits_def mstate_def min_absorb2)
  then have "length (st_content ?s) + ?sz \<le> R" by linarith
  then have "st_room ?s (st_GetPosition ?s + length (take ?sz ?f))"
    using st_room_mono [OF i(3)] i(2,4) sz(1) by simp
  then obtain s' where s': "st_Write ?s (take ?sz ?f) = Inr s'" "st_invar s'"
    "st_content s' = st_content ?s @ take ?sz ?f"
    using ms.write_append [OF i(1,2)] by blast
  have "msg_Flush m = Inr (m\<lparr>m_stream := s', m_bit := 0\<rparr>)"
    using False i(4,6) sz(1) s'(1) by (simp add: msg_Flush_def Let_def)
  moreover have "bytes_bits (st_content s') = mw_bits m @ drop ?b (take (8 * ?sz) (bytes_bits ?f))"
  proof -
    have "take (8 * ?sz) (bytes_bits ?f) =
        take ?b (take (8 * ?sz) (bytes_bits ?f)) @ drop ?b (take (8 * ?sz) (bytes_bits ?f))"
      by (rule append_take_drop_id [symmetric])
    also have "take ?b (take (8 * ?sz) (bytes_bits ?f)) = take ?b (bytes_bits ?f)"
      using sz(2) by (simp only: take_take min_absorb1)
    finally show ?thesis
      using s'(3) by (simp add: mw_bits_def mstate_def bytes_bits_take)
  qed
  ultimately show ?thesis using s'(2) by auto
qed

lemma msg_new_reads:
  assumes "st_invar s" and "st_GetPosition s = 0" and "bytes_bits (st_content s) = bs @ pad"
  shows "\<exists>m. msg_new s msgMode_Reading = Inr m \<and> mr m bs"
proof -
  let ?c = "st_content s"
  let ?n = "min (length ?c) 32"
  have "st_GetPosition s + ?n \<le> length ?c" using assms(2) by simp
  from ms.rd_ok [OF assms(1) this] obtain s' where s': "st_Read s ?n = Inr (take ?n ?c, s')"
    "st_invar s'" "st_content s' = ?c" "st_GetPosition s' = ?n"
    using assms(2) by auto
  let ?f = "blit (replicate 32 0) 0 (take ?n ?c)"
  have f: "?f = take ?n ?c @ replicate (32 - ?n) 0" by (simp add: blit_def)
  let ?m = "\<lparr>m_stream = s', m_codec = BitCodec, m_mode = msgMode_Reading, m_bit = 0, m_bitData = ?f\<rparr>"
  have run: "msg_new s msgMode_Reading = Inr ?m"
    using s'(1) assms(2)
    by (simp add: msg_new_def msg_Reset_def st_GetLength_content [OF assms(1)] Let_def)
  have "\<exists>zs. bytes_bits ?f @ bytes_bits (drop ?n ?c) = bytes_bits ?c @ zs"
  proof (cases "length ?c \<le> 32")
    case True
    then show ?thesis unfolding f by simp
  next
    case False
    then have "?f @ drop ?n ?c = ?c" unfolding f by (simp add: min_absorb2)
    then have "bytes_bits ?f @ bytes_bits (drop ?n ?c) = bytes_bits ?c"
      by (metis bytes_bits_append)
    then show ?thesis by (metis append_Nil2)
  qed
  moreover have "min (length ?c) 32 = 0 \<Longrightarrow> ?c = []" by (simp add: min_def split: if_splits)
  ultimately have "mr ?m bs"
    using s' assms(3) unfolding f by (auto simp: mr_def mstate_def IsReading_def rd_next_def)
  with run show ?thesis by blast
qed

text \<open>Whatever every reader of the bits gives holds of what is received.\<close>

lemma transfer_any:
  assumes put: "puts (put x) bs"
    and get: "\<And>m post. mr m (bs @ post) \<Longrightarrow> True \<in> set post \<Longrightarrow> \<exists>y m'. get m = Inr (y, m') \<and> P y"
    and s: "st_invar s" "st_content s = []" "st_room s R" and room: "length bs + 1 \<le> 8 * R"
  shows "\<exists>y. transfer put get x s = Inr y \<and> P y"
proof -
  obtain m where m: "msg_new s msgMode_Writing = Inr m" "mw R m" "mw_bits m = []"
    using msg_new_writes [OF s] by blast
  have "puts (\<lambda>m. rbind (put x m) (WriteBool True)) (bs @ [True])"
    by (rule puts_bind [OF put WriteBool_puts])
  then obtain m2 where m2: "rbind (put x m) (WriteBool True) = Inr m2" "mw R m2"
    "mw_bits m2 = bs @ [True]"
    using m room unfolding puts_def by fastforce
  then obtain m3 pad where m3: "msg_Flush m2 = Inr m3" "st_invar (m_stream m3)"
    "bytes_bits (st_content (m_stream m3)) = (bs @ [True]) @ pad"
    using msg_Flush_bits [OF m2(2)] room by auto
  let ?s = "st_Seek (m_stream m3) 0 Begin"
  have k: "st_invar ?s" "st_content ?s = st_content (m_stream m3)" "st_GetPosition ?s = 0"
    using ms.sk_ok [OF m3(2), of 0] by auto
  obtain m4 where m4: "msg_new ?s msgMode_Reading = Inr m4" "mr m4 (bs @ [True])"
    using msg_new_reads [OF k(1,3)] m3(3) k(2) by metis
  obtain y m5 where "get m4 = Inr (y, m5)" "P y"
    using get [OF m4(2)] by auto
  with m(1) m2(1) m3(1) m4(1) show ?thesis by (auto simp: transfer_def)
qed

lemma transfer_ok:
  assumes "puts (put x) bs" and get: "gets get bs y"
    and "st_invar s" "st_content s = []" "st_room s R" "length bs + 1 \<le> 8 * R"
  shows "transfer put get x s = Inr y"
proof -
  have "\<exists>y' m'. get m = Inr (y', m') \<and> y' = y" if "mr m (bs @ post)" "True \<in> set post" for m post
    using gets_step [OF get that] by blast
  from transfer_any [where put = put and x = x, OF assms(1) this assms(3-6)] show ?thesis by auto
qed

section \<open>The interface of values on the wire\<close>

fun put_list :: "('a \<Rightarrow> msg \<Rightarrow> msg_error + msg) \<Rightarrow> 'a list \<Rightarrow> msg \<Rightarrow> msg_error + msg" where
  "put_list put [] m = Inr m"
| "put_list put (x # xs) m = rbind (put x m) (put_list put xs)"

fun get_list :: "(msg \<Rightarrow> msg_error + 'b \<times> msg) \<Rightarrow> nat \<Rightarrow> msg \<Rightarrow> msg_error + 'b list \<times> msg" where
  "get_list get 0 m = Inr ([], m)"
| "get_list get (Suc n) m =
     rbind (get m) (\<lambda>(x, m'). rbind (get_list get n m') (\<lambda>(xs, m''). Inr (x # xs, m'')))"

locale wire =
  fixes enc :: "'a \<Rightarrow> bool list"
    and put :: "'a \<Rightarrow> msg \<Rightarrow> msg_error + msg"
    and get :: "msg \<Rightarrow> msg_error + 'b \<times> msg"
    and ok :: "'a \<Rightarrow> bool"
    and dec :: "'a \<Rightarrow> 'b"
  assumes put_ok: "ok x \<Longrightarrow> puts (put x) (enc x)"
    and get_ok: "ok x \<Longrightarrow> gets get (enc x) (dec x)"
begin

lemma roundtrip:
  assumes "ok x" "st_invar s" "st_content s = []" "st_room s R" "length (enc x) + 1 \<le> 8 * R"
  shows "transfer put get x s = Inr (dec x)"
  by (rule transfer_ok [OF put_ok get_ok]) (use assms in simp_all)

lemma put_list_ok: "\<forall>x\<in>set xs. ok x \<Longrightarrow> puts (put_list put xs) (concat (map enc xs))"
proof (induction xs)
  case Nil
  have "put_list put [] = Inr" by (simp add: fun_eq_iff)
  then show ?case by (simp add: puts_Inr)
next
  case (Cons x xs)
  have "put_list put (x # xs) = (\<lambda>m. rbind (put x m) (put_list put xs))" by (simp add: fun_eq_iff)
  then show ?case using puts_bind [OF put_ok [of x] Cons.IH] Cons.prems by simp
qed

lemma get_list_ok: "\<forall>x\<in>set xs. ok x \<Longrightarrow>
    gets (get_list get (length xs)) (concat (map enc xs)) (map dec xs)"
proof (induction xs)
  case Nil
  have "get_list get (length []) = (\<lambda>m. Inr ([], m))" by (simp add: fun_eq_iff)
  then show ?case by (simp add: gets_return)
next
  case (Cons x xs)
  let ?g = "\<lambda>y m'. rbind (get_list get (length xs) m') (\<lambda>(ys, m''). Inr (y # ys, m''))"
  have e: "get_list get (length (x # xs)) = (\<lambda>m. rbind (get m) (\<lambda>(y, m'). ?g y m'))"
    by (simp add: fun_eq_iff)
  have "gets (get_list get (length xs)) (concat (map enc xs)) (map dec xs)"
    using Cons by simp
  from gets_map [OF this, where h = "\<lambda>ys. dec x # ys" and g = "?g (dec x)"]
  have "gets (?g (dec x)) (concat (map enc xs)) (map dec (x # xs))" by simp
  from gets_bind [OF get_ok [of x], where g = ?g, OF _ this] Cons.prems
  show ?case unfolding e by simp
qed

lemma list_roundtrip:
  assumes "\<forall>x\<in>set xs. ok x" "st_invar s" "st_content s = []" "st_room s R"
    "length (concat (map enc xs)) + 1 \<le> 8 * R"
  shows "transfer (put_list put) (get_list get (length xs)) xs s = Inr (map dec xs)"
  by (rule transfer_ok [OF put_list_ok get_list_ok]) (use assms in simp_all)

end

lemma wire_always: "(\<And>x. puts (put x) (enc x)) \<Longrightarrow> (\<And>x. gets get (enc x) (dec x)) \<Longrightarrow>
    wire enc put get (\<lambda>_. True) dec"
  by unfold_locales auto

interpretation wbool: wire "\<lambda>b. [b]" WriteBool ReadBool "\<lambda>_. True" "\<lambda>b. b"
  by (rule wire_always) (rule wire_intros)+

interpretation wstring: wire string_code WriteString ReadString "\<lambda>_. True"
  "\<lambda>s. Some (c_chars (case s of None \<Rightarrow> [] | Some p \<Rightarrow> p))"
  by (rule wire_always) (rule wire_intros)+

interpretation wscrambled: wire "scrambled_code charByteMapping"
  "\<lambda>s. WriteScrambledString s charByteMapping" "ReadScrambledString byteCharMapping" "\<lambda>_. True"
  "\<lambda>s. Some (c_chars (case s of None \<Rightarrow> [] | Some p \<Rightarrow> p))"
  by (rule wire_always) (rule wire_intros)+

end
