(* ===== verification/MsgOps.thy ===== *)
theory MsgOps
  imports Wire
begin

text \<open>
  The composed operations of \<open>MSG.cpp\<close> and \<open>MSG.h\<close>: numbers sent only when they differ
  (\<open>WriteDeltaType\<close>, \<open>WriteDeltaTypeKey\<close> and their readers), the \<open>Serialize\<close> family that reads
  or writes by the mode of the message, strings with the character mapping; and the properties of
  messages.
\<close>

section \<open>Delta types\<close>

text \<open>\<open>XORType\<close> converts \<open>b ^ key\<close> back to the type of \<open>b\<close>. Only the integer types compare as their bits.\<close>

definition XORType :: "'a::len word \<Rightarrow> int \<Rightarrow> 'a word" where
  "XORType b key = b XOR word_of_int key"

definition WriteDeltaType :: "'a::len word \<Rightarrow> 'a word \<Rightarrow> nat \<Rightarrow> msg \<Rightarrow> msg_error + msg" where
  "WriteDeltaType a b bits m =
     (let isDiff = (a \<noteq> b) in
      rbind (WriteBool isDiff m) (\<lambda>m'. if isDiff then WriteNumber b bits m' else Inr m'))"

definition ReadDeltaType :: "'a::len word \<Rightarrow> nat \<Rightarrow> msg \<Rightarrow> msg_error + 'a word \<times> msg" where
  "ReadDeltaType a bits m =
     rbind (ReadBool m) (\<lambda>(isDiff, m'). if isDiff then ReadNumber bits m' else Inr (a, m'))"

definition WriteDeltaTypeKey :: "'a::len word \<Rightarrow> 'a word \<Rightarrow> int \<Rightarrow> nat \<Rightarrow> msg \<Rightarrow> msg_error + msg" where
  "WriteDeltaTypeKey a b key bits m =
     (let isDiff = (a \<noteq> b) in
      rbind (WriteBool isDiff m) (\<lambda>m'.
        if isDiff then (let newB = XORType b key in WriteNumber newB bits m') else Inr m'))"

definition ReadDeltaTypeKey :: "'a::len word \<Rightarrow> int \<Rightarrow> nat \<Rightarrow> msg \<Rightarrow> msg_error + 'a word \<times> msg" where
  "ReadDeltaTypeKey a key bits m =
     rbind (ReadBool m) (\<lambda>(isDiff, m').
       if isDiff then rbind (ReadNumber bits m') (\<lambda>(val, m''). Inr (XORType val key, m''))
       else Inr (a, m'))"

section \<open>The Serialize family\<close>

text \<open>Each returns the value the reference holds afterwards.\<close>

definition serialize :: "('a \<Rightarrow> msg \<Rightarrow> msg_error + msg) \<Rightarrow> (msg \<Rightarrow> msg_error + 'a \<times> msg) \<Rightarrow>
    'a \<Rightarrow> msg \<Rightarrow> msg_error + 'a \<times> msg" where
  "serialize wr rd v m = (if \<not> IsReading m then rbind (wr v m) (\<lambda>m'. Inr (v, m')) else rd m)"

definition SerializeBool :: "bool \<Rightarrow> msg \<Rightarrow> msg_error + bool \<times> msg" where
  "SerializeBool = serialize WriteBool ReadBool"

definition SerializeChar :: "byte \<Rightarrow> msg \<Rightarrow> msg_error + byte \<times> msg" where
  "SerializeChar = serialize WriteChar ReadChar"

definition SerializeByte :: "byte \<Rightarrow> msg \<Rightarrow> msg_error + byte \<times> msg" where
  "SerializeByte = serialize WriteByte ReadByte"

definition SerializeShort :: "u16 \<Rightarrow> msg \<Rightarrow> msg_error + u16 \<times> msg" where
  "SerializeShort = serialize WriteShort ReadShort"

definition SerializeUShort :: "u16 \<Rightarrow> msg \<Rightarrow> msg_error + u16 \<times> msg" where
  "SerializeUShort = serialize WriteUShort ReadUShort"

definition SerializeInteger :: "u32 \<Rightarrow> msg \<Rightarrow> msg_error + u32 \<times> msg" where
  "SerializeInteger = serialize WriteInteger ReadInteger"

definition SerializeUInteger :: "u32 \<Rightarrow> msg \<Rightarrow> msg_error + u32 \<times> msg" where
  "SerializeUInteger = serialize WriteUInteger ReadUInteger"

definition SerializeFloat :: "u32 \<Rightarrow> msg \<Rightarrow> msg_error + u32 \<times> msg" where
  "SerializeFloat = serialize WriteFloat ReadFloat"

definition SerializeString :: "StringMessage \<Rightarrow> msg \<Rightarrow> msg_error + StringMessage \<times> msg" where
  "SerializeString = serialize WriteString ReadString"

text \<open>\<open>bval\<close> is not initialised: \<open>garbage\<close> is what the stack holds.\<close>

definition SerializeByteBool :: "byte \<Rightarrow> bool \<Rightarrow> msg \<Rightarrow> msg_error + bool \<times> msg" where
  "SerializeByteBool garbage v m =
     (let bval = garbage in
      rbind (SerializeByte bval m) (\<lambda>(bval', m'). Inr (bval' \<noteq> 0, m')))"

fun Serialize :: "byte list \<Rightarrow> msg \<Rightarrow> msg_error + byte list \<times> msg" where
  "Serialize [] m = Inr ([], m)"
| "Serialize (b # bs) m =
     rbind (SerializeByte b m) (\<lambda>(b', m').
     rbind (Serialize bs m') (\<lambda>(bs', m''). Inr (b' # bs', m'')))"

text \<open>\<open>memcmp\<close> of the two objects; \<open>isSame\<close> is the byte the bit is read into.\<close>

definition delta_size :: "nat \<Rightarrow> nat" where
  "delta_size bits = max (bits div 8) 1"

definition SerializeDelta :: "byte list \<Rightarrow> byte list \<Rightarrow> nat \<Rightarrow> msg \<Rightarrow> msg_error + byte list \<times> msg" where
  "SerializeDelta a b bits m =
     (let sz = delta_size bits in
      if length a < sz \<or> length b < sz then Inl BadBufferAccess
      else
        (let isSame = (take sz a = take sz b) in
         rbind (msg_SerializeBits [of_bool isSame] 1 m) (\<lambda>(v, m').
           if v ! 0 = 0 then msg_SerializeBits b (int bits) m' else Inr (b, m'))))"

definition xor_bytes :: "int \<Rightarrow> byte list \<Rightarrow> nat \<Rightarrow> byte list" where
  "xor_bytes key bs sz = map (\<lambda>v. v XOR word_of_int key) (take sz bs) @ drop sz bs"

text \<open>Writing makes a copy \<open>buffer\<close> of \<open>b\<close> with the key, and sends \<open>b\<close>.\<close>

definition SerializeDelta_key ::
  "byte list \<Rightarrow> byte list \<Rightarrow> int \<Rightarrow> nat \<Rightarrow> msg \<Rightarrow> msg_error + byte list \<times> msg" where
  "SerializeDelta_key a b key bits m =
     (let sz = delta_size bits in
      if \<not> IsReading m then
        (if length a < sz \<or> length b < sz then Inl BadBufferAccess
         else
           (let isSame = (take sz a = take sz b) in
            rbind (msg_SerializeBits [of_bool isSame] 1 m) (\<lambda>(_, m').
              if \<not> isSame then
                (let buffer = xor_bytes key (take sz b) sz in msg_SerializeBits b (int bits) m')
              else Inr (b, m'))))
      else
        rbind (msg_SerializeBits [0] 1 m) (\<lambda>(v, m').
          if v ! 0 = 0 then
            rbind (msg_SerializeBits b (int bits) m') (\<lambda>(b', m'').
              if length b' < sz then Inl BadBufferAccess else Inr (xor_bytes key b' sz, m''))
          else Inr (b, m')))"

text \<open>The typed forms send whether the values differ, not whether they are the same.\<close>

definition SerializeDeltaType :: "'a::len word \<Rightarrow> 'a word \<Rightarrow> msg \<Rightarrow> msg_error + 'a word \<times> msg" where
  "SerializeDeltaType a b m =
     (let isDiff = (a \<noteq> b); n = LENGTH('a) div 8 in
      rbind (msg_SerializeBits [of_bool isDiff] 1 m) (\<lambda>(v, m').
        if v ! 0 \<noteq> 0 then
          rbind (msg_SerializeBits (le_bytes n (unat b)) (8 * int n) m') (\<lambda>(b', m'').
            Inr (of_nat (le_val b'), m''))
        else Inr (b, m')))"

definition SerializeDeltaType_key ::
  "'a::len word \<Rightarrow> 'a word \<Rightarrow> int \<Rightarrow> msg \<Rightarrow> msg_error + 'a word \<times> msg" where
  "SerializeDeltaType_key a b key m =
     (let n = LENGTH('a) div 8 in
      if \<not> IsReading m then
        (let isDiff = (a \<noteq> b) in
         rbind (msg_SerializeBits [of_bool isDiff] 1 m) (\<lambda>(_, m').
           if isDiff then
             (let val = XORType b key in
              rbind (msg_SerializeBits (le_bytes n (unat val)) (8 * int n) m') (\<lambda>(_, m'').
                Inr (b, m'')))
           else Inr (b, m')))
      else
        rbind (msg_SerializeBits [0] 1 m) (\<lambda>(v, m').
          if v ! 0 \<noteq> 0 then
            rbind (msg_SerializeBits (le_bytes n (unat b)) (8 * int n) m') (\<lambda>(b', m'').
              Inr (XORType (of_nat (le_val b')) key, m''))
          else Inr (b, m')))"

text \<open>The specialisation for \<open>bool\<close> sends whether the values are the same.\<close>

definition SerializeDeltaType_bool :: "bool \<Rightarrow> bool \<Rightarrow> int \<Rightarrow> msg \<Rightarrow> msg_error + bool \<times> msg" where
  "SerializeDeltaType_bool a b key m =
     (if \<not> IsReading m then
        (let isSame = (a = b) in
         rbind (msg_SerializeBits [of_bool isSame] 1 m) (\<lambda>(_, m').
           if \<not> isSame then
             (let val = (b \<noteq> (key \<noteq> 0)) in
              rbind (msg_SerializeBits [of_bool val] 1 m') (\<lambda>(_, m''). Inr (b, m'')))
           else Inr (b, m')))
      else
        rbind (msg_SerializeBits [0] 1 m) (\<lambda>(v, m').
          if v ! 0 = 0 then
            rbind (msg_SerializeBits [of_bool b] 1 m') (\<lambda>(b', m'').
              Inr ((b' ! 0 \<noteq> 0) \<noteq> (key \<noteq> 0), m''))
          else Inr (b, m')))"

section \<open>Strings with the character mapping\<close>

text \<open>
  Writing indexes the table with a signed \<open>char\<close>: a character of 128 or more is a negative index.
\<close>

fun write_with_mapping :: "byte list \<Rightarrow> msg \<Rightarrow> msg_error + msg" where
  "write_with_mapping [] m = Inr m"
| "write_with_mapping (c # cs) m =
     (if sint c < 0 then Inl BadBufferAccess
      else rbind (SerializeByte (charByteMapping ! unat c) m) (\<lambda>(_, m'). write_with_mapping cs m'))"

text \<open>Reading stops at a character that is not positive; the block has 1024 bytes, \<open>n\<close> of them left.\<close>

fun read_with_mapping :: "nat \<Rightarrow> byte \<Rightarrow> msg \<Rightarrow> msg_error + byte list \<times> msg" where
  "read_with_mapping n val m =
     rbind (SerializeByte val m) (\<lambda>(val', m').
       let c = byteCharMapping ! unat val' in
       case n of
         0 \<Rightarrow> Inl BadBufferAccess
       | Suc n' \<Rightarrow>
           if sint c > 0 then
             rbind (read_with_mapping n' val' m') (\<lambda>(cs, m''). Inr (c # cs, m''))
           else Inr ([c], m'))"

declare read_with_mapping.simps [simp del]

definition SerializeStringWithMapping ::
  "StringMessage \<Rightarrow> msg \<Rightarrow> msg_error + StringMessage \<times> msg" where
  "SerializeStringWithMapping s m =
     (if \<not> IsReading m then
        (case s of
           None \<Rightarrow> Inl BadBufferAccess
         | Some p \<Rightarrow> rbind (write_with_mapping (c_chars p @ [0]) m) (\<lambda>m'. Inr (s, m')))
      else rbind (read_with_mapping 1024 0 m) (\<lambda>(cs, m'). Inr (Some cs, m')))"

section \<open>What the composed operations send\<close>

definition delta_code :: "'a::len word \<Rightarrow> nat \<Rightarrow> 'a word \<Rightarrow> bool list" where
  "delta_code a n b = (a \<noteq> b) # (if a \<noteq> b then num_code (LENGTH('a) div 8) n (unat b) else [])"

definition delta_key_code :: "'a::len word \<Rightarrow> int \<Rightarrow> nat \<Rightarrow> 'a word \<Rightarrow> bool list" where
  "delta_key_code a key n b =
     (a \<noteq> b) # (if a \<noteq> b then num_code (LENGTH('a) div 8) n (unat (XORType b key)) else [])"

lemma puts_if [wire_intros]:
  "(c \<Longrightarrow> puts f bs) \<Longrightarrow> (\<not> c \<Longrightarrow> puts g cs) \<Longrightarrow>
   puts (\<lambda>m. if c then f m else g m) (if c then bs else cs)"
  by simp

lemma gets_if [wire_intros]:
  "(c \<Longrightarrow> gets f bs x) \<Longrightarrow> (\<not> c \<Longrightarrow> gets g cs y) \<Longrightarrow>
   gets (\<lambda>m. if c then f m else g m) (if c then bs else cs) (if c then x else y)"
  by simp

lemma XORType_XORType [simp]: "XORType (XORType b key) key = b"
  by (simp add: XORType_def xor.assoc)

lemma WriteDeltaType_puts [wire_intros]:
  fixes a b :: "'a::len word"
  assumes "n \<le> 8 * (LENGTH('a) div 8)"
  shows "puts (WriteDeltaType a b n) (delta_code a n b)"
  using puts_bind [OF WriteBool_puts puts_if [OF WriteNumber_puts [OF assms] puts_Inr], of "a \<noteq> b"]
  unfolding WriteDeltaType_def [abs_def] delta_code_def Let_def by simp

lemma ReadDeltaType_gets [wire_intros]:
  fixes a b :: "'a::len word"
  assumes "n \<le> 8 * (LENGTH('a) div 8)"
  shows "gets (ReadDeltaType a n) (delta_code a n b) (if a \<noteq> b then take_bit n b else a)"
  using gets_bind [OF ReadBool_gets,
      where g = "\<lambda>isDiff m'. if isDiff then ReadNumber n m' else Inr (a, m')",
      OF gets_if [OF ReadNumber_gets [OF assms, of b] gets_return], of "a \<noteq> b"]
  unfolding ReadDeltaType_def [abs_def] delta_code_def by simp

lemma WriteDeltaTypeKey_puts [wire_intros]:
  fixes a b :: "'a::len word"
  assumes "n \<le> 8 * (LENGTH('a) div 8)"
  shows "puts (WriteDeltaTypeKey a b key n) (delta_key_code a key n b)"
  using puts_bind [OF WriteBool_puts puts_if [OF WriteNumber_puts [OF assms] puts_Inr], of "a \<noteq> b"]
  unfolding WriteDeltaTypeKey_def [abs_def] delta_key_code_def Let_def by simp

lemma ReadDeltaTypeKey_gets [wire_intros]:
  fixes a b :: "'a::len word"
  assumes "n \<le> 8 * (LENGTH('a) div 8)"
  shows "gets (ReadDeltaTypeKey a key n) (delta_key_code a key n b)
    (if a \<noteq> b then XORType (take_bit n (XORType b key)) key else a)"
proof -
  let ?rd = "\<lambda>m'. rbind (ReadNumber n m') (\<lambda>(val, m''). Inr (XORType val key, m''))"
  have "gets ?rd (num_code (LENGTH('a) div 8) n (unat (XORType b key)))
      (XORType (take_bit n (XORType b key)) key)"
    by (rule gets_map [OF ReadNumber_gets [OF assms], where h = "\<lambda>v. XORType v key"]) simp
  from gets_bind [OF ReadBool_gets, where g = "\<lambda>isDiff m'. if isDiff then ?rd m' else Inr (a, m')",
      OF gets_if [OF this gets_return], of "a \<noteq> b"]
  show ?thesis unfolding ReadDeltaTypeKey_def [abs_def] delta_key_code_def by simp
qed

text \<open>Full-width deltas of a type of whole bytes are exact.\<close>

lemma delta_full:
  fixes a b :: "'a::len word"
  assumes "LENGTH('a) mod 8 = 0"
  shows "puts (WriteDeltaType a b LENGTH('a)) (delta_code a LENGTH('a) b)"
    and "gets (ReadDeltaType a LENGTH('a)) (delta_code a LENGTH('a) b) b"
    and "puts (WriteDeltaTypeKey a b key LENGTH('a)) (delta_key_code a key LENGTH('a) b)"
    and "gets (ReadDeltaTypeKey a key LENGTH('a)) (delta_key_code a key LENGTH('a) b) b"
proof -
  have n: "LENGTH('a) \<le> 8 * (LENGTH('a) div 8)"
    using assms mult_div_mod_eq [of 8 "LENGTH('a)"] by simp
  show "puts (WriteDeltaType a b LENGTH('a)) (delta_code a LENGTH('a) b)"
    "puts (WriteDeltaTypeKey a b key LENGTH('a)) (delta_key_code a key LENGTH('a) b)"
    by (rule WriteDeltaType_puts [OF n] WriteDeltaTypeKey_puts [OF n])+
  show "gets (ReadDeltaType a LENGTH('a)) (delta_code a LENGTH('a) b) b"
    using ReadDeltaType_gets [OF n, of a b] by (cases "a = b") simp_all
  show "gets (ReadDeltaTypeKey a key LENGTH('a)) (delta_key_code a key LENGTH('a) b) b"
    using ReadDeltaTypeKey_gets [OF n, of a key b] by (cases "a = b") simp_all
qed

interpretation wdelta: wire "delta_code a LENGTH('a)" "\<lambda>b. WriteDeltaType a b LENGTH('a)"
    "ReadDeltaType a LENGTH('a)" "\<lambda>_. LENGTH('a) mod 8 = 0" "\<lambda>b. b" for a :: "'a::len word"
  by unfold_locales (rule delta_full, assumption)+

interpretation wdeltakey: wire "delta_key_code a key LENGTH('a)" "\<lambda>b. WriteDeltaTypeKey a b key LENGTH('a)"
    "ReadDeltaTypeKey a key LENGTH('a)" "\<lambda>_. LENGTH('a) mod 8 = 0" "\<lambda>b. b"
    for a :: "'a::len word" and key :: int
  by unfold_locales (rule delta_full, assumption)+

section \<open>Sequences of values\<close>

text \<open>The values a message is made of, and what a reader has to know to read each.\<close>

datatype field =
    FBool bool
  | FByteBool bool
  | FChar byte
  | FByte byte
  | FShort u16
  | FUShort u16
  | FInteger u32
  | FUInteger u32
  | FFloat u32
  | FNumber u32 nat
  | FString StringMessage
  | FScrambled StringMessage
  | FDelta u32 u32 nat
  | FDeltaKey u32 u32 int nat

datatype field_kind =
    KBool | KByteBool | KChar | KByte | KShort | KUShort | KInteger | KUInteger | KFloat
  | KNumber nat | KString | KScrambled | KDelta u32 nat | KDeltaKey u32 int nat

fun kind_of :: "field \<Rightarrow> field_kind" where
  "kind_of (FBool b) = KBool"
| "kind_of (FByteBool b) = KByteBool"
| "kind_of (FChar c) = KChar"
| "kind_of (FByte c) = KByte"
| "kind_of (FShort w) = KShort"
| "kind_of (FUShort w) = KUShort"
| "kind_of (FInteger w) = KInteger"
| "kind_of (FUInteger w) = KUInteger"
| "kind_of (FFloat w) = KFloat"
| "kind_of (FNumber w n) = KNumber n"
| "kind_of (FString s) = KString"
| "kind_of (FScrambled s) = KScrambled"
| "kind_of (FDelta a b n) = KDelta a n"
| "kind_of (FDeltaKey a b key n) = KDeltaKey a key n"

fun put_field :: "field \<Rightarrow> msg \<Rightarrow> msg_error + msg" where
  "put_field (FBool b) = WriteBool b"
| "put_field (FByteBool b) = WriteByteBool b"
| "put_field (FChar c) = WriteChar c"
| "put_field (FByte c) = WriteByte c"
| "put_field (FShort w) = WriteShort w"
| "put_field (FUShort w) = WriteUShort w"
| "put_field (FInteger w) = WriteInteger w"
| "put_field (FUInteger w) = WriteUInteger w"
| "put_field (FFloat w) = WriteFloat w"
| "put_field (FNumber w n) = WriteNumber w n"
| "put_field (FString s) = WriteString s"
| "put_field (FScrambled s) = WriteScrambledString s charByteMapping"
| "put_field (FDelta a b n) = WriteDeltaType a b n"
| "put_field (FDeltaKey a b key n) = WriteDeltaTypeKey a b key n"

definition read_as :: "('a \<Rightarrow> field) \<Rightarrow> (msg \<Rightarrow> msg_error + 'a \<times> msg) \<Rightarrow> msg \<Rightarrow> msg_error + field \<times> msg" where
  "read_as f rd m = rbind (rd m) (\<lambda>(x, m'). Inr (f x, m'))"

fun get_field :: "field_kind \<Rightarrow> msg \<Rightarrow> msg_error + field \<times> msg" where
  "get_field KBool = read_as FBool ReadBool"
| "get_field KByteBool = read_as FByteBool ReadByteBool"
| "get_field KChar = read_as FChar ReadChar"
| "get_field KByte = read_as FByte ReadByte"
| "get_field KShort = read_as FShort ReadShort"
| "get_field KUShort = read_as FUShort ReadUShort"
| "get_field KInteger = read_as FInteger ReadInteger"
| "get_field KUInteger = read_as FUInteger ReadUInteger"
| "get_field KFloat = read_as FFloat ReadFloat"
| "get_field (KNumber n) = read_as (\<lambda>w. FNumber w n) (ReadNumber n)"
| "get_field KString = read_as FString ReadString"
| "get_field KScrambled = read_as FScrambled (ReadScrambledString byteCharMapping)"
| "get_field (KDelta a n) = read_as (\<lambda>b. FDelta a b n) (ReadDeltaType a n)"
| "get_field (KDeltaKey a key n) = read_as (\<lambda>b. FDeltaKey a b key n) (ReadDeltaTypeKey a key n)"

fun get_fields :: "field_kind list \<Rightarrow> msg \<Rightarrow> msg_error + field list \<times> msg" where
  "get_fields [] m = Inr ([], m)"
| "get_fields (k # ks) m =
     rbind (get_field k m) (\<lambda>(x, m'). rbind (get_fields ks m') (\<lambda>(xs, m''). Inr (x # xs, m'')))"

text \<open>The bits of a value, and the value as it arrives.\<close>

fun field_code :: "field \<Rightarrow> bool list" where
  "field_code (FBool b) = [b]"
| "field_code (FByteBool b) = huff_code (of_bool b)"
| "field_code (FChar c) = huff_code c"
| "field_code (FByte c) = huff_code c"
| "field_code (FShort w) = code16 w"
| "field_code (FUShort w) = code16 w"
| "field_code (FInteger w) = code32 w"
| "field_code (FUInteger w) = code32 w"
| "field_code (FFloat w) = code32 w"
| "field_code (FNumber w n) = num_code 4 n (unat w)"
| "field_code (FString s) = string_code s"
| "field_code (FScrambled s) = scrambled_code charByteMapping s"
| "field_code (FDelta a b n) = delta_code a n b"
| "field_code (FDeltaKey a b key n) = delta_key_code a key n b"

definition c_string :: "StringMessage \<Rightarrow> StringMessage" where
  "c_string s = Some (c_chars (case s of None \<Rightarrow> [] | Some p \<Rightarrow> p))"

fun received :: "field \<Rightarrow> field" where
  "received (FNumber w n) = FNumber (take_bit n w) n"
| "received (FString s) = FString (c_string s)"
| "received (FScrambled s) = FScrambled (c_string s)"
| "received (FDelta a b n) = FDelta a (if a \<noteq> b then take_bit n b else a) n"
| "received (FDeltaKey a b key n) =
     FDeltaKey a (if a \<noteq> b then XORType (take_bit n (XORType b key)) key else a) key n"
| "received f = f"

fun field_ok :: "field \<Rightarrow> bool" where
  "field_ok (FNumber w n) = (n \<le> 32)"
| "field_ok (FDelta a b n) = (n \<le> 32)"
| "field_ok (FDeltaKey a b key n) = (n \<le> 32)"
| "field_ok f = True"

lemma put_field_puts: "field_ok f \<Longrightarrow> puts (put_field f) (field_code f)"
  using WriteNumber_puts [where 'a = 32] WriteDeltaType_puts [where 'a = 32]
    WriteDeltaTypeKey_puts [where 'a = 32] WriteByteBool_puts [of True] WriteByteBool_puts [of False]
  by (cases f) (auto intro: wire_intros)

lemma read_as_gets: "gets rd bs x \<Longrightarrow> gets (read_as f rd) bs (f x)"
  using gets_map [of rd bs x "read_as f rd" f] by (simp add: read_as_def)

lemma get_field_gets:
  assumes "field_ok f"
  shows "gets (get_field (kind_of f)) (field_code f) (received f)"
proof (cases f)
  case (FNumber w n)
  then show ?thesis using assms read_as_gets [OF ReadNumber_gets [of n w]] by simp
next
  case (FDelta a b n)
  then show ?thesis
    using assms read_as_gets [OF ReadDeltaType_gets [of n a b], of "\<lambda>b. FDelta a b n"] by simp
next
  case (FDeltaKey a b key n)
  then show ?thesis
    using assms read_as_gets [OF ReadDeltaTypeKey_gets [of n a key b], of "\<lambda>b. FDeltaKey a b key n"]
    by simp
qed (simp_all only: kind_of.simps get_field.simps field_code.simps received.simps c_string_def
    read_as_gets ReadBool_gets ReadByteBool_gets ReadChar_gets ReadByte_gets ReadShort_gets
    ReadUShort_gets ReadInteger_gets ReadUInteger_gets ReadFloat_gets ReadString_gets
    ReadScrambledString_gets)

lemma put_fields_puts:
  "\<forall>f\<in>set fs. field_ok f \<Longrightarrow> puts (put_list put_field fs) (concat (map field_code fs))"
proof (induction fs)
  case Nil
  have "put_list put_field [] = Inr" by (simp add: fun_eq_iff)
  then show ?case by (simp add: puts_Inr)
next
  case (Cons f fs)
  have "put_list put_field (f # fs) = (\<lambda>m. rbind (put_field f m) (put_list put_field fs))"
    by (simp add: fun_eq_iff)
  then show ?case using puts_bind [OF put_field_puts [of f] Cons.IH] Cons.prems by simp
qed

lemma get_fields_gets:
  "\<forall>f\<in>set fs. field_ok f \<Longrightarrow>
   gets (get_fields (map kind_of fs)) (concat (map field_code fs)) (map received fs)"
proof (induction fs)
  case Nil
  have "get_fields [] = (\<lambda>m. Inr ([], m))" by (simp add: fun_eq_iff)
  then show ?case by (simp add: gets_return)
next
  case (Cons f fs)
  let ?g = "\<lambda>x m'. rbind (get_fields (map kind_of fs) m') (\<lambda>(xs, m''). Inr (x # xs, m''))"
  have e: "get_fields (map kind_of (f # fs)) = (\<lambda>m. rbind (get_field (kind_of f) m) (\<lambda>(x, m'). ?g x m'))"
    by (simp add: fun_eq_iff)
  have "gets (get_fields (map kind_of fs)) (concat (map field_code fs)) (map received fs)"
    using Cons by simp
  from gets_map [OF this, where h = "\<lambda>xs. received f # xs" and g = "?g (received f)"]
  have "gets (?g (received f)) (concat (map field_code fs)) (map received (f # fs))" by simp
  from gets_bind [OF get_field_gets [of f], where g = ?g, OF _ this] Cons.prems
  show ?case unfolding e by simp
qed

section \<open>Blocks of bytes and modes\<close>

lemma nat_8_int [simp]: "nat (8 * int k) = 8 * k"
  by (simp add: nat_mult_distrib)

lemma puts_cong: "puts f bs \<Longrightarrow> (\<And>m. m_mode m = msgMode_Writing \<Longrightarrow> f m = g m) \<Longrightarrow> puts g bs"
  unfolding puts_def mw_def by fastforce

lemma gets_cong: "gets f bs x \<Longrightarrow> (\<And>m. IsReading m \<Longrightarrow> f m = g m) \<Longrightarrow> gets g bs x"
  unfolding gets_def mr_def by fastforce

lemma SerializeBits_puts:
  "puts (msg_WriteBits v n) bs \<Longrightarrow> puts (\<lambda>m. rbind (msg_SerializeBits v n m) (\<lambda>(_, m'). Inr m')) bs"
  unfolding puts_def msg_SerializeBits_def mw_def IsReading_def by fastforce

lemma SerializeBits_gets: "gets (msg_ReadBits v n) bs x \<Longrightarrow> gets (msg_SerializeBits v n) bs x"
  unfolding gets_def msg_SerializeBits_def mr_def by simp

lemma enc_bits_whole: "enc_bits b (8 * length b) = concat (map huff_code b)"
  by (simp add: enc_bits_def)

lemma bytes_puts: "puts (msg_WriteBits b (int (8 * length b))) (concat (map huff_code b))"
  using msg_WriteBits_puts [of "int (8 * length b)" b] enc_bits_whole [of b] by simp

lemma bytes_gets:
  assumes "length v = length b"
  shows "gets (msg_ReadBits v (int (8 * length b))) (concat (map huff_code b)) b"
  unfolding gets_def
proof (intro allI impI)
  fix m post
  let ?n = "8 * length b"
  assume m: "mr m (concat (map huff_code b) @ post)" and one: "True \<in> set post"
  have c: "code_bits (bytes_bits b) ?n = concat (map huff_code b)"
    by (metis enc_bits_code enc_bits_whole)
  have q: "byte_count ?n = length b" by simp
  have "mr m (code_bits (bytes_bits b) ?n @ post)" using m unfolding c .
  from msg_ReadBits_next [OF this one, of "int ?n" v] assms q
  obtain out m' where r: "msg_ReadBits v (int ?n) m = Inr (out, m')" "mr m' post"
    "length out = length v" "holds_bits out (bytes_bits b) ?n (length b)"
    by auto
  have "holds_bits b (bytes_bits b) ?n (length b)" by (rule holds_bits_bytes) simp_all
  from holds_bits_unique [OF r(4) this] r(3) assms have "out = b" by simp
  with r show "\<exists>m'. msg_ReadBits v (int ?n) m = Inr (b, m') \<and> mr m' post" by blast
qed

lemma bit_gets: "gets (msg_ReadBits [v] 1) [b] [of_bool b]"
  unfolding gets_def
proof (intro allI impI)
  fix m post
  assume m: "mr m ([b] @ post)" and one: "True \<in> set post"
  have "code_bits [b] 1 = [b]" by (simp add: code_bits_def)
  with m have "mr m (code_bits [b] 1 @ post)" by simp
  from msg_ReadBits_next [OF this one, of 1 "[v]"]
  obtain out m' where r: "msg_ReadBits [v] 1 m = Inr (out, m')" "mr m' post"
    "length out = 1" "holds_bits out [b] 1 1"
    by (auto simp: byte_count_def)
  have "bit (out ! 0) t \<longleftrightarrow> t = 0 \<and> b" if "t < 8" for t
    using r(4) that unfolding holds_bits_def by (cases "t = 0") auto
  then have "out ! 0 = of_bool b"
    by (intro bit_word_eqI) (auto simp: bit_of_bool_iff)
  with r(3) have "out = [of_bool b]" by (cases out) auto
  with r show "\<exists>m'. msg_ReadBits [v] 1 m = Inr ([of_bool b], m') \<and> mr m' post" by blast
qed

lemma bit_puts: "puts (msg_WriteBits [of_bool b] 1) [b]"
  using WriteBool_puts [of b] unfolding WriteBool_def [abs_def] .

text \<open>The two modes of \<open>SerializeDelta\<close> with a key.\<close>

definition sd_writer :: "byte list \<Rightarrow> int \<Rightarrow> byte list \<Rightarrow> msg \<Rightarrow> msg_error + msg" where
  "sd_writer a key b m = rbind (SerializeDelta_key a b key (8 * length b) m) (\<lambda>(_, m'). Inr m')"

lemma sd_key_writes:
  assumes "length a = length b" "b \<noteq> []" "a \<noteq> b"
  shows "puts (sd_writer a key b) (False # concat (map huff_code b))"
proof -
  have sz: "delta_size (8 * length b) = length b"
    using assms(2) by (cases b) (simp_all add: delta_size_def)
  have f: "puts (msg_WriteBits [0] 1) [False]" using bit_puts [of False] by simp
  have "puts (\<lambda>m. rbind (rbind (msg_SerializeBits [0] 1 m) (\<lambda>(_, m'). Inr m'))
      (\<lambda>m'. rbind (msg_SerializeBits b (int (8 * length b)) m') (\<lambda>(_, m''). Inr m'')))
      ([False] @ concat (map huff_code b))"
    by (intro puts_bind SerializeBits_puts f bytes_puts)
  then have "puts (sd_writer a key b) ([False] @ concat (map huff_code b))"
  proof (rule puts_cong)
    fix m :: msg
    assume "m_mode m = msgMode_Writing"
    then show "rbind (rbind (msg_SerializeBits [0] 1 m) (\<lambda>(_, m'). Inr m'))
      (\<lambda>m'. rbind (msg_SerializeBits b (int (8 * length b)) m') (\<lambda>(_, m''). Inr m'')) = sd_writer a key b m"
      using assms sz
      by (simp add: sd_writer_def SerializeDelta_key_def Let_def rbind_assoc case_prod_unfold IsReading_def)
  qed
  then show ?thesis by simp
qed

lemma sd_key_reads:
  assumes "length b0 = length b" "b \<noteq> []"
  shows "gets (SerializeDelta_key a b0 key (8 * length b)) (False # concat (map huff_code b))
    (xor_bytes key b (length b))"
proof -
  let ?n = "int (8 * length b)"
  have sz: "delta_size (8 * length b) = length b"
    using assms(2) by (cases b) (simp_all add: delta_size_def)
  have "gets (\<lambda>m'. rbind (msg_SerializeBits b0 ?n m') (\<lambda>(b', m''). Inr (xor_bytes key b' (length b), m'')))
      (concat (map huff_code b)) (xor_bytes key b (length b))"
    by (rule gets_map [OF SerializeBits_gets [OF bytes_gets [OF assms(1)]]]) simp
  then have body: "gets (\<lambda>m'. rbind (msg_SerializeBits b0 ?n m') (\<lambda>(b', m'').
      if length b' < length b then Inl BadBufferAccess else Inr (xor_bytes key b' (length b), m'')))
      (concat (map huff_code b)) (xor_bytes key b (length b))"
    using SerializeBits_gets [OF bytes_gets [OF assms(1)]] unfolding gets_def by fastforce
  let ?g = "\<lambda>v m'. if v ! 0 = 0 then rbind (msg_SerializeBits b0 ?n m') (\<lambda>(b', m'').
      if length b' < length b then Inl BadBufferAccess else Inr (xor_bytes key b' (length b), m''))
      else Inr (b0, m')"
  have "gets (?g [of_bool False]) (concat (map huff_code b)) (xor_bytes key b (length b))"
    using body by simp
  from gets_bind [OF SerializeBits_gets [OF bit_gets [of 0 False]], where g = ?g, OF this]
  have "gets (\<lambda>m. rbind (msg_SerializeBits [0] 1 m) (\<lambda>(v, m'). ?g v m'))
      (False # concat (map huff_code b)) (xor_bytes key b (length b))" by simp
  then show ?thesis by (rule gets_cong) (simp add: SerializeDelta_key_def Let_def sz)
qed

section \<open>Properties of messages\<close>

text \<open>C11: Any sequence of typed values written to a message over an empty stream with room for it
  (either kind of stream), closed by one bit and flushed, is read back from the start of the
  stream value by value as it was written: booleans, bytes, shorts, integers, floats, partial
  numbers (their low bits), strings and scrambled strings (up to their terminator) and deltas
  with and without a key. No exception is thrown and the loops of string reading return.\<close>

theorem msg_fields_roundtrip:
  assumes "\<forall>f\<in>set fs. field_ok f"
    and "st_invar s" "st_content s = []" "st_room s R"
    and "length (concat (map field_code fs)) + 1 \<le> 8 * R"
  shows "transfer (put_list put_field) (\<lambda>m. get_fields (map kind_of fs) m) fs s =
    Inr (map received fs)"
  by (rule transfer_ok [OF put_fields_puts get_fields_gets]) (use assms in simp_all)

theorem msg_fields_roundtrip_witness:
  "transfer (put_list put_field) (\<lambda>m. get_fields [KBool, KNumber 11, KDeltaKey 5 77 32, KUShort] m)
     [FBool True, FNumber 4095 11, FDeltaKey 5 9 77 32, FUShort 513] (DynS (dyn_new 3)) =
   Inr [FBool True, FNumber 2047 11, FDeltaKey 5 9 77 32, FUShort 513]"
proof -
  have k: "XORType (XORType (9 :: 32 word) 77) 77 = 9" by (rule XORType_XORType)
  have t: "take_bit 11 (4095 :: 32 word) = 2047" by code_simp
  have "\<exists>R. length (concat (map field_code
      [FBool True, FNumber 4095 11, FDeltaKey 5 9 77 32, FUShort 513])) + 1 \<le> 8 * R" (is "\<exists>R. ?l \<le> 8 * R")
    by (rule exI [of _ ?l]) simp
  then obtain R where "?l \<le> 8 * R" by blast
  then show ?thesis
    using msg_fields_roundtrip [of "[FBool True, FNumber 4095 11, FDeltaKey 5 9 77 32, FUShort 513]"
        "DynS (dyn_new 3)" R] by (simp add: k t)
qed

text \<open>A number sent as a delta against \<open>a\<close> with any key and at the full width of its type (one,
  two, four or eight bytes) is received exactly, whatever the reader's previous value is.\<close>

theorem msg_delta_key_roundtrip:
  fixes a b :: "'a::len word"
  assumes "LENGTH('a) mod 8 = 0"
    and "st_invar s" "st_content s = []" "st_room s R"
    and "length (delta_key_code a key LENGTH('a) b) + 1 \<le> 8 * R"
  shows "transfer (\<lambda>b. WriteDeltaTypeKey a b key LENGTH('a)) (ReadDeltaTypeKey a key LENGTH('a)) b s =
    Inr b"
  by (rule wdeltakey.roundtrip [OF assms])

theorem msg_delta_key_roundtrip_witness:
  "transfer (\<lambda>b. WriteDeltaTypeKey (1 :: 16 word) b 12345 16) (ReadDeltaTypeKey (1 :: 16 word) 12345 16) 700
     (DynS (dyn_new 0)) = Inr 700"
  using msg_delta_key_roundtrip [of "DynS (dyn_new 0)"
      "length (delta_key_code (1 :: 16 word) 12345 16 700) + 1" "1 :: 16 word" 12345 700]
  by simp

text \<open>\<open>SerializeDelta\<close> with a key does not do what its comment says (the output will be XORed):
  the writer makes a XORed copy but sends the value itself, and the reader applies the key. A
  changed value therefore arrives XORed with the low byte of the key, and is wrong whenever that
  byte is not zero.\<close>

theorem serialize_delta_key_corrupts:
  assumes "length a = length b" "length b0 = length b" "b \<noteq> []" "a \<noteq> b"
    and "st_invar s" "st_content s = []" "st_room s R"
    and "length (False # concat (map huff_code b)) + 1 \<le> 8 * R"
  shows "transfer (sd_writer a key) (SerializeDelta_key a b0 key (8 * length b)) b s =
      Inr (map (\<lambda>v. v XOR word_of_int key) b) \<and>
    (map (\<lambda>v. v XOR word_of_int key) b = b \<longleftrightarrow> word_of_int key = (0 :: byte))"
proof
  have "transfer (sd_writer a key) (SerializeDelta_key a b0 key (8 * length b)) b s =
      Inr (xor_bytes key b (length b))"
    by (rule transfer_ok [OF sd_key_writes sd_key_reads]) (use assms in simp_all)
  then show "transfer (sd_writer a key) (SerializeDelta_key a b0 key (8 * length b)) b s =
      Inr (map (\<lambda>v. v XOR word_of_int key) b)"
    by (simp add: xor_bytes_def)
  have k: "v XOR k = v \<longleftrightarrow> k = 0" for v k :: byte
    by (auto simp: bit_eq_iff bit_xor_iff)
  obtain v vs where b: "b = v # vs" using assms(3) by (cases b) auto
  show "map (\<lambda>v. v XOR word_of_int key) b = b \<longleftrightarrow> word_of_int key = (0 :: byte)"
  proof
    assume "map (\<lambda>v. v XOR word_of_int key) b = b"
    then have "v XOR word_of_int key = v" by (simp add: b)
    then show "word_of_int key = (0 :: byte)" by (simp only: k)
  qed simp
qed

theorem serialize_delta_key_corrupts_witness:
  "transfer (sd_writer [1, 2] 5) (SerializeDelta_key [1, 2] [0, 0] 5 16) [7, 2] (DynS (dyn_new 0)) =
   Inr [2, 7]"
proof -
  have "(7 :: byte) XOR 5 = 2" "(2 :: byte) XOR 5 = 7" by code_simp+
  then show ?thesis
    using serialize_delta_key_corrupts [of "[1, 2]" "[7, 2]" "[0, 0]" "DynS (dyn_new 0)"
        "length (False # concat (map huff_code [7, 2])) + 1" 5] by simp
qed

section \<open>Reading a message of zero bits to its end\<close>

lemma ReadBool_zeros:
  assumes "m_bitData m = replicate 32 0" "m_codec m = BitCodec" "IsReading m" "m_bit m < 136"
    and "st_GetPosition (m_stream m) \<noteq> 0"
  shows "ReadBool m = Inr (False, m\<lparr>m_bit := m_bit m + 1\<rparr>)"
proof -
  have d: "m_bit m div 8 \<le> 16" using assms(4) by linarith
  have "getBit (replicate 32 0) (m_bit m) = Some (0, m_bit m + 1)"
    using assms(4) by (simp add: getBit_def)
  then have "Bit_Decode [0] 1 (m_bit m, m_stream m, replicate 32 0) =
      Inr ([0], m_bit m + 1, m_stream m, replicate 32 0)"
    using d by (simp add: Bit_Decode_def ReadBits_def Let_def)
  moreover have "m\<lparr>m_bit := m_bit m + 1, m_stream := m_stream m, m_bitData := replicate 32 0\<rparr> =
      m\<lparr>m_bit := m_bit m + 1\<rparr>"
    using assms(1) by (cases m) simp
  ultimately show ?thesis
    using assms by (simp add: ReadBool_def msg_ReadBits_def Let_def)
qed

lemma ReadBool_zeros_end:
  assumes "m_bitData m = replicate 32 0" "m_codec m = BitCodec" "IsReading m" "m_bit m = 136"
    and "st_GetPosition (m_stream m) \<noteq> 0" "st_GetLength (m_stream m) = st_GetPosition (m_stream m)"
  shows "ReadBool m = Inl (StreamError (StreamOverflowException Reading))"
  using assms by (simp add: ReadBool_def msg_ReadBits_def Bit_Decode_def ReadBits_def Let_def blit_def)

lemma get_list_zeros:
  assumes "m_bitData m = replicate 32 0" "m_codec m = BitCodec" "IsReading m" "m_bit m \<le> 136"
    and "st_GetPosition (m_stream m) \<noteq> 0" "st_GetLength (m_stream m) = st_GetPosition (m_stream m)"
  shows "get_list ReadBool n m =
    (if m_bit m + n \<le> 136 then Inr (replicate n False, m\<lparr>m_bit := m_bit m + n\<rparr>)
     else Inl (StreamError (StreamOverflowException Reading)))"
  using assms
proof (induction n arbitrary: m)
  case 0
  then show ?case by (cases m) simp
next
  case (Suc n)
  show ?case
  proof (cases "m_bit m = 136")
    case True
    then show ?thesis using ReadBool_zeros_end [of m] Suc.prems by simp
  next
    case False
    then have "ReadBool m = Inr (False, m\<lparr>m_bit := m_bit m + 1\<rparr>)"
      using Suc.prems by (intro ReadBool_zeros) auto
    moreover have "IsReading (m\<lparr>m_bit := m_bit m + 1\<rparr>)"
      using Suc.prems(3) by (simp add: IsReading_def)
    ultimately show ?thesis
      using Suc.IH [of "m\<lparr>m_bit := m_bit m + 1\<rparr>"] Suc.prems False by simp
  qed
qed

text \<open>A message of 32 zero bytes holds 256 readable bits, but the end-of-stream check of
  \<open>ReadBits\<close> fires as soon as the buffer is all zero: exactly 136 bits can be read, the next read
  throws with 120 bits left.\<close>

theorem msg_zero_tail_throws:
  "\<exists>m. msg_new (FixedS (fixed_new (replicate 32 0) 32 32)) msgMode_Reading = Inr m \<and>
    (\<forall>n. get_list ReadBool n m =
      (if n \<le> 136 then Inr (replicate n False, m\<lparr>m_bit := n\<rparr>)
       else Inl (StreamError (StreamOverflowException Reading))))"
proof -
  let ?s = "(fixed_new (replicate 32 0) 32 32)\<lparr>fs_curPos := 32\<rparr>"
  let ?m = "\<lparr>m_stream = FixedS ?s, m_codec = BitCodec, m_mode = msgMode_Reading, m_bit = 0,
    m_bitData = replicate 32 0\<rparr>"
  have "fixed_Read (fixed_new (replicate 32 0) 32 32) 32 = Inr (replicate 32 0, ?s)"
    by (simp add: fixed_Read_def fixed_new_def)
  then have "msg_new (FixedS (fixed_new (replicate 32 0) 32 32)) msgMode_Reading = Inr ?m"
    by (simp add: msg_new_def msg_Reset_def Let_def fixed_GetLength_def fixed_GetPosition_def
        fixed_new_def blit_def)
  moreover have "get_list ReadBool n ?m =
      (if n \<le> 136 then Inr (replicate n False, ?m\<lparr>m_bit := n\<rparr>)
       else Inl (StreamError (StreamOverflowException Reading)))" for n
    by (subst get_list_zeros)
      (simp_all add: IsReading_def fixed_GetLength_def fixed_GetPosition_def fixed_new_def)
  ultimately show ?thesis by blast
qed

section \<open>Shifted values\<close>

lemma top_bit: "bit v (LENGTH('a) - 1) \<longleftrightarrow> sint v < 0" for v :: "'a::len word"
  using bit_last_iff [of v] by simp

text \<open>The templates \<open>shiftValue\<close> and \<open>unshiftValue\<close> are inverse exactly on the values whose two
  top bits agree, that is on half of the range of the signed type around zero.\<close>

theorem unshift_shift_value:
  fixes v :: "'a::len word"
  assumes "2 \<le> LENGTH('a)"
  shows "unshiftValue (shiftValue v) = v \<longleftrightarrow> bit v (LENGTH('a) - 2) = bit v (LENGTH('a) - 1)"
proof -
  define w where "w = (if 0 \<le> sint v then v else NOT v)"
  have L: "0 < LENGTH('a) - 1" using assms by simp
  have b0: "bit (shiftValue v) 0 \<longleftrightarrow> sint v < 0"
    by (auto simp: shiftValue_def bit_or_iff bit_push_bit_iff simp del: push_bit_Suc)
  have sh: "signed_drop_bit 1 (shiftValue v) = signed_drop_bit 1 (push_bit 1 w)"
  proof (rule bit_word_eqI)
    fix n assume "n < LENGTH('a)"
    then show "bit (signed_drop_bit 1 (shiftValue v)) n = bit (signed_drop_bit 1 (push_bit 1 w)) n"
      using assms by (auto simp: bit_signed_drop_bit_iff shiftValue_def w_def bit_or_iff bit_1_iff
          simp del: push_bit_Suc)
  qed
  have dr: "bit (signed_drop_bit 1 (push_bit 1 w)) n \<longleftrightarrow>
      (if n = LENGTH('a) - 1 then bit w (LENGTH('a) - 2) else bit w n)" if "n < LENGTH('a)" for n
    using that assms
    by (auto simp: bit_signed_drop_bit_iff bit_push_bit_iff numeral_2_eq_2 simp del: push_bit_Suc)
  have wv: "bit w n \<longleftrightarrow> bit v n \<noteq> (sint v < 0)" if "n < LENGTH('a)" for n
    using that by (auto simp: w_def bit_not_iff)
  define x where "x = signed_drop_bit 1 (shiftValue v)"
  have x: "bit x n \<longleftrightarrow> (if n = LENGTH('a) - 1 then bit w (LENGTH('a) - 2) else bit w n)"
    if "n < LENGTH('a)" for n
    unfolding x_def sh by (rule dr [OF that])
  have u: "unshiftValue (shiftValue v) = (if sint v < 0 then NOT x else x)"
    unfolding unshiftValue_def b0 x_def by simp
  have res: "bit (unshiftValue (shiftValue v)) n \<longleftrightarrow>
      (if n = LENGTH('a) - 1 then bit v (LENGTH('a) - 2) else bit v n)" if n: "n < LENGTH('a)" for n
    unfolding u using x [OF n] wv [OF n] wv [of "LENGTH('a) - 2"] n assms
    by (auto simp: bit_not_iff)
  show ?thesis
  proof
    assume "unshiftValue (shiftValue v) = v"
    then show "bit v (LENGTH('a) - 2) = bit v (LENGTH('a) - 1)"
      using res [of "LENGTH('a) - 1"] assms by simp
  next
    assume "bit v (LENGTH('a) - 2) = bit v (LENGTH('a) - 1)"
    then show "unshiftValue (shiftValue v) = v"
      using res by (intro bit_word_eqI) auto
  qed
qed

theorem unshift_shift_value_witness:
  "unshiftValue (shiftValue (-7 :: 32 word)) = -7"
  using unshift_shift_value [of "-7 :: 32 word"] by (simp add: bit_minus_iff)

lemma shift_byte_bits:
  "byte_bits (if c then push_bit 1 v OR 1 else push_bit 1 v) = c # take 7 (byte_bits v)"
proof (rule nth_equalityI)
  fix i assume "i < length (byte_bits (if c then push_bit 1 v OR 1 else push_bit 1 v))"
  then show "byte_bits (if c then push_bit 1 v OR 1 else push_bit 1 v) ! i = (c # take 7 (byte_bits v)) ! i"
    by (cases i) (auto simp: bit_or_iff bit_push_byte bit_1_iff simp del: push_bit_Suc)
qed simp

lemma top_byte_bit: "v AND 128 \<noteq> 0 \<longleftrightarrow> byte_bits v ! 7" for v :: byte
proof -
  have "v AND 128 = (if bit v 7 then 128 else 0)"
  proof (rule bit_word_eqI)
    fix n assume "n < LENGTH(8)"
    have "bit (128 :: byte) n \<longleftrightarrow> n = 7"
      using bit_exp_iff [of 7 n, where 'a = "8 word"] \<open>n < LENGTH(8)\<close>
      by (auto simp: possible_bit_def)
    then show "bit (v AND 128) n = bit (if bit v 7 then 128 else 0 :: byte) n"
      by (auto simp: bit_and_iff)
  qed
  then show ?thesis by simp
qed

lemma shift_loop_bits: "bytes_bits (shift_loop c bs) = take (8 * length bs) (c # bytes_bits bs)"
proof (induction bs arbitrary: c)
  case Nil
  then show ?case by simp
next
  case (Cons v vs)
  have "byte_bits v = take 7 (byte_bits v) @ [byte_bits v ! 7]"
    using take_Suc_conv_app_nth [of 7 "byte_bits v"] by simp
  then have split: "c # bytes_bits (v # vs) =
      (c # take 7 (byte_bits v)) @ (byte_bits v ! 7 # bytes_bits vs)"
    by (metis append_Cons append_Nil append_assoc bytes_bits_Cons)
  have len: "8 * length (v # vs) = length (c # take 7 (byte_bits v)) + 8 * length vs" by simp
  have chunk: "take (length p + n) (p @ q) = p @ take n q" for p q :: "bool list" and n by simp
  have "take (8 * length (v # vs)) (c # bytes_bits (v # vs)) =
      (c # take 7 (byte_bits v)) @ take (8 * length vs) (byte_bits v ! 7 # bytes_bits vs)"
    unfolding split len by (rule chunk)
  then show ?case
    unfolding shift_loop.simps bytes_bits_Cons shift_byte_bits Cons.IH top_byte_bit by simp
qed

lemma unshift_byte_bits:
  "byte_bits (if c then drop_bit 1 v OR 128 else drop_bit 1 v) = drop 1 (byte_bits v) @ [c]"
proof (rule nth_equalityI)
  fix i assume "i < length (byte_bits (if c then drop_bit 1 v OR 128 else drop_bit 1 v))"
  then have i: "i < 8" by simp
  have "bit (128 :: byte) i \<longleftrightarrow> i = 7"
    using bit_exp_iff [of 7 i, where 'a = "8 word"] i by (auto simp: possible_bit_def)
  moreover have "\<not> bit v (Suc 7)" using bit_imp_le_length [of v "Suc 7"] by auto
  ultimately show "byte_bits (if c then drop_bit 1 v OR 128 else drop_bit 1 v) ! i =
      (drop 1 (byte_bits v) @ [c]) ! i"
    using i by (cases "i = 7") (auto simp: bit_or_iff bit_drop_bit_eq nth_append)
qed simp

lemma low_byte_bit: "v AND 1 \<noteq> 0 \<longleftrightarrow> byte_bits v ! 0" for v :: byte
  by (simp add: and_one_eq mod_2_eq_odd bit_0)

lemma unshift_loop_bits:
  "bytes_bits (rev (unshift_loop c bs)) = drop 1 (bytes_bits (rev bs) @ [c])"
proof (induction bs arbitrary: c)
  case Nil
  then show ?case by simp
next
  case (Cons v vs)
  have "byte_bits v = byte_bits v ! 0 # drop 1 (byte_bits v)"
    using Cons_nth_drop_Suc [of 0 "byte_bits v"] by simp
  then have split: "bytes_bits (rev (v # vs)) @ [c] =
      (bytes_bits (rev vs) @ [byte_bits v ! 0]) @ (drop 1 (byte_bits v) @ [c])"
    by (metis append_Cons append_Nil append_assoc bytes_bits_Cons bytes_bits_Nil bytes_bits_append
        rev.simps(2))
  have chunk: "drop 1 (p @ [b]) @ q = drop 1 ((p @ [b]) @ q)" for p q :: "bool list" and b
    by (cases p) simp_all
  have "bytes_bits (rev (unshift_loop c (v # vs))) =
      drop 1 (bytes_bits (rev vs) @ [byte_bits v ! 0]) @ (drop 1 (byte_bits v) @ [c])"
    unfolding unshift_loop.simps rev.simps bytes_bits_append Cons.IH low_byte_bit
    by (simp only: bytes_bits_Cons bytes_bits_Nil append_Nil2 unshift_byte_bits)
  then show ?case unfolding split chunk .
qed

lemma length_shift_loop [simp]: "length (shift_loop c bs) = length bs"
  by (induction bs arbitrary: c) auto

lemma length_unshift_loop [simp]: "length (unshift_loop c bs) = length bs"
  by (induction bs arbitrary: c) auto

text \<open>\<open>shiftValue(void*, size)\<close> tests a bit that its shift has just cleared, so it never
  complements: on every value it only shifts left by one. \<open>unshiftValue(void*, size)\<close> after it
  returns the value with the top bit lost, so exactly the values with a clear top bit (never a
  negative number) survive the round trip.\<close>

theorem shift_value_mem_loses_sign:
  assumes "val \<noteq> []"
  shows "shiftValue_mem val = shift_loop False val \<and>
    bytes_bits (unshiftValue_mem (shiftValue_mem val)) = butlast (bytes_bits val) @ [False] \<and>
    (unshiftValue_mem (shiftValue_mem val) = val \<longleftrightarrow> \<not> bit (last val) 7)"
proof -
  have len: "length (bytes_bits val) > 0" using assms by simp
  have sb: "bytes_bits (shift_loop False val) = False # butlast (bytes_bits val)"
    using shift_loop_bits [of False val] len by (simp add: take_Cons' butlast_conv_take)
  obtain b bs where b: "shift_loop False val = b # bs"
    using assms by (cases val) auto
  have b0: "\<not> bit b 0" using arg_cong [OF sb, of "\<lambda>xs. xs ! 0"] b by (simp add: nth_append)
  then have zero: "b AND 1 = 0" using low_byte_bit [of b] by simp
  have s: "shiftValue_mem val = shift_loop False val"
    using zero b by (simp add: shiftValue_mem_def LittlePointer_def)
  have "bytes_bits (unshiftValue_mem (shiftValue_mem val)) =
      bytes_bits (rev (unshift_loop False (rev (shift_loop False val))))"
    using zero b by (simp add: unshiftValue_mem_def s BigPointer_def)
  also have "\<dots> = drop 1 (bytes_bits (shift_loop False val) @ [False])"
    by (simp add: unshift_loop_bits del: drop_append)
  also have "\<dots> = butlast (bytes_bits val) @ [False]" by (simp add: sb)
  finally have u: "bytes_bits (unshiftValue_mem (shiftValue_mem val)) = butlast (bytes_bits val) @ [False]" .
  have lu: "length (unshiftValue_mem (shiftValue_mem val)) = length val"
    by (simp add: unshiftValue_mem_def s BigPointer_def Let_def)
  obtain ys y where y: "val = ys @ [y]" using assms by (cases val rule: rev_cases) auto
  have "byte_bits y = take 7 (byte_bits y) @ [byte_bits y ! 7]"
    using take_Suc_conv_app_nth [of 7 "byte_bits y"] by simp
  then have vb: "bytes_bits val = (bytes_bits ys @ take 7 (byte_bits y)) @ [bit y 7]"
    using y by (simp del: nth_byte_bits add: nth_byte_bits [of 7 y, symmetric])
  have "unshiftValue_mem (shiftValue_mem val) = val \<longleftrightarrow>
      bytes_bits (unshiftValue_mem (shiftValue_mem val)) = bytes_bits val"
    using bytes_bits_inject [OF lu] by auto
  also have "\<dots> \<longleftrightarrow> \<not> bit (last val) 7"
    unfolding u unfolding vb butlast_snoc by (simp add: y)
  finally show ?thesis using s u by simp
qed

theorem shift_value_mem_loses_sign_witness:
  "unshiftValue_mem (shiftValue_mem [249, 255]) \<noteq> [249, 255] \<and>
   unshiftValue_mem (shiftValue_mem [249, 127]) = [249, 127]"
proof -
  have "bit (255 :: byte) 7" "\<not> bit (127 :: byte) 7" by code_simp+
  moreover have "unshiftValue_mem (shiftValue_mem [249, 255]) = [249, 255] \<longleftrightarrow>
      \<not> bit (last [249, 255 :: byte]) 7"
    by (rule conjunct2 [OF conjunct2 [OF shift_value_mem_loses_sign]]) simp
  moreover have "unshiftValue_mem (shiftValue_mem [249, 127]) = [249, 127] \<longleftrightarrow>
      \<not> bit (last [249, 127 :: byte]) 7"
    by (rule conjunct2 [OF conjunct2 [OF shift_value_mem_loses_sign]]) simp
  ultimately show ?thesis by simp
qed

section \<open>Strings with the character mapping\<close>

definition mapped_ok :: "byte list \<Rightarrow> bool" where
  "mapped_ok p \<longleftrightarrow> (\<forall>c\<in>set p. 0 < sint c) \<and> length p < 1024"

lemma write_with_mapping_puts:
  "\<forall>c\<in>set p. 0 \<le> sint c \<Longrightarrow>
   puts (write_with_mapping p) (concat (map (\<lambda>c. huff_code (charByteMapping ! unat c)) p))"
proof (induction p)
  case Nil
  have "write_with_mapping [] = Inr" by (simp add: fun_eq_iff)
  then show ?case by (simp add: puts_Inr)
next
  case (Cons c cs)
  let ?v = "charByteMapping ! unat c"
  have p: "puts (\<lambda>m. rbind (WriteByte ?v m) (write_with_mapping cs))
      (huff_code ?v @ concat (map (\<lambda>c. huff_code (charByteMapping ! unat c)) cs))"
    using Cons by (intro puts_bind WriteByte_puts) simp
  have "puts (write_with_mapping (c # cs))
      (huff_code ?v @ concat (map (\<lambda>c. huff_code (charByteMapping ! unat c)) cs))"
    by (rule puts_cong [OF p])
      (use Cons.prems in \<open>simp add: SerializeByte_def serialize_def IsReading_def rbind_assoc\<close>)
  then show ?case by (simp only: list.map concat.simps)
qed

lemma read_with_mapping_gets:
  assumes "\<forall>c\<in>set p. 0 < sint c" "length p < n"
  shows "gets (read_with_mapping n v) (concat (map (\<lambda>c. huff_code (charByteMapping ! unat c)) (p @ [0])))
    (p @ [0])"
  using assms
proof (induction p arbitrary: n v)
  case Nil
  then obtain k where n: "n = Suc k" by (cases n) auto
  have z: "byteCharMapping ! unat (charByteMapping ! 0) = 0"
    using byteChar_charByte [of 0] by simp
  show ?case
    unfolding gets_def
  proof (intro allI impI)
    fix m post
    assume m: "mr m (concat (map (\<lambda>c. huff_code (charByteMapping ! unat c)) ([] @ [0])) @ post)"
      and one: "True \<in> set post"
    then have "IsReading m" by (simp add: mr_def)
    moreover obtain m1 where "ReadByte m = Inr (charByteMapping ! 0, m1)" "mr m1 post"
      using gets_step [OF ReadByte_gets, of m "charByteMapping ! 0" post] m one by auto
    ultimately show "\<exists>m'. read_with_mapping n v m = Inr ([] @ [0], m') \<and> mr m' post"
      using z by (simp add: read_with_mapping.simps [of "Suc k"] n SerializeByte_def serialize_def)
  qed
next
  case (Cons c cs)
  then obtain k where n: "n = Suc k" "length cs < k" by (cases n) auto
  let ?v = "charByteMapping ! unat c"
  let ?rest = "concat (map (\<lambda>c. huff_code (charByteMapping ! unat c)) (cs @ [0]))"
  have ih: "gets (read_with_mapping k ?v) ?rest (cs @ [0])" using Cons n(2) by simp
  have step: "\<exists>m1 m2. ReadByte m = Inr (?v, m1) \<and> read_with_mapping k ?v m1 = Inr (cs @ [0], m2) \<and>
      mr m2 post" if "mr m ((huff_code ?v @ ?rest) @ post)" "True \<in> set post" for m post
  proof -
    have m2: "mr m (huff_code ?v @ (?rest @ post))" using that(1) by (simp only: append_assoc)
    have one2: "True \<in> set (?rest @ post)" unfolding set_append using that(2) by blast
    obtain m1 where m1: "ReadByte m = Inr (?v, m1)" "mr m1 (?rest @ post)"
      using gets_step [OF ReadByte_gets [of ?v] m2 one2] by blast
    then show ?thesis using gets_step [OF ih m1(2) that(2)] by blast
  qed
  show ?case
    unfolding gets_def
  proof (intro allI impI)
    fix m post
    assume m: "mr m (concat (map (\<lambda>c. huff_code (charByteMapping ! unat c)) ((c # cs) @ [0])) @ post)"
      and one: "True \<in> set post"
    then have "IsReading m" by (simp add: mr_def)
    moreover obtain m1 m2 where "ReadByte m = Inr (?v, m1)"
      "read_with_mapping k ?v m1 = Inr (cs @ [0], m2)" "mr m2 post"
      using step [of m post] m one by auto
    ultimately show "\<exists>m'. read_with_mapping n v m = Inr ((c # cs) @ [0], m') \<and> mr m' post"
      using Cons.prems(1)
      by (simp add: read_with_mapping.simps [of "Suc k"] n(1) SerializeByte_def serialize_def)
  qed
qed

text \<open>A string of fewer than 1024 characters from 1 to 127 sent with the character mapping is
  received with its terminator, by a loop that stops at the terminator and stays in its block.\<close>

theorem mapped_string_roundtrip:
  assumes "mapped_ok p"
    and "st_invar s" "st_content s = []" "st_room s R"
    and "length (concat (map (\<lambda>c. huff_code (charByteMapping ! unat c)) (p @ [0]))) + 1 \<le> 8 * R"
  shows "transfer (\<lambda>p m. rbind (SerializeStringWithMapping (Some p) m) (\<lambda>(_, m'). Inr m'))
    (SerializeStringWithMapping None) p s = Inr (Some (p @ [0]))"
proof (rule transfer_ok)
  have pos: "\<forall>c\<in>set p. 0 < sint c" and len: "length p < 1024"
    using assms(1) by (auto simp: mapped_ok_def)
  have z: "c_chars p = p"
    using pos unfolding c_chars_def by (auto simp: takeWhile_eq_all_conv)
  have "puts (write_with_mapping (p @ [0]))
      (concat (map (\<lambda>c. huff_code (charByteMapping ! unat c)) (p @ [0])))"
    using pos by (intro write_with_mapping_puts) auto
  then show "puts (\<lambda>m. rbind (SerializeStringWithMapping (Some p) m) (\<lambda>(_, m'). Inr m'))
      (concat (map (\<lambda>c. huff_code (charByteMapping ! unat c)) (p @ [0])))"
  proof (rule puts_cong)
    fix m :: msg
    assume "m_mode m = msgMode_Writing"
    then show "write_with_mapping (p @ [0]) m =
        rbind (SerializeStringWithMapping (Some p) m) (\<lambda>(_, m'). Inr m')"
      using z by (cases "write_with_mapping (p @ [0]) m")
        (simp_all add: SerializeStringWithMapping_def IsReading_def)
  qed
  have "gets (\<lambda>m. rbind (read_with_mapping 1024 0 m) (\<lambda>(cs, m'). Inr (Some cs, m')))
      (concat (map (\<lambda>c. huff_code (charByteMapping ! unat c)) (p @ [0]))) (Some (p @ [0]))"
    by (rule gets_map [OF read_with_mapping_gets [OF pos len]]) simp
  then show "gets (SerializeStringWithMapping None)
      (concat (map (\<lambda>c. huff_code (charByteMapping ! unat c)) (p @ [0]))) (Some (p @ [0]))"
    by (rule gets_cong) (simp add: SerializeStringWithMapping_def)
qed (use assms in auto)

theorem mapped_string_roundtrip_witness:
  "transfer (\<lambda>p m. rbind (SerializeStringWithMapping (Some p) m) (\<lambda>(_, m'). Inr m'))
    (SerializeStringWithMapping None) [72, 105] (DynS (dyn_new 0)) = Inr (Some [72, 105, 0])"
proof -
  have "0 < sint (72 :: byte)" "0 < sint (105 :: byte)" by code_simp+
  then have ok: "mapped_ok [72, 105]" by (simp add: mapped_ok_def)
  let ?l = "length (concat (map (\<lambda>c. huff_code (charByteMapping ! unat c)) ([72, 105 :: byte] @ [0]))) + 1"
  show ?thesis
    using mapped_string_roundtrip [OF ok, of "DynS (dyn_new 0)" ?l] by simp
qed

text \<open>A character of 128 or more in such a string is a negative \<open>char\<close>: the writer then indexes
  its table out of bounds, whatever was written before it.\<close>

theorem mapped_string_negative_index:
  assumes "m_mode m = msgMode_Writing" "m_codec m = BitCodec" "wr_inv R (mstate m)"
    and "length (mw_bits m) + 11 * length p \<le> 8 * R"
    and "\<forall>c\<in>set p. 0 < sint c" "sint c < 0" "\<forall>d\<in>set q. d \<noteq> 0"
  shows "SerializeStringWithMapping (Some (p @ c # q)) m = Inl BadBufferAccess"
proof -
  have app: "write_with_mapping (p @ r) m = rbind (write_with_mapping p m) (write_with_mapping r)" for r m
    by (induction p arbitrary: m) (auto simp: rbind_assoc case_prod_unfold)
  have "length (concat (map (\<lambda>c. huff_code (charByteMapping ! unat c)) p)) \<le> 11 * length p"
    using length_huff_code by (induction p) (auto simp: add_le_mono)
  then have room: "length (mw_bits m) +
      length (concat (map (\<lambda>c. huff_code (charByteMapping ! unat c)) p)) \<le> 8 * R"
    using assms(4) by linarith
  have "puts (write_with_mapping p) (concat (map (\<lambda>c. huff_code (charByteMapping ! unat c)) p))"
    using assms(5) by (intro write_with_mapping_puts) auto
  moreover have "mw R m" using assms(1-3) by (simp add: mw_def)
  ultimately obtain m' where "write_with_mapping p m = Inr m'"
    using room unfolding puts_def by blast
  moreover have "c_chars (p @ c # q) = p @ c # q"
    using assms(5-7) unfolding c_chars_def by (auto simp: takeWhile_eq_all_conv)
  moreover have "write_with_mapping (c # q @ [0]) m' = Inl BadBufferAccess"
    using assms(6) by simp
  moreover have "\<not> IsReading m" using assms(1) by (simp add: IsReading_def)
  ultimately show ?thesis
    using app [of "c # q @ [0]" m] by (simp add: SerializeStringWithMapping_def)
qed

theorem mapped_string_negative_index_witness:
  "\<exists>m. msg_new (DynS (dyn_new 0)) msgMode_Writing = Inr m \<and>
    SerializeStringWithMapping (Some [65, 228]) m = Inl BadBufferAccess"
proof -
  let ?m = "\<lparr>m_stream = DynS (dyn_new 0), m_codec = BitCodec, m_mode = msgMode_Writing, m_bit = 0,
    m_bitData = replicate 32 0\<rparr>"
  have sg: "0 < sint (65 :: byte)" "sint (228 :: byte) < 0" by code_simp+
  have "SerializeStringWithMapping (Some ([65] @ 228 # [])) ?m = Inl BadBufferAccess"
    by (rule mapped_string_negative_index [where R = 2])
      (simp_all add: sg mstate_def mw_bits_def dyn_GetPosition_def dyn_new_def dyn_invar_def dyn_content_def)
  moreover have "msg_new (DynS (dyn_new 0)) msgMode_Writing = Inr ?m" by (simp add: msg_new_def)
  ultimately show ?thesis by simp
qed

end
