(* ===== verification/Netchan.thy ===== *)
theory Netchan
  imports MsgOps
begin

text \<open>
  The channels of \<open>Network/Remote/Channel.cpp\<close>: \<open>Netchan\<close>, which numbers its packets, splits and
  reassembles long ones, and \<open>ConnectionlessChan\<close>. The socket is outside: what it receives is an
  argument, what is sent to it is returned. The fragment stream is a \<open>DynamicDataMessageStream\<close>
  used through its interface.
\<close>

datatype net_error =
    MsgError msg_error
  | BadFragmentLengthException nat
  | HeaderAssertion

definition lift_msg :: "msg_error + 'a \<Rightarrow> net_error + 'a" where
  "lift_msg r = (case r of Inl e \<Rightarrow> Inl (MsgError e) | Inr x \<Rightarrow> Inr x)"

lemma lift_msg_simps [simp]: "lift_msg (Inl e) = Inl (MsgError e)" "lift_msg (Inr x) = Inr x"
  by (simp_all add: lift_msg_def)

definition MAX_PACKETLEN :: nat where "MAX_PACKETLEN = 1400"
definition FRAGMENT_SIZE :: nat where "FRAGMENT_SIZE = MAX_PACKETLEN - 100"
definition FRAGMENT_BIT :: u32 where "FRAGMENT_BIT = push_bit 31 1"

record netchan =
  nc_qport :: u16
  nc_incomingSequence :: u16
  nc_outgoingSequence :: u32
  nc_dropped :: u16
  nc_fragmentSequence :: u16
  nc_fragmentStream :: mstream

definition Netchan_new :: "byte \<Rightarrow> u16 \<Rightarrow> netchan" where
  "Netchan_new fresh inQport =
     \<lparr>nc_qport = inQport, nc_incomingSequence = 0, nc_outgoingSequence = 1, nc_dropped = 0,
      nc_fragmentSequence = 0, nc_fragmentStream = DynS (dyn_new fresh)\<rparr>"

fun st_clear :: "mstream \<Rightarrow> bool \<Rightarrow> mstream" where
  "st_clear (DynS s) freeMemory = DynS (dyn_clear s freeMemory)"
| "st_clear (FixedS s) freeMemory = FixedS s"

definition clearFragment :: "netchan \<Rightarrow> netchan" where
  "clearFragment c = c\<lparr>nc_fragmentStream := st_clear (nc_fragmentStream c) True\<rparr>"

definition getOutgoingSequence :: "netchan \<Rightarrow> u16" where
  "getOutgoingSequence c = ucast (nc_outgoingSequence c)"

section \<open>Headers\<close>

definition writePacketServerHeader :: "mstream \<Rightarrow> u32 \<Rightarrow> net_error + mstream" where
  "writePacketServerHeader stream sequenceNum =
     lift_msg (rbind (msg_new stream msgMode_Writing) (\<lambda>m.
     rbind (WriteUInteger sequenceNum (msg_SetCodec OOBCodec m)) (\<lambda>m1.
     rbind (msg_Flush m1) (\<lambda>m2. Inr (m_stream m2)))))"

definition writePacketHeader_msg :: "netchan \<Rightarrow> msg \<Rightarrow> bool \<Rightarrow> msg_error + msg" where
  "writePacketHeader_msg c m fragmented =
     rbind (if \<not> fragmented then WriteUInteger (nc_outgoingSequence c) m
            else WriteUInteger (nc_outgoingSequence c OR FRAGMENT_BIT) m)
       (\<lambda>m1. WriteShort (nc_qport c) m1)"

text \<open>A message leaves its scope through \<open>Flush\<close>.\<close>

definition writePacketHeader :: "netchan \<Rightarrow> mstream \<Rightarrow> bool \<Rightarrow> net_error + mstream" where
  "writePacketHeader c stream fragmented =
     lift_msg (rbind (msg_new stream msgMode_Writing) (\<lambda>m.
     rbind (writePacketHeader_msg c (msg_SetCodec OOBCodec m) fragmented) (\<lambda>m1.
     rbind (msg_Flush m1) (\<lambda>m2. Inr (m_stream m2)))))"

definition writePacketFragment :: "netchan \<Rightarrow> mstream \<Rightarrow> nat \<Rightarrow> nat \<Rightarrow> net_error + mstream" where
  "writePacketFragment c stream unsentFragmentStart fragmentLength =
     lift_msg (rbind (msg_new stream msgMode_Writing) (\<lambda>m.
     rbind (writePacketHeader_msg c (msg_SetCodec OOBCodec m) True) (\<lambda>m1.
     rbind (WriteUInteger (of_nat unsentFragmentStart) m1) (\<lambda>m2.
     rbind (WriteShort (of_nat fragmentLength) m2) (\<lambda>m3.
     rbind (msg_Flush m3) (\<lambda>m4. Inr (m_stream m4)))))))"

section \<open>Sending\<close>

fun st_reserve :: "mstream \<Rightarrow> nat \<Rightarrow> mstream" where
  "st_reserve (DynS s) n = DynS (dyn_reserve s n)"
| "st_reserve (FixedS s) n = FixedS s"

fun st_getStorage :: "mstream \<Rightarrow> byte list" where
  "st_getStorage (DynS s) = dyn_getStorage s"
| "st_getStorage (FixedS s) = fs_storage s"

text \<open>
  One fragment: the new start offset, whether fragments are left, the datagram sent, the message
  stream and the channel. \<open>unsentLength\<close> is a \<open>uint16_t\<close>.
\<close>

definition transmitNextFragment ::
  "byte \<Rightarrow> netchan \<Rightarrow> mstream \<Rightarrow> nat \<Rightarrow> nat \<Rightarrow>
   net_error + nat \<times> bool \<times> byte list \<times> mstream \<times> netchan" where
  "transmitNextFragment fresh c stream unsentFragmentStart unsentLength =
     (let fragmentLength = (if unsentFragmentStart + FRAGMENT_SIZE > unsentLength
                            then unsentLength - unsentFragmentStart else FRAGMENT_SIZE);
          outputPacket = st_reserve (DynS (dyn_new fresh)) (2 + 4 + 2 + fragmentLength)
      in rbind (writePacketFragment c outputPacket unsentFragmentStart unsentLength) (\<lambda>out1.
         let offset = st_GetPosition out1;
             out2 = st_Seek (st_Seek out1 fragmentLength Current) offset Begin
         in rbind (lift_msg (lift_stream (st_Copy FRAGMENT_SIZE out2 stream fragmentLength)))
              (\<lambda>(out3, stream').
                let packet = take (st_GetLength out3) (st_getStorage out3);
                    start' = unsentFragmentStart + fragmentLength
                in if start' = unsentLength \<and> fragmentLength \<noteq> FRAGMENT_SIZE
                   then Inr (start', False, packet, stream',
                             c\<lparr>nc_outgoingSequence := nc_outgoingSequence c + 1\<rparr>)
                   else Inr (start', True, packet, stream', c))))"

text \<open>
  The loop of \<open>transmit\<close>. A fragment that is not the last one has the full size, so the two bounds
  in the condition always hold there (\<open>transmit_more\<close>); they only show that the recursion ends.
\<close>

function transmit_fragments ::
  "byte \<Rightarrow> netchan \<Rightarrow> mstream \<Rightarrow> nat \<Rightarrow> nat \<Rightarrow>
   net_error + byte list list \<times> mstream \<times> netchan" where
  "transmit_fragments fresh c stream unsentFragmentStart unsentLength =
     rbind (transmitNextFragment fresh c stream unsentFragmentStart unsentLength)
       (\<lambda>(start', unsentFragments, packet, stream', c').
         if unsentFragments \<and> unsentFragmentStart < start' \<and> start' \<le> unsentLength then
           rbind (transmit_fragments fresh c' stream' start' unsentLength)
             (\<lambda>(packets, s'', c''). Inr (packet # packets, s'', c''))
         else Inr ([packet], stream', c'))"
  by pat_completeness auto
termination
  by (relation "measure (\<lambda>(fr, c, s, start, len). len - start)") auto

declare transmit_fragments.simps [simp del]

definition Netchan_transmit ::
  "byte \<Rightarrow> netchan \<Rightarrow> mstream \<Rightarrow> net_error + bool \<times> byte list list \<times> mstream \<times> netchan" where
  "Netchan_transmit fresh c stream =
     (let bufLen = st_GetLength stream in
      if bufLen \<ge> FRAGMENT_SIZE then
        rbind (transmit_fragments fresh c stream 0 (bufLen mod 2 ^ 16)) (\<lambda>(packets, stream', c').
          Inr (True, packets, stream', c'))
      else
        rbind (writePacketHeader c (st_reserve (DynS (dyn_new fresh)) (bufLen + 4 + 2)) False) (\<lambda>new1.
          let headerLen = st_GetLength new1 in
          if headerLen \<noteq> 6 then Inl HeaderAssertion
          else
            (let stream1 = st_Seek stream 0 Begin;
                 new2 = st_Seek (st_Seek new1 bufLen Current) headerLen Begin
             in rbind (lift_msg (lift_stream (st_Copy MAX_PACKETLEN new2 stream1 bufLen)))
                  (\<lambda>(new3, stream2).
                    Inr (True, [take (st_GetLength new3) (st_getStorage new3)], stream2,
                         c\<lparr>nc_outgoingSequence := nc_outgoingSequence c + 1\<rparr>)))))"

section \<open>Receiving\<close>

text \<open>The part of \<open>receive\<close> for a fragment: \<open>None\<close> when more are needed.\<close>

definition receive_fragment ::
  "netchan \<Rightarrow> mstream \<Rightarrow> nat \<Rightarrow> u32 \<Rightarrow> nat \<Rightarrow> nat \<Rightarrow> net_error + mstream option \<times> mstream \<times> netchan" where
  "receive_fragment c0 stream msgPosition sequenceNum fragmentStart fragmentLength =
     (let c = (if sequenceNum \<noteq> ucast (nc_fragmentSequence c0)
               then clearFragment (c0\<lparr>nc_fragmentSequence := ucast sequenceNum\<rparr>) else c0);
          currentFragmentLength = st_GetLength (nc_fragmentStream c)
      in if fragmentStart \<noteq> currentFragmentLength then Inr (None, stream, c)
         else if msgPosition + fragmentLength > st_GetLength stream
           then Inl (BadFragmentLengthException fragmentLength)
         else
           (let stream1 = st_Seek stream msgPosition Begin;
                frag1 = st_Seek (st_Seek (nc_fragmentStream c) fragmentLength Begin)
                          currentFragmentLength Begin
            in rbind (lift_msg (lift_stream (st_Copy FRAGMENT_SIZE frag1 stream1
                        (fragmentLength + st_GetPosition stream1)))) (\<lambda>(frag2, stream2).
               let c1 = c\<lparr>nc_fragmentStream := frag2\<rparr> in
               if fragmentLength = FRAGMENT_SIZE then Inr (None, stream2, c1)
               else
                 rbind (writePacketServerHeader
                          (st_Seek (st_Seek stream2 (st_GetLength frag2) Begin) 0 Begin) sequenceNum)
                   (\<lambda>stream3.
                     let savedPos = st_GetPosition stream3;
                         frag3 = st_Seek frag2 0 Begin
                     in rbind (lift_msg (lift_stream (st_Copy FRAGMENT_SIZE stream3 frag3
                                 (st_GetLength frag3)))) (\<lambda>(stream4, frag4).
                          let stream5 = st_Seek stream4 savedPos Begin
                          in Inr (Some stream5, stream5,
                                  clearFragment (c1\<lparr>nc_fragmentStream := frag4\<rparr>)))))))"

text \<open>
  \<open>datagram\<close> is what the socket gives: nothing, or the sender and the data. The result is the
  returned value, \<open>from\<close>, the stream, \<open>outSeqNum\<close> and the channel.
\<close>

definition Netchan_receive ::
  "netchan \<Rightarrow> 'addr option \<Rightarrow> ('addr \<times> byte list) option \<Rightarrow> mstream \<Rightarrow> u32 \<Rightarrow>
   net_error + bool \<times> 'addr option \<times> mstream \<times> u32 \<times> netchan" where
  "Netchan_receive c from datagram stream outSeqNum =
     (case datagram of
        None \<Rightarrow> Inr (False, from, stream, outSeqNum, c)
      | Some (socketFrom, data) \<Rightarrow>
          if from \<noteq> None \<and> from \<noteq> Some socketFrom then Inr (False, from, stream, outSeqNum, c)
          else
            rbind (lift_msg (lift_stream (st_Write stream data))) (\<lambda>s1.
            rbind (lift_msg (msg_new (st_Seek s1 0 Begin) msgMode_Reading)) (\<lambda>m0.
            rbind (lift_msg (ReadUInteger (msg_SetCodec OOBCodec m0))) (\<lambda>(seq0, m1).
            if seq0 = - 1 then
              Inr (True, Some socketFrom, st_Seek (m_stream m1) 4 Begin, - 1, c)
            else
              (let fragmented = (seq0 AND FRAGMENT_BIT \<noteq> 0);
                   sequenceNum = (if fragmented then seq0 AND NOT FRAGMENT_BIT else seq0)
               in rbind
                    (if fragmented then
                       rbind (lift_msg (ReadUInteger m1)) (\<lambda>(fs, m2).
                       rbind (lift_msg (ReadUShort m2)) (\<lambda>(fl, m3). Inr (unat fs, unat fl, m3)))
                     else Inr (0, 0, m1))
                    (\<lambda>(fragmentStart, fragmentLength, m).
                      if sequenceNum < ucast (nc_incomingSequence c) then
                        Inr (False, Some socketFrom, m_stream m, sequenceNum, c)
                      else
                        (let c1 = c\<lparr>nc_dropped :=
                               ucast (sequenceNum - (ucast (nc_incomingSequence c) + 1))\<rparr>;
                             pos = msg_GetPosition m
                         in if fragmented then
                              rbind (receive_fragment c1 (m_stream m) pos sequenceNum fragmentStart
                                       fragmentLength) (\<lambda>(r, s, c2).
                                case r of
                                  None \<Rightarrow> Inr (False, Some socketFrom, s, sequenceNum, c2)
                                | Some s' \<Rightarrow> Inr (True, Some socketFrom, s', sequenceNum,
                                    c2\<lparr>nc_incomingSequence := ucast sequenceNum\<rparr>))
                            else Inr (True, Some socketFrom, st_Seek (m_stream m) pos Begin, sequenceNum,
                                   c1\<lparr>nc_incomingSequence := ucast sequenceNum\<rparr>))))))))"

section \<open>The connectionless channel\<close>

definition netsrc_Client :: byte where "netsrc_Client = 1"

definition Connectionless_receive :: "mstream \<Rightarrow> net_error + bool \<times> mstream \<times> u32" where
  "Connectionless_receive stream =
     rbind (lift_msg (msg_new stream msgMode_Reading)) (\<lambda>m0.
     rbind (lift_msg (ReadInteger (msg_SetCodec OOBCodec m0))) (\<lambda>(sequenceNum, m1).
     rbind (lift_msg (ReadByte m1)) (\<lambda>(dirByte, m2).
     if dirByte \<noteq> netsrc_Client then Inr (False, m_stream m2, sequenceNum)
     else Inr (True, st_Seek (m_stream m2) 5 Begin, sequenceNum))))"

text \<open>\<open>msgBuf\<close> has \<open>MAX_UDP_DATA_SIZE\<close> bytes.\<close>

definition MAX_UDP_DATA_SIZE :: nat where "MAX_UDP_DATA_SIZE = 65507"

definition Connectionless_transmit :: "mstream \<Rightarrow> net_error + byte list \<times> mstream" where
  "Connectionless_transmit stream =
     (let len = st_GetLength stream in
      if len > MAX_UDP_DATA_SIZE then Inl (MsgError BadBufferAccess)
      else lift_msg (lift_stream (st_Read (st_Seek stream 0 Begin) len)))"

section \<open>Messages with the out-of-band codec\<close>

lemma transmit_more:
  assumes "transmitNextFragment fresh c stream start len = Inr (start', True, packet, stream', c')"
    and "start \<le> len"
  shows "start < start' \<and> start' \<le> len"
  using assms
  by (auto simp: transmitNextFragment_def Let_def FRAGMENT_SIZE_def MAX_PACKETLEN_def split: if_splits)

lemma oob_write:
  assumes "m_codec m = OOBCodec" "IsWriting m" "bits \<in> {8, 16, 32, 64}" "length v = bits div 8"
    and "st_Write (m_stream m) v = Inr s'"
  shows "msg_WriteBits v (int bits) m = Inr (m\<lparr>m_stream := s'\<rparr>)"
proof -
  have "OOB_Encode v bits (m_bit m, m_stream m, m_bitData m) = Inr (m_bit m, s', m_bitData m)"
    using assms(3-5) by (auto simp: OOB_Encode_def Let_def)
  then show ?thesis using assms(1,2) by (simp add: msg_WriteBits_def)
qed

lemma oob_read:
  assumes "m_codec m = OOBCodec" "length (m_bitData m) = 32" "m_bit m = 8 * k"
    and "bits \<in> {8, 16, 32, 64}" "length v = bits div 8" "k + bits div 8 \<le> 16"
    and "st_GetPosition (m_stream m) = 0 \<longrightarrow> st_GetLength (m_stream m) = 0"
  shows "msg_ReadBits v (int bits) m =
    Inr (take (bits div 8) (drop k (m_bitData m)), m\<lparr>m_bit := 8 * k + bits\<rparr>)"
proof -
  let ?n = "bits div 8"
  have b: "bits = 8 * ?n" using assms(4) by auto
  have r: "ReadBits (8 * k + bits) s f = Inr (8 * k + bits, s, f)" if "length f = 32" for s f
    using assms(6) that b by (simp add: ReadBits_def Let_def)
  have "blit v 0 (take ?n (drop k (m_bitData m))) = take ?n (drop k (m_bitData m))"
    using assms(2,5,6) by (simp add: blit_def)
  then have "OOB_Decode v bits (m_bit m, m_stream m, m_bitData m) =
      Inr (take ?n (drop k (m_bitData m)), 8 * k + bits, m_stream m, m_bitData m)"
    using assms(2-6) r [OF assms(2)] by (auto simp: OOB_Decode_def Let_def)
  moreover have "st_Read (m_stream m) 0 = Inr ([], m_stream m)"
    by (cases "m_stream m") (simp_all add: fixed_Read_def dyn_Read_def)
  moreover have "m\<lparr>m_bit := 8 * k + bits, m_stream := m_stream m, m_bitData := m_bitData m\<rparr> =
      m\<lparr>m_bit := 8 * k + bits\<rparr>"
    by (cases m) simp
  ultimately show ?thesis
    using assms(1,7) by (auto simp: msg_ReadBits_def Let_def)
qed

lemma msg_new_oob:
  assumes "st_invar s" "st_GetPosition s = 0" "st_content s = d"
  shows "\<exists>s' m. msg_new s msgMode_Reading = Inr m \<and> m_stream m = s' \<and> st_invar s' \<and>
    st_content s' = d \<and> st_GetPosition s' = min (length d) 32 \<and> st_room s' = st_room s \<and>
    m_bit m = 0 \<and> m_bitData m = take 32 d @ replicate (32 - length d) 0 \<and>
    m_mode m = msgMode_Reading"
proof -
  let ?n = "min (length d) 32"
  have "st_GetPosition s + ?n \<le> length (st_content s)" using assms(2,3) by simp
  from ms.rd_ok [OF assms(1) this] obtain s' where s': "st_Read s ?n = Inr (take ?n d, s')"
    "st_invar s'" "st_content s' = d" "st_GetPosition s' = ?n" "st_room s' = st_room s"
    using assms(2,3) by auto
  have f: "blit (replicate 32 0) 0 (take ?n d) = take 32 d @ replicate (32 - length d) 0"
    by (simp add: blit_def min_def)
  show ?thesis
    using s' f assms(2,3)
    by (simp add: msg_new_def msg_Reset_def st_GetLength_content [OF assms(1)] Let_def)
qed

lemma read_header:
  assumes "m_codec m = OOBCodec" "m_bitData m = take 32 d @ replicate (32 - length d) 0"
    and "m_mode m = msgMode_Reading" "m_bit m = 8 * k"
    and "st_GetPosition (m_stream m) = min (length d) 32" "st_GetLength (m_stream m) = length d"
  shows "k + 4 \<le> 16 \<Longrightarrow> k + 4 \<le> length d \<Longrightarrow>
      ReadUInteger m = Inr (of_nat (le_val (take 4 (drop k d))), m\<lparr>m_bit := 8 * (k + 4)\<rparr>)"
    and "k + 2 \<le> 16 \<Longrightarrow> k + 2 \<le> length d \<Longrightarrow>
      ReadUShort m = Inr (of_nat (le_val (take 2 (drop k d))), m\<lparr>m_bit := 8 * (k + 2)\<rparr>)"
proof -
  have len: "length (m_bitData m) = 32" using assms(2) by simp
  have z: "st_GetPosition (m_stream m) = 0 \<longrightarrow> st_GetLength (m_stream m) = 0"
    using assms(5,6) by (auto simp: min_def split: if_splits)
  have t: "take n (drop k (m_bitData m)) = take n (drop k d)"
    if "k + n \<le> 16" "k + n \<le> length d" for n
  proof -
    have "n \<le> length d - k" "n \<le> 32 - k" using that by linarith+
    then show ?thesis using assms(2) by (simp add: drop_take min_absorb1)
  qed
  show "k + 4 \<le> 16 \<Longrightarrow> k + 4 \<le> length d \<Longrightarrow>
      ReadUInteger m = Inr (of_nat (le_val (take 4 (drop k d))), m\<lparr>m_bit := 8 * (k + 4)\<rparr>)"
    using oob_read [OF assms(1) len assms(4), of 32 "[0, 0, 0, 0]"] z t [of 4] assms(3)
    by (simp add: ReadUInteger_def IsReading_def add.commute)
  show "k + 2 \<le> 16 \<Longrightarrow> k + 2 \<le> length d \<Longrightarrow>
      ReadUShort m = Inr (of_nat (le_val (take 2 (drop k d))), m\<lparr>m_bit := 8 * (k + 2)\<rparr>)"
    using oob_read [OF assms(1) len assms(4), of 16 "[0, 0]"] z t [of 2] assms(3)
    by (simp add: ReadUShort_def IsReading_def add.commute)
qed

lemma le_word_bytes: "le_bytes 4 (unat w) = le_bytes 4 (unat (w :: u32))" ..

lemma of_nat_le_val_u32 [simp]: "of_nat (le_val (le_bytes 4 (unat w))) = (w :: u32)"
proof -
  have "unat w < 256 ^ 4" using unsigned_less [of w] by simp
  then show ?thesis by (simp add: le_val_le_bytes)
qed

lemma of_nat_le_val_u16 [simp]: "of_nat (le_val (le_bytes 2 (unat w))) = (w :: u16)"
proof -
  have "unat w < 256 ^ 2" using unsigned_less [of w] by simp
  then show ?thesis by (simp add: le_val_le_bytes)
qed

section \<open>Properties of the channel\<close>

lemma netchan_receive_accepts:
  assumes "from = None \<or> from = Some addr"
    and "st_invar s" "st_content s = []" "st_room s (4 + length payload)"
    and "seq \<noteq> - 1" "seq AND FRAGMENT_BIT = 0" "ucast (nc_incomingSequence c) \<le> seq"
  shows "\<exists>s' c'. Netchan_receive c from (Some (addr, le_bytes 4 (unat seq) @ payload)) s out =
      Inr (True, Some addr, s', seq, c') \<and>
    st_content s' = le_bytes 4 (unat seq) @ payload \<and> st_GetPosition s' = 4 \<and>
    nc_incomingSequence c' = ucast seq \<and> nc_fragmentStream c' = nc_fragmentStream c"
proof -
  let ?d = "le_bytes 4 (unat seq) @ payload"
  have p0: "st_GetPosition s = 0" using ms.pos_le [OF assms(2)] assms(3) by simp
  have room: "st_room s (st_GetPosition s + length ?d)" using assms(4) p0 by simp
  obtain s1 where s1: "st_Write s ?d = Inr s1" "st_invar s1" "st_content s1 = ?d"
    using ms.write_append [OF assms(2) _ room] p0 assms(3) by auto
  have k: "st_invar (st_Seek s1 0 Begin)" "st_content (st_Seek s1 0 Begin) = ?d"
    "st_GetPosition (st_Seek s1 0 Begin) = 0"
    using ms.sk_ok [OF s1(2), of 0] s1(3) by auto
  obtain s2 m0 where m0: "msg_new (st_Seek s1 0 Begin) msgMode_Reading = Inr m0" "m_stream m0 = s2"
    "st_invar s2" "st_content s2 = ?d" "st_GetPosition s2 = min (length ?d) 32"
    "m_bit m0 = 0" "m_bitData m0 = take 32 ?d @ replicate (32 - length ?d) 0"
    "m_mode m0 = msgMode_Reading"
    using msg_new_oob [OF k(1,3,2)] by blast
  let ?m = "msg_SetCodec OOBCodec m0"
  have rd: "ReadUInteger ?m = Inr (seq, ?m\<lparr>m_bit := 32\<rparr>)"
    using read_header(1) [of ?m ?d 0] m0 st_GetLength_content [OF m0(3)]
    by (simp add: msg_SetCodec_def)
  have pos: "msg_GetPosition (?m\<lparr>m_bit := 32\<rparr>) = 4"
    using m0(2,5) by (simp add: msg_GetPosition_def msg_SetCodec_def Let_def)
  have s3: "st_content (st_Seek s2 4 Begin) = ?d" "st_GetPosition (st_Seek s2 4 Begin) = 4"
    using ms.sk_ok [OF m0(3), of 4] m0(4) by auto
  have "\<not> seq < ucast (nc_incomingSequence c)" using assms(7) by simp
  moreover have "\<not> (from \<noteq> None \<and> from \<noteq> Some addr)" using assms(1) by auto
  ultimately show ?thesis
    using s1(1) m0(1,2) rd pos s3 assms(5,6)
    by (simp add: Netchan_receive_def Let_def msg_SetCodec_def)
qed

text \<open>C23: A packet that is not fragmented and not older than the last one is accepted: the caller
  gets the whole datagram with the position after the sequence number, and the channel remembers
  the low 16 bits of the sequence number. This includes a packet with the number of the last one,
  which the comment in the code says is discarded as a duplicate.\<close>

theorem netchan_receive_whole:
  assumes "from = None \<or> from = Some addr"
    and "st_invar s" "st_content s = []" "st_room s (4 + length payload)"
    and "seq \<noteq> - 1" "seq AND FRAGMENT_BIT = 0" "ucast (nc_incomingSequence c) \<le> seq"
  shows "\<exists>s' c'. Netchan_receive c from (Some (addr, le_bytes 4 (unat seq) @ payload)) s out =
      Inr (True, Some addr, s', seq, c') \<and>
    st_content s' = le_bytes 4 (unat seq) @ payload \<and> st_GetPosition s' = 4 \<and>
    nc_incomingSequence c' = ucast seq \<and> nc_fragmentStream c' = nc_fragmentStream c"
  by (rule netchan_receive_accepts [OF assms])

theorem netchan_receive_whole_witness:
  "\<exists>s' c'. Netchan_receive (Netchan_new 0 99 \<lparr>nc_incomingSequence := 7\<rparr>) (Some (1 :: nat))
      (Some (1, le_bytes 4 (unat (7 :: u32)) @ [10, 20])) (DynS (dyn_new 5)) 0 =
    Inr (True, Some 1, s', 7, c') \<and> st_GetPosition s' = 4"
proof -
  have f: "(7 :: u32) AND FRAGMENT_BIT = 0" unfolding FRAGMENT_BIT_def by code_simp
  have n: "(7 :: u32) \<noteq> - 1" by code_simp
  have u: "ucast (7 :: u16) \<le> (7 :: u32)" by code_simp
  show ?thesis
    using netchan_receive_whole [of "Some (1 :: nat)" 1 "DynS (dyn_new 5)" "[10, 20]" 7
        "Netchan_new 0 99 \<lparr>nc_incomingSequence := 7\<rparr>" 0] f n u
    by (auto simp: Netchan_new_def)
qed

text \<open>C24: A packet of the peer without the fragment bit that is older than the last accepted one is refused and leaves the
  channel as it was, but the last number is kept in 16 bits while packets are numbered with 31: such a
  packet with a number of 65536 or more is never refused, so that on a long connection old packets are
  accepted.\<close>

theorem netchan_order_check:
  assumes "from = None \<or> from = Some addr"
    and "st_invar s" "st_content s = []" "st_room s (4 + length payload)"
    and "seq \<noteq> - 1" "seq AND FRAGMENT_BIT = 0"
  shows "(seq < ucast (nc_incomingSequence c) \<longrightarrow>
      (\<exists>s'. Netchan_receive c from (Some (addr, le_bytes 4 (unat seq) @ payload)) s out =
        Inr (False, Some addr, s', seq, c))) \<and>
    (65536 \<le> seq \<longrightarrow>
      (\<exists>s' c'. Netchan_receive c from (Some (addr, le_bytes 4 (unat seq) @ payload)) s out =
        Inr (True, Some addr, s', seq, c')))"
proof (intro conjI impI)
  let ?d = "le_bytes 4 (unat seq) @ payload"
  assume old: "seq < ucast (nc_incomingSequence c)"
  have p0: "st_GetPosition s = 0" using ms.pos_le [OF assms(2)] assms(3) by simp
  have room: "st_room s (st_GetPosition s + length ?d)" using assms(4) p0 by simp
  obtain s1 where s1: "st_Write s ?d = Inr s1" "st_invar s1" "st_content s1 = ?d"
    using ms.write_append [OF assms(2) _ room] p0 assms(3) by auto
  have k: "st_invar (st_Seek s1 0 Begin)" "st_content (st_Seek s1 0 Begin) = ?d"
    "st_GetPosition (st_Seek s1 0 Begin) = 0"
    using ms.sk_ok [OF s1(2), of 0] s1(3) by auto
  obtain s2 m0 where m0: "msg_new (st_Seek s1 0 Begin) msgMode_Reading = Inr m0" "m_stream m0 = s2"
    "st_invar s2" "st_content s2 = ?d" "st_GetPosition s2 = min (length ?d) 32"
    "m_bit m0 = 0" "m_bitData m0 = take 32 ?d @ replicate (32 - length ?d) 0"
    "m_mode m0 = msgMode_Reading"
    using msg_new_oob [OF k(1,3,2)] by blast
  let ?m = "msg_SetCodec OOBCodec m0"
  have rd: "ReadUInteger ?m = Inr (seq, ?m\<lparr>m_bit := 32\<rparr>)"
    using read_header(1) [of ?m ?d 0] m0 st_GetLength_content [OF m0(3)]
    by (simp add: msg_SetCodec_def)
  have "\<not> (from \<noteq> None \<and> from \<noteq> Some addr)" using assms(1) by auto
  then show "\<exists>s'. Netchan_receive c from (Some (addr, ?d)) s out = Inr (False, Some addr, s', seq, c)"
    using s1(1) m0(1) rd old assms(5,6) by (simp add: Netchan_receive_def Let_def)
next
  assume new: "65536 \<le> seq"
  have "unat (nc_incomingSequence c) < 65536"
    using unsigned_less [of "nc_incomingSequence c"] by simp
  then have "unat (ucast (nc_incomingSequence c) :: u32) < 65536"
    by (simp add: unsigned_ucast_eq take_bit_nat_eq_self)
  moreover have "65536 \<le> unat seq" using new by (simp add: word_le_nat_alt)
  ultimately have "ucast (nc_incomingSequence c) \<le> seq" by (simp add: word_le_nat_alt)
  then show "\<exists>s' c'. Netchan_receive c from (Some (addr, le_bytes 4 (unat seq) @ payload)) s out =
        Inr (True, Some addr, s', seq, c')"
    using netchan_receive_accepts [OF assms(1-6)] by blast
qed

theorem netchan_order_check_witness:
  "(\<exists>s'. Netchan_receive (Netchan_new 0 99 \<lparr>nc_incomingSequence := 7\<rparr>) None
      (Some (1 :: nat, le_bytes 4 (unat (6 :: u32)) @ [10, 20])) (DynS (dyn_new 5)) 0 =
    Inr (False, Some 1, s', 6, Netchan_new 0 99 \<lparr>nc_incomingSequence := 7\<rparr>)) \<and>
   (\<exists>s' c'. Netchan_receive (Netchan_new 0 99 \<lparr>nc_incomingSequence := 65535\<rparr>) None
      (Some (1 :: nat, le_bytes 4 (unat (65536 :: u32)) @ [10, 20])) (DynS (dyn_new 5)) 0 =
    Inr (True, Some 1, s', 65536, c'))"
proof -
  have f: "(6 :: u32) AND FRAGMENT_BIT = 0" "(65536 :: u32) AND FRAGMENT_BIT = 0"
    unfolding FRAGMENT_BIT_def by code_simp+
  have n: "(6 :: u32) \<noteq> - 1" "(65536 :: u32) \<noteq> - 1" by code_simp+
  have u: "(6 :: u32) < ucast (7 :: u16)" by code_simp
  show ?thesis
    using netchan_order_check [of None "1 :: nat" "DynS (dyn_new 5)" "[10, 20]" 6
        "Netchan_new 0 99 \<lparr>nc_incomingSequence := 7\<rparr>" 0]
      netchan_order_check [of None "1 :: nat" "DynS (dyn_new 5)" "[10, 20]" 65536
        "Netchan_new 0 99 \<lparr>nc_incomingSequence := 65535\<rparr>" 0] f n u
    by (simp add: Netchan_new_def)
qed

section \<open>Packets sent\<close>

lemma st_storage_content: "take (st_GetLength s) (st_getStorage s) = st_content s"
  by (cases s) (simp_all add: fixed_GetLength_def fixed_content_def dyn_GetLength_def
      dyn_getStorage_def dyn_content_def)

text \<open>Seeking past the end of a growing stream extends its content by bytes of unknown value.\<close>

lemma dyn_Seek_extends:
  assumes "dyn_invar d"
  shows "dyn_invar (dyn_Seek d n Current) \<and> ds_curPos (dyn_Seek d n Current) = ds_curPos d + n \<and>
    (\<exists>g. dyn_content (dyn_Seek d n Current) = dyn_content d @ g \<and>
      length (dyn_content d @ g) = max (length (dyn_content d)) (ds_curPos d + n))"
proof -
  let ?pos = "ds_curPos d + n"
  consider "?pos \<le> ds_length d" | "ds_length d < ?pos" "?pos \<le> ds_maxLength d" | "ds_maxLength d < ?pos"
    by linarith
  then show ?thesis
  proof cases
    case 1
    then show ?thesis
      using assms by (auto simp: dyn_Seek_def dyn_invar_def dyn_content_def Let_def)
  next
    case 2
    have "take ?pos (ds_storage d) = take (ds_length d) (ds_storage d) @
        take (?pos - ds_length d) (drop (ds_length d) (ds_storage d))"
      using take_add [of "ds_length d" "?pos - ds_length d" "ds_storage d"] 2 by simp
    then show ?thesis
      using assms 2 by (auto simp: dyn_Seek_def dyn_invar_def dyn_content_def Let_def)
  next
    case 3
    let ?st = "ds_storage (dyn_allocate (d\<lparr>ds_curPos := ?pos, ds_length := ?pos\<rparr>) (?pos - ds_maxLength d))"
    have l: "length (ds_storage d) = ds_maxLength d" "ds_length d \<le> ds_maxLength d"
      using assms by (auto simp: dyn_invar_def)
    have st: "?st = ds_storage d @ replicate (ds_maxLength d + 2 * (?pos - ds_maxLength d)) (ds_fresh d)"
      using l by (subst dyn_allocate_storage) auto
    have pos: "?pos \<le> length ?st" using st l 3 by simp
    let ?g = "take (?pos - ds_length d) (drop (ds_length d) ?st)"
    have "?pos = ds_length d + (?pos - ds_length d)" using 3 l by simp
    then have "take ?pos ?st = take (ds_length d) ?st @ ?g"
      using take_add [of "ds_length d" "?pos - ds_length d" ?st] by simp
    moreover have "take (ds_length d) ?st = take (ds_length d) (ds_storage d)"
      unfolding st using l by simp
    ultimately have cont: "take ?pos ?st = dyn_content d @ ?g" by (simp add: dyn_content_def)
    have lg: "length (dyn_content d @ ?g) = ?pos" using arg_cong [OF cont, of length] pos by simp
    have sk: "dyn_Seek d n Current =
        dyn_allocate (d\<lparr>ds_curPos := ?pos, ds_length := ?pos\<rparr>) (?pos - ds_maxLength d)"
      using 3 l by (simp add: dyn_Seek_def Let_def)
    have "dyn_content (dyn_Seek d n Current) = dyn_content d @ ?g"
      unfolding sk using cont by (simp add: dyn_content_def [of "dyn_allocate _ _"])
    moreover have "dyn_invar (dyn_Seek d n Current)"
      unfolding sk using l 3 st by (simp add: dyn_invar_def)
    moreover have "length (dyn_content d) \<le> ?pos" using 3 l by (simp add: dyn_content_def)
    ultimately show ?thesis using lg sk by auto
  qed
qed

text \<open>The preallocation idiom: seek forward and back.\<close>

lemma st_prealloc:
  assumes "st_invar s" "s = DynS d" "st_GetPosition s = length (st_content s)"
  shows "\<exists>g. st_invar (st_Seek (st_Seek s n Current) (st_GetPosition s) Begin) \<and>
    st_content (st_Seek (st_Seek s n Current) (st_GetPosition s) Begin) = st_content s @ g \<and>
    length g = n \<and> st_GetPosition (st_Seek (st_Seek s n Current) (st_GetPosition s) Begin) = st_GetPosition s \<and>
    (\<exists>d'. st_Seek (st_Seek s n Current) (st_GetPosition s) Begin = DynS d')"
proof -
  have inv: "dyn_invar d" using assms by simp
  from dyn_Seek_extends [OF inv, of n] obtain g where g: "dyn_invar (dyn_Seek d n Current)"
    "dyn_content (dyn_Seek d n Current) = dyn_content d @ g"
    "length (dyn_content d @ g) = max (length (dyn_content d)) (ds_curPos d + n)"
    by blast
  have l: "length g = n" using g(3) assms(2,3) by (simp add: dyn_GetPosition_def)
  have "st_invar (DynS (dyn_Seek d n Current))" "ds_curPos d \<le> length (st_content (DynS (dyn_Seek d n Current)))"
    using g l assms(2,3) by (simp_all add: dyn_GetPosition_def)
  from ms.sk_ok [OF this] g(2) l assms(2) show ?thesis
    by (simp add: dyn_GetPosition_def)
qed

definition at_end :: "dyn_stream \<Rightarrow> byte list \<Rightarrow> bool" where
  "at_end d bs \<longleftrightarrow> dyn_invar d \<and> dyn_content d = bs \<and> ds_curPos d = length bs"

lemma oob_append:
  assumes "m_codec m = OOBCodec" "IsWriting m" "bits \<in> {8, 16, 32, 64}" "length v = bits div 8"
    and "m_stream m = DynS d" "at_end d bs"
  shows "\<exists>d'. msg_WriteBits v (int bits) m = Inr (m\<lparr>m_stream := DynS d'\<rparr>) \<and> at_end d' (bs @ v)"
proof -
  obtain d' where d': "dyn_Write d v = Inr d'" "dyn_invar d'" "dyn_content d' = bs @ v"
    "ds_curPos d' = length (dyn_content d')"
    using dynst.write_append [of d v] assms(6) by (auto simp: at_end_def)
  then have "st_Write (m_stream m) v = Inr (DynS d')" by (simp add: assms(5))
  from oob_write [OF assms(1-4) this] d' show ?thesis by (auto simp: at_end_def)
qed

definition header_bytes :: "netchan \<Rightarrow> bool \<Rightarrow> byte list" where
  "header_bytes c fragmented =
     le_bytes 4 (unat (if fragmented then nc_outgoingSequence c OR FRAGMENT_BIT
                       else nc_outgoingSequence c)) @ le_bytes 2 (unat (nc_qport c))"

lemma writePacketHeader_msg_ok:
  assumes "m_codec m = OOBCodec" "m_mode m = msgMode_Writing" "m_stream m = DynS d" "at_end d bs"
  shows "\<exists>d'. writePacketHeader_msg c m fragmented = Inr (m\<lparr>m_stream := DynS d'\<rparr>) \<and>
    at_end d' (bs @ header_bytes c fragmented)"
proof -
  let ?seq = "if fragmented then nc_outgoingSequence c OR FRAGMENT_BIT else nc_outgoingSequence c"
  have w: "IsWriting m" using assms(2) by (simp add: IsWriting_def)
  obtain d1 where d1: "msg_WriteBits (le_bytes 4 (unat ?seq)) 32 m = Inr (m\<lparr>m_stream := DynS d1\<rparr>)"
    "at_end d1 (bs @ le_bytes 4 (unat ?seq))"
    using oob_append [OF assms(1) w, of 32 "le_bytes 4 (unat ?seq)", OF _ _ assms(3,4)] by auto
  obtain d2 where d2: "msg_WriteBits (le_bytes 2 (unat (nc_qport c))) 16 (m\<lparr>m_stream := DynS d1\<rparr>) =
      Inr (m\<lparr>m_stream := DynS d2\<rparr>)"
    "at_end d2 ((bs @ le_bytes 4 (unat ?seq)) @ le_bytes 2 (unat (nc_qport c)))"
    using oob_append [of "m\<lparr>m_stream := DynS d1\<rparr>" 16 "le_bytes 2 (unat (nc_qport c))" d1
        "bs @ le_bytes 4 (unat ?seq)"] d1(2)
      assms(1,2) by (auto simp: IsWriting_def)
  have e: "(if \<not> fragmented then WriteUInteger (nc_outgoingSequence c) m
      else WriteUInteger (nc_outgoingSequence c OR FRAGMENT_BIT) m) = WriteUInteger ?seq m" by simp
  show ?thesis
    unfolding writePacketHeader_msg_def e
    using d1(1) d2 by (auto simp: WriteUInteger_def WriteShort_def header_bytes_def)
qed

lemma writePacketHeader_ok:
  assumes "at_end d []"
  shows "\<exists>d'. writePacketHeader c (DynS d) fragmented = Inr (DynS d') \<and> at_end d' (header_bytes c fragmented)"
proof -
  obtain m where m: "msg_new (DynS d) msgMode_Writing = Inr m" "m_stream m = DynS d"
    "m_mode m = msgMode_Writing" "m_bit m = 0"
    by (simp add: msg_new_def)
  obtain d' where "writePacketHeader_msg c (msg_SetCodec OOBCodec m) fragmented =
      Inr ((msg_SetCodec OOBCodec m)\<lparr>m_stream := DynS d'\<rparr>)" "at_end d' ([] @ header_bytes c fragmented)"
    using writePacketHeader_msg_ok [of "msg_SetCodec OOBCodec m" d "[]"] m assms
    by (auto simp: msg_SetCodec_def)
  with m show ?thesis
    by (auto simp: writePacketHeader_def msg_Flush_def msg_SetCodec_def)
qed

lemma reserved_at_end: "\<exists>d. st_reserve (DynS (dyn_new fresh)) n = DynS d \<and> at_end d []"
  by (simp add: at_end_def dyn_reserve_def dyn_new_def dyn_invar_def dyn_content_def
      dyn_reallocate_def Let_def)

text \<open>Copying a message of \<open>n\<close> bytes from its start behind a header of a preallocated packet.\<close>

lemma copy_packet:
  assumes B: "0 < B" and out: "at_end d hdr" and inp: "st_invar s" "st_GetPosition s = 0"
    "n \<le> length (st_content s)"
  shows "\<exists>out' s'. st_Copy B (st_Seek (st_Seek (DynS d) n Current) (length hdr) Begin) s n = Inr (out', s') \<and>
    st_content out' = hdr @ take n (st_content s) \<and> st_invar s' \<and> st_content s' = st_content s \<and>
    st_GetPosition s' = n \<and> st_GetLength out' = length hdr + n"
proof -
  let ?o = "st_Seek (st_Seek (DynS d) n Current) (length hdr) Begin"
  have d: "st_invar (DynS d)" "st_GetPosition (DynS d) = length (st_content (DynS d))"
    "st_content (DynS d) = hdr"
    using out by (simp_all add: at_end_def dyn_GetPosition_def)
  obtain g where g: "st_invar ?o" "st_content ?o = hdr @ g" "length g = n" "st_GetPosition ?o = length hdr"
    "\<exists>d'. ?o = DynS d'"
    using st_prealloc [OF d(1) refl d(2), of n] d(2,3) by auto
  have room: "st_room ?o (st_GetPosition ?o + (n - st_GetPosition s))"
    using g(5) by auto
  have pos: "st_GetPosition s = min n (0 + 0)" using inp(2) by simp
  obtain out' s' where c: "st_Copy_loop B ?o s n 0 = Inr (out', s')" "st_invar out'" "st_invar s'"
    "st_content s' = st_content s" "st_GetPosition s' = n"
    "st_content out' = blit (st_content ?o) (st_GetPosition ?o)
      (drop (st_GetPosition s) (take n (st_content s)))"
    using st_Copy_loop_ok [OF B inp(1) g(1) inp(3) pos _ room] by auto
  have "st_content out' = hdr @ take n (st_content s)"
    unfolding c(6) g(2,4) using inp(2,3) g(3) by (simp add: blit_def)
  moreover from this have "st_GetLength out' = length hdr + n"
    using st_GetLength_content [OF c(2)] inp(3) by simp
  ultimately show ?thesis using c unfolding st_Copy_def by auto
qed

text \<open>A message below the fragment size is sent as one datagram, the outgoing sequence number,
  the client port and the message, from wherever its stream stands; the sequence number advances.\<close>

theorem netchan_transmit_small:
  assumes "st_invar s" "length (st_content s) < FRAGMENT_SIZE"
  shows "\<exists>s'. Netchan_transmit fresh c s =
    Inr (True, [le_bytes 4 (unat (nc_outgoingSequence c)) @ le_bytes 2 (unat (nc_qport c)) @ st_content s],
      s', c\<lparr>nc_outgoingSequence := nc_outgoingSequence c + 1\<rparr>)"
proof -
  let ?n = "length (st_content s)"
  have n: "st_GetLength s = ?n" by (rule st_GetLength_content [OF assms(1)])
  obtain d0 where d0: "st_reserve (DynS (dyn_new fresh)) (?n + 4 + 2) = DynS d0" "at_end d0 []"
    using reserved_at_end by blast
  obtain d1 where d1: "writePacketHeader c (DynS d0) False = Inr (DynS d1)"
    "at_end d1 (header_bytes c False)"
    using writePacketHeader_ok [OF d0(2)] by blast
  have h: "length (header_bytes c False) = 6" by (simp add: header_bytes_def)
  have l6: "st_GetLength (DynS d1) = 6"
    using d1(2) h by (simp add: at_end_def dyn_GetLength_content)
  have k: "st_invar (st_Seek s 0 Begin)" "st_content (st_Seek s 0 Begin) = st_content s"
    "st_GetPosition (st_Seek s 0 Begin) = 0"
    using ms.sk_ok [OF assms(1), of 0] by auto
  have B: "0 < MAX_PACKETLEN" by (simp add: MAX_PACKETLEN_def)
  obtain out' s' where c: "st_Copy MAX_PACKETLEN (st_Seek (st_Seek (DynS d1) ?n Current) 6 Begin)
      (st_Seek s 0 Begin) ?n = Inr (out', s')" "st_content out' = header_bytes c False @ st_content s"
    using copy_packet [OF B d1(2) k(1,3), of ?n] k(2) h by auto
  have "Netchan_transmit fresh c s = Inr (True, [take (st_GetLength out') (st_getStorage out')], s',
      c\<lparr>nc_outgoingSequence := nc_outgoingSequence c + 1\<rparr>)"
    using assms(2) d0(1) d1(1) l6 c(1) by (simp add: Netchan_transmit_def n Let_def)
  then show ?thesis
    using c(2) by (simp add: st_storage_content header_bytes_def)
qed

theorem netchan_transmit_small_witness:
  "\<exists>s'. Netchan_transmit 0 (Netchan_new 0 513) (FixedS (fixed_new [1, 2, 3] 3 3)) =
    Inr (True, [[1, 0, 0, 0, 1, 2, 1, 2, 3]], s',
      (Netchan_new 0 513)\<lparr>nc_outgoingSequence := 2\<rparr>)"
proof -
  have l: "le_bytes 4 (Suc 0) = [1, 0, 0, 0 :: byte]" "le_bytes 2 513 = [1, 2 :: byte]" by code_simp+
  show ?thesis
    using netchan_transmit_small [of "FixedS (fixed_new [1, 2, 3] 3 3)" 0 "Netchan_new 0 513"]
    by (simp add: FRAGMENT_SIZE_def MAX_PACKETLEN_def Netchan_new_def l fixed_content_def fixed_new_def
        fixed_invar_def)
qed

lemma writePacketFragment_ok:
  assumes "at_end d []"
  shows "\<exists>d' h. writePacketFragment c (DynS d) start len = Inr (DynS d') \<and> at_end d' h \<and> length h = 12"
proof -
  obtain m where m: "msg_new (DynS d) msgMode_Writing = Inr m" "m_stream m = DynS d"
    "m_mode m = msgMode_Writing" "m_bit m = 0"
    by (simp add: msg_new_def)
  let ?m = "msg_SetCodec OOBCodec m"
  have mm: "m_codec ?m = OOBCodec" "m_mode ?m = msgMode_Writing" "m_bit ?m = 0" "m_stream ?m = DynS d"
    "IsWriting ?m"
    using m by (simp_all add: msg_SetCodec_def IsWriting_def)
  obtain d1 where d1: "writePacketHeader_msg c ?m True = Inr (?m\<lparr>m_stream := DynS d1\<rparr>)"
    "at_end d1 (header_bytes c True)"
    using writePacketHeader_msg_ok [OF mm(1,2,4) assms] by auto
  let ?a = "le_bytes 4 (unat (of_nat start :: u32))" and ?b = "le_bytes 2 (unat (of_nat len :: u16))"
  obtain d2 where d2: "msg_WriteBits ?a 32 (?m\<lparr>m_stream := DynS d1\<rparr>) = Inr (?m\<lparr>m_stream := DynS d2\<rparr>)"
    "at_end d2 (header_bytes c True @ ?a)"
    using oob_append [of "?m\<lparr>m_stream := DynS d1\<rparr>" 32 ?a d1 "header_bytes c True"] mm d1(2)
    by (auto simp: IsWriting_def)
  obtain d3 where d3: "msg_WriteBits ?b 16 (?m\<lparr>m_stream := DynS d2\<rparr>) = Inr (?m\<lparr>m_stream := DynS d3\<rparr>)"
    "at_end d3 ((header_bytes c True @ ?a) @ ?b)"
    using oob_append [of "?m\<lparr>m_stream := DynS d2\<rparr>" 16 ?b d2 "header_bytes c True @ ?a"] mm d2(2)
    by (auto simp: IsWriting_def)
  have "writePacketFragment c (DynS d) start len = Inr (DynS d3)"
    using m(1) d1(1) d2(1) d3(1) mm(3)
    by (simp add: writePacketFragment_def WriteUInteger_def WriteShort_def msg_Flush_def)
  moreover have "length ((header_bytes c True @ ?a) @ ?b) = 12" by (simp add: header_bytes_def)
  ultimately show ?thesis using d3(2) by blast
qed

lemma st_Read_overflow:
  assumes "st_invar s" "0 < k" "length (st_content s) + 1 < st_GetPosition s + k"
  shows "st_Read s k = Inl (StreamOverflowException Reading)"
  using assms
  by (cases s) (auto simp: fixed_Read_def dyn_Read_def fixed_content_def dyn_content_def fixed_invar_def
      dyn_invar_def fixed_GetPosition_def dyn_GetPosition_def)

lemma copy_underflow:
  assumes B: "0 < B" "B \<le> 2 ^ 63" and inp: "st_invar inp" and n: "0 < n" "n < st_GetPosition inp"
    and far: "length (st_content inp) + 1 < st_GetPosition inp + B" "st_GetPosition inp < 2 ^ 63"
  shows "st_Copy B out inp n = Inl (StreamOverflowException Reading)"
proof -
  have "sz_sub n (st_GetPosition inp) = n + 2 ^ 64 - st_GetPosition inp"
    using n(2) by (rule sz_sub_wraps)
  then have "min (sz_sub n (st_GetPosition inp)) B = B" using B far(2) by simp
  then show ?thesis
    using st_Read_overflow [OF inp B(1) far(1)] B(1) n(1)
    unfolding st_Copy_def by (subst st_Copy_loop.simps) (simp add: Let_def)
qed

text \<open>C34: A message of 1301 to 2598 bytes, which goes out in two fragments, cannot be sent from the start of its
  stream: \<open>streamHelpers::Copy\<close> computes the amount to copy from the position of its input, which for the
  second fragment is past the fragment's length, so that the subtraction wraps and the read throws
  \<open>StreamOverflowException\<close>.\<close>

theorem netchan_transmit_two_fragments_throws:
  assumes "st_invar s" "st_GetPosition s = 0"
    and "FRAGMENT_SIZE < length (st_content s)" "length (st_content s) + 1 < 2 * FRAGMENT_SIZE"
  shows "Netchan_transmit fresh c s =
    Inl (MsgError (StreamError (StreamOverflowException Reading)))"
proof -
  let ?n = "length (st_content s)"
  have F: "FRAGMENT_SIZE = 1300" by (simp add: FRAGMENT_SIZE_def MAX_PACKETLEN_def)
  have n: "st_GetLength s = ?n" by (rule st_GetLength_content [OF assms(1)])
  have m: "?n mod 2 ^ 16 = ?n" using assms(4) F by simp
  obtain d0 where d0: "st_reserve (DynS (dyn_new fresh)) (2 + 4 + 2 + 1300) = DynS d0" "at_end d0 []"
    using reserved_at_end by blast
  obtain d1 h where d1: "writePacketFragment c (DynS d0) 0 ?n = Inr (DynS d1)" "at_end d1 h" "length h = 12"
    using writePacketFragment_ok [OF d0(2)] by blast
  have p1: "st_GetPosition (DynS d1) = 12" using d1(2,3) by (simp add: at_end_def dyn_GetPosition_def)
  obtain out' s' where c1: "st_Copy FRAGMENT_SIZE (st_Seek (st_Seek (DynS d1) 1300 Current) 12 Begin) s 1300 =
      Inr (out', s')" "st_invar s'" "st_content s' = st_content s" "st_GetPosition s' = 1300"
    using copy_packet [OF _ d1(2) assms(1,2), of FRAGMENT_SIZE 1300] assms(3) F d1(3) by auto
  obtain packet where t1: "transmitNextFragment fresh c s 0 ?n = Inr (1300, True, packet, s', c)"
    using assms(3,4) F d0(1) d1(1) p1 c1(1) by (simp add: transmitNextFragment_def Let_def)
  obtain d2 where d2: "st_reserve (DynS (dyn_new fresh)) (2 + 4 + 2 + (?n - 1300)) = DynS d2" "at_end d2 []"
    using reserved_at_end by blast
  obtain d3 h' where d3: "writePacketFragment c (DynS d2) 1300 ?n = Inr (DynS d3)"
    using writePacketFragment_ok [OF d2(2)] by blast
  have c2: "st_Copy FRAGMENT_SIZE out s' (?n - 1300) = Inl (StreamOverflowException Reading)" for out
    using assms(3,4) F c1(2-4) by (intro copy_underflow) auto
  have t2: "transmitNextFragment fresh c s' 1300 ?n =
      Inl (MsgError (StreamError (StreamOverflowException Reading)))"
    using assms(3,4) F d2(1) d3(1) c2 by (simp add: transmitNextFragment_def Let_def)
  have t3: "transmit_fragments fresh c s' 1300 ?n =
      Inl (MsgError (StreamError (StreamOverflowException Reading)))"
    by (subst transmit_fragments.simps) (simp add: t2)
  have "1300 \<le> ?n" using assms(3) unfolding F by simp
  then have "transmit_fragments fresh c s 0 ?n =
      Inl (MsgError (StreamError (StreamOverflowException Reading)))"
    by (subst transmit_fragments.simps) (simp add: t1 t3)
  then show ?thesis
    using assms(3) unfolding Netchan_transmit_def n m Let_def by simp
qed

theorem netchan_transmit_two_fragments_throws_witness:
  "Netchan_transmit 0 (Netchan_new 0 513) (FixedS (fixed_new (replicate 2000 7) 2000 2000)) =
    Inl (MsgError (StreamError (StreamOverflowException Reading)))"
  by (rule netchan_transmit_two_fragments_throws)
    (simp_all add: FRAGMENT_SIZE_def MAX_PACKETLEN_def fixed_content_def fixed_new_def
      fixed_invar_def fixed_GetPosition_def)

section \<open>Reassembly\<close>

lemma dyn_Seek_Begin_Current: "dyn_Seek d n Begin = dyn_Seek (d\<lparr>ds_curPos := 0\<rparr>) n Current"
  by (simp add: dyn_Seek_def Let_def)

lemma dyn_Seek_Begin_extends:
  assumes "dyn_invar d"
  shows "dyn_invar (dyn_Seek d n Begin) \<and> ds_curPos (dyn_Seek d n Begin) = n \<and>
    (\<exists>g. dyn_content (dyn_Seek d n Begin) = dyn_content d @ g \<and>
      length (dyn_content d @ g) = max (length (dyn_content d)) n)"
proof -
  have "dyn_invar (d\<lparr>ds_curPos := 0\<rparr>)" using assms by (simp add: dyn_invar_def)
  from dyn_Seek_extends [OF this, of n] show ?thesis
    unfolding dyn_Seek_Begin_Current by (simp add: dyn_content_def)
qed

lemma st_Seek_extends:
  assumes "st_invar (DynS d)"
  shows "\<exists>g. st_invar (st_Seek (DynS d) n Begin) \<and> st_content (st_Seek (DynS d) n Begin) = dyn_content d @ g \<and>
    length (dyn_content d @ g) = max (length (dyn_content d)) n \<and>
    (\<exists>d'. st_Seek (DynS d) n Begin = DynS d')"
  using dyn_Seek_Begin_extends [of d n] assms by auto

text \<open>The fragment stream, once the sequence number has been checked, holds \<open>bs\<close>.\<close>

definition frag_ready :: "netchan \<Rightarrow> u32 \<Rightarrow> byte list \<Rightarrow> bool" where
  "frag_ready c seq bs \<longleftrightarrow> (\<exists>d. nc_fragmentStream c = DynS d \<and> dyn_invar d \<and>
     (if seq = ucast (nc_fragmentSequence c) then dyn_content d = bs else bs = []))"

lemma frag_current:
  assumes "frag_ready c seq bs"
  shows "\<exists>d. nc_fragmentStream (if seq \<noteq> ucast (nc_fragmentSequence c)
        then clearFragment (c\<lparr>nc_fragmentSequence := ucast seq\<rparr>) else c) = DynS d \<and>
      dyn_invar d \<and> dyn_content d = bs"
  using assms
  by (auto simp: frag_ready_def clearFragment_def dyn_clear_def dyn_invar_def dyn_content_def Let_def)

lemma st_Read_room: "st_Read s n = Inr (bs, s') \<Longrightarrow> st_room s' = st_room s"
  by (cases s) (auto simp: fixed_Read_def dyn_Read_def fun_eq_iff split: if_splits)

lemma st_Copy_room: "st_Copy_loop B out inp len block = Inr (out', inp') \<Longrightarrow> st_room inp' = st_room inp"
proof (induction B out inp len block rule: st_Copy_loop.induct)
  case (1 B out inp len block)
  show ?case
  proof (cases "block < len \<and> 0 < B")
    case False
    with 1(2) show ?thesis by (subst (asm) st_Copy_loop.simps) auto
  next
    case True
    let ?r = "min (sz_sub len (st_GetPosition inp)) B"
    from 1(2) True obtain buf inp1 out1 where r: "st_Read inp ?r = Inr (buf, inp1)"
      "st_Write out buf = Inr out1" "st_Copy_loop B out1 inp1 len (block + B) = Inr (out', inp')"
      by (subst (asm) st_Copy_loop.simps) (auto simp: Let_def)
    have "st_room inp' = st_room inp1" by (rule 1(1) [OF True refl r(1) refl r(2,3)])
    then show ?thesis using st_Read_room [OF r(1)] by simp
  qed
qed

text \<open>Appending a fragment of \<open>n\<close> bytes that lies at position \<open>p\<close> of the datagram.\<close>

lemma append_fragment:
  assumes d: "dyn_invar d" "dyn_content d = bs" and B: "0 < B"
    and inp: "st_invar s" "p + n = length (st_content s)"
    and first: "bs = [] \<or> n \<le> length bs"
  shows "\<exists>d' s'. st_Copy B (st_Seek (st_Seek (DynS d) n Begin) (length bs) Begin)
        (st_Seek s p Begin) (n + st_GetPosition (st_Seek s p Begin)) = Inr (DynS d', s') \<and>
      dyn_invar d' \<and> dyn_content d' = bs @ drop p (st_content s) \<and> st_invar s' \<and>
      st_content s' = st_content s \<and> st_room s' = st_room s"
proof -
  obtain g d1 where g: "st_Seek (DynS d) n Begin = DynS d1" "st_invar (DynS d1)"
    "st_content (DynS d1) = bs @ g" "length (bs @ g) = max (length bs) n"
    using st_Seek_extends [of d n] d by auto
  have "length bs \<le> length (st_content (DynS d1))" using g(3) by simp
  from ms.sk_ok [OF g(2) this] obtain d2 where d2: "st_Seek (DynS d1) (length bs) Begin = DynS d2"
    "st_invar (DynS d2)" "st_content (DynS d2) = bs @ g" "st_GetPosition (DynS d2) = length bs"
    using g(3) by auto
  have "p \<le> length (st_content s)" using inp(2) by simp
  note k = ms.sk_ok [OF inp(1) this]
  let ?s = "st_Seek s p Begin"
  have len: "n + p \<le> length (st_content ?s)" using inp(2) k by simp
  have pos: "st_GetPosition ?s = min (n + p) (p + 0)" using k by simp
  have ple: "p \<le> n + p" and inv: "st_invar ?s" using k by simp_all
  have room: "st_room (DynS d2) (st_GetPosition (DynS d2) + (n + p - st_GetPosition ?s))" by simp
  obtain out' s' where c: "st_Copy_loop B (DynS d2) ?s (n + p) 0 = Inr (out', s')" "st_invar out'"
    "st_invar s'" "st_content s' = st_content ?s" "st_room out' = st_room (DynS d2)"
    "st_content out' = blit (st_content (DynS d2)) (st_GetPosition (DynS d2))
      (drop (st_GetPosition ?s) (take (n + p) (st_content ?s)))"
    using st_Copy_loop_ok [OF B inv d2(2) len pos ple room] by blast
  have "\<exists>d'. out' = DynS d'"
  proof (cases out')
    case (FixedS f)
    have "st_room out' (Suc (fs_maxLength f))" using c(5) by simp
    with FixedS show ?thesis by simp
  qed simp
  then obtain d' where d': "out' = DynS d'" by blast
  have "st_content out' = bs @ drop p (st_content s)"
  proof -
    have "length g \<le> n" using g(4) first by auto
    then show ?thesis
      unfolding c(6) d2(3,4) using k inp(2) by (auto simp: blit_def)
  qed
  moreover have "st_room s' = st_room s"
    using st_Copy_room [OF c(1)] k by simp
  ultimately show ?thesis
    using c(1-4) d' k g(1) d2(1) by (auto simp: st_Copy_def)
qed

lemma ucast_up_down: "ucast (ucast w :: u32) = (w :: u16)"
  by (rule bit_word_eqI) (simp add: bit_unsigned_iff possible_bit_def)

lemma receive_fragment_full:
  assumes r: "frag_ready c seq bs" and sq: "ucast (ucast seq :: u16) = seq"
    and inp: "st_invar s" "p + FRAGMENT_SIZE = length (st_content s)"
    and first: "bs = [] \<or> FRAGMENT_SIZE \<le> length bs"
  shows "\<exists>s' c'. receive_fragment c s p seq (length bs) FRAGMENT_SIZE = Inr (None, s', c') \<and>
    frag_ready c' seq (bs @ drop p (st_content s)) \<and> nc_incomingSequence c' = nc_incomingSequence c"
proof -
  let ?c = "if seq \<noteq> ucast (nc_fragmentSequence c)
        then clearFragment (c\<lparr>nc_fragmentSequence := ucast seq\<rparr>) else c"
  obtain d where d: "nc_fragmentStream ?c = DynS d" "dyn_invar d" "dyn_content d = bs"
    using frag_current [OF r] by blast
  have F: "0 < FRAGMENT_SIZE" by (simp add: FRAGMENT_SIZE_def MAX_PACKETLEN_def)
  have l: "st_GetLength (DynS d) = length bs" using d by (simp add: dyn_GetLength_content)
  have ls: "st_GetLength s = p + FRAGMENT_SIZE" using st_GetLength_content [OF inp(1)] inp(2) by simp
  obtain d' s' where a: "st_Copy FRAGMENT_SIZE (st_Seek (st_Seek (DynS d) FRAGMENT_SIZE Begin) (length bs) Begin)
        (st_Seek s p Begin) (FRAGMENT_SIZE + st_GetPosition (st_Seek s p Begin)) = Inr (DynS d', s')"
      "dyn_invar d'" "dyn_content d' = bs @ drop p (st_content s)"
    using append_fragment [OF d(2,3) F inp first] by blast
  have "receive_fragment c s p seq (length bs) FRAGMENT_SIZE =
      Inr (None, s', ?c\<lparr>nc_fragmentStream := DynS d'\<rparr>)"
    using d(1) l ls a(1) unfolding receive_fragment_def Let_def by simp
  moreover have "nc_fragmentSequence ?c = ucast seq"
    using ucast_up_down [of "nc_fragmentSequence c"] by (auto simp: clearFragment_def)
  then have "frag_ready (?c\<lparr>nc_fragmentStream := DynS d'\<rparr>) seq (bs @ drop p (st_content s))"
    using a(2,3) sq by (auto simp: frag_ready_def)
  moreover have "nc_incomingSequence ?c = nc_incomingSequence c" by (simp add: clearFragment_def)
  ultimately show ?thesis by (metis (no_types, lifting) netchan.select_convs(2) netchan.surjective
        netchan.update_convs(6))
qed

lemma writePacketServerHeader_ok:
  assumes "st_invar s" "st_GetPosition s = 0" "st_room s 4" "4 \<le> length (st_content s)"
  shows "\<exists>s'. writePacketServerHeader s seq = Inr s' \<and> st_invar s' \<and>
    st_content s' = le_bytes 4 (unat seq) @ drop 4 (st_content s) \<and> st_GetPosition s' = 4 \<and>
    st_room s' = st_room s"
proof -
  let ?v = "le_bytes 4 (unat seq)"
  have "st_room s (st_GetPosition s + length ?v)" using assms(2,3) by simp
  from ms.wr_ok [OF assms(1) this] obtain s' where s': "st_Write s ?v = Inr s'" "st_invar s'"
    "st_content s' = ?v @ drop 4 (st_content s)" "st_GetPosition s' = 4" "st_room s' = st_room s"
    using assms(2) by (auto simp: blit_def)
  let ?m = "\<lparr>m_stream = s, m_codec = OOBCodec, m_mode = msgMode_Writing, m_bit = 0,
    m_bitData = replicate 32 0\<rparr>"
  have "msg_WriteBits ?v 32 ?m = Inr (?m\<lparr>m_stream := s'\<rparr>)"
    using oob_write [of ?m 32 ?v s'] s'(1) by (simp add: IsWriting_def)
  then show ?thesis
    using s' by (simp add: writePacketServerHeader_def msg_new_def msg_SetCodec_def WriteUInteger_def
        msg_Flush_def)
qed

lemma receive_fragment_last:
  assumes r: "frag_ready c seq bs"
    and inp: "st_invar s" "s = DynS ds" "p + n = length (st_content s)" "4 \<le> p"
    and n: "n < FRAGMENT_SIZE" and first: "bs = [] \<or> n \<le> length bs"
  shows "\<exists>s' c'. receive_fragment c s p seq (length bs) n = Inr (Some s', s', c') \<and>
    st_content s' = le_bytes 4 (unat seq) @ (bs @ drop p (st_content s)) @
      drop (4 + (length bs + n)) (st_content s) \<and>
    st_GetPosition s' = 4 \<and> nc_incomingSequence c' = nc_incomingSequence c"
proof -
  let ?c = "if seq \<noteq> ucast (nc_fragmentSequence c)
        then clearFragment (c\<lparr>nc_fragmentSequence := ucast seq\<rparr>) else c"
  let ?msg = "bs @ drop p (st_content s)"
  obtain d where d: "nc_fragmentStream ?c = DynS d" "dyn_invar d" "dyn_content d = bs"
    using frag_current [OF r] by blast
  have F: "0 < FRAGMENT_SIZE" by (simp add: FRAGMENT_SIZE_def MAX_PACKETLEN_def)
  have l: "st_GetLength (DynS d) = length bs" using d by (simp add: dyn_GetLength_content)
  have ls: "st_GetLength s = p + n" using st_GetLength_content [OF inp(1)] inp(3) by simp
  obtain d' s2 where a: "st_Copy FRAGMENT_SIZE (st_Seek (st_Seek (DynS d) n Begin) (length bs) Begin)
        (st_Seek s p Begin) (n + st_GetPosition (st_Seek s p Begin)) = Inr (DynS d', s2)"
      "dyn_invar d'" "dyn_content d' = ?msg" "st_invar s2" "st_content s2 = st_content s"
      "st_room s2 = st_room s"
    using append_fragment [OF d(2,3) F inp(1,3) first] by blast
  have lm: "length ?msg = length bs + n" using inp(3) by simp
  have lg: "st_GetLength (DynS d') = length bs + n" using a(2,3) lm by (simp add: dyn_GetLength_content)
  obtain d2 where d2: "s2 = DynS d2"
  proof (cases s2)
    case (FixedS f)
    have "st_room s2 (Suc (fs_maxLength f))" using a(6) inp(2) by simp
    with FixedS show thesis by simp
  qed (rule that)
  have "st_invar (DynS d2)" using a(4) d2 by simp
  from st_Seek_extends [OF this, of "length bs + n"] obtain g d3 where g:
    "st_Seek s2 (length bs + n) Begin = DynS d3" "st_invar (DynS d3)"
    "st_content (DynS d3) = st_content s @ g"
    "length (st_content s @ g) = max (length (st_content s)) (length bs + n)"
    using a(5) d2 by auto
  let ?s3 = "st_Seek (DynS d3) 0 Begin"
  have k3: "st_invar ?s3" "st_content ?s3 = st_content s @ g" "st_GetPosition ?s3 = 0"
    "st_room ?s3 = st_room (DynS d3)"
    using ms.sk_ok [OF g(2), of 0] g(3) by auto
  have "st_room ?s3 4" "4 \<le> length (st_content ?s3)" using inp(3,4) k3(2) by simp_all
  from writePacketServerHeader_ok [OF k3(1,3) this] obtain s4 where s4:
    "writePacketServerHeader ?s3 seq = Inr s4" "st_invar s4" "st_GetPosition s4 = 4"
    "st_content s4 = le_bytes 4 (unat seq) @ drop 4 (st_content s @ g)" "st_room s4 = st_room ?s3"
    using k3(2) by auto
  let ?f = "st_Seek (DynS d') 0 Begin"
  have kf: "st_invar ?f" "st_content ?f = ?msg" "st_GetPosition ?f = 0"
    using ms.sk_ok [of "DynS d'" 0] a(2,3) by auto
  have lf: "st_GetLength ?f = length bs + n" using st_GetLength_content [OF kf(1)] kf(2) lm by simp
  have le: "length bs + n \<le> length (st_content ?f)" using kf(2) lm by simp
  have pos: "st_GetPosition ?f = min (length bs + n) (0 + 0)" using kf(3) by simp
  have room: "st_room s4 (st_GetPosition s4 + (length bs + n - st_GetPosition ?f))"
    using s4(5) k3(4) by simp
  obtain s5 f5 where c: "st_Copy_loop FRAGMENT_SIZE s4 ?f (length bs + n) 0 = Inr (s5, f5)" "st_invar s5"
    "st_content s5 = blit (st_content s4) (st_GetPosition s4)
      (drop (st_GetPosition ?f) (take (length bs + n) (st_content ?f)))"
    using st_Copy_loop_ok [OF F kf(1) s4(2) le pos le0 room] by blast
  have c5: "st_content s5 = le_bytes 4 (unat seq) @ ?msg @ drop (4 + (length bs + n)) (st_content s @ g)"
  proof -
    have "blit (h @ drop 4 x) 4 m = h @ m @ drop (4 + length m) x" if "length h = 4" for h m x :: "byte list"
      using that by (simp add: blit_def add.commute)
    from this [of "le_bytes 4 (unat seq)" "st_content s @ g" ?msg]
    show ?thesis unfolding c(3) s4(3,4) kf(2,3) lm using lm by simp
  qed
  have "drop (4 + (length bs + n)) (st_content s @ g) = drop (4 + (length bs + n)) (st_content s)"
    using g(4) by (auto simp: max_def split: if_splits)
  note c5 = c5 [unfolded this]
  have k6: "st_content (st_Seek s5 4 Begin) = st_content s5" "st_GetPosition (st_Seek s5 4 Begin) = 4"
    using ms.sk_ok [OF c(2), of 4] c5 by auto
  have "receive_fragment c s p seq (length bs) n = Inr (Some (st_Seek s5 4 Begin), st_Seek s5 4 Begin,
      clearFragment (?c\<lparr>nc_fragmentStream := f5\<rparr>))"
    using d(1) l ls a(1) lg g(1) s4(1,3) lf c(1) n
    unfolding receive_fragment_def Let_def by (simp add: st_Copy_def clearFragment_def)
  moreover have "nc_incomingSequence (clearFragment (?c\<lparr>nc_fragmentStream := f5\<rparr>)) = nc_incomingSequence c"
    by (simp add: clearFragment_def)
  ultimately show ?thesis using k6 c5 by auto
qed

text \<open>A fragment as a server sends it, and a message as its fragments.\<close>

definition frag_datagram :: "u32 \<Rightarrow> nat \<Rightarrow> byte list \<Rightarrow> byte list" where
  "frag_datagram seq start chunk =
     le_bytes 4 (unat (seq OR FRAGMENT_BIT)) @ le_bytes 4 start @ le_bytes 2 (length chunk) @ chunk"

fun fragments :: "u32 \<Rightarrow> nat \<Rightarrow> byte list list \<Rightarrow> byte list \<Rightarrow> byte list list" where
  "fragments seq start [] l = [frag_datagram seq start l]"
| "fragments seq start (x # xs) l = frag_datagram seq start x # fragments seq (start + length x) xs l"

text \<open>The loop of \<open>ServerChannel\<close>: a fresh stream for each datagram, the callback for each packet.\<close>

definition MINIMUM_RECEIVE_BUFFER_SIZE :: nat where "MINIMUM_RECEIVE_BUFFER_SIZE = 1024"

fun receive_packets ::
  "byte \<Rightarrow> 'addr \<Rightarrow> netchan \<Rightarrow> byte list list \<Rightarrow> net_error + (mstream \<times> u32) list \<times> netchan" where
  "receive_packets fresh adr c [] = Inr ([], c)"
| "receive_packets fresh adr c (p # ps) =
     rbind (Netchan_receive c (Some adr) (Some (adr, p))
              (st_reserve (DynS (dyn_new fresh)) MINIMUM_RECEIVE_BUFFER_SIZE) 0)
       (\<lambda>(ok, _, stream, sequenceNum, c').
         rbind (receive_packets fresh adr c' ps) (\<lambda>(out, c'').
           Inr ((if ok then [(stream, sequenceNum)] else []) @ out, c'')))"

declare receive_packets.simps(2) [simp del]

lemma fragment_bit_cleared:
  assumes "seq AND FRAGMENT_BIT = 0"
  shows "(seq OR FRAGMENT_BIT) AND FRAGMENT_BIT = FRAGMENT_BIT"
    and "(seq OR FRAGMENT_BIT) AND NOT FRAGMENT_BIT = seq" and "FRAGMENT_BIT \<noteq> 0"
proof -
  show "(seq OR FRAGMENT_BIT) AND FRAGMENT_BIT = FRAGMENT_BIT"
    by (auto simp: bit_eq_iff bit_and_iff bit_or_iff)
  have "bit seq n \<Longrightarrow> \<not> bit FRAGMENT_BIT n" for n
    using arg_cong [OF assms, of "\<lambda>w. bit w n"] by (auto simp: bit_and_iff)
  then show "(seq OR FRAGMENT_BIT) AND NOT FRAGMENT_BIT = seq"
    by (auto simp: bit_eq_iff bit_and_iff bit_or_iff bit_not_iff bit_imp_possible_bit)
  show "FRAGMENT_BIT \<noteq> 0" unfolding FRAGMENT_BIT_def by code_simp
qed

lemma receive_fragment_datagram:
  assumes sq: "seq AND FRAGMENT_BIT = 0" "seq OR FRAGMENT_BIT \<noteq> - 1"
    and inc: "ucast (nc_incomingSequence c) \<le> seq"
    and st: "start < 2 ^ 32" "length chunk < 2 ^ 16"
    and s: "at_end d []"
  shows "\<exists>d' dr. Netchan_receive c (Some adr) (Some (adr, frag_datagram seq start chunk)) (DynS d) out =
      rbind (receive_fragment (c\<lparr>nc_dropped := dr\<rparr>) (DynS d') 10 seq start (length chunk)) (\<lambda>(r, s, c2).
        case r of
          None \<Rightarrow> Inr (False, Some adr, s, seq, c2)
        | Some s' \<Rightarrow> Inr (True, Some adr, s', seq, c2\<lparr>nc_incomingSequence := ucast seq\<rparr>)) \<and>
    dyn_invar d' \<and> dyn_content d' = frag_datagram seq start chunk"
proof -
  let ?d = "frag_datagram seq start chunk"
  have s0: "st_invar (DynS d)" "st_content (DynS d) = []" "st_GetPosition (DynS d) = 0"
    using s by (simp_all add: at_end_def dyn_GetPosition_def)
  have room: "st_room (DynS d) (st_GetPosition (DynS d) + length ?d)" by simp
  obtain s1 where s1: "st_Write (DynS d) ?d = Inr s1" "st_invar s1" "st_content s1 = ?d"
    "st_room s1 = st_room (DynS d)"
    using ms.write_append [OF s0(1) _ room] s0(2,3) by auto
  have k: "st_invar (st_Seek s1 0 Begin)" "st_content (st_Seek s1 0 Begin) = ?d"
    "st_GetPosition (st_Seek s1 0 Begin) = 0" "st_room (st_Seek s1 0 Begin) = st_room (DynS d)"
    using ms.sk_ok [OF s1(2), of 0] s1(3,4) by auto
  obtain s2 m0 where m0: "msg_new (st_Seek s1 0 Begin) msgMode_Reading = Inr m0" "m_stream m0 = s2"
    "st_invar s2" "st_content s2 = ?d" "st_GetPosition s2 = min (length ?d) 32"
    "m_bit m0 = 0" "m_bitData m0 = take 32 ?d @ replicate (32 - length ?d) 0"
    "m_mode m0 = msgMode_Reading" "st_room s2 = st_room (DynS d)"
    using msg_new_oob [OF k(1,3,2)] k(4) by (metis (no_types, lifting))
  obtain d' where d': "s2 = DynS d'"
  proof (cases s2)
    case (FixedS f)
    have "st_room s2 (Suc (fs_maxLength f))" using m0(9) by simp
    with FixedS show thesis by simp
  qed (rule that)
  let ?m = "msg_SetCodec OOBCodec m0"
  have ld: "length ?d = 10 + length chunk" by (simp add: frag_datagram_def)
  have base: "m_codec ?m = OOBCodec" "m_bitData ?m = take 32 ?d @ replicate (32 - length ?d) 0"
    "m_mode ?m = msgMode_Reading" "st_GetPosition (m_stream ?m) = min (length ?d) 32"
    "st_GetLength (m_stream ?m) = length ?d" "m_bit ?m = 0" "m_stream ?m = s2"
    using m0 st_GetLength_content [OF m0(3)] by (simp_all add: msg_SetCodec_def)
  have r1: "ReadUInteger ?m = Inr (seq OR FRAGMENT_BIT, ?m\<lparr>m_bit := 32\<rparr>)"
    using read_header(1) [OF base(1-3) _ base(4,5), of 0] ld base(6) by (simp add: frag_datagram_def)
  have r2: "ReadUInteger (?m\<lparr>m_bit := 32\<rparr>) = Inr (of_nat start, ?m\<lparr>m_bit := 64\<rparr>)"
    using read_header(1) [of "?m\<lparr>m_bit := 32\<rparr>" ?d 4] ld base st(1)
    by (simp add: frag_datagram_def le_val_le_bytes)
  have r3: "ReadUShort (?m\<lparr>m_bit := 64\<rparr>) = Inr (of_nat (length chunk), ?m\<lparr>m_bit := 80\<rparr>)"
    using read_header(2) [of "?m\<lparr>m_bit := 64\<rparr>" ?d 8] ld base st(2)
    by (simp add: frag_datagram_def le_val_le_bytes)
  have pos: "msg_GetPosition (?m\<lparr>m_bit := 80\<rparr>) = 10"
    using base(4) by (auto simp: msg_GetPosition_def Let_def)
  have u: "unat (of_nat start :: u32) = start" "unat (of_nat (length chunk) :: u16) = length chunk"
    using st by (simp_all add: unat_of_nat)
  have "\<not> seq < ucast (nc_incomingSequence c)" using inc by simp
  then have "Netchan_receive c (Some adr) (Some (adr, ?d)) (DynS d) out =
      rbind (receive_fragment (c\<lparr>nc_dropped := ucast (seq - (ucast (nc_incomingSequence c) + 1))\<rparr>)
        s2 10 seq start (length chunk)) (\<lambda>(r, s, c2).
        case r of
          None \<Rightarrow> Inr (False, Some adr, s, (seq OR FRAGMENT_BIT) AND NOT FRAGMENT_BIT, c2)
        | Some s' \<Rightarrow> Inr (True, Some adr, s', (seq OR FRAGMENT_BIT) AND NOT FRAGMENT_BIT,
            c2\<lparr>nc_incomingSequence := ucast ((seq OR FRAGMENT_BIT) AND NOT FRAGMENT_BIT)\<rparr>))"
    using s1(1) m0(1) r1 r2 r3 pos u base(7) sq(2) fragment_bit_cleared [OF sq(1)]
    by (simp add: Netchan_receive_def Let_def del: st_Write.simps)
  note this [unfolded fragment_bit_cleared(2) [OF sq(1)]]
  then show ?thesis using d' m0(3,4) by auto
qed

lemma receive_packets_step:
  assumes sq: "seq AND FRAGMENT_BIT = 0" "seq OR FRAGMENT_BIT \<noteq> - 1" "ucast (ucast seq :: u16) = seq"
    and inc: "ucast (nc_incomingSequence c) \<le> seq"
    and st: "length bs < 2 ^ 32" "length x = FRAGMENT_SIZE"
    and r: "frag_ready c seq bs" and first: "bs = [] \<or> FRAGMENT_SIZE \<le> length bs"
  shows "\<exists>c'. receive_packets fresh adr c (frag_datagram seq (length bs) x # ps) =
      receive_packets fresh adr c' ps \<and> frag_ready c' seq (bs @ x) \<and>
    nc_incomingSequence c' = nc_incomingSequence c"
proof -
  have F: "FRAGMENT_SIZE = 1300" by (simp add: FRAGMENT_SIZE_def MAX_PACKETLEN_def)
  have x: "length x < 2 ^ 16" using st(2) F by simp
  obtain d where d: "st_reserve (DynS (dyn_new fresh)) MINIMUM_RECEIVE_BUFFER_SIZE = DynS d" "at_end d []"
    using reserved_at_end by blast
  obtain d' dr where e: "Netchan_receive c (Some adr) (Some (adr, frag_datagram seq (length bs) x)) (DynS d) 0 =
      rbind (receive_fragment (c\<lparr>nc_dropped := dr\<rparr>) (DynS d') 10 seq (length bs) (length x)) (\<lambda>(r, s, c2).
        case r of
          None \<Rightarrow> Inr (False, Some adr, s, seq, c2)
        | Some s' \<Rightarrow> Inr (True, Some adr, s', seq, c2\<lparr>nc_incomingSequence := ucast seq\<rparr>))"
    "dyn_invar d'" "dyn_content d' = frag_datagram seq (length bs) x"
    using receive_fragment_datagram [OF sq(1,2) inc st(1) x d(2), of adr 0]
    by (elim exE conjE) (rule that)
  have r': "frag_ready (c\<lparr>nc_dropped := dr\<rparr>) seq bs" using r by (simp add: frag_ready_def)
  have s: "st_invar (DynS d')" "10 + FRAGMENT_SIZE = length (st_content (DynS d'))"
    "drop 10 (st_content (DynS d')) = x"
    using e(2,3) st(2) by (simp_all add: frag_datagram_def)
  obtain s' c' where f: "receive_fragment (c\<lparr>nc_dropped := dr\<rparr>) (DynS d') 10 seq (length bs) FRAGMENT_SIZE =
      Inr (None, s', c')" "frag_ready c' seq (bs @ x)" "nc_incomingSequence c' = nc_incomingSequence c"
    using receive_fragment_full [OF r' sq(3) s(1,2) first] s(3) by auto
  have "rbind (receive_packets fresh adr c' ps) (\<lambda>(out, c''). Inr ([] @ out, c'')) =
      receive_packets fresh adr c' ps"
    by (cases "receive_packets fresh adr c' ps") auto
  then have "receive_packets fresh adr c (frag_datagram seq (length bs) x # ps) = receive_packets fresh adr c' ps"
    using e(1) f(1) st(2) d(1) by (simp add: receive_packets.simps(2))
  with f(2,3) show ?thesis by blast
qed

lemma receive_packets_last:
  assumes sq: "seq AND FRAGMENT_BIT = 0" "seq OR FRAGMENT_BIT \<noteq> - 1"
    and inc: "ucast (nc_incomingSequence c) \<le> seq"
    and st: "length bs < 2 ^ 32" "length l < FRAGMENT_SIZE"
    and r: "frag_ready c seq bs" and first: "bs = [] \<or> FRAGMENT_SIZE \<le> length bs"
  shows "\<exists>s c'. receive_packets fresh adr c [frag_datagram seq (length bs) l] = Inr ([(s, seq)], c') \<and>
    st_content s = le_bytes 4 (unat seq) @ (bs @ l) @
      drop (4 + length (bs @ l)) (frag_datagram seq (length bs) l) \<and>
    st_GetPosition s = 4 \<and> nc_incomingSequence c' = ucast seq"
proof -
  have F: "FRAGMENT_SIZE = 1300" by (simp add: FRAGMENT_SIZE_def MAX_PACKETLEN_def)
  have x: "length l < 2 ^ 16" using st(2) F by simp
  obtain d where d: "st_reserve (DynS (dyn_new fresh)) MINIMUM_RECEIVE_BUFFER_SIZE = DynS d" "at_end d []"
    using reserved_at_end by blast
  obtain d' dr where e: "Netchan_receive c (Some adr) (Some (adr, frag_datagram seq (length bs) l)) (DynS d) 0 =
      rbind (receive_fragment (c\<lparr>nc_dropped := dr\<rparr>) (DynS d') 10 seq (length bs) (length l)) (\<lambda>(r, s, c2).
        case r of
          None \<Rightarrow> Inr (False, Some adr, s, seq, c2)
        | Some s' \<Rightarrow> Inr (True, Some adr, s', seq, c2\<lparr>nc_incomingSequence := ucast seq\<rparr>))"
    "dyn_invar d'" "dyn_content d' = frag_datagram seq (length bs) l"
    using receive_fragment_datagram [OF sq(1,2) inc st(1) x d(2), of adr 0]
    by (elim exE conjE) (rule that)
  have r': "frag_ready (c\<lparr>nc_dropped := dr\<rparr>) seq bs" using r by (simp add: frag_ready_def)
  have s: "st_invar (DynS d')" "10 + length l = length (st_content (DynS d'))"
    "drop 10 (st_content (DynS d')) = l" "(4 :: nat) \<le> 10" "bs = [] \<or> length l \<le> length bs"
    using e(2,3) first st(2) by (auto simp: frag_datagram_def)
  obtain s' c' where f: "receive_fragment (c\<lparr>nc_dropped := dr\<rparr>) (DynS d') 10 seq (length bs) (length l) =
      Inr (Some s', s', c')"
    "st_content s' = le_bytes 4 (unat seq) @ (bs @ l) @ drop (4 + (length bs + length l)) (frag_datagram seq (length bs) l)"
    "st_GetPosition s' = 4"
    using receive_fragment_last [OF r' s(1) refl s(2,4) st(2) s(5)] s(3) e(3) by auto
  have "receive_packets fresh adr c [frag_datagram seq (length bs) l] =
      Inr ([(s', seq)], c'\<lparr>nc_incomingSequence := ucast seq\<rparr>)"
    using e(1) f(1) d(1) by (simp add: receive_packets.simps(2))
  with f(2,3) show ?thesis by (auto simp: add.assoc)
qed

lemma fragments_received:
  assumes "seq AND FRAGMENT_BIT = 0" "seq OR FRAGMENT_BIT \<noteq> - 1" "ucast (ucast seq :: u16) = seq"
    and "ucast (nc_incomingSequence c) \<le> seq" "frag_ready c seq bs"
    and "\<forall>x\<in>set xs. length x = FRAGMENT_SIZE" "length l < FRAGMENT_SIZE"
    and "length bs + length (concat xs) < 2 ^ 32" "bs = [] \<or> FRAGMENT_SIZE \<le> length bs"
  shows "\<exists>s c'. receive_packets fresh adr c (fragments seq (length bs) xs l) = Inr ([(s, seq)], c') \<and>
    st_content s = le_bytes 4 (unat seq) @ (bs @ concat xs @ l) @
      drop (4 + length (bs @ concat xs @ l)) (frag_datagram seq (length (bs @ concat xs)) l) \<and>
    st_GetPosition s = 4 \<and> nc_incomingSequence c' = ucast seq"
  using assms(4-9)
proof (induction xs arbitrary: c bs)
  case Nil
  then show ?case using receive_packets_last [OF assms(1,2) Nil(1) _ _ Nil(2)] by simp
next
  case (Cons x xs)
  have l32: "length bs < 2 ^ 32" using Cons.prems(5) by simp
  have lx: "length x = FRAGMENT_SIZE" using Cons.prems(3) by simp
  obtain c' where c': "receive_packets fresh adr c (frag_datagram seq (length bs) x #
        fragments seq (length (bs @ x)) xs l) = receive_packets fresh adr c' (fragments seq (length (bs @ x)) xs l)"
      "frag_ready c' seq (bs @ x)" "nc_incomingSequence c' = nc_incomingSequence c"
    using receive_packets_step [OF assms(1-3) Cons.prems(1) l32 lx Cons.prems(2,6),
        where fresh = fresh and adr = adr and ps = "fragments seq (length (bs @ x)) xs l"]
    by (elim exE conjE) (rule that)
  have "ucast (nc_incomingSequence c') \<le> seq" using Cons.prems(1) c'(3) by simp
  moreover have "\<forall>x\<in>set xs. length x = FRAGMENT_SIZE" using Cons.prems(3) by simp
  moreover have "length (bs @ x) + length (concat xs) < 2 ^ 32" using Cons.prems(5) by simp
  moreover have "bs @ x = [] \<or> FRAGMENT_SIZE \<le> length (bs @ x)" using lx by simp
  ultimately obtain s c'' where
    "receive_packets fresh adr c' (fragments seq (length (bs @ x)) xs l) = Inr ([(s, seq)], c'')"
    "st_content s = le_bytes 4 (unat seq) @ ((bs @ x) @ concat xs @ l) @
      drop (4 + length ((bs @ x) @ concat xs @ l)) (frag_datagram seq (length ((bs @ x) @ concat xs)) l)"
    "st_GetPosition s = 4" "nc_incomingSequence c'' = ucast seq"
    using Cons.IH [of c' "bs @ x"] c'(2) Cons.prems(4) by blast
  moreover have "fragments seq (length bs) (x # xs) l =
      frag_datagram seq (length bs) x # fragments seq (length (bs @ x)) xs l" by simp
  ultimately show ?case
    using c'(1) by (simp only: concat.simps append_assoc) (intro exI conjI; (assumption | rule refl)?)
qed

text \<open>C4: The fragments of a message, received in order on a channel that has seen nothing newer and
  whose sequence number fits in 16 bits, are put together: the intermediate fragments deliver
  nothing, the last one delivers the message behind its sequence number. When a single short
  fragment is the whole message, the last six bytes of its datagram are delivered after it.\<close>

theorem netchan_reassembly:
  assumes "seq AND FRAGMENT_BIT = 0" "seq OR FRAGMENT_BIT \<noteq> - 1" "ucast (ucast seq :: u16) = seq"
    and "ucast (nc_incomingSequence c) \<le> seq" "frag_ready c seq []"
    and "\<forall>x\<in>set xs. length x = FRAGMENT_SIZE" "length l < FRAGMENT_SIZE"
    and "length (concat xs) < 2 ^ 32"
  shows "\<exists>s c'. receive_packets fresh adr c (fragments seq 0 xs l) = Inr ([(s, seq)], c') \<and>
    st_content s = le_bytes 4 (unat seq) @ concat xs @ l @
      (if xs = [] then drop (4 + length l) (frag_datagram seq 0 l) else []) \<and>
    st_GetPosition s = 4 \<and> nc_incomingSequence c' = ucast seq"
proof -
  have "drop (4 + length (concat xs @ l)) (frag_datagram seq (length (concat xs)) l) =
      (if xs = [] then drop (4 + length l) (frag_datagram seq 0 l) else [])"
  proof (cases xs)
    case (Cons x ys)
    then have "1300 \<le> length (concat xs)" using assms(6) by (simp add: FRAGMENT_SIZE_def MAX_PACKETLEN_def)
    then show ?thesis using Cons by (simp add: frag_datagram_def)
  qed simp
  then show ?thesis
    using fragments_received [OF assms(1-5), of xs l fresh adr] assms(6-8) by simp
qed

theorem netchan_reassembly_witness:
  "\<exists>s c'. receive_packets 0 (1 :: nat) (Netchan_new 0 9) (fragments 5 0 [replicate 1300 7] [8, 9]) =
      Inr ([(s, 5)], c') \<and>
    st_content s = le_bytes 4 5 @ replicate 1300 7 @ [8, 9] \<and> st_GetPosition s = 4"
proof -
  have f: "(5 :: u32) AND FRAGMENT_BIT = 0" "(5 :: u32) OR FRAGMENT_BIT \<noteq> - 1"
    unfolding FRAGMENT_BIT_def by code_simp+
  have u: "ucast (ucast (5 :: u32) :: u16) = (5 :: u32)" by code_simp
  have r: "frag_ready (Netchan_new 0 9) 5 []"
    by (simp add: frag_ready_def Netchan_new_def)
  have i: "ucast (nc_incomingSequence (Netchan_new 0 9)) \<le> (5 :: u32)" by (simp add: Netchan_new_def)
  show ?thesis
    using netchan_reassembly [OF f u i r, of "[replicate 1300 7]" "[8, 9]" 0 "1 :: nat"]
    by (auto simp: FRAGMENT_SIZE_def MAX_PACKETLEN_def simp del: replicate.simps)
qed

end
