(* ===== verification/Reliable.thy ===== *)
theory Reliable
  imports Msg
begin

text \<open>
  The numbered text commands (\<open>Types/Reliable.cpp\<close>, \<open>Types/ReliableTemplate.h\<close>): a ring of
  fixed-size strings, the commands a side sends until they are acknowledged
  (\<open>IReliableSequence\<close>) and the commands it receives (\<open>ICommandSequence\<close>). The virtual functions
  of \<open>IAbstractSequence\<close> are a record of operations; the locale \<open>command_store\<close> is their contract
  and the two class templates are its instances. A sequence implements a log of the commands of
  which only the newest can be read back.
\<close>

section \<open>The virtual functions and the two templates\<close>

record 'st sequence_ops =
  getMaxElements :: "'st \<Rightarrow> nat"
  seq_get :: "'st \<Rightarrow> u32 \<Rightarrow> msg_error + byte list"
  seq_set :: "u32 \<Rightarrow> byte list \<Rightarrow> 'st \<Rightarrow> msg_error + 'st"

text \<open>
  \<open>char commands[MAX_RELIABLE_COMMANDS][RELIABLE_COMMAND_SIZE]\<close>: the rows of the array. A
  returned pointer is the row it points to.
\<close>

record command_array =
  ca_size :: nat
  ca_rows :: "byte list list"

definition array_new :: "nat \<Rightarrow> nat \<Rightarrow> byte \<Rightarrow> command_array" where
  "array_new n sz fresh = \<lparr>ca_size = sz, ca_rows = replicate n (replicate sz fresh)\<rparr>"

definition SequenceTemplate_set :: "u32 \<Rightarrow> byte list \<Rightarrow> command_array \<Rightarrow> msg_error + command_array" where
  "SequenceTemplate_set index command a =
     (let smallest = min (length (c_chars command)) (sz_sub (ca_size a) 1) in
      if unat index < length (ca_rows a) \<and> smallest < length (ca_rows a ! unat index) then
        (let row = blit (ca_rows a ! unat index) 0 (take smallest command) in
         Inr (a\<lparr>ca_rows := (ca_rows a)[unat index := blit row smallest [0]]\<rparr>))
      else Inl BadBufferAccess)"

definition SequenceTemplate_get :: "command_array \<Rightarrow> u32 \<Rightarrow> msg_error + byte list" where
  "SequenceTemplate_get a index =
     (if unat index < length (ca_rows a) then Inr (ca_rows a ! unat index) else Inl BadBufferAccess)"

definition SequenceTemplate_getMaxElements :: "command_array \<Rightarrow> nat" where
  "SequenceTemplate_getMaxElements a = length (ca_rows a)"

definition SequenceTemplate :: "command_array sequence_ops" where
  "SequenceTemplate = \<lparr>getMaxElements = SequenceTemplate_getMaxElements,
     seq_get = SequenceTemplate_get, seq_set = SequenceTemplate_set\<rparr>"

text \<open>The template of the received commands repeats the same code over \<open>serverCommands\<close>.\<close>

definition RemoteCommandSequenceTemplate_set ::
  "u32 \<Rightarrow> byte list \<Rightarrow> command_array \<Rightarrow> msg_error + command_array" where
  "RemoteCommandSequenceTemplate_set index command a =
     (let smallest = min (length (c_chars command)) (sz_sub (ca_size a) 1) in
      if unat index < length (ca_rows a) \<and> smallest < length (ca_rows a ! unat index) then
        (let row = blit (ca_rows a ! unat index) 0 (take smallest command) in
         Inr (a\<lparr>ca_rows := (ca_rows a)[unat index := blit row smallest [0]]\<rparr>))
      else Inl BadBufferAccess)"

definition RemoteCommandSequenceTemplate_get :: "command_array \<Rightarrow> u32 \<Rightarrow> msg_error + byte list" where
  "RemoteCommandSequenceTemplate_get a index =
     (if unat index < length (ca_rows a) then Inr (ca_rows a ! unat index) else Inl BadBufferAccess)"

definition RemoteCommandSequenceTemplate_getMaxElements :: "command_array \<Rightarrow> nat" where
  "RemoteCommandSequenceTemplate_getMaxElements a = length (ca_rows a)"

definition RemoteCommandSequenceTemplate :: "command_array sequence_ops" where
  "RemoteCommandSequenceTemplate =
    \<lparr>getMaxElements = RemoteCommandSequenceTemplate_getMaxElements,
     seq_get = RemoteCommandSequenceTemplate_get, seq_set = RemoteCommandSequenceTemplate_set\<rparr>"

definition SequenceTemplate_ver8 :: "byte \<Rightarrow> command_array" where
  "SequenceTemplate_ver8 fresh = array_new 64 1024 fresh"

definition SequenceTemplate_ver17 :: "byte \<Rightarrow> command_array" where
  "SequenceTemplate_ver17 fresh = array_new 64 2048 fresh"

definition RemoteCommandSequenceTemplate_ver8 :: "byte \<Rightarrow> command_array" where
  "RemoteCommandSequenceTemplate_ver8 fresh = array_new 64 1024 fresh"

definition RemoteCommandSequenceTemplate_ver17 :: "byte \<Rightarrow> command_array" where
  "RemoteCommandSequenceTemplate_ver17 fresh = array_new 64 2048 fresh"

section \<open>IReliableSequence\<close>

record 'st reliable =
  reliableSequence :: u32
  reliableAcknowledge :: u32
  rs_store :: 'st

definition IReliableSequence_new :: "'st \<Rightarrow> 'st reliable" where
  "IReliableSequence_new st = \<lparr>reliableSequence = 0, reliableAcknowledge = 0, rs_store = st\<rparr>"

text \<open>\<open>reliableAcknowledge + maxReliableCommands\<close> is a \<open>size_t\<close>, so it does not wrap at 32 bits.\<close>

definition addCommand :: "'st sequence_ops \<Rightarrow> byte list \<Rightarrow> 'st reliable \<Rightarrow> msg_error + 'st reliable" where
  "addCommand vt command r =
     (let maxReliableCommands = getMaxElements vt (rs_store r) in
      if unat (reliableAcknowledge r) + maxReliableCommands < unat (reliableSequence r) then Inr r
      else
        (let seq = reliableSequence r + 1;
             index = of_nat (unat seq mod maxReliableCommands)
         in rbind (seq_set vt index command (rs_store r)) (\<lambda>st.
              Inr (r\<lparr>reliableSequence := seq, rs_store := st\<rparr>))))"

definition getReliableSequence :: "'st reliable \<Rightarrow> u32" where
  "getReliableSequence r = reliableSequence r"

definition getReliableAcknowledge :: "'st reliable \<Rightarrow> u32" where
  "getReliableAcknowledge r = reliableAcknowledge r"

definition getSequence :: "'st sequence_ops \<Rightarrow> 'st reliable \<Rightarrow> u32 \<Rightarrow> msg_error + byte list" where
  "getSequence vt r index =
     seq_get vt (rs_store r) (of_nat (unat index mod getMaxElements vt (rs_store r)))"

definition getLastSequence :: "'st sequence_ops \<Rightarrow> 'st reliable \<Rightarrow> msg_error + byte list" where
  "getLastSequence vt r = getSequence vt r (reliableSequence r)"

definition getLastAcknowledgedSequence :: "'st sequence_ops \<Rightarrow> 'st reliable \<Rightarrow> msg_error + byte list" where
  "getLastAcknowledgedSequence vt r = getSequence vt r (reliableAcknowledge r)"

definition updateAcknowledge :: "'st sequence_ops \<Rightarrow> u32 \<Rightarrow> 'st reliable \<Rightarrow> 'st reliable" where
  "updateAcknowledge vt acknowledged r =
     (let r' = r\<lparr>reliableAcknowledge := acknowledged\<rparr> in
      if unat (reliableAcknowledge r') + getMaxElements vt (rs_store r') < unat (reliableSequence r')
      then r'\<lparr>reliableAcknowledge := reliableSequence r'\<rparr> else r')"

section \<open>ICommandSequence\<close>

record 'st commands =
  remoteCommandSequence :: u32
  cs_store :: 'st

definition ICommandSequence_new :: "'st \<Rightarrow> 'st commands" where
  "ICommandSequence_new st = \<lparr>remoteCommandSequence = 0, cs_store = st\<rparr>"

definition addRemoteCommand ::
  "'st sequence_ops \<Rightarrow> byte list \<Rightarrow> u32 \<Rightarrow> 'st commands \<Rightarrow> msg_error + 'st commands" where
  "addRemoteCommand vt command sequence c =
     (if remoteCommandSequence c \<ge> sequence then Inr c
      else
        (let maxRemoteCommands = getMaxElements vt (cs_store c);
             index = of_nat (unat sequence mod maxRemoteCommands)
         in rbind (seq_set vt index command (cs_store c)) (\<lambda>st.
              Inr (c\<lparr>remoteCommandSequence := sequence, cs_store := st\<rparr>))))"

definition getCommandSequence :: "'st commands \<Rightarrow> u32" where
  "getCommandSequence c = remoteCommandSequence c"

definition getRemoteSequence :: "'st sequence_ops \<Rightarrow> 'st commands \<Rightarrow> u32 \<Rightarrow> msg_error + byte list" where
  "getRemoteSequence vt c index =
     seq_get vt (cs_store c) (of_nat (unat index mod getMaxElements vt (cs_store c)))"

definition getLastRemoteSequence :: "'st sequence_ops \<Rightarrow> 'st commands \<Rightarrow> msg_error + byte list" where
  "getLastRemoteSequence vt c = getRemoteSequence vt c (remoteCommandSequence c)"

definition setSequence :: "u32 \<Rightarrow> 'st commands \<Rightarrow> 'st commands" where
  "setSequence newSequence c = c\<lparr>remoteCommandSequence := newSequence\<rparr>"

section \<open>The contract of a command store\<close>

definition slot :: "nat \<Rightarrow> nat \<Rightarrow> u32" where
  "slot N i = of_nat (i mod N)"

lemma slot_window:
  assumes "0 < N" "N < 2 ^ 32" "i < j" "j < i + N"
  shows "slot N i \<noteq> slot N j"
proof
  assume e: "slot N i = slot N j"
  have lt: "i mod N < 2 ^ 32" "j mod N < 2 ^ 32" using assms(1,2) by (meson mod_less_divisor less_trans)+
  then have "i mod N = j mod N" using arg_cong [OF e, of unat]
    by (simp add: slot_def unat_of_nat)
  then have "N dvd j - i" using assms(3) by (metis less_imp_le mod_eq_dvd_iff_nat)
  then have "N \<le> j - i" using assms(3) by (simp add: dvd_imp_le)
  with assms(3,4) show False by simp
qed

lemma unat_slot: "0 < N \<Longrightarrow> N < 2 ^ 32 \<Longrightarrow> unat (slot N i) < N"
  using mod_less_divisor [of N i] by (simp add: slot_def unat_of_nat less_trans [of _ N])

text \<open>
  What the sequences need of their store: \<open>N\<close> places; a command put in a place is read back there,
  shortened to \<open>cut\<close>; the other places keep theirs.
\<close>

locale command_store =
  fixes vt :: "'st sequence_ops" and N :: nat and cut :: "byte list \<Rightarrow> byte list"
    and ok :: "'st \<Rightarrow> bool"
  assumes capacity: "0 < N" "N < 2 ^ 32"
    and max_ok: "ok st \<Longrightarrow> getMaxElements vt st = N"
    and set_ok: "ok st \<Longrightarrow> unat i < N \<Longrightarrow> \<exists>st' row. seq_set vt i cmd st = Inr st' \<and> ok st' \<and>
      seq_get vt st' i = Inr row \<and> c_chars row = cut cmd \<and> (\<forall>j. j \<noteq> i \<longrightarrow> seq_get vt st' j = seq_get vt st j)"
begin

definition holds :: "'st \<Rightarrow> nat \<Rightarrow> byte list \<Rightarrow> bool" where
  "holds st i cmd \<longleftrightarrow> (\<exists>row. seq_get vt st (slot N i) = Inr row \<and> c_chars row = cut cmd)"

lemma put_ok:
  assumes "ok st"
  shows "\<exists>st'. seq_set vt (slot N i) cmd st = Inr st' \<and> ok st' \<and> holds st' i cmd \<and>
    (\<forall>j c. j < i \<longrightarrow> i < j + N \<longrightarrow> holds st j c \<longrightarrow> holds st' j c)"
proof -
  obtain st' row where s: "seq_set vt (slot N i) cmd st = Inr st'" "ok st'"
      "seq_get vt st' (slot N i) = Inr row" "c_chars row = cut cmd"
      "\<forall>j. j \<noteq> slot N i \<longrightarrow> seq_get vt st' j = seq_get vt st j"
    using set_ok [OF assms unat_slot [OF capacity]] by blast
  then show ?thesis using slot_window [OF capacity] by (auto simp: holds_def)
qed

end

section \<open>Sending: the log of the commands\<close>

text \<open>
  What a client asks of the sequence, and the abstract machine: the log of all the commands
  accepted and how many of them are acknowledged.
\<close>

datatype rel_op = AddCommand "byte list" | UpdateAcknowledge u32

fun rel_step :: "'st sequence_ops \<Rightarrow> rel_op \<Rightarrow> 'st reliable \<Rightarrow> msg_error + 'st reliable" where
  "rel_step vt (AddCommand cmd) r = addCommand vt cmd r"
| "rel_step vt (UpdateAcknowledge a) r = Inr (updateAcknowledge vt a r)"

fun rel_run :: "'st sequence_ops \<Rightarrow> rel_op list \<Rightarrow> 'st reliable \<Rightarrow> msg_error + 'st reliable" where
  "rel_run vt [] r = Inr r"
| "rel_run vt (x # xs) r = rbind (rel_step vt x r) (rel_run vt xs)"

fun log_step :: "nat \<Rightarrow> rel_op \<Rightarrow> byte list list \<times> nat \<Rightarrow> byte list list \<times> nat" where
  "log_step N (AddCommand cmd) (log, acked) =
     (if acked + N < length log then (log, acked) else (log @ [cmd], acked))"
| "log_step N (UpdateAcknowledge a) (log, acked) =
     (log, if unat a + N < length log then length log else unat a)"

fun log_run :: "nat \<Rightarrow> rel_op list \<Rightarrow> byte list list \<times> nat \<Rightarrow> byte list list \<times> nat" where
  "log_run N [] l = l"
| "log_run N (x # xs) l = log_run N xs (log_step N x l)"

lemma log_step_length: "length (fst (log_step N x l)) \<le> Suc (length (fst l))"
  by (cases l; cases x) auto

lemma unat_Suc_u32: "unat (w :: u32) + 1 < 2 ^ 32 \<Longrightarrow> unat (w + 1) = unat w + 1"
  by (simp add: unat_word_ariths)

context command_store
begin

definition window :: "'st \<Rightarrow> byte list list \<Rightarrow> bool" where
  "window st log \<longleftrightarrow> (\<forall>i. 0 < i \<longrightarrow> i \<le> length log \<longrightarrow> length log < i + N \<longrightarrow> holds st i (log ! (i - 1)))"

definition sends :: "'st reliable \<Rightarrow> byte list list \<times> nat \<Rightarrow> bool" where
  "sends r l \<longleftrightarrow> ok (rs_store r) \<and> unat (reliableSequence r) = length (fst l) \<and>
     unat (reliableAcknowledge r) = snd l \<and> window (rs_store r) (fst l)"

lemma window_snoc:
  assumes "ok st" "window st log"
  shows "\<exists>st'. seq_set vt (slot N (Suc (length log))) cmd st = Inr st' \<and> ok st' \<and>
    window st' (log @ [cmd])"
proof -
  obtain st' where s: "seq_set vt (slot N (Suc (length log))) cmd st = Inr st'" "ok st'"
      "holds st' (Suc (length log)) cmd"
      "\<forall>j c. j < Suc (length log) \<longrightarrow> Suc (length log) < j + N \<longrightarrow> holds st j c \<longrightarrow> holds st' j c"
    using put_ok [OF assms(1)] by blast
  have "holds st' i ((log @ [cmd]) ! (i - 1))"
    if i: "0 < i" "i \<le> length (log @ [cmd])" "length (log @ [cmd]) < i + N" for i
  proof (cases "i = Suc (length log)")
    case True
    then show ?thesis using s(3) by simp
  next
    case False
    then have "holds st i (log ! (i - 1))" using assms(2) i by (simp add: window_def)
    then show ?thesis using s(4) i False by (simp add: nth_append)
  qed
  then show ?thesis using s(1,2) by (auto simp: window_def)
qed

lemma step_sends:
  assumes "sends r l" "length (fst l) + 1 < 2 ^ 32"
  shows "\<exists>r'. rel_step vt x r = Inr r' \<and> sends r' (log_step N x l)"
proof (cases x)
  case (AddCommand cmd)
  obtain log acked where l: "l = (log, acked)" by (cases l)
  have r: "ok (rs_store r)" "unat (reliableSequence r) = length log"
      "unat (reliableAcknowledge r) = acked" "window (rs_store r) log"
    using assms(1) by (auto simp: sends_def l)
  have n: "unat (reliableSequence r + 1) = Suc (length log)"
    using unat_Suc_u32 [of "reliableSequence r"] assms(2) r(2) by (simp add: l)
  obtain st' where "seq_set vt (slot N (Suc (length log))) cmd (rs_store r) = Inr st'" "ok st'"
      "window st' (log @ [cmd])"
    using window_snoc [OF r(1,4)] by blast
  then show ?thesis
    using assms(1) r n AddCommand
    by (auto simp: l addCommand_def Let_def max_ok sends_def slot_def)
next
  case (UpdateAcknowledge a)
  obtain log acked where l: "l = (log, acked)" by (cases l)
  show ?thesis using assms(1) UpdateAcknowledge
    by (auto simp: l updateAcknowledge_def Let_def max_ok sends_def)
qed

lemma run_sends:
  assumes "sends r l" "length (fst l) + length xs < 2 ^ 32"
  shows "\<exists>r'. rel_run vt xs r = Inr r' \<and> sends r' (log_run N xs l)"
  using assms
proof (induction xs arbitrary: r l)
  case (Cons x xs)
  have "length (fst l) + 1 < 2 ^ 32" using Cons.prems(2) by simp
  then obtain r' where r': "rel_step vt x r = Inr r'" "sends r' (log_step N x l)"
    using step_sends [OF Cons.prems(1)] by blast
  have "length (fst (log_step N x l)) + length xs < 2 ^ 32"
    using log_step_length [of N x l] Cons.prems(2) by simp
  from Cons.IH [OF r'(2) this] r'(1) show ?case by simp
qed simp

lemma new_sends: "ok st \<Longrightarrow> sends (IReliableSequence_new st) ([], 0)"
  by (simp add: sends_def IReliableSequence_new_def window_def)

lemma sends_get:
  assumes "sends r (log, acked)" "0 < i" "i \<le> length log" "length log < i + N"
  shows "\<exists>row. getSequence vt r (of_nat i) = Inr row \<and> c_chars row = cut (log ! (i - 1))"
proof -
  have "unat (reliableSequence r) < 2 ^ 32" using unsigned_less [of "reliableSequence r"] by simp
  then have "i < 2 ^ 32" using assms(1,3) by (simp add: sends_def)
  then have "unat (of_nat i :: u32) = i" by (simp add: unat_of_nat)
  then show ?thesis using assms
    by (auto simp: sends_def window_def getSequence_def max_ok holds_def slot_def)
qed

end

section \<open>Receiving: only newer commands\<close>

fun deliver :: "'st sequence_ops \<Rightarrow> (byte list \<times> u32) list \<Rightarrow> 'st commands \<Rightarrow> msg_error + 'st commands" where
  "deliver vt [] c = Inr c"
| "deliver vt ((cmd, n) # ds) c = rbind (addRemoteCommand vt cmd n c) (deliver vt ds)"

text \<open>The deliveries that are newer than all those before.\<close>

fun accepted :: "u32 \<Rightarrow> (byte list \<times> u32) list \<Rightarrow> (byte list \<times> u32) list" where
  "accepted newest [] = []"
| "accepted newest ((cmd, n) # ds) =
     (if newest \<ge> n then accepted newest ds else (cmd, n) # accepted n ds)"

context command_store
begin

lemma addCommand_ok:
  assumes "ok (rs_store r)"
  shows "\<exists>r'. addCommand vt cmd r = Inr r' \<and> ok (rs_store r') \<and>
    reliableAcknowledge r' = reliableAcknowledge r \<and>
    (if unat (reliableAcknowledge r) + N < unat (reliableSequence r) then r' = r
     else reliableSequence r' = reliableSequence r + 1 \<and>
       holds (rs_store r') (unat (reliableSequence r + 1)) cmd)"
proof -
  obtain st' where "seq_set vt (slot N (unat (reliableSequence r + 1))) cmd (rs_store r) = Inr st'"
      "ok st'" "holds st' (unat (reliableSequence r + 1)) cmd"
    using put_ok [OF assms] by blast
  then show ?thesis using assms by (auto simp: addCommand_def Let_def max_ok slot_def)
qed

definition bounded :: "'st reliable \<Rightarrow> bool" where
  "bounded r \<longleftrightarrow> ok (rs_store r) \<and> unat (reliableSequence r) \<le> unat (reliableAcknowledge r) + N + 1"

lemma new_bounded: "ok st \<Longrightarrow> bounded (IReliableSequence_new st)"
  by (simp add: bounded_def IReliableSequence_new_def)

lemma step_bounded:
  assumes "rel_step vt x r = Inr r'" "bounded r"
  shows "bounded r'"
proof (cases x)
  case (AddCommand cmd)
  have "unat (reliableSequence r + 1) \<le> unat (reliableSequence r) + 1"
    unfolding unat_word_ariths by (rule order_trans [OF mod_less_eq_dividend]) simp
  then show ?thesis using addCommand_ok [of r cmd] assms AddCommand
    by (auto simp: bounded_def split: if_splits)
next
  case (UpdateAcknowledge a)
  then show ?thesis using assms by (auto simp: bounded_def updateAcknowledge_def Let_def max_ok)
qed

lemma holds_getSequence:
  assumes "ok (rs_store r)" "holds (rs_store r) j cmd" "unat i mod N = j mod N"
  shows "\<exists>row. getSequence vt r i = Inr row \<and> c_chars row = cut cmd"
  using assms by (simp add: getSequence_def max_ok holds_def slot_def)

lemma full_overwrites:
  assumes "ok (rs_store r)" "unat (reliableAcknowledge r) + N + 1 < 2 ^ 32"
    and "unat (reliableSequence r) = unat (reliableAcknowledge r) + N"
  shows "\<exists>r' row. addCommand vt cmd r = Inr r' \<and> reliableAcknowledge r' = reliableAcknowledge r \<and>
    getSequence vt r' (reliableAcknowledge r' + 1) = Inr row \<and> c_chars row = cut cmd"
proof -
  obtain r' where r': "addCommand vt cmd r = Inr r'" "ok (rs_store r')"
      "reliableAcknowledge r' = reliableAcknowledge r"
      "holds (rs_store r') (unat (reliableSequence r + 1)) cmd"
    using addCommand_ok [OF assms(1), of cmd] assms(3) by auto
  have "unat (reliableAcknowledge r' + 1) = unat (reliableAcknowledge r) + 1"
    "unat (reliableSequence r + 1) = unat (reliableAcknowledge r) + 1 + N"
    using unat_Suc_u32 assms(2,3) r'(3) by simp_all
  then have "unat (reliableAcknowledge r' + 1) mod N = unat (reliableSequence r + 1) mod N"
    by (simp only: mod_add_self2)
  from holds_getSequence [OF r'(2,4) this] r'(1,3) show ?thesis by blast
qed

definition receives :: "'st commands \<Rightarrow> (byte list \<times> u32) list \<Rightarrow> bool" where
  "receives c acc \<longleftrightarrow> ok (cs_store c) \<and> (\<forall>(cmd, n)\<in>set acc. n \<le> remoteCommandSequence c \<and>
     (unat (remoteCommandSequence c) < unat n + N \<longrightarrow> holds (cs_store c) (unat n) cmd))"

lemma addRemoteCommand_receives:
  assumes "receives c acc"
  shows "\<exists>c'. addRemoteCommand vt cmd n c = Inr c' \<and>
    (if remoteCommandSequence c \<ge> n then c' = c
     else remoteCommandSequence c' = n \<and> receives c' (acc @ [(cmd, n)]))"
proof (cases "remoteCommandSequence c \<ge> n")
  case True
  then show ?thesis by (simp add: addRemoteCommand_def)
next
  case False
  have o: "ok (cs_store c)" using assms by (simp add: receives_def)
  obtain st' where s: "seq_set vt (slot N (unat n)) cmd (cs_store c) = Inr st'" "ok st'"
      "holds st' (unat n) cmd"
      "\<forall>j c'. j < unat n \<longrightarrow> unat n < j + N \<longrightarrow> holds (cs_store c) j c' \<longrightarrow> holds st' j c'"
    using put_ok [OF o] by blast
  let ?c = "c\<lparr>remoteCommandSequence := n, cs_store := st'\<rparr>"
  have lt: "unat (remoteCommandSequence c) < unat n" using False by (simp add: word_less_nat_alt not_le)
  have "addRemoteCommand vt cmd n c = Inr ?c"
    using False s(1) by (simp add: addRemoteCommand_def Let_def max_ok [OF o] slot_def)
  moreover have "receives ?c (acc @ [(cmd, n)])"
    using assms s(2-4) lt by (fastforce simp: receives_def word_le_nat_alt)
  ultimately show ?thesis using False by auto
qed

lemma deliver_receives:
  assumes "receives c acc"
  shows "\<exists>c'. deliver vt ds c = Inr c' \<and> receives c' (acc @ accepted (remoteCommandSequence c) ds) \<and>
    remoteCommandSequence c' = last (remoteCommandSequence c # map snd (accepted (remoteCommandSequence c) ds))"
  using assms
proof (induction ds arbitrary: c acc)
  case (Cons d ds)
  obtain cmd n where d: "d = (cmd, n)" by (cases d)
  obtain c' where c': "addRemoteCommand vt cmd n c = Inr c'"
      "if remoteCommandSequence c \<ge> n then c' = c
       else remoteCommandSequence c' = n \<and> receives c' (acc @ [(cmd, n)])"
    using addRemoteCommand_receives [OF Cons.prems] by blast
  show ?case
  proof (cases "remoteCommandSequence c \<ge> n")
    case True
    then show ?thesis using Cons.IH [OF Cons.prems] c' by (simp add: d)
  next
    case False
    then have k: "remoteCommandSequence c' = n" "receives c' (acc @ [(cmd, n)])" using c'(2) by simp_all
    from Cons.IH [OF k(2)] c'(1) False show ?thesis by (simp add: d k(1))
  qed
qed simp

lemma new_receives: "ok st \<Longrightarrow> receives (ICommandSequence_new st) []"
  by (simp add: receives_def ICommandSequence_new_def)

lemma receives_get:
  assumes "receives c acc" "(cmd, n) \<in> set acc" "unat (remoteCommandSequence c) < unat n + N"
  shows "\<exists>row. getRemoteSequence vt c n = Inr row \<and> c_chars row = cut cmd"
  using assms by (auto simp: receives_def getRemoteSequence_def max_ok holds_def slot_def)

end

lemma accepted_sorted: "sorted_wrt (<) (newest # map snd (accepted newest ds))"
proof (induction ds arbitrary: newest)
  case (Cons d ds)
  obtain cmd n where d: "d = (cmd, n)" by (cases d)
  show ?case
  proof (cases "newest \<ge> n")
    case True
    then show ?thesis using Cons.IH [of newest] by (simp add: d)
  next
    case False
    then have "newest < n" by simp
    moreover have "\<forall>x\<in>set (map snd (accepted n ds)). newest < x"
      using Cons.IH [of n] \<open>newest < n\<close> by auto
    ultimately show ?thesis using Cons.IH [of n] False by (simp add: d)
  qed
qed simp

section \<open>The templates keep the contract\<close>

definition array_ok :: "nat \<Rightarrow> nat \<Rightarrow> command_array \<Rightarrow> bool" where
  "array_ok n sz a \<longleftrightarrow> ca_size a = sz \<and> length (ca_rows a) = n \<and> (\<forall>row\<in>set (ca_rows a). length row = sz)"

definition kept :: "nat \<Rightarrow> byte list \<Rightarrow> byte list" where
  "kept sz cmd = take (sz - 1) (c_chars cmd)"

lemma array_new_ok: "array_ok n sz (array_new n sz fresh)"
  by (simp add: array_ok_def array_new_def)

lemma c_chars_take:
  assumes "n = min (length (c_chars cmd)) k"
  shows "c_chars (take n cmd @ 0 # rest) = take k (c_chars cmd)"
proof -
  have "take n cmd = take k (c_chars cmd)"
  proof -
    have "take n (c_chars cmd @ dropWhile (\<lambda>c. c \<noteq> 0) cmd) = take n (c_chars cmd)"
      by (simp add: assms)
    moreover have "take n (c_chars cmd) = take k (c_chars cmd)" by (simp add: assms min_def)
    ultimately show ?thesis by (simp add: c_chars_def)
  qed
  moreover have "\<forall>c\<in>set (take k (c_chars cmd)). c \<noteq> 0"
    using c_chars_nonzero [of cmd] by (meson in_set_takeD)
  ultimately have e: "take n cmd @ 0 # rest = take k (c_chars cmd) @ 0 # rest"
    and z: "\<And>c. c \<in> set (take k (c_chars cmd)) \<Longrightarrow> c \<noteq> 0" by auto
  show ?thesis unfolding e c_chars_def [of "_ @ _"]
    by (subst takeWhile_append2) (use z in simp_all)
qed

lemma array_set:
  assumes "array_ok n sz a" "0 < sz" "unat (i :: u32) < n" and k_def: "k = min (length (c_chars cmd)) (sz_sub sz 1)"
  shows "\<exists>row rest. row = take k cmd @ 0 # rest \<and> length row = sz \<and> k < sz \<and>
    SequenceTemplate_set i cmd a = Inr (a\<lparr>ca_rows := (ca_rows a)[unat i := row]\<rparr>)"
proof -
  let ?old = "ca_rows a ! unat i"
  have a: "ca_size a = sz" "length (ca_rows a) = n" "length ?old = sz"
    using assms(1,3) by (auto simp: array_ok_def)
  have k: "k < sz" "k \<le> length cmd"
    using assms(2) length_takeWhile_le [of "\<lambda>c. c \<noteq> 0" cmd] by (auto simp: k_def c_chars_def)
  let ?row = "blit (blit ?old 0 (take k cmd)) k [0]"
  have "?row = take k cmd @ 0 # drop (Suc k) (blit ?old 0 (take k cmd))"
    using k a(3) by (simp add: blit_def)
  moreover have "length ?row = sz" using k a(3) by (simp add: blit_def)
  moreover have "SequenceTemplate_set i cmd a = Inr (a\<lparr>ca_rows := (ca_rows a)[unat i := ?row]\<rparr>)"
    using a assms(3) k(1) by (simp add: SequenceTemplate_set_def Let_def k_def)
  ultimately show ?thesis using k(1) by blast
qed

lemma array_ok_update:
  "array_ok n sz a \<Longrightarrow> length row = sz \<Longrightarrow> array_ok n sz (a\<lparr>ca_rows := (ca_rows a)[i := row]\<rparr>)"
  by (auto simp: array_ok_def dest!: set_update_subset_insert [THEN subsetD])

lemma template_store:
  assumes "0 < n" "n < 2 ^ 32" "0 < sz"
  shows "command_store SequenceTemplate n (kept sz) (array_ok n sz)"
proof
  show "0 < n" "n < 2 ^ 32" by (fact assms)+
  show "getMaxElements SequenceTemplate st = n" if "array_ok n sz st" for st
    using that by (simp add: SequenceTemplate_def SequenceTemplate_getMaxElements_def array_ok_def)
  fix st cmd and i :: u32 assume st: "array_ok n sz st" and i: "unat i < n"
  obtain row rest where row: "row = take (min (length (c_chars cmd)) (sz_sub sz 1)) cmd @ 0 # rest"
      "length row = sz"
      "SequenceTemplate_set i cmd st = Inr (st\<lparr>ca_rows := (ca_rows st)[unat i := row]\<rparr>)"
    using array_set [OF st assms(3) i refl] by blast
  let ?st = "st\<lparr>ca_rows := (ca_rows st)[unat i := row]\<rparr>"
  have ok: "array_ok n sz ?st" by (rule array_ok_update [OF st row(2)])
  have "c_chars row = kept sz cmd"
    using c_chars_take [OF refl] assms(3) unfolding row(1) kept_def by simp
  moreover have "SequenceTemplate_get ?st i = Inr row"
    using st i by (simp add: SequenceTemplate_get_def array_ok_def)
  moreover have "SequenceTemplate_get ?st j = SequenceTemplate_get st j" if "j \<noteq> i" for j
  proof -
    have "unat i \<noteq> unat j" using that by (simp add: word_unat_eq_iff)
    then show ?thesis by (simp add: SequenceTemplate_get_def)
  qed
  ultimately show "\<exists>st' row. seq_set SequenceTemplate i cmd st = Inr st' \<and> array_ok n sz st' \<and>
      seq_get SequenceTemplate st' i = Inr row \<and> c_chars row = kept sz cmd \<and>
      (\<forall>j. j \<noteq> i \<longrightarrow> seq_get SequenceTemplate st' j = seq_get SequenceTemplate st j)"
    using row(3) ok by (auto simp: SequenceTemplate_def)
qed

lemma remote_template: "RemoteCommandSequenceTemplate = SequenceTemplate"
  by (simp add: RemoteCommandSequenceTemplate_def SequenceTemplate_def fun_eq_iff
      RemoteCommandSequenceTemplate_set_def SequenceTemplate_set_def RemoteCommandSequenceTemplate_get_def
      SequenceTemplate_get_def RemoteCommandSequenceTemplate_getMaxElements_def
      SequenceTemplate_getMaxElements_def)

interpretation sent8: command_store SequenceTemplate 64 "kept 1024" "array_ok 64 1024"
  by (rule template_store) simp_all

interpretation sent17: command_store SequenceTemplate 64 "kept 2048" "array_ok 64 2048"
  by (rule template_store) simp_all

interpretation received8: command_store RemoteCommandSequenceTemplate 64 "kept 1024" "array_ok 64 1024"
  unfolding remote_template by (rule template_store) simp_all

interpretation received17: command_store RemoteCommandSequenceTemplate 64 "kept 2048" "array_ok 64 2048"
  unfolding remote_template by (rule template_store) simp_all

section \<open>Properties\<close>

lemma ver_arrays:
  "array_ok 64 1024 (SequenceTemplate_ver8 fresh)" "array_ok 64 2048 (SequenceTemplate_ver17 fresh)"
  "array_ok 64 1024 (RemoteCommandSequenceTemplate_ver8 fresh)"
  "array_ok 64 2048 (RemoteCommandSequenceTemplate_ver17 fresh)"
  unfolding SequenceTemplate_ver8_def SequenceTemplate_ver17_def
    RemoteCommandSequenceTemplate_ver8_def RemoteCommandSequenceTemplate_ver17_def
  by (rule array_new_ok)+

text \<open>C12: For both protocol families, any run of fewer than 2 ^ 32 calls of \<open>addCommand\<close> and
  \<open>updateAcknowledge\<close> never fails and implements the log of accepted commands: the counters are
  the length of the log and its acknowledged part, and the newest 64 commands are read back, cut
  to the size of a row.\<close>

theorem reliable_refines_log:
  assumes "(sz, st) \<in> {(1024, SequenceTemplate_ver8 fresh), (2048, SequenceTemplate_ver17 fresh)}"
    and "length xs < 2 ^ 32" "log_run 64 xs ([], 0) = (log, acked)"
  shows "\<exists>r. rel_run SequenceTemplate xs (IReliableSequence_new st) = Inr r \<and>
    unat (getReliableSequence r) = length log \<and> unat (getReliableAcknowledge r) = acked \<and>
    (\<forall>i. 0 < i \<and> i \<le> length log \<and> length log < i + 64 \<longrightarrow>
      (\<exists>row. getSequence SequenceTemplate r (of_nat i) = Inr row \<and>
        c_chars row = take (sz - 1) (c_chars (log ! (i - 1)))))"
proof (cases "sz = 1024")
  case True
  then have st: "array_ok 64 1024 st" using assms(1) ver_arrays(1) by auto
  from sent8.run_sends [OF sent8.new_sends [OF st], of xs] assms(2,3) obtain r where
    "rel_run SequenceTemplate xs (IReliableSequence_new st) = Inr r" "sent8.sends r (log, acked)" by auto
  then show ?thesis using sent8.sends_get [of r log acked] True
    by (auto simp: sent8.sends_def getReliableSequence_def getReliableAcknowledge_def kept_def)
next
  case False
  then have st: "array_ok 64 2048 st" "sz = 2048" using assms(1) ver_arrays(2) by auto
  from sent17.run_sends [OF sent17.new_sends [OF st(1)], of xs] assms(2,3) obtain r where
    "rel_run SequenceTemplate xs (IReliableSequence_new st) = Inr r" "sent17.sends r (log, acked)" by auto
  then show ?thesis using sent17.sends_get [of r log acked] st(2)
    by (auto simp: sent17.sends_def getReliableSequence_def getReliableAcknowledge_def kept_def)
qed

theorem reliable_refines_log_witness:
  "\<exists>r row. rel_run SequenceTemplate [AddCommand [115, 97, 121], UpdateAcknowledge 1, AddCommand [113, 0, 9]]
      (IReliableSequence_new (SequenceTemplate_ver8 7)) = Inr r \<and>
    unat (getReliableSequence r) = 2 \<and> unat (getReliableAcknowledge r) = 1 \<and>
    getSequence SequenceTemplate r 2 = Inr row \<and> c_chars row = [113]"
  using reliable_refines_log [of 1024 "SequenceTemplate_ver8 7" 7
      "[AddCommand [115, 97, 121], UpdateAcknowledge 1, AddCommand [113, 0, 9]]"
      "[[115, 97, 121], [113, 0, 9]]" 1]
  by (force simp: c_chars_def)

text \<open>The states of a sequence that uses the store \<open>st\<close>.\<close>

inductive rel_reach :: "'st sequence_ops \<Rightarrow> 'st \<Rightarrow> 'st reliable \<Rightarrow> bool" for vt st where
  start: "rel_reach vt st (IReliableSequence_new st)"
| step: "rel_reach vt st r \<Longrightarrow> rel_step vt x r = Inr r' \<Longrightarrow> rel_reach vt st r'"

context command_store
begin

lemma reach_bounded: "rel_reach vt st r \<Longrightarrow> ok st \<Longrightarrow> bounded r"
  by (induction rule: rel_reach.induct) (auto intro: new_bounded step_bounded)

end



text \<open>When exactly 64 commands are outstanding the guard of \<open>addCommand\<close> still lets one in, and
  it takes the place of the oldest command that is not acknowledged: the next one the peer is sent
  is not the one it is waiting for.\<close>

theorem reliable_full_overwrites:
  assumes "array_ok 64 2048 (rs_store r)"
    and "unat (reliableAcknowledge r) + 65 < 2 ^ 32"
    and "unat (reliableSequence r) = unat (reliableAcknowledge r) + 64"
  shows "\<exists>r' row. addCommand SequenceTemplate cmd r = Inr r' \<and>
    reliableAcknowledge r' = reliableAcknowledge r \<and>
    getSequence SequenceTemplate r' (reliableAcknowledge r' + 1) = Inr row \<and>
    c_chars row = take 2047 (c_chars cmd)"
  using sent17.full_overwrites [OF assms(1) _ assms(3), of cmd] assms(2) by (simp add: kept_def)

theorem reliable_full_overwrites_witness:
  "\<exists>r' row. addCommand SequenceTemplate [113, 117, 105, 116]
      \<lparr>reliableSequence = 64, reliableAcknowledge = 0, rs_store = SequenceTemplate_ver17 0\<rparr> = Inr r' \<and>
    reliableAcknowledge r' = 0 \<and> getSequence SequenceTemplate r' (reliableAcknowledge r' + 1) = Inr row \<and>
    c_chars row = [113, 117, 105, 116]"
  using reliable_full_overwrites [of
      "\<lparr>reliableSequence = 64, reliableAcknowledge = 0, rs_store = SequenceTemplate_ver17 0\<rparr>"
      "[113, 117, 105, 116]"] ver_arrays(2) [of 0]
  by (simp add: c_chars_def)

text \<open>C19: Whatever order, duplicates and gaps the commands of the server arrive with, only those
  newer than every one before are stored: the current number is that of the last of them, their
  numbers increase, and each of the newest 64 numbers that was received is read back.\<close>

theorem command_sequence_keeps_newest:
  assumes "deliver RemoteCommandSequenceTemplate ds
      (ICommandSequence_new (RemoteCommandSequenceTemplate_ver17 fresh)) = r"
  shows "\<exists>c. r = Inr c \<and> getCommandSequence c = last (0 # map snd (accepted 0 ds)) \<and>
    sorted_wrt (<) (0 # map snd (accepted 0 ds)) \<and>
    (\<forall>(cmd, n)\<in>set (accepted 0 ds). unat (getCommandSequence c) < unat n + 64 \<longrightarrow>
      (\<exists>row. getRemoteSequence RemoteCommandSequenceTemplate c n = Inr row \<and>
        c_chars row = take 2047 (c_chars cmd)))"
proof -
  let ?c0 = "ICommandSequence_new (RemoteCommandSequenceTemplate_ver17 fresh)"
  have z: "remoteCommandSequence ?c0 = 0" by (simp add: ICommandSequence_new_def)
  obtain c where c: "deliver RemoteCommandSequenceTemplate ds ?c0 = Inr c"
      "received17.receives c ([] @ accepted 0 ds)"
      "remoteCommandSequence c = last (0 # map snd (accepted 0 ds))"
    using received17.deliver_receives [OF received17.new_receives [OF ver_arrays(4) [of fresh]], of ds,
        unfolded z] by (elim exE conjE) (rule that)
  show ?thesis
    using c accepted_sorted [of 0 ds] received17.receives_get [of c "accepted 0 ds"] assms
    by (auto simp: getCommandSequence_def kept_def)
qed

theorem command_sequence_keeps_newest_witness:
  "\<exists>c row. deliver RemoteCommandSequenceTemplate [([97], 3), ([98], 2), ([99], 3), ([100], 70)]
      (ICommandSequence_new (RemoteCommandSequenceTemplate_ver17 0)) = Inr c \<and>
    getCommandSequence c = 70 \<and>
    getRemoteSequence RemoteCommandSequenceTemplate c 70 = Inr row \<and> c_chars row = [100]"
  using command_sequence_keeps_newest [of "[([97], 3), ([98], 2), ([99], 3), ([100], 70)]" 0, OF refl]
  by (auto simp: c_chars_def)

end
