(* ===== verification/Encoding.thy ===== *)
theory Encoding
  imports Reliable Netchan
begin

text \<open>
  The XOR encoding of the game traffic (\<open>Remote/Encoding.cpp\<close>) and the client's chain element
  that applies it to what is sent and received (\<open>Client/ChainEncode.cpp\<close>). The key stream comes
  from the challenge, the numbers acknowledged and the text of a command; it does not depend on
  the data, so that encoding and decoding are the same.
\<close>

section \<open>The key stream\<close>

text \<open>\<open>string\<close> is the row of the command array that the pointer points into.\<close>

definition XORKeyIndex :: "nat \<Rightarrow> nat \<Rightarrow> byte list \<Rightarrow> msg_error + nat \<times> u32" where
  "XORKeyIndex i index string =
     (if length string \<le> index then Inl BadBufferAccess
      else
        (let index' = (if string ! index = 0 then 0 else index);
             c = string ! index'
         in Inr (index', if 127 < c \<or> c = 37 then push_bit (i mod 2) 46
                         else push_bit (i mod 2) (ucast c))))"

function XORValues_loop ::
  "u32 \<Rightarrow> byte list \<Rightarrow> nat \<Rightarrow> nat \<Rightarrow> nat \<Rightarrow> mstream \<Rightarrow> mstream \<Rightarrow> msg_error + mstream \<times> mstream" where
  "XORValues_loop key string len i index inp out =
     (if i < len then
        rbind (XORKeyIndex i index string) (\<lambda>(index', k).
          let key' = key XOR k in
          rbind (lift_stream (st_Read inp 1)) (\<lambda>(bs, inp').
          let byteValue = bs ! 0 XOR ucast key' in
          rbind (lift_stream (st_Write out [byteValue])) (\<lambda>out'.
          XORValues_loop key' string len (i + 1) (index' + 1) inp' out')))
      else Inr (inp, out))"
  by pat_completeness auto
termination
  by (relation "measure (\<lambda>(key, s, len, i, index, inp, out). len - i)") auto

declare XORValues_loop.simps [simp del]

definition XORValues :: "u32 \<Rightarrow> byte list \<Rightarrow> nat \<Rightarrow> mstream \<Rightarrow> mstream \<Rightarrow> msg_error + mstream \<times> mstream" where
  "XORValues key string len inp out = XORValues_loop key string len (st_GetPosition inp) 0 inp out"

text \<open>The second overload reads and writes the same stream.\<close>

function XORValues_same_loop ::
  "u32 \<Rightarrow> byte list \<Rightarrow> nat \<Rightarrow> nat \<Rightarrow> nat \<Rightarrow> mstream \<Rightarrow> msg_error + mstream" where
  "XORValues_same_loop key string len i index stream =
     (if i < len then
        rbind (XORKeyIndex i index string) (\<lambda>(index', k).
          let key' = key XOR k in
          rbind (lift_stream (st_Read stream 1)) (\<lambda>(bs, stream').
          let byteValue = bs ! 0 XOR ucast key' in
          rbind (lift_stream (st_Write (st_Seek stream' i Begin) [byteValue])) (\<lambda>stream''.
          XORValues_same_loop key' string len (i + 1) (index' + 1) stream'')))
      else Inr stream)"
  by pat_completeness auto
termination
  by (relation "measure (\<lambda>(key, s, len, i, index, stream). len - i)") auto

declare XORValues_same_loop.simps [simp del]

definition XORValues_same :: "u32 \<Rightarrow> byte list \<Rightarrow> nat \<Rightarrow> mstream \<Rightarrow> msg_error + mstream" where
  "XORValues_same key string len stream =
     XORValues_same_loop key string len (st_GetPosition stream) 0 stream"

section \<open>XOREncoding\<close>

text \<open>The reference to the commands is the pair of operations and store given to \<open>convert\<close>.\<close>

record xor_encoding =
  xe_challenge :: u32
  xe_secretKey :: u32
  xe_messageAcknowledge :: u32
  xe_reliableAcknowledge :: u32

definition XOREncoding_new :: "u32 \<Rightarrow> xor_encoding" where
  "XOREncoding_new challengeValue =
    \<lparr>xe_challenge = challengeValue, xe_secretKey = 0, xe_messageAcknowledge = 0, xe_reliableAcknowledge = 0\<rparr>"

definition setMessageAcknowledge :: "u32 \<Rightarrow> xor_encoding \<Rightarrow> xor_encoding" where
  "setMessageAcknowledge num e = e\<lparr>xe_messageAcknowledge := num\<rparr>"

definition getMessageAcknowledge :: "xor_encoding \<Rightarrow> u32" where
  "getMessageAcknowledge e = xe_messageAcknowledge e"

definition setReliableAcknowledge :: "u32 \<Rightarrow> xor_encoding \<Rightarrow> xor_encoding" where
  "setReliableAcknowledge num e = e\<lparr>xe_reliableAcknowledge := num\<rparr>"

definition getEncReliableAcknowledge :: "xor_encoding \<Rightarrow> u32" where
  "getEncReliableAcknowledge e = xe_reliableAcknowledge e"

definition setSecretKey :: "u32 \<Rightarrow> xor_encoding \<Rightarrow> xor_encoding" where
  "setSecretKey num e = e\<lparr>xe_secretKey := num\<rparr>"

definition getSecretKey :: "xor_encoding \<Rightarrow> u32" where
  "getSecretKey e = xe_secretKey e"

text \<open>The command and the key of \<open>convert\<close>; the key is cut to a byte.\<close>

definition enc_string :: "'st sequence_ops \<Rightarrow> 'st \<Rightarrow> xor_encoding \<Rightarrow> msg_error + byte list" where
  "enc_string vt st e = seq_get vt st (of_nat (unat (xe_reliableAcknowledge e) mod getMaxElements vt st))"

definition enc_key :: "xor_encoding \<Rightarrow> u32" where
  "enc_key e = ucast (ucast (xe_challenge e XOR xe_secretKey e XOR xe_messageAcknowledge e) :: byte)"

text \<open>\<open>convert\<close> of two different streams and of a stream with itself.\<close>

definition convert :: "'st sequence_ops \<Rightarrow> 'st \<Rightarrow> xor_encoding \<Rightarrow> mstream \<Rightarrow> mstream \<Rightarrow>
    msg_error + mstream \<times> mstream" where
  "convert vt st e inp out =
     rbind (enc_string vt st e) (\<lambda>string.
     rbind (XORValues (enc_key e) string (st_GetLength inp) inp out) (\<lambda>(inp', out').
     Inr (inp', st_Seek out' 0 Begin)))"

definition convert_same :: "'st sequence_ops \<Rightarrow> 'st \<Rightarrow> xor_encoding \<Rightarrow> mstream \<Rightarrow> msg_error + mstream" where
  "convert_same vt st e stream =
     (let savedPos = st_GetPosition stream in
      rbind (enc_string vt st e) (\<lambda>string.
      rbind (XORValues_same (enc_key e) string (st_GetLength stream) stream) (\<lambda>stream'.
      Inr (st_Seek stream' savedPos Begin))))"

section \<open>ClientEncoding\<close>

text \<open>
  The references the element keeps: the server id of the game state, the commands sent and the
  commands received with their virtual operations. \<open>next\<close> is the next element of the chain.
\<close>

record ('r, 'c) client_encoding =
  ce_serverId :: u32
  ce_reliable :: "'r reliable"
  ce_commands :: "'c commands"
  ce_challenge :: u32

definition run_next :: "(mstream \<Rightarrow> msg_error + mstream) option \<Rightarrow> mstream \<Rightarrow> msg_error + mstream" where
  "run_next next stream = (case next of None \<Rightarrow> Inr stream | Some f \<Rightarrow> f stream)"

definition handleTransmit :: "(mstream \<Rightarrow> msg_error + mstream) option \<Rightarrow> 'c sequence_ops \<Rightarrow>
    ('r, 'c) client_encoding \<Rightarrow> mstream \<Rightarrow> msg_error + mstream" where
  "handleTransmit next vt ce stream0 =
     rbind (run_next next stream0) (\<lambda>stream.
       let encodeStart = 12 in
       if st_GetLength stream \<le> encodeStart then Inr stream
       else
         rbind (msg_new (st_Seek stream 0 Begin) msgMode_Reading) (\<lambda>m.
         rbind (ReadInteger m) (\<lambda>(_, m1).
         rbind (ReadInteger m1) (\<lambda>(sequenceNum, m2).
         let s1 = st_Seek (m_stream m2) encodeStart Begin;
             encoder = setReliableAcknowledge (getCommandSequence (ce_commands ce))
                         (setMessageAcknowledge sequenceNum
                           (setSecretKey (ce_serverId ce) (XOREncoding_new (ce_challenge ce))))
         in rbind (convert_same vt (cs_store (ce_commands ce)) encoder s1) (\<lambda>s2.
            Inr (st_Seek s2 0 Begin))))))"

definition handleReceive :: "(mstream \<Rightarrow> msg_error + mstream) option \<Rightarrow> 'r sequence_ops \<Rightarrow>
    ('r, 'c) client_encoding \<Rightarrow> mstream \<Rightarrow> msg_error + mstream" where
  "handleReceive next vt ce stream0 =
     rbind (run_next next stream0) (\<lambda>stream.
       let decodeStart = 8 in
       rbind (msg_new (st_Seek stream 0 Begin) msgMode_Reading) (\<lambda>m.
       rbind (ReadInteger (msg_SetCodec OOBCodec m)) (\<lambda>(sequenceNum, m1).
       let s1 = st_Seek (m_stream m1) decodeStart Begin;
           decoder = setReliableAcknowledge (getReliableAcknowledge (ce_reliable ce))
                       (setMessageAcknowledge sequenceNum (XOREncoding_new (ce_challenge ce)))
       in rbind (convert_same vt (rs_store (ce_reliable ce)) decoder s1) (\<lambda>s2.
          Inr (st_Seek s2 4 Begin)))))"

section \<open>What the loops compute\<close>

text \<open>The reference: a list of bytes from position \<open>i\<close> on.\<close>

fun xor_bytes_from :: "u32 \<Rightarrow> byte list \<Rightarrow> nat \<Rightarrow> nat \<Rightarrow> byte list \<Rightarrow> msg_error + byte list" where
  "xor_bytes_from key string i index [] = Inr []"
| "xor_bytes_from key string i index (b # bs) =
     rbind (XORKeyIndex i index string) (\<lambda>(index', k).
     rbind (xor_bytes_from (key XOR k) string (i + 1) (index' + 1) bs) (\<lambda>cs.
     Inr ((b XOR ucast (key XOR k)) # cs)))"

text \<open>A string whose terminator, or some zero byte after the first, is inside its row.\<close>

definition terminated :: "byte list \<Rightarrow> bool" where
  "terminated string \<longleftrightarrow> (\<exists>z. 0 < z \<and> z < length string \<and> string ! z = 0)"

lemma XORKeyIndex_ok:
  assumes "z < length string" "string ! z = 0" "0 < z" "index \<le> z"
  shows "\<exists>index' k. XORKeyIndex i index string = Inr (index', k) \<and> index' + 1 \<le> z"
proof (cases "string ! index = 0")
  case True
  then show ?thesis using assms by (simp add: XORKeyIndex_def Let_def)
next
  case False
  then have "index \<noteq> z" using assms(2) by auto
  then show ?thesis using assms False by (simp add: XORKeyIndex_def Let_def)
qed

lemma xor_bytes_from_ok:
  assumes "z < length string" "string ! z = 0" "0 < z" "index \<le> z"
  shows "\<exists>cs. xor_bytes_from key string i index bs = Inr cs \<and> length cs = length bs \<and>
    xor_bytes_from key string i index cs = Inr bs"
  using assms(4)
proof (induction bs arbitrary: key i index)
  case (Cons b bs)
  obtain index' k where k: "XORKeyIndex i index string = Inr (index', k)" "index' + 1 \<le> z"
    using XORKeyIndex_ok [OF assms(1-3) Cons.prems] by blast
  have "(b XOR w) XOR w = b" for w :: byte by (auto simp: bit_eq_iff bit_xor_iff)
  then show ?case using k(1) Cons.IH [OF k(2), of "key XOR k" "i + 1"] by auto
qed simp

lemma terminated_bytes:
  assumes "terminated string"
  shows "\<exists>cs. xor_bytes_from key string i 0 bs = Inr cs \<and> length cs = length bs \<and>
    xor_bytes_from key string i 0 cs = Inr bs"
  using assms xor_bytes_from_ok [of _ string 0] by (auto simp: terminated_def)

lemma st_room_content: "st_invar s \<Longrightarrow> n \<le> length (st_content s) \<Longrightarrow> st_room s n"
  by (cases s) (auto simp: fixed_invar_def fixed_content_def)

lemma read_one:
  assumes "st_invar s" "drop (st_GetPosition s) (st_content s) = b # bs"
  shows "\<exists>s'. st_Read s 1 = Inr ([b], s') \<and> st_invar s' \<and> st_content s' = st_content s \<and>
    st_GetPosition s' = st_GetPosition s + 1 \<and> st_room s' = st_room s"
proof -
  have "st_GetPosition s < length (st_content s)"
    using assms(2) by (metis drop_all linorder_not_less list.distinct(1))
  then show ?thesis using ms.rd_ok [OF assms(1), of 1] assms(2) by auto
qed

lemma XORValues_same_loop_ok:
  assumes "st_invar s" "st_GetPosition s = i" "drop i (st_content s) = bs" "len = length (st_content s)"
    and "xor_bytes_from key string i index bs = Inr cs"
  shows "\<exists>s'. XORValues_same_loop key string len i index s = Inr s' \<and> st_invar s' \<and>
    st_content s' = take i (st_content s) @ cs \<and> st_room s' = st_room s"
  using assms
proof (induction bs arbitrary: key i index s cs)
  case Nil
  then have "\<not> i < len" by simp
  then have "XORValues_same_loop key string len i index s = Inr s" by (simp add: XORValues_same_loop.simps)
  then show ?case using Nil by simp
next
  case (Cons b bs)
  have i: "i < length (st_content s)"
    using Cons.prems(3) by (metis drop_all linorder_not_less list.distinct(1))
  obtain index' k cs' where k: "XORKeyIndex i index string = Inr (index', k)"
      "xor_bytes_from (key XOR k) string (i + 1) (index' + 1) bs = Inr cs'"
      "cs = (b XOR ucast (key XOR k)) # cs'"
    using Cons.prems(5) by auto
  let ?v = "b XOR ucast (key XOR k)"
  obtain s1 where s1: "st_Read s 1 = Inr ([b], s1)" "st_invar s1" "st_content s1 = st_content s"
      "st_room s1 = st_room s"
    using read_one [OF Cons.prems(1)] Cons.prems(2,3) by blast
  let ?s2 = "st_Seek s1 i Begin"
  have s2: "st_invar ?s2" "st_content ?s2 = st_content s" "st_GetPosition ?s2 = i" "st_room ?s2 = st_room s"
    using ms.sk_ok [OF s1(2), of i] i s1(3,4) by auto
  have "st_room ?s2 (st_GetPosition ?s2 + length [?v])"
    by (rule st_room_content [OF s2(1)]) (use s2(2,3) i in simp)
  from ms.wr_ok [OF s2(1) this] obtain s3 where s3: "st_Write ?s2 [?v] = Inr s3" "st_invar s3"
      "st_content s3 = blit (st_content s) i [?v]" "st_GetPosition s3 = i + 1" "st_room s3 = st_room s"
    using s2 by auto
  have d: "drop (i + 1) (st_content s) = bs" using Cons.prems(3) i by (metis Suc_eq_plus1 drop_Suc tl_drop list.sel(3))
  have c3: "st_content s3 = take i (st_content s) @ ?v # bs" using d by (simp add: s3(3) blit_def)
  have li: "length (take i (st_content s)) = i" using i by simp
  have "drop (i + 1) (st_content s3) = bs" "len = length (st_content s3)"
    "take (i + 1) (st_content s3) = take i (st_content s) @ [?v]"
    using c3 li d i Cons.prems(4) by auto
  note ih = Cons.IH [OF s3(2,4) this(1,2) k(2)] this(3)
  have "i < len" using i Cons.prems(4) by simp
  then have "XORValues_same_loop key string len i index s =
      XORValues_same_loop (key XOR k) string len (i + 1) (index' + 1) s3"
    using s1(1) s3(1) k(1) by (subst XORValues_same_loop.simps) simp
  with ih s3(5) k(3) show ?case by simp
qed

lemma XORValues_loop_ok:
  assumes "st_invar s" "st_GetPosition s = i" "drop i (st_content s) = bs" "len = length (st_content s)"
    and "xor_bytes_from key string i index bs = Inr cs"
    and "st_invar out" "st_GetPosition out = length (st_content out)"
    and "st_room out (length (st_content out) + length bs)"
  shows "\<exists>s' out'. XORValues_loop key string len i index s out = Inr (s', out') \<and>
    st_invar out' \<and> st_content out' = st_content out @ cs \<and> st_content s' = st_content s"
  using assms
proof (induction bs arbitrary: key i index s cs out)
  case Nil
  then have "\<not> i < len" by simp
  then have "XORValues_loop key string len i index s out = Inr (s, out)" by (simp add: XORValues_loop.simps)
  then show ?case using Nil by simp
next
  case (Cons b bs)
  have i: "i < length (st_content s)"
    using Cons.prems(3) by (metis drop_all linorder_not_less list.distinct(1))
  obtain index' k cs' where k: "XORKeyIndex i index string = Inr (index', k)"
      "xor_bytes_from (key XOR k) string (i + 1) (index' + 1) bs = Inr cs'"
      "cs = (b XOR ucast (key XOR k)) # cs'"
    using Cons.prems(5) by auto
  let ?v = "b XOR ucast (key XOR k)"
  obtain s1 where s1: "st_Read s 1 = Inr ([b], s1)" "st_invar s1" "st_content s1 = st_content s"
      "st_GetPosition s1 = i + 1"
    using read_one [OF Cons.prems(1)] Cons.prems(2,3) by blast
  have "st_room out (st_GetPosition out + length [?v])"
    using st_room_mono [OF Cons.prems(8)] Cons.prems(7) by simp
  from ms.write_append [OF Cons.prems(6,7) this] obtain o1 where o1: "st_Write out [?v] = Inr o1"
      "st_invar o1" "st_content o1 = st_content out @ [?v]" "st_GetPosition o1 = length (st_content o1)"
      "st_room o1 = st_room out" by blast
  have d: "drop (i + 1) (st_content s1) = bs" using Cons.prems(3) i s1(3) by (metis Suc_eq_plus1 drop_Suc tl_drop list.sel(3))
  have r: "st_room o1 (length (st_content o1) + length bs)" using Cons.prems(8) o1(3,5) by simp
  have l: "len = length (st_content s1)" using Cons.prems(4) s1(3) by simp
  have "i < len" using i Cons.prems(4) by simp
  then have "XORValues_loop key string len i index s out =
      XORValues_loop (key XOR k) string len (i + 1) (index' + 1) s1 o1"
    using s1(1) o1(1) k(1) by (subst XORValues_loop.simps) simp
  with Cons.IH [OF s1(2,4) d l k(2) o1(2,4) r] s1(3) o1(3) k(3) show ?case by simp
qed

lemma convert_same_ok:
  assumes "st_invar s" "enc_string vt st e = Inr string"
    and "xor_bytes_from (enc_key e) string (st_GetPosition s) 0 (drop (st_GetPosition s) (st_content s)) = Inr cs"
    and "length cs = length (drop (st_GetPosition s) (st_content s))"
  shows "\<exists>s'. convert_same vt st e s = Inr s' \<and> st_invar s' \<and>
    st_content s' = take (st_GetPosition s) (st_content s) @ cs \<and> st_GetPosition s' = st_GetPosition s \<and>
    st_room s' = st_room s"
proof -
  let ?p = "st_GetPosition s"
  have n: "st_GetLength s = length (st_content s)" by (rule st_GetLength_content [OF assms(1)])
  obtain s' where s': "XORValues_same_loop (enc_key e) string (st_GetLength s) ?p 0 s = Inr s'"
      "st_invar s'" "st_content s' = take ?p (st_content s) @ cs" "st_room s' = st_room s"
    using XORValues_same_loop_ok [OF assms(1) refl refl n assms(3)] by blast
  have "?p \<le> length (st_content s')"
    using ms.pos_le [OF assms(1)] s'(3) by simp
  from ms.sk_ok [OF s'(2) this] s' show ?thesis
    by (simp add: convert_same_def Let_def XORValues_same_def assms(2))
qed

text \<open>An encoder whose command can be read and is terminated.\<close>

definition enc_ready :: "'st sequence_ops \<Rightarrow> 'st \<Rightarrow> xor_encoding \<Rightarrow> bool" where
  "enc_ready vt st e \<longleftrightarrow> (\<exists>string. enc_string vt st e = Inr string \<and> terminated string)"

lemma convert_same_bytes:
  assumes "enc_ready vt st e"
  shows "\<exists>string. enc_string vt st e = Inr string \<and> (\<forall>i bs. \<exists>cs.
      xor_bytes_from (enc_key e) string i 0 bs = Inr cs \<and> length cs = length bs \<and>
      xor_bytes_from (enc_key e) string i 0 cs = Inr bs)"
  using assms terminated_bytes unfolding enc_ready_def by blast

lemma xor_convert_step:
  assumes "st_invar s" "enc_ready vt st e"
  shows "\<exists>s1. convert_same vt st e s = Inr s1 \<and> st_invar s1 \<and> st_GetPosition s1 = st_GetPosition s \<and>
    take (st_GetPosition s) (st_content s1) = take (st_GetPosition s) (st_content s) \<and>
    length (st_content s1) = length (st_content s) \<and>
    (\<forall>t. st_invar t \<and> st_content t = st_content s1 \<and> st_GetPosition t = st_GetPosition s \<longrightarrow>
      (\<exists>s2. convert_same vt st e t = Inr s2 \<and> st_invar s2 \<and> st_content s2 = st_content s \<and>
        st_GetPosition s2 = st_GetPosition s))"
proof -
  let ?p = "st_GetPosition s" and ?d = "drop (st_GetPosition s) (st_content s)"
  have p: "?p \<le> length (st_content s)" by (rule ms.pos_le [OF assms(1)])
  obtain string cs where e: "enc_string vt st e = Inr string"
      "xor_bytes_from (enc_key e) string ?p 0 ?d = Inr cs" "length cs = length ?d"
      "xor_bytes_from (enc_key e) string ?p 0 cs = Inr ?d"
    using convert_same_bytes [OF assms(2)] by blast
  obtain s1 where s1: "convert_same vt st e s = Inr s1" "st_invar s1"
      "st_content s1 = take ?p (st_content s) @ cs" "st_GetPosition s1 = ?p"
    using convert_same_ok [OF assms(1) e(1,2,3)] by blast
  have "\<exists>s2. convert_same vt st e t = Inr s2 \<and> st_invar s2 \<and> st_content s2 = st_content s \<and>
        st_GetPosition s2 = ?p"
    if t: "st_invar t" "st_content t = st_content s1" "st_GetPosition t = ?p" for t
  proof -
    have d: "drop (st_GetPosition t) (st_content t) = cs" using s1(3) t(2,3) p by simp
    have "take ?p (st_content t) @ ?d = st_content s" using s1(3) t(2) p by simp
    then show ?thesis
      using convert_same_ok [OF t(1) e(1), unfolded d, unfolded t(3), OF e(4)] e(3) by auto
  qed
  with s1 e(3) p show ?thesis by auto
qed

section \<open>Properties\<close>

text \<open>Converting a stream in place from its position to its end and then converting the result
  with the same numbers gives the stream back, and only the bytes from the position on change.\<close>

theorem xor_convert_involution:
  assumes "st_invar s" "enc_ready vt st e"
  shows "\<exists>s1 s2. convert_same vt st e s = Inr s1 \<and> convert_same vt st e s1 = Inr s2 \<and>
    st_content s2 = st_content s \<and> st_GetPosition s2 = st_GetPosition s \<and>
    take (st_GetPosition s) (st_content s1) = take (st_GetPosition s) (st_content s) \<and>
    length (st_content s1) = length (st_content s)"
  using xor_convert_step [OF assms] by blast

definition two_commands :: command_array where
  "two_commands = \<lparr>ca_size = 4, ca_rows = [[115, 97, 121, 0], [37, 200, 0, 9]]\<rparr>"

lemma two_commands_ready: "enc_ready SequenceTemplate two_commands e"
proof -
  let ?i = "unat (xe_reliableAcknowledge e) mod 2"
  have t: "terminated [115, 97, 121, 0]" "terminated [37, 200, 0, 9]"
    unfolding terminated_def by (intro exI [of _ 3], simp) (intro exI [of _ 2], simp)
  have m: "getMaxElements SequenceTemplate two_commands = 2"
    by (simp add: SequenceTemplate_def SequenceTemplate_getMaxElements_def two_commands_def)
  have "seq_get SequenceTemplate two_commands 0 = Inr [115, 97, 121, 0]"
    "seq_get SequenceTemplate two_commands 1 = Inr [37, 200, 0, 9]"
    by (simp_all add: SequenceTemplate_def SequenceTemplate_get_def two_commands_def)
  moreover have "?i = 0 \<or> ?i = 1" by auto
  ultimately show ?thesis using t unfolding enc_ready_def enc_string_def m by auto
qed

theorem xor_convert_involution_witness:
  "\<exists>s1 s2. convert_same SequenceTemplate two_commands (XOREncoding_new 77)
        (FixedS (fixed_new [1, 2, 3, 4, 5, 6, 7] 7 7)) = Inr s1 \<and>
    convert_same SequenceTemplate two_commands (XOREncoding_new 77) s1 = Inr s2 \<and>
    st_content s2 = [1, 2, 3, 4, 5, 6, 7]"
  using xor_convert_involution [OF _ two_commands_ready, of "FixedS (fixed_new [1, 2, 3, 4, 5, 6, 7] 7 7)"
      "XOREncoding_new 77"] by auto

text \<open>Converting into another, empty stream writes the very bytes that converting in place
  leaves behind the position.\<close>

theorem xor_convert_copy_same:
  assumes "st_invar s" "enc_ready vt st e"
    and "st_invar out" "st_content out = []" "st_room out (length (st_content s))"
  shows "\<exists>s1 s2 out'. convert_same vt st e s = Inr s1 \<and> convert vt st e s out = Inr (s2, out') \<and>
    st_content s2 = st_content s \<and> st_GetPosition out' = 0 \<and>
    st_content out' = drop (st_GetPosition s) (st_content s1)"
proof -
  let ?p = "st_GetPosition s" and ?d = "drop (st_GetPosition s) (st_content s)"
  have p: "?p \<le> length (st_content s)" by (rule ms.pos_le [OF assms(1)])
  have n: "st_GetLength s = length (st_content s)" by (rule st_GetLength_content [OF assms(1)])
  obtain string cs where e: "enc_string vt st e = Inr string"
      "xor_bytes_from (enc_key e) string ?p 0 ?d = Inr cs" "length cs = length ?d"
    using convert_same_bytes [OF assms(2)] by blast
  have o: "st_GetPosition out = length (st_content out)" using ms.pos_le [OF assms(3)] assms(4) by simp
  have r: "st_room out (length (st_content out) + length ?d)"
    using st_room_mono [OF assms(5)] assms(4) by simp
  obtain s2 o1 where c: "XORValues_loop (enc_key e) string (st_GetLength s) ?p 0 s out = Inr (s2, o1)"
      "st_invar o1" "st_content o1 = st_content out @ cs" "st_content s2 = st_content s"
    using XORValues_loop_ok [OF assms(1) refl refl n e(2) assms(3) o r] by blast
  have "convert vt st e s out = Inr (s2, st_Seek o1 0 Begin)"
    using e(1) c(1) by (simp add: convert_def XORValues_def)
  with ms.sk_ok [OF c(2), of 0] c(3,4) assms(4) convert_same_ok [OF assms(1) e] p show ?thesis by auto
qed

theorem xor_convert_copy_same_witness:
  "\<exists>s1 s2 out'. convert_same SequenceTemplate two_commands (XOREncoding_new 77)
        (FixedS (fixed_new [1, 2, 3, 4, 5, 6, 7] 7 7)) = Inr s1 \<and>
    convert SequenceTemplate two_commands (XOREncoding_new 77)
        (FixedS (fixed_new [1, 2, 3, 4, 5, 6, 7] 7 7)) (DynS (dyn_new 0)) = Inr (s2, out') \<and>
    st_content out' = st_content s1"
proof -
  have "st_GetPosition (FixedS (fixed_new [1, 2, 3, 4, 5, 6, 7] 7 7)) = 0"
    by (simp add: fixed_GetPosition_def fixed_new_def)
  then show ?thesis
    using xor_convert_copy_same [OF _ two_commands_ready, of "FixedS (fixed_new [1, 2, 3, 4, 5, 6, 7] 7 7)"
        "DynS (dyn_new 0)" "XOREncoding_new 77"] by auto
qed

lemma msg_new_content: "msg_new s mode = Inr m \<Longrightarrow> st_content (m_stream m) = st_content s"
  by (auto simp: msg_new_def msg_Reset_def Let_def dest!: st_Read_content split: if_splits)

lemma seek_start:
  assumes "st_invar s" "n \<le> length (st_content s)"
  shows "st_invar (st_Seek s n Begin)" "st_content (st_Seek s n Begin) = st_content s"
    "st_GetPosition (st_Seek s n Begin) = n"
  using ms.sk_ok [OF assms] by auto

text \<open>The numbers the client encodes with: its challenge, the server id, the packet's sequence
  number and the last command it received.\<close>

definition client_encoder :: "('r, 'c) client_encoding \<Rightarrow> u32 \<Rightarrow> xor_encoding" where
  "client_encoder ce n = \<lparr>xe_challenge = ce_challenge ce, xe_secretKey = ce_serverId ce,
     xe_messageAcknowledge = n, xe_reliableAcknowledge = getCommandSequence (ce_commands ce)\<rparr>"

text \<open>C17: What \<open>ClientEncoding::handleTransmit\<close> sends is the packet with its first 12 bytes as they
  were, at position 0, such that a receiver that decodes it from byte 12 on with the same
  challenge, server id, sequence number and command recovers the packet.\<close>

theorem client_transmit_decodes:
  assumes "st_invar s" "bytes_bits (st_content s) = code32 a @ code32 n @ post" "True \<in> set post"
    and "12 < length (st_content s)" "enc_ready vt (cs_store (ce_commands ce)) (client_encoder ce n)"
  shows "\<exists>s1 s2. handleTransmit None vt ce s = Inr s1 \<and> st_GetPosition s1 = 0 \<and>
    take 12 (st_content s1) = take 12 (st_content s) \<and>
    convert_same vt (cs_store (ce_commands ce)) (client_encoder ce n) (st_Seek s1 12 Begin) = Inr s2 \<and>
    st_content s2 = st_content s"
proof -
  note k = seek_start [OF assms(1), of 0, simplified]
  have "bytes_bits (st_content (st_Seek s 0 Begin)) = (code32 a @ code32 n @ post) @ []"
    using assms(2) k(2) by simp
  then obtain m where m: "msg_new (st_Seek s 0 Begin) msgMode_Reading = Inr m"
      "mr m (code32 a @ code32 n @ post)"
    using msg_new_reads [OF k(1,3)] by blast
  obtain m1 where m1: "ReadInteger m = Inr (a, m1)" "mr m1 (code32 n @ post)"
    using gets_step [OF ReadInteger_gets m(2)] assms(3) by auto
  obtain m2 where m2: "ReadInteger m1 = Inr (n, m2)" "mr m2 post"
    using gets_step [OF ReadInteger_gets m1(2)] assms(3) by auto
  have c: "m_codec m = BitCodec" "m_codec m1 = BitCodec" "st_invar (m_stream m2)"
    using m(2) m1(2) m2(2) by (auto simp: mr_def rd_next_def mstate_def)
  have co: "st_content (m_stream m2) = st_content s"
    using ReadInteger_content [OF m2(1) c(2)] ReadInteger_content [OF m1(1) c(1)]
      msg_new_content [OF m(1)] k(2) by simp
  note j = seek_start [OF c(3), of 12, unfolded co]
  have j12: "12 \<le> length (st_content s)" using assms(4) by simp
  obtain s1 where e: "convert_same vt (cs_store (ce_commands ce)) (client_encoder ce n)
        (st_Seek (m_stream m2) 12 Begin) = Inr s1" "st_invar s1"
      "take 12 (st_content s1) = take 12 (st_content s)"
      "length (st_content s1) = length (st_content s)"
    and undo: "\<And>t. st_invar t \<Longrightarrow> st_content t = st_content s1 \<Longrightarrow> st_GetPosition t = 12 \<Longrightarrow>
      \<exists>s2. convert_same vt (cs_store (ce_commands ce)) (client_encoder ce n) t = Inr s2 \<and>
        st_content s2 = st_content s"
    using xor_convert_step [OF j(1) [OF j12] assms(5), unfolded j(2,3) [OF j12]] by blast
  have len: "\<not> st_GetLength s \<le> 12" using st_GetLength_content [OF assms(1)] assms(4) by simp
  note q = seek_start [OF e(2), of 0, simplified]
  have l12: "12 \<le> length (st_content (st_Seek s1 0 Begin))" using q(2) e(4) j12 by simp
  note q12 = seek_start [OF q(1) l12]
  have "handleTransmit None vt ce s = Inr (st_Seek s1 0 Begin)"
    using m(1) m1(1) m2(1) e(1) len
    by (simp add: handleTransmit_def run_next_def Let_def client_encoder_def XOREncoding_new_def
        setReliableAcknowledge_def setMessageAcknowledge_def setSecretKey_def)
  moreover obtain s2 where "convert_same vt (cs_store (ce_commands ce)) (client_encoder ce n)
      (st_Seek (st_Seek s1 0 Begin) 12 Begin) = Inr s2" "st_content s2 = st_content s"
    using undo [OF q12(1) _ q12(3)] q12(2) q(2) by auto
  ultimately show ?thesis using e(3) q by auto
qed

theorem client_transmit_decodes_witness:
  "\<exists>s ce s1 s2. 12 < length (st_content s) \<and>
    handleTransmit None SequenceTemplate (ce :: (command_array, command_array) client_encoding) s = Inr s1 \<and>
    convert_same SequenceTemplate two_commands (client_encoder ce 5) (st_Seek s1 12 Begin) = Inr s2 \<and>
    st_content s2 = st_content s"
proof -
  let ?X = "code32 9 @ code32 5"
  let ?n = "length ?X + 13"
  let ?post = "replicate (8 * ?n - length ?X) True"
  let ?c = "bits_bytes ?n (?X @ ?post)"
  let ?s = "FixedS (fixed_new ?c ?n ?n)"
  let ?ce = "\<lparr>ce_serverId = 9, ce_reliable = IReliableSequence_new two_commands,
    ce_commands = ICommandSequence_new two_commands, ce_challenge = 77\<rparr>"
  have c: "st_content ?s = ?c" by simp
  have "length (?X @ ?post) = 8 * ?n" by simp
  then have b: "bytes_bits (st_content ?s) = code32 9 @ code32 5 @ ?post"
    unfolding c by (simp only: bytes_bits_bits_bytes append_assoc)
  have t: "True \<in> set ?post" by simp
  have l: "12 < length (st_content ?s)" unfolding c by (simp only: length_bits_bytes)
  have i: "st_invar ?s" by simp
  have st: "cs_store (ce_commands ?ce) = two_commands" by (simp add: ICommandSequence_new_def)
  have r: "enc_ready SequenceTemplate (cs_store (ce_commands ?ce)) (client_encoder ?ce 5)"
    unfolding st by (rule two_commands_ready)
  from client_transmit_decodes [OF i b t l r] l show ?thesis unfolding st by blast
qed

text \<open>The encoder of the other side: no secret key, and the last command it acknowledged.\<close>

definition server_encoder :: "('r, 'c) client_encoding \<Rightarrow> u32 \<Rightarrow> xor_encoding" where
  "server_encoder ce n = \<lparr>xe_challenge = ce_challenge ce, xe_secretKey = 0,
     xe_messageAcknowledge = n, xe_reliableAcknowledge = getReliableAcknowledge (ce_reliable ce)\<rparr>"

text \<open>C18: A packet that begins with its sequence number and that the other side encoded from byte 8
  on comes out of \<open>ClientEncoding::handleReceive\<close> as it was, positioned behind the sequence
  number.\<close>

theorem client_receive_decodes:
  assumes "st_invar p" "8 \<le> length (st_content p)" "take 4 (st_content p) = le_bytes 4 (unat n)"
    and "enc_ready vt (rs_store (ce_reliable ce)) (server_encoder ce n)"
    and "convert_same vt (rs_store (ce_reliable ce)) (server_encoder ce n) (st_Seek p 8 Begin) = Inr e"
  shows "\<exists>s. handleReceive None vt ce e = Inr s \<and> st_content s = st_content p \<and> st_GetPosition s = 4"
proof -
  note k = seek_start [OF assms(1,2)]
  have e: "st_invar e" "take 8 (st_content e) = take 8 (st_content p)"
      "length (st_content e) = length (st_content p)"
    and undo: "\<And>t. st_invar t \<Longrightarrow> st_content t = st_content e \<Longrightarrow> st_GetPosition t = 8 \<Longrightarrow>
      \<exists>s2. convert_same vt (rs_store (ce_reliable ce)) (server_encoder ce n) t = Inr s2 \<and>
        st_invar s2 \<and> st_content s2 = st_content p"
    using xor_convert_step [OF k(1) assms(4), unfolded k(2,3)] assms(5) by auto
  have "take 4 (st_content e) = take 4 (st_content p)"
    using arg_cong [OF e(2), of "take 4"] by (simp add: min_def)
  then have t4: "take 4 (drop 0 (st_content e)) = le_bytes 4 (unat n)" using assms(3) by simp
  note q = seek_start [OF e(1), of 0, simplified]
  obtain m where m: "msg_new (st_Seek e 0 Begin) msgMode_Reading = Inr m" "st_invar (m_stream m)"
      "st_content (m_stream m) = st_content e" "st_GetPosition (m_stream m) = min (length (st_content e)) 32"
      "m_bit m = 0" "m_bitData m = take 32 (st_content e) @ replicate (32 - length (st_content e)) 0"
      "m_mode m = msgMode_Reading"
    using msg_new_oob [OF q(1,3,2)] by blast
  let ?m = "msg_SetCodec OOBCodec m"
  have "ReadUInteger ?m = Inr (of_nat (le_val (take 4 (drop 0 (st_content e)))), ?m\<lparr>m_bit := 8 * (0 + 4)\<rparr>)"
    by (rule read_header(1)) (use m assms(2) e(3) st_GetLength_content [OF m(2)] in \<open>simp_all add: msg_SetCodec_def\<close>)
  then have r: "ReadInteger ?m = Inr (n, ?m\<lparr>m_bit := 32\<rparr>)"
    unfolding t4 by (simp add: ReadInteger_def ReadUInteger_def of_nat_le_val_u32)
  have j8: "8 \<le> length (st_content (m_stream m))" using m(3) e(3) assms(2) by simp
  note j = seek_start [OF m(2) j8]
  obtain s2 where s2: "convert_same vt (rs_store (ce_reliable ce)) (server_encoder ce n)
      (st_Seek (m_stream m) 8 Begin) = Inr s2" "st_invar s2" "st_content s2 = st_content p"
    using undo [OF j(1) _ j(3)] j(2) m(3) by auto
  have "handleReceive None vt ce e = Inr (st_Seek s2 4 Begin)"
    using m(1) r s2(1)
    by (simp add: handleReceive_def run_next_def Let_def server_encoder_def XOREncoding_new_def
        setReliableAcknowledge_def setMessageAcknowledge_def msg_SetCodec_def)
  moreover have "4 \<le> length (st_content s2)" using s2(3) assms(2) by simp
  ultimately show ?thesis using seek_start [OF s2(2)] s2(3) by auto
qed

theorem client_receive_decodes_witness:
  "\<exists>e s. convert_same SequenceTemplate two_commands
      (server_encoder \<lparr>ce_serverId = 9, ce_reliable = IReliableSequence_new two_commands,
        ce_commands = ICommandSequence_new two_commands, ce_challenge = 77\<rparr> 5)
      (st_Seek (FixedS (fixed_new [5, 0, 0, 0, 1, 1, 1, 1, 200, 201] 10 10)) 8 Begin) = Inr e \<and>
    handleReceive None SequenceTemplate \<lparr>ce_serverId = 9, ce_reliable = IReliableSequence_new two_commands,
        ce_commands = ICommandSequence_new two_commands, ce_challenge = 77\<rparr> e = Inr s \<and>
    st_content s = [5, 0, 0, 0, 1, 1, 1, 1, 200, 201] \<and> st_GetPosition s = 4"
proof -
  let ?p = "FixedS (fixed_new [5, 0, 0, 0, 1, 1, 1, 1, 200, 201] 10 10)"
  let ?ce = "\<lparr>ce_serverId = 9, ce_reliable = IReliableSequence_new two_commands,
        ce_commands = ICommandSequence_new two_commands, ce_challenge = 77\<rparr>"
  have "le_bytes 4 (unat (5 :: u32)) = [5, 0, 0, 0]" by code_simp
  then have p: "st_invar ?p" "8 \<le> length (st_content ?p)"
      "take 4 (st_content ?p) = le_bytes 4 (unat (5 :: u32))" by simp_all
  have st: "rs_store (ce_reliable ?ce) = two_commands" by (simp add: IReliableSequence_new_def)
  have r: "enc_ready SequenceTemplate (rs_store (ce_reliable ?ce)) (server_encoder ?ce 5)"
    unfolding st by (rule two_commands_ready)
  obtain e where e: "convert_same SequenceTemplate (rs_store (ce_reliable ?ce)) (server_encoder ?ce 5)
      (st_Seek ?p 8 Begin) = Inr e"
    using xor_convert_step [OF seek_start(1) [OF p(1,2)] r] by blast
  from client_receive_decodes [OF p r e] e show ?thesis unfolding st by auto
qed

end
