(* ===== verification/UserCmd.thy ===== *)
theory UserCmd
  imports MsgOps
begin

text \<open>
  The player's input: buttons, movement and commands (\<open>Types/UserInput.cpp\<close>, \<open>UserButtons.cpp\<close>,
  \<open>UserWeaponCommands.cpp\<close>), their delta serialisation (\<open>Serializable/UserInput.cpp\<close>) and the
  client's ring of the last 256 commands (\<open>Client/UserInput.cpp\<close>, \<open>WarpArray.h\<close>). Times are
  nanoseconds of the steady clock; floats are their 32 bits.
\<close>

section \<open>Buttons and weapon commands\<close>

definition AttackPrimary :: u32 where "AttackPrimary = push_bit 0 1"
definition AttackSecondary :: u32 where "AttackSecondary = push_bit 1 1"
definition Run :: u32 where "Run = push_bit 2 1"
definition Use :: u32 where "Use = push_bit 3 1"
definition LeanLeft :: u32 where "LeanLeft = push_bit 4 1"
definition LeanRight :: u32 where "LeanRight = push_bit 5 1"
definition InMenu :: u32 where "InMenu = push_bit 6 1"

definition WeaponCommands_MAX :: u32 where "WeaponCommands_MAX = 15"

definition GetWeaponCommandMask :: u32 where
  "GetWeaponCommandMask = push_bit 7 WeaponCommands_MAX"

text \<open>\<open>flags\<close> is promoted to 32 bits in each expression and the result is cut to 16.\<close>

record UserActionInput =
  ai_flags :: u16

definition UserActionInput_new :: UserActionInput where
  "UserActionInput_new = \<lparr>ai_flags = 0\<rparr>"

definition isHeld :: "UserActionInput \<Rightarrow> u32 \<Rightarrow> bool" where
  "isHeld a button \<longleftrightarrow> ucast (ai_flags a) AND button \<noteq> 0"

definition checkAnyHeld :: "UserActionInput \<Rightarrow> u32 list \<Rightarrow> bool" where
  "checkAnyHeld a buttons \<longleftrightarrow> list_ex (isHeld a) buttons"

definition checkAllHeld :: "UserActionInput \<Rightarrow> u32 list \<Rightarrow> bool" where
  "checkAllHeld a buttons \<longleftrightarrow> list_all (isHeld a) buttons"

definition setFlags :: "u16 \<Rightarrow> UserActionInput \<Rightarrow> UserActionInput" where
  "setFlags newFlags a = a\<lparr>ai_flags := newFlags\<rparr>"

definition getFlags :: "UserActionInput \<Rightarrow> u16" where
  "getFlags a = ai_flags a"

definition addWeaponCommand :: "u32 \<Rightarrow> UserActionInput \<Rightarrow> UserActionInput" where
  "addWeaponCommand weaponCommand a =
     a\<lparr>ai_flags := ucast (ucast (ai_flags a) OR (push_bit 7 weaponCommand AND GetWeaponCommandMask))\<rparr>"

definition removeWeaponCommand :: "u32 \<Rightarrow> UserActionInput \<Rightarrow> UserActionInput" where
  "removeWeaponCommand weaponCommand a =
     a\<lparr>ai_flags := ucast (ucast (ai_flags a) AND (NOT (push_bit 7 weaponCommand) AND GetWeaponCommandMask))\<rparr>"

definition addButton :: "u32 \<Rightarrow> UserActionInput \<Rightarrow> UserActionInput" where
  "addButton newButton a = a\<lparr>ai_flags := ucast (ucast (ai_flags a) OR newButton)\<rparr>"

definition removeButton :: "u32 \<Rightarrow> UserActionInput \<Rightarrow> UserActionInput" where
  "removeButton button a = a\<lparr>ai_flags := ucast (ucast (ai_flags a) AND NOT button)\<rparr>"

definition removeAllButtons :: "UserActionInput \<Rightarrow> UserActionInput" where
  "removeAllButtons a = a\<lparr>ai_flags := 0\<rparr>"

definition setOnlyButton :: "u32 \<Rightarrow> UserActionInput \<Rightarrow> UserActionInput" where
  "setOnlyButton button a = a\<lparr>ai_flags := ucast button\<rparr>"

section \<open>Movement\<close>

type_synonym netAngles = "u16 \<times> u16 \<times> u16"

record UserMovementInput =
  mi_angles :: netAngles
  mi_forwardmove :: byte
  mi_rightmove :: byte
  mi_upmove :: byte

definition UserMovementInput_new :: UserMovementInput where
  "UserMovementInput_new =
    \<lparr>mi_angles = (0, 0, 0), mi_forwardmove = 0, mi_rightmove = 0, mi_upmove = 0\<rparr>"

definition setAngles_shorts :: "u16 \<Rightarrow> u16 \<Rightarrow> u16 \<Rightarrow> UserMovementInput \<Rightarrow> UserMovementInput" where
  "setAngles_shorts pitch yaw roll mv = mv\<lparr>mi_angles := (pitch, yaw, roll)\<rparr>"

definition setAngles :: "netAngles \<Rightarrow> UserMovementInput \<Rightarrow> UserMovementInput" where
  "setAngles newAngles mv = mv\<lparr>mi_angles := newAngles\<rparr>"

definition getAngles :: "UserMovementInput \<Rightarrow> netAngles" where
  "getAngles mv = mi_angles mv"

definition getForwardValue :: "UserMovementInput \<Rightarrow> byte" where
  "getForwardValue mv = mi_forwardmove mv"

definition getRightValue :: "UserMovementInput \<Rightarrow> byte" where
  "getRightValue mv = mi_rightmove mv"

definition getUpValue :: "UserMovementInput \<Rightarrow> byte" where
  "getUpValue mv = mi_upmove mv"

definition moveForward :: "byte \<Rightarrow> UserMovementInput \<Rightarrow> UserMovementInput" where
  "moveForward v mv = mv\<lparr>mi_forwardmove := v\<rparr>"

definition moveRight :: "byte \<Rightarrow> UserMovementInput \<Rightarrow> UserMovementInput" where
  "moveRight v mv = mv\<lparr>mi_rightmove := v\<rparr>"

definition moveUp :: "byte \<Rightarrow> UserMovementInput \<Rightarrow> UserMovementInput" where
  "moveUp v mv = mv\<lparr>mi_upmove := v\<rparr>"

definition movement_clear :: "UserMovementInput \<Rightarrow> UserMovementInput" where
  "movement_clear mv = mv\<lparr>mi_forwardmove := 0, mi_rightmove := 0, mi_upmove := 0\<rparr>"

definition movement_jump :: "UserMovementInput \<Rightarrow> UserMovementInput" where
  "movement_jump mv = moveUp 127 mv"

definition movement_crouch :: "UserMovementInput \<Rightarrow> UserMovementInput" where
  "movement_crouch mv = moveUp (- 128) mv"

section \<open>Commands and eyes\<close>

record usercmd =
  uc_serverTime :: int
  uc_movement :: UserMovementInput
  uc_action :: UserActionInput

definition usercmd_at :: "int \<Rightarrow> usercmd" where
  "usercmd_at serverTimeValue = \<lparr>uc_serverTime = serverTimeValue,
     uc_movement = UserMovementInput_new, uc_action = UserActionInput_new\<rparr>"

definition usercmd_new :: usercmd where
  "usercmd_new = usercmd_at 0"

definition getServerTime :: "usercmd \<Rightarrow> int" where
  "getServerTime c = uc_serverTime c"

definition setServerTime :: "int \<Rightarrow> usercmd \<Rightarrow> usercmd" where
  "setServerTime newTime c = c\<lparr>uc_serverTime := newTime\<rparr>"

definition getMovement :: "usercmd \<Rightarrow> UserMovementInput" where
  "getMovement c = uc_movement c"

definition getAction :: "usercmd \<Rightarrow> UserActionInput" where
  "getAction c = uc_action c"

record usereyes =
  ey_angles :: "u32 \<times> u32"
  ey_ofs :: "byte \<times> byte \<times> byte"

definition usereyes_new :: usereyes where
  "usereyes_new = \<lparr>ey_angles = (0, 0), ey_ofs = (0, 0, 0)\<rparr>"

definition eyes_setOffset :: "byte \<Rightarrow> byte \<Rightarrow> byte \<Rightarrow> usereyes \<Rightarrow> usereyes" where
  "eyes_setOffset x y z e = e\<lparr>ey_ofs := (x, y, z)\<rparr>"

definition eyes_getOffset :: "usereyes \<Rightarrow> byte \<times> byte \<times> byte" where
  "eyes_getOffset e = ey_ofs e"

definition eyes_setAngles :: "u32 \<Rightarrow> u32 \<Rightarrow> usereyes \<Rightarrow> usereyes" where
  "eyes_setAngles pitch yaw e = e\<lparr>ey_angles := (pitch, yaw)\<rparr>"

definition eyes_getAngles :: "usereyes \<Rightarrow> u32 \<times> u32" where
  "eyes_getAngles e = ey_angles e"

section \<open>Serialisation\<close>

text \<open>
  \<open>duration_cast\<close> to milliseconds truncates. The serialisable object holds a reference to the
  command and the 32-bit time it was last sent with.
\<close>

definition to_ms :: "int \<Rightarrow> int" where
  "to_ms t = (if 0 \<le> t then t div 1000000 else - ((- t) div 1000000))"

definition of_ms :: "int \<Rightarrow> int" where
  "of_ms n = n * 1000000"

record SerializableUsercmd =
  su_ucmd :: usercmd
  su_time32 :: u32

definition SerializableUsercmd_new :: "usercmd \<Rightarrow> SerializableUsercmd" where
  "SerializableUsercmd_new inCmd = \<lparr>su_ucmd = inCmd, su_time32 = 0\<rparr>"

definition load_time :: "usercmd \<Rightarrow> msg \<Rightarrow> msg_error + usercmd \<times> msg" where
  "load_time fromCmd m =
     rbind (ReadBool m) (\<lambda>(isByteTime, m1).
       if isByteTime then
         rbind (ReadByte m1) (\<lambda>(deltaTime, m2).
           Inr (usercmd_at (getServerTime fromCmd + of_ms (uint deltaTime)), m2))
       else
         rbind (ReadUInteger m1) (\<lambda>(serverTime, m2). Inr (usercmd_at (of_ms (uint serverTime)), m2)))"

definition load_changes :: "usercmd \<Rightarrow> int \<Rightarrow> usercmd \<Rightarrow> msg \<Rightarrow> msg_error + usercmd \<times> msg" where
  "load_changes fromCmd key ucmd m =
     (let mFromInput = getMovement fromCmd; aFromInput = getAction fromCmd;
          (a0, a1, a2) = getAngles mFromInput in
      rbind (ReadDeltaTypeKey a0 key 16 m) (\<lambda>(b0, m1).
      rbind (ReadDeltaTypeKey a1 key 16 m1) (\<lambda>(b1, m2).
      rbind (ReadDeltaTypeKey a2 key 16 m2) (\<lambda>(b2, m3).
      rbind (ReadDeltaTypeKey (getForwardValue mFromInput) key 8 m3) (\<lambda>(fw, m4).
      rbind (ReadDeltaTypeKey (getRightValue mFromInput) key 8 m4) (\<lambda>(rt, m5).
      rbind (ReadDeltaTypeKey (getUpValue mFromInput) key 8 m5) (\<lambda>(up, m6).
      rbind (ReadDeltaTypeKey (getFlags aFromInput) key 16 m6) (\<lambda>(fl, m7).
        Inr (ucmd\<lparr>uc_movement := moveUp up (moveRight rt (moveForward fw
                    (setAngles (b0, b1, b2) (uc_movement ucmd)))),
                  uc_action := setFlags fl (uc_action ucmd)\<rparr>, m7)))))))))"

definition usercmd_LoadDelta :: "usercmd \<Rightarrow> int \<Rightarrow> msg \<Rightarrow> msg_error + usercmd \<times> msg" where
  "usercmd_LoadDelta fromCmd key m =
     rbind (load_time fromCmd m) (\<lambda>(ucmd, m1).
     rbind (ReadBool m1) (\<lambda>(hasChanges, m2).
       if hasChanges then
         load_changes fromCmd (uint ((word_of_int key :: u32) XOR word_of_int (to_ms (getServerTime ucmd)))) ucmd m2
       else Inr (ucmd, m2)))"

definition has_changes :: "usercmd \<Rightarrow> usercmd \<Rightarrow> bool" where
  "has_changes fromCmd ucmd \<longleftrightarrow>
     (let (a0, a1, a2) = getAngles (getMovement fromCmd); (b0, b1, b2) = getAngles (getMovement ucmd) in
      a0 \<noteq> b0 \<or> a1 \<noteq> b1 \<or> a2 \<noteq> b2 \<or>
      getForwardValue (getMovement fromCmd) \<noteq> getForwardValue (getMovement ucmd) \<or>
      getRightValue (getMovement fromCmd) \<noteq> getRightValue (getMovement ucmd) \<or>
      getUpValue (getMovement fromCmd) \<noteq> getUpValue (getMovement ucmd) \<or>
      getFlags (getAction fromCmd) \<noteq> getFlags (getAction ucmd))"

definition save_time :: "u32 \<Rightarrow> u32 \<Rightarrow> msg \<Rightarrow> msg_error + msg" where
  "save_time fromTime time32 m =
     (let deltaTime = time32 - fromTime in
      if deltaTime < 256 then rbind (WriteBool True m) (WriteByte (ucast deltaTime))
      else rbind (WriteBool False m) (WriteUInteger time32))"

definition save_changes :: "usercmd \<Rightarrow> usercmd \<Rightarrow> int \<Rightarrow> msg \<Rightarrow> msg_error + msg" where
  "save_changes fromCmd ucmd keyTime m =
     (let mFromInput = getMovement fromCmd; mInput = getMovement ucmd;
          (a0, a1, a2) = getAngles mFromInput; (b0, b1, b2) = getAngles mInput in
      rbind (WriteDeltaTypeKey a0 b0 keyTime 16 m) (\<lambda>m1.
      rbind (WriteDeltaTypeKey a1 b1 keyTime 16 m1) (\<lambda>m2.
      rbind (WriteDeltaTypeKey a2 b2 keyTime 16 m2) (\<lambda>m3.
      rbind (WriteDeltaTypeKey (getForwardValue mFromInput) (getForwardValue mInput) keyTime 8 m3) (\<lambda>m4.
      rbind (WriteDeltaTypeKey (getRightValue mFromInput) (getRightValue mInput) keyTime 8 m4) (\<lambda>m5.
      rbind (WriteDeltaTypeKey (getUpValue mFromInput) (getUpValue mInput) keyTime 8 m5) (\<lambda>m6.
      WriteDeltaTypeKey (getFlags (getAction fromCmd)) (getFlags (getAction ucmd)) keyTime 16 m6)))))))"

definition usercmd_SaveDelta ::
  "SerializableUsercmd \<Rightarrow> int \<Rightarrow> SerializableUsercmd \<Rightarrow> msg \<Rightarrow> msg_error + SerializableUsercmd \<times> msg" where
  "usercmd_SaveDelta fromSer key this m =
     (let fromCmd = su_ucmd fromSer; ucmd = su_ucmd this;
          time32 = (word_of_int (to_ms (getServerTime ucmd)) :: u32) in
      rbind (save_time (su_time32 fromSer) time32 m) (\<lambda>m1.
        let hasChanges = has_changes fromCmd ucmd in
        rbind (WriteBool hasChanges m1) (\<lambda>m2.
        rbind (if hasChanges then save_changes fromCmd ucmd (uint ((word_of_int key :: u32) XOR time32)) m2
               else Inr m2) (\<lambda>m3.
        Inr (this\<lparr>su_time32 := time32\<rparr>, m3)))))"

text \<open>\<open>!=\<close> on floats: a NaN differs from everything, the two zeros are equal.\<close>

definition float_nan :: "u32 \<Rightarrow> bool" where
  "float_nan w \<longleftrightarrow> 0x7F800000 < w AND 0x7FFFFFFF"

definition float_ne :: "u32 \<Rightarrow> u32 \<Rightarrow> bool" where
  "float_ne a b \<longleftrightarrow> float_nan a \<or> float_nan b \<or> (a \<noteq> b \<and> (a OR b) AND 0x7FFFFFFF \<noteq> 0)"

definition WriteDeltaType_float :: "u32 \<Rightarrow> u32 \<Rightarrow> msg \<Rightarrow> msg_error + msg" where
  "WriteDeltaType_float a b m =
     (let isDiff = float_ne a b in
      rbind (WriteBool isDiff m) (\<lambda>m'. if isDiff then WriteNumber b 32 m' else Inr m'))"

definition eyes_LoadDelta :: "usereyes \<Rightarrow> usereyes \<Rightarrow> msg \<Rightarrow> msg_error + usereyes \<times> msg" where
  "eyes_LoadDelta fromEye eyesInfo m =
     (let (o0, o1, o2) = ey_ofs fromEye; (a0, a1) = ey_angles fromEye in
      rbind (ReadBool m) (\<lambda>(hasChanges, m0).
        if hasChanges then
          rbind (ReadDeltaType o0 8 m0) (\<lambda>(p0, m1).
          rbind (ReadDeltaType o1 8 m1) (\<lambda>(p1, m2).
          rbind (ReadDeltaType o2 8 m2) (\<lambda>(p2, m3).
          rbind (ReadDeltaType a0 32 m3) (\<lambda>(b0, m4).
          rbind (ReadDeltaType a1 32 m4) (\<lambda>(b1, m5).
            Inr (eyesInfo\<lparr>ey_ofs := (p0, p1, p2), ey_angles := (b0, b1)\<rparr>, m5))))))
        else Inr (eyesInfo, m0)))"

definition eyes_changed :: "usereyes \<Rightarrow> usereyes \<Rightarrow> bool" where
  "eyes_changed fromEye eyesInfo \<longleftrightarrow>
     (let (o0, o1, o2) = ey_ofs fromEye; (a0, a1) = ey_angles fromEye;
          (p0, p1, p2) = ey_ofs eyesInfo; (b0, b1) = ey_angles eyesInfo in
      float_ne a0 b0 \<or> float_ne a1 b1 \<or> o0 \<noteq> p0 \<or> o1 \<noteq> p1 \<or> o2 \<noteq> p2)"

definition eyes_SaveDelta :: "usereyes \<Rightarrow> usereyes \<Rightarrow> msg \<Rightarrow> msg_error + msg" where
  "eyes_SaveDelta fromEye eyesInfo m =
     (let (o0, o1, o2) = ey_ofs fromEye; (a0, a1) = ey_angles fromEye;
          (p0, p1, p2) = ey_ofs eyesInfo; (b0, b1) = ey_angles eyesInfo;
          hasChanges = eyes_changed fromEye eyesInfo in
      rbind (WriteBool hasChanges m) (\<lambda>m0.
        if hasChanges then
          rbind (WriteDeltaType o0 p0 8 m0) (\<lambda>m1.
          rbind (WriteDeltaType o1 p1 8 m1) (\<lambda>m2.
          rbind (WriteDeltaType o2 p2 8 m2) (\<lambda>m3.
          rbind (WriteDeltaType_float a0 b0 m3) (\<lambda>m4.
          WriteDeltaType_float a1 b1 m4))))
        else Inr m0))"

section \<open>The client's ring of commands\<close>

text \<open>\<open>StaticWarpArray<usercmd_t, 256>\<close>: an index is taken modulo the size.\<close>

definition warp_get :: "'a list \<Rightarrow> nat \<Rightarrow> 'a" where
  "warp_get xs index = xs ! (index mod length xs)"

definition warp_set :: "'a list \<Rightarrow> nat \<Rightarrow> 'a \<Rightarrow> 'a list" where
  "warp_set xs index x = xs[index mod length xs := x]"

record UserInput =
  ui_cmdNumber :: u32
  ui_eyeinfo :: usereyes
  ui_cmds :: "usercmd list"

definition UserInput_new :: UserInput where
  "UserInput_new = \<lparr>ui_cmdNumber = 0, ui_eyeinfo = usereyes_new, ui_cmds = replicate 256 usercmd_new\<rparr>"

definition UserInput_reset :: "UserInput \<Rightarrow> UserInput" where
  "UserInput_reset u = u\<lparr>ui_cmdNumber := 0\<rparr>"

text \<open>The reference that is returned is the index of the element.\<close>

definition createCommand :: "int \<Rightarrow> UserInput \<Rightarrow> nat \<times> UserInput" where
  "createCommand time u =
     (let i = unat (ui_cmdNumber u) in
      (i, u\<lparr>ui_cmdNumber := ui_cmdNumber u + 1, ui_cmds := warp_set (ui_cmds u) i (usercmd_at time)\<rparr>))"

definition createEyes :: "UserInput \<Rightarrow> UserInput" where
  "createEyes u = u\<lparr>ui_eyeinfo := usereyes_new\<rparr>"

definition getCurrentCmdNumber :: "UserInput \<Rightarrow> u32" where
  "getCurrentCmdNumber u = ui_cmdNumber u"

definition getNumCommands :: "UserInput \<Rightarrow> nat" where
  "getNumCommands u = length (ui_cmds u)"

definition getCommand :: "UserInput \<Rightarrow> nat \<Rightarrow> usercmd" where
  "getCommand u index = warp_get (ui_cmds u) index"

definition getCommandFromLast :: "UserInput \<Rightarrow> nat \<Rightarrow> usercmd" where
  "getCommandFromLast u index =
     (let elem = sz_sub (unat (ui_cmdNumber u)) (index + 1) in getCommand u elem)"

definition getEyeInfo :: "UserInput \<Rightarrow> usereyes" where
  "getEyeInfo u = ui_eyeinfo u"

definition getLastCommand :: "UserInput \<Rightarrow> usercmd" where
  "getLastCommand u = warp_get (ui_cmds u) (unat (ui_cmdNumber u))"

definition getUserCmd :: "UserInput \<Rightarrow> nat \<Rightarrow> usercmd option" where
  "getUserCmd u cmdNum =
     (let cmdNumber = unat (getCurrentCmdNumber u) in
      if cmdNum + length (ui_cmds u) < cmdNumber then None else Some (getCommand u cmdNum))"

section \<open>The codes of a command and of the eyes\<close>

lemmas delta_key16 = delta_full(3,4) [where 'a = 16, simplified]
lemmas delta_key8 = delta_full(3,4) [where 'a = 8, simplified]
lemmas delta8 = delta_full(1,2) [where 'a = 8, simplified]

definition time_code :: "u32 \<Rightarrow> u32 \<Rightarrow> bool list" where
  "time_code f t = (if t - f < 256 then [True] @ huff_code (ucast (t - f)) else [False] @ code32 t)"

lemma save_time_puts: "puts (save_time f t) (time_code f t)"
  unfolding save_time_def [abs_def] time_code_def Let_def
  by (rule puts_if puts_bind WriteBool_puts WriteByte_puts WriteUInteger_puts)+

definition loaded_time :: "usercmd \<Rightarrow> u32 \<Rightarrow> u32 \<Rightarrow> int" where
  "loaded_time fromCmd f t =
     (if t - f < 256 then getServerTime fromCmd + of_ms (uint (ucast (t - f) :: byte)) else of_ms (uint t))"

lemma load_time_gets:
  "gets (load_time fromCmd) (time_code f t) (usercmd_at (loaded_time fromCmd f t))"
proof (cases "t - f < 256")
  case True
  let ?g = "\<lambda>isByteTime m1. if isByteTime then
         rbind (ReadByte m1) (\<lambda>(deltaTime, m2).
           Inr (usercmd_at (getServerTime fromCmd + of_ms (uint deltaTime)), m2))
       else
         rbind (ReadUInteger m1) (\<lambda>(serverTime, m2). Inr (usercmd_at (of_ms (uint serverTime)), m2))"
  have "gets (?g True) (huff_code (ucast (t - f)) @ []) (usercmd_at (loaded_time fromCmd f t))"
    using gets_bind [OF ReadByte_gets [of "ucast (t - f)"], where g = "\<lambda>d m2.
        Inr (usercmd_at (getServerTime fromCmd + of_ms (uint d)), m2)", OF gets_return] True
    by (simp add: loaded_time_def)
  from gets_bind [OF ReadBool_gets, where g = ?g, OF this] True show ?thesis
    by (simp add: load_time_def [abs_def] time_code_def)
next
  case False
  let ?g = "\<lambda>isByteTime m1. if isByteTime then
         rbind (ReadByte m1) (\<lambda>(deltaTime, m2).
           Inr (usercmd_at (getServerTime fromCmd + of_ms (uint deltaTime)), m2))
       else
         rbind (ReadUInteger m1) (\<lambda>(serverTime, m2). Inr (usercmd_at (of_ms (uint serverTime)), m2))"
  have "gets (?g False) (code32 t @ []) (usercmd_at (loaded_time fromCmd f t))"
    using gets_bind [OF ReadUInteger_gets [of t], where g = "\<lambda>d m2.
        Inr (usercmd_at (of_ms (uint d)), m2)", OF gets_return] False
    by (simp add: loaded_time_def)
  from gets_bind [OF ReadBool_gets, where g = ?g, OF this] False show ?thesis
    by (simp add: load_time_def [abs_def] time_code_def)
qed

definition changes_code :: "usercmd \<Rightarrow> usercmd \<Rightarrow> int \<Rightarrow> bool list" where
  "changes_code fromCmd ucmd key =
     (let (a0, a1, a2) = getAngles (getMovement fromCmd); (b0, b1, b2) = getAngles (getMovement ucmd) in
      delta_key_code a0 key 16 b0 @ delta_key_code a1 key 16 b1 @ delta_key_code a2 key 16 b2 @
      delta_key_code (getForwardValue (getMovement fromCmd)) key 8 (getForwardValue (getMovement ucmd)) @
      delta_key_code (getRightValue (getMovement fromCmd)) key 8 (getRightValue (getMovement ucmd)) @
      delta_key_code (getUpValue (getMovement fromCmd)) key 8 (getUpValue (getMovement ucmd)) @
      delta_key_code (getFlags (getAction fromCmd)) key 16 (getFlags (getAction ucmd)))"

lemma save_changes_puts: "puts (save_changes fromCmd ucmd key) (changes_code fromCmd ucmd key)"
proof -
  obtain a0 a1 a2 where a: "getAngles (getMovement fromCmd) = (a0, a1, a2)" by (rule prod_cases3)
  obtain b0 b1 b2 where b: "getAngles (getMovement ucmd) = (b0, b1, b2)" by (rule prod_cases3)
  show ?thesis
    unfolding save_changes_def [abs_def] changes_code_def Let_def a b prod.case
    by (intro puts_bind delta_key16(1) delta_key8(1))
qed

lemma load_changes_gets:
  "gets (load_changes fromCmd key (usercmd_at t)) (changes_code fromCmd ucmd key) (ucmd\<lparr>uc_serverTime := t\<rparr>)"
proof -
  obtain a0 a1 a2 where a: "getAngles (getMovement fromCmd) = (a0, a1, a2)" by (rule prod_cases3)
  obtain b0 b1 b2 where b: "getAngles (getMovement ucmd) = (b0, b1, b2)" by (rule prod_cases3)
  have u: "ucmd\<lparr>uc_serverTime := t\<rparr> = (usercmd_at t)\<lparr>
      uc_movement := moveUp (getUpValue (getMovement ucmd)) (moveRight (getRightValue (getMovement ucmd))
        (moveForward (getForwardValue (getMovement ucmd)) (setAngles (b0, b1, b2) (uc_movement (usercmd_at t))))),
      uc_action := setFlags (getFlags (getAction ucmd)) (uc_action (usercmd_at t))\<rparr>"
    using b by (cases ucmd) (simp add: usercmd_at_def moveUp_def moveRight_def moveForward_def setAngles_def
        setFlags_def getFlags_def getAction_def getMovement_def getUpValue_def getRightValue_def
        getForwardValue_def getAngles_def)
  have "gets (load_changes fromCmd key (usercmd_at t)) (changes_code fromCmd ucmd key @ [])
      (ucmd\<lparr>uc_serverTime := t\<rparr>)"
    unfolding u load_changes_def [abs_def] changes_code_def Let_def a b prod.case append_assoc
    by (rule gets_bind [OF delta_key16(2)] gets_bind [OF delta_key8(2)] gets_return)+
  then show ?thesis by simp
qed

definition put_usercmd :: "SerializableUsercmd \<Rightarrow> int \<Rightarrow> SerializableUsercmd \<Rightarrow> msg \<Rightarrow> msg_error + msg" where
  "put_usercmd fromSer key this m = rbind (usercmd_SaveDelta fromSer key this m) (\<lambda>(_, m'). Inr m')"

definition sent_time :: "usercmd \<Rightarrow> u32" where
  "sent_time c = word_of_int (to_ms (getServerTime c))"

definition usercmd_code :: "SerializableUsercmd \<Rightarrow> int \<Rightarrow> SerializableUsercmd \<Rightarrow> bool list" where
  "usercmd_code fromSer key this =
     time_code (su_time32 fromSer) (sent_time (su_ucmd this)) @
     [has_changes (su_ucmd fromSer) (su_ucmd this)] @
     (if has_changes (su_ucmd fromSer) (su_ucmd this)
      then changes_code (su_ucmd fromSer) (su_ucmd this)
        (uint ((word_of_int key :: u32) XOR sent_time (su_ucmd this))) else [])"

lemma rbind_Inr [simp]: "rbind r Inr = r"
  by (cases r) simp_all

lemma put_usercmd_puts: "puts (put_usercmd fromSer key this) (usercmd_code fromSer key this)"
proof -
  let ?hc = "has_changes (su_ucmd fromSer) (su_ucmd this)" and ?t = "sent_time (su_ucmd this)"
  let ?k = "uint ((word_of_int key :: u32) XOR ?t)"
  have e: "put_usercmd fromSer key this = (\<lambda>m. rbind (save_time (su_time32 fromSer) ?t m) (\<lambda>m1.
      rbind (WriteBool ?hc m1) (\<lambda>m2. if ?hc then save_changes (su_ucmd fromSer) (su_ucmd this) ?k m2
        else Inr m2)))"
    unfolding sent_time_def
    by (simp add: fun_eq_iff put_usercmd_def usercmd_SaveDelta_def Let_def rbind_assoc cong del: if_weak_cong)
  show ?thesis unfolding e usercmd_code_def
    by (intro puts_bind save_time_puts WriteBool_puts puts_if save_changes_puts puts_Inr)
qed

text \<open>The reader holds the previous command with the time it was sent with, and the command's time
  is in range and not before it.\<close>

definition in_step :: "SerializableUsercmd \<Rightarrow> usercmd \<Rightarrow> SerializableUsercmd \<Rightarrow> bool" where
  "in_step fromSer prev this \<longleftrightarrow> getMovement prev = getMovement (su_ucmd fromSer) \<and>
     getAction prev = getAction (su_ucmd fromSer) \<and>
     getServerTime prev = of_ms (uint (su_time32 fromSer)) \<and>
     uint (su_time32 fromSer) \<le> to_ms (getServerTime (su_ucmd this)) \<and>
     to_ms (getServerTime (su_ucmd this)) < 2 ^ 32"

definition received_cmd :: "SerializableUsercmd \<Rightarrow> SerializableUsercmd \<Rightarrow> usercmd" where
  "received_cmd fromSer this =
     (let t = of_ms (to_ms (getServerTime (su_ucmd this))) in
      if has_changes (su_ucmd fromSer) (su_ucmd this) then (su_ucmd this)\<lparr>uc_serverTime := t\<rparr>
      else usercmd_at t)"

lemma to_ms_of_ms [simp]: "to_ms (of_ms n) = n"
  by (simp add: to_ms_def of_ms_def) (metis minus_mult_left nonzero_mult_div_cancel_right equation_minus_iff zero_neq_numeral)

lemma in_step_time:
  assumes "in_step fromSer prev this"
  shows "loaded_time prev (su_time32 fromSer) (sent_time (su_ucmd this)) =
    of_ms (to_ms (getServerTime (su_ucmd this)))"
proof -
  let ?f = "su_time32 fromSer" and ?n = "to_ms (getServerTime (su_ucmd this))"
  let ?t = "sent_time (su_ucmd this)"
  have n: "uint ?f \<le> ?n" "?n < 2 ^ 32" "getServerTime prev = of_ms (uint ?f)"
    using assms by (simp_all add: in_step_def)
  then have t: "uint ?t = ?n"
    using uint_ge_0 [of ?f] order_trans [OF uint_ge_0 n(1)]
    by (simp only: sent_time_def uint_word_of_int) (simp add: mod_pos_pos_trivial)
  have d: "uint (?t - ?f) = ?n - uint ?f"
  proof -
    have "0 \<le> ?n - uint ?f" "?n - uint ?f < 2 ^ 32" using n(1,2) uint_ge_0 [of ?f] by linarith+
    then show ?thesis using t by (simp add: uint_word_ariths mod_pos_pos_trivial)
  qed
  have c: "uint (ucast (?t - ?f) :: byte) = ?n - uint ?f" if "?t - ?f < 256"
  proof -
    have "uint (?t - ?f) < 256" using that by (simp add: word_less_def)
    then have "take_bit 8 (uint (?t - ?f)) = uint (?t - ?f)"
      by (simp only: take_bit_int_eq_self_iff uint_ge_0) simp
    then show ?thesis unfolding d [symmetric] by (simp only: unsigned_ucast_eq) simp
  qed
  show ?thesis
  proof (cases "?t - ?f < 256")
    case True
    then show ?thesis by (simp add: loaded_time_def n(3) of_ms_def c left_diff_distrib)
  next
    case False
    then show ?thesis using t by (simp add: loaded_time_def)
  qed
qed

lemma LoadDelta_gets:
  assumes "in_step fromSer prev this"
  shows "gets (usercmd_LoadDelta prev key) (usercmd_code fromSer key this) (received_cmd fromSer this)"
proof -
  let ?hc = "has_changes (su_ucmd fromSer) (su_ucmd this)" and ?t = "sent_time (su_ucmd this)"
  let ?k = "uint ((word_of_int key :: u32) XOR ?t)"
  let ?n = "to_ms (getServerTime (su_ucmd this))"
  have p: "changes_code prev c k = changes_code (su_ucmd fromSer) c k" for c k
    using assms by (simp add: in_step_def changes_code_def Let_def)
  have k: "uint ((word_of_int key :: u32) XOR word_of_int (to_ms (getServerTime (usercmd_at (of_ms ?n))))) = ?k"
    by (simp add: sent_time_def getServerTime_def usercmd_at_def)
  let ?g = "\<lambda>ucmd hasChanges m2. if hasChanges then
      load_changes prev (uint ((word_of_int key :: u32) XOR word_of_int (to_ms (getServerTime ucmd)))) ucmd m2
      else Inr (ucmd, m2)"
  have "gets (?g (usercmd_at (of_ms ?n)) ?hc)
      (if ?hc then changes_code (su_ucmd fromSer) (su_ucmd this) ?k else []) (received_cmd fromSer this)"
    using load_changes_gets [of prev ?k "of_ms ?n" "su_ucmd this"] gets_return [of "usercmd_at (of_ms ?n)"]
    by (simp add: p k received_cmd_def Let_def)
  from gets_bind [OF ReadBool_gets, where g = "?g (usercmd_at (of_ms ?n))", OF this]
  have "gets (\<lambda>m1. rbind (ReadBool m1) (\<lambda>(hc, m2). ?g (usercmd_at (of_ms ?n)) hc m2))
      ([?hc] @ (if ?hc then changes_code (su_ucmd fromSer) (su_ucmd this) ?k else []))
      (received_cmd fromSer this)" .
  from gets_bind [OF load_time_gets [of prev "su_time32 fromSer" ?t, unfolded in_step_time [OF assms]],
      where g = "\<lambda>ucmd m1. rbind (ReadBool m1) (\<lambda>(hc, m2). ?g ucmd hc m2)", OF this]
  show ?thesis unfolding usercmd_LoadDelta_def [abs_def] usercmd_code_def by simp
qed

interpretation wusercmd: wire "usercmd_code fromSer key" "put_usercmd fromSer key"
    "usercmd_LoadDelta prev key" "in_step fromSer prev" "received_cmd fromSer" for fromSer key prev
  by unfold_locales (rule put_usercmd_puts, erule LoadDelta_gets)

definition float_code :: "u32 \<Rightarrow> u32 \<Rightarrow> bool list" where
  "float_code a b = [float_ne a b] @ (if float_ne a b then code32 b else [])"

lemma WriteDeltaType_float_puts: "puts (WriteDeltaType_float a b) (float_code a b)"
proof -
  have "puts (WriteNumber b 32) (code32 b)" using WriteNumber_puts [where 'a = 32, of 32 b] by simp
  from puts_bind [OF WriteBool_puts puts_if [OF this puts_Inr], of "float_ne a b"] show ?thesis
    unfolding WriteDeltaType_float_def [abs_def] float_code_def Let_def by simp
qed

lemma ReadDeltaType_float_gets:
  "gets (ReadDeltaType a 32) (float_code a b) (if float_ne a b then b else a)"
proof -
  have "gets (ReadNumber 32) (code32 b) b" using ReadNumber_gets [where 'a = 32, of 32 b] by simp
  from gets_bind [OF ReadBool_gets, where g = "\<lambda>isDiff m'. if isDiff then ReadNumber 32 m' else Inr (a, m')",
      OF gets_if [OF this gets_return], of "float_ne a b"]
  show ?thesis unfolding ReadDeltaType_def [abs_def] float_code_def by simp
qed

definition eyes_code :: "usereyes \<Rightarrow> usereyes \<Rightarrow> bool list" where
  "eyes_code fromEye eyes =
     (let (o0, o1, o2) = ey_ofs fromEye; (a0, a1) = ey_angles fromEye;
          (p0, p1, p2) = ey_ofs eyes; (b0, b1) = ey_angles eyes in
      [eyes_changed fromEye eyes] @
      (if eyes_changed fromEye eyes then delta_code o0 8 p0 @ delta_code o1 8 p1 @ delta_code o2 8 p2 @
         float_code a0 b0 @ float_code a1 b1 else []))"

lemma eyes_SaveDelta_puts: "puts (eyes_SaveDelta fromEye eyes) (eyes_code fromEye eyes)"
proof -
  obtain o0 o1 o2 a0 a1 where f: "ey_ofs fromEye = (o0, o1, o2)" "ey_angles fromEye = (a0, a1)"
    by (metis prod_cases3 surj_pair)
  obtain p0 p1 p2 b0 b1 where e: "ey_ofs eyes = (p0, p1, p2)" "ey_angles eyes = (b0, b1)"
    by (metis prod_cases3 surj_pair)
  show ?thesis
    unfolding eyes_SaveDelta_def [abs_def] eyes_code_def Let_def f e prod.case
    by (intro puts_bind WriteBool_puts puts_if delta8(1) WriteDeltaType_float_puts puts_Inr)
qed

text \<open>What the reader, which held \<open>old\<close>, has afterwards.\<close>

definition received_eyes :: "usereyes \<Rightarrow> usereyes \<Rightarrow> usereyes \<Rightarrow> usereyes" where
  "received_eyes old fromEye eyes =
     (if eyes_changed fromEye eyes then
        eyes\<lparr>ey_angles :=
          (if float_ne (fst (ey_angles fromEye)) (fst (ey_angles eyes)) then fst (ey_angles eyes)
           else fst (ey_angles fromEye),
           if float_ne (snd (ey_angles fromEye)) (snd (ey_angles eyes)) then snd (ey_angles eyes)
           else snd (ey_angles fromEye))\<rparr>
      else old)"

lemma eyes_LoadDelta_gets:
  "gets (eyes_LoadDelta fromEye old) (eyes_code fromEye eyes) (received_eyes old fromEye eyes)"
proof -
  obtain o0 o1 o2 a0 a1 where f: "ey_ofs fromEye = (o0, o1, o2)" "ey_angles fromEye = (a0, a1)"
    by (metis prod_cases3 surj_pair)
  obtain p0 p1 p2 b0 b1 where e: "ey_ofs eyes = (p0, p1, p2)" "ey_angles eyes = (b0, b1)"
    by (metis prod_cases3 surj_pair)
  show ?thesis
  proof (cases "eyes_changed fromEye eyes")
    case True
    then have r: "received_eyes old fromEye eyes = old\<lparr>ey_ofs := (p0, p1, p2),
        ey_angles := (if float_ne a0 b0 then b0 else a0, if float_ne a1 b1 then b1 else a1)\<rparr>"
      using f e by (cases old; cases eyes) (simp add: received_eyes_def)
    let ?c = "delta_code o0 8 p0 @ delta_code o1 8 p1 @ delta_code o2 8 p2 @ float_code a0 b0 @ float_code a1 b1"
    let ?g = "\<lambda>hasChanges m0. if hasChanges then
          rbind (ReadDeltaType o0 8 m0) (\<lambda>(p0, m1).
          rbind (ReadDeltaType o1 8 m1) (\<lambda>(p1, m2).
          rbind (ReadDeltaType o2 8 m2) (\<lambda>(p2, m3).
          rbind (ReadDeltaType a0 32 m3) (\<lambda>(b0, m4).
          rbind (ReadDeltaType a1 32 m4) (\<lambda>(b1, m5).
            Inr (old\<lparr>ey_ofs := (p0, p1, p2), ey_angles := (b0, b1)\<rparr>, m5))))))
        else Inr (old, m0)"
    have "gets (?g True) (?c @ []) (received_eyes old fromEye eyes)"
      unfolding r if_True append_assoc
      by (rule gets_bind [OF delta8(2)] gets_bind [OF ReadDeltaType_float_gets] gets_return)+
    from gets_bind [OF ReadBool_gets, where g = ?g, OF this] show ?thesis
      unfolding eyes_LoadDelta_def [abs_def] eyes_code_def Let_def f e prod.case using True by simp
  next
    case False
    let ?g = "\<lambda>hasChanges m0. if hasChanges then
          rbind (ReadDeltaType o0 8 m0) (\<lambda>(p0, m1).
          rbind (ReadDeltaType o1 8 m1) (\<lambda>(p1, m2).
          rbind (ReadDeltaType o2 8 m2) (\<lambda>(p2, m3).
          rbind (ReadDeltaType a0 32 m3) (\<lambda>(b0, m4).
          rbind (ReadDeltaType a1 32 m4) (\<lambda>(b1, m5).
            Inr (old\<lparr>ey_ofs := (p0, p1, p2), ey_angles := (b0, b1)\<rparr>, m5))))))
        else Inr (old, m0)"
    have "gets (?g False) [] old" using gets_return by simp
    from gets_bind [OF ReadBool_gets, where g = ?g, OF this] show ?thesis
      unfolding eyes_LoadDelta_def [abs_def] eyes_code_def Let_def f e prod.case
      using False by (simp add: received_eyes_def)
  qed
qed

interpretation weyes: wire "eyes_code fromEye" "eyes_SaveDelta fromEye" "eyes_LoadDelta fromEye old"
    "\<lambda>_. True" "received_eyes old fromEye" for fromEye old
  by unfold_locales (rule eyes_SaveDelta_puts eyes_LoadDelta_gets)+

section \<open>Properties of commands\<close>

text \<open>C16: A command sent against the previous one with any key is received with its time in
  milliseconds, and with its movement and flags when one of them changed; when none changed the
  reader gets a command that does not move, although the previous one may have.\<close>

theorem usercmd_delta_transfer:
  assumes "in_step fromSer prev this"
    and "st_invar s" "st_content s = []" "st_room s R" "length (usercmd_code fromSer key this) + 1 \<le> 8 * R"
  shows "transfer (put_usercmd fromSer key) (usercmd_LoadDelta prev key) this s =
    Inr (if has_changes (su_ucmd fromSer) (su_ucmd this)
         then (su_ucmd this)\<lparr>uc_serverTime := of_ms (to_ms (getServerTime (su_ucmd this)))\<rparr>
         else \<lparr>uc_serverTime = of_ms (to_ms (getServerTime (su_ucmd this))),
           uc_movement = UserMovementInput_new, uc_action = UserActionInput_new\<rparr>)"
  using wusercmd.roundtrip [OF assms] by (simp add: received_cmd_def Let_def usercmd_at_def)

theorem usercmd_delta_transfer_witness:
  "transfer (put_usercmd (SerializableUsercmd_new usercmd_new) 77) (usercmd_LoadDelta usercmd_new 77)
     (SerializableUsercmd_new
       ((usercmd_at 5700000)\<lparr>uc_movement := moveForward 127 UserMovementInput_new\<rparr>)) (DynS (dyn_new 0)) =
   Inr ((usercmd_at 5000000)\<lparr>uc_movement := moveForward 127 UserMovementInput_new\<rparr>)"
proof -
  let ?f = "SerializableUsercmd_new usercmd_new"
  let ?c = "(usercmd_at 5700000)\<lparr>uc_movement := moveForward 127 UserMovementInput_new\<rparr>"
  let ?t = "SerializableUsercmd_new ?c"
  have i: "in_step ?f usercmd_new ?t"
    by (simp add: in_step_def SerializableUsercmd_new_def usercmd_new_def usercmd_at_def getServerTime_def
        of_ms_def to_ms_def)
  have c: "has_changes (su_ucmd ?f) (su_ucmd ?t)"
    by (simp add: has_changes_def SerializableUsercmd_new_def usercmd_new_def usercmd_at_def getMovement_def
        getAngles_def UserMovementInput_new_def getForwardValue_def moveForward_def)
  let ?R = "length (usercmd_code ?f 77 ?t) + 1"
  have t: "(su_ucmd ?t)\<lparr>uc_serverTime := of_ms (to_ms (getServerTime (su_ucmd ?t)))\<rparr> =
      (usercmd_at 5000000)\<lparr>uc_movement := moveForward 127 UserMovementInput_new\<rparr>"
    by (simp add: SerializableUsercmd_new_def usercmd_at_def getServerTime_def of_ms_def to_ms_def)
  have "length (usercmd_code ?f 77 ?t) + 1 \<le> 8 * ?R" by simp
  from usercmd_delta_transfer [OF i _ _ _ this, of "DynS (dyn_new 0)"] c show ?thesis
    unfolding t by simp
qed

text \<open>The eyes are received exactly in what changed, and floats that compare equal keep the
  value of the side that did not change; when nothing changed the reader keeps what it had.\<close>

theorem eyes_delta_transfer:
  assumes "st_invar s" "st_content s = []" "st_room s R" "length (eyes_code fromEye eyes) + 1 \<le> 8 * R"
  shows "\<exists>e. transfer (eyes_SaveDelta fromEye) (eyes_LoadDelta fromEye old) eyes s = Inr e \<and>
    (if eyes_changed fromEye eyes then ey_ofs e = ey_ofs eyes \<and>
        (\<not> float_nan (fst (ey_angles eyes)) \<longrightarrow> \<not> float_ne (fst (ey_angles e)) (fst (ey_angles eyes))) \<and>
        (\<not> float_nan (snd (ey_angles eyes)) \<longrightarrow> \<not> float_ne (snd (ey_angles e)) (snd (ey_angles eyes)))
     else e = old)"
  using weyes.roundtrip [OF TrueI assms, of old]
  by (auto simp: received_eyes_def float_ne_def)

theorem eyes_delta_transfer_witness:
  "\<exists>e. transfer (eyes_SaveDelta usereyes_new) (eyes_LoadDelta usereyes_new usereyes_new)
      \<lparr>ey_angles = (0x80000000, 0x3F800000), ey_ofs = (1, 2, 82)\<rparr> (DynS (dyn_new 0)) = Inr e \<and>
    ey_ofs e = (1, 2, 82)"
proof -
  let ?e = "\<lparr>ey_angles = (0x80000000, 0x3F800000), ey_ofs = (1, 2, 82)\<rparr> :: usereyes"
  have "length (eyes_code usereyes_new ?e) + 1 \<le> 8 * (length (eyes_code usereyes_new ?e) + 1)" by simp
  from eyes_delta_transfer [OF _ _ _ this, of "DynS (dyn_new 0)" usereyes_new] show ?thesis
    by (auto simp: eyes_changed_def usereyes_new_def)
qed

text \<open>\<open>removeWeaponCommand\<close> clears every button of the command: the complement is taken before
  the mask, so that the mask also removes the seven low bits.\<close>

theorem remove_weapon_clears_buttons:
  "getFlags (removeWeaponCommand w a) =
     getFlags a AND NOT (ucast (push_bit 7 w)) AND ucast GetWeaponCommandMask \<and>
   \<not> checkAnyHeld (removeWeaponCommand w a)
      [AttackPrimary, AttackSecondary, Run, Use, LeanLeft, LeanRight, InMenu]"
proof -
  have f: "getFlags (removeWeaponCommand w a) =
     getFlags a AND NOT (ucast (push_bit 7 w)) AND ucast GetWeaponCommandMask"
    by (auto simp: getFlags_def removeWeaponCommand_def bit_eq_iff bit_unsigned_iff bit_and_iff bit_not_iff)
  have m: "\<not> bit GetWeaponCommandMask n" if "n < 7" for n
    using that by (simp add: GetWeaponCommandMask_def bit_push_bit_iff)
  have z: "ucast (ai_flags (removeWeaponCommand w a)) AND push_bit n 1 = (0 :: u32)" if "n < 7" for n
    using m [OF that]
    by (intro bit_eqI) (auto simp: removeWeaponCommand_def bit_unsigned_iff bit_and_iff bit_not_iff
        bit_exp_iff)
  show ?thesis using f z [of 0] z [of 1] z [of 2] z [of 3] z [of 4] z [of 5] z [of 6]
    by (simp add: checkAnyHeld_def isHeld_def AttackPrimary_def AttackSecondary_def Run_def Use_def
        LeanLeft_def LeanRight_def InMenu_def)
qed

section \<open>The ring as a log\<close>

text \<open>The client creates a command and fills it through the reference it got.\<close>

definition create_and_fill :: "int \<times> (usercmd \<Rightarrow> usercmd) \<Rightarrow> UserInput \<Rightarrow> UserInput" where
  "create_and_fill p u =
     (let (i, u') = createCommand (fst p) u in
      u'\<lparr>ui_cmds := warp_set (ui_cmds u') i (snd p (getCommand u' i))\<rparr>)"

definition filled :: "int \<times> (usercmd \<Rightarrow> usercmd) \<Rightarrow> usercmd" where
  "filled p = snd p (usercmd_at (fst p))"

definition ring :: "UserInput \<Rightarrow> usercmd list \<Rightarrow> bool" where
  "ring u log \<longleftrightarrow> length (ui_cmds u) = 256 \<and> unat (ui_cmdNumber u) = length log \<and>
     (\<forall>i < length log. length log \<le> i + 256 \<longrightarrow> ui_cmds u ! (i mod 256) = log ! i) \<and>
     (\<forall>j < 256. length log \<le> j \<longrightarrow> ui_cmds u ! j = usercmd_new)"

lemma ring_new: "ring UserInput_new []"
  by (simp add: ring_def UserInput_new_def)

lemma mod_window:
  assumes "i < (j :: nat)" "j < i + 256"
  shows "i mod 256 \<noteq> j mod 256"
proof
  assume "i mod 256 = j mod 256"
  then have "256 dvd j - i" using assms(1) mod_eq_dvd_iff_nat [of i j 256] by auto
  then have "256 \<le> j - i" using assms(1) by (simp add: dvd_imp_le)
  with assms show False by simp
qed

lemma create_ring:
  assumes "ring u log" "length log + 1 < 2 ^ 32"
  shows "ring (create_and_fill p u) (log @ [filled p])"
proof -
  let ?n = "length log"
  have u: "length (ui_cmds u) = 256" "unat (ui_cmdNumber u) = ?n"
    using assms(1) by (simp_all add: ring_def)
  have c: "ui_cmds (create_and_fill p u) = (ui_cmds u)[?n mod 256 := filled p]"
    using u by (simp add: create_and_fill_def createCommand_def Let_def warp_set_def getCommand_def
        warp_get_def filled_def)
  have "unat (ui_cmdNumber u + 1) = ?n + 1"
    using u(2) assms(2) by (simp add: unat_word_ariths)
  then have n: "unat (ui_cmdNumber (create_and_fill p u)) = length (log @ [filled p])"
    by (simp add: create_and_fill_def createCommand_def Let_def)
  have "(ui_cmds u)[?n mod 256 := filled p] ! (i mod 256) = (log @ [filled p]) ! i"
    if "i < ?n + 1" "?n + 1 \<le> i + 256" for i
  proof (cases "i = ?n")
    case True
    then show ?thesis using u(1) by simp
  next
    case False
    then show ?thesis using that assms(1) mod_window [of i ?n] by (simp add: ring_def nth_append)
  qed
  moreover have "(ui_cmds u)[?n mod 256 := filled p] ! j = usercmd_new" if "j < 256" "?n + 1 \<le> j" for j
    using that assms(1) by (simp add: ring_def)
  ultimately show ?thesis unfolding ring_def c n using u(1) by simp
qed

lemma create_all_ring:
  assumes "ring u log" "length log + length ps < 2 ^ 32"
  shows "ring (fold create_and_fill ps u) (log @ map filled ps)"
  using assms
proof (induction ps arbitrary: u log)
  case (Cons p ps)
  from Cons.IH [OF create_ring [OF Cons.prems(1)]] Cons.prems(2) show ?case by simp
qed simp

lemma ring_get: "ring u log \<Longrightarrow> i < length log \<Longrightarrow> length log \<le> i + 256 \<Longrightarrow> getCommand u i = log ! i"
  by (simp add: ring_def getCommand_def warp_get_def)

text \<open>C22: After any number of commands below 2 ^ 32, \<open>getUserCmd\<close> returns each command whose place
  was not reused and refuses the older ones, \<open>getCommandFromLast\<close> counts back from the newest,
  and \<open>getLastCommand\<close> does not return the newest command but the place the next one will take.\<close>

theorem user_input_ring:
  assumes "length ps < 2 ^ 32"
  shows "let u = fold create_and_fill ps UserInput_new; log = map filled ps; n = length ps in
    (\<forall>i < n. getUserCmd u i = (if i + 256 < n then None else Some (log ! i))) \<and>
    (\<forall>k < n. k < 256 \<longrightarrow> getCommandFromLast u k = log ! (n - 1 - k)) \<and>
    getLastCommand u = (if n < 256 then usercmd_new else log ! (n - 256))"
proof -
  let ?u = "fold create_and_fill ps UserInput_new" and ?log = "map filled ps" and ?n = "length ps"
  have r: "ring ?u ?log" using create_all_ring [OF ring_new, of ps] assms by simp
  then have u: "length (ui_cmds ?u) = 256" "unat (ui_cmdNumber ?u) = ?n" by (simp_all add: ring_def)
  have "getUserCmd ?u i = (if i + 256 < ?n then None else Some (?log ! i))" if "i < ?n" for i
    using ring_get [OF r, of i] that u by (simp add: getUserCmd_def Let_def getCurrentCmdNumber_def)
  moreover have "getCommandFromLast ?u k = ?log ! (?n - 1 - k)" if "k < ?n" "k < 256" for k
    using ring_get [OF r, of "?n - 1 - k"] that u(2)
    by (simp add: getCommandFromLast_def Let_def)
  moreover have "getLastCommand ?u = (if ?n < 256 then usercmd_new else ?log ! (?n - 256))"
  proof (cases "?n < 256")
    case True
    then show ?thesis using r u by (simp add: getLastCommand_def warp_get_def ring_def)
  next
    case False
    then have "getCommand ?u (?n - 256) = ?log ! (?n - 256)" using ring_get [OF r, of "?n - 256"] by simp
    moreover have "(?n - 256) mod 256 = ?n mod 256" using False mod_add_self2 [of "?n - 256" 256] by simp
    ultimately show ?thesis using False u by (simp add: getLastCommand_def getCommand_def warp_get_def)
  qed
  ultimately show ?thesis by (simp only: Let_def) blast
qed

theorem user_input_ring_witness:
  "getUserCmd (fold create_and_fill (replicate 300 (5, setServerTime 9)) UserInput_new) 40 = None \<and>
   getCommandFromLast (fold create_and_fill (replicate 300 (5, setServerTime 9)) UserInput_new) 1 =
     setServerTime 9 (usercmd_at 5)"
  using user_input_ring [of "replicate 300 (5, setServerTime 9)"]
  by (simp add: Let_def filled_def del: replicate.simps)

end
