(* ===== verification/Packets.thy ===== *)
theory Packets
  imports Encoding UserCmd
begin

text \<open>
  What a client packet is made of: the choice of a parser by protocol (\<open>ProtocolSingleton.h\<close>,
  \<open>ClassList.h\<close>), the string and hash parsers (\<open>Parsing/String.cpp\<close>, \<open>Parsing/Hash.cpp\<close>), the
  header, the unacknowledged commands and the movement (\<open>Parsing/Input.cpp\<close>), and the input module
  of the client (\<open>Client/InputModule.cpp\<close>).
\<close>

section \<open>Singletons by protocol\<close>

text \<open>An instance with the range its \<open>getProtocol\<close> gives; the class list is in order of construction.\<close>

type_synonym 'a singleton = "u32 \<times> u32 \<times> 'a"

definition singleton_get :: "'a singleton list \<Rightarrow> u32 \<Rightarrow> 'a option" where
  "singleton_get insts protocol =
     (case find (\<lambda>(lo, hi, _). protocol \<ge> lo \<and> protocol \<le> hi) insts of
        Some (_, _, inst) \<Rightarrow> Some inst
      | None \<Rightarrow>
          (case find (\<lambda>(lo, hi, _). lo = 0 \<and> hi = 0) insts of
             Some (_, _, inst) \<Rightarrow> Some inst
           | None \<Rightarrow> None))"

section \<open>Strings\<close>

record string_parser =
  readString :: "msg \<Rightarrow> msg_error + StringMessage \<times> msg"
  writeString :: "StringMessage \<Rightarrow> msg \<Rightarrow> msg_error + msg"

definition String8 :: string_parser where
  "String8 = \<lparr>readString = ReadString, writeString = WriteString\<rparr>"

definition String17 :: string_parser where
  "String17 = \<lparr>readString = ReadScrambledString byteCharMapping,
     writeString = (\<lambda>s. WriteScrambledString s charByteMapping)\<rparr>"

definition stringParser8 :: "string_parser singleton" where
  "stringParser8 = (5, 8, String8)"

definition stringParser17 :: "string_parser singleton" where
  "stringParser17 = (15, 17, String17)"

definition stringParserDefault :: "string_parser singleton" where
  "stringParserDefault = (0, 0, String17)"

section \<open>Hashes\<close>

text \<open>\<open>char\<close> is signed: the product is of its sign extension. The string ends with its row.\<close>

fun hash_loop :: "nat \<Rightarrow> nat \<Rightarrow> byte list \<Rightarrow> u32 \<Rightarrow> msg_error + u32" where
  "hash_loop i maxlen [] hash = (if i < maxlen then Inl BadBufferAccess else Inr hash)"
| "hash_loop i maxlen (c # cs) hash =
     (if i < maxlen \<and> c \<noteq> 0 then hash_loop (i + 1) maxlen cs (hash + scast c * (119 + of_nat i))
      else Inr hash)"

definition Hash8_hashKey :: "byte list \<Rightarrow> nat \<Rightarrow> msg_error + u32" where
  "Hash8_hashKey string maxlen =
     rbind (hash_loop 0 maxlen string 0) (\<lambda>hash.
       Inr (hash XOR drop_bit 10 hash XOR drop_bit 20 hash))"

definition Hash17_hashKey :: "byte list \<Rightarrow> nat \<Rightarrow> msg_error + u32" where
  "Hash17_hashKey string maxlen =
     rbind (hash_loop 0 maxlen string 0) (\<lambda>hash.
       Inr (hash XOR drop_bit 10 (hash XOR drop_bit 10 hash)))"

definition hashVersion8 :: "(byte list \<Rightarrow> nat \<Rightarrow> msg_error + u32) singleton" where
  "hashVersion8 = (5, 8, Hash8_hashKey)"

definition hashVersion17 :: "(byte list \<Rightarrow> nat \<Rightarrow> msg_error + u32) singleton" where
  "hashVersion17 = (15, 17, Hash17_hashKey)"

section \<open>Header and commands\<close>

record mapInfo =
  mp_serverId :: u32
  mp_checksumFeed :: u32

definition writeHeader :: "mapInfo \<Rightarrow> 'c commands \<Rightarrow> u32 \<Rightarrow> msg \<Rightarrow> msg_error + msg" where
  "writeHeader mapInfo commandSequence sequenceNum m =
     rbind (WriteUInteger (mp_serverId mapInfo) m) (\<lambda>m1.
     rbind (WriteUInteger sequenceNum m1) (\<lambda>m2.
     WriteUInteger (getCommandSequence commandSequence) m2))"

definition readHeader :: "'r sequence_ops \<Rightarrow> 'r reliable \<Rightarrow> msg \<Rightarrow>
    msg_error + (mapInfo \<times> 'r reliable \<times> u32) \<times> msg" where
  "readHeader vt rel m =
     rbind (ReadUInteger m) (\<lambda>(serverId, m1).
     rbind (ReadUInteger m1) (\<lambda>(sequenceNum, m2).
     rbind (ReadUInteger m2) (\<lambda>(ack, m3).
     Inr ((\<lparr>mp_serverId = serverId, mp_checksumFeed = 0\<rparr>, updateAcknowledge vt ack rel,
           sequenceNum), m3))))"

definition clc_Move :: byte where "clc_Move = 2"
definition clc_MoveNoDelta :: byte where "clc_MoveNoDelta = 3"
definition clc_ClientCommand :: byte where "clc_ClientCommand = 4"
definition clc_eof :: byte where "clc_eof = 5"

text \<open>One command; a loop over numbers of 32 bits, which does not end when the last is the greatest.\<close>

definition write_command ::
  "'r sequence_ops \<Rightarrow> string_parser \<Rightarrow> 'r reliable \<Rightarrow> u32 \<Rightarrow> msg \<Rightarrow> msg_error + msg" where
  "write_command vt parser r i m =
     rbind (WriteByte clc_ClientCommand m) (\<lambda>m1.
     rbind (WriteInteger i m1) (\<lambda>m2.
     rbind (getSequence vt r i) (\<lambda>s. writeString parser (Some s) m2)))"

partial_function (option) write_commands_loop ::
  "'r sequence_ops \<Rightarrow> string_parser \<Rightarrow> 'r reliable \<Rightarrow> u32 \<Rightarrow> u32 \<Rightarrow> msg \<Rightarrow> (msg_error + msg) option" where
  "write_commands_loop vt parser r reliableSequenceNum i m =
     (if i \<le> reliableSequenceNum then
        (case write_command vt parser r i m of
           Inl e \<Rightarrow> Some (Inl e)
         | Inr m' \<Rightarrow> write_commands_loop vt parser r reliableSequenceNum (i + 1) m')
      else Some (Inr m))"

definition writeCommands ::
  "'r sequence_ops \<Rightarrow> string_parser \<Rightarrow> 'r reliable \<Rightarrow> msg \<Rightarrow> (msg_error + msg) option" where
  "writeCommands vt parser r m =
     write_commands_loop vt parser r (getReliableSequence r) (getReliableAcknowledge r + 1) m"

section \<open>Movement\<close>

text \<open>The commands are delta compressed against each other; the first against the null command.\<close>

fun write_all_commands ::
  "u32 \<Rightarrow> (nat \<Rightarrow> usercmd) \<Rightarrow> nat \<Rightarrow> SerializableUsercmd \<Rightarrow> msg \<Rightarrow> msg_error + msg" where
  "write_all_commands key cmdGetter 0 oldCmd m = Inr m"
| "write_all_commands key cmdGetter (Suc i) oldCmd m =
     rbind (usercmd_SaveDelta oldCmd (uint key) (SerializableUsercmd_new (cmdGetter i)) m)
       (\<lambda>(inputCmd, m'). write_all_commands key cmdGetter i inputCmd m')"

definition writeAllCommands :: "(nat \<Rightarrow> usercmd) \<Rightarrow> nat \<Rightarrow> u32 \<Rightarrow> msg \<Rightarrow> msg_error + msg" where
  "writeAllCommands cmdGetter count key m =
     write_all_commands key cmdGetter count (SerializableUsercmd_new usercmd_new) m"

definition writeMovement ::
  "usereyes \<Rightarrow> usereyes \<Rightarrow> (nat \<Rightarrow> usercmd) \<Rightarrow> nat \<Rightarrow> u32 \<Rightarrow> bool \<Rightarrow> msg \<Rightarrow> msg_error + msg" where
  "writeMovement oldEyes eyes cmdGetter count key deltaMove m =
     (if count = 0 then Inr m
      else
        rbind (if deltaMove then WriteByte clc_Move m else WriteByte clc_MoveNoDelta m) (\<lambda>m1.
        rbind (WriteByte (of_nat count) m1) (\<lambda>m2.
        rbind (eyes_SaveDelta oldEyes eyes m2) (\<lambda>m3.
        writeAllCommands cmdGetter count key m3))))"

section \<open>The input module\<close>

definition MAX_PACKET_USERCMDS :: nat where "MAX_PACKET_USERCMDS = 32"

record input_module =
  im_input :: UserInput
  im_oldeyes :: usereyes
  im_lastCmdNum :: u32

definition getNumCommandsToWrite :: "input_module \<Rightarrow> u32 \<Rightarrow> byte" where
  "getNumCommandsToWrite im index =
     (let cmdNumber = getCurrentCmdNumber (im_input im) in
      if unat cmdNumber > unat index + MAX_PACKET_USERCMDS then of_nat MAX_PACKET_USERCMDS
      else ucast (cmdNumber - index))"

text \<open>The handler fills the command and the eyes through the references it gets.\<close>

definition input_process :: "(usercmd \<times> usereyes \<Rightarrow> usercmd \<times> usereyes) \<Rightarrow> int \<Rightarrow> input_module \<Rightarrow> input_module" where
  "input_process handler time im =
     (let (i, u) = createCommand time (im_input im);
          u' = createEyes u;
          (cmd, eyes) = handler (getCommand u' i, getEyeInfo u')
      in im\<lparr>im_input := u'\<lparr>ui_cmds := warp_set (ui_cmds u') i cmd, ui_eyeinfo := eyes\<rparr>\<rparr>)"

definition input_write :: "u32 \<Rightarrow> bool \<Rightarrow> input_module \<Rightarrow> msg \<Rightarrow> msg_error + input_module \<times> msg" where
  "input_write key deltaMove im m =
     (let count = getNumCommandsToWrite im (im_lastCmdNum im) in
      rbind (writeMovement (im_oldeyes im) (getEyeInfo (im_input im)) (getCommandFromLast (im_input im))
               (unat count) key deltaMove m) (\<lambda>m'.
        Inr (im\<lparr>im_lastCmdNum := getCurrentCmdNumber (im_input im), im_oldeyes := getEyeInfo (im_input im)\<rparr>, m')))"

section \<open>String parsers keep the contract of the wire\<close>

definition string_parsers :: "string_parser set" where
  "string_parsers = {String8, String17}"

definition sent_string :: "StringMessage \<Rightarrow> StringMessage" where
  "sent_string s = Some (c_chars (case s of None \<Rightarrow> [] | Some p \<Rightarrow> p))"

definition parser_code :: "string_parser \<Rightarrow> StringMessage \<Rightarrow> bool list" where
  "parser_code p = (if p = String8 then string_code else scrambled_code charByteMapping)"

lemma parser_wire:
  assumes "p \<in> string_parsers"
  shows "puts (writeString p s) (parser_code p s)" "gets (readString p) (parser_code p s) (sent_string s)"
proof -
  have eq: "writeString String8 = WriteString" "readString String8 = ReadString"
    "writeString String17 = (\<lambda>s. WriteScrambledString s charByteMapping)"
    "readString String17 = ReadScrambledString byteCharMapping"
    by (simp_all add: String8_def String17_def)
  show "puts (writeString p s) (parser_code p s)"
  proof (cases "p = String8")
    case True
    then show ?thesis by (simp add: eq parser_code_def wstring.put_ok)
  next
    case False
    then show ?thesis using assms by (simp add: string_parsers_def eq parser_code_def wscrambled.put_ok)
  qed
  show "gets (readString p) (parser_code p s) (sent_string s)"
  proof (cases "p = String8")
    case True
    then show ?thesis using wstring.get_ok [of s] by (simp add: eq parser_code_def sent_string_def)
  next
    case False
    then show ?thesis using assms wscrambled.get_ok [of s]
      by (simp add: string_parsers_def eq parser_code_def sent_string_def)
  qed
qed

interpretation wparser: wire "parser_code p" "writeString p" "readString p"
    "\<lambda>_. p \<in> string_parsers" sent_string for p
  by unfold_locales (rule parser_wire, assumption)+

lemma dyn_ready: "st_invar (DynS (dyn_new b))" "st_content (DynS (dyn_new b)) = []"
  "st_room (DynS (dyn_new b)) R"
  by simp_all

lemma transfer_dyn:
  assumes "puts (put x) bs" "gets get bs y"
  shows "transfer put get x (DynS (dyn_new fresh)) = Inr y"
  by (rule transfer_ok [where put = put and x = x and get = get, OF assms, where R = "length bs + 1"]) simp_all

lemma singleton_get_in:
  assumes "singleton_get insts protocol = Some p"
  shows "\<exists>lo hi. (lo, hi, p) \<in> set insts"
  using assms by (auto simp: singleton_get_def find_Some_iff split: option.splits) (metis nth_mem)+

lemma singleton_get_default:
  assumes "(0, 0, d) \<in> set insts"
  shows "\<exists>p. singleton_get insts protocol = Some p"
  using assms by (auto simp: singleton_get_def find_None_iff split: option.splits)

section \<open>Properties of packets\<close>

text \<open>In whatever order the string parsers were constructed, every protocol version has one, and
  a string that one side writes with it reaches the other side up to its terminator.\<close>

theorem string_transfer_every_protocol:
  assumes "set insts = {stringParser8, stringParser17, stringParserDefault}"
  shows "\<exists>p. singleton_get insts protocol = Some p \<and>
    transfer (writeString p) (readString p) str (DynS (dyn_new fresh)) = Inr (sent_string str)"
proof -
  have "(0, 0, String17) \<in> set insts" using assms by (simp add: stringParserDefault_def)
  then obtain p where p: "singleton_get insts protocol = Some p"
    using singleton_get_default [of String17 insts protocol] by blast
  then have "p \<in> string_parsers" using singleton_get_in [OF p] assms
    by (auto simp: string_parsers_def stringParser8_def stringParser17_def stringParserDefault_def)
  then show ?thesis
    using p transfer_dyn [where put = "writeString p" and x = str, OF parser_wire] by blast
qed

theorem string_transfer_every_protocol_witness:
  "\<exists>p. singleton_get [stringParser8, stringParser17, stringParserDefault] 17 = Some p \<and>
    transfer (writeString p) (readString p) (Some [104, 105, 0, 7]) (DynS (dyn_new 0)) = Inr (Some [104, 105])"
  using string_transfer_every_protocol [of "[stringParser8, stringParser17, stringParserDefault]" 17
      "Some [104, 105, 0, 7]" 0]
  by (simp add: sent_string_def c_chars_def)

text \<open>The count of commands to send is the number created since the last packet, at most 32; but
  when the input was reset below the last number sent, the difference wraps and its low byte, up to
  255, is the count.\<close>

theorem num_commands_to_write:
  "unat (getNumCommandsToWrite im index) =
     (let n = unat (getCurrentCmdNumber (im_input im)); i = unat index in
      if n < i then (2 ^ 32 + n - i) mod 256 else min 32 (n - i))"
proof -
  let ?n = "getCurrentCmdNumber (im_input im)"
  have lt: "unat index < 2 ^ 32" "unat ?n < 2 ^ 32" using unsigned_less [of index] unsigned_less [of ?n] by simp_all
  have c: "unat (ucast (?n - index) :: byte) = unat (?n - index) mod 256"
    by (simp add: unsigned_ucast_eq take_bit_eq_mod)
  show ?thesis
  proof (cases "unat ?n < unat index")
    case True
    then have "unat (?n - index) = 2 ^ 32 + unat ?n - unat index"
      using lt by (simp add: unat_sub_if' word_le_nat_alt)
    with True c show ?thesis by (simp add: getNumCommandsToWrite_def Let_def MAX_PACKET_USERCMDS_def)
  next
    case False
    then have "unat (?n - index) = unat ?n - unat index"
      by (simp add: unat_sub word_le_nat_alt)
    with False c show ?thesis
      by (auto simp: getNumCommandsToWrite_def Let_def MAX_PACKET_USERCMDS_def min_def)
  qed
qed

section \<open>The unacknowledged commands\<close>

text \<open>The format of a command, read back.\<close>

definition read_command :: "string_parser \<Rightarrow> msg \<Rightarrow> msg_error + (byte \<times> u32 \<times> StringMessage) \<times> msg" where
  "read_command p m =
     rbind (ReadByte m) (\<lambda>(op, m1).
     rbind (ReadInteger m1) (\<lambda>(n, m2).
     rbind (readString p m2) (\<lambda>(s, m3). Inr ((op, n, s), m3))))"

definition put_command :: "string_parser \<Rightarrow> u32 \<times> byte list \<Rightarrow> msg \<Rightarrow> msg_error + msg" where
  "put_command p c m =
     rbind (WriteByte clc_ClientCommand m) (\<lambda>m1.
     rbind (WriteInteger (fst c) m1) (\<lambda>m2. writeString p (Some (snd c)) m2))"

definition command_code :: "string_parser \<Rightarrow> u32 \<times> byte list \<Rightarrow> bool list" where
  "command_code p c = huff_code clc_ClientCommand @ code32 (fst c) @ parser_code p (Some (snd c))"

lemma put_command_puts: "p \<in> string_parsers \<Longrightarrow> puts (put_command p c) (command_code p c)"
  unfolding put_command_def [abs_def] command_code_def
  by (intro puts_bind WriteByte_puts WriteInteger_puts parser_wire(1))

lemma read_command_gets:
  assumes "p \<in> string_parsers"
  shows "gets (read_command p) (command_code p c) (clc_ClientCommand, fst c, sent_string (Some (snd c)))"
proof -
  have "gets (read_command p) (huff_code clc_ClientCommand @ code32 (fst c) @ parser_code p (Some (snd c)) @ [])
      (clc_ClientCommand, fst c, sent_string (Some (snd c)))"
    unfolding read_command_def [abs_def]
    by (rule gets_bind [OF ReadByte_gets] gets_bind [OF ReadInteger_gets]
        gets_bind [OF parser_wire(2) [OF assms]] gets_return)+
  then show ?thesis by (simp add: command_code_def)
qed

interpretation wcommand: wire "command_code p" "put_command p" "read_command p"
    "\<lambda>_. p \<in> string_parsers" "\<lambda>c. (clc_ClientCommand, fst c, sent_string (Some (snd c)))" for p
  by unfold_locales (erule put_command_puts, erule read_command_gets)

text \<open>The loop sends the commands whose rows can be read, one after the other.\<close>

lemma write_commands_loop_rows:
  assumes "sq \<noteq> - 1" "unat sq + 1 - unat i = length rows"
    and "\<And>k. k < length rows \<Longrightarrow> getSequence vt r (i + of_nat k) = Inr (rows ! k)"
  shows "write_commands_loop vt p r sq i m =
    Some (put_list (put_command p) (zip (map (\<lambda>k. i + of_nat k) [0..<length rows]) rows) m)"
  using assms(2,3)
proof (induction rows arbitrary: i m)
  case Nil
  then have "\<not> i \<le> sq" by (simp add: word_le_nat_alt)
  then show ?case by (simp add: write_commands_loop.simps)
next
  case (Cons row rows)
  have le: "i \<le> sq" using Cons.prems(1) by (simp add: word_le_nat_alt)
  have "i \<noteq> - 1" using le assms(1) word_order.extremum_unique [of i] by (metis word_order.extremum_uniqueI)
  then have n: "unat (i + 1) = unat i + 1"
    by (metis Suc_eq_plus1 add.commute add_eq_0_iff unatSuc word_not_simps(1))
  have w: "write_command vt p r i m = put_command p (i, row) m"
    using Cons.prems(2) [of 0] by (simp add: write_command_def put_command_def)
  have ih: "write_commands_loop vt p r sq (i + 1) m' =
      Some (put_list (put_command p) (zip (map (\<lambda>k. i + 1 + of_nat k) [0..<length rows]) rows) m')" for m'
    by (rule Cons.IH) (use Cons.prems(1) n Cons.prems(2) [of "Suc _"] in \<open>simp_all add: add.assoc\<close>)
  have "map (\<lambda>k. i + of_nat k) [0..<length (row # rows)] = i # map (\<lambda>k. i + 1 + of_nat k) [0..<length rows]"
    by (simp add: upt_conv_Cons add.assoc o_def del: upt_Suc flip: map_Suc_upt)
  then show ?case
    using le w by (subst write_commands_loop.simps) (simp add: ih split: sum.split)
qed

text \<open>The loop ends, with a message or an exception, unless the last number is the greatest one.\<close>

lemma write_commands_loop_returns:
  assumes "sq \<noteq> - 1"
  shows "\<exists>x. write_commands_loop vt p r sq i m = Some x"
proof (induction "unat sq + 1 - unat i" arbitrary: i m)
  case 0
  then have "\<not> i \<le> sq" by (simp add: word_le_nat_alt)
  then show ?case by (simp add: write_commands_loop.simps)
next
  case (Suc n)
  then have le: "i \<le> sq" by (simp add: word_le_nat_alt)
  have "i \<noteq> - 1" using le assms(1) by (metis word_order.extremum_uniqueI)
  then have "unat (i + 1) = unat i + 1"
    by (metis Suc_eq_plus1 add.commute add_eq_0_iff unatSuc word_not_simps(1))
  then have "n = unat sq + 1 - unat (i + 1)" using Suc(2) by simp
  from Suc(1) [OF this] le show ?case
    by (subst write_commands_loop.simps) (auto split: sum.split)
qed

lemma write_commands_loop_never_ends:
  assumes "write_commands_loop vt p r sq i m = Some x"
  shows "sq = - 1 \<longrightarrow> isl x"
  using assms
proof (induction rule: write_commands_loop.raw_induct [rotated 1, consumes 1, case_names step])
  case (step loop vt p r sq i m x)
  then show ?case by (auto split: if_splits sum.splits) (metis sum.disc(1))
qed

text \<open>C32: \<open>writeCommands\<close> returns, with the message or an exception, unless the number of the last
  command is the greatest of 32 bits; then the comparison always holds and it never returns a
  message.\<close>

theorem write_commands_returns:
  "(getReliableSequence r \<noteq> - 1 \<longrightarrow> (\<exists>x. writeCommands vt p r m = Some x)) \<and>
   (getReliableSequence r = - 1 \<longrightarrow> (\<forall>m'. writeCommands vt p r m \<noteq> Some (Inr m')))"
proof (intro conjI impI allI notI)
  show "\<exists>x. writeCommands vt p r m = Some x" if "getReliableSequence r \<noteq> - 1"
    unfolding writeCommands_def by (rule write_commands_loop_returns [OF that])
  fix m' assume "getReliableSequence r = - 1" "writeCommands vt p r m = Some (Inr m')"
  then show False using write_commands_loop_never_ends by (fastforce simp: writeCommands_def)
qed

theorem write_commands_returns_witness:
  "\<forall>m. \<exists>x. writeCommands SequenceTemplate String8 (IReliableSequence_new (SequenceTemplate_ver8 0)) m = Some x"
  using write_commands_returns [of "IReliableSequence_new (SequenceTemplate_ver8 0)" SequenceTemplate String8]
  by (simp add: IReliableSequence_new_def getReliableSequence_def)

lemma transfer_cong: "put x = put' x' \<Longrightarrow> transfer put get x s = transfer put' get x' s"
  by (simp add: transfer_def)

lemma log_run_length: "length (fst (log_run N xs l)) \<le> length (fst l) + length xs"
proof (induction xs arbitrary: l)
  case (Cons x xs)
  show ?case using Cons.IH [of "log_step N x l"] log_step_length [of N x l] by simp
qed simp

text \<open>C3: After any run of a reliable sequence, as long as the peer has not fallen behind by more than
  64 commands, what \<open>writeCommands\<close> sends with either string parser is read as exactly the
  commands that are not acknowledged, in order, with their numbers, each cut to 2047 characters.\<close>

theorem unacknowledged_commands_transfer:
  assumes "p \<in> string_parsers" "length xs + 1 < 2 ^ 32"
    and "rel_run SequenceTemplate xs (IReliableSequence_new (SequenceTemplate_ver17 fresh)) = Inr r"
    and "log_run 64 xs ([], 0) = (log, acked)" "acked \<le> length log" "length log \<le> acked + 64"
  shows "transfer (\<lambda>r m. case writeCommands SequenceTemplate p r m of Some x \<Rightarrow> x | None \<Rightarrow> Inl NonTerminating)
      (get_list (read_command p) (length log - acked)) r (DynS (dyn_new b)) =
    Inr (map (\<lambda>i. (clc_ClientCommand, of_nat i, Some (take 2047 (c_chars (log ! (i - 1))))))
      [acked + 1..<length log + 1])"
proof -
  let ?n = "length log - acked" and ?g = "\<lambda>k. getSequence SequenceTemplate r (of_nat (acked + 1 + k))"
  have s: "sent17.sends r (log, acked)"
    using sent17.run_sends [OF sent17.new_sends [OF ver_arrays(2) [of fresh]], of xs] assms(2-4) by simp
  have l: "length log + 1 < 2 ^ 32" using log_run_length [of 64 xs "([], 0)"] assms(2,4) by simp
  have sq: "unat (getReliableSequence r) = length log" "getReliableAcknowledge r = of_nat acked"
    using s by (auto simp: sent17.sends_def getReliableSequence_def getReliableAcknowledge_def)
  have row: "\<exists>row. ?g k = Inr row \<and> c_chars row = take 2047 (c_chars (log ! (acked + k)))" if "k < ?n" for k
    using sent17.sends_get [OF s, of "acked + 1 + k"] that assms(6) by (simp add: kept_def)
  define rows where "rows = map (\<lambda>k. projr (?g k)) [0..<?n]"
  have rows: "length rows = ?n" "?g k = Inr (rows ! k)" "c_chars (rows ! k) = take 2047 (c_chars (log ! (acked + k)))"
    if "k < ?n" for k using row [OF that] that by (auto simp: rows_def)
  have len: "length rows = ?n" by (simp add: rows_def)
  have i: "getReliableAcknowledge r + 1 + of_nat k = of_nat (acked + 1 + k)" for k using sq(2) by simp
  have m: "unat (- 1 :: u32) = 2 ^ 32 - 1" by (simp add: unsigned_minus_1_eq_mask mask_eq_exp_minus_1)
  have ne: "getReliableSequence r \<noteq> - 1"
  proof
    assume "getReliableSequence r = - 1"
    then have "length log = 2 ^ 32 - 1" using sq(1) m by (simp only:)
    with l show False by simp
  qed
  have "unat (of_nat k :: u32) = k" if "k < 2 ^ 32" for k using that by (simp add: unat_of_nat)
  from this [of "acked + 1"] have "unat (of_nat (acked + 1) :: u32) = acked + 1"
    using l assms(5) by linarith
  then have d: "unat (getReliableSequence r) + 1 - unat (getReliableAcknowledge r + 1) = length rows"
    using sq len by (simp add: add.commute)
  let ?cs = "zip (map (\<lambda>k. of_nat (acked + 1 + k) :: u32) [0..<length rows]) rows"
  have w: "writeCommands SequenceTemplate p r m = Some (put_list (put_command p) ?cs m)" for m
    unfolding writeCommands_def i [symmetric]
    by (rule write_commands_loop_rows [OF ne d]) (simp only: i len rows(2))
  have lc: "length ?cs = ?n" using len by simp
  have "(case writeCommands SequenceTemplate p r m of Some x \<Rightarrow> x | None \<Rightarrow> Inl NonTerminating) =
      put_list (put_command p) ?cs m" for m by (simp add: w)
  then have "transfer (\<lambda>r m. case writeCommands SequenceTemplate p r m of Some x \<Rightarrow> x | None \<Rightarrow> Inl NonTerminating)
      (get_list (read_command p) ?n) r (DynS (dyn_new b)) =
    transfer (put_list (put_command p)) (get_list (read_command p) (length ?cs)) ?cs (DynS (dyn_new b))"
    unfolding lc by (intro transfer_cong) (simp add: fun_eq_iff)
  also have "\<dots> = Inr (map (\<lambda>c. (clc_ClientCommand, fst c, sent_string (Some (snd c)))) ?cs)"
    by (rule wcommand.list_roundtrip [where R = "length (concat (map (command_code p) ?cs)) + 1"])
      (use assms(1) in simp_all)
  also have "map (\<lambda>c. (clc_ClientCommand, fst c, sent_string (Some (snd c)))) ?cs =
      map (\<lambda>i. (clc_ClientCommand, of_nat i, Some (take 2047 (c_chars (log ! (i - 1)))))) [acked + 1..<length log + 1]"
    by (rule nth_equalityI) (use rows(3) len assms(5) in \<open>auto simp: sent_string_def simp del: upt_Suc\<close>)
  finally show ?thesis .
qed

theorem unacknowledged_commands_transfer_witness:
  "\<exists>r. rel_run SequenceTemplate [AddCommand [97], AddCommand [98, 99], UpdateAcknowledge 1, AddCommand [100]]
      (IReliableSequence_new (SequenceTemplate_ver17 0)) = Inr r \<and>
    transfer (\<lambda>r m. case writeCommands SequenceTemplate String17 r m of Some x \<Rightarrow> x | None \<Rightarrow> Inl NonTerminating)
      (get_list (read_command String17) 2) r (DynS (dyn_new 0)) =
    Inr [(clc_ClientCommand, 2, Some [98, 99]), (clc_ClientCommand, 3, Some [100])]"
proof -
  let ?xs = "[AddCommand [97], AddCommand [98, 99], UpdateAcknowledge 1, AddCommand [100]]"
  have l: "log_run 64 ?xs ([], 0) = ([[97], [98, 99], [100]], 1)" by simp
  obtain r where r: "rel_run SequenceTemplate ?xs (IReliableSequence_new (SequenceTemplate_ver17 0)) = Inr r"
    using sent17.run_sends [OF sent17.new_sends [OF ver_arrays(2) [of 0]], of ?xs] by auto
  have n: "length [[97], [98, 99], [100 :: byte]] - (1 :: nat) = 2" by simp
  have "[1 + 1..<length [[97], [98, 99], [100 :: byte]] + 1] = [2, 3]" by (simp add: upt_conv_Cons)
  then have "transfer (\<lambda>r m. case writeCommands SequenceTemplate String17 r m of Some x \<Rightarrow> x | None \<Rightarrow> Inl NonTerminating)
      (get_list (read_command String17) 2) r (DynS (dyn_new 0)) =
    Inr [(clc_ClientCommand, 2, Some [98, 99]), (clc_ClientCommand, 3, Some [100])]"
    using unacknowledged_commands_transfer [OF _ _ r l, of String17 0, unfolded n]
    by (simp add: string_parsers_def c_chars_def)
  with r show ?thesis by blast
qed

end
