(* ===== verification/Tokens.thy ===== *)
theory Tokens
  imports Moh_Prelude
begin

text \<open>
  The tokens of a text (\<open>Utility/TokenParser.cpp\<close>) and the commands that are read from one
  (\<open>Utility/CommandManager.cpp\<close>). The characters are signed. \<open>script_p\<close> is the list of the characters
  from it to \<open>end_p\<close>, where the text has its terminator; what an exception leaves in the parser is not
  modelled. A pointer to a token that is returned is the list of its characters: a text made of a C
  string has no zero byte, and one of a given length is cut at a zero by who reads the pointer. A macro
  whose text is a formula is computed with floating point numbers by \<open>EvaluateMacroString\<close>, which
  is a parameter.
\<close>

section \<open>Strings\<close>

text \<open>A string is the list of its characters without the terminator.\<close>

definition at0 :: "byte list \<Rightarrow> byte" where
  "at0 s = (case s of [] \<Rightarrow> 0 | c # _ \<Rightarrow> c)"

definition to_lower :: "byte \<Rightarrow> byte" where
  "to_lower c = (if 65 \<le> c \<and> c \<le> 90 then c + 32 else c)"

fun str_cmp :: "byte list \<Rightarrow> byte list \<Rightarrow> int" where
  "str_cmp [] [] = 0"
| "str_cmp s1 s2 =
     (if sint (at0 s1) < sint (at0 s2) then - 1 else if sint (at0 s1) > sint (at0 s2) then 1
      else str_cmp (tl s1) (tl s2))"

fun icmp :: "byte list \<Rightarrow> byte list \<Rightarrow> int" where
  "icmp [] [] = 0"
| "icmp s1 s2 =
     (let c1 = sint (to_lower (at0 s1)); c2 = sint (to_lower (at0 s2)) in
      if c1 < c2 then - 1 else if c1 > c2 then 1 else icmp (tl s1) (tl s2))"

definition is_space :: "byte \<Rightarrow> bool" where
  "is_space c \<longleftrightarrow> c = 32 \<or> 9 \<le> c \<and> c \<le> 13"

definition is_digit :: "byte \<Rightarrow> bool" where
  "is_digit c \<longleftrightarrow> 48 \<le> c \<and> c \<le> 57"

fun digits_val :: "int \<Rightarrow> byte list \<Rightarrow> int" where
  "digits_val v [] = v"
| "digits_val v (c # s) = (if is_digit c then digits_val (v * 10 + uint c - 48) s else v)"

text \<open>The value of \<open>atoi\<close> and \<open>atoll\<close> where it is in their range.\<close>

definition ato_int :: "byte list \<Rightarrow> int" where
  "ato_int s =
     (let t = dropWhile is_space s in
      if t \<noteq> [] \<and> hd t = 45 then - digits_val 0 (tl t)
      else if t \<noteq> [] \<and> hd t = 43 then digits_val 0 (tl t)
      else digits_val 0 t)"

section \<open>The parser\<close>

definition TOKENCOMMENT :: byte where "TOKENCOMMENT = 59"
definition TOKENEOL :: byte where "TOKENEOL = 10"
definition TOKENSPACE :: byte where "TOKENSPACE = 32"
definition TOKENSPECIAL :: byte where "TOKENSPECIAL = 36"
definition TOKENCOMMA :: byte where "TOKENCOMMA = 44"
definition QUOTE :: byte where "QUOTE = 34"
definition BACKSLASH :: byte where "BACKSLASH = 92"

datatype token_error =
    EndOfFileReached
  | NoMacroTextFound "byte list"
  | LineIncomplete u32
  | ExpectedToken "byte list" u32

record tokens =
  tk_tokenready :: bool
  tk_script :: "byte list"
  tk_macrolist :: "(byte list \<times> byte list) list"
  tk_line :: u32
  tk_token :: "byte list"
  tk_hasError :: bool
  tk_buffer :: "byte list"

definition tokens_closed :: tokens where
  "tokens_closed =
     \<lparr>tk_tokenready = False, tk_script = [], tk_macrolist = [], tk_line = 0, tk_token = [], tk_hasError = False, tk_buffer = []\<rparr>"

text \<open>Close frees the macros but leaves their null pointers in the list; the model has an empty list.\<close>

definition tk_Close :: "tokens \<Rightarrow> tokens" where
  "tk_Close tk =
     tk\<lparr>tk_buffer := [], tk_script := [], tk_line := 0, tk_tokenready := False, tk_token := [], tk_macrolist := []\<rparr>"

definition tk_Reset :: "tokens \<Rightarrow> tokens" where
  "tk_Reset tk = tk\<lparr>tk_script := tk_buffer tk, tk_line := 1, tk_tokenready := False, tk_hasError := False\<rparr>"

definition tk_Parse :: "byte list \<Rightarrow> tokens \<Rightarrow> tokens" where
  "tk_Parse data tk = tk_Reset ((tk_Close tk)\<lparr>tk_buffer := data\<rparr>)"

text \<open>The three constructors: of a C string, of a pointer with a length and of a string with its length.\<close>

definition tokens_new :: "byte list \<Rightarrow> tokens" where
  "tokens_new s = tk_Parse (c_chars s) tokens_closed"

definition tokens_new_len :: "byte list \<Rightarrow> nat \<Rightarrow> tokens" where
  "tokens_new_len s len = tk_Parse (take len s) tokens_closed"

definition tokens_new_str :: "byte list \<Rightarrow> tokens" where
  "tokens_new_str s = tk_Parse s tokens_closed"

text \<open>A marker; the offset is the characters left.\<close>

record scriptmarker_t =
  mk_tokenready :: bool
  mk_script :: "byte list"
  mk_line :: u32
  mk_token :: "byte list"

definition MarkPosition :: "tokens \<Rightarrow> scriptmarker_t" where
  "MarkPosition tk =
     \<lparr>mk_tokenready = tk_tokenready tk, mk_script = tk_script tk, mk_line = tk_line tk, mk_token = tk_token tk\<rparr>"

definition RestorePosition :: "scriptmarker_t \<Rightarrow> tokens \<Rightarrow> tokens" where
  "RestorePosition mark tk =
     tk\<lparr>tk_tokenready := mk_tokenready mark, tk_script := mk_script mark, tk_line := mk_line mark, tk_token := mk_token mark\<rparr>"

subsection \<open>Skipping\<close>

text \<open>The result tells if the end of the text was reached.\<close>

definition SkipToEOL :: "byte list \<Rightarrow> bool \<times> byte list" where
  "SkipToEOL s = (let s' = dropWhile (\<lambda>c. c \<noteq> TOKENEOL) s in (s' = [], s'))"

definition blank :: "byte \<Rightarrow> bool" where
  "blank c \<longleftrightarrow> sint c \<le> sint TOKENSPACE"

fun SkipWhiteSpace :: "bool \<Rightarrow> u32 \<Rightarrow> byte list \<Rightarrow> token_error + byte list \<times> u32" where
  "SkipWhiteSpace crossline line [] = Inl EndOfFileReached"
| "SkipWhiteSpace crossline line (c # s) =
     (if blank c \<or> c = TOKENCOMMA then
        (if c = TOKENEOL then
           (if \<not> crossline then Inl (LineIncomplete line) else SkipWhiteSpace crossline (line + 1) s)
         else SkipWhiteSpace crossline line s)
      else Inr (c # s, line))"

definition AtComment :: "byte list \<Rightarrow> bool" where
  "AtComment s \<longleftrightarrow>
     (case s of
        [] \<Rightarrow> False
      | c # s' \<Rightarrow> c = TOKENCOMMENT \<or> (case s' of [] \<Rightarrow> False | d # _ \<Rightarrow> c = 47 \<and> d = 47))"

lemma SkipWhiteSpace_length:
  "SkipWhiteSpace crossline line s = Inr (s', line') \<Longrightarrow> length s' \<le> length s"
  by (induction crossline line s rule: SkipWhiteSpace.induct) (auto split: if_splits)

lemma comment_not_eol: "AtComment (c # s) \<Longrightarrow> c \<noteq> TOKENEOL"
  by (auto simp: AtComment_def TOKENCOMMENT_def TOKENEOL_def split: list.splits)

lemma SkipToEOL_comment: "AtComment s \<Longrightarrow> length (snd (SkipToEOL s)) < length s"
  using comment_not_eol by (cases s) (auto simp: SkipToEOL_def Let_def AtComment_def le_imp_less_Suc length_dropWhile_le)

function skip_comments :: "bool \<Rightarrow> u32 \<Rightarrow> byte list \<Rightarrow> token_error + byte list \<times> u32" where
  "skip_comments crossline line s =
     (if AtComment s then
        rbind (SkipWhiteSpace crossline line (snd (SkipToEOL s))) (\<lambda>(s1, line1). skip_comments crossline line1 s1)
      else Inr (s, line))"
  by auto
termination
proof (relation "measure (\<lambda>(crossline, line, s). length s)", goal_cases)
  case (2 crossline line s x s1 line1)
  then show ?case
    using SkipToEOL_comment [of s] SkipWhiteSpace_length [of crossline line "snd (SkipToEOL s)" s1 line1] by auto
qed simp

declare skip_comments.simps [simp del]

definition SkipNonToken :: "bool \<Rightarrow> u32 \<Rightarrow> byte list \<Rightarrow> token_error + byte list \<times> u32" where
  "SkipNonToken crossline line s = rbind (SkipWhiteSpace crossline line s) (\<lambda>(s1, line1). skip_comments crossline line1 s1)"

text \<open>The loop over the blanks of \<open>TokenAvailable\<close>: if it may go on, and where it is.\<close>

fun skip_blanks :: "bool \<Rightarrow> u32 \<Rightarrow> byte list \<Rightarrow> bool \<times> u32 \<times> byte list" where
  "skip_blanks crossline line [] = (False, line, [])"
| "skip_blanks crossline line (c # s) =
     (if \<not> blank c then (True, line, c # s)
      else if c = TOKENEOL then (if \<not> crossline then (False, line, c # s) else skip_blanks crossline (line + 1) s)
      else skip_blanks crossline line s)"

lemma skip_blanks_length: "length (snd (snd (skip_blanks crossline line s))) \<le> length s"
  by (induction crossline line s rule: skip_blanks.induct) auto

function TokenAvailable :: "bool \<Rightarrow> u32 \<Rightarrow> byte list \<Rightarrow> bool \<times> u32 \<times> byte list" where
  "TokenAvailable crossline line s =
     (let (more, line1, s1) = skip_blanks crossline line s in
      if \<not> more then (False, line1, s1)
      else if AtComment s1 then
        (let (done, s2) = SkipToEOL s1 in if done then (False, line1, s2) else TokenAvailable crossline line1 s2)
      else (True, line1, s1))"
  by auto
termination
proof (relation "measure (\<lambda>(crossline, line, s). length s)", goal_cases)
  case (2 crossline line s r more q line1 s1 r2 ended s2)
  then have "length s1 \<le> length s" using skip_blanks_length [of crossline line s] by (metis snd_conv)
  moreover have "length s2 < length s1" using 2 SkipToEOL_comment [of s1] by (metis snd_conv)
  ultimately show ?case by simp
qed simp

declare TokenAvailable.simps [simp del]

fun CommentAvailable :: "bool \<Rightarrow> byte list \<Rightarrow> bool" where
  "CommentAvailable crossline [] \<longleftrightarrow> False"
| "CommentAvailable crossline (c # s) \<longleftrightarrow>
     (if \<not> blank c then True else if c = TOKENEOL \<and> \<not> crossline then False else CommentAvailable crossline s)"

definition UnGetToken :: "tokens \<Rightarrow> tokens" where
  "UnGetToken tk = tk\<lparr>tk_tokenready := True\<rparr>"

definition skip_to_token :: "bool \<Rightarrow> tokens \<Rightarrow> token_error + tokens" where
  "skip_to_token crossline tk =
     rbind (SkipNonToken crossline (tk_line tk) (tk_script tk)) (\<lambda>(s, line). Inr (tk\<lparr>tk_script := s, tk_line := line\<rparr>))"

text \<open>The tests for the next character.\<close>

definition AtChar :: "byte \<Rightarrow> bool \<Rightarrow> tokens \<Rightarrow> token_error + bool \<times> tokens" where
  "AtChar c crossline tk = rbind (skip_to_token crossline tk) (\<lambda>tk1. Inr (at0 (tk_script tk1) = c, tk1))"

definition AtString :: "bool \<Rightarrow> tokens \<Rightarrow> token_error + bool \<times> tokens" where "AtString = AtChar QUOTE"
definition AtOpenParen :: "bool \<Rightarrow> tokens \<Rightarrow> token_error + bool \<times> tokens" where "AtOpenParen = AtChar 40"
definition AtCloseParen :: "bool \<Rightarrow> tokens \<Rightarrow> token_error + bool \<times> tokens" where "AtCloseParen = AtChar 41"
definition AtComma :: "bool \<Rightarrow> tokens \<Rightarrow> token_error + bool \<times> tokens" where "AtComma = AtChar TOKENCOMMA"
definition AtDot :: "bool \<Rightarrow> tokens \<Rightarrow> token_error + bool \<times> tokens" where "AtDot = AtChar 46"

definition AtAssignment :: "bool \<Rightarrow> tokens \<Rightarrow> token_error + bool \<times> tokens" where
  "AtAssignment crossline tk =
     rbind (skip_to_token crossline tk) (\<lambda>tk1.
       let c = at0 (tk_script tk1); d = at0 (tl (tk_script tk1)) in
       Inr (c = 61 \<or> c = 43 \<and> d = 61 \<or> c = 45 \<and> d = 61 \<or> c = 42 \<and> d = 61 \<or> c = 47 \<and> d = 61, tk1))"

subsection \<open>Tokens\<close>

definition unescape :: "byte \<Rightarrow> byte" where
  "unescape d = (if d = 110 \<or> d = 114 then 10 else d)"

text \<open>The loop over the characters of a token.\<close>

fun grab :: "byte list \<Rightarrow> byte list \<Rightarrow> byte list \<times> byte list" where
  "grab token [] = (token, [])"
| "grab token [c] = (if \<not> blank c \<and> c \<noteq> TOKENCOMMA \<and> \<not> AtComment [c] then (token @ [c], []) else (token, [c]))"
| "grab token (c # d # s) =
     (if \<not> blank c \<and> c \<noteq> TOKENCOMMA \<and> \<not> AtComment (c # d # s) then
        (if c = BACKSLASH then grab (token @ [unescape d]) s else grab (token @ [c]) (d # s))
      else (token, c # d # s))"

text \<open>The loops over the characters of a string, after its first quote. An escaped character that is not
  known is left out.\<close>

definition escaped :: "byte \<Rightarrow> byte list" where
  "escaped d = (if d = 110 \<or> d = 114 then [10] else if d = 39 \<or> d = QUOTE \<or> d = BACKSLASH then [d] else [])"

fun string_escaped :: "bool \<Rightarrow> u32 \<Rightarrow> byte list \<Rightarrow> byte list \<Rightarrow> token_error + byte list \<times> byte list" where
  "string_escaped allowMultiLines line token [] = Inl EndOfFileReached"
| "string_escaped allowMultiLines line token [c] =
     (if c = QUOTE then Inr (token, [])
      else if c = TOKENEOL \<and> \<not> allowMultiLines then Inl (LineIncomplete line)
      else Inl EndOfFileReached)"
| "string_escaped allowMultiLines line token (c # d # s) =
     (if c = QUOTE then Inr (token, d # s)
      else if c = TOKENEOL then
        (if \<not> allowMultiLines then Inl (LineIncomplete line) else string_escaped allowMultiLines line token (d # s))
      else if c = BACKSLASH then string_escaped allowMultiLines line (token @ escaped d) s
      else string_escaped allowMultiLines line (token @ [c]) (d # s))"

fun string_plain :: "byte list \<Rightarrow> byte list \<Rightarrow> token_error + byte list \<times> byte list" where
  "string_plain token [] = Inl EndOfFileReached"
| "string_plain token (c # s) = (if c = QUOTE then Inr (token, s) else string_plain (token @ [c]) s)"

definition string_name :: "byte list" where "string_name = [115, 116, 114, 105, 110, 103]"

definition GetString :: "bool \<Rightarrow> bool \<Rightarrow> bool \<Rightarrow> tokens \<Rightarrow> token_error + byte list \<times> tokens" where
  "GetString crossline escape allowMultiLines tk =
     (if tk_tokenready tk then Inr (tk_token tk, tk\<lparr>tk_tokenready := False\<rparr>)
      else
        rbind (skip_to_token crossline tk) (\<lambda>tk1.
          if at0 (tk_script tk1) \<noteq> QUOTE then Inl (ExpectedToken string_name (tk_line tk1))
          else
            rbind (if escape then string_escaped allowMultiLines (tk_line tk1) [] (tl (tk_script tk1))
                   else string_plain [] (tl (tk_script tk1)))
              (\<lambda>(token, s). Inr (token, tk1\<lparr>tk_token := token, tk_script := s\<rparr>))))"

definition GrabNextToken :: "bool \<Rightarrow> tokens \<Rightarrow> token_error + byte list \<times> tokens" where
  "GrabNextToken crossline tk =
     rbind (skip_to_token crossline tk) (\<lambda>tk1.
       if at0 (tk_script tk1) = QUOTE then GetString crossline True False tk1
       else let (token, s) = grab [] (tk_script tk1) in Inr (token, tk1\<lparr>tk_token := token, tk_script := s\<rparr>))"

text \<open>The text of a macro, by its name with its signs; a text that begins with the sign is computed.\<close>

definition GetMacroString ::
  "((byte list \<times> byte list) list \<Rightarrow> byte list \<Rightarrow> token_error + byte list) \<Rightarrow> (byte list \<times> byte list) list \<Rightarrow> byte list \<Rightarrow>
   token_error + byte list" where
  "GetMacroString evaluate macrolist theMacroName =
     (case find (\<lambda>(name, text). str_cmp name theMacroName = 0) macrolist of
        None \<Rightarrow> Inl (NoMacroTextFound theMacroName)
      | Some (name, text) \<Rightarrow> if at0 text = TOKENSPECIAL then evaluate macrolist text else Inr text)"

definition word_include :: "byte list" where "word_include = [36, 105, 110, 99, 108, 117, 100, 101]"
definition word_define :: "byte list" where "word_define = [36, 100, 101, 102, 105, 110, 101]"
definition word_Define :: "byte list" where "word_Define = [36, 68, 101, 102, 105, 110, 101]"

text \<open>The last character of the text is also looked at when the text is empty; that reads the character before
  the string and is taken as different here.\<close>

definition AddMacroDefinition ::
  "((byte list \<times> byte list) list \<Rightarrow> byte list \<Rightarrow> token_error + byte list) \<Rightarrow> bool \<Rightarrow> tokens \<Rightarrow> token_error + tokens" where
  "AddMacroDefinition evaluate crossline tk =
     rbind (GrabNextToken crossline tk) (\<lambda>(name, tk1).
     rbind (GrabNextToken crossline tk1) (\<lambda>(tmpstr, tk2).
     rbind (if tmpstr \<noteq> word_include \<and> tmpstr \<noteq> [] \<and> last tmpstr = TOKENSPECIAL
            then GetMacroString evaluate (tk_macrolist tk2) tmpstr else Inr tmpstr) (\<lambda>text.
       Inr (tk2\<lparr>tk_macrolist := tk_macrolist tk2 @ [(TOKENSPECIAL # name @ [TOKENSPECIAL], text)]\<rparr>))))"

definition isMacro :: "tokens \<Rightarrow> token_error + bool \<times> tokens" where
  "isMacro tk =
     (let (available, line, s) = TokenAvailable True (tk_line tk) (tk_script tk); tk1 = tk\<lparr>tk_script := s, tk_line := line\<rparr> in
      if \<not> available then Inr (False, tk1)
      else rbind (skip_to_token True tk1) (\<lambda>tk2. Inr (at0 (tk_script tk2) = TOKENSPECIAL, tk2)))"

text \<open>The loop over the definitions before a token; it may not end with the text, so the number of
  characters is its bound.\<close>

fun get_definitions ::
  "((byte list \<times> byte list) list \<Rightarrow> byte list \<Rightarrow> token_error + byte list) \<Rightarrow> bool \<Rightarrow> nat \<Rightarrow> bool \<Rightarrow> byte list \<Rightarrow> tokens \<Rightarrow>
   token_error + (bool \<times> byte list) \<times> tokens" where
  "get_definitions evaluate crossline 0 is_Macro token_p tk = Inr ((is_Macro, token_p), tk)"
| "get_definitions evaluate crossline (Suc n) is_Macro token_p tk =
     (if token_p = word_define \<or> token_p = word_Define then
        rbind (AddMacroDefinition evaluate crossline tk) (\<lambda>tk1.
        rbind (isMacro tk1) (\<lambda>(is_Macro1, tk2).
        rbind (GrabNextToken crossline tk2) (\<lambda>(token1, tk3).
          get_definitions evaluate crossline n is_Macro1 token1 tk3)))
      else Inr ((is_Macro, token_p), tk))"

definition GetToken ::
  "((byte list \<times> byte list) list \<Rightarrow> byte list \<Rightarrow> token_error + byte list) \<Rightarrow> bool \<Rightarrow> tokens \<Rightarrow> token_error + byte list \<times> tokens" where
  "GetToken evaluate crossline tk =
     (if tk_tokenready tk then Inr (tk_token tk, tk\<lparr>tk_tokenready := False\<rparr>)
      else
        rbind (isMacro tk) (\<lambda>(is_Macro, tk1).
        rbind (GrabNextToken crossline tk1) (\<lambda>(token_p, tk2).
          if is_Macro \<and> token_p \<noteq> word_include then
            rbind (get_definitions evaluate crossline (Suc (length (tk_script tk2))) is_Macro token_p tk2)
              (\<lambda>((is_Macro1, token1), tk3).
                if is_Macro1 \<and> token1 \<noteq> word_include \<and> token1 \<noteq> [] \<and> last token1 = TOKENSPECIAL
                then rbind (GetMacroString evaluate (tk_macrolist tk3) token1) (\<lambda>text. Inr (text, tk3))
                else Inr (tk_token tk3, tk3))
          else Inr (tk_token tk2, tk2))))"

definition GetLine :: "bool \<Rightarrow> tokens \<Rightarrow> token_error + byte list \<times> tokens" where
  "GetLine crossline tk =
     (if tk_tokenready tk then Inr (tk_token tk, tk\<lparr>tk_tokenready := False\<rparr>)
      else
        rbind (skip_to_token crossline tk) (\<lambda>tk1.
          let token = takeWhile (\<lambda>c. c \<noteq> TOKENEOL) (tk_script tk1)
          in Inr (token, tk1\<lparr>tk_token := token, tk_script := snd (SkipToEOL (tk_script tk1))\<rparr>)))"

definition GetRaw :: "tokens \<Rightarrow> token_error + byte list \<times> tokens" where
  "GetRaw tk =
     rbind (SkipWhiteSpace True (tk_line tk) (tk_script tk)) (\<lambda>(s, line).
       let token = takeWhile (\<lambda>c. c \<noteq> TOKENEOL) s
       in Inr (token, tk\<lparr>tk_token := token, tk_line := line, tk_script := snd (SkipToEOL s)\<rparr>))"

text \<open>These convert the token, not the text of a macro.\<close>

definition GetBoolean ::
  "((byte list \<times> byte list) list \<Rightarrow> byte list \<Rightarrow> token_error + byte list) \<Rightarrow> bool \<Rightarrow> tokens \<Rightarrow> token_error + bool \<times> tokens" where
  "GetBoolean evaluate crossline tk =
     rbind (GetToken evaluate crossline tk) (\<lambda>(_, tk1).
       Inr (icmp (tk_token tk1) [116, 114, 117, 101] = 0 \<or> icmp (tk_token tk1) [49] = 0, tk1))"

definition GetInteger ::
  "((byte list \<times> byte list) list \<Rightarrow> byte list \<Rightarrow> token_error + byte list) \<Rightarrow> bool \<Rightarrow> tokens \<Rightarrow> token_error + u32 \<times> tokens" where
  "GetInteger evaluate crossline tk =
     rbind (GetToken evaluate crossline tk) (\<lambda>(_, tk1). Inr (word_of_int (ato_int (tk_token tk1)), tk1))"

definition GetInteger64 ::
  "((byte list \<times> byte list) list \<Rightarrow> byte list \<Rightarrow> token_error + byte list) \<Rightarrow> bool \<Rightarrow> tokens \<Rightarrow> token_error + 64 word \<times> tokens" where
  "GetInteger64 evaluate crossline tk =
     rbind (GetToken evaluate crossline tk) (\<lambda>(_, tk1). Inr (word_of_int (ato_int (tk_token tk1)), tk1))"

section \<open>Commands\<close>

text \<open>A command is a number; what it does is a parameter, with the state \<open>'w\<close> of all the handlers.\<close>

record command_manager =
  cm_commands :: "(byte list \<times> nat) list"

text \<open>A command or a listener throws an exception of the type \<open>'e\<close>, which may carry the state as it left it;
  \<open>raise\<close> makes one of an exception of the parser.\<close>

record ('e, 'w) command_handlers =
  execute :: "nat \<Rightarrow> tokens \<Rightarrow> 'w \<Rightarrow> 'e + tokens \<times> 'w"
  commandNotify :: "byte list \<Rightarrow> tokens \<Rightarrow> 'w \<Rightarrow> 'e + tokens \<times> 'w"
  raise :: "token_error \<Rightarrow> 'w \<Rightarrow> 'e"

definition cm_new :: command_manager where "cm_new = \<lparr>cm_commands = []\<rparr>"

definition cm_add :: "byte list \<Rightarrow> nat \<Rightarrow> command_manager \<Rightarrow> command_manager" where
  "cm_add name command cm = cm\<lparr>cm_commands := cm_commands cm @ [(name, command)]\<rparr>"

fun remove_first :: "('a \<Rightarrow> bool) \<Rightarrow> 'a list \<Rightarrow> 'a list" where
  "remove_first P [] = []"
| "remove_first P (x # xs) = (if P x then xs else x # remove_first P xs)"

definition cm_remove :: "nat \<Rightarrow> command_manager \<Rightarrow> command_manager" where
  "cm_remove command cm = cm\<lparr>cm_commands := remove_first (\<lambda>(_, c). c = command) (cm_commands cm)\<rparr>"

definition cm_remove_name :: "byte list \<Rightarrow> command_manager \<Rightarrow> command_manager" where
  "cm_remove_name name cm = cm\<lparr>cm_commands := remove_first (\<lambda>(n, _). icmp n name = 0) (cm_commands cm)\<rparr>"

definition cm_find :: "byte list \<Rightarrow> command_manager \<Rightarrow> nat option" where
  "cm_find name cm = map_option snd (find (\<lambda>(n, _). icmp n name = 0) (cm_commands cm))"

definition raising :: "('e, 'w) command_handlers \<Rightarrow> 'w \<Rightarrow> token_error + 'a \<Rightarrow> 'e + 'a" where
  "raising handlers w r = (case r of Inl e \<Rightarrow> Inl (raise handlers e w) | Inr x \<Rightarrow> Inr x)"

lemma raising_eq [simp]: "raising h w r = Inr x \<longleftrightarrow> r = Inr x" "raising h w r = Inl e \<longleftrightarrow> (\<exists>t. r = Inl t \<and> e = raise h t w)"
  by (auto simp: raising_def split: sum.splits)

definition cm_process ::
  "((byte list \<times> byte list) list \<Rightarrow> byte list \<Rightarrow> token_error + byte list) \<Rightarrow> ('e, 'w) command_handlers \<Rightarrow> command_manager \<Rightarrow>
   byte list \<Rightarrow> 'w \<Rightarrow> 'e + 'w" where
  "cm_process evaluate handlers cm commandString w =
     (let tk = tokens_new commandString; mark = MarkPosition tk in
      rbind (raising handlers w (GetToken evaluate False tk)) (\<lambda>(name, tk1).
      rbind (case cm_find name cm of None \<Rightarrow> Inr (tk1, w) | Some c \<Rightarrow> execute handlers c tk1 w) (\<lambda>(tk2, w2).
      rbind (raising handlers w2 (GetToken evaluate False (RestorePosition mark tk2))) (\<lambda>(name2, tk3).
      rbind (commandNotify handlers name2 tk3 w2) (\<lambda>(tk4, w3). Inr w3)))))"

section \<open>What the parser reads\<close>

subsection \<open>Strings in quotes\<close>

fun escape :: "byte list \<Rightarrow> byte list" where
  "escape [] = []"
| "escape (c # s) =
     (if c = TOKENEOL then [BACKSLASH, 110] else if c = QUOTE \<or> c = BACKSLASH then [BACKSLASH, c] else [c]) @ escape s"

lemmas char_defs = QUOTE_def BACKSLASH_def TOKENEOL_def TOKENCOMMENT_def TOKENSPACE_def TOKENSPECIAL_def TOKENCOMMA_def

lemma string_escaped_escape:
  "string_escaped multi line token (escape s @ QUOTE # rest) = Inr (token @ s, rest)"
proof (induction s arbitrary: token)
  case Nil
  then show ?case by (cases rest) simp_all
next
  case (Cons c s)
  obtain d t where "escape s @ QUOTE # rest = d # t" by (cases "escape s @ QUOTE # rest") simp_all
  with Cons [of "token @ [c]"] show ?case by (auto simp: char_defs escaped_def)
qed

subsection \<open>Positions between tokens\<close>

text \<open>The next character begins a token.\<close>

definition at_token :: "byte list \<Rightarrow> bool" where
  "at_token s \<longleftrightarrow> s \<noteq> [] \<and> \<not> blank (hd s) \<and> hd s \<noteq> TOKENCOMMA \<and> \<not> AtComment s"

lemma SkipNonToken_stays:
  assumes "at_token s"
  shows "SkipNonToken crossline line s = Inr (s, line)"
  using assms by (cases s) (simp_all add: SkipNonToken_def at_token_def skip_comments.simps)

lemma SkipWhiteSpace_at:
  "SkipWhiteSpace crossline line s = Inr (s', line') \<Longrightarrow> s' \<noteq> [] \<and> \<not> blank (hd s') \<and> hd s' \<noteq> TOKENCOMMA"
  by (induction crossline line s rule: SkipWhiteSpace.induct) (auto split: if_splits)

lemma skip_comments_at:
  "skip_comments crossline line s = Inr (s', line') \<Longrightarrow> s \<noteq> [] \<and> \<not> blank (hd s) \<and> hd s \<noteq> TOKENCOMMA \<Longrightarrow> at_token s'"
proof (induction crossline line s rule: skip_comments.induct)
  case (1 crossline line s)
  show ?case
  proof (cases "AtComment s")
    case True
    then obtain s1 line1 where w: "SkipWhiteSpace crossline line (snd (SkipToEOL s)) = Inr (s1, line1)"
      "skip_comments crossline line1 s1 = Inr (s', line')"
      using "1.prems"(1) by (subst (asm) skip_comments.simps) auto
    then show ?thesis using "1.IH" [OF True w(1) refl w(2)] SkipWhiteSpace_at [OF w(1)] by simp
  next
    case False
    then show ?thesis using "1.prems" by (subst (asm) skip_comments.simps) (simp add: at_token_def)
  qed
qed

lemma SkipNonToken_at: "SkipNonToken crossline line s = Inr (s', line') \<Longrightarrow> at_token s'"
  by (auto simp: SkipNonToken_def dest: SkipWhiteSpace_at intro: skip_comments_at)

lemma skip_blanks_end:
  "skip_blanks True line s = (b, line', s') \<Longrightarrow> (if b then s' \<noteq> [] else s' = [])"
  by (induction True line s rule: skip_blanks.induct) (auto split: if_splits)

lemma TokenAvailable_end:
  "TokenAvailable True line s = (False, line', s') \<Longrightarrow> s' = []"
proof (induction True line s rule: TokenAvailable.induct)
  case (1 line s)
  obtain b line1 s1 where b: "skip_blanks True line s = (b, line1, s1)" by (cases "skip_blanks True line s") auto
  obtain ended s2 where e: "SkipToEOL s1 = (ended, s2)" by force
  have "ended \<Longrightarrow> s2 = []" using e by (auto simp: SkipToEOL_def Let_def)
  then show ?case
    using "1.prems" "1.hyps" [of _ b _ line1 s1 _ ended s2] b e skip_blanks_end [OF b]
    by (subst (asm) TokenAvailable.simps) (auto split: if_splits)
qed

lemma isMacro_at:
  assumes "isMacro tk = Inr (b, tk1)"
  shows "tk_script tk1 = [] \<and> \<not> b \<or> at_token (tk_script tk1)"
  using assms TokenAvailable_end SkipNonToken_at
  by (auto simp: isMacro_def skip_to_token_def Let_def split: prod.splits if_splits)

lemma skip_to_token_any:
  assumes "s = [] \<or> at_token s" "tk_script tk = s"
  shows "skip_to_token False tk = skip_to_token True tk"
proof (cases "s = []")
  case True
  then show ?thesis using assms(2) by (simp add: skip_to_token_def SkipNonToken_def)
next
  case False
  then show ?thesis using assms by (simp add: skip_to_token_def SkipNonToken_stays)
qed

lemma GrabNextToken_any:
  assumes "tk_script tk = [] \<or> at_token (tk_script tk)"
  shows "GrabNextToken False tk = GrabNextToken True tk"
proof -
  have "skip_to_token c tk = Inr tk1 \<Longrightarrow> at_token (tk_script tk1)" for c tk1
    using SkipNonToken_at by (auto simp: skip_to_token_def)
  then have "GetString False True False tk1 = GetString True True False tk1" if "skip_to_token c tk = Inr tk1" for c tk1
    using that skip_to_token_any [OF _ refl, of tk1] by (simp add: GetString_def)
  then show ?thesis
    using skip_to_token_any [OF assms refl] by (cases "skip_to_token True tk") (simp_all add: GrabNextToken_def)
qed

text \<open>C38: A token that is not a macro is read across the ends of lines also where the caller forbids it: the
  look at the next character for a macro has already skipped them.\<close>

theorem crossline_ignored:
  assumes "\<forall>tk1. isMacro tk \<noteq> Inr (True, tk1)"
  shows "GetToken evaluate False tk = GetToken evaluate True tk"
proof (cases "isMacro tk")
  case (Inr r)
  then obtain tk1 where "isMacro tk = Inr (False, tk1)" using assms by (cases r) (metis (full_types))
  then show ?thesis using GrabNextToken_any [of tk1] isMacro_at [of tk False tk1] by (simp add: GetToken_def)
qed (simp add: GetToken_def)

text \<open>The next word is two lines further down.\<close>

theorem crossline_ignored_witness:
  "GetToken (\<lambda>_ _. Inl EndOfFileReached) False (tokens_new [10, 10, 97, 98]) =
   GetToken (\<lambda>_ _. Inl EndOfFileReached) True (tokens_new [10, 10, 97, 98])"
proof -
  have "isMacro (tokens_new [10, 10, 97, 98]) \<noteq> Inr (True, tk1)" for tk1
  proof -
    have "isMacro (tokens_new [10, 10, 97, 98]) = Inr (False, (tokens_new [10, 10, 97, 98])\<lparr>tk_script := [97, 98], tk_line := 3\<rparr>)"
      by code_simp
    then show ?thesis by simp
  qed
  then show ?thesis using crossline_ignored by blast
qed

subsection \<open>Arguments\<close>

datatype argument = Word "byte list" | Quoted "byte list"

fun contents :: "argument \<Rightarrow> byte list" where
  "contents (Word w) = w"
| "contents (Quoted s) = s"

fun argument_text :: "argument \<Rightarrow> byte list" where
  "argument_text (Word w) = w"
| "argument_text (Quoted s) = QUOTE # escape s @ [QUOTE]"

definition word_char :: "byte \<Rightarrow> bool" where
  "word_char c \<longleftrightarrow> \<not> blank c \<and> c \<notin> {TOKENCOMMA, TOKENCOMMENT, BACKSLASH, QUOTE, TOKENSPECIAL, 47}"

fun argument_ok :: "argument \<Rightarrow> bool" where
  "argument_ok (Word w) \<longleftrightarrow> w \<noteq> [] \<and> (\<forall>c\<in>set w. word_char c)"
| "argument_ok (Quoted s) \<longleftrightarrow> 0 \<notin> set s"

definition arguments_text :: "argument list \<Rightarrow> byte list" where
  "arguments_text args = concat (map (\<lambda>a. TOKENSPACE # argument_text a) args)"

fun read_arguments ::
  "((byte list \<times> byte list) list \<Rightarrow> byte list \<Rightarrow> token_error + byte list) \<Rightarrow> bool \<Rightarrow> nat \<Rightarrow> tokens \<Rightarrow>
   token_error + byte list list \<times> tokens" where
  "read_arguments evaluate crossline 0 tk = Inr ([], tk)"
| "read_arguments evaluate crossline (Suc n) tk =
     rbind (GetToken evaluate crossline tk) (\<lambda>(t, tk1).
     rbind (read_arguments evaluate crossline n tk1) (\<lambda>(ts, tk2). Inr (t # ts, tk2)))"

lemma word_char_simps:
  assumes "word_char c"
  shows "\<not> blank c" "c \<noteq> TOKENCOMMA" "c \<noteq> BACKSLASH" "c \<noteq> QUOTE" "c \<noteq> TOKENSPECIAL" "\<not> AtComment (c # s)"
  using assms by (auto simp: word_char_def AtComment_def split: list.splits)

lemma blank_space: "blank TOKENSPACE" "TOKENSPACE \<noteq> TOKENEOL"
  by (simp_all add: blank_def TOKENSPACE_def TOKENEOL_def)

lemma grab_word:
  assumes "\<forall>c\<in>set w. word_char c" "rest = [] \<or> hd rest = TOKENSPACE"
  shows "grab token (w @ rest) = (token @ w, rest)"
  using assms(1)
proof (induction w arbitrary: token)
  case Nil
  show ?case
  proof (cases rest)
    case (Cons c s)
    then have "c = TOKENSPACE" using assms(2) by simp
    then show ?thesis using Cons by (cases s) (simp_all add: blank_space)
  qed simp
next
  case (Cons c w)
  obtain t where t: "w @ rest = t" by simp
  show ?case
    using Cons.IH [of "token @ [c]"] Cons.prems word_char_simps [of c] unfolding append_Cons t by (cases t) simp_all
qed

lemma argument_at_token:
  assumes "argument_ok a"
  shows "at_token (argument_text a @ rest)" "at0 (argument_text a @ rest) \<noteq> TOKENSPECIAL"
proof -
  have q: "\<not> blank QUOTE" "QUOTE \<noteq> TOKENCOMMA" "QUOTE \<noteq> TOKENSPECIAL" "\<not> AtComment (QUOTE # s)" for s
    by (simp_all add: blank_def char_defs AtComment_def split: list.splits)
  show "at_token (argument_text a @ rest)" "at0 (argument_text a @ rest) \<noteq> TOKENSPECIAL"
    using assms word_char_simps q by (cases a; auto simp: at_token_def at0_def neq_Nil_conv)+
qed

lemma TokenAvailable_at:
  assumes "at_token s"
  shows "TokenAvailable True line (TOKENSPACE # s) = (True, line, s)"
  using assms by (cases s) (subst TokenAvailable.simps, simp add: at_token_def blank_space)+

lemma GetToken_argument:
  assumes "argument_ok a" "rest = [] \<or> hd rest = TOKENSPACE" "tk_script tk = TOKENSPACE # argument_text a @ rest"
    "\<not> tk_tokenready tk"
  shows "GetToken evaluate crossline tk = Inr (contents a, tk\<lparr>tk_token := contents a, tk_script := rest\<rparr>)"
proof -
  note at = argument_at_token [OF assms(1), of rest]
  let ?tk1 = "tk\<lparr>tk_script := argument_text a @ rest\<rparr>"
  have stay: "skip_to_token c ?tk1 = Inr ?tk1" for c
    by (simp add: skip_to_token_def SkipNonToken_stays [OF at(1)])
  have "isMacro tk = Inr (False, ?tk1)"
    using stay at(2) assms(3) by (simp add: isMacro_def TokenAvailable_at [OF at(1)])
  moreover have "GrabNextToken crossline ?tk1 = Inr (contents a, tk\<lparr>tk_token := contents a, tk_script := rest\<rparr>)"
  proof (cases a)
    case (Word w)
    then have "w \<noteq> []" "\<forall>c\<in>set w. word_char c" using assms(1) by simp_all
    moreover have "at0 (w @ rest) \<noteq> QUOTE"
      using calculation word_char_simps by (cases w) (auto simp: at0_def)
    ultimately show ?thesis
      using stay [of crossline] Word by (simp add: GrabNextToken_def grab_word [OF _ assms(2)])
  next
    case (Quoted s)
    then show ?thesis
      using stay [of crossline] assms(4) string_escaped_escape [of False "tk_line tk" "[]" s rest]
      by (simp add: GrabNextToken_def GetString_def at0_def)
  qed
  ultimately show ?thesis using assms(4) by (simp add: GetToken_def)
qed

lemma read_arguments_text:
  assumes "\<forall>a\<in>set args. argument_ok a" "tk_script tk = arguments_text args @ rest" "\<not> tk_tokenready tk"
    "rest = [] \<or> hd rest = TOKENSPACE"
  shows "\<exists>tk'. read_arguments evaluate crossline (length args) tk = Inr (map contents args, tk') \<and> tk_script tk' = rest \<and>
    tk_line tk' = tk_line tk"
  using assms(1-3)
proof (induction args arbitrary: tk)
  case Nil
  then show ?case by (simp add: arguments_text_def)
next
  case (Cons a args)
  let ?rest = "arguments_text args @ rest"
  have r: "?rest = [] \<or> hd ?rest = TOKENSPACE" using assms(4) by (cases args) (auto simp: arguments_text_def)
  have "GetToken evaluate crossline tk = Inr (contents a, tk\<lparr>tk_token := contents a, tk_script := ?rest\<rparr>)"
    using Cons.prems by (intro GetToken_argument [OF _ r]) (simp_all add: arguments_text_def)
  moreover obtain tk' where "read_arguments evaluate crossline (length args) (tk\<lparr>tk_token := contents a, tk_script := ?rest\<rparr>) =
      Inr (map contents args, tk')" "tk_script tk' = rest" "tk_line tk' = tk_line tk"
    using Cons.IH [of "tk\<lparr>tk_token := contents a, tk_script := ?rest\<rparr>"] Cons.prems by auto
  ultimately show ?case by simp
qed

lemma arguments_text_no_zero:
  assumes "\<forall>a\<in>set args. argument_ok a"
  shows "c_chars (arguments_text args) = arguments_text args"
proof -
  have "0 \<notin> set (escape s)" if "0 \<notin> set s" for s
    using that by (induction s) (auto simp: char_defs)
  moreover have "\<not> word_char 0" using word_char_simps(1) [of 0] by (auto simp: blank_def TOKENSPACE_def)
  ultimately have "0 \<notin> set (argument_text a)" if "argument_ok a" for a
    using that by (cases a) (auto simp: QUOTE_def)
  then have "0 \<notin> set (arguments_text args)" using assms by (auto simp: arguments_text_def TOKENSPACE_def)
  then show ?thesis by (auto simp: c_chars_def takeWhile_eq_all_conv)
qed

text \<open>C10: A text made of arguments, each after a space, is read back as these arguments: words without blanks,
  commas, quotes, backslashes, slashes, and the signs of comments and macros, or any bytes but zero in
  quotes with their escapes. (A zero would end the text.)\<close>

theorem arguments_roundtrip:
  assumes "\<forall>a\<in>set args. argument_ok a"
  shows "\<exists>tk. read_arguments evaluate crossline (length args) (tokens_new (arguments_text args)) = Inr (map contents args, tk) \<and>
    tk_script tk = []"
  using read_arguments_text [OF assms, of "tokens_new (arguments_text args)" "[]"]
  by (auto simp: tokens_new_def arguments_text_no_zero [OF assms] tk_Parse_def tk_Reset_def tk_Close_def)

theorem arguments_roundtrip_witness:
  "\<exists>tk. read_arguments (\<lambda>_ _. Inl EndOfFileReached) False 2 (tokens_new (arguments_text [Word [99, 115], Quoted [34, 10, 200]])) =
     Inr ([[99, 115], [34, 10, 200]], tk)"
proof -
  have "\<forall>a\<in>set [Word [99, 115], Quoted [34, 10, 200]]. argument_ok a" by code_simp
  from arguments_roundtrip [OF this, of "\<lambda>_ _. Inl EndOfFileReached" False] show ?thesis by (auto simp: numeral_2_eq_2)
qed

end
