(* ===== verification/Connection.thy ===== *)
theory Connection
  imports Packets Tokens
begin

text \<open>
  The client's connection (\<open>Client/ServerConnection.cpp\<close>): the channel that feeds it, the loop over
  the operations of a server message, the commands of the server, and the packets it writes.
  The commands of the server are processed by the manager of \<open>Tokens\<close>. The game state, snapshots,
  downloads, the game module and the commands that others register are reached through handlers,
  which are arguments; \<open>cn_world\<close> is their state. What the connection tells its listeners is the list
  of its events.
\<close>

section \<open>Settings\<close>

definition settings_new :: u32 where
  "settings_new = 30"

definition setMaxPackets :: "u32 \<Rightarrow> u32" where
  "setMaxPackets inMaxPackets =
     (if inMaxPackets < 1 then 1 else if inMaxPackets > 125 then 125 else inMaxPackets)"

section \<open>The channel to the server\<close>

record 'addr server_channel =
  sc_netchan :: "netchan option"
  sc_adr :: 'addr
  sc_maxPacketsAtOnce :: u32

definition ServerChannel_new :: "netchan \<Rightarrow> 'addr \<Rightarrow> 'addr server_channel" where
  "ServerChannel_new netchanPtr adrPtr =
    \<lparr>sc_netchan = Some netchanPtr, sc_adr = adrPtr, sc_maxPacketsAtOnce = 60\<rparr>"

definition channel_setMaxPackets :: "u32 \<Rightarrow> 'addr server_channel \<Rightarrow> 'addr server_channel" where
  "channel_setMaxPackets inMaxPackets sc =
     (let sc' = sc\<lparr>sc_maxPacketsAtOnce := inMaxPackets\<rparr> in
      if sc_maxPacketsAtOnce sc' < 1 then sc'\<lparr>sc_maxPacketsAtOnce := 1\<rparr> else sc')"

definition channel_getMaxPackets :: "'addr server_channel \<Rightarrow> u32" where
  "channel_getMaxPackets sc = sc_maxPacketsAtOnce sc"

definition wipeChannel :: "'addr server_channel \<Rightarrow> 'addr server_channel" where
  "wipeChannel sc = sc\<lparr>sc_netchan := None\<rparr>"

definition isChannelValid :: "'addr server_channel \<Rightarrow> bool" where
  "isChannelValid sc \<longleftrightarrow> sc_netchan sc \<noteq> None"

text \<open>
  \<open>incoming\<close> is what the socket holds. The callback gets the state \<open>w\<close>; it returns the new one and
  whether the channel is still there.
\<close>

fun process_loop ::
  "byte \<Rightarrow> (mstream \<Rightarrow> u32 \<Rightarrow> 'w \<Rightarrow> net_error + 'w \<times> bool) \<Rightarrow> nat \<Rightarrow> 'addr server_channel \<Rightarrow>
   ('addr \<times> byte list) list \<Rightarrow> 'w \<Rightarrow> net_error + 'addr server_channel \<times> ('addr \<times> byte list) list \<times> 'w" where
  "process_loop fresh callback count sc [] w = Inr (sc, [], w)"
| "process_loop fresh callback count sc (d # ds) w =
     (case sc_netchan sc of
        None \<Rightarrow> Inr (sc, d # ds, w)
      | Some c \<Rightarrow>
          if count < unat (sc_maxPacketsAtOnce sc) then
            rbind (Netchan_receive c (Some (sc_adr sc)) (Some d)
                     (st_reserve (DynS (dyn_new fresh)) MINIMUM_RECEIVE_BUFFER_SIZE) 0)
              (\<lambda>(ok, _, stream, sequenceNum, c').
                 let sc' = sc\<lparr>sc_netchan := Some c'\<rparr> in
                 if ok then
                   rbind (callback stream sequenceNum w) (\<lambda>(w', valid).
                     process_loop fresh callback (count + 1)
                       (if valid then sc' else wipeChannel sc') ds w')
                 else process_loop fresh callback (count + 1) sc' ds w)
          else Inr (sc, d # ds, w))"

definition channel_process ::
  "byte \<Rightarrow> (mstream \<Rightarrow> u32 \<Rightarrow> 'w \<Rightarrow> net_error + 'w \<times> bool) \<Rightarrow> 'addr server_channel \<Rightarrow>
   ('addr \<times> byte list) list \<Rightarrow> 'w \<Rightarrow> net_error + 'addr server_channel \<times> ('addr \<times> byte list) list \<times> 'w" where
  "channel_process fresh callback sc incoming w =
     (if \<not> isChannelValid sc then Inr (sc, incoming, w)
      else process_loop fresh callback 0 sc incoming w)"

section \<open>The connection\<close>

datatype client_error =
    MsgFailure msg_error
  | TokenFailure token_error
  | BadProtocolVersionException u32
  | IllegibleServerMessageException byte
  | BaselineOutOfRangeException u16
  | DisconnectException "byte list"
  | BadSoundNumberException
  | OtherNetworkException nat

text \<open>
  \<open>DisconnectException\<close> has the reason, which is empty by default; the last constructor stands for
  the network exceptions of the parsers. All but the exceptions of streams, messages, codecs and
  tokens are network exceptions.
\<close>

fun is_network :: "client_error \<Rightarrow> bool" where
  "is_network (MsgFailure e) = False"
| "is_network (TokenFailure e) = False"
| "is_network _ = True"

fun is_stream :: "client_error \<Rightarrow> bool" where
  "is_stream (MsgFailure (StreamError e)) = True"
| "is_stream _ = False"

datatype conn_event =
    CenterPrint StringMessage
  | LocationPrint u16 u16 StringMessage
  | ErrorEvent client_error
  | RemoteCommand "byte list" tokens
  | PreWritePacket u32
  | PostWritePacket u32
  | Disconnected "byte list option"

record 'w connection =
  cn_reliable :: "command_array reliable"
  cn_commands :: "command_array commands"
  cn_remoteCommandManager :: command_manager
  cn_serverMessageSequence :: u32
  cn_cgameModule :: bool
  cn_inputModule :: "input_module option"
  cn_mapInfo :: mapInfo
  cn_challenge :: u32
  cn_snapshotValid :: bool
  cn_currentSnapNumber :: u32
  cn_lastPacketSendTime :: int
  cn_maxPackets :: u32
  cn_events :: "conn_event list"
  cn_world :: 'w

text \<open>A handler changes the connection even when it throws.\<close>

type_synonym 'w handler = "msg \<Rightarrow> 'w connection \<Rightarrow> (client_error + msg) \<times> 'w connection"

text \<open>
  \<open>h_command\<close> is what a registered command does, by its number, but for \<open>disconnect\<close>: it gets the
  state of the game. \<open>h_evaluate\<close> computes the macros of a text.
\<close>

record 'w handlers =
  h_evaluate :: "(byte list \<times> byte list) list \<Rightarrow> byte list \<Rightarrow> token_error + byte list"
  h_command :: "nat \<Rightarrow> tokens \<Rightarrow> mapInfo \<times> 'w \<Rightarrow> (client_error + tokens) \<times> mapInfo \<times> 'w"
  h_gamestate :: "'w handler"
  h_snapshot :: "u32 \<Rightarrow> 'w handler"
  h_download :: "'w handler"
  h_cgame :: "'w handler"

definition broadcast :: "conn_event \<Rightarrow> 'w connection \<Rightarrow> 'w connection" where
  "broadcast e cn = cn\<lparr>cn_events := cn_events cn @ [e]\<rparr>"

text \<open>The commands that the constructor registers: of the state of the game, and \<open>disconnect\<close>.\<close>

definition csHandler :: nat where "csHandler = 0"

definition disconnectHandler :: nat where "disconnectHandler = 1"

definition disconnect_text :: "byte list" where
  "disconnect_text = [100, 105, 115, 99, 111, 110, 110, 101, 99, 116]"

definition registerCommands :: "command_manager \<Rightarrow> command_manager" where
  "registerCommands commandManager = cm_add [99, 115] csHandler commandManager"

definition remoteCommandManager_new :: command_manager where
  "remoteCommandManager_new = cm_add disconnect_text disconnectHandler (registerCommands cm_new)"

definition disconnectCommand :: "tokens \<Rightarrow> 'w connection \<Rightarrow> (client_error \<times> 'w connection) + tokens \<times> 'w connection" where
  "disconnectCommand tokenized cn = Inl (DisconnectException [], cn)"

definition command_execute ::
  "'w handlers \<Rightarrow> nat \<Rightarrow> tokens \<Rightarrow> 'w connection \<Rightarrow> (client_error \<times> 'w connection) + tokens \<times> 'w connection" where
  "command_execute h c tokenized cn =
     (if c = disconnectHandler then disconnectCommand tokenized cn
      else
        (case h_command h c tokenized (cn_mapInfo cn, cn_world cn) of
           (Inl e, mi, w) \<Rightarrow> Inl (e, cn\<lparr>cn_mapInfo := mi, cn_world := w\<rparr>)
         | (Inr tk, mi, w) \<Rightarrow> Inr (tk, cn\<lparr>cn_mapInfo := mi, cn_world := w\<rparr>)))"

text \<open>An exception carries the connection as it was left.\<close>

definition connection_commands :: "'w handlers \<Rightarrow> (client_error \<times> 'w connection, 'w connection) command_handlers" where
  "connection_commands h =
     \<lparr>execute = command_execute h,
      commandNotify = (\<lambda>name tk cn. Inr (tk, broadcast (RemoteCommand name tk) cn)),
      raise = (\<lambda>e cn. (TokenFailure e, cn))\<rparr>"

lemma connection_commands_sel [simp]:
  "execute (connection_commands h) = command_execute h"
  "commandNotify (connection_commands h) name tk cn = Inr (tk, broadcast (RemoteCommand name tk) cn)"
  "raise (connection_commands h) e cn = (TokenFailure e, cn)"
  by (simp_all add: connection_commands_def)

definition remote_process :: "'w handlers \<Rightarrow> byte list \<Rightarrow> 'w connection \<Rightarrow> (client_error \<times> 'w connection) + 'w connection" where
  "remote_process h commandString cn =
     cm_process (h_evaluate h) (connection_commands h) (cn_remoteCommandManager cn) commandString cn"

definition parseCommandString :: "string_parser \<Rightarrow> 'w handlers \<Rightarrow> 'w handler" where
  "parseCommandString parser h m cn =
     (case rbind (ReadUInteger m) (\<lambda>(seq, m1). rbind (readString parser m1) (\<lambda>(s, m2). Inr (seq, s, m2))) of
        Inl e \<Rightarrow> (Inl (MsgFailure e), cn)
      | Inr (seq, s, m2) \<Rightarrow>
          if getCommandSequence (cn_commands cn) \<ge> seq then (Inr m2, cn)
          else
            (let chars = (case s of None \<Rightarrow> [] | Some p \<Rightarrow> p) in
             case addRemoteCommand RemoteCommandSequenceTemplate chars seq (cn_commands cn) of
               Inl e \<Rightarrow> (Inl (MsgFailure e), cn)
             | Inr cs \<Rightarrow>
                 (case remote_process h chars (cn\<lparr>cn_commands := cs\<rparr>) of
                    Inl (e, cn') \<Rightarrow> (Inl e, cn')
                  | Inr cn' \<Rightarrow> (Inr m2, cn'))))"

definition parseCenterprint :: "string_parser \<Rightarrow> 'w handler" where
  "parseCenterprint parser m cn =
     (case readString parser m of
        Inl e \<Rightarrow> (Inl (MsgFailure e), cn)
      | Inr (s, m1) \<Rightarrow> (Inr m1, broadcast (CenterPrint s) cn))"

definition parseLocprint :: "string_parser \<Rightarrow> 'w handler" where
  "parseLocprint parser m cn =
     (case rbind (ReadUShort m) (\<lambda>(x, m1). rbind (ReadUShort m1) (\<lambda>(y, m2).
             rbind (readString parser m2) (\<lambda>(s, m3). Inr (x, y, s, m3)))) of
        Inl e \<Rightarrow> (Inl (MsgFailure e), cn)
      | Inr (x, y, s, m3) \<Rightarrow> (Inr m3, broadcast (LocationPrint x y s) cn))"

text \<open>The operations \<open>svc_ops_e\<close>, by number.\<close>

definition parse_op :: "string_parser \<Rightarrow> 'w handlers \<Rightarrow> u32 \<Rightarrow> byte \<Rightarrow> 'w handler" where
  "parse_op parser h sequenceNum cmd m cn =
     (if cmd = 1 then (Inr m, cn)
      else if cmd = 5 then parseCommandString parser h m cn
      else if cmd = 2 then h_gamestate h m cn
      else if cmd = 7 then h_snapshot h sequenceNum m cn
      else if cmd = 6 then h_download h m cn
      else if cmd = 8 then parseCenterprint parser m cn
      else if cmd = 9 then parseLocprint parser m cn
      else if cmd = 10 then h_cgame h m cn
      else (Inl (IllegibleServerMessageException cmd), cn))"

partial_function (option) parseServerMessage ::
  "string_parser \<Rightarrow> 'w handlers \<Rightarrow> u32 \<Rightarrow> msg \<Rightarrow> 'w connection \<Rightarrow>
   ((client_error + msg) \<times> 'w connection) option" where
  "parseServerMessage parser h sequenceNum m cn =
     (if \<not> cn_cgameModule cn then Some (Inr m, cn)
      else
        (case ReadByte m of
           Inl e \<Rightarrow> Some (Inl (MsgFailure e), cn)
         | Inr (cmd, m1) \<Rightarrow>
             if cmd = 11 then Some (Inr m1, cn)
             else
               (case parse_op parser h sequenceNum cmd m1 cn of
                  (Inl e, cn') \<Rightarrow> Some (Inl e, cn')
                | (Inr m2, cn') \<Rightarrow> parseServerMessage parser h sequenceNum m2 cn')))"

text \<open>
  The chain is the client encoding over the connection's own sequences. The two catch clauses
  around the parsing keep what the operations before the exception did.
\<close>

definition client_encoding_of :: "'w connection \<Rightarrow> (command_array, command_array) client_encoding" where
  "client_encoding_of cn =
    \<lparr>ce_serverId = mp_serverId (cn_mapInfo cn), ce_reliable = cn_reliable cn,
     ce_commands = cn_commands cn, ce_challenge = cn_challenge cn\<rparr>"

fun catch_errors :: "(client_error + msg) \<times> 'w connection \<Rightarrow> (client_error + unit) \<times> 'w connection" where
  "catch_errors (Inr m, cn) = (Inr (), cn)"
| "catch_errors (Inl e, cn) =
     (if is_network e then (Inr (), broadcast (ErrorEvent e) cn)
      else if is_stream e then (Inr (), cn)
      else (Inl e, cn))"

definition connection_receive ::
  "string_parser \<Rightarrow> 'w handlers \<Rightarrow> msg \<Rightarrow> u32 \<Rightarrow> 'w connection \<Rightarrow>
   ((client_error + unit) \<times> 'w connection) option" where
  "connection_receive parser h m sequenceNum cn =
     (let cn1 = cn\<lparr>cn_serverMessageSequence := sequenceNum\<rparr> in
      case ReadUInteger (msg_SetCodec BitCodec m) of
        Inl e \<Rightarrow> Some (Inl (MsgFailure e), cn1)
      | Inr (acknowledged, m1) \<Rightarrow>
          (let cn2 = cn1\<lparr>cn_reliable := updateAcknowledge SequenceTemplate acknowledged (cn_reliable cn1)\<rparr> in
           case handleReceive None SequenceTemplate (client_encoding_of cn2) (m_stream m1) of
             Inl e \<Rightarrow> Some (Inl (MsgFailure e), cn2)
           | Inr stream \<Rightarrow>
               (case rbind (msg_Reset (m1\<lparr>m_stream := stream\<rparr>)) ReadInteger of
                  Inl e \<Rightarrow> Some (Inl (MsgFailure e), cn2)
                | Inr (_, m2) \<Rightarrow> map_option catch_errors (parseServerMessage parser h sequenceNum m2 cn2))))"

section \<open>Writing packets\<close>

definition getCommandHashKey ::
  "(byte list \<Rightarrow> nat \<Rightarrow> msg_error + u32) \<Rightarrow> 'w connection \<Rightarrow> u32 \<Rightarrow> msg_error + u32" where
  "getCommandHashKey hashKey cn serverMessageSequence =
     rbind (getLastRemoteSequence RemoteCommandSequenceTemplate (cn_commands cn)) (\<lambda>command.
     rbind (hashKey command 32) (\<lambda>hash.
       Inr (mp_checksumFeed (cn_mapInfo cn) XOR serverMessageSequence XOR hash)))"

definition readyToSendPacket :: "'w connection \<Rightarrow> int \<Rightarrow> bool" where
  "readyToSendPacket cn currentTime =
     (if mp_serverId (cn_mapInfo cn) = 0 \<or> cn_inputModule cn = None then
        currentTime \<ge> cn_lastPacketSendTime cn + of_ms 1000
      else
        (let delta = currentTime - cn_lastPacketSendTime cn in
         \<not> delta < of_ms (1000 div uint (cn_maxPackets cn))))"

definition write_input ::
  "(byte list \<Rightarrow> nat \<Rightarrow> msg_error + u32) \<Rightarrow> 'w connection \<Rightarrow> u32 \<Rightarrow> msg \<Rightarrow> msg_error + 'w connection \<times> msg" where
  "write_input hashKey cn sequenceNum m =
     (case cn_inputModule cn of
        None \<Rightarrow> Inr (cn, m)
      | Some im \<Rightarrow>
          (let deltaMove = (cn_snapshotValid cn \<and> sequenceNum = cn_currentSnapNumber cn) in
           rbind (getCommandHashKey hashKey cn sequenceNum) (\<lambda>key.
           rbind (input_write key deltaMove im m) (\<lambda>(im', m').
             Inr (cn\<lparr>cn_inputModule := Some im'\<rparr>, m')))))"

text \<open>The bytes of a packet before the channel: \<open>None\<close> when the loop of the commands never ends.\<close>

definition packet_stream ::
  "byte \<Rightarrow> string_parser \<Rightarrow> (byte list \<Rightarrow> nat \<Rightarrow> msg_error + u32) \<Rightarrow> 'w connection \<Rightarrow> u32 \<Rightarrow>
   (msg_error + 'w connection \<times> mstream) option" where
  "packet_stream fresh parser hashKey cn sequenceNum =
     (case rbind (msg_new (DynS (dyn_new fresh)) msgMode_Writing) (\<lambda>m.
             writeHeader (cn_mapInfo cn) (cn_commands cn) sequenceNum (m\<lparr>m_stream := st_reserve (m_stream m) 32\<rparr>)) of
        Inl e \<Rightarrow> Some (Inl e)
      | Inr m1 \<Rightarrow>
          map_option (\<lambda>r.
            rbind r (\<lambda>m2.
            rbind (write_input hashKey cn sequenceNum m2) (\<lambda>(cn', m3).
            rbind (WriteByte clc_eof m3) (\<lambda>m4.
            rbind (msg_Flush m4) (\<lambda>m5.
            rbind (handleTransmit None RemoteCommandSequenceTemplate (client_encoding_of cn') (m_stream m5)) (\<lambda>s.
            Inr (cn', s)))))))
            (writeCommands SequenceTemplate parser (cn_reliable cn) m1))"

definition writePacket ::
  "byte \<Rightarrow> string_parser \<Rightarrow> (byte list \<Rightarrow> nat \<Rightarrow> msg_error + u32) \<Rightarrow> int \<Rightarrow> u32 \<Rightarrow> netchan \<Rightarrow> 'w connection \<Rightarrow>
   (net_error + byte list list \<times> netchan \<times> 'w connection) option" where
  "writePacket fresh parser hashKey currentTime sequenceNum c cn =
     map_option (\<lambda>r.
       rbind (lift_msg r) (\<lambda>(cn1, stream).
       rbind (Netchan_transmit fresh c stream) (\<lambda>(_, packets, _, c').
         Inr (packets, c', broadcast (PostWritePacket sequenceNum) (cn1\<lparr>cn_lastPacketSendTime := currentTime\<rparr>)))))
       (packet_stream fresh parser hashKey (broadcast (PreWritePacket sequenceNum) cn) sequenceNum)"

definition terminateConnection :: "('w \<Rightarrow> 'w) \<Rightarrow> byte list option \<Rightarrow> 'w connection \<Rightarrow> 'w connection" where
  "terminateConnection reset reason cn =
     (let cn' = cn\<lparr>cn_world := reset (cn_world cn)\<rparr> in
      if cn_cgameModule cn' then (broadcast (Disconnected reason) cn')\<lparr>cn_cgameModule := False\<rparr> else cn')"

definition serverDisconnected :: "('w \<Rightarrow> 'w) \<Rightarrow> byte list option \<Rightarrow> 'addr server_channel \<Rightarrow> 'w connection \<Rightarrow>
    'addr server_channel \<times> 'w connection" where
  "serverDisconnected reset reason sc cn = (wipeChannel sc, terminateConnection reset reason cn)"

text \<open>\<open>disconnect\<close> sends the same packet three times.\<close>

fun write_packets ::
  "nat \<Rightarrow> byte \<Rightarrow> string_parser \<Rightarrow> (byte list \<Rightarrow> nat \<Rightarrow> msg_error + u32) \<Rightarrow> netchan \<Rightarrow> 'w connection \<Rightarrow>
   (net_error + byte list list \<times> netchan \<times> 'w connection) option" where
  "write_packets 0 fresh parser hashKey c cn = Some (Inr ([], c, cn))"
| "write_packets (Suc n) fresh parser hashKey c cn =
     (case writePacket fresh parser hashKey 0 (cn_serverMessageSequence cn) c cn of
        None \<Rightarrow> None
      | Some (Inl e) \<Rightarrow> Some (Inl e)
      | Some (Inr (ps, c', cn')) \<Rightarrow>
          (case write_packets n fresh parser hashKey c' cn' of
             None \<Rightarrow> None
           | Some (Inl e) \<Rightarrow> Some (Inl e)
           | Some (Inr (qs, c'', cn'')) \<Rightarrow> Some (Inr (ps @ qs, c'', cn''))))"

definition disconnect ::
  "('w \<Rightarrow> 'w) \<Rightarrow> byte \<Rightarrow> string_parser \<Rightarrow> (byte list \<Rightarrow> nat \<Rightarrow> msg_error + u32) \<Rightarrow> 'addr server_channel \<Rightarrow>
   'w connection \<Rightarrow> (net_error + byte list list \<times> 'addr server_channel \<times> 'w connection) option" where
  "disconnect reset fresh parser hashKey sc cn =
     (case sc_netchan sc of
        None \<Rightarrow> Some (Inr ([], sc, terminateConnection reset None cn))
      | Some c \<Rightarrow>
          (case addCommand SequenceTemplate disconnect_text (cn_reliable cn) of
             Inl e \<Rightarrow> Some (Inl (MsgError e))
           | Inr r \<Rightarrow>
               (case write_packets 3 fresh parser hashKey c (cn\<lparr>cn_reliable := r\<rparr>) of
                  None \<Rightarrow> None
                | Some (Inl e) \<Rightarrow> Some (Inl e)
                | Some (Inr (ps, c', cn')) \<Rightarrow>
                    Some (Inr (ps, wipeChannel sc, terminateConnection reset None cn')))))"

section \<open>Messages of server commands\<close>

text \<open>The format of a server command and of the end of a message.\<close>

definition put_server_command :: "string_parser \<Rightarrow> byte list \<times> u32 \<Rightarrow> msg \<Rightarrow> msg_error + msg" where
  "put_server_command p c m =
     rbind (WriteByte 5 m) (\<lambda>m1.
     rbind (WriteUInteger (snd c) m1) (\<lambda>m2. writeString p (Some (fst c)) m2))"

definition put_server_message :: "string_parser \<Rightarrow> (byte list \<times> u32) list \<Rightarrow> msg \<Rightarrow> msg_error + msg" where
  "put_server_message p cs m = rbind (put_list (put_server_command p) cs m) (WriteByte 11)"

definition server_command_code :: "string_parser \<Rightarrow> byte list \<times> u32 \<Rightarrow> bool list" where
  "server_command_code p c = huff_code 5 @ code32 (snd c) @ parser_code p (Some (fst c))"

definition message_code :: "string_parser \<Rightarrow> (byte list \<times> u32) list \<Rightarrow> bool list" where
  "message_code p cs = concat (map (server_command_code p) cs) @ huff_code 11"

lemma put_server_message_puts:
  assumes "p \<in> string_parsers"
  shows "puts (put_server_message p cs) (message_code p cs)"
proof -
  have "puts (put_server_command p c) (server_command_code p c)" for c
    unfolding put_server_command_def [abs_def] server_command_code_def
    by (intro puts_bind WriteByte_puts WriteUInteger_puts parser_wire(1) [OF assms])
  then have "puts (put_list (put_server_command p) cs) (concat (map (server_command_code p) cs))"
  proof (induction cs)
    case Nil
    have "put_list (put_server_command p) [] = Inr" by (simp add: fun_eq_iff)
    then show ?case by (simp add: puts_Inr)
  next
    case (Cons c cs)
    have "put_list (put_server_command p) (c # cs) =
        (\<lambda>m. rbind (put_server_command p c m) (put_list (put_server_command p) cs))"
      by (simp add: fun_eq_iff)
    then show ?case using puts_bind [OF Cons(2) [of c] Cons(1) [OF Cons(2)]] by simp
  qed
  from puts_bind [OF this WriteByte_puts] show ?thesis
    unfolding put_server_message_def [abs_def] message_code_def .
qed

text \<open>Reading the operation and the fields of a command.\<close>

lemma read_server_command:
  assumes "p \<in> string_parsers" "mr m (server_command_code p (s, n) @ post)" "True \<in> set post"
  shows "\<exists>m1 m2 m3. ReadByte m = Inr (5, m1) \<and> ReadUInteger m1 = Inr (n, m2) \<and>
    readString p m2 = Inr (Some (c_chars s), m3) \<and> mr m3 post"
proof -
  have m: "mr m (huff_code 5 @ code32 n @ parser_code p (Some s) @ post)"
    using assms(2) by (simp add: server_command_code_def)
  obtain m1 where m1: "ReadByte m = Inr (5, m1)" "mr m1 (code32 n @ parser_code p (Some s) @ post)"
    using gets_step [OF ReadByte_gets m] assms(3) by auto
  obtain m2 where m2: "ReadUInteger m1 = Inr (n, m2)" "mr m2 (parser_code p (Some s) @ post)"
    using gets_step [OF ReadUInteger_gets m1(2)] assms(3) by auto
  obtain m3 where "readString p m2 = Inr (sent_string (Some s), m3)" "mr m3 post"
    using gets_step [OF parser_wire(2) [OF assms(1)] m2(2) assms(3)] by blast
  with m1(1) m2(1) show ?thesis by (simp add: sent_string_def)
qed

lemma parse_server_command:
  assumes "p \<in> string_parsers" "mr m (server_command_code p (s, n) @ post)" "True \<in> set post"
    and "cn_cgameModule cn" "received17.receives (cn_commands cn) acc"
  shows "\<exists>m3 cs. mr m3 post \<and>
    addRemoteCommand RemoteCommandSequenceTemplate (c_chars s) n (cn_commands cn) = Inr cs \<and>
    parseServerMessage p h q m cn =
      (if getCommandSequence (cn_commands cn) \<ge> n then parseServerMessage p h q m3 cn
       else case remote_process h (c_chars s) (cn\<lparr>cn_commands := cs\<rparr>) of
         Inl (e, cn') \<Rightarrow> Some (Inl e, cn')
       | Inr cn' \<Rightarrow> parseServerMessage p h q m3 cn')"
proof -
  obtain m1 m2 m3 where r: "ReadByte m = Inr (5, m1)" "ReadUInteger m1 = Inr (n, m2)"
      "readString p m2 = Inr (Some (c_chars s), m3)" "mr m3 post"
    using read_server_command [OF assms(1-3)] by blast
  obtain cs where cs: "addRemoteCommand RemoteCommandSequenceTemplate (c_chars s) n (cn_commands cn) = Inr cs"
    using received17.addRemoteCommand_receives [OF assms(5)] by blast
  have "parseServerMessage p h q m cn =
      (case parse_op p h q 5 m1 cn of
         (Inl e, cn') \<Rightarrow> Some (Inl e, cn')
       | (Inr m2, cn') \<Rightarrow> parseServerMessage p h q m2 cn')"
    using assms(4) r(1) by (subst parseServerMessage.simps) simp
  also have "parse_op p h q 5 m1 cn = parseCommandString p h m1 cn" by (simp add: parse_op_def)
  also have "\<dots> = (if getCommandSequence (cn_commands cn) \<ge> n then (Inr m3, cn)
      else case remote_process h (c_chars s) (cn\<lparr>cn_commands := cs\<rparr>) of
         Inl (e, cn') \<Rightarrow> (Inl e, cn') | Inr cn' \<Rightarrow> (Inr m3, cn'))"
    using r(2,3) cs by (simp add: parseCommandString_def Let_def)
  finally have "parseServerMessage p h q m cn =
      (if getCommandSequence (cn_commands cn) \<ge> n then parseServerMessage p h q m3 cn
       else case remote_process h (c_chars s) (cn\<lparr>cn_commands := cs\<rparr>) of
         Inl (e, cn') \<Rightarrow> Some (Inl e, cn')
       | Inr cn' \<Rightarrow> parseServerMessage p h q m3 cn')"
    by (simp split: prod.split sum.split)
  with r(4) cs show ?thesis by blast
qed

text \<open>What processing a command leaves alone.\<close>

lemma command_execute_keeps:
  assumes "command_execute h c tokenized cn = Inr (tk, cn')"
  shows "cn_commands cn' = cn_commands cn \<and> cn_cgameModule cn' = cn_cgameModule cn \<and>
    cn_remoteCommandManager cn' = cn_remoteCommandManager cn"
  using assms by (auto simp: command_execute_def disconnectCommand_def split: if_splits sum.splits prod.splits)

lemma remote_process_keeps:
  assumes "remote_process h s cn = Inr cn'"
  shows "cn_commands cn' = cn_commands cn \<and> cn_cgameModule cn' = cn_cgameModule cn \<and>
    cn_remoteCommandManager cn' = cn_remoteCommandManager cn"
proof -
  obtain name tk1 tk2 cn2 name2 tk3 where p:
      "(case cm_find name (cn_remoteCommandManager cn) of None \<Rightarrow> Inr (tk1, cn)
        | Some c \<Rightarrow> execute (connection_commands h) c tk1 cn) = Inr (tk2, cn2)"
      "cn' = broadcast (RemoteCommand name2 tk3) cn2"
    using assms by (auto simp: remote_process_def cm_process_def Let_def)
  from p(1) have "cn_commands cn2 = cn_commands cn \<and> cn_cgameModule cn2 = cn_cgameModule cn \<and>
    cn_remoteCommandManager cn2 = cn_remoteCommandManager cn"
    by (cases "cm_find name (cn_remoteCommandManager cn)") (auto dest: command_execute_keeps)
  then show ?thesis by (simp add: p(2) broadcast_def)
qed

text \<open>The commands that are new, stored and processed one after the other until an exception.\<close>

fun handle_commands :: "'w handlers \<Rightarrow> (byte list \<times> u32) list \<Rightarrow> 'w connection \<Rightarrow> client_error option \<times> 'w connection" where
  "handle_commands h [] cn = (None, cn)"
| "handle_commands h ((s, n) # cs) cn =
     (case addRemoteCommand RemoteCommandSequenceTemplate (c_chars s) n (cn_commands cn) of
        Inl e \<Rightarrow> (Some (MsgFailure e), cn)
      | Inr st \<Rightarrow>
          (case remote_process h (c_chars s) (cn\<lparr>cn_commands := st\<rparr>) of
             Inl (e, cn') \<Rightarrow> (Some e, cn')
           | Inr cn' \<Rightarrow> handle_commands h cs cn'))"

lemma parse_message:
  assumes "p \<in> string_parsers" "mr m (message_code p cs @ post)" "True \<in> set post"
    and "cn_cgameModule cn" "received17.receives (cn_commands cn) acc"
  shows "\<exists>m'. parseServerMessage p h q m cn =
    Some (case handle_commands h (accepted (getCommandSequence (cn_commands cn)) cs) cn of
      (None, cn') \<Rightarrow> (Inr m', cn') | (Some e, cn') \<Rightarrow> (Inl e, cn'))"
  using assms(2,4,5)
proof (induction cs arbitrary: m cn acc)
  case Nil
  have "mr m (huff_code 11 @ post)" using Nil.prems(1) by (simp add: message_code_def)
  then obtain m' where "ReadByte m = Inr (11, m')" "mr m' post"
    using gets_step [OF ReadByte_gets _ assms(3)] by blast
  then show ?case using Nil.prems(2) by (auto simp: parseServerMessage.simps [of p h q m cn])
next
  case (Cons c cs)
  obtain s n where c: "c = (s, n)" by (cases c)
  have "mr m (server_command_code p (s, n) @ (message_code p cs @ post))"
    using Cons.prems(1) by (simp add: message_code_def c)
  moreover have "True \<in> set (message_code p cs @ post)" using assms(3) by simp
  ultimately obtain m3 st where st: "mr m3 (message_code p cs @ post)"
      "addRemoteCommand RemoteCommandSequenceTemplate (c_chars s) n (cn_commands cn) = Inr st"
      "parseServerMessage p h q m cn =
      (if getCommandSequence (cn_commands cn) \<ge> n then parseServerMessage p h q m3 cn
       else case remote_process h (c_chars s) (cn\<lparr>cn_commands := st\<rparr>) of
         Inl (e, cn') \<Rightarrow> Some (Inl e, cn')
       | Inr cn' \<Rightarrow> parseServerMessage p h q m3 cn')"
    using parse_server_command [OF assms(1) _ _ Cons.prems(2,3), of m s n "message_code p cs @ post" h q]
    by blast
  show ?case
  proof (cases "getCommandSequence (cn_commands cn) \<ge> n")
    case True
    then show ?thesis using Cons.IH [OF st(1) Cons.prems(2,3)] st(3) by (simp add: c)
  next
    case False
    have k: "getCommandSequence st = n" "received17.receives st (acc @ [(c_chars s, n)])"
      using received17.addRemoteCommand_receives [OF Cons.prems(3), of "c_chars s" n] st(2) False
      by (auto simp: getCommandSequence_def)
    show ?thesis
    proof (cases "remote_process h (c_chars s) (cn\<lparr>cn_commands := st\<rparr>)")
      case (Inl r)
      then show ?thesis using False st(2,3) by (cases r) (simp add: c)
    next
      case (Inr cn1)
      have "cn_commands cn1 = st" "cn_cgameModule cn1"
        using remote_process_keeps [OF Inr] Cons.prems(2) by simp_all
      then show ?thesis using Cons.IH [OF st(1), of cn1] k False st(2,3) Inr by (simp add: c)
    qed
  qed
qed

text \<open>Without an exception, what is stored is what all the commands leave, delivered one by one.\<close>

lemma handle_commands_deliver:
  assumes "handle_commands h (accepted (getCommandSequence (cn_commands cn)) cs) cn = (None, cn')"
    and "received17.receives (cn_commands cn) acc"
  shows "deliver RemoteCommandSequenceTemplate (map (\<lambda>(s, n). (c_chars s, n)) cs) (cn_commands cn) = Inr (cn_commands cn')"
  using assms
proof (induction cs arbitrary: cn acc)
  case (Cons c cs)
  obtain s n where c: "c = (s, n)" by (cases c)
  obtain st where st: "addRemoteCommand RemoteCommandSequenceTemplate (c_chars s) n (cn_commands cn) = Inr st"
    "if remoteCommandSequence (cn_commands cn) \<ge> n then st = cn_commands cn
     else remoteCommandSequence st = n \<and> received17.receives st (acc @ [(c_chars s, n)])"
    using received17.addRemoteCommand_receives [OF Cons.prems(2), of "c_chars s" n] by blast
  show ?case
  proof (cases "getCommandSequence (cn_commands cn) \<ge> n")
    case True
    then show ?thesis using Cons.IH [OF _ Cons.prems(2)] Cons.prems(1) st by (simp add: c getCommandSequence_def)
  next
    case False
    then obtain cn1 where p: "remote_process h (c_chars s) (cn\<lparr>cn_commands := st\<rparr>) = Inr cn1"
        "handle_commands h (accepted n cs) cn1 = (None, cn')"
      using Cons.prems(1) st(1) by (auto simp: c split: sum.splits)
    have "cn_commands cn1 = st" using remote_process_keeps [OF p(1)] by simp
    then show ?thesis using Cons.IH [of cn1 "acc @ [(c_chars s, n)]"] False st p(2)
      by (simp add: c getCommandSequence_def)
  qed
qed simp

section \<open>Properties\<close>

text \<open>How the parsing of a message ends, with or without an exception.\<close>

definition parse_outcome ::
  "string_parser \<Rightarrow> 'w handlers \<Rightarrow> u32 \<Rightarrow> 'w connection \<Rightarrow> msg \<Rightarrow> msg_error + (client_error option \<times> 'w connection) \<times> msg" where
  "parse_outcome p h q cn m =
     (case parseServerMessage p h q m cn of
        Some (Inr m', cn') \<Rightarrow> Inr ((None, cn'), m')
      | Some (Inl e, cn') \<Rightarrow> Inr ((Some e, cn'), m)
      | None \<Rightarrow> Inl NonTerminating)"

lemma message_outcome:
  assumes "p \<in> string_parsers" "cn_cgameModule cn"
    and "cn_commands cn = ICommandSequence_new (RemoteCommandSequenceTemplate_ver17 f)"
  shows "transfer (put_server_message p) (parse_outcome p h q cn) cs (DynS (dyn_new b)) =
    Inr (handle_commands h (accepted 0 cs) cn)"
proof -
  have r: "received17.receives (cn_commands cn) []"
    unfolding assms(3) by (rule received17.new_receives [OF ver_arrays(4)])
  have z: "getCommandSequence (cn_commands cn) = 0"
    by (simp add: assms(3) getCommandSequence_def ICommandSequence_new_def)
  have "\<exists>x. transfer (put_server_message p) (parse_outcome p h q cn) cs (DynS (dyn_new b)) = Inr x \<and>
      x = handle_commands h (accepted 0 cs) cn"
  proof (rule transfer_any [where bs = "message_code p cs" and R = "length (message_code p cs) + 1"])
    show "\<exists>x m'. parse_outcome p h q cn m = Inr (x, m') \<and> x = handle_commands h (accepted 0 cs) cn"
      if "mr m (message_code p cs @ post)" "True \<in> set post" for m post
    proof -
      obtain e cn' where e: "handle_commands h (accepted 0 cs) cn = (e, cn')" by (cases "handle_commands h (accepted 0 cs) cn")
      then show ?thesis using parse_message [OF assms(1) that assms(2) r, of h q] z
        by (cases e) (auto simp: parse_outcome_def)
    qed
  qed (simp_all add: put_server_message_puts [OF assms(1)] dyn_ready)
  then show ?thesis by force
qed

text \<open>C1: A connection with a game and a new sequence (of version 17) parses a message with any server commands,
  in any order and with repetitions. It handles exactly the commands newer than all those before them,
  each once and in order, with its text up to the terminator: it stores the command and has the manager process it (run the registered command and tell
  the listeners). The first exception of a processing, as of \<open>disconnect\<close> or of an empty text, ends the
  parsing and leaves the connection as it is then; without one the message is parsed to its end and the
  sequence holds what all the commands leave, delivered one by one.\<close>

theorem server_commands_processed_once:
  assumes "p \<in> string_parsers" "cn_cgameModule cn"
    and "cn_commands cn = ICommandSequence_new (RemoteCommandSequenceTemplate_ver17 f)"
  shows "transfer (put_server_message p) (parse_outcome p h q cn) cs (DynS (dyn_new b)) =
      Inr (handle_commands h (accepted 0 cs) cn) \<and>
    (\<forall>cn'. handle_commands h (accepted 0 cs) cn = (None, cn') \<longrightarrow>
      deliver RemoteCommandSequenceTemplate (map (\<lambda>(s, n). (c_chars s, n)) cs) (cn_commands cn) =
        Inr (cn_commands cn'))"
proof -
  have "received17.receives (cn_commands cn) []"
    unfolding assms(3) by (rule received17.new_receives [OF ver_arrays(4)])
  moreover have "getCommandSequence (cn_commands cn) = 0"
    by (simp add: assms(3) getCommandSequence_def ICommandSequence_new_def)
  ultimately show ?thesis using message_outcome [OF assms] handle_commands_deliver [of h cn cs _ "[]"] by simp
qed

text \<open>A connection with new sequences and the commands of the constructor, and handlers that do nothing.\<close>

definition idle_connection :: "unit connection" where
  "idle_connection = \<lparr>cn_reliable = IReliableSequence_new (SequenceTemplate_ver17 0),
     cn_commands = ICommandSequence_new (RemoteCommandSequenceTemplate_ver17 0),
     cn_remoteCommandManager = remoteCommandManager_new,
     cn_serverMessageSequence = 0, cn_cgameModule = True, cn_inputModule = None,
     cn_mapInfo = \<lparr>mp_serverId = 0, mp_checksumFeed = 0\<rparr>, cn_challenge = 0, cn_snapshotValid = False,
     cn_currentSnapNumber = 0, cn_lastPacketSendTime = 0, cn_maxPackets = settings_new, cn_events = [],
     cn_world = ()\<rparr>"

definition no_handler :: "unit handler" where
  "no_handler m cn = (Inl (OtherNetworkException 0), cn)"

definition quiet_handlers :: "unit handlers" where
  "quiet_handlers = \<lparr>h_evaluate = (\<lambda>_ _. Inl EndOfFileReached), h_command = (\<lambda>c tk w. (Inr tk, w)),
     h_gamestate = no_handler, h_snapshot = (\<lambda>_. no_handler), h_download = no_handler, h_cgame = no_handler\<rparr>"

lemma idle_connection_sel:
  "cn_cgameModule idle_connection" "cn_events idle_connection = []"
  "cn_commands idle_connection = ICommandSequence_new (RemoteCommandSequenceTemplate_ver17 0)"
  "cn_remoteCommandManager idle_connection = remoteCommandManager_new"
  by (simp_all add: idle_connection_def)

text \<open>The commands \<open>disconnect\<close> and \<open>a\<close>, by the manager of the constructor.\<close>

lemma process_disconnect:
  assumes "cn_remoteCommandManager cn = remoteCommandManager_new"
  shows "remote_process h disconnect_text cn = Inl (DisconnectException [], cn)"
proof -
  have "map_sum id fst (GetToken (h_evaluate h) False (tokens_new disconnect_text)) = Inr disconnect_text" by code_simp
  then obtain tk where "GetToken (h_evaluate h) False (tokens_new disconnect_text) = Inr (disconnect_text, tk)"
    by (cases "GetToken (h_evaluate h) False (tokens_new disconnect_text)") auto
  moreover have "cm_find disconnect_text remoteCommandManager_new = Some disconnectHandler" by code_simp
  ultimately show ?thesis using assms
    by (simp add: remote_process_def cm_process_def Let_def raising_def command_execute_def disconnectCommand_def)
qed

lemma process_unknown:
  assumes "cn_remoteCommandManager cn = remoteCommandManager_new"
  shows "\<exists>tk. remote_process h [97] cn = Inr (broadcast (RemoteCommand [97] tk) cn)"
proof -
  have "map_sum id fst (GetToken (h_evaluate h) False (tokens_new [97])) = Inr [97]" by code_simp
  then obtain tk where tk: "GetToken (h_evaluate h) False (tokens_new [97]) = Inr ([97], tk)"
    by (cases "GetToken (h_evaluate h) False (tokens_new [97])") auto
  have "map_sum id fst (rbind (GetToken (h_evaluate h) False (tokens_new [97]))
      (\<lambda>(t, tk). GetToken (h_evaluate h) False (RestorePosition (MarkPosition (tokens_new [97])) tk))) = Inr [97]" by code_simp
  with tk obtain tk' where "GetToken (h_evaluate h) False (RestorePosition (MarkPosition (tokens_new [97])) tk) = Inr ([97], tk')"
    by (cases "GetToken (h_evaluate h) False (RestorePosition (MarkPosition (tokens_new [97])) tk)") auto
  moreover have "cm_find [97] remoteCommandManager_new = None" by code_simp
  ultimately show ?thesis using assms tk
    by (auto simp: remote_process_def cm_process_def Let_def raising_def)
qed

text \<open>The repeated number is dropped, and what follows \<open>disconnect\<close> is never reached.\<close>

theorem server_commands_processed_once_witness:
  "\<exists>cn' tk. transfer (put_server_message String17) (parse_outcome String17 quiet_handlers 3 idle_connection)
      [([97, 0, 5], 1), ([98], 1), (disconnect_text, 9), ([99], 10)] (DynS (dyn_new 0)) =
        Inr (Some (DisconnectException []), cn') \<and>
    cn_events cn' = [RemoteCommand [97] tk] \<and> getCommandSequence (cn_commands cn') = 9"
proof -
  let ?cs = "[([97::byte, 0, 5], 1::u32), ([98], 1), (disconnect_text, 9), ([99], 10)]"
  have a: "accepted 0 ?cs = [([97, 0, 5], 1), (disconnect_text, 9), ([99], 10)]" by code_simp
  have c: "c_chars [97, 0, 5] = [97]" "c_chars disconnect_text = disconnect_text" by code_simp+
  have r: "received17.receives (cn_commands idle_connection) []"
    using received17.new_receives [OF ver_arrays(4)] by (simp add: idle_connection_sel)
  have nine: "\<not> (9::u32) \<le> 1" by code_simp
  have z: "remoteCommandSequence (cn_commands idle_connection) = 0"
    by (simp add: idle_connection_sel ICommandSequence_new_def)
  obtain st where st: "addRemoteCommand RemoteCommandSequenceTemplate [97] 1 (cn_commands idle_connection) = Inr st"
      "remoteCommandSequence st = 1" "received17.receives st [([97], 1)]"
    using received17.addRemoteCommand_receives [OF r, of "[97]" 1] z by auto
  obtain st2 where st2: "addRemoteCommand RemoteCommandSequenceTemplate disconnect_text 9 st = Inr st2"
      "remoteCommandSequence st2 = 9"
    using received17.addRemoteCommand_receives [OF st(3), of disconnect_text 9] st(2) nine by auto
  obtain tk where tk: "remote_process quiet_handlers [97] (idle_connection\<lparr>cn_commands := st\<rparr>) =
      Inr (broadcast (RemoteCommand [97] tk) (idle_connection\<lparr>cn_commands := st\<rparr>))"
    using process_unknown [of "idle_connection\<lparr>cn_commands := st\<rparr>"] by (auto simp: idle_connection_sel)
  let ?cn = "(broadcast (RemoteCommand [97] tk) (idle_connection\<lparr>cn_commands := st\<rparr>))\<lparr>cn_commands := st2\<rparr>"
  have "remote_process quiet_handlers disconnect_text ?cn = Inl (DisconnectException [], ?cn)"
    by (rule process_disconnect) (simp add: broadcast_def idle_connection_sel)
  then have "handle_commands quiet_handlers (accepted 0 ?cs) idle_connection = (Some (DisconnectException []), ?cn)"
    unfolding a using st(1) st2(1) tk by (simp add: c broadcast_def)
  moreover have "String17 \<in> string_parsers" by (simp add: string_parsers_def)
  ultimately show ?thesis
    using server_commands_processed_once [of String17 idle_connection 0 quiet_handlers 3 ?cs 0] st2(2)
    by (simp add: idle_connection_sel broadcast_def getCommandSequence_def)
qed

text \<open>C33: When the server sends the command \<open>disconnect\<close> to a connection with a new sequence (of
  version 17) and the commands of the constructor, its handler throws
  \<open>DisconnectException\<close> and the rest of the message is not parsed; but the exception is caught as a
  network error: the listeners hear of an error, the command counts as received and the connection stays
  alive.\<close>

theorem disconnect_command_keeps_connection:
  assumes "p \<in> string_parsers" "cn_cgameModule cn" "0 < n"
    and "cn_commands cn = ICommandSequence_new (RemoteCommandSequenceTemplate_ver17 f)"
    and "cn_remoteCommandManager cn = remoteCommandManager_new"
  shows "\<exists>cn' cn''. transfer (put_server_message p) (parse_outcome p h q cn) ((disconnect_text, n) # cs) (DynS (dyn_new b)) =
      Inr (Some (DisconnectException []), cn') \<and>
    catch_errors (Inl (DisconnectException []), cn') = (Inr (), cn'') \<and>
    cn_cgameModule cn'' \<and> getCommandSequence (cn_commands cn'') = n \<and>
    cn_events cn'' = cn_events cn @ [ErrorEvent (DisconnectException [])]"
proof -
  have r: "received17.receives (cn_commands cn) []"
    unfolding assms(4) by (rule received17.new_receives [OF ver_arrays(4)])
  have "remoteCommandSequence (cn_commands cn) = 0" by (simp add: assms(4) ICommandSequence_new_def)
  then obtain st where st: "addRemoteCommand RemoteCommandSequenceTemplate disconnect_text n (cn_commands cn) = Inr st"
      "remoteCommandSequence st = n"
    using received17.addRemoteCommand_receives [OF r, of disconnect_text n] assms(3) by auto
  have "c_chars disconnect_text = disconnect_text" by code_simp
  moreover have "remote_process h disconnect_text (cn\<lparr>cn_commands := st\<rparr>) =
      Inl (DisconnectException [], cn\<lparr>cn_commands := st\<rparr>)"
    using assms(5) by (intro process_disconnect) simp
  ultimately have "handle_commands h (accepted 0 ((disconnect_text, n) # cs)) cn =
      (Some (DisconnectException []), cn\<lparr>cn_commands := st\<rparr>)"
    using st(1) assms(3) by auto
  then show ?thesis using message_outcome [OF assms(1,2,4)] assms(2) st(2)
    by (simp add: broadcast_def getCommandSequence_def)
qed

theorem disconnect_command_keeps_connection_witness:
  "\<exists>cn' cn''. transfer (put_server_message String8) (parse_outcome String8 quiet_handlers 3 idle_connection)
      [(disconnect_text, 1), ([97], 2)] (DynS (dyn_new 0)) = Inr (Some (DisconnectException []), cn') \<and>
    catch_errors (Inl (DisconnectException []), cn') = (Inr (), cn'') \<and> cn_cgameModule cn'' \<and>
    cn_events cn'' = [ErrorEvent (DisconnectException [])]"
proof -
  have "String8 \<in> string_parsers" "(0::u32) < 1" by (simp_all add: string_parsers_def)
  from disconnect_command_keeps_connection [OF this(1) idle_connection_sel(1) this(2) idle_connection_sel(3,4),
      of quiet_handlers 3 "[([97], 2)]" 0] idle_connection_sel(2)
  show ?thesis by auto
qed

text \<open>The channel after a datagram, and how many datagrams a call of \<open>process\<close> takes.\<close>

definition takes :: "'addr server_channel \<Rightarrow> nat \<Rightarrow> 'x list \<Rightarrow> 'addr server_channel \<Rightarrow> 'x list \<Rightarrow> nat \<Rightarrow> bool" where
  "takes sc count incoming sc' rest k \<longleftrightarrow>
     sc_maxPacketsAtOnce sc' = sc_maxPacketsAtOnce sc \<and> sc_adr sc' = sc_adr sc \<and>
     k \<le> length incoming \<and> rest = drop k incoming \<and>
     (k \<noteq> 0 \<longrightarrow> count + k \<le> unat (sc_maxPacketsAtOnce sc)) \<and>
     (isChannelValid sc' \<longrightarrow> k = length incoming \<or> unat (sc_maxPacketsAtOnce sc) \<le> count + k)"

lemma takes_none: "\<not> isChannelValid sc \<or> incoming = [] \<or> unat (sc_maxPacketsAtOnce sc) \<le> count \<Longrightarrow>
    takes sc count incoming sc incoming 0"
  by (auto simp: takes_def)

lemma takes_Suc:
  assumes "takes sc1 (count + 1) ds sc' rest k" "count < unat (sc_maxPacketsAtOnce sc)"
    and "sc_maxPacketsAtOnce sc1 = sc_maxPacketsAtOnce sc" "sc_adr sc1 = sc_adr sc"
  shows "takes sc count (d # ds) sc' rest (Suc k)"
  using assms by (auto simp: takes_def)

lemma process_loop_takes:
  assumes "process_loop fresh callback count sc incoming w = Inr (sc', rest, w')"
  shows "\<exists>k. takes sc count incoming sc' rest k"
  using assms
proof (induction incoming arbitrary: count sc w)
  case Nil
  then show ?case using takes_none by auto
next
  case (Cons d ds)
  show ?case
  proof (cases "\<exists>c. sc_netchan sc = Some c \<and> count < unat (sc_maxPacketsAtOnce sc)")
    case False
    with Cons.prems have "sc' = sc \<and> rest = d # ds"
      by (cases "sc_netchan sc") auto
    with False show ?thesis using takes_none [of sc "d # ds" count] by (auto simp: isChannelValid_def)
  next
    case True
    then obtain sc1 w1 where "process_loop fresh callback (count + 1) sc1 ds w1 = Inr (sc', rest, w')"
        "sc_maxPacketsAtOnce sc1 = sc_maxPacketsAtOnce sc" "sc_adr sc1 = sc_adr sc"
      using Cons.prems by (auto simp: Let_def wipeChannel_def split: prod.splits if_splits)
    with Cons.IH takes_Suc True show ?thesis by meson
  qed
qed

text \<open>C25: A call of \<open>process\<close> takes datagrams from the socket in the order of arrival, never more than
  the limit, and leaves the others for the next call; it stops before the limit only when the socket
  is empty or a callback has wiped the channel. The limit that \<open>setMaxPackets\<close> gives is never 0.\<close>

theorem channel_process_bounded:
  assumes "channel_process fresh callback (channel_setMaxPackets n sc) incoming w = Inr (sc', rest, w')"
  shows "1 \<le> channel_getMaxPackets sc' \<and>
    (\<exists>taken. incoming = taken @ rest \<and> length taken \<le> unat (channel_getMaxPackets sc') \<and>
      (isChannelValid sc' \<longrightarrow> length taken = min (length incoming) (unat (channel_getMaxPackets sc'))))"
proof -
  let ?sc = "channel_setMaxPackets n sc"
  have pos: "1 \<le> sc_maxPacketsAtOnce ?sc" 
    using inc_le [of 0 n] by (simp add: channel_setMaxPackets_def Let_def word_neq_0_conv)
  have "\<exists>k. takes ?sc 0 incoming sc' rest k"
  proof (cases "isChannelValid ?sc")
    case True
    with assms show ?thesis by (auto simp: channel_process_def intro: process_loop_takes)
  next
    case False
    with assms takes_none [of ?sc rest 0] show ?thesis by (auto simp: channel_process_def)
  qed
  then obtain k where k: "takes ?sc 0 incoming sc' rest k" by blast
  then have "incoming = take k incoming @ rest" by (simp add: takes_def)
  with k pos show ?thesis
    unfolding channel_getMaxPackets_def takes_def by (intro conjI exI [of _ "take k incoming"]) auto
qed

text \<open>A limit of 0 becomes 1: a datagram of another sender is taken and dropped, the second stays.\<close>

theorem channel_process_bounded_witness:
  "\<exists>sc' rest w'. channel_process 0 (\<lambda>s n w. Inr (w + 1, False))
      (channel_setMaxPackets 0 (ServerChannel_new (Netchan_new 0 7) True))
      [(False, [1]), (True, [9])] (0::nat) = Inr (sc', rest, w') \<and>
    1 \<le> channel_getMaxPackets sc' \<and> rest = [(True, [9])]"
proof -
  let ?sc = "channel_setMaxPackets 0 (ServerChannel_new (Netchan_new 0 7) True)"
  obtain sc' rest where p: "channel_process 0 (\<lambda>s n w. Inr (w + 1, False)) ?sc
      [(False, [1]), (True, [9])] (0::nat) = Inr (sc', rest, 0)" "rest = [(True, [9])]"
    by (simp add: channel_process_def channel_setMaxPackets_def ServerChannel_new_def isChannelValid_def
        Let_def Netchan_receive_def)
  from channel_process_bounded [OF p(1)] p show ?thesis by blast
qed

end
