(* ===== verification/Configstring.thy ===== *)
theory Configstring
  imports Packets
begin

text \<open>
  The configuration strings (\<open>Types/Configstring.cpp\<close>): a manager keeps all strings in one block of
  memory, the offsets first and the characters after them, and moves the characters when a string
  changes its length. The specification is a map from numbers to strings. The translators of
  \<open>Configstring_version8.cpp\<close> and \<open>Configstring_version17.cpp\<close> renumber the strings for the network.
\<close>

section \<open>The manager\<close>

datatype cs_error =
    MaxConfigStringException u16
  | MaxGameStateCharsException nat
  | CsBadAccess

record cs_manager =
  cs_stringOffsets :: "nat list"
  cs_stringData :: "byte list"
  cs_maxChars :: nat
  cs_maxConfigStrings :: nat
  cs_highestConfigstring :: nat
  cs_dataCount :: nat

definition cs_empty :: cs_manager where
  "cs_empty = \<lparr>cs_stringOffsets = [], cs_stringData = [], cs_maxChars = 0, cs_maxConfigStrings = 0,
     cs_highestConfigstring = 0, cs_dataCount = 0\<rparr>"

definition cs_new :: "nat \<Rightarrow> nat \<Rightarrow> cs_manager" where
  "cs_new numConfigStrings maxCharsValue =
     (if numConfigStrings \<noteq> 0 \<and> maxCharsValue \<noteq> 0 then
        \<lparr>cs_stringOffsets = replicate numConfigStrings 0, cs_stringData = replicate maxCharsValue 0,
         cs_maxChars = maxCharsValue, cs_maxConfigStrings = numConfigStrings,
         cs_highestConfigstring = 0, cs_dataCount = 1\<rparr>
      else cs_empty)"

text \<open>The move constructor: the new manager and the one left behind.\<close>

definition cs_move :: "cs_manager \<Rightarrow> cs_manager \<times> cs_manager" where
  "cs_move other =
     (\<lparr>cs_stringOffsets = cs_stringOffsets other, cs_stringData = cs_stringData other,
       cs_maxChars = cs_maxChars other, cs_maxConfigStrings = cs_maxChars other,
       cs_highestConfigstring = cs_highestConfigstring other, cs_dataCount = cs_dataCount other\<rparr>,
      other\<lparr>cs_stringOffsets := [], cs_stringData := []\<rparr>)"

definition cs_assign :: "cs_manager \<Rightarrow> cs_manager \<times> cs_manager" where
  "cs_assign other = (other, other\<lparr>cs_stringOffsets := [], cs_stringData := []\<rparr>)"

text \<open>
  The offsets, of eight bytes each, are in the same block as the characters, before them: an
  offset past the last is made of the first characters.
\<close>

definition get_offset :: "cs_manager \<Rightarrow> nat \<Rightarrow> cs_error + nat" where
  "get_offset m i =
     (let n = length (cs_stringOffsets m) in
      if i < n then Inr (cs_stringOffsets m ! i)
      else if 8 * (i - n) + 8 \<le> length (cs_stringData m)
        then Inr (le_val (take 8 (drop (8 * (i - n)) (cs_stringData m))))
      else Inl CsBadAccess)"

definition set_offset :: "cs_manager \<Rightarrow> nat \<Rightarrow> nat \<Rightarrow> cs_error + cs_manager" where
  "set_offset m i v =
     (let n = length (cs_stringOffsets m) in
      if i < n then Inr (m\<lparr>cs_stringOffsets := (cs_stringOffsets m)[i := v]\<rparr>)
      else if 8 * (i - n) + 8 \<le> length (cs_stringData m)
        then Inr (m\<lparr>cs_stringData := blit (cs_stringData m) (8 * (i - n)) (le_bytes 8 v)\<rparr>)
      else Inl CsBadAccess)"

text \<open>The C string at an offset, \<open>memmove\<close> and \<open>std::copy\<close> in the characters.\<close>

definition cs_text :: "byte list \<Rightarrow> nat \<Rightarrow> cs_error + byte list" where
  "cs_text data off =
     (if 0 \<in> set (drop off data) then Inr (c_chars (drop off data)) else Inl CsBadAccess)"

definition cs_memmove :: "byte list \<Rightarrow> nat \<Rightarrow> nat \<Rightarrow> nat \<Rightarrow> cs_error + byte list" where
  "cs_memmove data dst src n =
     (if src + n > length data \<or> dst + n > length data then Inl CsBadAccess
      else Inr (blit data dst (take n (drop src data))))"

definition cs_copy :: "byte list \<Rightarrow> nat \<Rightarrow> byte list \<Rightarrow> nat \<Rightarrow> cs_error + byte list" where
  "cs_copy data dst src n =
     (if n > length src \<or> dst + n > length data then Inl CsBadAccess
      else Inr (blit data dst (take n src)))"

definition getConfigStringChecked :: "u16 \<Rightarrow> cs_manager \<Rightarrow> cs_error + byte list" where
  "getConfigStringChecked num m =
     rbind (get_offset m (unat num)) (\<lambda>off. cs_text (cs_stringData m) off)"

definition getConfigString :: "u16 \<Rightarrow> cs_manager \<Rightarrow> cs_error + byte list" where
  "getConfigString num m =
     (if unat num > cs_maxConfigStrings m then Inl (MaxConfigStringException num)
      else rbind (get_offset m (unat num)) (\<lambda>off. cs_text (cs_stringData m) off))"

section \<open>Changing a string\<close>

fun lower_highest :: "cs_manager \<Rightarrow> nat \<Rightarrow> cs_error + nat" where
  "lower_highest m 0 = Inr 0"
| "lower_highest m (Suc h) =
     rbind (get_offset m (Suc h)) (\<lambda>off. if off \<noteq> 0 then Inr (Suc h) else lower_highest m h)"

text \<open>The offsets \<open>i\<close> to \<open>highest\<close>; \<open>left\<close> is how many there are.\<close>

fun move_offsets :: "nat \<Rightarrow> nat \<Rightarrow> nat \<Rightarrow> nat \<Rightarrow> cs_manager \<Rightarrow> cs_error + cs_manager" where
  "move_offsets targetOffset diffLen i 0 m = Inr m"
| "move_offsets targetOffset diffLen i (Suc left) m =
     rbind (get_offset m i) (\<lambda>off.
     rbind (if off \<ge> targetOffset then set_offset m i ((off + diffLen) mod 2 ^ 64) else Inr m) (\<lambda>m'.
     move_offsets targetOffset diffLen (i + 1) left m'))"

definition replace_string :: "nat \<Rightarrow> byte list \<Rightarrow> nat \<Rightarrow> nat \<Rightarrow> cs_manager \<Rightarrow> cs_error + cs_manager" where
  "replace_string num configString len stringOffset m =
     rbind (cs_text (cs_stringData m) stringOffset) (\<lambda>current.
     let currentLen = length current;
         remainingLen = sz_sub (cs_dataCount m) stringOffset;
         newCount = sz_sub (cs_dataCount m + len) currentLen
     in if newCount > cs_maxChars m then Inl (MaxGameStateCharsException len)
        else
          rbind (cs_memmove (cs_stringData m) (stringOffset + len + 1) (stringOffset + currentLen + 1)
                   remainingLen) (\<lambda>data1.
          rbind (cs_copy data1 stringOffset configString len) (\<lambda>data2.
          if stringOffset + len \<ge> length data2 then Inl CsBadAccess
          else
            let m1 = m\<lparr>cs_stringData := data2[stringOffset + len := 0],
                 cs_highestConfigstring :=
                   (if num \<ge> cs_highestConfigstring m then num else cs_highestConfigstring m),
                 cs_dataCount := newCount\<rparr>
            in move_offsets (stringOffset + currentLen + 1) (sz_sub newCount (cs_dataCount m)) 0
                 (cs_highestConfigstring m1 + 1) m1)))"

definition remove_string :: "nat \<Rightarrow> nat \<Rightarrow> cs_manager \<Rightarrow> cs_error + cs_manager" where
  "remove_string num stringOffset m =
     rbind (cs_text (cs_stringData m) stringOffset) (\<lambda>current.
     let currentLen = length current;
         remainingLen = sz_sub (cs_dataCount m) stringOffset
     in rbind (cs_memmove (cs_stringData m) stringOffset (stringOffset + currentLen + 1) remainingLen)
          (\<lambda>data1.
        rbind (set_offset (m\<lparr>cs_stringData := data1\<rparr>) num 0) (\<lambda>m1.
        rbind (lower_highest m1 (cs_highestConfigstring m1)) (\<lambda>highest.
        let newCount = sz_sub (cs_dataCount m) (currentLen + 1);
            m2 = m1\<lparr>cs_highestConfigstring := highest, cs_dataCount := newCount\<rparr>
        in move_offsets (stringOffset + currentLen + 1) (sz_sub newCount (cs_dataCount m)) 0
             (highest + 1) m2))))"

definition append_string :: "nat \<Rightarrow> byte list \<Rightarrow> nat \<Rightarrow> cs_manager \<Rightarrow> cs_error + cs_manager" where
  "append_string num configString len m =
     (if cs_dataCount m + len > cs_maxChars m then Inl (MaxGameStateCharsException len)
      else
        rbind (set_offset m num (cs_dataCount m)) (\<lambda>m1.
        rbind (cs_copy (cs_stringData m1) (cs_dataCount m) configString (len + 1)) (\<lambda>data1.
        Inr (m1\<lparr>cs_stringData := data1, cs_dataCount := cs_dataCount m + (len + 1),
               cs_highestConfigstring :=
                 (if num \<ge> cs_highestConfigstring m then num else cs_highestConfigstring m)\<rparr>))))"

definition setConfigString_len :: "u16 \<Rightarrow> byte list \<Rightarrow> nat \<Rightarrow> cs_manager \<Rightarrow> cs_error + cs_manager" where
  "setConfigString_len num configString len m =
     (if unat num > cs_maxConfigStrings m then Inl (MaxConfigStringException num)
      else
        rbind (get_offset m (unat num)) (\<lambda>stringOffset.
        if stringOffset \<noteq> 0 then
          (if len \<noteq> 0 then replace_string (unat num) configString len stringOffset m
           else remove_string (unat num) stringOffset m)
        else if len > 0 then append_string (unat num) configString len m
        else Inr m))"

definition setConfigString :: "u16 \<Rightarrow> byte list \<Rightarrow> cs_manager \<Rightarrow> cs_error + cs_manager" where
  "setConfigString num configString m =
     rbind (cs_text configString 0) (\<lambda>s. setConfigString_len num configString (length s) m)"

definition getMaxChars :: "cs_manager \<Rightarrow> nat" where "getMaxChars m = cs_maxChars m"
definition getMaxConfigStrings :: "cs_manager \<Rightarrow> nat" where "getMaxConfigStrings m = cs_maxConfigStrings m"
definition getDataCount :: "cs_manager \<Rightarrow> nat" where "getDataCount m = cs_dataCount m"

definition cs_reset :: "cs_manager \<Rightarrow> cs_error + cs_manager" where
  "cs_reset m =
     (if length (cs_stringData m) < cs_maxChars m \<or> length (cs_stringOffsets m) < cs_maxConfigStrings m
      then Inl CsBadAccess
      else Inr (m\<lparr>cs_dataCount := 1, cs_highestConfigstring := 0,
        cs_stringData := blit (cs_stringData m) 0 (replicate (cs_maxChars m) 0),
        cs_stringOffsets := blit (cs_stringOffsets m) 0 (replicate (cs_maxConfigStrings m) 0)\<rparr>))"

section \<open>The iterator\<close>

text \<open>The number has 16 bits and wraps: a manager of more strings than that is never left.\<close>

partial_function (option) cs_iter :: "cs_manager \<Rightarrow> u16 \<Rightarrow> (cs_error + u16) option" where
  "cs_iter m currentNum =
     (case get_offset m (unat currentNum) of
        Inl e \<Rightarrow> Some (Inl e)
      | Inr off \<Rightarrow>
          if off = 0 \<and> unat currentNum < cs_maxConfigStrings m then cs_iter m (currentNum + 1)
          else Some (Inr currentNum))"

definition iterator_new :: "cs_manager \<Rightarrow> (cs_error + u16) option" where
  "iterator_new m = cs_iter m 0"

definition iterator_next :: "cs_manager \<Rightarrow> u16 \<Rightarrow> (cs_error + u16) option" where
  "iterator_next m currentNum = cs_iter m (currentNum + 1)"

definition iterator_more :: "cs_manager \<Rightarrow> u16 \<Rightarrow> bool" where
  "iterator_more m currentNum \<longleftrightarrow> unat currentNum < cs_maxConfigStrings m"

definition iterator_string :: "cs_manager \<Rightarrow> u16 \<Rightarrow> cs_error + byte list" where
  "iterator_string m currentNum = getConfigStringChecked currentNum m"

section \<open>Numbers on the network\<close>

definition CS_WARMUP :: u16 where "CS_WARMUP = 5"

record cs_translator =
  translateFromNet :: "u32 \<Rightarrow> u16"
  translateToNet :: "u16 \<Rightarrow> u32"

definition translateFromNet8 :: "u32 \<Rightarrow> u16" where
  "translateFromNet8 num = (if num \<le> ucast CS_WARMUP \<or> num \<ge> 26 then ucast num else ucast (num - 2))"

definition translateToNet8 :: "u16 \<Rightarrow> u32" where
  "translateToNet8 num = (if num \<le> CS_WARMUP \<or> num \<ge> 26 then ucast num else ucast num + 2)"

definition ConfigStringTranslator_ver8 :: cs_translator where
  "ConfigStringTranslator_ver8 = \<lparr>translateFromNet = translateFromNet8, translateToNet = translateToNet8\<rparr>"

definition translateFromNet17 :: "u32 \<Rightarrow> u16" where "translateFromNet17 num = ucast num"
definition translateToNet17 :: "u16 \<Rightarrow> u32" where "translateToNet17 num = ucast num"

definition ConfigStringTranslator_ver17 :: cs_translator where
  "ConfigStringTranslator_ver17 = \<lparr>translateFromNet = translateFromNet17, translateToNet = translateToNet17\<rparr>"

definition csTranslatorVersion8 :: "cs_translator singleton" where
  "csTranslatorVersion8 = (5, 8, ConfigStringTranslator_ver8)"

definition csTranslatorVersion17 :: "cs_translator singleton" where
  "csTranslatorVersion17 = (15, 17, ConfigStringTranslator_ver17)"

section \<open>The memory of a manager\<close>

text \<open>
  The strings in the order of memory: their bytes, and the place of one of them. \<open>cs_ok\<close> says that
  a manager for \<open>N\<close> strings and \<open>C\<close> characters holds the strings \<open>L\<close>.
\<close>

definition cs_bytes :: "(nat \<times> byte list) list \<Rightarrow> byte list" where
  "cs_bytes L = concat (map (\<lambda>(n, s). s @ [0]) L)"

fun cs_pos :: "nat \<Rightarrow> (nat \<times> byte list) list \<Rightarrow> nat \<Rightarrow> nat" where
  "cs_pos p [] n = 0"
| "cs_pos p ((k, s) # L) n = (if k = n then p else cs_pos (p + length s + 1) L n)"

definition cs_strings :: "nat \<Rightarrow> nat \<Rightarrow> (nat \<times> byte list) list \<Rightarrow> bool" where
  "cs_strings N h L \<longleftrightarrow> distinct (map fst L) \<and> (\<forall>(n, s)\<in>set L. n < N \<and> n \<le> h \<and> s \<noteq> [] \<and> 0 \<notin> set s)"

definition cs_ok :: "nat \<Rightarrow> nat \<Rightarrow> cs_manager \<Rightarrow> (nat \<times> byte list) list \<Rightarrow> bool" where
  "cs_ok N C m L \<longleftrightarrow>
     cs_maxConfigStrings m = N \<and> cs_maxChars m = C \<and> length (cs_stringData m) = C \<and> C < 2 ^ 63 \<and>
     cs_highestConfigstring m < N \<and> cs_strings N (cs_highestConfigstring m) L \<and>
     cs_dataCount m = 1 + length (cs_bytes L) \<and> cs_dataCount m \<le> C \<and>
     take (cs_dataCount m) (cs_stringData m) = 0 # cs_bytes L \<and>
     cs_stringOffsets m = map (cs_pos 1 L) [0..<N]"

lemma cs_okI:
  assumes "cs_maxConfigStrings m = N" "cs_maxChars m = C" "length (cs_stringData m) = C" "C < 2 ^ 63"
    and "cs_highestConfigstring m < N" "cs_strings N (cs_highestConfigstring m) L"
    and "cs_dataCount m = 1 + length (cs_bytes L)" "cs_dataCount m \<le> C"
    and "take (cs_dataCount m) (cs_stringData m) = 0 # cs_bytes L"
    and "cs_stringOffsets m = map (cs_pos 1 L) [0..<N]"
  shows "cs_ok N C m L"
  using assms unfolding cs_ok_def by blast

lemma cs_bytes_simps [simp]:
  "cs_bytes [] = []" "cs_bytes ((n, s) # L) = s @ 0 # cs_bytes L" "cs_bytes (A @ B) = cs_bytes A @ cs_bytes B"
  by (simp_all add: cs_bytes_def)

lemma cs_pos_bounds: "k \<in> fst ` set L \<Longrightarrow> p \<le> cs_pos p L k \<and> cs_pos p L k < p + length (cs_bytes L)"
proof (induction p L k rule: cs_pos.induct)
  case (2 p k s L n)
  then show ?case by (cases "k = n") force+
qed simp

lemma cs_pos_none [simp]: "k \<notin> fst ` set L \<Longrightarrow> cs_pos p L k = 0"
  by (induction p L k rule: cs_pos.induct) auto

lemma cs_pos_0: "0 < p \<Longrightarrow> cs_pos p L k = 0 \<longleftrightarrow> k \<notin> fst ` set L"
  using cs_pos_bounds [of k L p] cs_pos_none [of k L p] by (metis leD)

lemma cs_pos_append:
  "cs_pos p (A @ B) k = (if k \<in> fst ` set A then cs_pos p A k else cs_pos (p + length (cs_bytes A)) B k)"
  by (induction p A k rule: cs_pos.induct) (auto simp: ac_simps)

lemma cs_pos_add: "k \<in> fst ` set L \<Longrightarrow> cs_pos (p + d) L k = cs_pos p L k + d"
proof (induction p L k rule: cs_pos.induct)
  case (2 p k s L n)
  then show ?case by (cases "k = n") (auto simp: ac_simps)
qed simp

lemma cs_strings_append:
  "cs_strings N h (A @ B) \<longleftrightarrow> cs_strings N h A \<and> cs_strings N h B \<and> fst ` set A \<inter> fst ` set B = {}"
  by (auto simp: cs_strings_def)

lemma cs_strings_Cons:
  "cs_strings N h ((n, s) # L) \<longleftrightarrow>
     n < N \<and> n \<le> h \<and> s \<noteq> [] \<and> 0 \<notin> set s \<and> n \<notin> fst ` set L \<and> cs_strings N h L"
  by (auto simp: cs_strings_def)

lemma cs_strings_lower: "cs_strings N h L \<Longrightarrow> (\<And>j. j \<in> fst ` set L \<Longrightarrow> j \<le> h') \<Longrightarrow> cs_strings N h' L"
  unfolding cs_strings_def by force

lemma cs_strings_mono: "cs_strings N h L \<Longrightarrow> h \<le> h' \<Longrightarrow> cs_strings N h' L"
  by (auto simp: cs_strings_def)

lemma get_offset_inside:
  "cs_ok N C m L \<Longrightarrow> k < N \<Longrightarrow> get_offset m k = Inr (cs_pos 1 L k)"
  by (simp add: cs_ok_def get_offset_def Let_def)

lemma c_chars_terminated: "0 \<notin> set s \<Longrightarrow> c_chars (s @ 0 # r) = s"
  by (induction s) (auto simp: c_chars_def)

lemma cs_ok_split:
  assumes "cs_ok N C m (A @ (n, s) # B)"
  shows "\<exists>R. cs_stringData m = (0 # cs_bytes A) @ s @ 0 # cs_bytes B @ R \<and>
    cs_dataCount m = length (cs_bytes A) + length s + length (cs_bytes B) + 2"
proof -
  have d: "cs_dataCount m = length (cs_bytes A) + length s + length (cs_bytes B) + 2"
    using assms by (simp add: cs_ok_def)
  have "cs_stringData m = take (cs_dataCount m) (cs_stringData m) @ drop (cs_dataCount m) (cs_stringData m)"
    by simp
  also have "take (cs_dataCount m) (cs_stringData m) = 0 # cs_bytes (A @ (n, s) # B)"
    using assms unfolding cs_ok_def by blast
  finally show ?thesis using d
    by (intro exI [of _ "drop (cs_dataCount m) (cs_stringData m)"]) simp
qed

lemma cs_text_of:
  assumes "cs_ok N C m (A @ (n, s) # B)" "0 \<notin> set s"
  shows "cs_text (cs_stringData m) (1 + length (cs_bytes A)) = Inr s"
proof -
  obtain R where "cs_stringData m = (0 # cs_bytes A) @ s @ 0 # cs_bytes B @ R"
    using cs_ok_split [OF assms(1)] by blast
  then have "drop (1 + length (cs_bytes A)) (cs_stringData m) = s @ 0 # cs_bytes B @ R" by simp
  then show ?thesis using assms(2) by (simp add: cs_text_def c_chars_terminated)
qed

lemma cs_text_0: "cs_ok N C m L \<Longrightarrow> cs_text (cs_stringData m) 0 = Inr []"
  by (cases "cs_stringData m") (auto simp: cs_ok_def cs_text_def c_chars_def)

text \<open>What a manager returns is what the map of its strings says.\<close>

definition cs_string :: "(nat \<Rightarrow> byte list option) \<Rightarrow> nat \<Rightarrow> byte list" where
  "cs_string f n = (case f n of None \<Rightarrow> [] | Some s \<Rightarrow> s)"

lemma split_first:
  assumes "k \<in> fst ` set L"
  obtains A s B where "L = A @ (k, s) # B" "k \<notin> fst ` set A"
proof -
  have "\<exists>x\<in>set L. fst x = k" using assms by auto
  from split_list_first_prop [OF this] that show ?thesis by (metis imageE prod.collapse)
qed

lemma getConfigStringChecked_ok:
  assumes "cs_ok N C m L" "unat num < N"
  shows "getConfigStringChecked num m = Inr (cs_string (map_of L) (unat num))"
proof (cases "unat num \<in> fst ` set L")
  case False
  then have "map_of L (unat num) = None" by (simp add: map_of_eq_None_iff)
  then show ?thesis using get_offset_inside [OF assms] cs_text_0 [OF assms(1)] False
    by (simp add: getConfigStringChecked_def cs_string_def)
next
  case True
  then obtain A s B where L: "L = A @ (unat num, s) # B" "unat num \<notin> fst ` set A" by (rule split_first)
  then have "map_of L (unat num) = Some s"
    by (simp add: map_add_Some_iff map_of_eq_None_iff)
  moreover have "0 \<notin> set s" using assms(1) L(1) by (auto simp: cs_ok_def cs_strings_def)
  then have "cs_text (cs_stringData m) (1 + length (cs_bytes A)) = Inr s"
    using cs_text_of assms(1) L(1) by blast
  moreover have "cs_pos 1 L (unat num) = 1 + length (cs_bytes A)" using L by (simp add: cs_pos_append)
  ultimately show ?thesis using get_offset_inside [OF assms]
    by (simp add: getConfigStringChecked_def cs_string_def)
qed

section \<open>Each change keeps the memory in order\<close>

lemma wrap_add:
  assumes "x < 2 ^ 63" "a < 2 ^ 63" "b \<le> x + a" "x + a - b < 2 ^ 63"
  shows "(x + sz_sub a b) mod 2 ^ 64 = x + a - b"
proof (cases "b \<le> a")
  case False
  then have "x + sz_sub a b = (x + a - b) + 2 ^ 64" using assms by (simp add: sz_sub_def)
  then show ?thesis using assms by (simp only: mod_add_self2) simp
qed (use assms in simp)

lemma move_offsets_ok:
  assumes "i + left \<le> length (cs_stringOffsets m)"
  shows "\<exists>offs. move_offsets t d i left m = Inr (m\<lparr>cs_stringOffsets := offs\<rparr>) \<and>
    length offs = length (cs_stringOffsets m) \<and>
    (\<forall>j < length offs. offs ! j =
       (if i \<le> j \<and> j < i + left \<and> cs_stringOffsets m ! j \<ge> t then (cs_stringOffsets m ! j + d) mod 2 ^ 64
        else cs_stringOffsets m ! j))"
  using assms
proof (induction left arbitrary: i m)
  case 0
  then show ?case by (intro exI [of _ "cs_stringOffsets m"]) simp
next
  case (Suc left)
  let ?o = "cs_stringOffsets m ! i"
  define m' where "m' = (if ?o \<ge> t then m\<lparr>cs_stringOffsets := (cs_stringOffsets m)[i := (?o + d) mod 2 ^ 64]\<rparr> else m)"
  have mv: "move_offsets t d i (Suc left) m = move_offsets t d (i + 1) left m'"
    using Suc.prems by (simp add: get_offset_def set_offset_def Let_def m'_def)
  have l: "length (cs_stringOffsets m') = length (cs_stringOffsets m)" by (simp add: m'_def)
  then have "i + 1 + left \<le> length (cs_stringOffsets m')" using Suc.prems by simp
  from Suc.IH [OF this] obtain offs where
    r: "move_offsets t d (i + 1) left m' = Inr (m'\<lparr>cs_stringOffsets := offs\<rparr>)" "length offs = length (cs_stringOffsets m')"
    and n: "\<forall>j < length offs. offs ! j =
       (if i + 1 \<le> j \<and> j < i + 1 + left \<and> cs_stringOffsets m' ! j \<ge> t
        then (cs_stringOffsets m' ! j + d) mod 2 ^ 64 else cs_stringOffsets m' ! j)"
    by blast
  have m: "m'\<lparr>cs_stringOffsets := offs\<rparr> = m\<lparr>cs_stringOffsets := offs\<rparr>" by (simp add: m'_def)
  have "\<forall>j < length offs. offs ! j =
       (if i \<le> j \<and> j < i + Suc left \<and> cs_stringOffsets m ! j \<ge> t
        then (cs_stringOffsets m ! j + d) mod 2 ^ 64 else cs_stringOffsets m ! j)"
  proof (intro allI impI)
    fix j assume j: "j < length offs"
    show "offs ! j = (if i \<le> j \<and> j < i + Suc left \<and> cs_stringOffsets m ! j \<ge> t
        then (cs_stringOffsets m ! j + d) mod 2 ^ 64 else cs_stringOffsets m ! j)"
    proof (cases "j = i")
      case True
      with n j Suc.prems show ?thesis by (simp add: m'_def)
    next
      case False
      then have "cs_stringOffsets m' ! j = cs_stringOffsets m ! j" by (simp add: m'_def)
      with n j False show ?thesis by simp
    qed
  qed
  with mv r l m show ?case by metis
qed

lemma lower_highest_ok:
  assumes "h < length (cs_stringOffsets m)"
  shows "\<exists>h'\<le>h. lower_highest m h = Inr h' \<and> (\<forall>j\<le>h. cs_stringOffsets m ! j \<noteq> 0 \<longrightarrow> j \<le> h')"
  using assms
proof (induction h)
  case (Suc h)
  then obtain h' where "h' \<le> h" "lower_highest m h = Inr h'"
    "\<forall>j\<le>h. cs_stringOffsets m ! j \<noteq> 0 \<longrightarrow> j \<le> h'" by auto
  then show ?case using Suc.prems
    by (auto simp: get_offset_def Let_def le_Suc_eq)
qed simp

text \<open>The characters after a string has been replaced or removed.\<close>

lemma replace_chars:
  assumes "data = P @ s @ (0::byte) # Q @ R" "off = length P" "len = length s'" "n = length s + 1 + length Q"
    and "off + length s + 1 + n \<le> length data" "off + len + 1 + n \<le> length data"
  shows "\<exists>data1 data2. cs_memmove data (off + len + 1) (off + length s + 1) n = Inr data1 \<and>
    cs_copy data1 off (s' @ z) len = Inr data2 \<and> length data2 = length data \<and>
    take (off + len + 1 + length Q) (data2[off + len := 0]) = P @ s' @ 0 # Q"
proof -
  define Y where "Y = take n (drop (off + length s + 1) data)"
  have Y: "length Y = n" "take (length Q) Y = Q"
    using assms(1,2,4,5) by (simp_all add: Y_def)
  define data1 where "data1 = blit data (off + len + 1) Y"
  define data2 where "data2 = blit data1 off s'"
  let ?k = "off + len + 1 + length Q"
  have l1: "length data1 = length data" using assms(6) Y(1) by (simp add: data1_def)
  have l2: "length data2 = length data" using assms(3,6) l1 by (simp add: data2_def)
  have "take ?k data1 = take (off + len + 1) data @ Q"
    using assms(4,6) Y by (simp add: data1_def blit_def min_absorb2)
  then have "take ?k data2 = blit (take (off + len + 1) data @ Q) off s'"
    using assms(3,4,6) l1 by (simp add: data2_def take_blit_inside)
  also have "\<dots> = P @ s' @ drop (off + len) (take (off + len + 1) data) @ Q"
    using assms(1-3,6) by (simp add: blit_def min_def)
  also have "drop (off + len) (take (off + len + 1) data) = [data ! (off + len)]"
    using assms(6) by (simp add: take_Suc_conv_app_nth)
  finally have "take ?k (data2[off + len := 0]) = P @ s' @ 0 # Q"
    using assms(2,3) by (simp add: take_update_swap list_update_append)
  moreover have "cs_memmove data (off + len + 1) (off + length s + 1) n = Inr data1"
    using assms(5,6) by (simp add: cs_memmove_def data1_def Y_def)
  moreover have "cs_copy data1 off (s' @ z) len = Inr data2"
    using assms(3,6) l1 by (simp add: cs_copy_def data2_def)
  ultimately show ?thesis using l2 by blast
qed

lemma remove_chars:
  assumes "data = P @ s @ (0::byte) # Q @ R" "off = length P" "n = length s + 1 + length Q"
    and "off + length s + 1 + n \<le> length data"
  shows "\<exists>data1. cs_memmove data off (off + length s + 1) n = Inr data1 \<and>
    length data1 = length data \<and> take (off + length Q) data1 = P @ Q"
proof -
  define Y where "Y = take n (drop (off + length s + 1) data)"
  have Y: "length Y = n" "take (length Q) Y = Q"
    using assms by (simp_all add: Y_def)
  have "take (off + length Q) (blit data off Y) = P @ Q"
    using assms Y by (simp add: blit_def)
  moreover have "length (blit data off Y) = length data" using assms(4) Y(1) by simp
  ultimately show ?thesis using assms(4) by (simp add: cs_memmove_def Y_def)
qed

text \<open>Room for the characters that \<open>memmove\<close> touches past the end of the strings.\<close>

lemma replace_ok:
  assumes ok: "cs_ok N C m (A @ (n, s) # B)" and s': "s' \<noteq> []" "0 \<notin> set s'"
    and room: "cs_dataCount m + length s + 1 \<le> C" "cs_dataCount m + length s' + 1 \<le> C"
  shows "\<exists>m'. replace_string n (s' @ z) (length s') (1 + length (cs_bytes A)) m = Inr m' \<and>
    cs_ok N C m' (A @ (n, s') # B)"
proof -
  let ?off = "1 + length (cs_bytes A)" and ?Q = "cs_bytes B"
  obtain R where R: "cs_stringData m = (0 # cs_bytes A) @ s @ 0 # ?Q @ R"
    and dc: "cs_dataCount m = length (cs_bytes A) + length s + length ?Q + 2"
    using cs_ok_split [OF ok] by blast
  have f: "length (cs_stringData m) = C" "C < 2 ^ 63" "cs_maxChars m = C" "cs_maxConfigStrings m = N"
    "cs_highestConfigstring m < N" "cs_stringOffsets m = map (cs_pos 1 (A @ (n, s) # B)) [0..<N]"
    and st: "cs_strings N (cs_highestConfigstring m) (A @ (n, s) # B)"
    using ok by (simp_all add: cs_ok_def)
  have n: "n < N" "n \<le> cs_highestConfigstring m" "0 \<notin> set s" "n \<notin> fst ` set A" "n \<notin> fst ` set B"
    "fst ` set A \<inter> fst ` set B = {}"
    using st by (auto simp: cs_strings_append cs_strings_Cons)
  let ?rem = "length s + 1 + length ?Q"
  let ?new = "cs_dataCount m + length s' - length s"
  have rem: "sz_sub (cs_dataCount m) ?off = ?rem" using dc by simp
  have new: "sz_sub (cs_dataCount m + length s') (length s) = ?new" using dc by simp
  obtain data1 data2 where d:
    "cs_memmove (cs_stringData m) (?off + length s' + 1) (?off + length s + 1) ?rem = Inr data1"
    "cs_copy data1 ?off (s' @ z) (length s') = Inr data2" "length data2 = C"
    "take (?off + length s' + 1 + length ?Q) (data2[?off + length s' := 0]) = (0 # cs_bytes A) @ s' @ 0 # ?Q"
    using replace_chars [OF R, of ?off "length s'" s' ?rem z] room dc f(1) by auto
  define m1 where "m1 = m\<lparr>cs_stringData := data2[?off + length s' := 0],
    cs_highestConfigstring := cs_highestConfigstring m, cs_dataCount := ?new\<rparr>"
  let ?d = "sz_sub ?new (cs_dataCount m)" and ?t = "?off + length s + 1"
  have hi: "(if n \<ge> cs_highestConfigstring m then n else cs_highestConfigstring m) = cs_highestConfigstring m"
    using n(2) by auto
  have "cs_text (cs_stringData m) ?off = Inr s" using cs_text_of [OF ok n(3)] .
  then have e: "replace_string n (s' @ z) (length s') ?off m =
      move_offsets ?t ?d 0 (cs_highestConfigstring m1 + 1) m1"
    using d(1,2,3) room dc f(1,3) rem new hi by (simp add: replace_string_def Let_def m1_def)
  have l1: "length (cs_stringOffsets m1) = N" "cs_highestConfigstring m1 = cs_highestConfigstring m"
    using f(6) by (simp_all add: m1_def)
  obtain offs where offs: "move_offsets ?t ?d 0 (cs_highestConfigstring m1 + 1) m1 = Inr (m1\<lparr>cs_stringOffsets := offs\<rparr>)"
    "length offs = N"
    "\<forall>j<N. offs ! j = (if j < cs_highestConfigstring m + 1 \<and> cs_stringOffsets m ! j \<ge> ?t
       then (cs_stringOffsets m ! j + ?d) mod 2 ^ 64 else cs_stringOffsets m ! j)"
    using move_offsets_ok [of 0 "cs_highestConfigstring m1 + 1" m1 ?t ?d] l1 f(5) by (auto simp: m1_def)
  have "offs = map (cs_pos 1 (A @ (n, s') # B)) [0..<N]"
  proof (rule nth_equalityI)
    fix j assume "j < length offs"
    then have j: "j < N" using offs(2) by simp
    consider "j \<in> fst ` set A" | "j = n" | "j \<in> fst ` set B" "j \<noteq> n" "j \<notin> fst ` set A"
      | "j \<notin> fst ` set (A @ (n, s) # B)" by auto
    then show "offs ! j = map (cs_pos 1 (A @ (n, s') # B)) [0..<N] ! j"
    proof cases
      case 1
      then show ?thesis using j offs(3) f(6) cs_pos_bounds [OF 1, of 1] by (auto simp: cs_pos_append)
    next
      case 2
      then show ?thesis using j offs(3) f(6) n(4) by (simp add: cs_pos_append)
    next
      case 3
      have p: "cs_pos 1 (A @ (n, s) # B) j = cs_pos 0 B j + ?t" "cs_pos 1 (A @ (n, s') # B) j = cs_pos 0 B j + (?off + length s' + 1)"
        using 3 cs_pos_add [of j B 0 ?t] cs_pos_add [of j B 0 "?off + length s' + 1"]
        by (simp_all add: cs_pos_append)
      have "j \<le> cs_highestConfigstring m" using st 3(1) by (auto simp: cs_strings_append cs_strings_Cons cs_strings_def)
      then have "offs ! j = (cs_pos 0 B j + ?t + ?d) mod 2 ^ 64"
        using j offs(3) f(6) p(1) by simp
      also have "\<dots> = cs_pos 0 B j + ?t + ?new - cs_dataCount m"
        using cs_pos_bounds [OF 3(1), of 0] dc room f(2) by (intro wrap_add) auto
      finally show ?thesis using j p(2) dc by simp
    next
      case 4
      then show ?thesis using j offs(3) f(6) by simp
    qed
  qed (use offs(2) in simp)
  moreover have "cs_strings N (cs_highestConfigstring m) (A @ (n, s') # B)"
    using st s' by (simp add: cs_strings_append cs_strings_Cons)
  moreover have k: "?new = 1 + length (cs_bytes (A @ (n, s') # B))" using dc by simp
  have "take ?new (data2[?off + length s' := 0]) = 0 # cs_bytes (A @ (n, s') # B)"
    using d(4) unfolding k by (simp add: add.assoc)
  moreover have "?new \<le> C" using room dc by simp
  moreover have "length (data2[?off + length s' := 0]) = C" using d(3) by simp
  ultimately have "cs_ok N C (m1\<lparr>cs_stringOffsets := offs\<rparr>) (A @ (n, s') # B)"
    using f(1-5) k by (intro cs_okI) (simp_all add: m1_def del: cs_bytes_simps)
  then show ?thesis unfolding e offs(1) by blast
qed

lemma remove_ok:
  assumes ok: "cs_ok N C m (A @ (n, s) # B)" and room: "cs_dataCount m + length s + 1 \<le> C"
  shows "\<exists>m'. remove_string n (1 + length (cs_bytes A)) m = Inr m' \<and> cs_ok N C m' (A @ B)"
proof -
  let ?off = "1 + length (cs_bytes A)" and ?Q = "cs_bytes B"
  obtain R where R: "cs_stringData m = (0 # cs_bytes A) @ s @ 0 # ?Q @ R"
    and dc: "cs_dataCount m = length (cs_bytes A) + length s + length ?Q + 2"
    using cs_ok_split [OF ok] by blast
  have f: "length (cs_stringData m) = C" "C < 2 ^ 63" "cs_maxChars m = C" "cs_maxConfigStrings m = N"
    "cs_highestConfigstring m < N" "cs_stringOffsets m = map (cs_pos 1 (A @ (n, s) # B)) [0..<N]"
    and st: "cs_strings N (cs_highestConfigstring m) (A @ (n, s) # B)"
    using ok by (simp_all add: cs_ok_def)
  have n: "n < N" "n \<le> cs_highestConfigstring m" "0 \<notin> set s" "n \<notin> fst ` set A" "n \<notin> fst ` set B"
    "fst ` set A \<inter> fst ` set B = {}"
    using st by (auto simp: cs_strings_append cs_strings_Cons)
  let ?rem = "length s + 1 + length ?Q"
  let ?new = "cs_dataCount m - (length s + 1)"
  have rem: "sz_sub (cs_dataCount m) ?off = ?rem" using dc by simp
  have new: "sz_sub (cs_dataCount m) (length s + 1) = ?new" using dc by simp
  obtain data1 where d: "cs_memmove (cs_stringData m) ?off (?off + length s + 1) ?rem = Inr data1"
    "length data1 = C" "take (?off + length ?Q) data1 = (0 # cs_bytes A) @ ?Q"
    using remove_chars [OF R, of ?off ?rem] room dc f(1) by auto
  define o1 where "o1 = (cs_stringOffsets m)[n := 0]"
  define m1 where "m1 = m\<lparr>cs_stringData := data1, cs_stringOffsets := o1\<rparr>"
  have o1: "length o1 = N" "\<forall>j<N. o1 ! j = (if j = n then 0 else cs_pos 1 (A @ (n, s) # B) j)"
    using f(6) by (auto simp: o1_def nth_list_update)
  obtain h where h: "h \<le> cs_highestConfigstring m" "lower_highest m1 (cs_highestConfigstring m) = Inr h"
    "\<forall>j\<le>cs_highestConfigstring m. o1 ! j \<noteq> 0 \<longrightarrow> j \<le> h"
    using lower_highest_ok [of "cs_highestConfigstring m" m1] o1(1) f(5) by (auto simp: m1_def)
  define m2 where "m2 = m1\<lparr>cs_highestConfigstring := h, cs_dataCount := ?new\<rparr>"
  let ?d = "sz_sub ?new (cs_dataCount m)" and ?t = "?off + length s + 1"
  have "cs_text (cs_stringData m) ?off = Inr s" using cs_text_of [OF ok n(3)] .
  moreover have "set_offset (m\<lparr>cs_stringData := data1\<rparr>) n 0 = Inr m1"
    using n(1) f(6) by (simp add: set_offset_def m1_def o1_def Let_def)
  ultimately have e: "remove_string n ?off m = move_offsets ?t ?d 0 (h + 1) m2"
    using d(1) rem new h(2) 
    by (simp add: remove_string_def Let_def m2_def m1_def del: move_offsets.simps)
  have l2: "cs_stringOffsets m2 = o1" by (simp add: m2_def m1_def)
  obtain offs where offs: "move_offsets ?t ?d 0 (h + 1) m2 = Inr (m2\<lparr>cs_stringOffsets := offs\<rparr>)" "length offs = N"
    "\<forall>j<N. offs ! j = (if j < h + 1 \<and> o1 ! j \<ge> ?t then (o1 ! j + ?d) mod 2 ^ 64 else o1 ! j)"
    using move_offsets_ok [of 0 "h + 1" m2 ?t ?d] l2 o1(1) f(5) h(1) by auto
  have below: "j \<le> h" if j: "j \<in> fst ` set (A @ B)" for j
  proof -
    have "j \<le> cs_highestConfigstring m" "j < N" "j \<noteq> n"
      using st n(4,5) j by (auto simp: cs_strings_def)
    moreover have "cs_pos 1 (A @ (n, s) # B) j \<noteq> 0" using j cs_pos_0 [of 1 "A @ (n, s) # B" j] by auto
    ultimately show ?thesis using h(3) o1(2) by simp
  qed
  have "offs = map (cs_pos 1 (A @ B)) [0..<N]"
  proof (rule nth_equalityI)
    fix j assume "j < length offs"
    then have j: "j < N" using offs(2) by simp
    consider "j \<in> fst ` set A" "j \<noteq> n" | "j = n" | "j \<in> fst ` set B" "j \<noteq> n" "j \<notin> fst ` set A"
      | "j \<notin> fst ` set (A @ (n, s) # B)" using n(4) by auto
    then show "offs ! j = map (cs_pos 1 (A @ B)) [0..<N] ! j"
    proof cases
      case 1
      then show ?thesis using j offs(3) o1(2) cs_pos_bounds [OF 1(1), of 1] by (auto simp: cs_pos_append)
    next
      case 2
      then show ?thesis using j offs(3) o1(2) n(4,5) by (simp add: cs_pos_append)
    next
      case 3
      have p: "o1 ! j = cs_pos 0 B j + ?t" "cs_pos 1 (A @ B) j = cs_pos 0 B j + ?off"
        using 3 j o1(2) cs_pos_add [of j B 0 ?t] cs_pos_add [of j B 0 ?off]
        by (simp_all add: cs_pos_append)
      have "offs ! j = (cs_pos 0 B j + ?t + ?d) mod 2 ^ 64"
        using j offs(3) p(1) below [of j] 3(1) by (simp add: image_Un)
      also have "\<dots> = cs_pos 0 B j + ?t + ?new - cs_dataCount m"
        using cs_pos_bounds [OF 3(1), of 0] dc room f(2) by (intro wrap_add) auto
      finally show ?thesis using j p(2) dc by simp
    next
      case 4
      then have "j \<noteq> n" "j \<notin> fst ` set (A @ B)" by auto
      then show ?thesis using j offs(3) o1(2) 4 by simp
    qed
  qed (use offs(2) in simp)
  moreover have "cs_strings N (cs_highestConfigstring m) (A @ B)"
    using st by (simp add: cs_strings_append cs_strings_Cons)
  then have "cs_strings N h (A @ B)" using below by (rule cs_strings_lower)
  moreover have k: "?new = 1 + length (cs_bytes (A @ B))" using dc by simp
  have "take ?new data1 = 0 # cs_bytes (A @ B)"
    using d(3) unfolding k by (simp add: add.assoc)
  moreover have "?new \<le> C" "h < N" using room f(5) h(1) by simp_all
  ultimately have "cs_ok N C (m2\<lparr>cs_stringOffsets := offs\<rparr>) (A @ B)"
    using d(2) f(1-4) k by (intro cs_okI) (simp_all add: m2_def m1_def del: cs_bytes_simps)
  then show ?thesis unfolding e offs(1) by blast
qed

lemma append_ok:
  assumes ok: "cs_ok N C m L" and n: "n < N" "n \<notin> fst ` set L" and s: "s \<noteq> []" "0 \<notin> set s"
    and room: "cs_dataCount m + length s + 1 \<le> C"
  shows "\<exists>m'. append_string n (s @ 0 # z) (length s) m = Inr m' \<and> cs_ok N C m' (L @ [(n, s)])"
proof -
  let ?c = "cs_dataCount m"
  have f: "length (cs_stringData m) = C" "C < 2 ^ 63" "cs_maxChars m = C" "cs_maxConfigStrings m = N"
    "cs_highestConfigstring m < N" "cs_stringOffsets m = map (cs_pos 1 L) [0..<N]"
    "?c = 1 + length (cs_bytes L)" and st: "cs_strings N (cs_highestConfigstring m) L"
    using ok by (simp_all add: cs_ok_def)
  have t: "take ?c (cs_stringData m) = 0 # cs_bytes L"
    using ok unfolding cs_ok_def by blast
  define data1 where "data1 = blit (cs_stringData m) ?c (s @ [0])"
  define h where "h = (if n \<ge> cs_highestConfigstring m then n else cs_highestConfigstring m)"
  define m' where "m' = m\<lparr>cs_stringOffsets := (cs_stringOffsets m)[n := ?c], cs_stringData := data1,
    cs_dataCount := ?c + (length s + 1), cs_highestConfigstring := h\<rparr>"
  have "append_string n (s @ 0 # z) (length s) m = Inr m'"
    using n(1) room f(1,3,6)
    by (simp add: append_string_def set_offset_def cs_copy_def m'_def data1_def h_def)
  moreover have "(cs_stringOffsets m)[n := ?c] = map (cs_pos 1 (L @ [(n, s)])) [0..<N]"
    using f(6,7) n by (intro nth_equalityI) (auto simp: nth_list_update cs_pos_append)
  moreover have "cs_strings N h (L @ [(n, s)])"
    using cs_strings_mono [OF st, of h] s n by (auto simp: cs_strings_append cs_strings_Cons h_def cs_strings_def)
  moreover have "take (?c + length (s @ [0])) data1 = take ?c (cs_stringData m) @ s @ [0]"
    unfolding data1_def using f(1) room by (intro take_blit_end) simp
  then have "take (?c + (length s + 1)) data1 = 0 # cs_bytes (L @ [(n, s)])"
    by (simp add: t)
  moreover have "length data1 = C" using room f(1) by (simp add: data1_def)
  moreover have "h < N" using n(1) f(5) by (simp add: h_def)
  moreover have "?c + (length s + 1) = 1 + length (cs_bytes (L @ [(n, s)]))" "?c + (length s + 1) \<le> C"
    using f(7) room by simp_all
  ultimately have "cs_ok N C m' (L @ [(n, s)])"
    using f(2-4) by (intro cs_okI) (simp_all add: m'_def del: cs_bytes_simps)
  with \<open>append_string n (s @ 0 # z) (length s) m = Inr m'\<close> show ?thesis by blast
qed

section \<open>A manager is a map from numbers to strings\<close>

text \<open>The specification: setting an empty string removes it.\<close>

definition map_set :: "nat \<Rightarrow> byte list \<Rightarrow> (nat \<Rightarrow> byte list option) \<Rightarrow> nat \<Rightarrow> byte list option" where
  "map_set n s f = f(n := (if s = [] then None else Some s))"

definition holds :: "nat \<Rightarrow> nat \<Rightarrow> cs_manager \<Rightarrow> (nat \<Rightarrow> byte list option) \<Rightarrow> bool" where
  "holds N C m f \<longleftrightarrow> (\<exists>L. cs_ok N C m L \<and> f = map_of L)"

lemma map_of_split:
  assumes "distinct (map fst (A @ (n, s) # B))"
  shows "map_of (A @ (n, s') # B) = (map_of (A @ (n, s) # B))(n := Some s')"
    "map_of (A @ B) = (map_of (A @ (n, s) # B))(n := None)"
    "map_of (A @ (n, s) # B) n = Some s"
proof -
  have "map_of A n = None" "map_of B n = None" using assms by (auto simp: map_of_eq_None_iff)
  then show "map_of (A @ (n, s') # B) = (map_of (A @ (n, s) # B))(n := Some s')"
    "map_of (A @ B) = (map_of (A @ (n, s) # B))(n := None)" "map_of (A @ (n, s) # B) n = Some s"
    by (auto simp: fun_eq_iff map_add_def split: option.splits)
qed

lemma terminated_text:
  assumes "0 \<in> set row"
  shows "\<exists>z. row = c_chars row @ 0 # z" "cs_text row 0 = Inr (c_chars row)"
proof -
  have "takeWhile (\<lambda>c. c \<noteq> 0) row \<noteq> row" using assms by (metis (mono_tags) set_takeWhileD)
  then have "dropWhile (\<lambda>c. c \<noteq> 0) row \<noteq> []" by (metis takeWhile_dropWhile_id append_Nil2)
  then obtain z where "dropWhile (\<lambda>c. c \<noteq> 0) row = 0 # z"
    by (cases "dropWhile (\<lambda>c. c \<noteq> 0) row") (auto simp: dropWhile_eq_Cons_conv)
  then show "\<exists>z. row = c_chars row @ 0 # z" unfolding c_chars_def by (metis takeWhile_dropWhile_id)
  show "cs_text row 0 = Inr (c_chars row)" using assms by (simp add: cs_text_def)
qed

lemma setConfigString_holds:
  assumes h: "holds N C m f" and n: "unat num < N" and row: "0 \<in> set row"
    and room: "cs_dataCount m + length (cs_string f (unat num)) + 1 \<le> C"
      "cs_dataCount m + length (c_chars row) + 1 \<le> C"
  shows "\<exists>m'. setConfigString num row m = Inr m' \<and> holds N C m' (map_set (unat num) (c_chars row) f) \<and>
    cs_dataCount m' \<le> cs_dataCount m + length (c_chars row) + 1"
proof -
  let ?n = "unat num" and ?s = "c_chars row"
  obtain L where L: "cs_ok N C m L" "f = map_of L" using h by (auto simp: holds_def)
  have dL: "distinct (map fst L)" "cs_dataCount m = 1 + length (cs_bytes L)" "\<not> ?n > cs_maxConfigStrings m"
    "\<forall>(k, s)\<in>set L. s \<noteq> [] \<and> 0 \<notin> set s"
    using L(1) n by (auto simp: cs_ok_def cs_strings_def)
  obtain z where z: "row = ?s @ 0 # z" using terminated_text(1) [OF row] by blast
  have s0: "0 \<notin> set ?s" using c_chars_nonzero [of row] by auto
  have set_eq: "setConfigString num row m = setConfigString_len num row (length ?s) m"
    using terminated_text(2) [OF row] by (simp add: setConfigString_def)
  show ?thesis
  proof (cases "?n \<in> fst ` set L")
    case False
    then have off: "get_offset m ?n = Inr 0" using get_offset_inside [OF L(1) n] by simp
    have fn: "f ?n = None" using False L(2) by (simp add: map_of_eq_None_iff)
    show ?thesis
    proof (cases "?s = []")
      case True
      then have "map_set ?n ?s f = f" using fn by (auto simp: map_set_def)
      moreover have "setConfigString num row m = Inr m"
        using set_eq off dL(3) True by (simp add: setConfigString_len_def)
      ultimately show ?thesis using h by simp
    next
      case s: False
      obtain m' where m': "append_string ?n row (length ?s) m = Inr m'" "cs_ok N C m' (L @ [(?n, ?s)])"
        using append_ok [OF L(1) n False s s0 room(2), of z]
        unfolding z [symmetric] by blast
      have "map_of (L @ [(?n, ?s)]) = map_set ?n ?s f"
        using fn L(2) s by (auto simp: map_set_def fun_eq_iff map_add_def split: option.splits)
      moreover have "setConfigString num row m = Inr m'"
        using set_eq off dL(3) s m'(1) by (simp add: setConfigString_len_def)
      moreover have "cs_dataCount m' = cs_dataCount m + length ?s + 1"
        using m'(2) dL(2) by (simp add: cs_ok_def)
      ultimately show ?thesis using m'(2) unfolding holds_def by auto
    qed
  next
    case True
    then obtain A s B where AB: "L = A @ (?n, s) # B" "?n \<notin> fst ` set A" by (rule split_first)
    have off: "get_offset m ?n = Inr (1 + length (cs_bytes A))"
      using get_offset_inside [OF L(1) n] AB by (simp add: cs_pos_append)
    note mp = map_of_split [OF dL(1) [unfolded AB(1)]]
    have "cs_string f ?n = s" using mp(3) L(2) AB(1) by (simp add: cs_string_def)
    with room(1) have rs: "cs_dataCount m + length s + 1 \<le> C" by simp
    show ?thesis
    proof (cases "?s = []")
      case True
      obtain m' where m': "remove_string ?n (1 + length (cs_bytes A)) m = Inr m'" "cs_ok N C m' (A @ B)"
        using remove_ok [OF L(1) [unfolded AB(1)] rs] by blast
      have "map_set ?n ?s f = map_of (A @ B)" using True mp(2) L(2) AB(1) by (simp add: map_set_def)
      moreover have "setConfigString num row m = Inr m'"
        using set_eq off dL(3) True m'(1) by (simp add: setConfigString_len_def)
      moreover have "cs_dataCount m' \<le> cs_dataCount m" using m'(2) dL(2) AB(1) by (simp add: cs_ok_def)
      ultimately show ?thesis using m'(2) unfolding holds_def by force
    next
      case s: False
      obtain m' where m': "replace_string ?n row (length ?s) (1 + length (cs_bytes A)) m = Inr m'"
        "cs_ok N C m' (A @ (?n, ?s) # B)"
        using replace_ok [OF L(1) [unfolded AB(1)] s s0 rs room(2), of "0 # z"]
        unfolding z [symmetric] by blast
      have "map_set ?n ?s f = map_of (A @ (?n, ?s) # B)" using s mp(1) [of ?s] L(2) AB(1) by (simp add: map_set_def)
      moreover have "setConfigString num row m = Inr m'"
        using set_eq off dL(3) s m'(1) by (simp add: setConfigString_len_def)
      moreover have "cs_dataCount m' \<le> cs_dataCount m + length ?s" using m'(2) dL(2) AB(1) by (simp add: cs_ok_def)
      ultimately show ?thesis using m'(2) unfolding holds_def by force
    qed
  qed
qed

text \<open>A new manager, and a manager that has been reset, hold nothing.\<close>

lemma new_holds: "0 < N \<Longrightarrow> 0 < C \<Longrightarrow> C < 2 ^ 63 \<Longrightarrow> holds N C (cs_new N C) Map.empty"
proof -
  assume a: "0 < N" "0 < C" "C < 2 ^ 63"
  have "take 1 (replicate C (0::byte)) = [0]" using a(2) by (cases C) simp_all
  then have "cs_ok N C (cs_new N C) []"
    using a by (intro cs_okI) (auto simp: cs_new_def cs_strings_def intro: nth_equalityI)
  then show ?thesis unfolding holds_def by (intro exI [of _ "[]"]) simp
qed

lemma reset_holds:
  assumes "holds N C m f"
  shows "\<exists>m'. cs_reset m = Inr m' \<and> holds N C m' Map.empty"
proof -
  obtain L where ok: "cs_ok N C m L" using assms by (auto simp: holds_def)
  let ?m = "m\<lparr>cs_dataCount := 1, cs_highestConfigstring := 0,
    cs_stringData := replicate C 0, cs_stringOffsets := replicate N 0\<rparr>"
  have f: "cs_maxConfigStrings m = N" "cs_maxChars m = C" "length (cs_stringData m) = C" "C < 2 ^ 63"
    "0 < N" "0 < C" "length (cs_stringOffsets m) = N"
    using ok by (auto simp: cs_ok_def)
  have "take 1 (replicate C (0::byte)) = [0]" using f(6) by (cases C) simp_all
  then have "cs_ok N C ?m []"
    using f by (intro cs_okI) (auto simp: cs_strings_def intro: nth_equalityI)
  moreover have "cs_reset m = Inr ?m" using f by (simp add: cs_reset_def blit_def)
  ultimately show ?thesis by (auto simp: holds_def intro!: exI [of _ "[]"])
qed

lemma holds_string_length: "holds N C m f \<Longrightarrow> length (cs_string f n) + 1 \<le> cs_dataCount m"
proof -
  assume "holds N C m f"
  then obtain L where L: "cs_ok N C m L" "f = map_of L" by (auto simp: holds_def)
  have dc: "cs_dataCount m = 1 + length (cs_bytes L)" using L(1) by (simp add: cs_ok_def)
  show ?thesis
  proof (cases "n \<in> fst ` set L")
    case True
    then obtain A s B where AB: "L = A @ (n, s) # B" "n \<notin> fst ` set A" by (rule split_first)
    then have "f n = Some s" using L(2) by (simp add: map_add_Some_iff map_of_eq_None_iff)
    then show ?thesis using dc AB(1) by (simp add: cs_string_def)
  next
    case False
    then have "f n = None" using L(2) by (simp add: map_of_eq_None_iff)
    then show ?thesis using dc by (simp add: cs_string_def)
  qed
qed

lemma getConfigString_holds:
  assumes "holds N C m f" "unat num < N"
  shows "getConfigString num m = Inr (cs_string f (unat num))"
  using assms getConfigStringChecked_ok [of N C m _ num]
  by (auto simp: holds_def cs_ok_def getConfigString_def getConfigStringChecked_def)

fun set_all :: "(u16 \<times> byte list) list \<Rightarrow> cs_manager \<Rightarrow> cs_error + cs_manager" where
  "set_all [] m = Inr m"
| "set_all ((num, row) # ops) m = rbind (setConfigString num row m) (set_all ops)"

fun map_all :: "(u16 \<times> byte list) list \<Rightarrow> (nat \<Rightarrow> byte list option) \<Rightarrow> nat \<Rightarrow> byte list option" where
  "map_all [] f = f"
| "map_all ((num, row) # ops) f = map_all ops (map_set (unat num) (c_chars row) f)"

definition chars_of :: "(u16 \<times> byte list) list \<Rightarrow> nat" where
  "chars_of ops = sum_list (map (\<lambda>(num, row). length (c_chars row) + 1) ops)"

definition in_range :: "nat \<Rightarrow> (u16 \<times> byte list) list \<Rightarrow> bool" where
  "in_range N ops \<longleftrightarrow> list_all (\<lambda>(num, row). unat num < N \<and> 0 \<in> set row) ops"

lemma set_all_holds:
  assumes "holds N C m f" "in_range N ops" "2 * (cs_dataCount m + chars_of ops) \<le> C + 1"
  shows "\<exists>m'. set_all ops m = Inr m' \<and> holds N C m' (map_all ops f)"
  using assms
proof (induction ops arbitrary: m f)
  case (Cons op ops)
  obtain num row where op: "op = (num, row)" by (cases op)
  let ?s = "c_chars row"
  have r: "unat num < N" "0 \<in> set row" "in_range N ops"
    and c: "2 * (cs_dataCount m + length ?s + 1 + chars_of ops) \<le> C + 1"
    using Cons.prems(2,3) op by (simp_all add: in_range_def chars_of_def)
  have c1: "cs_dataCount m + length (cs_string f (unat num)) + 1 \<le> C"
    using holds_string_length [OF Cons.prems(1), of "unat num"] c by arith
  have c2: "cs_dataCount m + length ?s + 1 \<le> C" using c by arith
  from setConfigString_holds [OF Cons.prems(1) r(1,2) c1 c2] obtain m' where m':
    "setConfigString num row m = Inr m'" "holds N C m' (map_set (unat num) ?s f)"
    "cs_dataCount m' \<le> cs_dataCount m + length ?s + 1" by blast
  have "2 * (cs_dataCount m' + chars_of ops) \<le> C + 1" using m'(3) c by simp
  from Cons.IH [OF m'(2) r(3) this] m'(1) op show ?case by simp
qed simp

text \<open>C13: Whatever strings are set, replaced by longer or shorter ones and removed, in any order, each
  string that the manager returns is the last one set for its number: the moves of the characters
  and the corrections of the offsets keep every other string. Room for twice the characters is
  enough, since a change moves as many bytes past the strings as the old string has.\<close>

theorem configstrings_refine_map:
  assumes "0 < N" "C < 2 ^ 63" "in_range N ops" "1 + 2 * chars_of ops \<le> C"
  shows "\<exists>m. set_all ops (cs_new N C) = Inr m \<and>
    (\<forall>num. unat num < N \<longrightarrow> getConfigString num m = Inr (cs_string (map_all ops Map.empty) (unat num)))"
proof -
  have "holds N C (cs_new N C) Map.empty" using assms by (intro new_holds) auto
  moreover have "cs_dataCount (cs_new N C) = 1" using assms(1,4) by (simp add: cs_new_def)
  ultimately show ?thesis
    using set_all_holds [of N C "cs_new N C" Map.empty ops] assms(3,4) getConfigString_holds by fastforce
qed

theorem configstrings_refine_map_witness:
  "\<exists>m. set_all [(2, [97, 98, 0]), (5, [99, 0]), (2, [100, 101, 102, 0]), (5, [0]), (0, [103, 0])] (cs_new 8 40) = Inr m \<and>
    getConfigString 2 m = Inr [100, 101, 102] \<and> getConfigString 5 m = Inr [] \<and> getConfigString 0 m = Inr [103]"
proof -
  let ?ops = "[(2, [97, 98, 0]), (5, [99, 0]), (2, [100, 101, 102, 0]), (5, [0]), (0, [103::byte, 0])] :: (u16 \<times> byte list) list"
  have "in_range 8 ?ops" "1 + 2 * chars_of ?ops \<le> 40" by code_simp+
  from configstrings_refine_map [OF _ _ this] obtain m where m: "set_all ?ops (cs_new 8 40) = Inr m"
    "\<forall>num. unat num < 8 \<longrightarrow> getConfigString num m = Inr (cs_string (map_all ?ops Map.empty) (unat num))" by auto
  have "getConfigString 2 m = Inr [100, 101, 102]" "getConfigString 5 m = Inr []" "getConfigString 0 m = Inr [103]"
    using m(2) [rule_format, of 2] m(2) [rule_format, of 5] m(2) [rule_format, of 0]
    by (simp_all add: cs_string_def map_set_def c_chars_def)
  with m(1) show ?thesis by blast
qed

section \<open>Iteration\<close>

text \<open>The loop of \<open>saveGameState\<close> over an iterator, with what it reads from it.\<close>

partial_function (option) iterate :: "cs_manager \<Rightarrow> u16 \<Rightarrow> (cs_error + (u16 \<times> byte list) list) option" where
  "iterate m it =
     (if iterator_more m it then
        (case iterator_string m it of
           Inl e \<Rightarrow> Some (Inl e)
         | Inr s \<Rightarrow>
             (case iterator_next m it of
                None \<Rightarrow> None
              | Some (Inl e) \<Rightarrow> Some (Inl e)
              | Some (Inr it') \<Rightarrow>
                  Option.bind (iterate m it') (\<lambda>r. Some (rbind r (\<lambda>xs. Inr ((it, s) # xs))))))
      else Some (Inr []))"

definition iterate_all :: "cs_manager \<Rightarrow> (cs_error + (u16 \<times> byte list) list) option" where
  "iterate_all m =
     (case iterator_new m of
        None \<Rightarrow> None
      | Some (Inl e) \<Rightarrow> Some (Inl e)
      | Some (Inr it) \<Rightarrow> iterate m it)"

definition entries_from :: "nat \<Rightarrow> nat \<Rightarrow> (nat \<Rightarrow> byte list option) \<Rightarrow> (u16 \<times> byte list) list" where
  "entries_from k N f = map (\<lambda>n. (of_nat n, the (f n))) (filter (\<lambda>n. f n \<noteq> None) [k..<N])"

lemma entries_from_skip: "f k = None \<Longrightarrow> entries_from k N f = entries_from (Suc k) N f"
  by (cases "k < N") (simp_all add: entries_from_def upt_rec [of k])

lemma entries_from_take:
  "k < N \<Longrightarrow> f k = Some s \<Longrightarrow> entries_from k N f = (of_nat k, s) # entries_from (Suc k) N f"
  by (simp add: entries_from_def upt_rec [of k])

lemma unat_num: "k < 2 ^ 16 \<Longrightarrow> unat (of_nat k :: u16) = k"
  by (simp add: unat_of_nat)

lemma cs_iter_finds:
  assumes "holds N C m f" "N < 2 ^ 16" "8 \<le> C" "k \<le> N"
  shows "\<exists>k'. cs_iter m (of_nat k) = Some (Inr (of_nat k')) \<and> k \<le> k' \<and> k' \<le> N \<and>
    entries_from k' N f = entries_from k N f \<and> (k' < N \<longrightarrow> f k' \<noteq> None)"
  using assms(4)
proof (induction "N - k" arbitrary: k)
  case 0
  then have k: "k = N" by simp
  obtain L where L: "cs_ok N C m L" using assms(1) by (auto simp: holds_def)
  have "get_offset m N = Inr (le_val (take 8 (cs_stringData m)))"
    using L assms(3) by (simp add: get_offset_def cs_ok_def)
  moreover have "cs_maxConfigStrings m = N" using L by (simp add: cs_ok_def)
  ultimately show ?case using k assms(2) unat_num [of N]
    by (intro exI [of _ N]) (simp add: cs_iter.simps [of m "of_nat N"])
next
  case (Suc d)
  then have k: "k < N" by simp
  obtain L where L: "cs_ok N C m L" "f = map_of L" using assms(1) by (auto simp: holds_def)
  have off: "get_offset m k = Inr (cs_pos 1 L k)" "cs_maxConfigStrings m = N"
    using L(1) k get_offset_inside [OF L(1) k] by (simp_all add: cs_ok_def)
  have u: "unat (of_nat k :: u16) = k" using k assms(2) unat_num [of k] by simp
  show ?case
  proof (cases "f k")
    case (Some s)
    then have "k \<in> fst ` set L" using L(2) by (metis map_of_eq_None_iff option.distinct(1))
    then have "cs_pos 1 L k \<noteq> 0" using cs_pos_0 [of 1 L k] by simp
    then show ?thesis using Some k off u
      by (intro exI [of _ k]) (simp add: cs_iter.simps [of m "of_nat k"])
  next
    case None
    then have "cs_pos 1 L k = 0" using L(2) by (simp add: map_of_eq_None_iff)
    then have "cs_iter m (of_nat k) = cs_iter m (of_nat (Suc k))"
      using off u k by (subst cs_iter.simps) (simp add: add.commute)
    moreover have "d = N - Suc k" "Suc k \<le> N" using Suc(2) k by simp_all
    from Suc(1) [OF this] obtain k' where "cs_iter m (of_nat (Suc k)) = Some (Inr (of_nat k'))" "Suc k \<le> k'" "k' \<le> N"
      "entries_from k' N f = entries_from (Suc k) N f" "k' < N \<longrightarrow> f k' \<noteq> None" by blast
    ultimately show ?thesis using entries_from_skip [of f k N, OF None] by (intro exI [of _ k']) simp
  qed
qed

lemma iterate_ok:
  assumes "holds N C m f" "N < 2 ^ 16" "8 \<le> C" "k \<le> N" "k < N \<longrightarrow> f k \<noteq> None"
  shows "iterate m (of_nat k) = Some (Inr (entries_from k N f))"
  using assms(4,5)
proof (induction "N - k" arbitrary: k rule: less_induct)
  case less
  have "cs_maxConfigStrings m = N" using assms(1) by (auto simp: holds_def cs_ok_def)
  then have more: "iterator_more m (of_nat k) \<longleftrightarrow> k < N"
    using less.prems(1) assms(2) unat_num [of k] by (simp add: iterator_more_def)
  show ?case
  proof (cases "k < N")
    case False
    then show ?thesis using more by (simp add: iterate.simps [of m "of_nat k"] entries_from_def)
  next
    case True
    then obtain s where s: "f k = Some s" using less.prems(2) by blast
    have u: "unat (of_nat k :: u16) = k" using True assms(2) unat_num [of k] by simp
    obtain L where L: "cs_ok N C m L" "f = map_of L" using assms(1) by (auto simp: holds_def)
    have str: "iterator_string m (of_nat k) = Inr s"
      using getConfigStringChecked_ok [OF L(1), of "of_nat k"] True u s L(2)
      by (simp add: iterator_string_def cs_string_def)
    obtain k' where k': "cs_iter m (of_nat (Suc k)) = Some (Inr (of_nat k'))" "Suc k \<le> k'" "k' \<le> N"
      "entries_from k' N f = entries_from (Suc k) N f" "k' < N \<longrightarrow> f k' \<noteq> None"
      using cs_iter_finds [OF assms(1-3), of "Suc k"] True by auto
    have "iterator_next m (of_nat k) = Some (Inr (of_nat k'))"
      using k'(1) by (simp add: iterator_next_def add.commute)
    moreover have "N - k' < N - k" using k'(2) True by simp
    from less.hyps [OF this k'(3,5)] have "iterate m (of_nat k') = Some (Inr (entries_from k' N f))" .
    ultimately show ?thesis
      using more True str k'(4) entries_from_take [of k N f s, OF True s]
      by (simp add: iterate.simps [of m "of_nat k"])
  qed
qed

text \<open>C30: An iterator over a manager visits exactly the numbers whose string is not empty, in
  increasing order, and gives the last string set for each; it ends, whatever was set before.\<close>

theorem configstrings_iterate:
  assumes "0 < N" "N < 2 ^ 16" "8 \<le> C" "C < 2 ^ 63" "in_range N ops" "1 + 2 * chars_of ops \<le> C"
  shows "\<exists>m. set_all ops (cs_new N C) = Inr m \<and>
    iterate_all m = Some (Inr (entries_from 0 N (map_all ops Map.empty)))"
proof -
  have "holds N C (cs_new N C) Map.empty" using assms by (intro new_holds) auto
  moreover have "cs_dataCount (cs_new N C) = 1" using assms(1,3) by (simp add: cs_new_def)
  ultimately obtain m where m: "set_all ops (cs_new N C) = Inr m" "holds N C m (map_all ops Map.empty)"
    using set_all_holds [of N C "cs_new N C" Map.empty ops] assms(5,6) by auto
  obtain k where k: "cs_iter m (of_nat 0) = Some (Inr (of_nat k))" "k \<le> N"
    "entries_from k N (map_all ops Map.empty) = entries_from 0 N (map_all ops Map.empty)"
    "k < N \<longrightarrow> map_all ops Map.empty k \<noteq> None"
    using cs_iter_finds [OF m(2) assms(2,3), of 0] by auto
  then have "iterate_all m = iterate m (of_nat k)" by (simp add: iterate_all_def iterator_new_def)
  also have "\<dots> = Some (Inr (entries_from k N (map_all ops Map.empty)))"
    by (rule iterate_ok [OF m(2) assms(2,3) k(2,4)])
  finally show ?thesis using m(1) k(3) by simp
qed

theorem configstrings_iterate_witness:
  "\<exists>m. set_all [(2, [97, 0]), (5, [99, 0]), (0, [103, 0]), (2, [0])] (cs_new 8 40) = Inr m \<and>
    iterate_all m = Some (Inr [(0, [103]), (5, [99])])"
proof -
  let ?ops = "[(2, [97, 0]), (5, [99, 0]), (0, [103, 0]), (2, [0::byte])] :: (u16 \<times> byte list) list"
  have "in_range 8 ?ops" "1 + 2 * chars_of ?ops \<le> 40" by code_simp+
  moreover have "entries_from 0 8 (map_all ?ops Map.empty) = [(0, [103]), (5, [99])]"
    by (simp add: entries_from_def map_set_def c_chars_def upt_rec)
  ultimately show ?thesis using configstrings_iterate [of 8 40 ?ops] by simp
qed

section \<open>The checks of the numbers and of the room\<close>

text \<open>C35: The number one past the last is not rejected: its offset is made of the first characters, so
  that setting it in a new manager puts a byte 1 in front of the empty string, and each string that
  was never set reads as that byte and the new string.\<close>

theorem config_string_max_corrupts:
  assumes "0 < N" "N < 2 ^ 16" "8 \<le> C" "0 \<in> set row" "c_chars row \<noteq> []" "length (c_chars row) + 2 \<le> C"
  shows "\<exists>m. setConfigString (of_nat N) row (cs_new N C) = Inr m \<and>
    (\<forall>num. unat num < N \<longrightarrow> getConfigString num m = Inr (1 # c_chars row))"
proof -
  let ?s = "c_chars row"
  obtain z where z: "row = ?s @ 0 # z" using terminated_text(1) [OF assms(4)] by blast
  have u: "unat (of_nat N :: u16) = N" by (rule unat_num [OF assms(2)])
  have C: "replicate C (0::byte) = replicate 8 0 @ replicate (C - 8) 0"
    using assms(3) by (simp add: replicate_add [symmetric])
  have le: "le_val (replicate 8 0) = 0" "le_bytes 8 (Suc 0) = 1 # replicate 7 0" by code_simp+
  have r: "replicate 7 (0::byte) @ replicate (C - 8) 0 = replicate (C - 1) 0"
    using assms(3) by (simp add: replicate_add [symmetric])
  let ?d1 = "blit (replicate C 0) 0 (le_bytes 8 1)"
  have d1: "?d1 = 1 # replicate (C - 1) 0"
    using r by (simp add: blit_def le)
  let ?d2 = "blit ?d1 1 (?s @ [0])"
  have t: "take (length ?s + 1) row = ?s @ [0]" by (subst z) simp
  have l: "length ?s + 1 \<le> length row" by (subst (2) z) simp
  let ?m = "\<lparr>cs_stringOffsets = replicate N 0, cs_stringData = ?d2, cs_maxChars = C, cs_maxConfigStrings = N,
    cs_highestConfigstring = N, cs_dataCount = 1 + (length ?s + 1)\<rparr>"
  have "setConfigString (of_nat N) row (cs_new N C) = Inr ?m"
    using assms(1,3,5,6) terminated_text(2) [OF assms(4)] u t l le(1)
    by (simp add: setConfigString_def setConfigString_len_def cs_new_def get_offset_def append_string_def
        set_offset_def cs_copy_def d1 min_def)
  moreover have "?d2 = 1 # ?s @ 0 # replicate (C - 2 - length ?s) 0"
    unfolding d1 using assms(6) by (simp add: blit_def)
  then have "cs_text ?d2 0 = Inr (1 # ?s)"
    using c_chars_nonzero [of row] c_chars_terminated [of "1 # ?s"] by (auto simp: cs_text_def)
  then have "\<forall>num. unat num < N \<longrightarrow> getConfigString num ?m = Inr (1 # ?s)"
    by (simp add: getConfigString_def get_offset_def)
  ultimately show ?thesis by blast
qed

theorem config_string_max_corrupts_witness:
  "\<exists>m. setConfigString 2736 [120, 0] (cs_new 2736 40000) = Inr m \<and> getConfigString 0 m = Inr [1, 120]"
  using config_string_max_corrupts [of 2736 40000 "[120, 0]"] by (auto simp: c_chars_def)

text \<open>The check of the room forgets the terminator: a string that fits in the characters left
  without it passes the check and is written past the end of the block.\<close>

theorem append_fills_buffer_overflows:
  assumes "holds N C m f" "unat num < N" "f (unat num) = None" "0 \<in> set row" "c_chars row \<noteq> []"
    and "cs_dataCount m + length (c_chars row) = C"
  shows "setConfigString num row m = Inl CsBadAccess"
proof -
  obtain L where L: "cs_ok N C m L" "f = map_of L" using assms(1) by (auto simp: holds_def)
  have "get_offset m (unat num) = Inr 0"
    using get_offset_inside [OF L(1) assms(2)] assms(3) L(2) by (simp add: map_of_eq_None_iff)
  moreover have "length (cs_stringData m) = C" "cs_maxChars m = C" "cs_maxConfigStrings m = N"
    "length (cs_stringOffsets m) = N"
    using L(1) by (simp_all add: cs_ok_def)
  ultimately show ?thesis using assms(2,5,6) terminated_text(2) [OF assms(4)]
    by (simp add: setConfigString_def setConfigString_len_def append_string_def set_offset_def cs_copy_def)
qed

theorem append_fills_buffer_overflows_witness:
  "setConfigString 3 [97, 98, 99, 0] (cs_new 8 4) = Inl CsBadAccess"
  using append_fills_buffer_overflows [of 8 4 "cs_new 8 4" Map.empty 3 "[97, 98, 99, 0]"] new_holds [of 8 4]
  by (simp add: c_chars_def cs_new_def)

text \<open>A moved manager takes its number of characters for its number of strings.\<close>

lemma moved_manager_strings: "cs_maxConfigStrings (fst (cs_move m)) = cs_maxChars m"
  by (simp add: cs_move_def)

text \<open>Version 8 gives the numbers 24 and 25 the numbers of two other strings on the network.\<close>

lemma translate8_inverse:
  "num \<noteq> 24 \<Longrightarrow> num \<noteq> 25 \<Longrightarrow> translateFromNet8 (translateToNet8 num) = num"
  "translateToNet8 24 = translateToNet8 26" "translateToNet8 25 = translateToNet8 27"
proof -
  show "translateToNet8 24 = translateToNet8 26" "translateToNet8 25 = translateToNet8 27"
    by (code_simp+)
  assume n: "num \<noteq> 24" "num \<noteq> 25"
  have u: "unat num < 65536" using unsigned_less [of num] by simp
  show "translateFromNet8 (translateToNet8 num) = num"
    using n u unfolding translateFromNet8_def translateToNet8_def CS_WARMUP_def
    by (auto simp: word_le_nat_alt word_unat_eq_iff unat_word_ariths unsigned_ucast_eq take_bit_eq_mod)
qed

end
