(* ===== verification/Float32.thy ===== *)
theory Float32
  imports Moh_Prelude
begin

text \<open>
  The language's \<open>float\<close>: IEEE 754 binary32, as words. A finite value is an exact fraction of two
  integers; each operation computes the exact result and rounds it to the nearest float, ties to
  even. The payload of a NaN is not kept. A conversion to an integer of a value that is out of its
  range is undefined in C++; it is here what the instruction of x86-64 gives.
\<close>

section \<open>Representation\<close>

definition f32_sign :: "u32 \<Rightarrow> bool" where "f32_sign w \<longleftrightarrow> 2 ^ 31 \<le> uint w"
definition f32_exp :: "u32 \<Rightarrow> int" where "f32_exp w = uint w div 2 ^ 23 mod 256"
definition f32_frac :: "u32 \<Rightarrow> int" where "f32_frac w = uint w mod 2 ^ 23"

definition f32_is_nan :: "u32 \<Rightarrow> bool" where "f32_is_nan w \<longleftrightarrow> f32_exp w = 255 \<and> f32_frac w \<noteq> 0"
definition f32_is_inf :: "u32 \<Rightarrow> bool" where "f32_is_inf w \<longleftrightarrow> f32_exp w = 255 \<and> f32_frac w = 0"

definition f32_nan :: u32 where "f32_nan = 0x7FC00000"
definition f32_inf :: "bool \<Rightarrow> u32" where "f32_inf s = (if s then 0xFF800000 else 0x7F800000)"

text \<open>Fractions: a numerator and a denominator that is not negative.\<close>

type_synonym fraction = "int \<times> int"

definition scale2 :: "int \<Rightarrow> fraction \<Rightarrow> fraction" where
  "scale2 e q = (if 0 \<le> e then (fst q * 2 ^ nat e, snd q) else (fst q, snd q * 2 ^ nat (- e)))"

definition f32_mant :: "u32 \<Rightarrow> int" where
  "f32_mant w = (if f32_exp w = 0 then f32_frac w else 2 ^ 23 + f32_frac w)"

text \<open>The value of a finite float; an infinite one has a value greater than that of all others.\<close>

definition f32_val :: "u32 \<Rightarrow> fraction" where
  "f32_val w = scale2 (max 1 (f32_exp w) - 150) (if f32_sign w then - f32_mant w else f32_mant w, 1)"

section \<open>Rounding\<close>

function bit_length :: "int \<Rightarrow> int" where
  "bit_length n = (if n \<le> 0 then 0 else 1 + bit_length (n div 2))"
  by auto
termination by (relation "measure nat") auto

declare bit_length.simps [simp del]

definition ilog2 :: "fraction \<Rightarrow> int" where
  "ilog2 q =
     (let l = bit_length (fst q) - bit_length (snd q); p = scale2 (- l) q
      in if fst p < snd p then l - 1 else l)"

definition half_even :: "fraction \<Rightarrow> int" where
  "half_even q =
     (let n = fst q div snd q; r = 2 * (fst q mod snd q)
      in if r < snd q then n else if r > snd q then n + 1 else if even n then n else n + 1)"

text \<open>The float nearest to a fraction; \<open>s\<close> is the sign of a zero.\<close>

definition f32_round :: "bool \<Rightarrow> fraction \<Rightarrow> u32" where
  "f32_round s q =
     (let s' = (if fst q = 0 then s else fst q < 0);
          a = (\<bar>fst q\<bar>, snd q);
          e = (if fst q = 0 then - 149 else max (- 149) (ilog2 a - 23));
          m = half_even (scale2 (- e) a);
          k = (if m < 2 ^ 23 then m else (e + 149) * 2 ^ 23 + m);
          k' = (if k \<ge> 255 * 2 ^ 23 then 255 * 2 ^ 23 else k)
      in word_of_int (if s' then k' + 2 ^ 31 else k'))"

section \<open>Arithmetic\<close>

definition f32_of_int :: "int \<Rightarrow> u32" where
  "f32_of_int i = f32_round False (i, 1)"

definition f32_neg :: "u32 \<Rightarrow> u32" where
  "f32_neg a = a XOR 0x80000000"

definition f32_abs :: "u32 \<Rightarrow> u32" where
  "f32_abs a = a AND 0x7FFFFFFF"

definition f32_is_zero :: "u32 \<Rightarrow> bool" where
  "f32_is_zero a \<longleftrightarrow> fst (f32_val a) = 0"

definition f32_mul :: "u32 \<Rightarrow> u32 \<Rightarrow> u32" where
  "f32_mul a b =
     (let s = (f32_sign a \<noteq> f32_sign b); (n, d) = f32_val a; (n', d') = f32_val b
      in if f32_is_nan a \<or> f32_is_nan b then f32_nan
         else if f32_is_inf a \<or> f32_is_inf b then
           (if f32_is_zero a \<or> f32_is_zero b then f32_nan else f32_inf s)
         else f32_round s (n * n', d * d'))"

definition f32_div :: "u32 \<Rightarrow> u32 \<Rightarrow> u32" where
  "f32_div a b =
     (let s = (f32_sign a \<noteq> f32_sign b); (n, d) = f32_val a; (n', d') = f32_val b
      in if f32_is_nan a \<or> f32_is_nan b then f32_nan
         else if f32_is_inf a then (if f32_is_inf b then f32_nan else f32_inf s)
         else if f32_is_inf b then f32_round s (0, 1)
         else if n' = 0 then (if n = 0 then f32_nan else f32_inf s)
         else f32_round s (n * d' * sgn n', d * \<bar>n'\<bar>))"

definition f32_add :: "u32 \<Rightarrow> u32 \<Rightarrow> u32" where
  "f32_add a b =
     (let (n, d) = f32_val a; (n', d') = f32_val b
      in if f32_is_nan a \<or> f32_is_nan b then f32_nan
         else if f32_is_inf a then (if f32_is_inf b \<and> f32_sign a \<noteq> f32_sign b then f32_nan else a)
         else if f32_is_inf b then b
         else f32_round (f32_sign a \<and> f32_sign b) (n * d' + n' * d, d * d'))"

definition f32_sub :: "u32 \<Rightarrow> u32 \<Rightarrow> u32" where
  "f32_sub a b = f32_add a (f32_neg b)"

definition f32_eq :: "u32 \<Rightarrow> u32 \<Rightarrow> bool" where
  "f32_eq a b \<longleftrightarrow> \<not> f32_is_nan a \<and> \<not> f32_is_nan b \<and>
     fst (f32_val a) * snd (f32_val b) = fst (f32_val b) * snd (f32_val a)"

definition f32_less :: "u32 \<Rightarrow> u32 \<Rightarrow> bool" where
  "f32_less a b \<longleftrightarrow> \<not> f32_is_nan a \<and> \<not> f32_is_nan b \<and>
     fst (f32_val a) * snd (f32_val b) < fst (f32_val b) * snd (f32_val a)"

text \<open>\<open>roundf\<close>, halves away from zero, and \<open>floorf\<close>; the result keeps the sign of a zero.\<close>

definition f32_roundf :: "u32 \<Rightarrow> u32" where
  "f32_roundf a =
     (if f32_is_nan a \<or> f32_is_inf a then a
      else
        (let (n, d) = f32_val a; m = (2 * \<bar>n\<bar> + d) div (2 * d)
         in f32_round (f32_sign a) (if n < 0 then - m else m, 1)))"

definition f32_floorf :: "u32 \<Rightarrow> u32" where
  "f32_floorf a =
     (if f32_is_nan a \<or> f32_is_inf a then a
      else (let (n, d) = f32_val a in f32_round (f32_sign a) (n div d, 1)))"

section \<open>Conversions to integers\<close>

text \<open>Truncation of a finite value; \<open>None\<close> for the others.\<close>

definition f32_trunc :: "u32 \<Rightarrow> int option" where
  "f32_trunc a =
     (if f32_is_nan a \<or> f32_is_inf a then None
      else (let (n, d) = f32_val a in Some (sgn n * (\<bar>n\<bar> div d))))"

definition in_signed :: "nat \<Rightarrow> int \<Rightarrow> bool" where
  "in_signed b i \<longleftrightarrow> - (2 ^ (b - 1)) \<le> i \<and> i < 2 ^ (b - 1)"

text \<open>
  \<open>int32_t\<close> is converted by an instruction of 32 bits, \<open>int64_t\<close> and \<open>uint32_t\<close> by one of 64 bits,
  whose lower half is taken for \<open>uint32_t\<close>. Both give their least number when out of range.
\<close>

definition f32_to_int32 :: "u32 \<Rightarrow> u32" where
  "f32_to_int32 a =
     (case f32_trunc a of
        Some i \<Rightarrow> if in_signed 32 i then word_of_int i else 0x80000000
      | None \<Rightarrow> 0x80000000)"

definition f32_to_int64 :: "u32 \<Rightarrow> 64 word" where
  "f32_to_int64 a =
     (case f32_trunc a of
        Some i \<Rightarrow> if in_signed 64 i then word_of_int i else 0x8000000000000000
      | None \<Rightarrow> 0x8000000000000000)"

definition f32_to_uint32 :: "u32 \<Rightarrow> u32" where
  "f32_to_uint32 a = ucast (f32_to_int64 a)"

text \<open>\<open>uint16_t\<close> is the lower half of the instruction of 32 bits.\<close>

definition f32_to_uint16 :: "u32 \<Rightarrow> u16" where
  "f32_to_uint16 a = ucast (f32_to_int32 a)"

section \<open>A value determines its float\<close>

lemma f32_frac_range: "0 \<le> f32_frac w" "f32_frac w < 2 ^ 23"
  by (simp_all add: f32_frac_def)

lemma f32_exp_range: "0 \<le> f32_exp w" "f32_exp w \<le> 255"
  using pos_mod_bound [of 256 "uint w div 2 ^ 23"] by (simp_all add: f32_exp_def)

lemma f32_parts: "uint w = (if f32_sign w then 2 ^ 31 else 0) + f32_exp w * 2 ^ 23 + f32_frac w"
proof -
  have u: "0 \<le> uint w" "uint w < 2 ^ 32" using unsigned_less [of w] by simp_all
  let ?q = "uint w div 2 ^ 23"
  have q: "0 \<le> ?q" "?q < 512"
    using u by (simp_all add: pos_imp_zdiv_nonneg_iff div_less_iff_less_mult)
  have dq: "?q div 256 = (if f32_sign w then 1 else 0)"
  proof (cases "f32_sign w")
    case True
    then have "256 \<le> ?q" using zdiv_mono1 [of "2 ^ 31" "uint w" "2 ^ 23"] by (simp add: f32_sign_def)
    then show ?thesis using True q by simp
  next
    case False
    then have "?q < 256" by (simp add: f32_sign_def div_less_iff_less_mult)
    then show ?thesis using False q by simp
  qed
  have "uint w = 2 ^ 23 * ?q + uint w mod 2 ^ 23" by simp
  also have "?q = 256 * (?q div 256) + ?q mod 256" by simp
  finally have "uint w = 2 ^ 23 * (256 * (if f32_sign w then 1 else 0) + f32_exp w) + f32_frac w"
    unfolding f32_exp_def f32_frac_def dq .
  then show ?thesis by (cases "f32_sign w") simp_all
qed

lemma f32_mant_range: "0 \<le> f32_mant w" "f32_mant w < 2 ^ 24" "f32_exp w \<noteq> 0 \<Longrightarrow> 2 ^ 23 \<le> f32_mant w"
  using f32_frac_range [of w] by (simp_all add: f32_mant_def)

text \<open>Two mantissas and exponents of the same value, both normalised, are the same.\<close>

lemma normal_unique:
  fixes m m' :: int and E E' :: nat
  assumes "m * 2 ^ E = m' * 2 ^ E'" "0 < m" "m < 2 ^ 24" "m' < 2 ^ 24" "1 \<le> E" "1 \<le> E'"
    and "E \<noteq> 1 \<Longrightarrow> 2 ^ 23 \<le> m" "E' \<noteq> 1 \<Longrightarrow> 2 ^ 23 \<le> m'"
  shows "E = E' \<and> m = m'"
proof -
  have lt: False if e: "a * 2 ^ F = b * 2 ^ F'" and f: "F' < F" and a: "(2::int) ^ 23 \<le> a" and b: "b < 2 ^ 24" for a b :: int and F F' :: nat
  proof -
    obtain k where k: "F = F' + Suc k" using f less_imp_Suc_add by fastforce
    then have "a * 2 ^ Suc k * 2 ^ F' = b * 2 ^ F'" using e by (simp add: power_add ac_simps)
    then have "b = a * 2 ^ Suc k" by simp
    moreover have "a * 2 \<le> a * 2 ^ Suc k" using a by (simp add: mult_le_cancel_left)
    ultimately show False using a b by simp
  qed
  consider "E' < E" | "E < E'" | "E = E'" by linarith
  then show ?thesis
  proof cases
    case 1
    then show ?thesis using lt [OF assms(1) 1 _ assms(4)] assms(6,7) by simp
  next
    case 2
    then show ?thesis using lt [OF assms(1) [symmetric] 2 _ assms(3)] assms(5,8) by simp
  next
    case 3
    then show ?thesis using assms(1) by simp
  qed
qed

lemma f32_eq_unique:
  assumes "f32_eq a b" "\<not> f32_is_zero b"
  shows "a = b"
proof -
  let ?m = "\<lambda>w. if f32_sign w then - f32_mant w else f32_mant w"
  let ?E = "\<lambda>w. nat (max 1 (f32_exp w))"
  have val: "fst (f32_val w) * 2 ^ 150 = ?m w * 2 ^ ?E w * snd (f32_val w)" "0 < snd (f32_val w)" for w
  proof -
    let ?e = "max 1 (f32_exp w) - 150"
    have "fst (f32_val w) * 2 ^ 150 = ?m w * 2 ^ ?E w * snd (f32_val w) \<and> 0 < snd (f32_val w)"
    proof (cases "0 \<le> ?e")
      case True
      then have n: "nat ?e + 150 = ?E w" by linarith
      have "fst (f32_val w) * 2 ^ 150 = ?m w * 2 ^ (nat ?e + 150)"
        using True by (simp add: f32_val_def scale2_def power_add)
      then show ?thesis using True unfolding n by (simp add: f32_val_def scale2_def)
    next
      case False
      then have n: "?E w + nat (- ?e) = 150" using f32_exp_range(1) [of w] by linarith
      have "?m w * 2 ^ ?E w * snd (f32_val w) = ?m w * 2 ^ (?E w + nat (- ?e))"
        using False by (simp add: f32_val_def scale2_def power_add)
      then show ?thesis using False unfolding n by (simp add: f32_val_def scale2_def)
    qed
    then show "fst (f32_val w) * 2 ^ 150 = ?m w * 2 ^ ?E w * snd (f32_val w)" "0 < snd (f32_val w)" by blast+
  qed
  have "fst (f32_val a) * snd (f32_val b) = fst (f32_val b) * snd (f32_val a)"
    using assms(1) by (simp add: f32_eq_def)
  then have "(fst (f32_val a) * 2 ^ 150) * snd (f32_val b) = (fst (f32_val b) * 2 ^ 150) * snd (f32_val a)"
    by (simp add: ac_simps)
  then have "(?m a * 2 ^ ?E a) * (snd (f32_val a) * snd (f32_val b)) = (?m b * 2 ^ ?E b) * (snd (f32_val a) * snd (f32_val b))"
    unfolding val(1) by (simp add: ac_simps)
  then have eq: "?m a * 2 ^ ?E a = ?m b * 2 ^ ?E b"
    using val(2) [of a] val(2) [of b] by simp
  have nz: "?m b \<noteq> 0"
  proof
    assume "?m b = 0"
    then have "fst (f32_val b) * 2 ^ 150 = 0" unfolding val(1) by simp
    with assms(2) show False by (simp add: f32_is_zero_def)
  qed
  have r: "0 \<le> f32_mant w" "f32_mant w < 2 ^ 24" "?E w \<noteq> 1 \<Longrightarrow> 2 ^ 23 \<le> f32_mant w" "1 \<le> ?E w" for w
    using f32_mant_range [of w] by (auto simp: max_def split: if_splits)
  have "0 < f32_mant b" using nz r(1) [of b] by (auto split: if_splits)
  then have pb: "0 < f32_mant b * 2 ^ ?E b" by simp
  have pa: "0 \<le> f32_mant a * 2 ^ ?E a" using r(1) [of a] by simp
  have s: "f32_sign a = f32_sign b" using eq pa pb by (auto split: if_splits)
  then have "f32_mant b * 2 ^ ?E b = f32_mant a * 2 ^ ?E a" using eq by (auto split: if_splits)
  from normal_unique [OF this \<open>0 < f32_mant b\<close> r(2) r(2) r(4) r(4) r(3) r(3)]
  have E: "?E b = ?E a" and m: "f32_mant b = f32_mant a" by auto
  have "f32_exp a = f32_exp b \<and> f32_frac a = f32_frac b"
    using E m f32_exp_range [of a] f32_exp_range [of b] f32_frac_range [of a] f32_frac_range [of b]
    by (auto simp: f32_mant_def max_def split: if_splits)
  then have "uint a = uint b" using s by (simp add: f32_parts)
  then show ?thesis by (rule word_uint_eq_iff [THEN iffD2])
qed

lemma f32_is_zero_iff: "f32_is_zero w \<longleftrightarrow> w = 0 \<or> w = 0x80000000"
proof
  assume "f32_is_zero w"
  then have "f32_mant w = 0" by (auto simp: f32_is_zero_def f32_val_def scale2_def split: if_splits)
  then have "f32_exp w = 0" "f32_frac w = 0" using f32_mant_range [of w] by (auto simp: f32_mant_def split: if_splits)
  then have "uint w = (if f32_sign w then 2 ^ 31 else 0)" using f32_parts [of w] by simp
  then show "w = 0 \<or> w = 0x80000000" by (auto simp: word_uint_eq_iff split: if_splits)
next
  have "f32_is_zero 0" "f32_is_zero 0x80000000" by code_simp+
  then show "w = 0 \<or> w = 0x80000000 \<Longrightarrow> f32_is_zero w" by auto
qed

end
