(* ===== verification/EntityField.thy ===== *)
theory EntityField
  imports Packets Float32
begin

text \<open>
  How one member of an entity or of a player state is sent (\<open>Serializable/EntityField.cpp\<close>,
  \<open>Serializable/NetField.h\<close>), and coordinates (\<open>MSGCoord.cpp\<close>, \<open>Serializable/Coord.h\<close>). A member is
  its bytes in memory, in little-endian order. A shift \<open>1 << n\<close> takes \<open>n\<close> modulo 32, as x86-64 does;
  a negative \<open>n\<close>, which some fields have, is undefined in C++.
\<close>

section \<open>Fields\<close>

datatype fieldType_ver6_e =
  regular6 | angle6 | animTime6 | animWeight6 | scale6 | alpha6 | coord6 | velocity6 | simple6

datatype fieldType_ver15_e =
    regular15 | angle15 | animTime15 | animWeight15 | scale15 | alpha15 | coord15 | coordExtra15
  | velocity15 | simple15

text \<open>The designator of a member (a value of \<open>'m\<close>) stands for its offset.\<close>

record ('m, 'ty) netField =
  nf_member :: 'm
  nf_size :: nat
  nf_bits :: int
  nf_type :: 'ty

text \<open>A \<open>float\<close> in memory; the number of bits of \<open>WriteNumber\<close>, whose sign \<open>WriteBits\<close> drops.\<close>

definition mem_f32 :: "byte list \<Rightarrow> u32" where
  "mem_f32 bs = of_nat (le_val (take 4 bs))"

definition f32_mem :: "u32 \<Rightarrow> byte list" where
  "f32_mem w = le_bytes 4 (unat w)"

definition num_bits :: "int \<Rightarrow> nat" where
  "num_bits bits = nat \<bar>bits\<bar>"

definition shl1 :: "int \<Rightarrow> u32" where
  "shl1 n = push_bit (nat (n mod 32)) 1"

definition FLOAT_INT_BITS :: nat where "FLOAT_INT_BITS = 13"
definition FLOAT_INT_BIAS :: int where "FLOAT_INT_BIAS = 2 ^ (FLOAT_INT_BITS - 1)"

definition packType :: "u32 \<Rightarrow> u32" where
  "packType val =
     (let packed = push_bit 1 val - 0x7A000000 in if sint val < 0 then packed OR 1 else packed)"

definition unpackType :: "u32 \<Rightarrow> u32" where
  "unpackType packed =
     (if bit packed 0 then drop_bit 1 (packed + 0x7A000000) OR 0x80000000
      else drop_bit 1 (packed + 0x7A000000))"

section \<open>Coordinates\<close>

text \<open>The number of a coordinate, whose highest bit is its sign.\<close>

definition coord_value :: "u32 \<Rightarrow> u32" where
  "coord_value read =
     (let sign = (if read AND 262144 \<noteq> 0 then f32_of_int (- 1) else f32_of_int 1)
      in f32_mul sign (f32_div (f32_of_int (uint (read AND NOT 262144))) (f32_of_int 16)))"

definition ReadCoord :: "msg \<Rightarrow> msg_error + u32 \<times> msg" where
  "ReadCoord m = rbind (ReadNumber 19 m) (\<lambda>(read, m'). Inr (coord_value read, m'))"

definition coord_small_value :: "u32 \<Rightarrow> u32" where
  "coord_small_value read =
     (let sign = (if read AND 65536 \<noteq> 0 then f32_of_int (- 1) else f32_of_int 1)
      in f32_mul sign (f32_div (f32_of_int (uint (read AND NOT 65536))) (f32_of_int 8)))"

definition ReadCoordSmall :: "msg \<Rightarrow> msg_error + u32 \<times> msg" where
  "ReadCoordSmall m = rbind (ReadNumber 17 m) (\<lambda>(read, m'). Inr (coord_small_value read, m'))"

definition small_delta :: "u32 \<Rightarrow> u32 \<Rightarrow> u32" where
  "small_delta offset v =
     (let result = drop_bit 1 v + 1; signed = (if bit v 0 then - result else result) in signed + offset)"

definition ReadDeltaCoord :: "u32 \<Rightarrow> msg \<Rightarrow> msg_error + u32 \<times> msg" where
  "ReadDeltaCoord offset m =
     rbind (ReadBool m) (\<lambda>(isSmall, m1).
       if isSmall then
         rbind (ReadNumber 8 m1) (\<lambda>(byteValue :: byte, m2). Inr (small_delta offset (ucast byteValue), m2))
       else rbind (ReadNumber 16 m1) (\<lambda>(v :: u16, m2). Inr (ucast v, m2)))"

definition ReadDeltaCoordExtra :: "u32 \<Rightarrow> msg \<Rightarrow> msg_error + u32 \<times> msg" where
  "ReadDeltaCoordExtra offset m =
     rbind (ReadBool m) (\<lambda>(isSmall, m1).
       if isSmall then
         rbind (ReadNumber 10 m1) (\<lambda>(shortValue :: u16, m2). Inr (small_delta offset (ucast shortValue), m2))
       else ReadNumber 18 m1)"

definition ReadVectorCoord :: "msg \<Rightarrow> msg_error + (u32 \<times> u32 \<times> u32) \<times> msg" where
  "ReadVectorCoord m =
     rbind (ReadCoord m) (\<lambda>(x, m1). rbind (ReadCoord m1) (\<lambda>(y, m2). rbind (ReadCoord m2) (\<lambda>(z, m3).
       Inr ((x, y, z), m3))))"

definition ReadVectorFloat :: "msg \<Rightarrow> msg_error + (u32 \<times> u32 \<times> u32) \<times> msg" where
  "ReadVectorFloat m =
     rbind (ReadFloat m) (\<lambda>(x, m1). rbind (ReadFloat m1) (\<lambda>(y, m2). rbind (ReadFloat m2) (\<lambda>(z, m3).
       Inr ((x, y, z), m3))))"

definition coord_number :: "u32 \<Rightarrow> u32" where
  "coord_number val =
     (let bits = f32_to_int32 (f32_mul val (f32_of_int 16))
      in if f32_less val 0 then ((- bits) AND 262143) OR 262144 else bits AND 262143)"

definition WriteCoord :: "u32 \<Rightarrow> msg \<Rightarrow> msg_error + msg" where
  "WriteCoord val m = WriteNumber (coord_number val) 19 m"

definition coord_small_number :: "u32 \<Rightarrow> u32" where
  "coord_small_number val =
     (let bits = f32_to_uint32 (f32_mul val (f32_of_int 8))
      in if f32_less val 0 then ((- bits) AND 65535) OR 65536 else bits AND 65535)"

definition WriteCoordSmall :: "u32 \<Rightarrow> msg \<Rightarrow> msg_error + msg" where
  "WriteCoordSmall val m = WriteNumber (coord_small_number val) 17 m"

text \<open>The number sent for a small delta, before it is cut to its width.\<close>

definition delta_number :: "u32 \<Rightarrow> u32" where
  "delta_number delta =
     (let deltaAbs = (if sint delta < 0 then - delta else delta)
      in if sint delta < 0 then deltaAbs * 2 - 1 else deltaAbs * 2 - 2)"

definition WriteDeltaCoord :: "u32 \<Rightarrow> u32 \<Rightarrow> msg \<Rightarrow> msg_error + msg" where
  "WriteDeltaCoord from to m =
     (let delta = to - from; deltaAbs = (if sint delta < 0 then - delta else delta)
      in if deltaAbs > 128 then rbind (WriteBool False m) (WriteNumber (ucast to :: u16) 16)
         else rbind (WriteBool True m) (WriteNumber (ucast (delta_number delta) :: byte) 8))"

definition WriteDeltaCoordExtra :: "u32 \<Rightarrow> u32 \<Rightarrow> msg \<Rightarrow> msg_error + msg" where
  "WriteDeltaCoordExtra from to m =
     (let delta = to - from; deltaAbs = (if sint delta < 0 then - delta else delta)
      in if deltaAbs > 128 then rbind (WriteBool False m) (WriteNumber to 18)
         else rbind (WriteBool True m) (WriteNumber (ucast (delta_number delta) :: u16) 10))"

definition WriteVectorCoord :: "u32 \<times> u32 \<times> u32 \<Rightarrow> msg \<Rightarrow> msg_error + msg" where
  "WriteVectorCoord v m =
     (let (x, y, z) = v in rbind (WriteCoord x m) (\<lambda>m1. rbind (WriteCoord y m1) (WriteCoord z)))"

text \<open>\<open>NetCoord<16, -8192, 8192>\<close> and \<open>NetCoord<18, -8192, 8192>\<close>.\<close>

definition StandardCoord_pack :: "u32 \<Rightarrow> u16" where
  "StandardCoord_pack val =
     f32_to_uint16 (f32_roundf (f32_add (f32_of_int 32768) (f32_mul val (f32_of_int 4))))"

definition StandardCoord_unpack :: "u16 \<Rightarrow> u32" where
  "StandardCoord_unpack packedValue = f32_div (f32_of_int (uint packedValue - 32768)) (f32_of_int 4)"

definition ExtraCoord_pack :: "u32 \<Rightarrow> u32" where
  "ExtraCoord_pack val =
     f32_to_uint32 (f32_roundf (f32_add (f32_of_int 131072) (f32_mul val (f32_of_int 16))))"

definition ExtraCoord_unpack :: "u32 \<Rightarrow> u32" where
  "ExtraCoord_unpack packedValue = f32_div (f32_of_int (uint packedValue - 131072)) (f32_of_int 16)"

definition PackCoord :: "u32 \<Rightarrow> u32" where "PackCoord val = ucast (StandardCoord_pack val)"
definition PackCoordExtra :: "u32 \<Rightarrow> u32" where "PackCoordExtra val = ExtraCoord_pack val"
definition UnpackCoord :: "u32 \<Rightarrow> u32" where "UnpackCoord val = StandardCoord_unpack (ucast val)"
definition UnpackCoordExtra :: "u32 \<Rightarrow> u32" where "UnpackCoordExtra val = ExtraCoord_unpack val"

section \<open>Packed floats\<close>

definition clamp :: "u32 \<Rightarrow> u32 \<Rightarrow> u32" where
  "clamp packedValue maxValue =
     (if sint packedValue < 0 then 0 else if sint packedValue > sint maxValue then maxValue else packedValue)"

definition max_number :: "int \<Rightarrow> u32" where
  "max_number bits = shl1 bits - 1"

definition unit_float :: "u32 \<Rightarrow> u32" where
  "unit_float tmp = (if f32_less tmp 0 then 0 else if f32_less (f32_of_int 1) tmp then f32_of_int 1 else tmp)"

definition PackAnimWeight :: "u32 \<Rightarrow> int \<Rightarrow> u32" where
  "PackAnimWeight weight bits =
     clamp (f32_to_uint32 (f32_roundf (f32_mul weight (f32_of_int (sint (max_number bits)))))) (max_number bits)"

definition UnpackAnimWeight :: "u32 \<Rightarrow> int \<Rightarrow> u32" where
  "UnpackAnimWeight result bits =
     unit_float (f32_div (f32_of_int (sint result)) (f32_of_int (sint (max_number bits))))"

definition PackScale :: "u32 \<Rightarrow> int \<Rightarrow> u32" where
  "PackScale scale bits =
     clamp (f32_to_uint32 (f32_roundf (f32_mul scale (f32_of_int 100)))) (max_number bits)"

definition UnpackScale :: "u16 \<Rightarrow> u32" where
  "UnpackScale result = f32_div (f32_of_int (sint result)) (f32_of_int 100)"

definition PackAlpha :: "u32 \<Rightarrow> int \<Rightarrow> u32" where
  "PackAlpha alpha bits =
     clamp (f32_to_uint32 (f32_roundf (f32_mul alpha (f32_of_int (sint (max_number bits)))))) (max_number bits)"

definition UnpackAlpha :: "u32 \<Rightarrow> int \<Rightarrow> u32" where
  "UnpackAlpha result bits =
     unit_float (f32_div (f32_of_int (sint result)) (f32_of_int (sint (max_number bits))))"

definition PackAnimTime :: "u32 \<Rightarrow> int \<Rightarrow> u32" where
  "PackAnimTime time bits =
     clamp (f32_to_uint32 (f32_roundf (f32_mul time (f32_of_int 100)))) (max_number bits)"

definition UnpackAnimTime :: "u32 \<Rightarrow> u32" where
  "UnpackAnimTime result = f32_div (f32_of_int (sint result)) (f32_of_int 100)"

text \<open>The steps of a turn that \<open>n\<close> bits tell apart; \<open>1 << (uint8_t)bits\<close> is a signed number.\<close>

definition angle_steps :: "u32 \<Rightarrow> int \<Rightarrow> u32" where
  "angle_steps tmp bits =
     f32_div
       (f32_mul tmp
         (if bits = 12 then f32_of_int 4096 else if bits = 8 then f32_of_int 256
          else if bits = 16 then f32_of_int 65536 else f32_of_int (sint (shl1 (bits mod 256)))))
       (f32_of_int 360)"

definition angle_mask :: "int \<Rightarrow> u32" where
  "angle_mask bits =
     (if bits = 12 then 4095 else if bits = 8 then 255 else if bits = 16 then 65535
      else shl1 (bits mod 256) - 1)"

definition PackAngle :: "u32 \<Rightarrow> int \<Rightarrow> u32" where
  "PackAngle angle bits =
     (let tmp = (if bits < 0 \<and> f32_less angle 0 then f32_neg angle else angle);
          n = (if bits < 0 then NOT bits else bits)
      in f32_to_uint32 (angle_steps tmp n) AND angle_mask n)"

definition PackAngle2 :: "u32 \<Rightarrow> int \<Rightarrow> u32" where
  "PackAngle2 angle bits =
     (let n = (if bits < 0 then NOT bits else bits);
          negative = (bits < 0 \<and> f32_less angle 0);
          tmp = (if negative then f32_neg angle else angle);
          flags = (if negative then shl1 n else 0)
      in flags OR (f32_to_uint32 (f32_floorf (angle_steps tmp n)) AND angle_mask n))"

text \<open>\<open>360.f / 4096.f\<close> and the like are constants of the compiler.\<close>

definition UnpackAngle :: "u32 \<Rightarrow> int \<Rightarrow> bool \<Rightarrow> u32" where
  "UnpackAngle result bits isNeg =
     (let tmp = (if isNeg then f32_of_int (- 1) else f32_of_int 1);
          n = (if bits < 0 then NOT bits else bits);
          turn = (\<lambda>k. f32_mul (f32_mul (f32_of_int (sint result)) (f32_div (f32_of_int 360) (f32_of_int k))) tmp)
      in if n = 12 then turn 4096 else if n = 8 then turn 256 else if n = 16 then turn 65536
         else f32_div (f32_mul (f32_of_int (sint (result * shl1 n))) tmp) (f32_of_int 360))"

definition UnpackAngle2 :: "u32 \<Rightarrow> int \<Rightarrow> u32" where
  "UnpackAngle2 packedValue bits =
     (let maxBit = shl1 bits;
          negative = (bits < 0 \<and> packedValue AND maxBit \<noteq> 0);
          n = (if bits < 0 then NOT bits else bits);
          packedAngle = (if negative then packedValue AND NOT maxBit else packedValue);
          tmp = (if negative then f32_of_int (- 1) else f32_of_int 1);
          turn = (\<lambda>k. f32_mul (f32_mul (f32_of_int (uint packedAngle)) (f32_div (f32_of_int 360) (f32_of_int k))) tmp)
      in if n = 12 then turn 4096 else if n = 8 then turn 256 else if n = 16 then turn 65536
         else f32_div (f32_mul (f32_of_int (uint (packedAngle * shl1 n))) tmp) (f32_of_int 360))"

section \<open>Is a delta needed\<close>

fun xored_sum :: "byte list \<Rightarrow> byte list \<Rightarrow> u32" where
  "xored_sum (a # as) (b # bs) = ucast (a XOR b) + xored_sum as bs"
| "xored_sum _ _ = 0"

definition regular_needed :: "byte list \<Rightarrow> byte list \<Rightarrow> int \<Rightarrow> bool" where
  "regular_needed fromField toField bits =
     (if bits = 0 \<or> bits = 32 then True
      else xored_sum fromField toField AND (shl1 bits - 1) \<noteq> 0)"

definition DeltaNeeded :: "byte list \<Rightarrow> byte list \<Rightarrow> ('m, fieldType_ver6_e) netField \<Rightarrow> bool" where
  "DeltaNeeded fromField toField field =
     (let bits = nf_bits field; a = mem_f32 fromField; b = mem_f32 toField
      in if fromField = toField then False
         else (case nf_type field of
             regular6 \<Rightarrow> regular_needed fromField toField bits
           | angle6 \<Rightarrow> PackAngle a bits \<noteq> PackAngle b bits
           | animTime6 \<Rightarrow> PackAnimTime a bits \<noteq> PackAnimTime b bits
           | animWeight6 \<Rightarrow> PackAnimWeight a bits \<noteq> PackAnimWeight b bits
           | scale6 \<Rightarrow> PackScale a bits \<noteq> PackScale b bits
           | alpha6 \<Rightarrow> PackAlpha a bits \<noteq> PackAlpha b bits
           | coord6 \<Rightarrow> True
           | velocity6 \<Rightarrow> True
           | simple6 \<Rightarrow> True))"

definition DeltaNeeded_ver15 :: "byte list \<Rightarrow> byte list \<Rightarrow> ('m, fieldType_ver15_e) netField \<Rightarrow> bool" where
  "DeltaNeeded_ver15 fromField toField field =
     (let bits = nf_bits field; a = mem_f32 fromField; b = mem_f32 toField
      in if fromField = toField then False
         else (case nf_type field of
             regular15 \<Rightarrow> regular_needed fromField toField bits
           | angle15 \<Rightarrow> PackAngle2 a bits \<noteq> PackAngle2 b bits
           | animTime15 \<Rightarrow> PackAnimTime a bits \<noteq> PackAnimTime b bits
           | animWeight15 \<Rightarrow> PackAnimWeight a bits \<noteq> PackAnimWeight b bits
           | scale15 \<Rightarrow> PackScale a bits \<noteq> PackScale b bits
           | alpha15 \<Rightarrow> PackAlpha a bits \<noteq> PackAlpha b bits
           | coord15 \<Rightarrow> PackCoord a \<noteq> PackCoord b
           | coordExtra15 \<Rightarrow> PackCoordExtra a \<noteq> PackCoordExtra b
           | velocity15 \<Rightarrow> True
           | simple15 \<Rightarrow> True))"

section \<open>Numbers\<close>

text \<open>Is a float a whole number in the range of 13 bits? The bias is of the type \<open>size_t\<close>.\<close>

definition is_partial :: "u32 \<Rightarrow> bool" where
  "is_partial floatVal =
     (let truncFloat = f32_to_int32 floatVal
      in f32_eq (f32_of_int (sint truncFloat)) floatVal \<and>
         (word_of_int (sint truncFloat + FLOAT_INT_BIAS) :: 64 word) < 2 ^ FLOAT_INT_BITS)"

definition bias :: u32 where "bias = word_of_int FLOAT_INT_BIAS"

definition ReadNumberPlayerStateField :: "int \<Rightarrow> nat \<Rightarrow> msg \<Rightarrow> msg_error + byte list \<times> msg" where
  "ReadNumberPlayerStateField bits sz m =
     (if bits = 0 then
        rbind (ReadBool m) (\<lambda>(isFullFloat, m1).
          if \<not> isFullFloat then
            rbind (ReadNumber FLOAT_INT_BITS m1) (\<lambda>(truncFloat :: u32, m2).
              Inr (f32_mem (f32_of_int (sint (truncFloat - bias))), m2))
          else rbind (ReadFloat m1) (\<lambda>(f, m2). Inr (f32_mem f, m2)))
      else msg_ReadBits (replicate sz 0) bits m)"

definition WriteNumberPlayerStateField :: "int \<Rightarrow> byte list \<Rightarrow> msg \<Rightarrow> msg_error + msg" where
  "WriteNumberPlayerStateField bits toF m =
     (if bits = 0 then
        (let floatVal = mem_f32 toF; isFullFloat = is_partial floatVal
         in rbind (WriteBool isFullFloat m) (\<lambda>m1.
            if \<not> isFullFloat then WriteNumber (f32_to_int32 floatVal + bias) FLOAT_INT_BITS m1
            else WriteFloat floatVal m1))
      else if length toF > 4 then Inl AssertionFailed
      else msg_WriteBits (toF @ replicate (4 - length toF) 0) bits m)"

definition ReadRegular :: "int \<Rightarrow> nat \<Rightarrow> msg \<Rightarrow> msg_error + byte list \<times> msg" where
  "ReadRegular bits sz m =
     (if bits = 0 then
        rbind (ReadBool m) (\<lambda>(hasValue, m1).
          if \<not> hasValue then Inr (f32_mem 0, m1)
          else
            rbind (ReadBool m1) (\<lambda>(isFullFloat, m2).
              if \<not> isFullFloat then
                rbind (ReadNumber FLOAT_INT_BITS m2) (\<lambda>(truncFloat :: u32, m3).
                  Inr (f32_mem (f32_of_int (sint (truncFloat - bias))), m3))
              else rbind (ReadFloat m2) (\<lambda>(f, m3). Inr (f32_mem f, m3))))
      else
        rbind (ReadBool m) (\<lambda>(hasValue, m1).
          if hasValue then msg_ReadBits (replicate sz 0) bits m1 else Inr (replicate sz 0, m1)))"

definition WriteNumberEntityField :: "int \<Rightarrow> byte list \<Rightarrow> msg \<Rightarrow> msg_error + msg" where
  "WriteNumberEntityField bits toF m =
     (if bits = 0 then
        (let floatVal = mem_f32 toF; hasValue = (\<not> f32_eq floatVal 0)
         in rbind (WriteBool hasValue m) (\<lambda>m1.
            if hasValue then
              (let isPartial = is_partial floatVal
               in rbind (WriteBool (\<not> isPartial) m1) (\<lambda>m2.
                  if isPartial then WriteNumber (f32_to_int32 floatVal + bias) FLOAT_INT_BITS m2
                  else WriteFloat floatVal m2))
            else Inr m1))
      else
        (let hasValue = (\<exists>b\<in>set toF. b \<noteq> 0)
         in rbind (WriteBool hasValue m) (\<lambda>m1.
            if hasValue then
              (if length toF > 4 then Inl BadBufferAccess
               else msg_WriteBits (toF @ replicate (4 - length toF) 0) bits m1)
            else Inr m1)))"

definition ReadRegular2 :: "int \<Rightarrow> nat \<Rightarrow> msg \<Rightarrow> msg_error + byte list \<times> msg" where
  "ReadRegular2 bits sz m =
     (if bits = 0 then
        rbind (ReadBool m) (\<lambda>(hasValue, m1).
          if \<not> hasValue then Inr (f32_mem 0, m1)
          else
            rbind (ReadBool m1) (\<lambda>(isFullFloat, m2).
              if \<not> isFullFloat then
                rbind (ReadNumber FLOAT_INT_BITS m2) (\<lambda>(truncFloat :: u32, m3).
                  let t = of_nat (le_val (unshiftValue_mem (le_bytes 4 (unat truncFloat)))) :: u32
                  in Inr (f32_mem (f32_of_int (sint t)), m3))
              else rbind (ReadInteger m2) (\<lambda>(packedFloat, m3). Inr (f32_mem (unpackType packedFloat), m3))))
      else
        rbind (ReadBool m) (\<lambda>(hasValue, m1).
        rbind (if hasValue then msg_ReadBits (replicate sz 0) bits m1 else Inr (replicate sz 0, m1))
          (\<lambda>(toF, m2). Inr (if bits < 0 then unshiftValue_mem toF else toF, m2))))"

definition WriteRegular2 :: "int \<Rightarrow> byte list \<Rightarrow> msg \<Rightarrow> msg_error + msg" where
  "WriteRegular2 bits toF m =
     (if bits = 0 then
        (let floatVal = mem_f32 toF; hasValue = (\<not> f32_eq floatVal 0)
         in rbind (WriteBool hasValue m) (\<lambda>m1.
            if hasValue then
              (let isPartial = is_partial floatVal
               in rbind (WriteBool (\<not> isPartial) m1) (\<lambda>m2.
                  if isPartial then WriteNumber (shiftValue (f32_to_int32 floatVal)) FLOAT_INT_BITS m2
                  else WriteUInteger (packType floatVal) m2))
            else Inr m1))
      else
        (let hasValue = (\<exists>b\<in>set toF. b \<noteq> 0)
         in rbind (WriteBool hasValue m) (\<lambda>m1.
            if hasValue then
              (if length toF > 4 then Inl BadBufferAccess
               else
                 (let v = (if bits < 0 then shiftValue_mem toF else toF)
                  in msg_WriteBits (v @ replicate (4 - length toF) 0) bits m1))
            else Inr m1)))"

text \<open>The tests of the sign of a \<open>size_t\<close> never hold; \<open>bits\<close> keeps its sign in the calls.\<close>

definition ReadAngleField :: "int \<Rightarrow> msg \<Rightarrow> msg_error + u32 \<times> msg" where
  "ReadAngleField bits m =
     rbind (ReadNumber (num_bits bits) m) (\<lambda>(packedValue, m').
       Inr (UnpackAngle packedValue bits False, m'))"

definition WriteAngleField :: "int \<Rightarrow> u32 \<Rightarrow> msg \<Rightarrow> msg_error + msg" where
  "WriteAngleField bits angle m = WriteNumber (PackAngle angle bits) (num_bits bits) m"

definition ReadTimeField :: "msg \<Rightarrow> msg_error + u32 \<times> msg" where
  "ReadTimeField m = rbind (ReadNumber 15 m) (\<lambda>(result, m'). Inr (UnpackAnimTime result, m'))"

definition WriteTimeField :: "u32 \<Rightarrow> msg \<Rightarrow> msg_error + msg" where
  "WriteTimeField time m = WriteNumber (PackAnimTime time 15) 15 m"

definition ReadScaleField :: "msg \<Rightarrow> msg_error + u32 \<times> msg" where
  "ReadScaleField m = rbind (ReadNumber 10 m) (\<lambda>(result, m'). Inr (UnpackScale result, m'))"

definition WriteScaleField :: "u32 \<Rightarrow> msg \<Rightarrow> msg_error + msg" where
  "WriteScaleField time m =
     (let v = f32_to_int64 (f32_mul time (f32_of_int 100));
          v' = (if sint v < 0 then 0 else if sint v > 1023 then 1023 else v)
      in WriteNumber v' 10 m)"

definition ReadSimple :: "int \<Rightarrow> byte list \<Rightarrow> msg \<Rightarrow> msg_error + byte list \<times> msg" where
  "ReadSimple bits toF m =
     rbind (ReadBool m) (\<lambda>(changed, m1).
       if changed then msg_ReadBits toF bits m1 else Inr (replicate (length toF) 0, m1))"

definition WriteSimple :: "int \<Rightarrow> byte list \<Rightarrow> msg \<Rightarrow> msg_error + msg" where
  "WriteSimple bits toF m =
     (if length toF < 4 then Inl BadBufferAccess
      else
        (let packedValue = drop_bit 24 (mem_f32 toF)
         in if packedValue AND 0xFF \<noteq> 0 then
              rbind (WriteBool True m) (WriteNumber (packedValue AND 0xFF) (num_bits bits))
            else WriteBool False m))"

section \<open>A writer and its reader\<close>

text \<open>The writer \<open>w\<close> sends some bits, and the reader \<open>r\<close> takes exactly these bits and gives \<open>x\<close>.\<close>

definition carries :: "(msg \<Rightarrow> msg_error + msg) \<Rightarrow> (msg \<Rightarrow> msg_error + 'a \<times> msg) \<Rightarrow> 'a \<Rightarrow> bool" where
  "carries w r x \<longleftrightarrow> (\<exists>bs. puts w bs \<and> gets r bs x)"

named_theorems carries_intros \<open>how writers and readers of the same bits compose\<close>

lemma carriesI: "puts w bs \<Longrightarrow> gets r bs x \<Longrightarrow> carries w r x"
  by (auto simp: carries_def)

lemma carriesE:
  assumes "carries w r x"
  obtains bs where "puts w bs" "gets r bs x"
  using assms by (auto simp: carries_def)

lemma carries_return [carries_intros]: "carries Inr (\<lambda>m. Inr (x, m)) x"
  by (rule carriesI [OF puts_Inr gets_return])

lemma carries_bind [carries_intros]:
  assumes "carries w r x" "carries w' (r' x) y"
  shows "carries (\<lambda>m. rbind (w m) w') (\<lambda>m. rbind (r m) (\<lambda>(x, m'). r' x m')) y"
proof -
  obtain bs where bs: "puts w bs" "gets r bs x" using assms(1) by (rule carriesE)
  obtain cs where cs: "puts w' cs" "gets (r' x) cs y" using assms(2) by (rule carriesE)
  show ?thesis by (rule carriesI [OF puts_bind [OF bs(1) cs(1)]
        gets_bind [where f = r and g = r' and x = x and y = y, OF bs(2) cs(2)]])
qed

lemma carries_map2:
  assumes "carries w r x" "\<And>m. r' m = rbind (r m) (\<lambda>(x, m'). Inr (f x, m'))"
  shows "carries w r' (f x)"
proof -
  obtain bs where bs: "puts w bs" "gets r bs x" using assms(1) by (rule carriesE)
  show ?thesis by (rule carriesI [OF bs(1) gets_map [OF bs(2) assms(2)]])
qed

lemma carries_map: "carries w r x \<Longrightarrow> carries w (\<lambda>m. rbind (r m) (\<lambda>(x, m'). Inr (f x, m'))) (f x)"
  by (rule carries_map2) simp_all

lemma carries_bool [carries_intros]: "carries (WriteBool b) ReadBool b"
  unfolding carries_def using WriteBool_puts ReadBool_gets by blast

lemma carries_byte [carries_intros]: "carries (WriteByte b) ReadByte b"
  unfolding carries_def using WriteByte_puts ReadByte_gets by blast

lemma carries_float [carries_intros]: "carries (WriteFloat v) ReadFloat v"
  unfolding carries_def using WriteFloat_puts ReadFloat_gets by blast

lemma carries_integer [carries_intros]: "carries (WriteUInteger v) ReadInteger v"
  unfolding carries_def using WriteUInteger_puts ReadInteger_gets by blast

lemma carries_number [carries_intros]:
  "n \<le> 8 * (LENGTH('a) div 8) \<Longrightarrow> carries (WriteNumber (v :: 'a::len word) n) (ReadNumber n) (take_bit n v)"
  unfolding carries_def using WriteNumber_puts ReadNumber_gets by blast

lemma carries_cong: "carries w r x \<Longrightarrow> (\<And>m. w' m = w m) \<Longrightarrow> (\<And>m. r' m = r m) \<Longrightarrow> x' = x \<Longrightarrow> carries w' r' x'"
  by (simp add: carries_def puts_def gets_def)

lemma enc_bits_prefix:
  assumes "n \<le> 8 * length data"
  shows "enc_bits (data @ zs) n = enc_bits data n"
proof -
  have "bits_bytes (n div 8) (drop (n mod 8) (bytes_bits (data @ zs))) =
      bits_bytes (n div 8) (drop (n mod 8) (bytes_bits data))"
    using assms mult_div_mod_eq [of 8 n] by (intro bits_bytes_cong) (simp add: mult.commute)
  moreover have "take (n mod 8) (bytes_bits (data @ zs)) = take (n mod 8) (bytes_bits data)"
    using assms mult_div_mod_eq [of 8 n] by (simp add: mult.commute)
  ultimately show ?thesis by (simp add: enc_bits_def)
qed

lemma carries_bits:
  assumes "num_bits bits \<le> 8 * length toF"
  shows "carries (msg_WriteBits (toF @ zs) bits) (msg_ReadBits (replicate (length toF) 0) bits)
    (le_bytes (length toF) (take_bit (num_bits bits) (le_val toF)))"
proof -
  have e: "enc_bits (toF @ zs) (num_bits bits) = enc_bits (le_bytes (length toF) (le_val toF)) (num_bits bits)"
    using enc_bits_prefix [OF assms] by (simp add: le_bytes_le_val)
  have "puts (msg_WriteBits (toF @ zs) bits) (enc_bits (toF @ zs) (num_bits bits))"
    using msg_WriteBits_puts [of bits "toF @ zs"] assms by (simp add: num_bits_def)
  moreover have "gets (msg_ReadBits (replicate (length toF) 0) bits)
      (enc_bits (le_bytes (length toF) (le_val toF)) (num_bits bits))
      (le_bytes (length toF) (take_bit (num_bits bits) (le_val toF)))"
    using msg_ReadBits_gets [of "num_bits bits" bits "length toF"] assms by (simp add: num_bits_def)
  ultimately show ?thesis unfolding carries_def e by blast
qed

section \<open>Numbers survive\<close>

lemma is_partial_range:
  assumes "is_partial f"
  shows "f32_eq (f32_of_int (sint (f32_to_int32 f))) f"
    "- 4096 \<le> sint (f32_to_int32 f)" "sint (f32_to_int32 f) < 4096"
proof -
  let ?t = "sint (f32_to_int32 f)"
  have r: "- (2 ^ 31) \<le> ?t" "?t < 2 ^ 31"
    using sint_greater_eq [of "f32_to_int32 f"] sint_less [of "f32_to_int32 f"] by simp_all
  show "f32_eq (f32_of_int ?t) f" using assms by (simp add: is_partial_def Let_def)
  have "(word_of_int (?t + FLOAT_INT_BIAS) :: 64 word) < 2 ^ FLOAT_INT_BITS"
    using assms by (simp only: is_partial_def Let_def)
  then have "(?t + FLOAT_INT_BIAS) mod 2 ^ 64 < uint ((2 :: 64 word) ^ FLOAT_INT_BITS)"
    unfolding word_less_def uint_word_of_int by simp
  then have "(?t + 4096) mod 2 ^ 64 < 8192"
    by (simp add: FLOAT_INT_BIAS_def FLOAT_INT_BITS_def)
  then have "0 \<le> ?t + 4096 \<and> ?t + 4096 < 8192"
  proof (cases "0 \<le> ?t + 4096")
    case False
    then have "(?t + 4096) mod 2 ^ 64 = ?t + 4096 + 2 ^ 64"
      using r by (intro mod_pos_pos_trivial [THEN trans [OF mod_add_self2 [symmetric]]]) simp_all
    with \<open>(?t + 4096) mod 2 ^ 64 < 8192\<close> r show ?thesis by simp
  next
    case True
    then have "(?t + 4096) mod 2 ^ 64 = ?t + 4096"
      using r by (intro mod_pos_pos_trivial) simp_all
    with \<open>(?t + 4096) mod 2 ^ 64 < 8192\<close> True show ?thesis by simp
  qed
  then show "- 4096 \<le> ?t" "?t < 4096" by simp_all
qed

lemma f32_nonzero: "\<not> f32_eq f 0 \<Longrightarrow> \<not> f32_is_zero f"
proof
  have "f32_eq 0 0" "f32_eq 0x80000000 0" by code_simp+
  moreover assume "\<not> f32_eq f 0" "f32_is_zero f"
  ultimately show False by (auto simp: f32_is_zero_iff)
qed

lemma partial_whole: "is_partial f \<Longrightarrow> \<not> f32_eq f 0 \<Longrightarrow> f32_of_int (sint (f32_to_int32 f)) = f"
  using f32_eq_unique is_partial_range(1) f32_nonzero by blast

lemma biased_small:
  assumes "- 4096 \<le> sint (t :: u32)" "sint t < 4096"
  shows "take_bit 13 (t + bias) = t + bias"
proof -
  have "t + bias = word_of_int (sint t + 4096)"
    by (simp add: bias_def FLOAT_INT_BIAS_def FLOAT_INT_BITS_def)
  then have "uint (t + bias) = sint t + 4096"
    using assms by (simp only: uint_word_of_int) simp
  then have "uint (t + bias) < 2 ^ 13" using assms by simp
  then have "uint (take_bit 13 (t + bias)) = uint (t + bias)"
    by (simp add: unsigned_take_bit_eq take_bit_int_eq_self)
  then show ?thesis by (rule word_uint_eq_iff [THEN iffD2])
qed

text \<open>What the reader of a regular number of version 8 has.\<close>

definition sent_regular :: "int \<Rightarrow> byte list \<Rightarrow> byte list" where
  "sent_regular bits toF =
     (if bits = 0 then f32_mem (if f32_eq (mem_f32 toF) 0 then 0 else mem_f32 toF)
      else le_bytes (length toF) (take_bit (num_bits bits) (le_val toF)))"

definition regular_ok :: "int \<Rightarrow> nat \<Rightarrow> bool" where
  "regular_ok bits sz \<longleftrightarrow> sz \<le> 4 \<and> num_bits bits \<le> 8 * sz"

lemma no_value: "\<not> (\<exists>b\<in>set toF. b \<noteq> 0) \<Longrightarrow> toF = replicate (length toF) (0::byte)"
  by (metis replicate_length_same)

lemma le_val_zeros: "le_val (replicate n 0) = 0"
  by (induction n) simp_all

section \<open>Zig-zag numbers and packed floats\<close>

lemma bytes_bits_unshift:
  assumes "bs \<noteq> []"
  shows "bytes_bits (unshiftValue_mem bs) =
    map (\<lambda>b. b \<noteq> hd (bytes_bits bs)) (drop 1 (bytes_bits bs) @ [False])"
proof -
  obtain b cs where bs: "bs = b # cs" using assms by (cases bs) auto
  have n1: "1 \<le> 8 * length bs" using bs by simp
  have h: "last (rev bs) AND 1 \<noteq> 0 \<longleftrightarrow> hd (bytes_bits bs)"
    using bs low_byte_bit [of b] by (simp add: hd_append hd_conv_nth byte_bits_def)
  have r: "bytes_bits (rev (unshift_loop False (rev bs))) = drop 1 (bytes_bits bs) @ [False]"
    using unshift_loop_bits [of False "rev bs"] n1 by simp
  have n: "bytes_bits (map (\<lambda>v. NOT v) xs) = map Not (bytes_bits xs)" for xs :: "byte list"
    by (induction xs) (simp_all add: byte_bits_def bit_not_iff)
  show ?thesis
    using r n [of "rev (unshift_loop False (rev bs))"]
    by (simp add: unshiftValue_mem_def BigPointer_def Let_def h rev_map)
qed

lemma length_unshift_mem [simp]: "length (unshiftValue_mem bs) = length bs"
  by (simp add: unshiftValue_mem_def BigPointer_def Let_def)

definition unzig :: "u32 \<Rightarrow> u32" where
  "unzig v = (if bit v 0 then NOT (drop_bit 1 v) else drop_bit 1 v)"

lemma bytes_bits_word: "bytes_bits (le_bytes 4 (unat (v :: u32))) = map (bit v) [0..<32]"
  by (rule nth_equalityI) (simp_all add: nth_bytes_bits le_bytes_bit bit_unsigned_iff)

lemma unshift_mem_word: "unshiftValue_mem (le_bytes 4 (unat v)) = le_bytes 4 (unat (unzig v))"
proof -
  have l: "length (unshiftValue_mem (le_bytes 4 (unat v))) = length (le_bytes 4 (unat (unzig v)))" by simp
  have ne: "le_bytes 4 (unat v) \<noteq> []" by (metis length_le_bytes list.size(3) zero_neq_numeral)
  have b: "bit (unzig v) i = ((i < 31 \<and> bit v (Suc i)) \<noteq> bit v 0)" if "i < 32" for i
    using that bit_imp_le_length [of v "Suc i"]
    by (auto simp: unzig_def bit_not_iff bit_drop_bit_eq)
  have "bytes_bits (unshiftValue_mem (le_bytes 4 (unat v))) = bytes_bits (le_bytes 4 (unat (unzig v)))"
    unfolding bytes_bits_unshift [OF ne] bytes_bits_word
    by (rule nth_equalityI) (auto simp: nth_append b hd_conv_nth)
  then show ?thesis using bytes_bits_inject [OF l] by blast
qed

lemma zigzag:
  assumes "- 4096 \<le> sint (t :: u32)" "sint t < 4096"
  shows "take_bit 13 (shiftValue t) = shiftValue t" "unzig (shiftValue t) = t"
proof -
  define u where "u = (if 0 \<le> sint t then t else NOT t)"
  have z: "bit (shiftValue t) n \<longleftrightarrow> (n = 0 \<and> sint t < 0) \<or> (0 < n \<and> bit u (n - 1))" if "n < 32" for n
    using that by (auto simp: shiftValue_def u_def bit_or_iff bit_push_bit_iff bit_1_iff simp del: push_bit_Suc)
  have "drop_bit 12 (sint t) = (if 0 \<le> sint t then 0 else - 1)"
    using assms by (auto simp: drop_bit_eq_div)
  then have e12: "bit (sint t) (12 + k) \<longleftrightarrow> sint t < 0" for k
    using fun_cong [OF bit_drop_bit_eq [of 12 "sint t"], of k] by (simp split: if_splits)
  have "bit t n \<longleftrightarrow> sint t < 0" if "12 \<le> n" "n < 32" for n
    using that bit_sint_iff [of t n] e12 [of "n - 12"] by simp
  then have u: "\<not> bit u n" if "12 \<le> n" for n
    using that bit_imp_le_length [of u n] by (cases "n < 32") (auto simp: u_def bit_not_iff)
  have u13: "bit u (n - 1) \<Longrightarrow> n < 13" for n 
    using u [of "n - 1"] by (cases "12 \<le> n - 1") auto
  show "take_bit 13 (shiftValue t) = shiftValue t"
    by (rule bit_word_eqI) (auto simp: bit_take_bit_iff z dest: u13 [simplified])
  have "bit (unzig (shiftValue t)) n \<longleftrightarrow> bit t n" if n: "n < 32" for n
  proof -
    have "bit u n \<Longrightarrow> n < 12" using u [of n] by (cases "12 \<le> n") auto
    then have "bit (drop_bit 1 (shiftValue t)) n \<longleftrightarrow> bit u n"
      using n z [of "Suc n"] bit_imp_le_length [of "shiftValue t" "Suc n"]
      by (auto simp: bit_drop_bit_eq)
    then show ?thesis using n z [of 0] by (auto simp: unzig_def u_def bit_not_iff)
  qed
  then show "unzig (shiftValue t) = t" by (intro bit_word_eqI) simp
qed

lemma unpack_pack_type: "unpackType (packType v) = v"
proof -
  have or1: "x OR 1 = x + 1" if "\<not> bit x 0" for x :: u32
  proof -
    have "x AND 1 = 0" using that by (simp add: and_one_eq odd_iff_mod_2_eq_one bit_0)
    then show ?thesis using word_plus_and_or [of x 1] by simp
  qed
  let ?x = "push_bit 1 v - 0x7A000000"
  have even: "\<not> bit (push_bit 1 v) 0" "\<not> bit ?x 0" by (simp_all add: bit_0)
  have d: "bit (drop_bit 1 (push_bit 1 v)) n \<longleftrightarrow> n < 31 \<and> bit v n"
    "bit (drop_bit 1 (push_bit 1 v OR 1)) n \<longleftrightarrow> n < 31 \<and> bit v n" if "n < 32" for n
    using that by (auto simp: bit_drop_bit_eq bit_push_bit_iff bit_or_iff bit_1_iff simp del: push_bit_Suc)
  have m: "sint v < 0 \<longleftrightarrow> bit v 31" 
    using bit_last_iff [of v] by simp
  have top: "bit (0x80000000 :: u32) n \<longleftrightarrow> n = 31" if "n < 32" for n
    using bit_exp_iff [of 31 n, where 'a = "32 word"] that by (auto simp: possible_bit_def)
  show ?thesis
  proof (cases "sint v < 0")
    case True
    then have p: "packType v = ?x + 1" using or1 [OF even(2)] by (simp add: packType_def)
    moreover have "bit (?x + 1) 0" using even(2) by (simp add: bit_0)
    moreover have "?x + 1 + 0x7A000000 = push_bit 1 v OR 1" using or1 [OF even(1)] by simp
    ultimately have "unpackType (packType v) = drop_bit 1 (push_bit 1 v OR 1) OR 0x80000000"
      by (simp add: unpackType_def)
    also have "\<dots> = v"
    proof (rule bit_word_eqI)
      fix n assume "n < LENGTH(32)"
      then have n: "n < 32" by simp
      have "bit (drop_bit 1 (push_bit 1 v OR 1) OR 0x80000000) n \<longleftrightarrow> n < 31 \<and> bit v n \<or> n = 31"
        unfolding bit_or_iff [of "drop_bit 1 (push_bit 1 v OR 1)"] d(2) [OF n] top [OF n] ..
      then show "bit (drop_bit 1 (push_bit 1 v OR 1) OR 0x80000000) n \<longleftrightarrow> bit v n"
        using n True m by (cases "n = 31") auto
    qed
    finally show ?thesis .
  next
    case False
    then have "unpackType (packType v) = drop_bit 1 (push_bit 1 v)"
      using even(2) by (simp add: packType_def unpackType_def)
    also have "\<dots> = v"
    proof (rule bit_word_eqI)
      fix n assume "n < LENGTH(32)"
      then have n: "n < 32" by simp
      show "bit (drop_bit 1 (push_bit 1 v)) n \<longleftrightarrow> bit v n"
        unfolding d(1) [OF n] using n False m by (cases "n = 31") auto
    qed
    finally show ?thesis .
  qed
qed

section \<open>Regular members\<close>

lemma mem_f32_mem [simp]: "mem_f32 (f32_mem v) = v"
  by (simp add: mem_f32_def f32_mem_def)

lemma carries_zero:
  assumes "\<not> (\<exists>b\<in>set toF. b \<noteq> (0 :: byte))"
  shows "le_bytes (length toF) (take_bit n (le_val toF)) = replicate (length toF) 0"
proof -
  have "le_val toF = 0" using le_val_zeros no_value [OF assms] by metis
  then show ?thesis by (simp add: le_bytes_0)
qed

lemma carries_bool_bind:
  assumes "carries W (R b) y"
  shows "carries (\<lambda>m. rbind (WriteBool b m) W) (\<lambda>m. rbind (ReadBool m) (\<lambda>(x, m'). R x m')) y"
  by (rule carries_bind [where r' = R and w' = W, OF carries_bool assms])

lemma carries_if:
  "(c \<Longrightarrow> carries w r x) \<Longrightarrow> (\<not> c \<Longrightarrow> carries w' r' x) \<Longrightarrow>
   carries (\<lambda>m. if c then w m else w' m) (\<lambda>m. if c then r m else r' m) x"
  by (cases c) simp_all

lemma regular_carries:
  assumes "regular_ok bits (length toF)"
  shows "carries (WriteNumberEntityField bits toF) (ReadRegular bits (length toF)) (sent_regular bits toF)"
proof (cases "bits = 0")
  case True
  let ?f = "mem_f32 toF"
  note defs = WriteNumberEntityField_def [abs_def] ReadRegular_def [abs_def] sent_regular_def True Let_def
    FLOAT_INT_BITS_def if_True simp_thms
  show ?thesis
  proof (cases "f32_eq ?f 0")
    case zero: True
    show ?thesis unfolding defs
      by (rule carries_bool_bind) (simp add: zero carries_return)
  next
    case nonzero: False
    have "carries (WriteNumber (f32_to_int32 ?f + bias) 13) (\<lambda>m3. rbind (ReadNumber 13 m3)
        (\<lambda>(t, m4). Inr (f32_mem (f32_of_int (sint (t - bias))), m4))) (f32_mem ?f)" if p: "is_partial ?f"
    proof -
      have v: "f32_of_int (sint (take_bit 13 (f32_to_int32 ?f + bias) - bias)) = ?f"
        using is_partial_range [OF p] partial_whole [OF p nonzero] by (simp add: biased_small)
      show ?thesis
        using carries_map [OF carries_number [of 13 "f32_to_int32 ?f + bias"],
            of "\<lambda>t. f32_mem (f32_of_int (sint (t - bias)))"] by (simp add: v)
    qed
    moreover have "carries (WriteFloat ?f) (\<lambda>m3. rbind (ReadFloat m3) (\<lambda>(f, m4). Inr (f32_mem f, m4))) (f32_mem ?f)"
      by (rule carries_map [OF carries_float])
    ultimately show ?thesis unfolding defs
      by (intro carries_bool_bind) (simp add: nonzero, intro carries_bool_bind, simp, intro carries_if)
  qed
next
  case False
  have sz: "length toF \<le> 4" "num_bits bits \<le> 8 * length toF" using assms by (simp_all add: regular_ok_def)
  note defs = WriteNumberEntityField_def [abs_def] ReadRegular_def [abs_def] sent_regular_def Let_def
    if_not_P [OF False]
  show ?thesis
    unfolding defs
    by (rule carries_bool_bind, rule carries_if)
      (use sz carries_bits [OF sz(2)] carries_zero [of toF] in \<open>simp_all add: carries_return\<close>)
qed

text \<open>What the reader of a regular number of version 15 has.\<close>

definition sent_regular2 :: "int \<Rightarrow> byte list \<Rightarrow> byte list" where
  "sent_regular2 bits toF =
     (if bits = 0 then f32_mem (if f32_eq (mem_f32 toF) 0 then 0 else mem_f32 toF)
      else
        (let v = (if bits < 0 then shiftValue_mem toF else toF);
             r = (if \<exists>b\<in>set toF. b \<noteq> 0
                  then le_bytes (length toF) (take_bit (num_bits bits) (le_val v)) else replicate (length toF) 0)
         in if bits < 0 then unshiftValue_mem r else r))"

lemma length_shift_mem [simp]: "length (shiftValue_mem bs) = length bs"
  by (simp add: shiftValue_mem_def LittlePointer_def Let_def)

lemma regular2_carries:
  assumes "regular_ok bits (length toF)"
  shows "carries (WriteRegular2 bits toF) (ReadRegular2 bits (length toF)) (sent_regular2 bits toF)"
proof (cases "bits = 0")
  case True
  let ?f = "mem_f32 toF"
  note defs = WriteRegular2_def [abs_def] ReadRegular2_def [abs_def] sent_regular2_def True Let_def
    FLOAT_INT_BITS_def if_True simp_thms
  show ?thesis
  proof (cases "f32_eq ?f 0")
    case zero: True
    show ?thesis unfolding defs
      by (rule carries_bool_bind) (simp add: zero carries_return)
  next
    case nonzero: False
    let ?z = "shiftValue (f32_to_int32 ?f)"
    have "carries (WriteNumber ?z 13) (\<lambda>m3. rbind (ReadNumber 13 m3)
        (\<lambda>(t :: u32, m4). Inr (f32_mem (f32_of_int (sint (of_nat (le_val (unshiftValue_mem (le_bytes 4 (unat t)))) :: u32))), m4)))
        (f32_mem ?f)" if p: "is_partial ?f"
    proof -
      have v: "take_bit 13 ?z = ?z" "f32_of_int (sint (unzig ?z)) = ?f"
        using is_partial_range [OF p] partial_whole [OF p nonzero] by (simp_all add: zigzag)
      show ?thesis
        using carries_map [OF carries_number [of 13 ?z],
            of "\<lambda>t. f32_mem (f32_of_int (sint (of_nat (le_val (unshiftValue_mem (le_bytes 4 (unat t)))) :: u32)))"]
        by (simp add: v unshift_mem_word)
    qed
    moreover have "carries (WriteUInteger (packType ?f))
        (\<lambda>m3. rbind (ReadInteger m3) (\<lambda>(f, m4). Inr (f32_mem (unpackType f), m4))) (f32_mem ?f)"
      using carries_map [OF carries_integer [of "packType ?f"], of "\<lambda>f. f32_mem (unpackType f)"]
      by (simp add: unpack_pack_type)
    ultimately show ?thesis unfolding defs
      by (intro carries_bool_bind) (simp add: nonzero, intro carries_bool_bind, simp, intro carries_if)
  qed
next
  case False
  have sz: "length toF \<le> 4" "num_bits bits \<le> 8 * length toF" using assms by (simp_all add: regular_ok_def)
  let ?v = "if bits < 0 then shiftValue_mem toF else toF"
  let ?r = "if \<exists>b\<in>set toF. b \<noteq> 0
    then le_bytes (length toF) (take_bit (num_bits bits) (le_val ?v)) else replicate (length toF) 0"
  have "carries (msg_WriteBits (?v @ zs) bits) (msg_ReadBits (replicate (length toF) 0) bits)
      (le_bytes (length toF) (take_bit (num_bits bits) (le_val ?v)))" for zs
    using carries_bits [of bits "shiftValue_mem toF" zs] carries_bits [of bits toF zs] sz by simp
  then have c: "carries (\<lambda>m. if \<exists>b\<in>set toF. b \<noteq> 0 then msg_WriteBits (?v @ replicate (4 - length toF) 0) bits m else Inr m)
      (\<lambda>m. if \<exists>b\<in>set toF. b \<noteq> 0 then msg_ReadBits (replicate (length toF) 0) bits m else Inr (replicate (length toF) 0, m)) ?r"
    by (intro carries_if) (simp_all add: carries_return)
  show ?thesis
    unfolding WriteRegular2_def [abs_def] ReadRegular2_def [abs_def] sent_regular2_def Let_def if_not_P [OF False]
    by (rule carries_bool_bind)
      (use carries_map [OF c, of "\<lambda>r. if bits < 0 then unshiftValue_mem r else r"] sz in \<open>simp cong: if_cong\<close>)
qed

section \<open>Packed members\<close>

lemma take_bit_small: "uint (w :: u32) < 2 ^ n \<Longrightarrow> take_bit n w = w"
  by (rule word_uint_eq_iff [THEN iffD2]) (simp add: unsigned_take_bit_eq take_bit_int_eq_self)

lemma clamp_le:
  assumes "0 \<le> sint m"
  shows "uint (clamp v m) \<le> uint m"
proof -
  have u: "uint w = sint w" if "0 \<le> sint w" for w :: u32
    using that sint_less [of w] by (simp add: uint_sint [of w] take_bit_int_eq_self)
  show ?thesis using assms u [of v] u [of m] by (auto simp: clamp_def)
qed

lemma clamp_fits:
  "take_bit 8 (clamp v (max_number 8)) = clamp v (max_number 8)"
  "take_bit 10 (clamp v (max_number 10)) = clamp v (max_number 10)"
  "take_bit 15 (clamp v (max_number 15)) = clamp v (max_number 15)"
proof -
  have m: "max_number 8 = 255" "max_number 10 = 1023" "max_number 15 = 32767" by code_simp+
  show "take_bit 8 (clamp v (max_number 8)) = clamp v (max_number 8)"
    using clamp_le [of 255 v] by (intro take_bit_small) (simp add: m)
  show "take_bit 10 (clamp v (max_number 10)) = clamp v (max_number 10)"
    using clamp_le [of 1023 v] by (intro take_bit_small) (simp add: m)
  show "take_bit 15 (clamp v (max_number 15)) = clamp v (max_number 15)"
    using clamp_le [of 32767 v] by (intro take_bit_small) (simp add: m)
qed

lemma carries_packed:
  assumes "n \<le> 32" "take_bit n w = (w :: u32)"
  shows "carries (WriteNumber w n) (\<lambda>m. rbind (ReadNumber n m) (\<lambda>(v, m'). Inr (f v, m'))) (f w)"
  using carries_map [OF carries_number [of n w], of f] assms by simp

lemma carries_packed_byte:
  assumes "take_bit 8 w = (w :: u32)"
  shows "carries (WriteNumber w 8) (\<lambda>m. rbind (ReadByte m) (\<lambda>(v, m'). Inr (f (ucast v), m'))) (f w)"
proof -
  have "num_code 4 8 (unat w) = huff_code (ucast w)"
  proof -
    have u: "of_nat (unat w) = (ucast w :: byte)" by (rule of_nat_unat)
    have "le_bytes (Suc 3) (unat w) = [ucast w] @ le_bytes 3 (unat w div 256)"
      unfolding le_bytes.simps u by simp
    then have "num_code 4 8 (unat w) = enc_bits ([ucast w] @ le_bytes 3 (unat w div 256)) 8"
      by (simp add: num_code_def del: le_bytes.simps)
    also have "\<dots> = enc_bits [ucast w] 8" by (rule enc_bits_prefix) simp
    also have "\<dots> = huff_code (ucast w)"
      using num_code_byte [of "ucast w"] by (simp add: num_code_def)
    finally show ?thesis .
  qed
  moreover have "ucast (ucast w :: byte) = w" using assms by (simp add: unsigned_ucast_eq)
  ultimately show ?thesis
    using WriteNumber_puts [of 8 w] gets_map [OF ReadByte_gets [of "ucast w"], where h = "\<lambda>v. f (ucast v)"]
    by (auto simp: carries_def)
qed

lemma and_masks:
  "x AND 4095 = take_bit 12 (x :: u32)" "x AND 65535 = take_bit 16 (x :: u32)"
  "x AND 262143 = take_bit 18 (x :: u32)"
  by (simp_all add: take_bit_eq_mask mask_eq_exp_minus_1)

text \<open>An angle fits in its bits.\<close>

lemma angle_fits: "take_bit 12 (PackAngle v 12) = PackAngle v 12" "take_bit 13 (PackAngle v (- 13)) = PackAngle v (- 13)"
  by (simp_all add: PackAngle_def angle_mask_def and_masks Let_def min_def)

lemma coord_carries: "carries (WriteCoord v) ReadCoord (coord_value (coord_number v))"
proof -
  have "take_bit 19 (coord_number v) = coord_number v"
    by (simp add: coord_number_def and_masks Let_def take_bit_or min_def)
  from carries_packed [OF _ this] show ?thesis
    unfolding WriteCoord_def [abs_def] ReadCoord_def [abs_def] by simp
qed

lemma coord_small_carries: "carries (WriteCoordSmall v) ReadCoordSmall (coord_small_value (coord_small_number v))"
proof -
  have "take_bit 17 (coord_small_number v) = coord_small_number v"
    by (simp add: coord_small_number_def and_masks Let_def take_bit_or min_def)
  from carries_packed [OF _ this] show ?thesis
    unfolding WriteCoordSmall_def [abs_def] ReadCoordSmall_def [abs_def] by simp
qed

text \<open>A small difference other than zero survives; a large one is cut to the width of the field.\<close>

definition delta_small :: "u32 \<Rightarrow> u32 \<Rightarrow> bool" where
  "delta_small from to \<longleftrightarrow> \<not> (if sint (to - from) < 0 then - (to - from) else to - from) > 128"

lemma delta_ints:
  assumes "delta_small from to" "from \<noteq> to"
  shows "\<exists>k. 1 \<le> k \<and> k \<le> 128 \<and> to - from = (if sint (to - from) < 0 then - word_of_int k else word_of_int k) \<and>
    delta_number (to - from) = word_of_int (if sint (to - from) < 0 then 2 * k - 1 else 2 * k - 2)"
proof -
  define d where "d = to - from"
  define a where "a = (if sint d < 0 then - d else d)"
  have a: "a \<le> 128" using assms(1) by (simp only: delta_small_def a_def d_def not_less not_not)
  have "d \<noteq> 0" using assms(2) by (simp add: d_def)
  then have "a \<noteq> 0" by (simp add: a_def)
  then have k: "1 \<le> uint a" "uint a \<le> 128"
  proof -
    have "uint a \<noteq> 0" using \<open>a \<noteq> 0\<close> word_uint_eq_iff [of a 0] by simp
    then show "1 \<le> uint a" using uint_ge_0 [of a] by linarith
    show "uint a \<le> 128" using a by (simp add: word_le_def)
  qed
  have "word_of_int (uint a) = a" by simp
  then have "d = (if sint d < 0 then - word_of_int (uint a) else word_of_int (uint a))"
    by (simp add: a_def)
  moreover have "delta_number d = word_of_int (if sint d < 0 then 2 * uint a - 1 else 2 * uint a - 2)"
    by (simp add: delta_number_def a_def Let_def)
  ultimately show ?thesis using k unfolding d_def by blast
qed

lemma small_delta_number:
  assumes "delta_small from to" "from \<noteq> to"
  shows "small_delta from (delta_number (to - from)) = to" "uint (delta_number (to - from)) < 256"
proof -
  let ?neg = "sint (to - from) < 0"
  obtain k where k: "1 \<le> k" "k \<le> 128"
    "to - from = (if ?neg then - word_of_int k else word_of_int k)"
    "delta_number (to - from) = word_of_int (if ?neg then 2 * k - 1 else 2 * k - 2)"
    using delta_ints [OF assms] by auto
  define n where "n = (if ?neg then 2 * k - 1 else 2 * k - 2)"
  have n: "0 \<le> n" "n < 256" "n div 2 = k - 1" "odd n \<longleftrightarrow> ?neg" using k(1,2) by (auto simp: n_def)
  define v :: u32 where "v = word_of_int n"
  have u: "uint v = n" using n(1,2) by (simp add: v_def uint_word_of_int)
  have "uint (drop_bit 1 v) = k - 1" 
    unfolding unsigned_drop_bit_eq u using n(1-3) by (simp add: take_bit_int_eq_self drop_bit_eq_div)
  then have d: "drop_bit 1 v = word_of_int (k - 1)" by (metis word_of_int_uint)
  have b: "bit v 0 \<longleftrightarrow> ?neg" using n(4) u bit_uint_iff [of v 0] by (simp add: bit_0)
  have "small_delta from v = (if ?neg then - word_of_int k else word_of_int k) + from"
    unfolding small_delta_def Let_def d b by simp
  also have "\<dots> = (to - from) + from" by (simp only: k(3) [symmetric])
  finally have "small_delta from v = to" by simp
  moreover have v: "delta_number (to - from) = v" using k(4) by (simp add: v_def n_def)
  ultimately show "small_delta from (delta_number (to - from)) = to" by simp
  show "uint (delta_number (to - from)) < 256" using u n(2) v by simp
qed

lemma ucast_ucast_small: "uint (w :: u32) < 256 \<Longrightarrow> ucast (ucast w :: byte) = w"
  using take_bit_small [of w 8] by (simp add: unsigned_ucast_eq)

lemma delta_coord_carries:
  assumes "from \<noteq> to" "take_bit 16 to = to"
  shows "carries (WriteDeltaCoord from to) (ReadDeltaCoord from) to"
proof -
  let ?n = "ucast (delta_number (to - from)) :: byte"
  have w: "WriteDeltaCoord from to =
      (if delta_small from to then (\<lambda>m. rbind (WriteBool True m) (WriteNumber ?n 8))
       else (\<lambda>m. rbind (WriteBool False m) (WriteNumber (ucast to :: u16) 16)))"
    by (auto simp: fun_eq_iff WriteDeltaCoord_def delta_small_def Let_def)
  have small: "carries (WriteNumber ?n 8) (\<lambda>m1. rbind (ReadNumber 8 m1) (\<lambda>(v :: byte, m2). Inr (small_delta from (ucast v), m2))) to"
    if "delta_small from to"
  proof -
    have "small_delta from (ucast (take_bit 8 ?n)) = to"
      using small_delta_number [OF that assms(1)] by (simp add: ucast_ucast_small take_bit_word_eq_self)
    then show ?thesis using carries_map [OF carries_number [of 8 ?n], of "\<lambda>v. small_delta from (ucast v)"] by simp
  qed
  have "ucast (take_bit 16 (ucast to :: u16)) = to"
    using assms(2) by (simp add: take_bit_word_eq_self unsigned_ucast_eq)
  then have large: "carries (WriteNumber (ucast to :: u16) 16) (\<lambda>m1. rbind (ReadNumber 16 m1) (\<lambda>(v :: u16, m2). Inr (ucast v, m2))) to"
    using carries_map [OF carries_number [of 16 "ucast to :: u16"], of "ucast :: u16 \<Rightarrow> u32"] by simp
  show ?thesis
    unfolding w ReadDeltaCoord_def [abs_def]
    by (cases "delta_small from to")
      (simp_all only: if_True if_False simp_thms small large carries_bool_bind)
qed

lemma delta_coord_extra_carries:
  assumes "from \<noteq> to"
  shows "carries (WriteDeltaCoordExtra from to) (ReadDeltaCoordExtra from)
    (if delta_small from to then to else take_bit 18 to)"
proof -
  let ?n = "ucast (delta_number (to - from)) :: u16"
  have w: "WriteDeltaCoordExtra from to =
      (if delta_small from to then (\<lambda>m. rbind (WriteBool True m) (WriteNumber ?n 10))
       else (\<lambda>m. rbind (WriteBool False m) (WriteNumber to 18)))"
    by (auto simp: fun_eq_iff WriteDeltaCoordExtra_def delta_small_def Let_def)
  have small: "carries (WriteNumber ?n 10) (\<lambda>m1. rbind (ReadNumber 10 m1) (\<lambda>(v :: u16, m2). Inr (small_delta from (ucast v), m2))) to"
    if "delta_small from to"
  proof -
    let ?d = "delta_number (to - from)"
    have t: "take_bit 10 ?d = ?d" "take_bit 16 ?d = ?d"
      using small_delta_number(2) [OF that assms] by (auto intro!: take_bit_small)
    then have "ucast (take_bit 10 ?n) = ?d"
      by (simp flip: unsigned_take_bit_eq add: unsigned_ucast_eq)
    then have "small_delta from (ucast (take_bit 10 ?n)) = to"
      using small_delta_number(1) [OF that assms] by simp
    then show ?thesis using carries_map [OF carries_number [of 10 ?n], of "\<lambda>v. small_delta from (ucast v)"] by simp
  qed
  have large: "carries (WriteNumber to 18) (ReadNumber 18) (take_bit 18 to)"
    using carries_number [of 18 to] by simp
  show ?thesis
    unfolding w ReadDeltaCoordExtra_def [abs_def]
    by (cases "delta_small from to")
      (simp_all only: if_True if_False simp_thms small large carries_bool_bind)
qed

end
