(* ===== verification/EntityDelta.thy ===== *)
theory EntityDelta
  imports EntityField
begin

text \<open>
  Entity states and their delta serialisation (\<open>Types/Entity.h\<close>, \<open>Types/Entity.cpp\<close>,
  \<open>Serializable/Entity.cpp\<close>, \<open>Parsing/Entity.cpp\<close>): the state, the tables of its network fields for
  the two versions, \<open>SaveDelta\<close> and \<open>LoadDelta\<close>, the numbers of entities, and the parsers by
  protocol. The members of an entity are a memory from designators to bytes; both versions share the
  loops over a table, which take the functions for one member as arguments.
\<close>

section \<open>The state of an entity\<close>

definition GENTITYNUM_BITS :: nat where "GENTITYNUM_BITS = 10"
definition MAX_GENTITIES :: nat where "MAX_GENTITIES = 2 ^ GENTITYNUM_BITS"
definition ENTITYNUM_NONE :: nat where "ENTITYNUM_NONE = MAX_GENTITIES - 1"

datatype entity_member =
    es_trDelta nat | es_trTime | es_netorigin nat | es_origin2 nat | es_netangles nat
  | es_attach_offset nat | es_eyeVector nat | es_bone_angles nat nat | es_bone_quat nat nat
  | es_constantLight | es_loopSound | es_solid | es_renderfx
  | es_loopSoundVolume | es_loopSoundMinDist | es_loopSoundMaxDist | es_loopSoundPitch
  | es_actionWeight | es_scale | es_alpha | es_shader_data nat | es_shader_time
  | es_frame_index nat | es_frame_time nat | es_frame_weight nat
  | es_eFlags | es_parent | es_tag_num | es_beam_entnum | es_modelindex | es_usageIndex
  | es_skinNum | es_wasframe | es_groundEntityNum
  | es_eType | es_loopSoundFlags | es_clientNum | es_bone_tag nat | es_surfaces nat
  | es_attach_use_angles

text \<open>\<open>sizeof(entityState_t::x)\<close>.\<close>

fun member_size :: "entity_member \<Rightarrow> nat" where
  "member_size es_eFlags = 2"
| "member_size es_parent = 2"
| "member_size es_tag_num = 2"
| "member_size es_beam_entnum = 2"
| "member_size es_modelindex = 2"
| "member_size es_usageIndex = 2"
| "member_size es_skinNum = 2"
| "member_size es_wasframe = 2"
| "member_size es_groundEntityNum = 2"
| "member_size es_eType = 1"
| "member_size es_loopSoundFlags = 1"
| "member_size es_clientNum = 1"
| "member_size (es_bone_tag _) = 1"
| "member_size (es_surfaces _) = 1"
| "member_size es_attach_use_angles = 1"
| "member_size _ = 4"

record entityState_t =
  es_number :: u16
  es_mem :: "entity_member \<Rightarrow> byte list"

text \<open>The constructor; a member that is not listed is zero.\<close>

fun initial_member :: "entity_member \<Rightarrow> byte list" where
  "initial_member es_constantLight = [255, 255, 255, 255]"
| "initial_member es_parent = le_bytes 2 ENTITYNUM_NONE"
| "initial_member es_tag_num = [255, 255]"
| "initial_member es_scale = f32_mem 0x3F800000"
| "initial_member es_alpha = f32_mem 0x3F800000"
| "initial_member es_renderfx = le_bytes 4 16"
| "initial_member (es_bone_tag _) = [255]"
| "initial_member m = replicate (member_size m) 0"

definition entityState_new :: entityState_t where
  "entityState_new = \<lparr>es_number = 0, es_mem = initial_member\<rparr>"

definition getNullEntityState :: entityState_t where
  "getNullEntityState =
     entityState_new\<lparr>es_mem := (es_mem entityState_new)
       (es_alpha := f32_mem 0x3F800000, es_scale := f32_mem 0x3F800000,
        es_parent := le_bytes 2 ENTITYNUM_NONE, es_tag_num := [255, 255],
        es_constantLight := [255, 255, 255, 255], es_renderfx := le_bytes 4 16,
        es_bone_tag 4 := [255], es_bone_tag 3 := [255], es_bone_tag 2 := [255],
        es_bone_tag 1 := [255], es_bone_tag 0 := [255])\<rparr>"

definition getConstantLight :: "entityState_t \<Rightarrow> byte \<times> byte \<times> byte \<times> byte" where
  "getConstantLight es =
     (let constantLight = mem_f32 (es_mem es es_constantLight)
      in (ucast (constantLight AND 0xFF), ucast (drop_bit 8 constantLight AND 0xFF),
          ucast (drop_bit 16 constantLight AND 0xFF), ucast (drop_bit 24 constantLight AND 0xFF)))"

section \<open>The tables\<close>

definition NETF :: "entity_member \<Rightarrow> int \<Rightarrow> 'ty \<Rightarrow> (entity_member, 'ty) netField" where
  "NETF m bits ty = \<lparr>nf_member = m, nf_size = member_size m, nf_bits = bits, nf_type = ty\<rparr>"

definition entityStateFields :: "(entity_member, fieldType_ver6_e) netField list" where
  "entityStateFields = [
    NETF (es_netorigin 0) 0 coord6, NETF (es_netorigin 1) 0 coord6, NETF (es_netangles 1) 12 angle6,
    NETF (es_frame_time 0) 15 animTime6, NETF (es_frame_time 1) 15 animTime6,
    NETF (es_bone_angles 0 0) (- 13) angle6, NETF (es_bone_angles 3 0) (- 13) angle6,
    NETF (es_bone_angles 1 0) (- 13) angle6, NETF (es_bone_angles 2 0) (- 13) angle6,
    NETF (es_netorigin 2) 0 coord6, NETF (es_frame_weight 0) 8 animWeight6,
    NETF (es_frame_weight 1) 8 animWeight6, NETF (es_frame_time 2) 15 animTime6,
    NETF (es_frame_time 3) 15 animTime6, NETF (es_frame_index 0) 12 regular6,
    NETF (es_frame_index 1) 12 regular6, NETF es_actionWeight 8 animWeight6,
    NETF (es_frame_weight 2) 8 animWeight6, NETF (es_frame_weight 3) 8 animWeight6,
    NETF (es_frame_index 2) 12 regular6, NETF (es_frame_index 3) 12 regular6,
    NETF es_eType 8 regular6, NETF es_modelindex 16 regular6, NETF es_parent 16 regular6,
    NETF es_constantLight 32 regular6, NETF es_renderfx 32 regular6,
    NETF (es_bone_tag 0) (- 8) regular6, NETF (es_bone_tag 1) (- 8) regular6,
    NETF (es_bone_tag 2) (- 8) regular6, NETF (es_bone_tag 3) (- 8) regular6,
    NETF (es_bone_tag 4) (- 8) regular6, NETF es_scale 10 scale6, NETF es_alpha 8 alpha6,
    NETF es_usageIndex 16 regular6, NETF es_eFlags 16 regular6, NETF es_solid 32 regular6,
    NETF (es_netangles 2) 12 angle6, NETF (es_netangles 0) 12 angle6, NETF es_tag_num 10 regular6,
    NETF (es_bone_angles 1 2) (- 13) angle6, NETF es_attach_use_angles 1 regular6,
    NETF (es_origin2 1) 0 coord6, NETF (es_origin2 0) 0 coord6, NETF (es_origin2 2) 0 coord6,
    NETF (es_bone_angles 0 2) (- 13) angle6, NETF (es_bone_angles 2 2) (- 13) angle6,
    NETF (es_bone_angles 3 2) (- 13) angle6, NETF (es_surfaces 0) 8 regular6,
    NETF (es_surfaces 1) 8 regular6, NETF (es_surfaces 2) 8 regular6,
    NETF (es_surfaces 3) 8 regular6, NETF (es_bone_angles 0 1) (- 13) angle6,
    NETF (es_surfaces 4) 8 regular6, NETF (es_surfaces 5) 8 regular6, NETF es_trTime 32 regular6,
    NETF (es_trDelta 0) 0 velocity6, NETF (es_trDelta 1) 0 velocity6,
    NETF (es_trDelta 2) 0 velocity6, NETF es_loopSound 16 regular6,
    NETF es_loopSoundVolume 0 regular6, NETF es_loopSoundMinDist 0 regular6,
    NETF es_loopSoundMaxDist 0 regular6, NETF es_loopSoundPitch 0 regular6,
    NETF es_loopSoundFlags 8 regular6, NETF (es_attach_offset 0) 0 regular6,
    NETF (es_attach_offset 1) 0 regular6, NETF (es_attach_offset 2) 0 regular6,
    NETF es_beam_entnum 16 regular6, NETF es_skinNum 16 regular6, NETF es_wasframe 10 regular6,
    NETF (es_frame_index 4) 12 regular6, NETF (es_frame_index 5) 12 regular6,
    NETF (es_frame_index 6) 12 regular6, NETF (es_frame_index 7) 12 regular6,
    NETF (es_frame_index 8) 12 regular6, NETF (es_frame_index 9) 12 regular6,
    NETF (es_frame_index 10) 12 regular6, NETF (es_frame_index 11) 12 regular6,
    NETF (es_frame_index 12) 12 regular6, NETF (es_frame_index 13) 12 regular6,
    NETF (es_frame_index 14) 12 regular6, NETF (es_frame_index 15) 12 regular6,
    NETF (es_frame_time 4) 15 animTime6, NETF (es_frame_time 5) 15 animTime6,
    NETF (es_frame_time 6) 15 animTime6, NETF (es_frame_time 7) 15 animTime6,
    NETF (es_frame_time 8) 15 animTime6, NETF (es_frame_time 9) 15 animTime6,
    NETF (es_frame_time 10) 15 animTime6, NETF (es_frame_time 11) 15 animTime6,
    NETF (es_frame_time 12) 15 animTime6, NETF (es_frame_time 13) 15 animTime6,
    NETF (es_frame_time 14) 15 animTime6, NETF (es_frame_time 15) 15 animTime6,
    NETF (es_frame_weight 4) 8 animWeight6, NETF (es_frame_weight 5) 8 animWeight6,
    NETF (es_frame_weight 6) 8 animWeight6, NETF (es_frame_weight 7) 8 animWeight6,
    NETF (es_frame_weight 8) 8 animWeight6, NETF (es_frame_weight 9) 8 animWeight6,
    NETF (es_frame_weight 10) 8 animWeight6, NETF (es_frame_weight 11) 8 animWeight6,
    NETF (es_frame_weight 12) 8 animWeight6, NETF (es_frame_weight 13) 8 animWeight6,
    NETF (es_frame_weight 14) 8 animWeight6, NETF (es_frame_weight 15) 8 animWeight6,
    NETF (es_bone_angles 1 1) (- 13) angle6, NETF (es_bone_angles 2 1) (- 13) angle6,
    NETF (es_bone_angles 3 1) (- 13) angle6, NETF (es_bone_angles 4 0) (- 13) angle6,
    NETF (es_bone_angles 4 1) (- 13) angle6, NETF (es_bone_angles 4 2) (- 13) angle6,
    NETF es_clientNum 8 regular6, NETF es_groundEntityNum 10 regular6,
    NETF (es_shader_data 0) 0 regular6, NETF (es_shader_data 1) 0 regular6,
    NETF es_shader_time 0 regular6, NETF (es_eyeVector 0) 0 regular6,
    NETF (es_eyeVector 1) 0 regular6, NETF (es_eyeVector 2) 0 regular6,
    NETF (es_surfaces 6) 8 regular6, NETF (es_surfaces 7) 8 regular6,
    NETF (es_surfaces 8) 8 regular6, NETF (es_surfaces 9) 8 regular6,
    NETF (es_surfaces 10) 8 regular6, NETF (es_surfaces 11) 8 regular6,
    NETF (es_surfaces 12) 8 regular6, NETF (es_surfaces 13) 8 regular6,
    NETF (es_surfaces 14) 8 regular6, NETF (es_surfaces 15) 8 regular6,
    NETF (es_surfaces 16) 8 regular6, NETF (es_surfaces 17) 8 regular6,
    NETF (es_surfaces 18) 8 regular6, NETF (es_surfaces 19) 8 regular6,
    NETF (es_surfaces 20) 8 regular6, NETF (es_surfaces 21) 8 regular6,
    NETF (es_surfaces 22) 8 regular6, NETF (es_surfaces 23) 8 regular6,
    NETF (es_surfaces 24) 8 regular6, NETF (es_surfaces 25) 8 regular6,
    NETF (es_surfaces 26) 8 regular6, NETF (es_surfaces 27) 8 regular6,
    NETF (es_surfaces 28) 8 regular6, NETF (es_surfaces 29) 8 regular6,
    NETF (es_surfaces 30) 8 regular6, NETF (es_surfaces 31) 8 regular6]"

definition entityStateFields_ver15 :: "(entity_member, fieldType_ver15_e) netField list" where
  "entityStateFields_ver15 = [
    NETF (es_netorigin 0) 0 coord15, NETF (es_netorigin 1) 0 coord15,
    NETF (es_netangles 1) 12 angle15, NETF (es_frame_time 0) 15 animTime15,
    NETF (es_frame_time 1) 15 animTime15, NETF (es_bone_angles 0 0) (- 13) angle15,
    NETF (es_bone_angles 3 0) (- 13) angle15, NETF (es_bone_angles 1 0) (- 13) angle15,
    NETF (es_bone_angles 2 0) (- 13) angle15, NETF (es_netorigin 2) 0 coord15,
    NETF (es_frame_weight 0) 8 animWeight15, NETF (es_frame_weight 1) 8 animWeight15,
    NETF (es_frame_time 2) 15 animTime15, NETF (es_frame_time 3) 15 animTime15,
    NETF (es_frame_index 0) 12 regular15, NETF (es_frame_index 1) 12 regular15,
    NETF es_actionWeight 8 animWeight15, NETF (es_frame_weight 2) 8 animWeight15,
    NETF (es_frame_weight 3) 8 animWeight15, NETF (es_frame_index 2) 12 regular15,
    NETF (es_frame_index 3) 12 regular15, NETF es_eType 8 regular15,
    NETF es_modelindex 16 regular15, NETF es_parent 16 regular15,
    NETF es_constantLight 32 regular15, NETF es_renderfx 32 regular15,
    NETF (es_bone_tag 0) (- 8) regular15, NETF (es_bone_tag 1) (- 8) regular15,
    NETF (es_bone_tag 2) (- 8) regular15, NETF (es_bone_tag 3) (- 8) regular15,
    NETF (es_bone_tag 4) (- 8) regular15, NETF es_scale 10 scale15, NETF es_alpha 8 alpha15,
    NETF es_usageIndex 16 regular15, NETF es_eFlags 16 regular15, NETF es_solid 32 regular15,
    NETF (es_netangles 2) 12 angle15, NETF (es_netangles 0) 12 angle15,
    NETF es_tag_num 10 regular15, NETF (es_bone_angles 1 2) (- 13) angle15,
    NETF es_attach_use_angles 1 regular15, NETF (es_origin2 1) 0 coord15,
    NETF (es_origin2 0) 0 coord15, NETF (es_origin2 2) 0 coord15,
    NETF (es_bone_angles 0 2) (- 13) angle15, NETF (es_bone_angles 2 2) (- 13) angle15,
    NETF (es_bone_angles 3 2) (- 13) angle15, NETF (es_surfaces 0) 8 regular15,
    NETF (es_surfaces 1) 8 regular15, NETF (es_surfaces 2) 8 regular15,
    NETF (es_surfaces 3) 8 regular15, NETF (es_bone_angles 0 1) (- 13) angle15,
    NETF (es_surfaces 4) 8 regular15, NETF (es_surfaces 5) 8 regular15, NETF es_trTime 32 regular15,
    NETF (es_trDelta 0) 0 velocity15, NETF (es_trDelta 1) 0 velocity15,
    NETF (es_trDelta 2) 0 velocity15, NETF es_loopSound 16 regular15,
    NETF es_loopSoundVolume 0 regular15, NETF es_loopSoundMinDist 0 regular15,
    NETF es_loopSoundMaxDist 0 regular15, NETF es_loopSoundPitch 0 regular15,
    NETF es_loopSoundFlags 8 regular15, NETF (es_attach_offset 0) 0 regular15,
    NETF (es_attach_offset 1) 0 regular15, NETF (es_attach_offset 2) 0 regular15,
    NETF es_beam_entnum 16 regular15, NETF es_skinNum 16 regular15, NETF es_wasframe 10 regular15,
    NETF (es_frame_index 4) 12 regular15, NETF (es_frame_index 5) 12 regular15,
    NETF (es_frame_index 6) 12 regular15, NETF (es_frame_index 7) 12 regular15,
    NETF (es_frame_index 8) 12 regular15, NETF (es_frame_index 9) 12 regular15,
    NETF (es_frame_index 10) 12 regular15, NETF (es_frame_index 11) 12 regular15,
    NETF (es_frame_index 12) 12 regular15, NETF (es_frame_index 13) 12 regular15,
    NETF (es_frame_index 14) 12 regular15, NETF (es_frame_index 15) 12 regular15,
    NETF (es_frame_time 4) 15 animTime15, NETF (es_frame_time 5) 15 animTime15,
    NETF (es_frame_time 6) 15 animTime15, NETF (es_frame_time 7) 15 animTime15,
    NETF (es_frame_time 8) 15 animTime15, NETF (es_frame_time 9) 15 animTime15,
    NETF (es_frame_time 10) 15 animTime15, NETF (es_frame_time 11) 15 animTime15,
    NETF (es_frame_time 12) 15 animTime15, NETF (es_frame_time 13) 15 animTime15,
    NETF (es_frame_time 14) 15 animTime15, NETF (es_frame_time 15) 15 animTime15,
    NETF (es_frame_weight 4) 8 animWeight15, NETF (es_frame_weight 5) 8 animWeight15,
    NETF (es_frame_weight 6) 8 animWeight15, NETF (es_frame_weight 7) 8 animWeight15,
    NETF (es_frame_weight 8) 8 animWeight15, NETF (es_frame_weight 9) 8 animWeight15,
    NETF (es_frame_weight 10) 8 animWeight15, NETF (es_frame_weight 11) 8 animWeight15,
    NETF (es_frame_weight 12) 8 animWeight15, NETF (es_frame_weight 13) 8 animWeight15,
    NETF (es_frame_weight 14) 8 animWeight15, NETF (es_frame_weight 15) 8 animWeight15,
    NETF (es_bone_angles 1 1) (- 13) angle15, NETF (es_bone_angles 2 1) (- 13) angle15,
    NETF (es_bone_angles 3 1) (- 13) angle15, NETF (es_bone_angles 4 0) (- 13) angle15,
    NETF (es_bone_angles 4 1) (- 13) angle15, NETF (es_bone_angles 4 2) (- 13) angle15,
    NETF es_clientNum 8 regular15, NETF es_groundEntityNum 10 regular15,
    NETF (es_shader_data 0) 0 regular15, NETF (es_shader_data 1) 0 regular15,
    NETF es_shader_time 0 regular15, NETF (es_eyeVector 0) 0 regular15,
    NETF (es_eyeVector 1) 0 regular15, NETF (es_eyeVector 2) 0 regular15,
    NETF (es_surfaces 6) 8 regular15, NETF (es_surfaces 7) 8 regular15,
    NETF (es_surfaces 8) 8 regular15, NETF (es_surfaces 9) 8 regular15,
    NETF (es_surfaces 10) 8 regular15, NETF (es_surfaces 11) 8 regular15,
    NETF (es_surfaces 12) 8 regular15, NETF (es_surfaces 13) 8 regular15,
    NETF (es_surfaces 14) 8 regular15, NETF (es_surfaces 15) 8 regular15,
    NETF (es_surfaces 16) 8 regular15, NETF (es_surfaces 17) 8 regular15,
    NETF (es_surfaces 18) 8 regular15, NETF (es_surfaces 19) 8 regular15,
    NETF (es_surfaces 20) 8 regular15, NETF (es_surfaces 21) 8 regular15,
    NETF (es_surfaces 22) 8 regular15, NETF (es_surfaces 23) 8 regular15,
    NETF (es_surfaces 24) 8 regular15, NETF (es_surfaces 25) 8 regular15,
    NETF (es_surfaces 26) 8 regular15, NETF (es_surfaces 27) 8 regular15,
    NETF (es_surfaces 28) 8 regular15, NETF (es_surfaces 29) 8 regular15,
    NETF (es_surfaces 30) 8 regular15, NETF (es_surfaces 31) 8 regular15]"

section \<open>The fields of a table\<close>

text \<open>The number of fields up to the last one that has changed.\<close>

fun last_change :: "nat \<Rightarrow> nat \<Rightarrow> bool list \<Rightarrow> nat" where
  "last_change i lc [] = lc"
| "last_change i lc (b # bs) = last_change (i + 1) (if b then i + 1 else lc) bs"

fun write_fields ::
  "(byte list \<Rightarrow> byte list \<Rightarrow> ('m, 'ty) netField \<Rightarrow> msg \<Rightarrow> msg_error + msg) \<Rightarrow>
   ('m \<Rightarrow> byte list) \<Rightarrow> ('m \<Rightarrow> byte list) \<Rightarrow> (('m, 'ty) netField \<times> bool) list \<Rightarrow> msg \<Rightarrow> msg_error + msg" where
  "write_fields wr from to [] m = Inr m"
| "write_fields wr from to ((field, isDiff) # fs) m =
     rbind (WriteBool isDiff m) (\<lambda>m1.
     rbind (if isDiff then wr (from (nf_member field)) (to (nf_member field)) field m1 else Inr m1)
       (write_fields wr from to fs))"

fun read_fields ::
  "(byte list \<Rightarrow> byte list \<Rightarrow> ('m, 'ty) netField \<Rightarrow> msg \<Rightarrow> msg_error + byte list \<times> msg) \<Rightarrow>
   ('m \<Rightarrow> byte list) \<Rightarrow> ('m, 'ty) netField list \<Rightarrow> ('m \<Rightarrow> byte list) \<Rightarrow> msg \<Rightarrow>
   msg_error + ('m \<Rightarrow> byte list) \<times> msg" where
  "read_fields rd from [] to m = Inr (to, m)"
| "read_fields rd from (field # fs) to m =
     rbind (ReadBool m) (\<lambda>(isDiff, m1).
     rbind (if isDiff then rd (from (nf_member field)) (to (nf_member field)) field m1
            else Inr (from (nf_member field), m1)) (\<lambda>(v, m2).
       read_fields rd from fs (to(nf_member field := v)) m2))"

fun CopyFields ::
  "('m \<Rightarrow> byte list) \<Rightarrow> ('m \<Rightarrow> byte list) \<Rightarrow> ('m, 'ty) netField list \<Rightarrow> 'm \<Rightarrow> byte list" where
  "CopyFields other target [] = target"
| "CopyFields other target (field # fs) =
     CopyFields other (target(nf_member field := other (nf_member field))) fs"

section \<open>Version 6\<close>

definition write_member ::
  "byte list \<Rightarrow> byte list \<Rightarrow> ('m, fieldType_ver6_e) netField \<Rightarrow> msg \<Rightarrow> msg_error + msg" where
  "write_member fromF toF field m =
     (let bits = nf_bits field; x = mem_f32 toF
      in case nf_type field of
           regular6 \<Rightarrow> WriteNumberEntityField bits toF m
         | angle6 \<Rightarrow> WriteAngleField bits x m
         | animTime6 \<Rightarrow> WriteNumber (PackAnimTime x bits) (num_bits bits) m
         | animWeight6 \<Rightarrow> WriteNumber (PackAnimWeight x bits) (num_bits bits) m
         | scale6 \<Rightarrow> WriteNumber (PackScale x bits) (num_bits bits) m
         | alpha6 \<Rightarrow> WriteNumber (PackAlpha x bits) (num_bits bits) m
         | coord6 \<Rightarrow> WriteCoord x m
         | velocity6 \<Rightarrow> WriteCoordSmall x m
         | simple6 \<Rightarrow> WriteSimple bits toF m)"

definition read_float :: "(msg \<Rightarrow> msg_error + u32 \<times> msg) \<Rightarrow> msg \<Rightarrow> msg_error + byte list \<times> msg" where
  "read_float get m = rbind (get m) (\<lambda>(v, m'). Inr (f32_mem v, m'))"

definition read_member ::
  "byte list \<Rightarrow> byte list \<Rightarrow> ('m, fieldType_ver6_e) netField \<Rightarrow> msg \<Rightarrow> msg_error + byte list \<times> msg" where
  "read_member fromF toF field m =
     (let bits = nf_bits field
      in case nf_type field of
           regular6 \<Rightarrow> ReadRegular bits (nf_size field) m
         | angle6 \<Rightarrow> read_float (ReadAngleField bits) m
         | animTime6 \<Rightarrow> rbind (ReadNumber (num_bits bits) m) (\<lambda>(v, m'). Inr (f32_mem (UnpackAnimTime v), m'))
         | animWeight6 \<Rightarrow> rbind (ReadByte m) (\<lambda>(v, m'). Inr (f32_mem (UnpackAnimWeight (ucast v) bits), m'))
         | scale6 \<Rightarrow> rbind (ReadNumber (num_bits bits) m)
             (\<lambda>(v :: u32, m'). Inr (f32_mem (UnpackScale (ucast v)), m'))
         | alpha6 \<Rightarrow> rbind (ReadByte m) (\<lambda>(v, m'). Inr (f32_mem (UnpackAlpha (ucast v) bits), m'))
         | coord6 \<Rightarrow> read_float ReadCoord m
         | velocity6 \<Rightarrow> read_float ReadCoordSmall m
         | simple6 \<Rightarrow> ReadSimple bits toF m)"

section \<open>Version 15\<close>

text \<open>\<open>0.001f\<close>; a comparison \<open>a \<ge> b\<close> does not hold of a NaN.\<close>

definition f32_ge :: "u32 \<Rightarrow> u32 \<Rightarrow> bool" where
  "f32_ge a b \<longleftrightarrow> f32_less b a \<or> f32_eq a b"

definition time_moved :: "byte list \<Rightarrow> byte list \<Rightarrow> bool" where
  "time_moved fromF toF \<longleftrightarrow> f32_ge (f32_abs (f32_sub (mem_f32 toF) (mem_f32 fromF))) 0x3A83126F"

definition write_member_ver15 ::
  "byte list \<Rightarrow> byte list \<Rightarrow> ('m, fieldType_ver15_e) netField \<Rightarrow> msg \<Rightarrow> msg_error + msg" where
  "write_member_ver15 fromF toF field m =
     (let bits = nf_bits field; x = mem_f32 toF
      in case nf_type field of
           regular15 \<Rightarrow> WriteRegular2 bits toF m
         | angle15 \<Rightarrow> WriteNumber (PackAngle2 x bits) (num_bits bits) m
         | animTime15 \<Rightarrow>
             if time_moved fromF toF
             then rbind (WriteBool True m) (WriteNumber (PackAnimTime x bits) (num_bits bits))
             else WriteBool False m
         | animWeight15 \<Rightarrow> WriteNumber (PackAnimWeight x bits) (num_bits bits) m
         | scale15 \<Rightarrow> WriteNumber (PackScale x bits) (num_bits bits) m
         | alpha15 \<Rightarrow> WriteNumber (PackAlpha x bits) (num_bits bits) m
         | coord15 \<Rightarrow> WriteDeltaCoord (PackCoord (mem_f32 fromF)) (PackCoord x) m
         | coordExtra15 \<Rightarrow> WriteDeltaCoordExtra (PackCoordExtra (mem_f32 fromF)) (PackCoordExtra x) m
         | velocity15 \<Rightarrow> WriteCoordSmall x m
         | simple15 \<Rightarrow> WriteSimple bits toF m)"

definition read_member_ver15 ::
  "u32 \<Rightarrow> byte list \<Rightarrow> byte list \<Rightarrow> ('m, fieldType_ver15_e) netField \<Rightarrow> msg \<Rightarrow> msg_error + byte list \<times> msg" where
  "read_member_ver15 timeDelta fromF toF field m =
     (let bits = nf_bits field
      in case nf_type field of
           regular15 \<Rightarrow> ReadRegular2 bits (nf_size field) m
         | angle15 \<Rightarrow> rbind (ReadNumber (num_bits bits) m) (\<lambda>(v, m'). Inr (f32_mem (UnpackAngle2 v bits), m'))
         | animTime15 \<Rightarrow>
             rbind (ReadBool m) (\<lambda>(moved, m1).
               if moved then
                 rbind (ReadNumber (num_bits bits) m1) (\<lambda>(v, m'). Inr (f32_mem (UnpackAnimTime v), m'))
               else Inr (f32_mem (f32_add (mem_f32 fromF) timeDelta), m1))
         | animWeight15 \<Rightarrow> rbind (ReadNumber (num_bits bits) m) (\<lambda>(v, m'). Inr (f32_mem (UnpackAnimWeight v bits), m'))
         | scale15 \<Rightarrow> rbind (ReadNumber (num_bits bits) m)
             (\<lambda>(v :: u32, m'). Inr (f32_mem (UnpackScale (ucast v)), m'))
         | alpha15 \<Rightarrow> rbind (ReadNumber (num_bits bits) m) (\<lambda>(v, m'). Inr (f32_mem (UnpackAlpha v bits), m'))
         | coord15 \<Rightarrow>
             rbind (ReadDeltaCoord (PackCoord (mem_f32 fromF)) m) (\<lambda>(v, m'). Inr (f32_mem (UnpackCoord v), m'))
         | coordExtra15 \<Rightarrow>
             rbind (ReadDeltaCoordExtra (PackCoordExtra (mem_f32 fromF)) m)
               (\<lambda>(v, m'). Inr (f32_mem (UnpackCoordExtra v), m'))
         | velocity15 \<Rightarrow> read_float ReadCoordSmall m
         | simple15 \<Rightarrow> ReadSimple bits toF m)"

section \<open>The numbers of entities\<close>

definition ReadEntityNum :: "msg \<Rightarrow> msg_error + u16 \<times> msg" where
  "ReadEntityNum m =
     rbind (ReadNumber GENTITYNUM_BITS m) (\<lambda>(entNum, m'). Inr (entNum AND of_nat (MAX_GENTITIES - 1), m'))"

definition ReadEntityNum2 :: "msg \<Rightarrow> msg_error + u16 \<times> msg" where
  "ReadEntityNum2 m =
     rbind (ReadNumber GENTITYNUM_BITS m) (\<lambda>(entNum, m'). Inr ((entNum - 1) AND of_nat (MAX_GENTITIES - 1), m'))"

definition WriteEntityNum :: "u16 \<Rightarrow> msg \<Rightarrow> msg_error + msg" where
  "WriteEntityNum num m = WriteNumber num GENTITYNUM_BITS m"

definition WriteEntityNum2 :: "u16 \<Rightarrow> msg \<Rightarrow> msg_error + msg" where
  "WriteEntityNum2 num m = WriteNumber (num + 1) GENTITYNUM_BITS m"

section \<open>Deltas\<close>

definition nullstate :: entityState_t where "nullstate = entityState_new"

definition from_entity :: "entityState_t option \<Rightarrow> entityState_t" where
  "from_entity from = (case from of None \<Rightarrow> nullstate | Some e \<Rightarrow> e)"

text \<open>The body that the \<open>SaveDelta\<close> of the two classes have in common, and that of \<open>LoadDelta\<close>.\<close>

definition save_entity ::
  "(byte list \<Rightarrow> byte list \<Rightarrow> (entity_member, 'ty) netField \<Rightarrow> bool) \<Rightarrow>
   (byte list \<Rightarrow> byte list \<Rightarrow> (entity_member, 'ty) netField \<Rightarrow> msg \<Rightarrow> msg_error + msg) \<Rightarrow>
   (entity_member, 'ty) netField list \<Rightarrow> entityState_t \<Rightarrow> entityState_t \<Rightarrow> msg \<Rightarrow> msg_error + msg" where
  "save_entity delta_needed wr fieldlist fromEnt state m =
     (if unat (es_number state) = ENTITYNUM_NONE then
        rbind (WriteEntityNum (es_number fromEnt) m) (WriteBool True)
      else
        rbind (WriteBool False m) (\<lambda>m1.
          let deltaNeededList = map (\<lambda>f. delta_needed (es_mem fromEnt (nf_member f)) (es_mem state (nf_member f)) f) fieldlist;
              lc = last_change 0 0 deltaNeededList;
              hasDelta = (lc > 0)
          in rbind (WriteBool hasDelta m1) (\<lambda>m2.
             if \<not> hasDelta then Inr m2
             else rbind (WriteByte (of_nat lc) m2) (\<lambda>m3.
               if lc > length fieldlist then Inl (BadEntityFieldCountException (of_nat lc))
               else write_fields wr (es_mem fromEnt) (es_mem state) (take lc (zip fieldlist deltaNeededList)) m3))))"

definition load_entity ::
  "(byte list \<Rightarrow> byte list \<Rightarrow> (entity_member, 'ty) netField \<Rightarrow> msg \<Rightarrow> msg_error + byte list \<times> msg) \<Rightarrow>
   (entity_member, 'ty) netField list \<Rightarrow> u16 \<Rightarrow> entityState_t \<Rightarrow> entityState_t \<Rightarrow> msg \<Rightarrow>
   msg_error + entityState_t \<times> msg" where
  "load_entity rd fieldlist entNum fromEnt state m =
     rbind (ReadBool m) (\<lambda>(removed, m1).
       if removed then Inr (entityState_new\<lparr>es_number := of_nat ENTITYNUM_NONE\<rparr>, m1)
       else rbind (ReadBool m1) (\<lambda>(hasDelta, m2).
         if \<not> hasDelta then Inr (fromEnt\<lparr>es_number := entNum\<rparr>, m2)
         else rbind (ReadByte m2) (\<lambda>(lc, m3).
           if unat lc > length fieldlist then Inl (BadEntityFieldCountException lc)
           else
             rbind (read_fields rd (es_mem fromEnt) (take (unat lc) fieldlist) (es_mem state) m3) (\<lambda>(mem, m4).
               Inr (\<lparr>es_number = entNum, es_mem = CopyFields (es_mem fromEnt) mem (drop (unat lc) fieldlist)\<rparr>, m4)))))"

definition entity_SaveDelta :: "entityState_t option \<Rightarrow> entityState_t \<Rightarrow> msg \<Rightarrow> msg_error + msg" where
  "entity_SaveDelta from = save_entity DeltaNeeded write_member entityStateFields (from_entity from)"

definition entity_LoadDelta ::
  "u16 \<Rightarrow> entityState_t option \<Rightarrow> entityState_t \<Rightarrow> msg \<Rightarrow> msg_error + entityState_t \<times> msg" where
  "entity_LoadDelta entNum from = load_entity read_member entityStateFields entNum (from_entity from)"

definition entity_SaveDelta_ver15 :: "entityState_t option \<Rightarrow> entityState_t \<Rightarrow> msg \<Rightarrow> msg_error + msg" where
  "entity_SaveDelta_ver15 from =
     save_entity DeltaNeeded_ver15 write_member_ver15 entityStateFields_ver15 (from_entity from)"

definition entity_LoadDelta_ver15 ::
  "u32 \<Rightarrow> u16 \<Rightarrow> entityState_t option \<Rightarrow> entityState_t \<Rightarrow> msg \<Rightarrow> msg_error + entityState_t \<times> msg" where
  "entity_LoadDelta_ver15 timeDelta entNum from =
     load_entity (read_member_ver15 timeDelta) entityStateFields_ver15 entNum (from_entity from)"

section \<open>The parsers\<close>

record entity_parser =
  readEntityNum :: "msg \<Rightarrow> msg_error + u16 \<times> msg"
  writeEntityNum :: "u16 \<Rightarrow> msg \<Rightarrow> msg_error + msg"
  readDeltaEntity :: "entityState_t option \<Rightarrow> entityState_t \<Rightarrow> u16 \<Rightarrow> u32 \<Rightarrow> msg \<Rightarrow> msg_error + entityState_t \<times> msg"
  writeDeltaEntity :: "entityState_t option \<Rightarrow> entityState_t \<Rightarrow> msg \<Rightarrow> msg_error + msg"

definition Entity8 :: entity_parser where
  "Entity8 =
     \<lparr>readEntityNum = ReadEntityNum, writeEntityNum = WriteEntityNum,
      readDeltaEntity = (\<lambda>from to newNum deltaTime. entity_LoadDelta newNum from to),
      writeDeltaEntity = entity_SaveDelta\<rparr>"

definition Entity17 :: entity_parser where
  "Entity17 =
     \<lparr>readEntityNum = ReadEntityNum2, writeEntityNum = WriteEntityNum2,
      readDeltaEntity = (\<lambda>from to newNum deltaTime. entity_LoadDelta_ver15 deltaTime newNum from to),
      writeDeltaEntity = entity_SaveDelta_ver15\<rparr>"

definition entityVersion8 :: "entity_parser singleton" where "entityVersion8 = (5, 8, Entity8)"
definition entityVersion17 :: "entity_parser singleton" where "entityVersion17 = (15, 17, Entity17)"
definition entityDefaultVersion :: "entity_parser singleton" where "entityDefaultVersion = (0, 0, Entity17)"

section \<open>A table of fields transfers\<close>

text \<open>What one field of the reader is: the value sent for it, or that of the old state.\<close>

definition field_value ::
  "(('m, 'ty) netField \<Rightarrow> bool) \<Rightarrow> (('m, 'ty) netField \<Rightarrow> byte list) \<Rightarrow> ('m \<Rightarrow> byte list) \<Rightarrow>
   ('m, 'ty) netField \<Rightarrow> byte list" where
  "field_value need sent from f = (if need f then sent f else from (nf_member f))"

fun set_fields :: "(('m, 'ty) netField \<Rightarrow> byte list) \<Rightarrow> ('m, 'ty) netField list \<Rightarrow> ('m \<Rightarrow> byte list) \<Rightarrow> 'm \<Rightarrow> byte list" where
  "set_fields val [] mem = mem"
| "set_fields val (f # fs) mem = set_fields val fs (mem(nf_member f := val f))"

lemma set_fields_append: "set_fields val (xs @ ys) mem = set_fields val ys (set_fields val xs mem)"
  by (induction xs arbitrary: mem) simp_all

lemma set_fields_other: "x \<notin> nf_member ` set fs \<Longrightarrow> set_fields val fs mem x = mem x"
  by (induction fs arbitrary: mem) auto

lemma set_fields_member:
  "distinct (map nf_member fs) \<Longrightarrow> f \<in> set fs \<Longrightarrow> set_fields val fs mem (nf_member f) = val f"
proof (induction fs arbitrary: mem)
  case (Cons g fs)
  then show ?case by (cases "f = g") (auto simp: set_fields_other)
qed simp

lemma set_fields_cong: "(\<And>f. f \<in> set fs \<Longrightarrow> val f = val' f) \<Longrightarrow> set_fields val fs mem = set_fields val' fs mem"
  by (induction fs arbitrary: mem) simp_all

lemma CopyFields_set: "CopyFields other target fs = set_fields (\<lambda>f. other (nf_member f)) fs target"
  by (induction fs arbitrary: target) simp_all

lemma fields_carry:
  assumes "\<And>f toF. f \<in> set fs \<Longrightarrow> need f \<Longrightarrow>
    carries (wr (from (nf_member f)) (to (nf_member f)) f) (rd (from (nf_member f)) toF f) (sent f)"
  shows "carries (write_fields wr from to (map (\<lambda>f. (f, need f)) fs)) (read_fields rd from fs mem)
    (set_fields (field_value need sent from) fs mem)"
  using assms
proof (induction fs arbitrary: mem)
  case Nil
  show ?case
    unfolding list.map write_fields.simps(1) [abs_def] read_fields.simps(1) [abs_def] set_fields.simps
    by (rule carries_return)
next
  case (Cons f fs)
  have one: "carries (\<lambda>m. if need f then wr (from (nf_member f)) (to (nf_member f)) f m else Inr m)
      (\<lambda>m. if need f then rd (from (nf_member f)) (mem (nf_member f)) f m else Inr (from (nf_member f), m))
      (field_value need sent from f)"
    using Cons.prems [of f] by (simp add: field_value_def carries_return)
  show ?case
    unfolding list.map write_fields.simps(2) [abs_def] read_fields.simps(2) [abs_def] set_fields.simps
    by (rule carries_bool_bind, rule carries_bind [OF one]) (rule Cons.IH, rule Cons.prems, simp)
qed

lemma last_change_bounds:
  "lc \<le> i \<Longrightarrow> lc \<le> last_change i lc bs \<and> last_change i lc bs \<le> i + length bs"
proof (induction bs arbitrary: i lc)
  case (Cons b bs)
  from Cons.IH [of "if b then i + 1 else lc" "i + 1"] Cons.prems show ?case by (auto split: if_splits)
qed simp

lemma last_change_after:
  "lc \<le> i \<Longrightarrow> last_change i lc bs \<le> i + k \<Longrightarrow> k < length bs \<Longrightarrow> \<not> bs ! k"
proof (induction bs arbitrary: i lc k)
  case (Cons b bs)
  show ?case
  proof (cases k)
    case 0
    with Cons.prems last_change_bounds [of "i + 1" "i + 1" bs] show ?thesis by auto
  next
    case (Suc j)
    with Cons.prems Cons.IH [of "if b then i + 1 else lc" "i + 1" j] show ?thesis by auto
  qed
qed simp

lemma last_change_zero: "last_change 0 0 bs = 0 \<longleftrightarrow> True \<notin> set bs"
proof
  assume "last_change 0 0 bs = 0"
  then show "True \<notin> set bs" using last_change_after [of 0 0 bs] by (auto simp: in_set_conv_nth)
next
  have "last_change i lc bs = lc" if "True \<notin> set bs" for i lc
    using that by (induction bs arbitrary: i) auto
  then show "True \<notin> set bs \<Longrightarrow> last_change 0 0 bs = 0" by blast
qed

text \<open>The fields up to the last change are written and read; the others are copied.\<close>

lemma table_lc:
  "last_change 0 0 (map need fs) \<le> length fs"
  "0 < last_change 0 0 (map need fs) \<longleftrightarrow> (\<exists>f\<in>set fs. need f)"
  using last_change_bounds [of 0 0 "map need fs"] last_change_zero [of "map need fs"] by auto

lemma table_rest:
  assumes "lc = last_change 0 0 (map need fs)"
  shows "CopyFields from (set_fields (field_value need sent from) (take lc fs) mem) (drop lc fs) =
    set_fields (field_value need sent from) fs mem"
proof -
  let ?val = "field_value need sent from"
  have "set_fields (\<lambda>f. from (nf_member f)) (drop lc fs) mem' = set_fields ?val (drop lc fs) mem'" for mem'
  proof (rule set_fields_cong)
    fix f assume "f \<in> set (drop lc fs)"
    then obtain j where j: "j < length fs - lc" "f = fs ! (lc + j)" by (auto simp: in_set_conv_nth)
    then have "\<not> map need fs ! (lc + j)"
      using last_change_after [of 0 0 "map need fs" "lc + j"] by (simp add: assms)
    then show "from (nf_member f) = ?val f" using j by (simp add: field_value_def)
  qed
  then show ?thesis
    using set_fields_append [of ?val "take lc fs" "drop lc fs" mem] by (simp add: CopyFields_set)
qed

lemma table_carries:
  assumes "\<And>f toF. f \<in> set fs \<Longrightarrow> need f \<Longrightarrow>
    carries (wr (from (nf_member f)) (to (nf_member f)) f) (rd (from (nf_member f)) toF f) (sent f)"
  shows "carries (write_fields wr from to (take lc (zip fs (map need fs)))) (read_fields rd from (take lc fs) mem)
    (set_fields (field_value need sent from) (take lc fs) mem)"
proof -
  have "take lc (zip fs (map need fs)) = map (\<lambda>f. (f, need f)) (take lc fs)"
    by (simp add: zip_map2 zip_same_conv_map take_map split_def)
  then show ?thesis by (simp only:) (rule fields_carry, auto dest: in_set_takeD intro: assms)
qed

text \<open>The state that the reader has after a delta of a state that was not removed.\<close>

definition entity_received ::
  "((entity_member, 'ty) netField \<Rightarrow> bool) \<Rightarrow> ((entity_member, 'ty) netField \<Rightarrow> byte list) \<Rightarrow>
   (entity_member, 'ty) netField list \<Rightarrow> u16 \<Rightarrow> entityState_t \<Rightarrow> entityState_t \<Rightarrow> entityState_t" where
  "entity_received need sent fs entNum from st =
     (if \<exists>f\<in>set fs. need f
      then \<lparr>es_number = entNum, es_mem = set_fields (field_value need sent (es_mem from)) fs (es_mem st)\<rparr>
      else from\<lparr>es_number := entNum\<rparr>)"

lemma entity_carries:
  assumes live: "unat (es_number to) \<noteq> ENTITYNUM_NONE" and len: "length fs < 256"
    and field: "\<And>f toF. f \<in> set fs \<Longrightarrow> needed (es_mem from (nf_member f)) (es_mem to (nf_member f)) f \<Longrightarrow>
      carries (wr (es_mem from (nf_member f)) (es_mem to (nf_member f)) f) (rd (es_mem from (nf_member f)) toF f) (sent f)"
  shows "carries (save_entity needed wr fs from to) (load_entity rd fs entNum from st)
    (entity_received (\<lambda>f. needed (es_mem from (nf_member f)) (es_mem to (nf_member f)) f) sent fs entNum from st)"
proof -
  define need where "need f = needed (es_mem from (nf_member f)) (es_mem to (nf_member f)) f" for f
  define lc where "lc = last_change 0 0 (map need fs)"
  let ?r = "entity_received need sent fs entNum from st"
  have u: "unat (of_nat lc :: byte) = lc" and nl: "\<not> lc > length fs"
    using len table_lc(1) [of need fs] by (simp_all add: lc_def unsigned_of_nat take_bit_nat_eq_self)
  have nd: "map need fs = map (\<lambda>f. needed (es_mem from (nf_member f)) (es_mem to (nf_member f)) f) fs"
    by (simp add: need_def)
  have "carries (\<lambda>m3. if lc > length fs then Inl (BadEntityFieldCountException (of_nat lc))
        else write_fields wr (es_mem from) (es_mem to) (take lc (zip fs (map need fs))) m3)
      (\<lambda>m3. if unat (of_nat lc :: byte) > length fs then Inl (BadEntityFieldCountException (of_nat lc))
         else rbind (read_fields rd (es_mem from) (take (unat (of_nat lc :: byte)) fs) (es_mem st) m3)
           (\<lambda>(mem, m4). Inr (\<lparr>es_number = entNum, es_mem = CopyFields (es_mem from) mem (drop (unat (of_nat lc :: byte)) fs)\<rparr>, m4)))
      \<lparr>es_number = entNum, es_mem = set_fields (field_value need sent (es_mem from)) fs (es_mem st)\<rparr>"
  proof -
    have "carries (write_fields wr (es_mem from) (es_mem to) (take lc (zip fs (map need fs))))
        (read_fields rd (es_mem from) (take lc fs) (es_mem st))
        (set_fields (field_value need sent (es_mem from)) (take lc fs) (es_mem st))"
      by (rule table_carries) (auto simp: need_def intro: field)
    from carries_map [OF this, of "\<lambda>mem. \<lparr>es_number = entNum, es_mem = CopyFields (es_mem from) mem (drop lc fs)\<rparr>"]
    show ?thesis unfolding table_rest [OF lc_def] by (simp add: u nl)
  qed
  then have some: "carries (\<lambda>m. rbind (WriteByte (of_nat lc) m) (\<lambda>m3. if lc > length fs
          then Inl (BadEntityFieldCountException (of_nat lc))
          else write_fields wr (es_mem from) (es_mem to) (take lc (zip fs (map need fs))) m3))
        (\<lambda>m. rbind (ReadByte m) (\<lambda>(lc, m3). if unat lc > length fs
          then Inl (BadEntityFieldCountException lc)
          else rbind (read_fields rd (es_mem from) (take (unat lc) fs) (es_mem st) m3)
            (\<lambda>(mem, m4). Inr (\<lparr>es_number = entNum, es_mem = CopyFields (es_mem from) mem (drop (unat lc) fs)\<rparr>, m4))))
        \<lparr>es_number = entNum, es_mem = set_fields (field_value need sent (es_mem from)) fs (es_mem st)\<rparr>"
    by (rule carries_bind [OF carries_byte])
  have "carries (save_entity needed wr fs from to) (load_entity rd fs entNum from st) ?r"
    unfolding save_entity_def [abs_def] load_entity_def [abs_def] if_not_P [OF live] Let_def
    unfolding nd [symmetric] lc_def [symmetric]
  proof (rule carries_bool_bind, simp only: simp_thms if_False, rule carries_bool_bind, rule carries_if)
    show "carries Inr (\<lambda>m. Inr (from\<lparr>es_number := entNum\<rparr>, m)) ?r" if "\<not> lc > 0"
      using that table_lc(2) [of need fs] by (simp add: entity_received_def lc_def carries_return)
    show "carries (\<lambda>m. rbind (WriteByte (of_nat lc) m) (\<lambda>m3. if lc > length fs
          then Inl (BadEntityFieldCountException (of_nat lc))
          else write_fields wr (es_mem from) (es_mem to) (take lc (zip fs (map need fs))) m3))
        (\<lambda>m. rbind (ReadByte m) (\<lambda>(lc, m3). if unat lc > length fs
          then Inl (BadEntityFieldCountException lc)
          else rbind (read_fields rd (es_mem from) (take (unat lc) fs) (es_mem st) m3)
            (\<lambda>(mem, m4). Inr (\<lparr>es_number = entNum, es_mem = CopyFields (es_mem from) mem (drop (unat lc) fs)\<rparr>, m4)))) ?r"
      if "\<not> \<not> lc > 0"
      using that some table_lc(2) [of need fs] by (simp only: entity_received_def lc_def not_not if_True)
  qed
  then show ?thesis unfolding need_def .
qed

section \<open>One member transfers\<close>

text \<open>What the reader has of a member that was sent.\<close>

definition sent_member :: "byte list \<Rightarrow> ('m, fieldType_ver6_e) netField \<Rightarrow> byte list" where
  "sent_member toF field =
     (let bits = nf_bits field; x = mem_f32 toF
      in case nf_type field of
           regular6 \<Rightarrow> sent_regular bits toF
         | angle6 \<Rightarrow> f32_mem (UnpackAngle (PackAngle x bits) bits False)
         | animTime6 \<Rightarrow> f32_mem (UnpackAnimTime (PackAnimTime x bits))
         | animWeight6 \<Rightarrow> f32_mem (UnpackAnimWeight (PackAnimWeight x bits) bits)
         | scale6 \<Rightarrow> f32_mem (UnpackScale (ucast (PackScale x bits)))
         | alpha6 \<Rightarrow> f32_mem (UnpackAlpha (PackAlpha x bits) bits)
         | coord6 \<Rightarrow> f32_mem (coord_value (coord_number x))
         | velocity6 \<Rightarrow> f32_mem (coord_small_value (coord_small_number x))
         | simple6 \<Rightarrow> toF)"

fun type_ok6 :: "int \<Rightarrow> nat \<Rightarrow> fieldType_ver6_e \<Rightarrow> bool" where
  "type_ok6 bits sz regular6 \<longleftrightarrow> regular_ok bits sz"
| "type_ok6 bits sz angle6 \<longleftrightarrow> bits = 12 \<or> bits = - 13"
| "type_ok6 bits sz animTime6 \<longleftrightarrow> bits = 15"
| "type_ok6 bits sz animWeight6 \<longleftrightarrow> bits = 8"
| "type_ok6 bits sz scale6 \<longleftrightarrow> bits = 10"
| "type_ok6 bits sz alpha6 \<longleftrightarrow> bits = 8"
| "type_ok6 bits sz coord6 \<longleftrightarrow> sz = 4"
| "type_ok6 bits sz velocity6 \<longleftrightarrow> sz = 4"
| "type_ok6 bits sz simple6 \<longleftrightarrow> False"

definition member_ok :: "(int \<Rightarrow> nat \<Rightarrow> 'ty \<Rightarrow> bool) \<Rightarrow> (entity_member, 'ty) netField \<Rightarrow> bool" where
  "member_ok ok f \<longleftrightarrow> nf_size f = member_size (nf_member f) \<and> ok (nf_bits f) (nf_size f) (nf_type f)"

lemma read_float_map: "read_float get = (\<lambda>m. rbind (get m) (\<lambda>(v, m'). Inr (f32_mem v, m')))"
  by (simp add: read_float_def fun_eq_iff)

lemma rbind_Inr_prod: "rbind (rbind r (\<lambda>(v, m). Inr (f v, m))) (\<lambda>(v, m). g v m) = rbind r (\<lambda>(v, m). g (f v) m)"
  by (cases r) auto

lemma packed_fits:
  "take_bit 15 (PackAnimTime x 15) = PackAnimTime x 15" "take_bit 8 (PackAnimWeight x 8) = PackAnimWeight x 8"
  "take_bit 10 (PackScale x 10) = PackScale x 10" "take_bit 8 (PackAlpha x 8) = PackAlpha x 8"
  by (simp_all add: PackAnimTime_def PackAnimWeight_def PackScale_def PackAlpha_def clamp_fits)

lemma angle2_fits:
  "take_bit 12 (PackAngle2 v 12) = PackAngle2 v 12" "take_bit 13 (PackAngle2 v (- 13)) = PackAngle2 v (- 13)"
  by (simp_all add: PackAngle2_def angle_mask_def and_masks Let_def min_def shl1_def take_bit_or take_bit_push_bit)

lemma member_carries:
  assumes ok: "type_ok6 (nf_bits f) (nf_size f) (nf_type f)" and len: "length toF = nf_size f"
  shows "carries (write_member fromF toF f) (read_member fromF oldF f) (sent_member toF f)"
proof -
  note defs = write_member_def [abs_def] read_member_def [abs_def] sent_member_def Let_def
  show ?thesis
  proof (cases "nf_type f")
    case regular6
    then show ?thesis
      using ok len regular_carries [of "nf_bits f" toF] by (simp add: defs)
  next
    case angle6
    then have "take_bit (num_bits (nf_bits f)) (PackAngle (mem_f32 toF) (nf_bits f)) = PackAngle (mem_f32 toF) (nf_bits f)"
      "num_bits (nf_bits f) \<le> 32"
      using ok by (auto simp: num_bits_def angle_fits)
    from carries_packed [OF this(2,1), of "\<lambda>v. f32_mem (UnpackAngle v (nf_bits f) False)"] show ?thesis
      by (simp add: defs angle6 WriteAngleField_def [abs_def] read_float_map ReadAngleField_def rbind_Inr_prod)
  next
    case animTime6
    then show ?thesis
      using ok carries_packed [OF _ packed_fits(1), of "mem_f32 toF" "\<lambda>v. f32_mem (UnpackAnimTime v)"]
      by (simp add: defs num_bits_def)
  next
    case animWeight6
    then show ?thesis
      using ok carries_packed_byte [OF packed_fits(2), of "mem_f32 toF" "\<lambda>v. f32_mem (UnpackAnimWeight v 8)"]
      by (simp add: defs num_bits_def)
  next
    case scale6
    then show ?thesis
      using ok carries_packed [OF _ packed_fits(3), of "mem_f32 toF" "\<lambda>v. f32_mem (UnpackScale (ucast v))"]
      by (simp add: defs num_bits_def)
  next
    case alpha6
    then show ?thesis
      using ok carries_packed_byte [OF packed_fits(4), of "mem_f32 toF" "\<lambda>v. f32_mem (UnpackAlpha v 8)"]
      by (simp add: defs num_bits_def)
  next
    case coord6
    then show ?thesis
      using carries_map [OF coord_carries [of "mem_f32 toF"], of f32_mem] by (simp add: defs read_float_map)
  next
    case velocity6
    then show ?thesis
      using carries_map [OF coord_small_carries [of "mem_f32 toF"], of f32_mem] by (simp add: defs read_float_map)
  next
    case simple6
    with ok show ?thesis by simp
  qed
qed

text \<open>Version 15: a time that has hardly moved is the old time and the time since.\<close>

definition sent_member_ver15 :: "u32 \<Rightarrow> byte list \<Rightarrow> byte list \<Rightarrow> ('m, fieldType_ver15_e) netField \<Rightarrow> byte list" where
  "sent_member_ver15 timeDelta fromF toF field =
     (let bits = nf_bits field; x = mem_f32 toF
      in case nf_type field of
           regular15 \<Rightarrow> sent_regular2 bits toF
         | angle15 \<Rightarrow> f32_mem (UnpackAngle2 (PackAngle2 x bits) bits)
         | animTime15 \<Rightarrow> f32_mem (if time_moved fromF toF then UnpackAnimTime (PackAnimTime x bits)
                                 else f32_add (mem_f32 fromF) timeDelta)
         | animWeight15 \<Rightarrow> f32_mem (UnpackAnimWeight (PackAnimWeight x bits) bits)
         | scale15 \<Rightarrow> f32_mem (UnpackScale (ucast (PackScale x bits)))
         | alpha15 \<Rightarrow> f32_mem (UnpackAlpha (PackAlpha x bits) bits)
         | coord15 \<Rightarrow> f32_mem (UnpackCoord (PackCoord x))
         | coordExtra15 \<Rightarrow> f32_mem (UnpackCoordExtra (PackCoordExtra x))
         | velocity15 \<Rightarrow> f32_mem (coord_small_value (coord_small_number x))
         | simple15 \<Rightarrow> toF)"

fun type_ok15 :: "int \<Rightarrow> nat \<Rightarrow> fieldType_ver15_e \<Rightarrow> bool" where
  "type_ok15 bits sz regular15 \<longleftrightarrow> regular_ok bits sz"
| "type_ok15 bits sz angle15 \<longleftrightarrow> bits = 12 \<or> bits = - 13"
| "type_ok15 bits sz animTime15 \<longleftrightarrow> bits = 15"
| "type_ok15 bits sz animWeight15 \<longleftrightarrow> bits = 8"
| "type_ok15 bits sz scale15 \<longleftrightarrow> bits = 10"
| "type_ok15 bits sz alpha15 \<longleftrightarrow> bits = 8"
| "type_ok15 bits sz coord15 \<longleftrightarrow> sz = 4"
| "type_ok15 bits sz coordExtra15 \<longleftrightarrow> False"
| "type_ok15 bits sz velocity15 \<longleftrightarrow> sz = 4"
| "type_ok15 bits sz simple15 \<longleftrightarrow> False"

lemma PackCoord_fits: "take_bit 16 (PackCoord v) = PackCoord v"
  by (simp add: PackCoord_def flip: unsigned_take_bit_eq)

lemma member_carries_ver15:
  assumes ok: "type_ok15 (nf_bits f) (nf_size f) (nf_type f)" and len: "length toF = nf_size f"
    and need: "DeltaNeeded_ver15 fromF toF f"
  shows "carries (write_member_ver15 fromF toF f) (read_member_ver15 timeDelta fromF oldF f)
    (sent_member_ver15 timeDelta fromF toF f)"
proof -
  note defs = write_member_ver15_def [abs_def] read_member_ver15_def [abs_def] sent_member_ver15_def Let_def
  show ?thesis
  proof (cases "nf_type f")
    case regular15
    then show ?thesis
      using ok len regular2_carries [of "nf_bits f" toF] by (simp add: defs)
  next
    case angle15
    then have "take_bit (num_bits (nf_bits f)) (PackAngle2 (mem_f32 toF) (nf_bits f)) = PackAngle2 (mem_f32 toF) (nf_bits f)"
      "num_bits (nf_bits f) \<le> 32"
      using ok by (auto simp: num_bits_def angle2_fits)
    from carries_packed [OF this(2,1), of "\<lambda>v. f32_mem (UnpackAngle2 v (nf_bits f))"] show ?thesis
      by (simp add: defs angle15)
  next
    case animTime15
    let ?T = "\<lambda>m1. rbind (ReadNumber 15 m1) (\<lambda>(v, m'). Inr (f32_mem (UnpackAnimTime v), m'))"
    let ?R = "\<lambda>moved m1. if moved then ?T m1 else Inr (f32_mem (f32_add (mem_f32 fromF) timeDelta), m1)"
    have t: "carries (\<lambda>m. rbind (WriteBool True m) (WriteNumber (PackAnimTime (mem_f32 toF) 15) 15))
        (\<lambda>m. rbind (ReadBool m) (\<lambda>(moved, m1). ?R moved m1)) (f32_mem (UnpackAnimTime (PackAnimTime (mem_f32 toF) 15)))"
      by (rule carries_bool_bind)
        (use carries_packed [OF _ packed_fits(1), of "mem_f32 toF" "\<lambda>v. f32_mem (UnpackAnimTime v)"] in simp)
    have f: "carries (\<lambda>m. rbind (WriteBool False m) Inr)
        (\<lambda>m. rbind (ReadBool m) (\<lambda>(moved, m1). ?R moved m1)) (f32_mem (f32_add (mem_f32 fromF) timeDelta))"
      by (rule carries_bool_bind) (simp add: carries_return)
    have "rbind r Inr = r" for r :: "msg_error + msg" by (cases r) simp_all
    then show ?thesis
      using ok t f animTime15 by (cases "time_moved fromF toF") (simp_all add: defs num_bits_def cong: if_cong)
  next
    case animWeight15
    then show ?thesis
      using ok carries_packed [OF _ packed_fits(2), of "mem_f32 toF" "\<lambda>v. f32_mem (UnpackAnimWeight v 8)"]
      by (simp add: defs num_bits_def)
  next
    case scale15
    then show ?thesis
      using ok carries_packed [OF _ packed_fits(3), of "mem_f32 toF" "\<lambda>v. f32_mem (UnpackScale (ucast v))"]
      by (simp add: defs num_bits_def)
  next
    case alpha15
    then show ?thesis
      using ok carries_packed [OF _ packed_fits(4), of "mem_f32 toF" "\<lambda>v. f32_mem (UnpackAlpha v 8)"]
      by (simp add: defs num_bits_def)
  next
    case coord15
    then have "PackCoord (mem_f32 fromF) \<noteq> PackCoord (mem_f32 toF)"
      using need by (auto simp: DeltaNeeded_ver15_def Let_def split: if_splits)
    from carries_map [OF delta_coord_carries [OF this PackCoord_fits], of "\<lambda>v. f32_mem (UnpackCoord v)"]
    show ?thesis using coord15 by (simp add: defs)
  next
    case velocity15
    then show ?thesis
      using carries_map [OF coord_small_carries [of "mem_f32 toF"], of f32_mem] by (simp add: defs read_float_map)
  next
    case coordExtra15
    with ok show ?thesis by simp
  next
    case simple15
    with ok show ?thesis by simp
  qed
qed

section \<open>The tables are well formed\<close>

lemma entityStateFields_ok:
  "list_all (member_ok type_ok6) entityStateFields" "distinct (map nf_member entityStateFields)"
  "length entityStateFields = 146"
  by code_simp+

lemma entityStateFields_ver15_ok:
  "list_all (member_ok type_ok15) entityStateFields_ver15" "distinct (map nf_member entityStateFields_ver15)"
  "length entityStateFields_ver15 = 146"
  by code_simp+

definition es_ok :: "entityState_t \<Rightarrow> bool" where
  "es_ok s \<longleftrightarrow> (\<forall>m. length (es_mem s m) = member_size m)"

text \<open>The state that is received, for a table whose members are sent with their sizes.\<close>

lemma entity_state_carries:
  assumes live: "unat (es_number to) \<noteq> ENTITYNUM_NONE" and to: "es_ok to"
    and tab: "list_all (member_ok ok) fs" "length fs = 146"
    and field: "\<And>f toF. f \<in> set fs \<Longrightarrow> ok (nf_bits f) (nf_size f) (nf_type f) \<Longrightarrow>
      length (es_mem to (nf_member f)) = nf_size f \<Longrightarrow>
      needed (es_mem from (nf_member f)) (es_mem to (nf_member f)) f \<Longrightarrow>
      carries (wr (es_mem from (nf_member f)) (es_mem to (nf_member f)) f) (rd (es_mem from (nf_member f)) toF f) (sent f)"
  shows "carries (save_entity needed wr fs from to) (load_entity rd fs entNum from st)
    (entity_received (\<lambda>f. needed (es_mem from (nf_member f)) (es_mem to (nf_member f)) f) sent fs entNum from st)"
proof (rule entity_carries [OF live])
  show "length fs < 256" using tab(2) by simp
  fix f toF assume f: "f \<in> set fs" "needed (es_mem from (nf_member f)) (es_mem to (nf_member f)) f"
  have "member_ok ok f" using tab(1) f(1) by (simp add: list_all_iff)
  then have m: "nf_size f = member_size (nf_member f)" "ok (nf_bits f) (nf_size f) (nf_type f)"
    unfolding member_ok_def by blast+
  show "carries (wr (es_mem from (nf_member f)) (es_mem to (nf_member f)) f)
      (rd (es_mem from (nf_member f)) toF f) (sent f)"
    by (rule field [OF f(1) m(2) _ f(2)]) (use to m(1) in \<open>simp add: es_ok_def\<close>)
qed

lemma entity_transfer:
  assumes live: "unat (es_number to) \<noteq> ENTITYNUM_NONE" and to: "es_ok to"
    and tab: "list_all (member_ok ok) fs" "distinct (map nf_member fs)" "length fs = 146"
    and field: "\<And>f toF. f \<in> set fs \<Longrightarrow> ok (nf_bits f) (nf_size f) (nf_type f) \<Longrightarrow>
      length (es_mem to (nf_member f)) = nf_size f \<Longrightarrow>
      needed (es_mem from (nf_member f)) (es_mem to (nf_member f)) f \<Longrightarrow>
      carries (wr (es_mem from (nf_member f)) (es_mem to (nf_member f)) f) (rd (es_mem from (nf_member f)) toF f) (sent f)"
  shows "\<exists>r. transfer (save_entity needed wr fs from) (load_entity rd fs entNum from st) to (DynS (dyn_new fresh)) = Inr r \<and>
    es_number r = entNum \<and>
    (\<forall>f\<in>set fs. es_mem r (nf_member f) =
       (if needed (es_mem from (nf_member f)) (es_mem to (nf_member f)) f then sent f else es_mem from (nf_member f)))"
proof -
  let ?need = "\<lambda>f. needed (es_mem from (nf_member f)) (es_mem to (nf_member f)) f"
  let ?r = "entity_received ?need sent fs entNum from st"
  have "carries (save_entity needed wr fs from to) (load_entity rd fs entNum from st) ?r"
    by (rule entity_state_carries [OF live to tab(1,3)]) (rule field)
  then obtain bs where "puts (save_entity needed wr fs from to) bs" "gets (load_entity rd fs entNum from st) bs ?r"
    by (rule carriesE)
  from transfer_dyn [where put = "save_entity needed wr fs from" and x = to, OF this]
  have "transfer (save_entity needed wr fs from) (load_entity rd fs entNum from st) to (DynS (dyn_new fresh)) = Inr ?r" .
  moreover have "es_number ?r = entNum" by (simp add: entity_received_def)
  moreover have "\<forall>f\<in>set fs. es_mem ?r (nf_member f) = (if ?need f then sent f else es_mem from (nf_member f))"
    by (auto simp: entity_received_def set_fields_member [OF tab(2)] field_value_def)
  ultimately show ?thesis by blast
qed

lemma entity_number_carries:
  assumes "unat num < MAX_GENTITIES"
  shows "carries (WriteEntityNum num) ReadEntityNum num" "carries (WriteEntityNum2 num) ReadEntityNum2 num"
proof -
  have m: "x AND of_nat (MAX_GENTITIES - 1) = take_bit 10 x" for x :: u16
    by (simp add: MAX_GENTITIES_def GENTITYNUM_BITS_def take_bit_eq_mask mask_eq_exp_minus_1)
  have n: "take_bit 10 num = num"
    using assms by (intro word_unat_eq_iff [THEN iffD2]) (simp add: MAX_GENTITIES_def GENTITYNUM_BITS_def unsigned_take_bit_eq take_bit_nat_eq_self)
  have n2: "take_bit 10 (take_bit 10 (num + 1) - 1) = num"
  proof (cases "num = 1023")
    case True
    have "take_bit 10 (take_bit 10 (1023 + 1) - 1) = (1023 :: u16)" by code_simp
    with True show ?thesis by simp
  next
    case False
    then have "unat num \<noteq> 1023" using word_unat_eq_iff [of num 1023] by simp
    then have "unat num < 1023" using assms by (simp add: MAX_GENTITIES_def GENTITYNUM_BITS_def)
    then have "unat (num + 1) < 2 ^ 10" by (simp add: unatSuc unat_word_ariths(1))
    then have "take_bit 10 (num + 1) = num + 1"
      by (intro word_unat_eq_iff [THEN iffD2]) (simp add: unsigned_take_bit_eq take_bit_nat_eq_self)
    with n show ?thesis by simp
  qed
  have l: "10 \<le> 8 * (LENGTH(16) div 8)" by simp
  show "carries (WriteEntityNum num) ReadEntityNum num"
    using carries_map [OF carries_number [OF l, of num], of "\<lambda>v. v AND of_nat (MAX_GENTITIES - 1)"]
    unfolding WriteEntityNum_def [abs_def] ReadEntityNum_def [abs_def] GENTITYNUM_BITS_def
    by (simp only: m n)
  show "carries (WriteEntityNum2 num) ReadEntityNum2 num"
    using carries_map [OF carries_number [OF l, of "num + 1"], of "\<lambda>v. (v - 1) AND of_nat (MAX_GENTITIES - 1)"]
    unfolding WriteEntityNum2_def [abs_def] ReadEntityNum2_def [abs_def] GENTITYNUM_BITS_def
    by (simp only: m n2)
qed

section \<open>Properties of entities\<close>

text \<open>C14: The state of an entity that was not removed, sent with the protocol of version 8 against an
  old state, is received with the number that the reader gave; of the 146 network fields, one that
  changed has the value that was packed and sent, and any other that of the old state, whatever the
  reader's state was.\<close>

theorem entity_delta_transfer:
  assumes "unat (es_number to) \<noteq> ENTITYNUM_NONE" "es_ok to"
  shows "\<exists>r. transfer (entity_SaveDelta from) (entity_LoadDelta entNum from st) to (DynS (dyn_new fresh)) = Inr r \<and>
    es_number r = entNum \<and>
    (\<forall>f\<in>set entityStateFields. es_mem r (nf_member f) =
       (if DeltaNeeded (es_mem (from_entity from) (nf_member f)) (es_mem to (nf_member f)) f
        then sent_member (es_mem to (nf_member f)) f else es_mem (from_entity from) (nf_member f)))"
  unfolding entity_SaveDelta_def entity_LoadDelta_def
  by (rule entity_transfer [OF assms entityStateFields_ok]) (rule member_carries)

definition a_door :: entityState_t where
  "a_door = entityState_new\<lparr>es_number := 7, es_mem := initial_member(es_modelindex := [5, 0])\<rparr>"

lemma a_door_ok: "unat (es_number a_door) \<noteq> ENTITYNUM_NONE" "es_ok a_door" "es_ok entityState_new"
proof -
  show "unat (es_number a_door) \<noteq> ENTITYNUM_NONE" by code_simp
  have "length (initial_member m) = member_size m" for m
    by (cases m) (simp_all add: f32_mem_def)
  then show "es_ok a_door" "es_ok entityState_new"
    by (simp_all add: a_door_def es_ok_def entityState_new_def)
qed

theorem entity_delta_transfer_witness:
  "\<exists>r. transfer (entity_SaveDelta None) (entity_LoadDelta 7 None entityState_new) a_door (DynS (dyn_new 0)) = Inr r \<and>
    es_number r = 7 \<and> es_mem r es_modelindex = [5, 0] \<and> es_mem r es_solid = [0, 0, 0, 0]"
proof -
  let ?f = "NETF es_modelindex 16 regular6" and ?g = "NETF es_solid 32 regular6"
  have in_table: "?f \<in> set entityStateFields" by code_simp
  have in_table': "?g \<in> set entityStateFields" by code_simp
  have n: "nf_member ?f = es_modelindex" "nf_member ?g = es_solid" by (simp_all add: NETF_def)
  have v: "DeltaNeeded (es_mem (from_entity None) es_modelindex) (es_mem a_door es_modelindex) ?f"
    "es_mem (from_entity None) es_solid = [0, 0, 0, 0]"
    by code_simp+
  have sent: "sent_member (es_mem a_door es_modelindex) ?f = [5, 0]"
    by (simp add: sent_member_def NETF_def sent_regular_def num_bits_def take_bit_eq_mod a_door_def)
  have same: "\<not> DeltaNeeded (es_mem (from_entity None) es_solid) (es_mem a_door es_solid) ?g"
    by (simp add: DeltaNeeded_def a_door_def from_entity_def nullstate_def entityState_new_def)
  obtain r where r: "transfer (entity_SaveDelta None) (entity_LoadDelta 7 None entityState_new) a_door
      (DynS (dyn_new 0)) = Inr r" "es_number r = 7"
    "\<forall>f\<in>set entityStateFields. es_mem r (nf_member f) =
       (if DeltaNeeded (es_mem (from_entity None) (nf_member f)) (es_mem a_door (nf_member f)) f
        then sent_member (es_mem a_door (nf_member f)) f else es_mem (from_entity None) (nf_member f))"
    using entity_delta_transfer [OF a_door_ok(1,2), of None 7 entityState_new 0] by blast
  have "es_mem r es_modelindex = [5, 0]"
    using bspec [OF r(3) in_table] unfolding n if_P [OF v(1)] sent .
  moreover have "es_mem r es_solid = [0, 0, 0, 0]"
    using bspec [OF r(3) in_table'] unfolding n unfolding if_not_P [OF same] unfolding v(2) .
  ultimately show ?thesis using r(1,2) by blast
qed

text \<open>C20: With version 15 and later the same holds with the packing of these versions: a coordinate
  is exactly the packed one, also when it was sent as a difference, and a time of an animation that
  moved by less than a thousandth is the old time and the time between the two states.\<close>

theorem entity_delta_transfer_ver15:
  assumes "unat (es_number to) \<noteq> ENTITYNUM_NONE" "es_ok to"
  shows "\<exists>r. transfer (entity_SaveDelta_ver15 from) (entity_LoadDelta_ver15 timeDelta entNum from st) to
      (DynS (dyn_new fresh)) = Inr r \<and> es_number r = entNum \<and>
    (\<forall>f\<in>set entityStateFields_ver15. es_mem r (nf_member f) =
       (if DeltaNeeded_ver15 (es_mem (from_entity from) (nf_member f)) (es_mem to (nf_member f)) f
        then sent_member_ver15 timeDelta (es_mem (from_entity from) (nf_member f)) (es_mem to (nf_member f)) f
        else es_mem (from_entity from) (nf_member f)))"
  unfolding entity_SaveDelta_ver15_def entity_LoadDelta_ver15_def
  by (rule entity_transfer [OF assms entityStateFields_ver15_ok]) (rule member_carries_ver15)

theorem entity_delta_transfer_ver15_witness:
  "\<exists>r. transfer (entity_SaveDelta_ver15 None) (entity_LoadDelta_ver15 0 7 None entityState_new) a_door
      (DynS (dyn_new 0)) = Inr r \<and> es_number r = 7 \<and> es_mem r es_modelindex = [5, 0]"
proof -
  let ?f = "NETF es_modelindex 16 regular15"
  have in_table: "?f \<in> set entityStateFields_ver15" by code_simp
  have n: "nf_member ?f = es_modelindex" by (simp add: NETF_def)
  have v: "DeltaNeeded_ver15 (es_mem (from_entity None) es_modelindex) (es_mem a_door es_modelindex) ?f"
    by code_simp
  have sent: "sent_member_ver15 0 (es_mem (from_entity None) es_modelindex) (es_mem a_door es_modelindex) ?f = [5, 0]"
    by (simp add: sent_member_ver15_def NETF_def sent_regular2_def num_bits_def take_bit_eq_mod a_door_def)
  obtain r where r: "transfer (entity_SaveDelta_ver15 None) (entity_LoadDelta_ver15 0 7 None entityState_new) a_door
      (DynS (dyn_new 0)) = Inr r" "es_number r = 7"
    "\<forall>f\<in>set entityStateFields_ver15. es_mem r (nf_member f) =
       (if DeltaNeeded_ver15 (es_mem (from_entity None) (nf_member f)) (es_mem a_door (nf_member f)) f
        then sent_member_ver15 0 (es_mem (from_entity None) (nf_member f)) (es_mem a_door (nf_member f)) f
        else es_mem (from_entity None) (nf_member f))"
    using entity_delta_transfer_ver15 [OF a_door_ok(1,2), of None 0 7 entityState_new 0] by blast
  show ?thesis
    using r(1,2) bspec [OF r(3) in_table, unfolded n if_P [OF v] sent] by blast
qed

text \<open>C27: A removed entity whose old number is a multiple of four comes back alive: \<open>SaveDelta\<close> sends
  the number before the flag, but \<open>LoadDelta\<close> takes the first bit of the number for the flag and the
  second for that of a change.\<close>

theorem entity_removal_lost:
  assumes "unat (es_number to) = ENTITYNUM_NONE" "\<not> bit (es_number from) 0" "\<not> bit (es_number from) 1"
  shows "transfer (entity_SaveDelta (Some from)) (entity_LoadDelta entNum (Some from) st) to
    (DynS (dyn_new fresh)) = Inr (from\<lparr>es_number := entNum\<rparr>)"
proof -
  let ?c = "num_code 2 10 (unat (es_number from))"
  have "bytes_bits (le_bytes 2 (unat (es_number from))) ! 0 = bit (es_number from) 0"
    "bytes_bits (le_bytes 2 (unat (es_number from))) ! 1 = bit (es_number from) 1"
    by (simp_all add: nth_bytes_bits le_bytes_bit bit_unsigned_iff del: le_bytes.simps)
  moreover have "take 2 xs = [xs ! 0, xs ! 1]" if "2 \<le> length xs" for xs :: "bool list"
    using that by (auto simp: numeral_2_eq_2 Suc_le_length_iff)
  ultimately obtain rest where c: "?c = [False, False] @ rest"
    using assms(2,3) by (simp add: num_code_def enc_bits_def del: le_bytes.simps)
  have p: "puts (entity_SaveDelta (Some from) to) ([False, False] @ rest @ [True])"
    using puts_bind [OF WriteNumber_puts [of 10 "es_number from"] WriteBool_puts [of True]] assms(1) c
    by (simp add: entity_SaveDelta_def save_entity_def [abs_def] from_entity_def WriteEntityNum_def GENTITYNUM_BITS_def)
  have "gets (entity_LoadDelta entNum (Some from) st) ([False] @ [False] @ []) (from\<lparr>es_number := entNum\<rparr>)"
    unfolding entity_LoadDelta_def load_entity_def [abs_def] from_entity_def option.case
    by (rule gets_bind [OF ReadBool_gets], simp only: if_False simp_thms, rule gets_bind [OF ReadBool_gets])
      (simp add: gets_return)
  then have g: "\<exists>y m'. entity_LoadDelta entNum (Some from) st m = Inr (y, m') \<and> y = from\<lparr>es_number := entNum\<rparr>"
    if "mr m (([False, False] @ rest @ [True]) @ post)" "True \<in> set post" for m post
    using gets_step [of _ _ _ m "rest @ [True] @ post"] that by fastforce
  show ?thesis
    using transfer_any [where put = "entity_SaveDelta (Some from)" and x = to and s = "DynS (dyn_new fresh)"
        and R = "length ([False, False] @ rest @ [True]) + 1", OF p g] by simp
qed

theorem entity_removal_lost_witness:
  "transfer (entity_SaveDelta (Some (a_door\<lparr>es_number := 4\<rparr>)))
     (entity_LoadDelta 4 (Some (a_door\<lparr>es_number := 4\<rparr>)) entityState_new)
     (entityState_new\<lparr>es_number := 1023\<rparr>) (DynS (dyn_new 0)) = Inr (a_door\<lparr>es_number := 4\<rparr>)"
proof -
  have "\<not> bit (es_number (a_door\<lparr>es_number := 4\<rparr>)) 0" "\<not> bit (es_number (a_door\<lparr>es_number := 4\<rparr>)) 1"
    "unat (es_number (entityState_new\<lparr>es_number := 1023\<rparr>)) = ENTITYNUM_NONE" by code_simp+
  from entity_removal_lost [OF this(3,1,2), of 4 entityState_new 0] show ?thesis by simp
qed

end
