(* ===== verification/PlayerDelta.thy ===== *)
theory PlayerDelta
  imports EntityDelta
begin

text \<open>
  The state of the player and its delta serialisation (\<open>Types/PlayerState.h\<close>,
  \<open>Types/PlayerState.cpp\<close>, \<open>Serializable/PlayerState.cpp\<close>, \<open>Parsing/PlayerState.cpp\<close>): the tables of
  network fields, the five arrays of numbers, the flags whose bits differ between versions, and the
  radar value. The loops over a table are those of \<open>EntityDelta\<close>.
\<close>

section \<open>The state\<close>

definition MAX_STATS :: nat where "MAX_STATS = 32"
definition MAX_ACTIVEITEMS :: nat where "MAX_ACTIVEITEMS = 8"
definition MAX_AMMO :: nat where "MAX_AMMO = 16"
definition MAX_AMMO_AMOUNT :: nat where "MAX_AMMO_AMOUNT = 16"
definition MAX_MAX_AMMO_AMOUNT :: nat where "MAX_MAX_AMMO_AMOUNT = 16"

datatype player_member =
    ps_origin nat | ps_velocity nat | ps_viewangles nat | ps_camera_origin nat | ps_camera_angles nat
  | ps_camera_offset nat | ps_camera_posofs nat | ps_damage_angles nat
  | ps_fLeanAngle | ps_music_volume | ps_music_volume_fade_time | ps_reverb_level | ps_blend nat
  | ps_fov | ps_camera_time | ps_commandTime | ps_radarInfo
  | ps_pm_flags | ps_pm_time | ps_gravity | ps_speed | ps_delta_angles nat | ps_groundEntityNum
  | ps_camera_flags
  | ps_pm_type | ps_bobCycle | ps_feetfalling | ps_clientNum | ps_viewheight | ps_iViewModelAnim
  | ps_iViewModelAnimChanged | ps_current_music_mood | ps_fallback_music_mood | ps_reverb_type
  | ps_bVoted

fun player_member_size :: "player_member \<Rightarrow> nat" where
  "player_member_size ps_pm_flags = 2"
| "player_member_size ps_pm_time = 2"
| "player_member_size ps_gravity = 2"
| "player_member_size ps_speed = 2"
| "player_member_size (ps_delta_angles _) = 2"
| "player_member_size ps_groundEntityNum = 2"
| "player_member_size ps_camera_flags = 2"
| "player_member_size ps_pm_type = 1"
| "player_member_size ps_bobCycle = 1"
| "player_member_size ps_feetfalling = 1"
| "player_member_size ps_clientNum = 1"
| "player_member_size ps_viewheight = 1"
| "player_member_size ps_iViewModelAnim = 1"
| "player_member_size ps_iViewModelAnimChanged = 1"
| "player_member_size ps_current_music_mood = 1"
| "player_member_size ps_fallback_music_mood = 1"
| "player_member_size ps_reverb_type = 1"
| "player_member_size ps_bVoted = 1"
| "player_member_size _ = 4"

text \<open>Members that are not sent (\<open>falldir\<close>, \<open>groundTrace\<close>, \<open>walking\<close>, \<open>groundPlane\<close>) are left out.\<close>

record playerState_t =
  ps_mem :: "player_member \<Rightarrow> byte list"
  ps_stats :: "u16 list"
  ps_activeItems :: "u16 list"
  ps_ammo_name_index :: "u16 list"
  ps_ammo_amount :: "u16 list"
  ps_max_ammo_amount :: "u16 list"

definition playerState_new :: playerState_t where
  "playerState_new =
     \<lparr>ps_mem = (\<lambda>m. replicate (player_member_size m) 0),
      ps_stats = replicate MAX_STATS 0, ps_activeItems = replicate MAX_ACTIVEITEMS 0,
      ps_ammo_name_index = replicate MAX_AMMO 0, ps_ammo_amount = replicate MAX_AMMO_AMOUNT 0,
      ps_max_ammo_amount = replicate MAX_MAX_AMMO_AMOUNT 0\<rparr>"

section \<open>The radar\<close>

text \<open>Coordinates and yaw are signed bytes.\<close>

definition BIT_CLIENT :: u32 where "BIT_CLIENT = 63"
definition BIT_COORD :: u32 where "BIT_COORD = 127"
definition BIT_YAW :: u32 where "BIT_YAW = 31"

definition radarInfo_new :: "byte \<Rightarrow> byte \<Rightarrow> byte \<Rightarrow> byte \<Rightarrow> byte \<Rightarrow> u32" where
  "radarInfo_new clientNum x y yaw flags =
     (ucast clientNum AND BIT_CLIENT) OR push_bit 6 ((scast x + BIT_CLIENT) AND BIT_COORD)
     OR push_bit 13 ((scast y + BIT_CLIENT) AND BIT_COORD) OR push_bit 20 (scast yaw AND BIT_YAW)
     OR push_bit 25 (scast flags)"

definition radar_clientNum :: "u32 \<Rightarrow> byte" where
  "radar_clientNum radarValue = ucast (radarValue AND 63)"

definition radar_x :: "u32 \<Rightarrow> byte" where
  "radar_x radarValue = ucast ((drop_bit 6 radarValue AND 127) - 63)"

definition radar_y :: "u32 \<Rightarrow> byte" where
  "radar_y radarValue = ucast ((drop_bit 13 radarValue AND 127) - 63)"

definition radar_yaw :: "u32 \<Rightarrow> byte" where
  "radar_yaw radarValue = ucast (drop_bit 20 radarValue AND 31)"

definition radar_flags :: "u32 \<Rightarrow> byte" where
  "radar_flags radarValue = ucast (drop_bit 25 radarValue)"

section \<open>The tables\<close>

definition PSF :: "player_member \<Rightarrow> int \<Rightarrow> 'ty \<Rightarrow> (player_member, 'ty) netField" where
  "PSF m bits ty = \<lparr>nf_member = m, nf_size = player_member_size m, nf_bits = bits, nf_type = ty\<rparr>"

definition playerStateFields :: "(player_member, fieldType_ver6_e) netField list" where
  "playerStateFields = [
    PSF ps_commandTime 32 regular6, PSF (ps_origin 0) 0 coord6, PSF (ps_origin 1) 0 coord6,
    PSF (ps_viewangles 1) 0 regular6, PSF (ps_velocity 1) 0 velocity6,
    PSF (ps_velocity 0) 0 velocity6, PSF (ps_viewangles 0) 0 regular6,
    PSF ps_pm_time (- 16) regular6, PSF (ps_origin 2) 0 coord6, PSF (ps_velocity 2) 0 velocity6,
    PSF ps_iViewModelAnimChanged 2 regular6, PSF (ps_damage_angles 0) (- 13) angle6,
    PSF (ps_damage_angles 1) (- 13) angle6, PSF (ps_damage_angles 2) (- 13) angle6,
    PSF ps_speed 16 regular6, PSF (ps_delta_angles 1) 16 regular6, PSF ps_viewheight (- 8) regular6,
    PSF ps_groundEntityNum 10 regular6, PSF (ps_delta_angles 0) 16 regular6,
    PSF ps_iViewModelAnim 4 regular6, PSF ps_fov 0 regular6, PSF ps_current_music_mood 8 regular6,
    PSF ps_gravity 16 regular6, PSF ps_fallback_music_mood 8 regular6,
    PSF ps_music_volume 0 regular6, PSF ps_pm_flags 16 regular6, PSF ps_clientNum 8 regular6,
    PSF ps_fLeanAngle 0 regular6, PSF (ps_blend 3) 0 regular6, PSF (ps_blend 0) 0 regular6,
    PSF ps_pm_type 8 regular6, PSF ps_feetfalling 8 regular6, PSF (ps_camera_angles 0) 16 angle6,
    PSF (ps_camera_angles 1) 16 angle6, PSF (ps_camera_angles 2) 16 angle6,
    PSF (ps_camera_origin 0) 0 coord6, PSF (ps_camera_origin 1) 0 coord6,
    PSF (ps_camera_origin 2) 0 coord6, PSF (ps_camera_posofs 0) 0 coord6,
    PSF (ps_camera_posofs 2) 0 coord6, PSF ps_camera_time 0 regular6, PSF ps_bobCycle 8 regular6,
    PSF (ps_delta_angles 2) 16 regular6, PSF (ps_viewangles 2) 0 regular6,
    PSF ps_music_volume_fade_time 0 regular6, PSF ps_reverb_type 6 regular6,
    PSF ps_reverb_level 0 regular6, PSF (ps_blend 1) 0 regular6, PSF (ps_blend 2) 0 regular6,
    PSF (ps_camera_offset 0) 0 regular6, PSF (ps_camera_offset 1) 0 regular6,
    PSF (ps_camera_offset 2) 0 regular6, PSF (ps_camera_posofs 1) 0 coord6,
    PSF ps_camera_flags 16 regular6]"

definition playerStateFields_ver15 :: "(player_member, fieldType_ver15_e) netField list" where
  "playerStateFields_ver15 = [
    PSF ps_commandTime 32 regular15, PSF (ps_origin 0) 0 coordExtra15,
    PSF (ps_origin 1) 0 coordExtra15, PSF (ps_viewangles 1) 0 regular15,
    PSF (ps_velocity 1) 0 velocity15, PSF (ps_velocity 0) 0 velocity15,
    PSF (ps_viewangles 0) 0 regular15, PSF (ps_origin 2) 0 coordExtra15,
    PSF (ps_velocity 2) 0 velocity15, PSF ps_iViewModelAnimChanged 2 regular15,
    PSF (ps_damage_angles 0) (- 13) angle15, PSF (ps_damage_angles 1) (- 13) angle15,
    PSF (ps_damage_angles 2) (- 13) angle15, PSF ps_speed 16 regular15,
    PSF (ps_delta_angles 1) 16 regular15, PSF ps_viewheight (- 8) regular15,
    PSF ps_groundEntityNum 10 regular15, PSF (ps_delta_angles 0) 16 regular15,
    PSF ps_iViewModelAnim 4 regular15, PSF ps_fov 0 regular15,
    PSF ps_current_music_mood 8 regular15, PSF ps_gravity 16 regular15,
    PSF ps_fallback_music_mood 8 regular15, PSF ps_music_volume 0 regular15,
    PSF ps_pm_flags 16 regular15, PSF ps_clientNum 8 regular15, PSF ps_fLeanAngle 0 regular15,
    PSF (ps_blend 3) 0 regular15, PSF (ps_blend 0) 0 regular15, PSF ps_pm_type 8 regular15,
    PSF ps_feetfalling 8 regular15, PSF ps_radarInfo 26 regular15,
    PSF (ps_camera_angles 0) 16 angle15, PSF (ps_camera_angles 1) 16 angle15,
    PSF (ps_camera_angles 2) 16 angle15, PSF (ps_camera_origin 0) 0 coordExtra15,
    PSF (ps_camera_origin 1) 0 coordExtra15, PSF (ps_camera_origin 2) 0 coordExtra15,
    PSF (ps_camera_posofs 0) 0 coordExtra15, PSF (ps_camera_posofs 2) 0 coordExtra15,
    PSF ps_camera_time 0 regular15, PSF ps_bVoted 1 regular15, PSF ps_bobCycle 8 regular15,
    PSF (ps_delta_angles 2) 16 regular15, PSF (ps_viewangles 2) 0 regular15,
    PSF ps_music_volume_fade_time 0 regular15, PSF ps_reverb_type 6 regular15,
    PSF ps_reverb_level 0 regular15, PSF (ps_blend 1) 0 regular15, PSF (ps_blend 2) 0 regular15,
    PSF (ps_camera_offset 0) 0 regular15, PSF (ps_camera_offset 1) 0 regular15,
    PSF (ps_camera_offset 2) 0 regular15, PSF (ps_camera_posofs 1) 0 coordExtra15,
    PSF ps_camera_flags 16 regular15]"

section \<open>The flags of the movement\<close>

text \<open>A loop \<open>for (i = a; i < 32; ++i) if (pmFlags & (1 << s(i))) newPmFlags |= (1 << d(i))\<close>; shifts by
  32 and more are undefined in C++ and taken modulo 32, as x86-64 does.\<close>

definition move_flags :: "(nat \<Rightarrow> nat) \<Rightarrow> (nat \<Rightarrow> nat) \<Rightarrow> u32 \<Rightarrow> u32" where
  "move_flags s d pmFlags =
     fold (\<lambda>i new. if pmFlags AND shl1 (int (s i)) \<noteq> 0 then new OR shl1 (int (d i)) else new)
       [2..<32] (pmFlags AND 1)"

text \<open>The new flags are cut to the 16 bits of the member.\<close>

definition NormalizePlayerState :: "u16 \<Rightarrow> u16" where
  "NormalizePlayerState pm_flags = ucast (move_flags (\<lambda>i. i + 2) (\<lambda>i. i) (ucast pm_flags))"

definition UnNormalizePlayerState :: "u16 \<Rightarrow> u16" where
  "UnNormalizePlayerState pm_flags = ucast (move_flags (\<lambda>i. i) (\<lambda>i. i + 2) (ucast pm_flags))"

definition mem_u16 :: "byte list \<Rightarrow> u16" where
  "mem_u16 bs = of_nat (le_val (take 2 bs))"

definition u16_mem :: "u16 \<Rightarrow> byte list" where
  "u16_mem w = le_bytes 2 (unat w)"

definition map_pm_flags :: "(u16 \<Rightarrow> u16) \<Rightarrow> (player_member \<Rightarrow> byte list) \<Rightarrow> player_member \<Rightarrow> byte list" where
  "map_pm_flags f mem = mem(ps_pm_flags := u16_mem (f (mem_u16 (mem ps_pm_flags))))"

section \<open>The arrays\<close>

text \<open>A bit for every number that differs.\<close>

fun change_bits :: "nat \<Rightarrow> u16 list \<Rightarrow> u16 list \<Rightarrow> u32" where
  "change_bits i (x # xs) (y # ys) = (if x \<noteq> y then push_bit i 1 else 0) OR change_bits (i + 1) xs ys"
| "change_bits i _ _ = 0"

fun write_changed :: "u32 \<Rightarrow> nat \<Rightarrow> u16 list \<Rightarrow> msg \<Rightarrow> msg_error + msg" where
  "write_changed bits i [] m = Inr m"
| "write_changed bits i (x # xs) m =
     rbind (if bit bits i then WriteUShort x m else Inr m) (write_changed bits (i + 1) xs)"

fun read_changed :: "u32 \<Rightarrow> nat \<Rightarrow> u16 list \<Rightarrow> msg \<Rightarrow> msg_error + u16 list \<times> msg" where
  "read_changed bits i [] m = Inr ([], m)"
| "read_changed bits i (x # xs) m =
     rbind (if bit bits i then ReadUShort m else Inr (x, m)) (\<lambda>(y, m1).
     rbind (read_changed bits (i + 1) xs m1) (\<lambda>(ys, m2). Inr (y # ys, m2)))"

text \<open>One array: whether it changed, the bits, the numbers. The bits are sent by \<open>put\<close>.\<close>

definition write_array :: "(u32 \<Rightarrow> msg \<Rightarrow> msg_error + msg) \<Rightarrow> u32 \<Rightarrow> u16 list \<Rightarrow> msg \<Rightarrow> msg_error + msg" where
  "write_array put bits xs m =
     rbind (WriteBool (bits \<noteq> 0) m) (\<lambda>m1.
       if bits \<noteq> 0 then rbind (put bits m1) (write_changed bits 0 xs) else Inr m1)"

definition read_array :: "(msg \<Rightarrow> msg_error + u32 \<times> msg) \<Rightarrow> u16 list \<Rightarrow> msg \<Rightarrow> msg_error + u16 list \<times> msg" where
  "read_array get xs m =
     rbind (ReadBool m) (\<lambda>(changed, m1).
       if changed then rbind (get m1) (\<lambda>(bits, m2). read_changed bits 0 xs m2) else Inr (xs, m1))"

definition put_byte_bits :: "u32 \<Rightarrow> msg \<Rightarrow> msg_error + msg" where
  "put_byte_bits bits = WriteByte (ucast bits)"

definition get_byte_bits :: "msg \<Rightarrow> msg_error + u32 \<times> msg" where
  "get_byte_bits m = rbind (ReadByte m) (\<lambda>(v, m'). Inr (ucast v, m'))"

definition put_short_bits :: "u32 \<Rightarrow> msg \<Rightarrow> msg_error + msg" where
  "put_short_bits bits = WriteUShort (ucast bits)"

definition get_short_bits :: "msg \<Rightarrow> msg_error + u32 \<times> msg" where
  "get_short_bits m = rbind (ReadUShort m) (\<lambda>(v, m'). Inr (ucast v, m'))"

definition save_arrays :: "playerState_t \<Rightarrow> playerState_t \<Rightarrow> msg \<Rightarrow> msg_error + msg" where
  "save_arrays fromPS state m =
     (let statsBits = change_bits 0 (ps_stats fromPS) (ps_stats state);
          activeItemsBits = change_bits 0 (ps_activeItems fromPS) (ps_activeItems state);
          ammoAmountBits = change_bits 0 (ps_ammo_amount fromPS) (ps_ammo_amount state);
          ammoBits = change_bits 0 (ps_ammo_name_index fromPS) (ps_ammo_name_index state);
          maxAmmoAmountBits = change_bits 0 (ps_max_ammo_amount fromPS) (ps_max_ammo_amount state);
          hasStatsChanges = (statsBits \<noteq> 0 \<or> activeItemsBits \<noteq> 0 \<or> ammoBits \<noteq> 0 \<or> ammoAmountBits \<noteq> 0 \<or>
            maxAmmoAmountBits \<noteq> 0)
      in rbind (WriteBool hasStatsChanges m) (\<lambda>m1.
         if \<not> hasStatsChanges then Inr m1
         else
           rbind (write_array WriteUInteger statsBits (ps_stats state) m1) (\<lambda>m2.
           rbind (write_array put_byte_bits activeItemsBits (ps_activeItems state) m2) (\<lambda>m3.
           rbind (write_array put_short_bits ammoAmountBits (ps_ammo_amount state) m3) (\<lambda>m4.
           rbind (write_array put_short_bits ammoBits (ps_ammo_name_index state) m4)
             (write_array put_short_bits maxAmmoAmountBits (ps_max_ammo_amount state)))))))"

definition load_arrays :: "playerState_t \<Rightarrow> msg \<Rightarrow> msg_error + playerState_t \<times> msg" where
  "load_arrays state m =
     rbind (ReadBool m) (\<lambda>(hasStatsChanges, m1).
       if \<not> hasStatsChanges then Inr (state, m1)
       else
         rbind (read_array ReadUInteger (ps_stats state) m1) (\<lambda>(stats, m2).
         rbind (read_array get_byte_bits (ps_activeItems state) m2) (\<lambda>(activeItems, m3).
         rbind (read_array get_short_bits (ps_ammo_amount state) m3) (\<lambda>(ammo_amount, m4).
         rbind (read_array get_short_bits (ps_ammo_name_index state) m4) (\<lambda>(ammo_name_index, m5).
         rbind (read_array get_short_bits (ps_max_ammo_amount state) m5) (\<lambda>(max_ammo_amount, m6).
           Inr (state\<lparr>ps_stats := stats, ps_activeItems := activeItems, ps_ammo_amount := ammo_amount,
                  ps_ammo_name_index := ammo_name_index, ps_max_ammo_amount := max_ammo_amount\<rparr>, m6)))))))"

section \<open>Version 6\<close>

text \<open>The other types of fields are ignored.\<close>

definition write_player_member ::
  "byte list \<Rightarrow> byte list \<Rightarrow> ('m, fieldType_ver6_e) netField \<Rightarrow> msg \<Rightarrow> msg_error + msg" where
  "write_player_member fromF toF field m =
     (case nf_type field of
        regular6 \<Rightarrow> WriteNumberPlayerStateField (nf_bits field) toF m
      | angle6 \<Rightarrow> WriteAngleField (nf_bits field) (mem_f32 toF) m
      | coord6 \<Rightarrow> WriteCoord (mem_f32 toF) m
      | velocity6 \<Rightarrow> WriteCoordSmall (mem_f32 toF) m
      | _ \<Rightarrow> Inr m)"

definition read_player_member ::
  "byte list \<Rightarrow> byte list \<Rightarrow> ('m, fieldType_ver6_e) netField \<Rightarrow> msg \<Rightarrow> msg_error + byte list \<times> msg" where
  "read_player_member fromF toF field m =
     (case nf_type field of
        regular6 \<Rightarrow> ReadNumberPlayerStateField (nf_bits field) (nf_size field) m
      | angle6 \<Rightarrow> read_float (ReadAngleField (nf_bits field)) m
      | coord6 \<Rightarrow> read_float ReadCoord m
      | velocity6 \<Rightarrow> read_float ReadCoordSmall m
      | _ \<Rightarrow> Inr (toF, m))"

definition from_player :: "playerState_t option \<Rightarrow> playerState_t" where
  "from_player from = (case from of None \<Rightarrow> playerState_new | Some ps \<Rightarrow> ps)"

definition changed_fields ::
  "(byte list \<Rightarrow> byte list \<Rightarrow> ('m, 'ty) netField \<Rightarrow> bool) \<Rightarrow> ('m, 'ty) netField list \<Rightarrow>
   ('m \<Rightarrow> byte list) \<Rightarrow> ('m \<Rightarrow> byte list) \<Rightarrow> bool list" where
  "changed_fields delta_needed fieldlist from to =
     map (\<lambda>f. delta_needed (from (nf_member f)) (to (nf_member f)) f) fieldlist"

definition player_SaveDelta :: "playerState_t option \<Rightarrow> playerState_t \<Rightarrow> msg \<Rightarrow> msg_error + msg" where
  "player_SaveDelta from state m =
     (let fromPS = from_player from;
          deltaNeededList = changed_fields DeltaNeeded playerStateFields (ps_mem fromPS) (ps_mem state);
          lc = last_change 0 0 deltaNeededList;
          unnormalized = map_pm_flags UnNormalizePlayerState (ps_mem state)
      in rbind (WriteByte (of_nat lc) m) (\<lambda>m1.
         rbind (write_fields write_player_member (ps_mem fromPS) unnormalized
                  (take lc (zip playerStateFields deltaNeededList)) m1)
           (save_arrays fromPS state)))"

text \<open>More changes than fields make the loop read fields after the end of the table.\<close>

definition player_LoadDelta :: "playerState_t option \<Rightarrow> playerState_t \<Rightarrow> msg \<Rightarrow> msg_error + playerState_t \<times> msg" where
  "player_LoadDelta from state m =
     (let fromPS = from_player from in
      rbind (ReadByte m) (\<lambda>(lc, m1).
        if unat lc > length playerStateFields then Inl BadBufferAccess
        else
          let pm_flags = mem_u16 (ps_mem state ps_pm_flags) in
          rbind (read_fields read_player_member (ps_mem fromPS) (take (unat lc) playerStateFields) (ps_mem state) m1)
            (\<lambda>(mem, m2).
              let mem1 = (if mem_u16 (mem ps_pm_flags) \<noteq> pm_flags then map_pm_flags NormalizePlayerState mem else mem);
                  mem2 = CopyFields (ps_mem fromPS) mem1 (drop (unat lc) playerStateFields)
              in load_arrays (state\<lparr>ps_mem := mem2, ps_stats := ps_stats fromPS\<rparr>) m2)))"

section \<open>Version 15\<close>

definition write_player_member_ver15 ::
  "byte list \<Rightarrow> byte list \<Rightarrow> ('m, fieldType_ver15_e) netField \<Rightarrow> msg \<Rightarrow> msg_error + msg" where
  "write_player_member_ver15 fromF toF field m =
     (let bits = nf_bits field; x = mem_f32 toF
      in case nf_type field of
           regular15 \<Rightarrow> WriteRegular2 bits toF m
         | angle15 \<Rightarrow> WriteNumber (PackAngle2 x bits) (num_bits bits) m
         | coord15 \<Rightarrow> WriteDeltaCoord (PackCoord (mem_f32 fromF)) (PackCoord x) m
         | coordExtra15 \<Rightarrow> WriteDeltaCoordExtra (PackCoordExtra (mem_f32 fromF)) (PackCoordExtra x) m
         | velocity15 \<Rightarrow> WriteCoordSmall x m
         | _ \<Rightarrow> Inr m)"

definition read_player_member_ver15 ::
  "byte list \<Rightarrow> byte list \<Rightarrow> ('m, fieldType_ver15_e) netField \<Rightarrow> msg \<Rightarrow> msg_error + byte list \<times> msg" where
  "read_player_member_ver15 fromF toF field m =
     (let bits = nf_bits field
      in case nf_type field of
           regular15 \<Rightarrow> ReadRegular2 bits (nf_size field) m
         | angle15 \<Rightarrow> rbind (ReadNumber (num_bits bits) m) (\<lambda>(v, m'). Inr (f32_mem (UnpackAngle2 v bits), m'))
         | coord15 \<Rightarrow>
             rbind (ReadDeltaCoord (PackCoord (mem_f32 fromF)) m) (\<lambda>(v, m'). Inr (f32_mem (UnpackCoord v), m'))
         | coordExtra15 \<Rightarrow>
             rbind (ReadDeltaCoordExtra (PackCoordExtra (mem_f32 fromF)) m)
               (\<lambda>(v, m'). Inr (f32_mem (UnpackCoordExtra v), m'))
         | velocity15 \<Rightarrow> read_float ReadCoordSmall m
         | _ \<Rightarrow> Inr (toF, m))"

text \<open>\<open>SaveDelta\<close> asks the test of the old version whether a field changed, which takes the number of
  the type for one of its own.\<close>

fun as_ver6 :: "fieldType_ver15_e \<Rightarrow> fieldType_ver6_e" where
  "as_ver6 regular15 = regular6"
| "as_ver6 angle15 = angle6"
| "as_ver6 animTime15 = animTime6"
| "as_ver6 animWeight15 = animWeight6"
| "as_ver6 scale15 = scale6"
| "as_ver6 alpha15 = alpha6"
| "as_ver6 coord15 = coord6"
| "as_ver6 coordExtra15 = velocity6"
| "as_ver6 velocity15 = simple6"
| "as_ver6 simple15 = simple6"

definition player_needed :: "byte list \<Rightarrow> byte list \<Rightarrow> ('m, fieldType_ver15_e) netField \<Rightarrow> bool" where
  "player_needed fromF toF f =
     DeltaNeeded fromF toF \<lparr>nf_member = nf_member f, nf_size = nf_size f, nf_bits = nf_bits f, nf_type = as_ver6 (nf_type f)\<rparr>"

definition player_SaveDelta_ver15 :: "playerState_t option \<Rightarrow> playerState_t \<Rightarrow> msg \<Rightarrow> msg_error + msg" where
  "player_SaveDelta_ver15 from state m =
     (let fromPS = from_player from;
          deltaNeededList = changed_fields player_needed playerStateFields_ver15 (ps_mem fromPS) (ps_mem state);
          lc = last_change 0 0 deltaNeededList
      in rbind (WriteByte (of_nat lc) m) (\<lambda>m1.
         rbind (write_fields write_player_member_ver15 (ps_mem fromPS) (ps_mem state)
                  (take lc (zip playerStateFields_ver15 deltaNeededList)) m1)
           (save_arrays fromPS state)))"

definition player_LoadDelta_ver15 :: "playerState_t option \<Rightarrow> playerState_t \<Rightarrow> msg \<Rightarrow> msg_error + playerState_t \<times> msg" where
  "player_LoadDelta_ver15 from state m =
     (let fromPS = from_player from in
      rbind (ReadByte m) (\<lambda>(lc, m1).
        if unat lc > length playerStateFields_ver15 then Inl (BadEntityFieldCountException lc)
        else
          rbind (read_fields read_player_member_ver15 (ps_mem fromPS) (take (unat lc) playerStateFields_ver15)
                   (ps_mem state) m1)
            (\<lambda>(mem, m2).
              let mem2 = CopyFields (ps_mem fromPS) mem (drop (unat lc) playerStateFields_ver15)
              in load_arrays (state\<lparr>ps_mem := mem2, ps_stats := ps_stats fromPS\<rparr>) m2)))"

section \<open>The parsers\<close>

record player_parser =
  readDeltaPlayerState :: "playerState_t option \<Rightarrow> playerState_t \<Rightarrow> msg \<Rightarrow> msg_error + playerState_t \<times> msg"
  writeDeltaPlayerState :: "playerState_t option \<Rightarrow> playerState_t \<Rightarrow> msg \<Rightarrow> msg_error + msg"

definition PlayerState8 :: player_parser where
  "PlayerState8 = \<lparr>readDeltaPlayerState = player_LoadDelta, writeDeltaPlayerState = player_SaveDelta\<rparr>"

definition PlayerState17 :: player_parser where
  "PlayerState17 = \<lparr>readDeltaPlayerState = player_LoadDelta_ver15, writeDeltaPlayerState = player_SaveDelta_ver15\<rparr>"

definition playerStateVersion8 :: "player_parser singleton" where "playerStateVersion8 = (5, 8, PlayerState8)"
definition playerStateVersion17 :: "player_parser singleton" where "playerStateVersion17 = (15, 17, PlayerState17)"
definition playerStateDefaultVersion :: "player_parser singleton" where
  "playerStateDefaultVersion = (0, 0, PlayerState17)"

section \<open>The arrays transfer\<close>

lemma carries_ushort: "carries (WriteUShort x) ReadUShort x"
  unfolding carries_def using WriteUShort_puts ReadUShort_gets by blast

lemma carries_uinteger: "carries (WriteUInteger x) ReadUInteger x"
  unfolding carries_def using WriteUInteger_puts ReadUInteger_gets by blast

fun merge_changed :: "u32 \<Rightarrow> nat \<Rightarrow> u16 list \<Rightarrow> u16 list \<Rightarrow> u16 list" where
  "merge_changed bits i (x # xs) (y # ys) = (if bit bits i then y else x) # merge_changed bits (i + 1) xs ys"
| "merge_changed bits i _ _ = []"

lemma changed_carries:
  "length xs = length ys \<Longrightarrow> carries (write_changed bits i ys) (read_changed bits i xs) (merge_changed bits i xs ys)"
proof (induction xs ys arbitrary: i rule: list_induct2)
  case Nil
  show ?case
    unfolding write_changed.simps(1) [abs_def] read_changed.simps(1) [abs_def] merge_changed.simps
    by (rule carries_return)
next
  case (Cons x xs y ys)
  have one: "carries (\<lambda>m. if bit bits i then WriteUShort y m else Inr m)
      (\<lambda>m. if bit bits i then ReadUShort m else Inr (x, m)) (if bit bits i then y else x)"
    by (simp add: carries_ushort carries_return)
  show ?case
    unfolding write_changed.simps(2) [abs_def] read_changed.simps(2) [abs_def] merge_changed.simps
    by (rule carries_bind [OF one], rule carries_map [OF Cons.IH])
qed

lemma bit_change_bits:
  "bit (change_bits i xs ys) n \<longleftrightarrow> i \<le> n \<and> n < 32 \<and> n - i < length xs \<and> n - i < length ys \<and> xs ! (n - i) \<noteq> ys ! (n - i)"
proof (induction i xs ys rule: change_bits.induct)
  case (1 i x xs y ys)
  show ?case
  proof (cases "n = i")
    case True
    then show ?thesis using 1 by (auto simp: bit_or_iff bit_exp_iff possible_bit_def)
  next
    case False
    moreover have "n - i = Suc (n - (i + 1))" if "i < n" using that by simp
    ultimately show ?thesis
      using 1 by (cases "i < n") (auto simp: bit_or_iff bit_exp_iff possible_bit_def nth_Cons')
  qed
qed auto

text \<open>What the reader has of an array: the new number where it changed, else its own old one.\<close>

definition received_numbers :: "u16 list \<Rightarrow> u16 list \<Rightarrow> u16 list \<Rightarrow> u16 list" where
  "received_numbers from to old =
     map (\<lambda>i. if from ! i \<noteq> to ! i then to ! i else old ! i) [0..<length to]"

lemma merge_changed_nth:
  "length xs = length ys \<Longrightarrow> j < length ys \<Longrightarrow>
   merge_changed bits i xs ys ! j = (if bit bits (i + j) then ys ! j else xs ! j)"
proof (induction xs ys arbitrary: i j rule: list_induct2)
  case (Cons x xs y ys)
  then show ?case by (cases j) auto
qed simp

lemma length_merge_changed [simp]: "length xs = length ys \<Longrightarrow> length (merge_changed bits i xs ys) = length ys"
  by (induction xs ys arbitrary: i rule: list_induct2) simp_all

lemma merge_change_bits:
  assumes "length from = length to" "length old = length to" "length to \<le> 32"
  shows "merge_changed (change_bits 0 from to) 0 old to = received_numbers from to old"
  by (rule nth_equalityI) (use assms in \<open>auto simp: received_numbers_def merge_changed_nth bit_change_bits\<close>)

lemma no_change_bits:
  assumes "change_bits 0 from to = 0" "length from = length to" "length old = length to" "length to \<le> 32"
  shows "received_numbers from to old = old"
proof (rule nth_equalityI)
  fix i assume "i < length (received_numbers from to old)"
  then have i: "i < length to" by (simp add: received_numbers_def)
  then have "from ! i = to ! i"
    using assms bit_change_bits [of 0 "from" to i] by auto
  with i show "received_numbers from to old ! i = old ! i" by (simp add: received_numbers_def)
qed (use assms in \<open>simp add: received_numbers_def\<close>)

lemma received_numbers_same: "length to = length from \<Longrightarrow> received_numbers from to from = to"
  by (rule nth_equalityI) (auto simp: received_numbers_def)

lemma array_carries:
  assumes bits: "carries (put (change_bits 0 frm to)) get (change_bits 0 frm to)"
    and len: "length frm = length to" "length old = length to" "length to \<le> 32"
  shows "carries (write_array put (change_bits 0 frm to) to) (read_array get old) (received_numbers frm to old)"
proof -
  let ?b = "change_bits 0 frm to"
  have "carries (\<lambda>m1. if ?b \<noteq> 0 then rbind (put ?b m1) (write_changed ?b 0 to) else Inr m1)
      (\<lambda>m1. if ?b \<noteq> 0 then rbind (get m1) (\<lambda>(bits, m2). read_changed bits 0 old m2) else Inr (old, m1))
      (received_numbers frm to old)"
  proof (rule carries_if)
    show "carries (\<lambda>m1. rbind (put ?b m1) (write_changed ?b 0 to))
        (\<lambda>m1. rbind (get m1) (\<lambda>(bits, m2). read_changed bits 0 old m2)) (received_numbers frm to old)"
      by (rule carries_bind [OF bits]) (use changed_carries [of old to ?b 0] len in \<open>simp add: merge_change_bits\<close>)
    show "carries Inr (\<lambda>m1. Inr (old, m1)) (received_numbers frm to old)" if "\<not> ?b \<noteq> 0"
      using that no_change_bits [OF _ len] by (simp add: carries_return)
  qed
  then show ?thesis
    unfolding write_array_def [abs_def] read_array_def [abs_def] by (rule carries_bool_bind)
qed

lemma change_bits_fits:
  assumes "length to \<le> k"
  shows "take_bit k (change_bits 0 from to) = change_bits 0 from to"
  by (rule bit_word_eqI) (use assms in \<open>auto simp: bit_take_bit_iff bit_change_bits\<close>)

lemma byte_bits_carry: "length to \<le> 8 \<Longrightarrow> carries (put_byte_bits (change_bits 0 from to)) get_byte_bits (change_bits 0 from to)"
  using carries_map [OF carries_byte [of "ucast (change_bits 0 from to)"], of "ucast :: byte \<Rightarrow> u32"] change_bits_fits [of to 8 "from"]
  by (simp add: put_byte_bits_def get_byte_bits_def [abs_def] unsigned_ucast_eq)

lemma short_bits_carry: "length to \<le> 16 \<Longrightarrow> carries (put_short_bits (change_bits 0 from to)) get_short_bits (change_bits 0 from to)"
  using carries_map [OF carries_ushort [of "ucast (change_bits 0 from to)"], of "ucast :: u16 \<Rightarrow> u32"] change_bits_fits [of to 16 "from"]
  by (simp add: put_short_bits_def get_short_bits_def [abs_def] unsigned_ucast_eq)

definition arrays_ok :: "playerState_t \<Rightarrow> bool" where
  "arrays_ok ps \<longleftrightarrow> length (ps_stats ps) = MAX_STATS \<and> length (ps_activeItems ps) = MAX_ACTIVEITEMS \<and>
     length (ps_ammo_name_index ps) = MAX_AMMO \<and> length (ps_ammo_amount ps) = MAX_AMMO_AMOUNT \<and>
     length (ps_max_ammo_amount ps) = MAX_MAX_AMMO_AMOUNT"

definition arrays_received :: "playerState_t \<Rightarrow> playerState_t \<Rightarrow> playerState_t \<Rightarrow> playerState_t" where
  "arrays_received from to st =
     st\<lparr>ps_stats := received_numbers (ps_stats from) (ps_stats to) (ps_stats st),
        ps_activeItems := received_numbers (ps_activeItems from) (ps_activeItems to) (ps_activeItems st),
        ps_ammo_amount := received_numbers (ps_ammo_amount from) (ps_ammo_amount to) (ps_ammo_amount st),
        ps_ammo_name_index := received_numbers (ps_ammo_name_index from) (ps_ammo_name_index to) (ps_ammo_name_index st),
        ps_max_ammo_amount := received_numbers (ps_max_ammo_amount from) (ps_max_ammo_amount to) (ps_max_ammo_amount st)\<rparr>"

lemmas max_defs = MAX_STATS_def MAX_ACTIVEITEMS_def MAX_AMMO_def MAX_AMMO_AMOUNT_def MAX_MAX_AMMO_AMOUNT_def

lemma arrays_carry:
  assumes "arrays_ok from" "arrays_ok to" "arrays_ok st"
  shows "carries (save_arrays from to) (load_arrays st) (arrays_received from to st)"
proof -
  note len = assms [unfolded arrays_ok_def max_defs]
  note a1 = array_carries [where put = WriteUInteger and get = ReadUInteger and frm = "ps_stats from" and to = "ps_stats to" and old = "ps_stats st", OF carries_uinteger]
  note a2 = array_carries [where put = put_byte_bits and get = get_byte_bits and frm = "ps_activeItems from" and to = "ps_activeItems to" and old = "ps_activeItems st", OF byte_bits_carry]
  note a3 = array_carries [where put = put_short_bits and get = get_short_bits and frm = "ps_ammo_amount from" and to = "ps_ammo_amount to" and old = "ps_ammo_amount st", OF short_bits_carry]
  note a4 = array_carries [where put = put_short_bits and get = get_short_bits and frm = "ps_ammo_name_index from" and to = "ps_ammo_name_index to" and old = "ps_ammo_name_index st", OF short_bits_carry]
  note a5 = array_carries [where put = put_short_bits and get = get_short_bits and frm = "ps_max_ammo_amount from" and to = "ps_max_ammo_amount to" and old = "ps_max_ammo_amount st", OF short_bits_carry]
  show ?thesis
    unfolding save_arrays_def [abs_def] load_arrays_def [abs_def] Let_def
  proof (rule carries_bool_bind, goal_cases)
    case 1
    let ?any = "change_bits 0 (ps_stats from) (ps_stats to) \<noteq> 0 \<or> change_bits 0 (ps_activeItems from) (ps_activeItems to) \<noteq> 0 \<or>
      change_bits 0 (ps_ammo_name_index from) (ps_ammo_name_index to) \<noteq> 0 \<or>
      change_bits 0 (ps_ammo_amount from) (ps_ammo_amount to) \<noteq> 0 \<or>
      change_bits 0 (ps_max_ammo_amount from) (ps_max_ammo_amount to) \<noteq> 0"
    show ?case
    proof (rule carries_if)
      assume "\<not> ?any"
      then have "arrays_received from to st = st"
        using len by (simp add: arrays_received_def no_change_bits)
      then show "carries Inr (\<lambda>m1. Inr (st, m1)) (arrays_received from to st)" by (simp add: carries_return)
    next
      show "carries
        (\<lambda>m. rbind (write_array WriteUInteger (change_bits 0 (ps_stats from) (ps_stats to)) (ps_stats to) m) (\<lambda>m.
           rbind (write_array put_byte_bits (change_bits 0 (ps_activeItems from) (ps_activeItems to)) (ps_activeItems to) m) (\<lambda>m.
           rbind (write_array put_short_bits (change_bits 0 (ps_ammo_amount from) (ps_ammo_amount to)) (ps_ammo_amount to) m) (\<lambda>m.
           rbind (write_array put_short_bits (change_bits 0 (ps_ammo_name_index from) (ps_ammo_name_index to)) (ps_ammo_name_index to) m)
             (write_array put_short_bits (change_bits 0 (ps_max_ammo_amount from) (ps_max_ammo_amount to)) (ps_max_ammo_amount to))))))
        (\<lambda>m. rbind (read_array ReadUInteger (ps_stats st) m) (\<lambda>(stats, m).
           rbind (read_array get_byte_bits (ps_activeItems st) m) (\<lambda>(activeItems, m).
           rbind (read_array get_short_bits (ps_ammo_amount st) m) (\<lambda>(ammo_amount, m).
           rbind (read_array get_short_bits (ps_ammo_name_index st) m) (\<lambda>(ammo_name_index, m).
           rbind (read_array get_short_bits (ps_max_ammo_amount st) m) (\<lambda>(max_ammo_amount, m).
             Inr (st\<lparr>ps_stats := stats, ps_activeItems := activeItems, ps_ammo_amount := ammo_amount,
                    ps_ammo_name_index := ammo_name_index, ps_max_ammo_amount := max_ammo_amount\<rparr>, m)))))))
        (arrays_received from to st)"
        unfolding arrays_received_def
        by (rule carries_bind [OF a1], (use len in simp_all)[3], rule carries_bind [OF a2], (use len in simp_all)[4],
            rule carries_bind [OF a3], (use len in simp_all)[4], rule carries_bind [OF a4], (use len in simp_all)[4],
            rule carries_map [OF a5], (use len in simp_all)[4])
    qed
  qed
qed

section \<open>Members of a player transfer\<close>

text \<open>An unchanged precise coordinate that is sent all the same is received 512 steps further.\<close>

definition coord_extra_received :: "u32 \<Rightarrow> u32 \<Rightarrow> u32" where
  "coord_extra_received frm to =
     (if frm = to then frm + 512 else if delta_small frm to then to else take_bit 18 to)"

lemma coord_extra_carries:
  "carries (WriteDeltaCoordExtra frm to) (ReadDeltaCoordExtra frm) (coord_extra_received frm to)"
proof (cases "frm = to")
  case True
  have n: "take_bit 10 (ucast (delta_number 0) :: u16) = 1022" by code_simp
  have d: "small_delta to 1022 = to + 512"
  proof -
    have "small_delta 0 1022 = 512" by code_simp
    then show ?thesis by (simp add: small_delta_def Let_def)
  qed
  have w: "WriteDeltaCoordExtra to to = (\<lambda>m. rbind (WriteBool True m) (WriteNumber (ucast (delta_number 0) :: u16) 10))"
    by (simp add: fun_eq_iff WriteDeltaCoordExtra_def Let_def)
  have "carries (WriteNumber (ucast (delta_number 0) :: u16) 10)
      (\<lambda>m1. rbind (ReadNumber 10 m1) (\<lambda>(v :: u16, m2). Inr (small_delta to (ucast v), m2))) (to + 512)"
    using carries_map [OF carries_number [of 10 "ucast (delta_number 0) :: u16"], of "\<lambda>v. small_delta to (ucast v)"]
    by (simp add: n d)
  then show ?thesis
    unfolding True w ReadDeltaCoordExtra_def [abs_def] coord_extra_received_def
    by (simp only: if_True simp_thms carries_bool_bind)
next
  case False
  then show ?thesis using delta_coord_extra_carries [of frm to] by (simp add: coord_extra_received_def)
qed

definition player_member_ok :: "(int \<Rightarrow> nat \<Rightarrow> 'ty \<Rightarrow> bool) \<Rightarrow> (player_member, 'ty) netField \<Rightarrow> bool" where
  "player_member_ok ok f \<longleftrightarrow> nf_size f = player_member_size (nf_member f) \<and> ok (nf_bits f) (nf_size f) (nf_type f)"

fun type_okp15 :: "int \<Rightarrow> nat \<Rightarrow> fieldType_ver15_e \<Rightarrow> bool" where
  "type_okp15 bits sz regular15 \<longleftrightarrow> regular_ok bits sz"
| "type_okp15 bits sz angle15 \<longleftrightarrow> bits = 16 \<or> bits = - 13"
| "type_okp15 bits sz coordExtra15 \<longleftrightarrow> True"
| "type_okp15 bits sz velocity15 \<longleftrightarrow> True"
| "type_okp15 bits sz _ \<longleftrightarrow> False"

definition sent_player_ver15 :: "byte list \<Rightarrow> byte list \<Rightarrow> ('m, fieldType_ver15_e) netField \<Rightarrow> byte list" where
  "sent_player_ver15 fromF toF field =
     (let bits = nf_bits field; x = mem_f32 toF
      in case nf_type field of
           regular15 \<Rightarrow> sent_regular2 bits toF
         | angle15 \<Rightarrow> f32_mem (UnpackAngle2 (PackAngle2 x bits) bits)
         | coordExtra15 \<Rightarrow> f32_mem (UnpackCoordExtra (coord_extra_received (PackCoordExtra (mem_f32 fromF)) (PackCoordExtra x)))
         | velocity15 \<Rightarrow> f32_mem (coord_small_value (coord_small_number x))
         | _ \<Rightarrow> toF)"

lemma angle16_fits: "take_bit 16 (PackAngle2 v 16) = PackAngle2 v 16" "take_bit 16 (PackAngle v 16) = PackAngle v 16"
  by (simp_all add: PackAngle2_def PackAngle_def angle_mask_def and_masks Let_def)

lemma player_member_carries_ver15:
  assumes ok: "type_okp15 (nf_bits f) (nf_size f) (nf_type f)" and len: "length toF = nf_size f"
  shows "carries (write_player_member_ver15 fromF toF f) (read_player_member_ver15 fromF oldF f)
    (sent_player_ver15 fromF toF f)"
proof -
  note defs = write_player_member_ver15_def [abs_def] read_player_member_ver15_def [abs_def] sent_player_ver15_def Let_def
  show ?thesis
  proof (cases "nf_type f")
    case regular15
    then show ?thesis
      using ok len regular2_carries [of "nf_bits f" toF] by (simp add: defs)
  next
    case angle15
    then have "take_bit (num_bits (nf_bits f)) (PackAngle2 (mem_f32 toF) (nf_bits f)) = PackAngle2 (mem_f32 toF) (nf_bits f)"
      "num_bits (nf_bits f) \<le> 32"
      using ok by (auto simp: num_bits_def angle2_fits angle16_fits)
    from carries_packed [OF this(2,1), of "\<lambda>v. f32_mem (UnpackAngle2 v (nf_bits f))"] show ?thesis
      by (simp add: defs angle15)
  next
    case coordExtra15
    then show ?thesis
      using carries_map [OF coord_extra_carries, of _ _ "\<lambda>v. f32_mem (UnpackCoordExtra v)"] by (simp add: defs)
  next
    case velocity15
    then show ?thesis
      using carries_map [OF coord_small_carries [of "mem_f32 toF"], of f32_mem] by (simp add: defs read_float_map)
  qed (use ok in simp_all)
qed

text \<open>A number of version 6: the flag tells a whole number, whose float is sent; any other float is
  sent as its whole part in 13 bits.\<close>

definition sent_player_number :: "int \<Rightarrow> byte list \<Rightarrow> byte list" where
  "sent_player_number bits toF =
     (if bits = 0 then
        f32_mem (if is_partial (mem_f32 toF) then mem_f32 toF
                 else f32_of_int (sint (take_bit 13 (f32_to_int32 (mem_f32 toF) + bias) - bias)))
      else le_bytes (length toF) (take_bit (num_bits bits) (le_val toF)))"

lemma player_number_carries:
  assumes "regular_ok bits (length toF)"
  shows "carries (WriteNumberPlayerStateField bits toF) (ReadNumberPlayerStateField bits (length toF))
    (sent_player_number bits toF)"
proof (cases "bits = 0")
  case True
  let ?f = "mem_f32 toF"
  have p: "carries (WriteNumber (f32_to_int32 ?f + bias) 13) (\<lambda>m3. rbind (ReadNumber 13 m3)
      (\<lambda>(t, m4). Inr (f32_mem (f32_of_int (sint (t - bias))), m4)))
      (f32_mem (f32_of_int (sint (take_bit 13 (f32_to_int32 ?f + bias) - bias))))"
    using carries_map [OF carries_number [of 13 "f32_to_int32 ?f + bias"],
        of "\<lambda>t. f32_mem (f32_of_int (sint (t - bias)))"] by simp
  have w: "carries (WriteFloat ?f) (\<lambda>m3. rbind (ReadFloat m3) (\<lambda>(f, m4). Inr (f32_mem f, m4))) (f32_mem ?f)"
    by (rule carries_map [OF carries_float])
  show ?thesis
    unfolding WriteNumberPlayerStateField_def [abs_def] ReadNumberPlayerStateField_def [abs_def]
      sent_player_number_def True Let_def FLOAT_INT_BITS_def if_True simp_thms
    by (rule carries_bool_bind, rule carries_if) (simp_all add: p w)
next
  case False
  have sz: "\<not> 4 < length toF" "num_bits bits \<le> 8 * length toF" using assms by (simp_all add: regular_ok_def)
  show ?thesis
    using carries_bits [OF sz(2), of "replicate (4 - length toF) 0"] sz(1) False
    by (simp add: WriteNumberPlayerStateField_def [abs_def] ReadNumberPlayerStateField_def [abs_def] sent_player_number_def)
qed

fun type_okp6 :: "int \<Rightarrow> nat \<Rightarrow> fieldType_ver6_e \<Rightarrow> bool" where
  "type_okp6 bits sz regular6 \<longleftrightarrow> regular_ok bits sz"
| "type_okp6 bits sz angle6 \<longleftrightarrow> bits = 16 \<or> bits = - 13"
| "type_okp6 bits sz coord6 \<longleftrightarrow> True"
| "type_okp6 bits sz velocity6 \<longleftrightarrow> True"
| "type_okp6 bits sz _ \<longleftrightarrow> False"

definition sent_player :: "byte list \<Rightarrow> ('m, fieldType_ver6_e) netField \<Rightarrow> byte list" where
  "sent_player toF field =
     (let bits = nf_bits field; x = mem_f32 toF
      in case nf_type field of
           regular6 \<Rightarrow> sent_player_number bits toF
         | angle6 \<Rightarrow> f32_mem (UnpackAngle (PackAngle x bits) bits False)
         | coord6 \<Rightarrow> f32_mem (coord_value (coord_number x))
         | velocity6 \<Rightarrow> f32_mem (coord_small_value (coord_small_number x))
         | _ \<Rightarrow> toF)"

lemma player_member_carries:
  assumes ok: "type_okp6 (nf_bits f) (nf_size f) (nf_type f)" and len: "length toF = nf_size f"
  shows "carries (write_player_member fromF toF f) (read_player_member fromF oldF f) (sent_player toF f)"
proof -
  note defs = write_player_member_def [abs_def] read_player_member_def [abs_def] sent_player_def Let_def
  show ?thesis
  proof (cases "nf_type f")
    case regular6
    then show ?thesis
      using ok len player_number_carries [of "nf_bits f" toF] by (simp add: defs)
  next
    case angle6
    then have "take_bit (num_bits (nf_bits f)) (PackAngle (mem_f32 toF) (nf_bits f)) = PackAngle (mem_f32 toF) (nf_bits f)"
      "num_bits (nf_bits f) \<le> 32"
      using ok by (auto simp: num_bits_def angle_fits angle16_fits)
    from carries_packed [OF this(2,1), of "\<lambda>v. f32_mem (UnpackAngle v (nf_bits f) False)"] show ?thesis
      by (simp add: defs angle6 WriteAngleField_def [abs_def] read_float_map ReadAngleField_def rbind_Inr_prod)
  next
    case coord6
    then show ?thesis
      using carries_map [OF coord_carries [of "mem_f32 toF"], of f32_mem] by (simp add: defs read_float_map)
  next
    case velocity6
    then show ?thesis
      using carries_map [OF coord_small_carries [of "mem_f32 toF"], of f32_mem] by (simp add: defs read_float_map)
  qed (use ok in simp_all)
qed

lemma playerStateFields_ok:
  "list_all (player_member_ok type_okp6) playerStateFields" "distinct (map nf_member playerStateFields)"
  "length playerStateFields = 54" "playerStateFields ! 25 = PSF ps_pm_flags 16 regular6"
  by code_simp+

lemma playerStateFields_ver15_ok:
  "list_all (player_member_ok type_okp15) playerStateFields_ver15" "distinct (map nf_member playerStateFields_ver15)"
  "length playerStateFields_ver15 = 55"
  by code_simp+

section \<open>The flags\<close>

lemma nat_mod_32: "nat (int k mod 32) = k mod 32"
  by (simp add: nat_mod_as_int)

lemma bit_shl1: "bit (shl1 (int k)) n \<longleftrightarrow> n = k mod 32"
  by (auto simp: shl1_def bit_exp_iff possible_bit_def nat_mod_32)

lemma and_shl1: "w AND shl1 (int k) \<noteq> 0 \<longleftrightarrow> bit w (k mod 32)" (is "?l \<longleftrightarrow> ?r")
proof
  assume ?l
  then obtain n where "bit (w AND shl1 (int k)) n" by (metis bit_0_eq bit_eqI bot_apply bot_bool_def)
  then show ?r by (auto simp: bit_and_iff bit_shl1)
next
  assume ?r
  then have "bit (w AND shl1 (int k)) (k mod 32)" by (simp add: bit_and_iff bit_shl1)
  then show ?l by auto
qed

lemma move_flags_bit:
  "bit (fold (\<lambda>i new. if w AND shl1 (int (s i)) \<noteq> 0 then new OR shl1 (int (d i)) else new) is new) n \<longleftrightarrow>
     bit new n \<or> (\<exists>i\<in>set is. bit w (s i mod 32) \<and> n = d i mod 32)"
proof (induction "is" arbitrary: new)
  case (Cons i "is")
  then show ?case by (cases "w AND shl1 (int (s i)) = 0") (auto simp: and_shl1 bit_or_iff bit_shl1)
qed simp

lemma move_flags_bit16:
  fixes w :: u16
  assumes "n < 16"
  shows "bit (ucast (move_flags s d (ucast w)) :: u16) n \<longleftrightarrow>
    (n = 0 \<and> bit w 0) \<or> (\<exists>i. 2 \<le> i \<and> i < 32 \<and> s i mod 32 < 16 \<and> bit w (s i mod 32) \<and> n = d i mod 32)"
proof -
  have b: "bit (ucast w :: u32) k \<longleftrightarrow> k < 16 \<and> bit w k" for k
    using bit_imp_le_length [of w k] by (auto simp: bit_unsigned_iff possible_bit_def)
  have hi: "k < 16" if "bit w k" for k using that bit_imp_le_length [of w k] by simp
  have n1: "bit (ucast w AND 1 :: u32) n \<longleftrightarrow> n = 0 \<and> bit w 0"
    by (auto simp: bit_and_iff bit_1_iff b possible_bit_def)
  show ?thesis
    using assms unfolding move_flags_def bit_unsigned_iff move_flags_bit n1 b set_upt atLeastLessThan_iff Bex_def
    by (simp only: conj_assoc) (auto simp: possible_bit_def dest: hi)
qed

lemma Normalize_bit:
  assumes "n < 16"
  shows "bit (NormalizePlayerState w) n \<longleftrightarrow> (n = 0 \<and> bit w 0) \<or> (2 \<le> n \<and> n < 14 \<and> bit w (n + 2))"
proof -
  have "(\<exists>i. 2 \<le> i \<and> i < 32 \<and> (i + 2) mod 32 < 16 \<and> bit w ((i + 2) mod 32) \<and> n = i mod 32) \<longleftrightarrow>
      2 \<le> n \<and> n < 14 \<and> bit w (n + 2)"
    using assms by auto
  then show ?thesis unfolding NormalizePlayerState_def move_flags_bit16 [OF assms] by blast
qed

lemma UnNormalize_bit:
  assumes "n < 16"
  shows "bit (UnNormalizePlayerState w) n \<longleftrightarrow> (n = 0 \<and> bit w 0) \<or> (4 \<le> n \<and> bit w (n - 2))"
proof -
  have "(\<exists>i. 2 \<le> i \<and> i < 32 \<and> i mod 32 < 16 \<and> bit w (i mod 32) \<and> n = (i + 2) mod 32) \<longleftrightarrow>
      4 \<le> n \<and> bit w (n - 2)" (is "?l \<longleftrightarrow> ?r")
  proof
    assume ?l
    then obtain i where "2 \<le> i" "i < 32" "i mod 32 < 16" "bit w (i mod 32)" "n = (i + 2) mod 32" by blast
    then show ?r by simp
  next
    assume ?r
    then show ?l using assms by (intro exI [of _ "n - 2"]) auto
  qed
  then show ?thesis unfolding UnNormalizePlayerState_def move_flags_bit16 [OF assms] by blast
qed

text \<open>The flags come back unless they use bit 1 or the two highest bits, which the old flags lack.\<close>

lemma normalize_unnormalize:
  "NormalizePlayerState (UnNormalizePlayerState w) = w \<longleftrightarrow> \<not> bit w 1 \<and> \<not> bit w 14 \<and> \<not> bit w 15"
proof -
  have b: "bit (NormalizePlayerState (UnNormalizePlayerState w)) n \<longleftrightarrow>
      (n = 0 \<and> bit w 0) \<or> (2 \<le> n \<and> n < 14 \<and> bit w n)" if "n < 16" for n
    using that by (cases "n < 14") (auto simp: Normalize_bit UnNormalize_bit)
  show ?thesis
  proof
    assume e: "NormalizePlayerState (UnNormalizePlayerState w) = w"
    then show "\<not> bit w 1 \<and> \<not> bit w 14 \<and> \<not> bit w 15" using b [of 1] b [of 14] b [of 15] by simp
  next
    assume lacks: "\<not> bit w 1 \<and> \<not> bit w 14 \<and> \<not> bit w 15"
    show "NormalizePlayerState (UnNormalizePlayerState w) = w"
    proof (rule bit_word_eqI)
      fix n :: nat assume "n < LENGTH(16)"
      then have "n < 16" "n = 0 \<or> n = 1 \<or> (2 \<le> n \<and> n < 14) \<or> n = 14 \<or> n = 15" by auto
      then show "bit (NormalizePlayerState (UnNormalizePlayerState w)) n = bit w n"
        unfolding b [OF \<open>n < 16\<close>] using lacks by auto
    qed
  qed
qed

section \<open>A player transfers\<close>

text \<open>The state that the reader has; \<open>upd\<close> is what it does with the members it read.\<close>

lemma player_carries:
  assumes len: "length fs < 256"
    and field: "\<And>f toF. f \<in> set fs \<Longrightarrow> need f \<Longrightarrow>
      carries (wr (from (nf_member f)) (toM (nf_member f)) f) (rd (from (nf_member f)) toF f) (sent f)"
    and arrays: "arrays_ok fromPS" "arrays_ok to"
      "arrays_ok (upd lc (set_fields (field_value need sent from) (take lc fs) mem))"
    and lc: "lc = last_change 0 0 (map need fs)"
  shows "carries (\<lambda>m. rbind (WriteByte (of_nat lc) m) (\<lambda>m1.
      rbind (write_fields wr from toM (take lc (zip fs (map need fs))) m1) (save_arrays fromPS to)))
    (\<lambda>m. rbind (ReadByte m) (\<lambda>(lc, m1). if unat lc > length fs then Inl (err lc)
      else rbind (read_fields rd from (take (unat lc) fs) mem m1) (\<lambda>(mem, m2). load_arrays (upd (unat lc) mem) m2)))
    (arrays_received fromPS to (upd lc (set_fields (field_value need sent from) (take lc fs) mem)))"
proof -
  have u: "unat (of_nat lc :: byte) = lc" and nl: "\<not> lc > length fs"
    using len table_lc(1) [of need fs] by (simp_all add: lc unsigned_of_nat take_bit_nat_eq_self)
  let ?r = "arrays_received fromPS to (upd lc (set_fields (field_value need sent from) (take lc fs) mem))"
  have "carries (write_fields wr from toM (take lc (zip fs (map need fs)))) (read_fields rd from (take lc fs) mem)
      (set_fields (field_value need sent from) (take lc fs) mem)"
    by (rule table_carries) (rule field)
  from carries_bind [OF this, where r' = "\<lambda>mem. load_arrays (upd lc mem)", OF arrays_carry [OF arrays]]
  have "carries (\<lambda>m1. rbind (write_fields wr from toM (take lc (zip fs (map need fs))) m1) (save_arrays fromPS to))
      (\<lambda>m1. if unat (of_nat lc :: byte) > length fs then Inl (err (of_nat lc))
        else rbind (read_fields rd from (take (unat (of_nat lc :: byte)) fs) mem m1)
          (\<lambda>(mem, m2). load_arrays (upd (unat (of_nat lc :: byte)) mem) m2)) ?r"
    by (simp add: u nl)
  then show ?thesis by (rule carries_bind [OF carries_byte])
qed

definition player_ok :: "playerState_t \<Rightarrow> bool" where
  "player_ok ps \<longleftrightarrow> arrays_ok ps \<and> (\<forall>m. length (ps_mem ps m) = player_member_size m)"

lemma playerState_new_ok [simp]: "player_ok playerState_new"
  by (simp add: player_ok_def arrays_ok_def playerState_new_def)

lemma player_ok_from: "(\<forall>f. from = Some f \<longrightarrow> player_ok f) \<Longrightarrow> player_ok (from_player from)"
  by (simp add: from_player_def split: option.split)

lemma arrays_ok_mem [simp]:
  "arrays_ok (st\<lparr>ps_mem := mem, ps_stats := stats\<rparr>) \<longleftrightarrow> arrays_ok (st\<lparr>ps_stats := stats\<rparr>)"
  by (simp add: arrays_ok_def)

lemma arrays_ok_stats: "arrays_ok st \<Longrightarrow> arrays_ok ps \<Longrightarrow> arrays_ok (st\<lparr>ps_stats := ps_stats ps\<rparr>)"
  by (simp add: arrays_ok_def)

lemma arrays_received_sel [simp]:
  "ps_mem (arrays_received from to st) = ps_mem st"
  "ps_stats (arrays_received from to st) = received_numbers (ps_stats from) (ps_stats to) (ps_stats st)"
  "ps_activeItems (arrays_received from to st) =
     received_numbers (ps_activeItems from) (ps_activeItems to) (ps_activeItems st)"
  "ps_ammo_amount (arrays_received from to st) =
     received_numbers (ps_ammo_amount from) (ps_ammo_amount to) (ps_ammo_amount st)"
  "ps_ammo_name_index (arrays_received from to st) =
     received_numbers (ps_ammo_name_index from) (ps_ammo_name_index to) (ps_ammo_name_index st)"
  "ps_max_ammo_amount (arrays_received from to st) =
     received_numbers (ps_max_ammo_amount from) (ps_max_ammo_amount to) (ps_max_ammo_amount st)"
  by (simp_all add: arrays_received_def)

lemma player_transfer_ver15:
  assumes "player_ok to" "player_ok st" "player_ok (from_player from)"
  shows "\<exists>r. transfer (player_SaveDelta_ver15 from) (player_LoadDelta_ver15 from st) to (DynS (dyn_new fresh)) = Inr r \<and>
    ps_stats r = ps_stats to \<and>
    ps_activeItems r = received_numbers (ps_activeItems (from_player from)) (ps_activeItems to) (ps_activeItems st) \<and>
    ps_ammo_amount r = received_numbers (ps_ammo_amount (from_player from)) (ps_ammo_amount to) (ps_ammo_amount st) \<and>
    ps_ammo_name_index r =
      received_numbers (ps_ammo_name_index (from_player from)) (ps_ammo_name_index to) (ps_ammo_name_index st) \<and>
    ps_max_ammo_amount r =
      received_numbers (ps_max_ammo_amount (from_player from)) (ps_max_ammo_amount to) (ps_max_ammo_amount st) \<and>
    (\<forall>f\<in>set playerStateFields_ver15. ps_mem r (nf_member f) =
       (if player_needed (ps_mem (from_player from) (nf_member f)) (ps_mem to (nf_member f)) f
        then sent_player_ver15 (ps_mem (from_player from) (nf_member f)) (ps_mem to (nf_member f)) f
        else ps_mem (from_player from) (nf_member f)))"
proof -
  let ?from = "from_player from" and ?fs = playerStateFields_ver15
  define need where "need f = player_needed (ps_mem ?from (nf_member f)) (ps_mem to (nf_member f)) f"
    for f :: "(player_member, fieldType_ver15_e) netField"
  define lc where "lc = last_change 0 0 (map need ?fs)"
  define sent where "sent f = sent_player_ver15 (ps_mem ?from (nf_member f)) (ps_mem to (nf_member f)) f"
    for f :: "(player_member, fieldType_ver15_e) netField"
  let ?upd = "\<lambda>lc mem. st\<lparr>ps_mem := CopyFields (ps_mem ?from) mem (drop lc ?fs), ps_stats := ps_stats ?from\<rparr>"
  let ?r = "arrays_received ?from to (?upd lc (set_fields (field_value need sent (ps_mem ?from)) (take lc ?fs) (ps_mem st)))"
  have member: "carries (write_player_member_ver15 (ps_mem ?from (nf_member f)) (ps_mem to (nf_member f)) f)
      (read_player_member_ver15 (ps_mem ?from (nf_member f)) toF f) (sent f)" if "f \<in> set ?fs" for f toF
  proof -
    have "player_member_ok type_okp15 f" using playerStateFields_ver15_ok(1) that by (simp add: list_all_iff)
    then show ?thesis
      unfolding sent_def by (intro player_member_carries_ver15) (use assms(1) in \<open>auto simp: player_member_ok_def player_ok_def\<close>)
  qed
  have nd: "changed_fields player_needed ?fs (ps_mem ?from) (ps_mem to) = map need ?fs"
    by (simp add: changed_fields_def need_def)
  have "carries (player_SaveDelta_ver15 from to) (player_LoadDelta_ver15 from st) ?r"
    unfolding player_SaveDelta_ver15_def [abs_def] player_LoadDelta_ver15_def [abs_def] Let_def nd lc_def [symmetric]
    by (rule player_carries [where upd = ?upd, OF _ _ _ _ _ lc_def])
      (use assms playerStateFields_ver15_ok(3) member arrays_ok_stats in \<open>auto simp: player_ok_def\<close>)
  then obtain bs where "puts (player_SaveDelta_ver15 from to) bs" "gets (player_LoadDelta_ver15 from st) bs ?r"
    by (rule carriesE)
  from transfer_dyn [where put = "player_SaveDelta_ver15 from" and x = to, OF this]
  have "transfer (player_SaveDelta_ver15 from) (player_LoadDelta_ver15 from st) to (DynS (dyn_new fresh)) = Inr ?r" .
  moreover have "ps_stats ?r = ps_stats to"
    using assms by (simp add: player_ok_def arrays_ok_def received_numbers_same)
  moreover have "ps_mem ?r (nf_member f) = (if need f then sent f else ps_mem ?from (nf_member f))"
    if "f \<in> set ?fs" for f
    using that by (simp add: table_rest [OF lc_def] set_fields_member [OF playerStateFields_ver15_ok(2)] field_value_def)
  ultimately show ?thesis by (intro exI [of _ ?r]) (simp add: need_def sent_def)
qed

text \<open>C15: With version 15 and later the reader has of every changed member of a player the value that its packing
  gives (a precise coordinate that changed by less than its packing keeps is one that jumps), the old value
  of every other member, and the writer's stats; of the active items and of the three arrays of
  ammunition it has the changed numbers, and its own old ones elsewhere, not those of the old state.\<close>

theorem player_delta_transfer_ver15:
  assumes "player_ok to" "player_ok st" "player_ok (from_player from)"
  shows "\<exists>r. transfer (player_SaveDelta_ver15 from) (player_LoadDelta_ver15 from st) to (DynS (dyn_new fresh)) = Inr r \<and>
    ps_stats r = ps_stats to \<and>
    ps_activeItems r = received_numbers (ps_activeItems (from_player from)) (ps_activeItems to) (ps_activeItems st) \<and>
    ps_ammo_amount r = received_numbers (ps_ammo_amount (from_player from)) (ps_ammo_amount to) (ps_ammo_amount st) \<and>
    ps_ammo_name_index r =
      received_numbers (ps_ammo_name_index (from_player from)) (ps_ammo_name_index to) (ps_ammo_name_index st) \<and>
    ps_max_ammo_amount r =
      received_numbers (ps_max_ammo_amount (from_player from)) (ps_max_ammo_amount to) (ps_max_ammo_amount st) \<and>
    (\<forall>f\<in>set playerStateFields_ver15. ps_mem r (nf_member f) =
       (if player_needed (ps_mem (from_player from) (nf_member f)) (ps_mem to (nf_member f)) f
        then sent_player_ver15 (ps_mem (from_player from) (nf_member f)) (ps_mem to (nf_member f)) f
        else ps_mem (from_player from) (nf_member f)))"
  by (rule player_transfer_ver15 [OF assms])

definition a_player :: playerState_t where
  "a_player = playerState_new\<lparr>ps_mem := (ps_mem playerState_new)(ps_origin 0 := [10, 215, 35, 60], ps_pm_type := [3]),
     ps_stats := (ps_stats playerState_new)[2 := 100]\<rparr>"

lemma a_player_ok: "player_ok a_player" "player_ok (from_player None)"
  by (simp_all add: a_player_def from_player_def player_ok_def arrays_ok_def playerState_new_def)

theorem player_delta_transfer_ver15_witness:
  "\<exists>r. transfer (player_SaveDelta_ver15 None) (player_LoadDelta_ver15 None playerState_new) a_player
      (DynS (dyn_new 0)) = Inr r \<and> ps_stats r ! 2 = 100 \<and> ps_mem r ps_pm_type = [3]"
proof -
  let ?f = "PSF ps_pm_type 8 regular15"
  have in_table: "?f \<in> set playerStateFields_ver15" by code_simp
  have n: "nf_member ?f = ps_pm_type" by (simp add: PSF_def)
  have v: "player_needed (ps_mem (from_player None) ps_pm_type) (ps_mem a_player ps_pm_type) ?f" by code_simp
  have sent: "sent_player_ver15 (ps_mem (from_player None) ps_pm_type) (ps_mem a_player ps_pm_type) ?f = [3]"
    by (simp add: sent_player_ver15_def PSF_def sent_regular2_def num_bits_def take_bit_eq_mod a_player_def)
  obtain r where r: "transfer (player_SaveDelta_ver15 None) (player_LoadDelta_ver15 None playerState_new) a_player
      (DynS (dyn_new 0)) = Inr r" "ps_stats r = ps_stats a_player"
    "\<forall>f\<in>set playerStateFields_ver15. ps_mem r (nf_member f) =
       (if player_needed (ps_mem (from_player None) (nf_member f)) (ps_mem a_player (nf_member f)) f
        then sent_player_ver15 (ps_mem (from_player None) (nf_member f)) (ps_mem a_player (nf_member f)) f
        else ps_mem (from_player None) (nf_member f))"
    using player_delta_transfer_ver15 [OF a_player_ok(1) playerState_new_ok a_player_ok(2), of 0] by blast
  have "ps_stats a_player ! 2 = 100" by (simp add: a_player_def playerState_new_def MAX_STATS_def)
  then show ?thesis
    using r(1,2) bspec [OF r(3) in_table, unfolded n if_P [OF v] sent] by auto
qed

text \<open>C28: A player whose position changed by less than the packing of version 15 keeps arrives 512 steps,
  32 units, from where it is: \<open>SaveDelta\<close> compares the floats, the packed positions are equal, and a
  difference of zero is sent as the largest one.\<close>

theorem player_origin_jumps:
  assumes "player_ok to" "player_ok st" "player_ok (from_player from)" "i < 3"
    and "ps_mem (from_player from) (ps_origin i) \<noteq> ps_mem to (ps_origin i)"
    and "PackCoordExtra (mem_f32 (ps_mem to (ps_origin i))) = PackCoordExtra (mem_f32 (ps_mem (from_player from) (ps_origin i)))"
  shows "\<exists>r. transfer (player_SaveDelta_ver15 from) (player_LoadDelta_ver15 from st) to (DynS (dyn_new fresh)) = Inr r \<and>
    ps_mem r (ps_origin i) =
      f32_mem (UnpackCoordExtra (PackCoordExtra (mem_f32 (ps_mem to (ps_origin i))) + 512))"
proof -
  let ?f = "PSF (ps_origin i) 0 coordExtra15"
  have "i \<in> {0, 1, 2}" using assms(4) by auto
  then have f: "?f \<in> set playerStateFields_ver15"
    by (auto simp: playerStateFields_ver15_def)
  have n: "nf_member ?f = ps_origin i" by (simp add: PSF_def)
  have v: "player_needed (ps_mem (from_player from) (ps_origin i)) (ps_mem to (ps_origin i)) ?f"
    using assms(5) by (simp add: player_needed_def DeltaNeeded_def PSF_def)
  have s: "sent_player_ver15 (ps_mem (from_player from) (ps_origin i)) (ps_mem to (ps_origin i)) ?f =
      f32_mem (UnpackCoordExtra (PackCoordExtra (mem_f32 (ps_mem to (ps_origin i))) + 512))"
    using assms(6) by (simp add: sent_player_ver15_def PSF_def coord_extra_received_def)
  obtain r where r: "transfer (player_SaveDelta_ver15 from) (player_LoadDelta_ver15 from st) to (DynS (dyn_new fresh)) = Inr r"
    "\<forall>f\<in>set playerStateFields_ver15. ps_mem r (nf_member f) =
       (if player_needed (ps_mem (from_player from) (nf_member f)) (ps_mem to (nf_member f)) f
        then sent_player_ver15 (ps_mem (from_player from) (nf_member f)) (ps_mem to (nf_member f)) f
        else ps_mem (from_player from) (nf_member f))"
    using player_transfer_ver15 [OF assms(1,2,3), of fresh] by blast
  show ?thesis using r(1) bspec [OF r(2) f, unfolded n if_P [OF v] s] by blast
qed

lemma le_bytes_4:
  "le_bytes 4 v = [of_nat v, of_nat (v div 256), of_nat (v div 256 div 256), of_nat (v div 256 div 256 div 256)]"
proof -
  have "(4 :: nat) = Suc (Suc (Suc (Suc 0)))" by simp
  then show ?thesis by (simp only: le_bytes.simps)
qed

theorem player_origin_jumps_witness:
  "\<exists>r. transfer (player_SaveDelta_ver15 None) (player_LoadDelta_ver15 None playerState_new) a_player
      (DynS (dyn_new 0)) = Inr r \<and> ps_mem r (ps_origin 0) = [0, 0, 0, 66]"
proof -
  have m: "ps_mem (from_player None) (ps_origin 0) = [0, 0, 0, 0]" "ps_mem a_player (ps_origin 0) = [10, 215, 35, 60]"
    by (simp_all add: from_player_def playerState_new_def a_player_def numeral_eq_Suc)
  have b: "mem_f32 [0, 0, 0, 0] = 0" "mem_f32 [10, 215, 35, 60] = 1008981770" "f32_mem 0x42000000 = [0, 0, 0, 66]"
    by (simp_all add: mem_f32_def f32_mem_def le_bytes_4)
  have p: "PackCoordExtra 0 = 131072" "PackCoordExtra 1008981770 = 131072" "UnpackCoordExtra 131584 = 0x42000000"
    by code_simp+
  have "ps_mem (from_player None) (ps_origin 0) \<noteq> ps_mem a_player (ps_origin 0)"
    "PackCoordExtra (mem_f32 (ps_mem a_player (ps_origin 0))) = PackCoordExtra (mem_f32 (ps_mem (from_player None) (ps_origin 0)))"
    "f32_mem (UnpackCoordExtra (PackCoordExtra (mem_f32 (ps_mem a_player (ps_origin 0))) + 512)) = [0, 0, 0, 66]"
    by (simp_all add: m b p)
  then show ?thesis
    using player_origin_jumps [OF a_player_ok(1) playerState_new_ok a_player_ok(2), of 0 0] by simp
qed

section \<open>A player transfers with version 6\<close>

text \<open>The flags are taken for flags of the old version if the field was read and they differ from the
  flags that the reader's state had before.\<close>

definition flags_loaded :: "bool \<Rightarrow> byte list \<Rightarrow> byte list \<Rightarrow> byte list" where
  "flags_loaded was_read old v =
     (if was_read \<and> mem_u16 v \<noteq> mem_u16 old then u16_mem (NormalizePlayerState (mem_u16 v)) else v)"

lemma set_fields_local: "mem m = mem' m \<Longrightarrow> set_fields val fs mem m = set_fields val fs mem' m"
proof (induction fs arbitrary: mem mem')
  case (Cons f fs)
  show ?case unfolding set_fields.simps by (rule Cons.IH) (simp add: Cons.prems)
qed simp

lemma set_fields_take:
  assumes "distinct (map nf_member fs)" "j < length fs" "x = nf_member (fs ! j)"
  shows "x \<in> nf_member ` set (take lc fs) \<longleftrightarrow> j < lc" "x \<in> nf_member ` set (drop lc fs) \<longleftrightarrow> lc \<le> j"
proof -
  have inj: "nf_member (fs ! i) = x \<longleftrightarrow> i = j" if "i < length fs" for i
    using nth_eq_iff_index_eq [OF assms(1), of i j] that assms(2,3) by simp
  show "x \<in> nf_member ` set (take lc fs) \<longleftrightarrow> j < lc"
  proof
    assume "x \<in> nf_member ` set (take lc fs)"
    then obtain i where "i < length fs" "i < lc" "x = nf_member (fs ! i)" by (auto simp: in_set_conv_nth)
    then show "j < lc" using inj [of i] by auto
  next
    assume "j < lc"
    then have "fs ! j = take lc fs ! j" "j < length (take lc fs)" using assms(2) by simp_all
    then show "x \<in> nf_member ` set (take lc fs)" using assms(3) nth_mem by (metis imageI)
  qed
  show "x \<in> nf_member ` set (drop lc fs) \<longleftrightarrow> lc \<le> j"
  proof
    assume "x \<in> nf_member ` set (drop lc fs)"
    then obtain i where "i < length fs - lc" "x = nf_member (fs ! (lc + i))" by (auto simp: in_set_conv_nth)
    then show "lc \<le> j" using inj [of "lc + i"] by auto
  next
    assume "lc \<le> j"
    then have "fs ! j = drop lc fs ! (j - lc)" "j - lc < length (drop lc fs)" using assms(2) by simp_all
    then show "x \<in> nf_member ` set (drop lc fs)" using assms(3) nth_mem by (metis imageI)
  qed
qed

text \<open>C21: With version 6 every member but the flags transfers as its packing keeps it. The flags are
  sent with the bits of the old version; the reader translates them back only if the field was read and
  differs from the flags it had, also when they were copied from the old state and not sent.\<close>

theorem player_delta_transfer:
  assumes "player_ok to" "player_ok st" "player_ok (from_player from)"
  shows "\<exists>r. transfer (player_SaveDelta from) (player_LoadDelta from st) to (DynS (dyn_new fresh)) = Inr r \<and>
    ps_stats r = ps_stats to \<and>
    (\<forall>f\<in>set playerStateFields. ps_mem r (nf_member f) =
       (let v = (if DeltaNeeded (ps_mem (from_player from) (nf_member f)) (ps_mem to (nf_member f)) f
                 then sent_player (map_pm_flags UnNormalizePlayerState (ps_mem to) (nf_member f)) f
                 else ps_mem (from_player from) (nf_member f));
            lc = last_change 0 0 (changed_fields DeltaNeeded playerStateFields (ps_mem (from_player from)) (ps_mem to))
        in if nf_member f = ps_pm_flags then flags_loaded (25 < lc) (ps_mem st ps_pm_flags) v else v))"
proof -
  let ?from = "from_player from" and ?fs = playerStateFields
  let ?toM = "map_pm_flags UnNormalizePlayerState (ps_mem to)"
  define need where "need f = DeltaNeeded (ps_mem ?from (nf_member f)) (ps_mem to (nf_member f)) f"
    for f :: "(player_member, fieldType_ver6_e) netField"
  define lc where "lc = last_change 0 0 (map need ?fs)"
  define sent where "sent f = sent_player (?toM (nf_member f)) f" for f :: "(player_member, fieldType_ver6_e) netField"
  define val where "val = field_value need sent (ps_mem ?from)"
  define upd where "upd lc mem = (let mem1 = (if mem_u16 (mem ps_pm_flags) \<noteq> mem_u16 (ps_mem st ps_pm_flags)
      then map_pm_flags NormalizePlayerState mem else mem)
    in st\<lparr>ps_mem := CopyFields (ps_mem ?from) mem1 (drop lc ?fs), ps_stats := ps_stats ?from\<rparr>)" for lc mem
  let ?mem0 = "set_fields val (take lc ?fs) (ps_mem st)"
  let ?r = "arrays_received ?from to (upd lc ?mem0)"
  have lens: "length (?toM m) = player_member_size m" for m
    using assms(1) by (simp add: map_pm_flags_def player_ok_def u16_mem_def)
  have member: "carries (write_player_member (ps_mem ?from (nf_member f)) (?toM (nf_member f)) f)
      (read_player_member (ps_mem ?from (nf_member f)) toF f) (sent f)" if "f \<in> set ?fs" for f toF
  proof -
    have "player_member_ok type_okp6 f" using playerStateFields_ok(1) that by (simp add: list_all_iff)
    then show ?thesis
      unfolding sent_def by (intro player_member_carries) (use lens in \<open>auto simp: player_member_ok_def\<close>)
  qed
  have nd: "changed_fields DeltaNeeded ?fs (ps_mem ?from) (ps_mem to) = map need ?fs"
    by (simp add: changed_fields_def need_def)
  have ok: "arrays_ok (upd n mem)" for n mem
    using assms arrays_ok_stats [of st ?from] by (simp add: upd_def Let_def player_ok_def)
  have "carries (player_SaveDelta from to) (player_LoadDelta from st) ?r"
    unfolding player_SaveDelta_def [abs_def] player_LoadDelta_def [abs_def] Let_def nd lc_def [symmetric] val_def
    unfolding upd_def [unfolded Let_def, symmetric]
    by (rule player_carries [where upd = upd, OF _ _ _ _ ok lc_def])
      (use assms playerStateFields_ok(3) member in \<open>auto simp: player_ok_def\<close>)
  then obtain bs where "puts (player_SaveDelta from to) bs" "gets (player_LoadDelta from st) bs ?r"
    by (rule carriesE)
  from transfer_dyn [where put = "player_SaveDelta from" and x = to, OF this]
  have tr: "transfer (player_SaveDelta from) (player_LoadDelta from st) to (DynS (dyn_new fresh)) = Inr ?r" .
  have stats: "ps_stats ?r = ps_stats to"
    using assms by (simp add: upd_def Let_def player_ok_def arrays_ok_def received_numbers_same)
  have copied: "CopyFields (ps_mem ?from) ?mem0 (drop lc ?fs) (nf_member f) = val f" if "f \<in> set ?fs" for f
    using that by (simp add: val_def table_rest [OF lc_def] set_fields_member [OF playerStateFields_ok(2)])
  have at: "nf_member (?fs ! 25) = ps_pm_flags" by (simp add: playerStateFields_ok(4) PSF_def)
  note pos = set_fields_take [OF playerStateFields_ok(2), of 25 ps_pm_flags lc, unfolded at playerStateFields_ok(3), simplified]
  have "ps_mem ?r (nf_member f) =
      (if nf_member f = ps_pm_flags then flags_loaded (25 < lc) (ps_mem st ps_pm_flags) (val f) else val f)"
    if f: "f \<in> set ?fs" for f
  proof (cases "nf_member f = ps_pm_flags")
    case False
    have "CopyFields (ps_mem ?from) (map_pm_flags NormalizePlayerState ?mem0) (drop lc ?fs) (nf_member f) = val f"
      using False copied [OF f] unfolding CopyFields_set
      by (subst set_fields_local [where mem' = ?mem0]) (simp_all add: map_pm_flags_def)
    then show ?thesis using False copied [OF f] by (simp add: upd_def Let_def)
  next
    case True
    show ?thesis
    proof (cases "25 < lc")
      case False
      then have "?mem0 ps_pm_flags = ps_mem st ps_pm_flags" using pos(1) by (simp add: set_fields_other)
      then show ?thesis using True False copied [OF f] by (simp add: upd_def Let_def flags_loaded_def)
    next
      case read: True
      then have rest: "CopyFields (ps_mem ?from) mem (drop lc ?fs) ps_pm_flags = mem ps_pm_flags" for mem
        using pos(2) by (simp add: CopyFields_set set_fields_other)
      then have "?mem0 ps_pm_flags = val f" using copied [OF f] True by metis
      then show ?thesis using read rest True by (simp add: upd_def Let_def flags_loaded_def map_pm_flags_def)
    qed
  qed
  then show ?thesis
    using tr stats unfolding nd lc_def [symmetric] Let_def
    by (intro exI [of _ ?r]) (simp add: val_def field_value_def need_def sent_def)
qed

theorem player_delta_transfer_witness:
  "\<exists>r. transfer (player_SaveDelta None) (player_LoadDelta None playerState_new) a_player
      (DynS (dyn_new 0)) = Inr r \<and> ps_stats r ! 2 = 100 \<and> ps_mem r ps_pm_type = [3]"
proof -
  let ?f = "PSF ps_pm_type 8 regular6"
  have in_table: "?f \<in> set playerStateFields" by code_simp
  have n: "nf_member ?f = ps_pm_type" by (simp add: PSF_def)
  have v: "DeltaNeeded (ps_mem (from_player None) ps_pm_type) (ps_mem a_player ps_pm_type) ?f" by code_simp
  have sent: "sent_player (map_pm_flags UnNormalizePlayerState (ps_mem a_player) ps_pm_type) ?f = [3]"
    by (simp add: sent_player_def PSF_def sent_player_number_def num_bits_def take_bit_eq_mod a_player_def map_pm_flags_def)
  obtain r where r: "transfer (player_SaveDelta None) (player_LoadDelta None playerState_new) a_player
      (DynS (dyn_new 0)) = Inr r" "ps_stats r = ps_stats a_player"
    "\<forall>f\<in>set playerStateFields. ps_mem r (nf_member f) =
       (let v = (if DeltaNeeded (ps_mem (from_player None) (nf_member f)) (ps_mem a_player (nf_member f)) f
                 then sent_player (map_pm_flags UnNormalizePlayerState (ps_mem a_player) (nf_member f)) f
                 else ps_mem (from_player None) (nf_member f));
            lc = last_change 0 0 (changed_fields DeltaNeeded playerStateFields (ps_mem (from_player None)) (ps_mem a_player))
        in if nf_member f = ps_pm_flags then flags_loaded (25 < lc) (ps_mem playerState_new ps_pm_flags) v else v)"
    using player_delta_transfer [OF a_player_ok(1) playerState_new_ok a_player_ok(2), of 0] by blast
  have "ps_stats a_player ! 2 = 100" by (simp add: a_player_def playerState_new_def MAX_STATS_def)
  then show ?thesis
    using r(1,2) bspec [OF r(3) in_table, unfolded n Let_def if_P [OF v] sent] by auto
qed

end
