(* ===== verification/GameState.thy ===== *)
theory GameState
  imports Configstring EntityDelta
begin

text \<open>
  The state of a game (\<open>Types/GameState.cpp\<close>): the configuration strings, the baselines of the
  entities and what is known of the map.
\<close>

section \<open>The baselines\<close>

datatype gs_error = EntityOutOfRangeException u16 | GsBadAccess

record entity_list =
  el_entityList :: "entityState_t list"
  el_maxEntities :: u16

definition EntityList_empty :: entity_list where
  "EntityList_empty = \<lparr>el_entityList = [], el_maxEntities = 0\<rparr>"

definition EntityList_new :: "u16 \<Rightarrow> entity_list" where
  "EntityList_new maxEntitiesValue =
     \<lparr>el_entityList = (if maxEntitiesValue \<noteq> 0 then replicate (unat maxEntitiesValue) entityState_new else []),
      el_maxEntities = maxEntitiesValue\<rparr>"

text \<open>A move gives the new list and what it leaves behind; the assignment frees the old list first.\<close>

definition EntityList_move :: "entity_list \<Rightarrow> entity_list \<times> entity_list" where
  "EntityList_move other = (other, other\<lparr>el_entityList := [], el_maxEntities := 0\<rparr>)"

definition EntityList_assign :: "entity_list \<Rightarrow> entity_list \<Rightarrow> entity_list \<times> entity_list" where
  "EntityList_assign self other =
     (self\<lparr>el_entityList := el_entityList other, el_maxEntities := el_maxEntities other\<rparr>,
      other\<lparr>el_entityList := [], el_maxEntities := 0\<rparr>)"

definition getMaxEntities :: "entity_list \<Rightarrow> u16" where
  "getMaxEntities el = el_maxEntities el"

definition getEntity :: "entity_list \<Rightarrow> u16 \<Rightarrow> gs_error + entityState_t" where
  "getEntity el index =
     (if index \<ge> getMaxEntities el then Inl (EntityOutOfRangeException index)
      else if unat index < length (el_entityList el) then Inr (el_entityList el ! unat index)
      else Inl GsBadAccess)"

text \<open>The other overload gives a reference, through which the entity is set.\<close>

definition setEntity :: "entity_list \<Rightarrow> u16 \<Rightarrow> entityState_t \<Rightarrow> gs_error + entity_list" where
  "setEntity el index es =
     (if index \<ge> getMaxEntities el then Inl (EntityOutOfRangeException index)
      else if unat index < length (el_entityList el)
      then Inr (el\<lparr>el_entityList := (el_entityList el)[unat index := es]\<rparr>)
      else Inl GsBadAccess)"

definition el_reset :: "entity_list \<Rightarrow> gs_error + entity_list" where
  "el_reset el =
     (if unat (el_maxEntities el) \<le> length (el_entityList el)
      then Inr (el\<lparr>el_entityList :=
        replicate (unat (el_maxEntities el)) entityState_new @ drop (unat (el_maxEntities el)) (el_entityList el)\<rparr>)
      else Inl GsBadAccess)"

section \<open>The state of the game\<close>

record gameState_t =
  gs_csMan :: cs_manager
  gs_entityBaselines :: entity_list
  gs_mapInfo :: mapInfo

definition mapInfo_new :: mapInfo where
  "mapInfo_new = \<lparr>mp_serverId = 0, mp_checksumFeed = 0\<rparr>"

definition gameState_empty :: gameState_t where
  "gameState_empty =
     \<lparr>gs_csMan = cs_empty, gs_entityBaselines = EntityList_empty, gs_mapInfo = mapInfo_new\<rparr>"

definition gameState_new :: "nat \<Rightarrow> nat \<Rightarrow> u16 \<Rightarrow> gameState_t" where
  "gameState_new numConfigStrings maxChars maxBaselines =
     \<lparr>gs_csMan = cs_new numConfigStrings maxChars, gs_entityBaselines = EntityList_new maxBaselines,
      gs_mapInfo = mapInfo_new\<rparr>"

section \<open>Lookups\<close>

definition el_ok :: "entity_list \<Rightarrow> bool" where
  "el_ok el \<longleftrightarrow> length (el_entityList el) = unat (el_maxEntities el)"

lemma EntityList_new_ok [simp]: "el_ok EntityList_empty" "el_ok (EntityList_new n)"
  by (simp_all add: el_ok_def EntityList_empty_def EntityList_new_def)

lemma getEntity_ok [simp]:
  "el_ok el \<Longrightarrow> getEntity el i =
     (if i < el_maxEntities el then Inr (el_entityList el ! unat i) else Inl (EntityOutOfRangeException i))"
  by (auto simp: el_ok_def getEntity_def getMaxEntities_def word_less_nat_alt word_le_nat_alt not_le)

end
