(* ===== verification/Snapshot.thy ===== *)
theory Snapshot
  imports GameState PlayerDelta
begin

text \<open>
  Snapshots (\<open>Types/Snapshot.h\<close>, \<open>Types/Snapshot.cpp\<close>, \<open>Parsing/Snapshot.cpp\<close>): the state of a player
  and the entities at one time, sent against an older snapshot. The entities of all snapshots are in
  one ring, in which a snapshot has a start and a number of entities.

  A division by zero and an index out of an array are the error \<open>SnapBadAccess\<close>. What an exception
  leaves in the slots of the ring after the last entity is not modelled.
\<close>

section \<open>The state\<close>

definition MAX_MAP_AREA_BYTES :: nat where "MAX_MAP_AREA_BYTES = 32"
definition MAX_ENTITIES_IN_SNAPSHOT :: nat where "MAX_ENTITIES_IN_SNAPSHOT = 1024"
definition MAX_SERVER_SOUNDS :: nat where "MAX_SERVER_SOUNDS = 32"
definition SNAPFLAG_NOT_ACTIVE :: "'a::len word" where "SNAPFLAG_NOT_ACTIVE = 2"
definition SNAPFLAG_SERVERCOUNT :: "'a::len word" where "SNAPFLAG_SERVERCOUNT = 4"
definition CS_MAX_SOUNDS :: u16 where "CS_MAX_SOUNDS = 512"

datatype snap_error =
    SnapMsg msg_error
  | SnapGameState gs_error
  | SnapConfigstring cs_error
  | AreaMaskBadSize byte
  | BadEntityNumberException u16
  | SnapBadAccess

fun lift_snap :: "msg_error + 'a \<Rightarrow> snap_error + 'a" where
  "lift_snap (Inl e) = Inl (SnapMsg e)"
| "lift_snap (Inr x) = Inr x"

text \<open>The pointer to the entity of a sound is the number of its baseline.\<close>

record sound_t =
  sd_entity :: "u16 option"
  sd_soundName :: "byte list option"
  sd_origin :: "u32 \<times> u32 \<times> u32"
  sd_volume :: u32
  sd_minDist :: u32
  sd_maxDist :: u32
  sd_pitch :: u32
  sd_channel :: byte
  sd_hasStopped :: bool
  sd_isStreamed :: bool
  sd_isSpatialized :: bool
  sd_hasVolume :: bool
  sd_hasDist :: bool
  sd_hasPitch :: bool

text \<open>The origin is not initialised; the model takes zeros.\<close>

definition sound_new :: sound_t where
  "sound_new =
     \<lparr>sd_entity = None, sd_soundName = None, sd_origin = (0, 0, 0), sd_volume = 0, sd_minDist = 0,
      sd_maxDist = 0, sd_pitch = 0, sd_channel = 0, sd_hasStopped = False, sd_isStreamed = False,
      sd_isSpatialized = False, sd_hasVolume = False, sd_hasDist = False, sd_hasPitch = False\<rparr>"

text \<open>\<open>deltaNum\<close> is signed.\<close>

record rawSnapshot_t =
  rs_serverTime :: u32
  rs_deltaNum :: u32
  rs_messageNum :: u32
  rs_numEntities :: u32
  rs_parseEntitiesNum :: u32
  rs_serverCommandNum :: u32
  rs_numSounds :: u32
  rs_snapFlags :: byte
  rs_serverTimeResidual :: byte
  rs_areamask :: "byte list"
  rs_cmdNum :: byte
  rs_ps :: playerState_t
  rs_valid :: bool
  rs_sounds :: "sound_t list"

definition rawSnapshot_new :: rawSnapshot_t where
  "rawSnapshot_new =
     \<lparr>rs_serverTime = 0, rs_deltaNum = 0, rs_messageNum = 0, rs_numEntities = 0, rs_parseEntitiesNum = 0,
      rs_serverCommandNum = 0, rs_numSounds = 0, rs_snapFlags = 0, rs_serverTimeResidual = 0,
      rs_areamask = replicate MAX_MAP_AREA_BYTES 0, rs_cmdNum = 0, rs_ps = playerState_new, rs_valid = False,
      rs_sounds = replicate MAX_SERVER_SOUNDS sound_new\<rparr>"

text \<open>The pointer \<open>oldSnap\<close> is an index of \<open>oldSnapshots\<close>; \<open>parseEntities\<close> is the ring.\<close>

record snapshotParm_t =
  sp_oldSnapshots :: "rawSnapshot_t list"
  sp_oldSnap :: "nat option"
  sp_parseEntities :: "entityState_t list"
  sp_numOldSnapshots :: nat
  sp_maxParseEntities :: nat
  sp_maxSnapshotEntities :: nat
  sp_parseEntitiesNum :: u32
  sp_deltaTime :: u32

section \<open>The old snapshot and the areas\<close>

text \<open>The snapshot with its number and validity, and the old snapshot, which is returned also if the
  delta is not valid.\<close>

definition readOldSnapshot ::
  "rawSnapshot_t \<Rightarrow> snapshotParm_t \<Rightarrow> msg \<Rightarrow> snap_error + (rawSnapshot_t \<times> nat option) \<times> msg" where
  "readOldSnapshot snap sp m =
     rbind (lift_snap (ReadByte m)) (\<lambda>(deltaNum, m1).
     let snap1 = snap\<lparr>rs_deltaNum := (if deltaNum = 0 then - 1 else rs_messageNum snap - ucast deltaNum)\<rparr>
     in if sint (rs_deltaNum snap1) \<le> 0 then Inr ((snap1\<lparr>rs_valid := True\<rparr>, None), m1)
        else
          let slot = nat (sint (rs_deltaNum snap1)) mod sp_numOldSnapshots sp in
          if sp_numOldSnapshots sp = 0 \<or> slot \<ge> length (sp_oldSnapshots sp) then Inl SnapBadAccess
          else
            let old = sp_oldSnapshots sp ! slot;
                oldest = (unat (rs_parseEntitiesNum old) + sz_sub (sp_maxParseEntities sp) (sp_maxSnapshotEntities sp)) mod 2 ^ 64
            in if \<not> rs_valid old then Inr ((snap1, Some slot), m1)
               else if rs_messageNum old \<noteq> rs_deltaNum snap1 then Inr ((snap1, Some slot), m1)
               else if unat (sp_parseEntitiesNum sp) > oldest then Inr ((snap1, Some slot), m1)
               else Inr ((snap1\<lparr>rs_valid := True\<rparr>, Some slot), m1))"

definition readAreaMask :: "rawSnapshot_t \<Rightarrow> msg \<Rightarrow> snap_error + rawSnapshot_t \<times> msg" where
  "readAreaMask snap m =
     rbind (lift_snap (ReadByte m)) (\<lambda>(areaLen, m1).
       if unat areaLen > MAX_MAP_AREA_BYTES then Inl (AreaMaskBadSize areaLen)
       else rbind (lift_snap (ReadData (unat areaLen) m1)) (\<lambda>(bytes, m2).
         Inr (snap\<lparr>rs_areamask := blit (rs_areamask snap) 0 bytes\<rparr>, m2)))"

section \<open>The entities\<close>

text \<open>One entity is added to the ring and to the frame, unless it was removed.\<close>

definition parseDeltaEntity ::
  "entity_parser \<Rightarrow> rawSnapshot_t \<Rightarrow> snapshotParm_t \<Rightarrow> u32 \<Rightarrow> entityState_t \<Rightarrow> bool \<Rightarrow> msg \<Rightarrow>
   snap_error + rawSnapshot_t \<times> snapshotParm_t \<times> msg" where
  "parseDeltaEntity ep frame sp newNum old unchanged m =
     (let ring = sp_parseEntities sp; slot = unat (sp_parseEntitiesNum sp) mod sp_maxParseEntities sp in
      if sp_maxParseEntities sp = 0 \<or> slot \<ge> length ring then Inl SnapBadAccess
      else
        rbind (if unchanged then Inr (old, m)
               else lift_snap (readDeltaEntity ep (Some old) (ring ! slot) (ucast newNum) (sp_deltaTime sp) m))
          (\<lambda>(state, m1).
            let sp1 = sp\<lparr>sp_parseEntities := ring[slot := state]\<rparr> in
            if unat (es_number state) = ENTITYNUM_NONE then Inr (frame, sp1, m1)
            else Inr (frame\<lparr>rs_numEntities := rs_numEntities frame + 1\<rparr>,
                      sp1\<lparr>sp_parseEntitiesNum := sp_parseEntitiesNum sp1 + 1\<rparr>, m1)))"

text \<open>The place in the old frame: \<open>oldIndex\<close>, which never passes the number of entities of the frame,
  the slot of \<open>oldState\<close> and \<open>oldNum\<close>, which is 99999 after the last.\<close>

record old_cursor =
  cu_oldIndex :: nat
  cu_oldState :: nat
  cu_oldNum :: u32

definition cursor_at :: "rawSnapshot_t \<Rightarrow> snapshotParm_t \<Rightarrow> nat \<Rightarrow> snap_error + old_cursor" where
  "cursor_at oldFrame sp oldIndex =
     (let slot = unat (rs_parseEntitiesNum oldFrame + of_nat oldIndex) mod sp_maxParseEntities sp in
      if sp_maxParseEntities sp = 0 \<or> slot \<ge> length (sp_parseEntities sp) then Inl SnapBadAccess
      else Inr \<lparr>cu_oldIndex = oldIndex, cu_oldState = slot, cu_oldNum = ucast (es_number (sp_parseEntities sp ! slot))\<rparr>)"

definition next_old :: "rawSnapshot_t option \<Rightarrow> snapshotParm_t \<Rightarrow> old_cursor \<Rightarrow> snap_error + old_cursor" where
  "next_old oldFrame sp cu =
     (case oldFrame of
        None \<Rightarrow> Inl SnapBadAccess
      | Some f \<Rightarrow>
          if cu_oldIndex cu + 1 \<ge> unat (rs_numEntities f)
          then Inr (cu\<lparr>cu_oldIndex := cu_oldIndex cu + 1, cu_oldNum := 99999\<rparr>)
          else cursor_at f sp (cu_oldIndex cu + 1))"

definition old_state :: "snapshotParm_t \<Rightarrow> old_cursor \<Rightarrow> snap_error + entityState_t" where
  "old_state sp cu =
     (if cu_oldState cu < length (sp_parseEntities sp) then Inr (sp_parseEntities sp ! cu_oldState cu)
      else Inl SnapBadAccess)"

text \<open>The conditions of the two loops that copy old entities: below a new number, and to the end.\<close>

fun old_left :: "u16 option \<Rightarrow> u32 \<Rightarrow> bool" where
  "old_left (Some newNum) oldNum \<longleftrightarrow> oldNum < ucast newNum"
| "old_left None oldNum \<longleftrightarrow> oldNum \<noteq> 99999"

lemma unat_u16_u32: "unat (ucast n :: u32) = unat n" for n :: u16
  using unsigned_less [of n, where 'a = nat] by (simp add: unsigned_ucast_eq take_bit_nat_eq_self)

lemma old_left_end [simp]: "\<not> old_left lim 99999"
proof (cases lim)
  case (Some n)
  then show ?thesis using unsigned_less [of n, where 'a = nat] by (simp add: word_less_nat_alt unat_u16_u32)
qed simp

function copy_old ::
  "entity_parser \<Rightarrow> u16 option \<Rightarrow> rawSnapshot_t option \<Rightarrow> rawSnapshot_t \<Rightarrow> snapshotParm_t \<Rightarrow> old_cursor \<Rightarrow> msg \<Rightarrow>
   snap_error + rawSnapshot_t \<times> snapshotParm_t \<times> old_cursor \<times> msg" where
  "copy_old ep lim oldFrame frame sp cu m =
     (if \<not> old_left lim (cu_oldNum cu) then Inr (frame, sp, cu, m)
      else
        rbind (old_state sp cu) (\<lambda>es.
        rbind (parseDeltaEntity ep frame sp (cu_oldNum cu) es True m) (\<lambda>(frame1, sp1, m1).
        rbind (next_old oldFrame sp1 cu) (\<lambda>cu1. copy_old ep lim oldFrame frame1 sp1 cu1 m1))))"
  by pat_completeness auto
termination
proof (relation "measure (\<lambda>(ep, lim, oldFrame, frame, sp, cu, m).
    if cu_oldNum cu = 99999 then 0
    else Suc (case oldFrame of None \<Rightarrow> 0 | Some f \<Rightarrow> unat (rs_numEntities f) - cu_oldIndex cu))", goal_cases)
  case (2 ep lim oldFrame frame sp cu m es x frame1 y sp1 m1 cu1)
  then have "cu_oldNum cu \<noteq> 99999" by auto
  with 2 show ?case
    by (auto simp: next_old_def cursor_at_def Let_def split: option.splits if_splits)
qed simp

declare copy_old.simps [simp del]

text \<open>The loop over the numbers sent. A new entity starts from its baseline.\<close>

partial_function (option) parse_entities ::
  "entity_parser \<Rightarrow> entity_list \<Rightarrow> rawSnapshot_t option \<Rightarrow> rawSnapshot_t \<Rightarrow> snapshotParm_t \<Rightarrow> old_cursor \<Rightarrow> msg \<Rightarrow>
   (snap_error + rawSnapshot_t \<times> snapshotParm_t \<times> old_cursor \<times> msg) option" where
  "parse_entities ep baselines oldFrame frame sp cu m =
     (case readEntityNum ep m of
        Inl e \<Rightarrow> Some (Inl (SnapMsg e))
      | Inr (newNum, m1) \<Rightarrow>
          if unat newNum = ENTITYNUM_NONE then Some (Inr (frame, sp, cu, m1))
          else
            (case copy_old ep (Some newNum) oldFrame frame sp cu m1 of
               Inl e \<Rightarrow> Some (Inl e)
             | Inr (frame1, sp1, cu1, m2) \<Rightarrow>
                 if cu_oldNum cu1 = ucast newNum then
                   (case rbind (old_state sp1 cu1) (\<lambda>es.
                         rbind (parseDeltaEntity ep frame1 sp1 (ucast newNum) es False m2) (\<lambda>(frame2, sp2, m3).
                         rbind (next_old oldFrame sp2 cu1) (\<lambda>cu2. Inr (frame2, sp2, cu2, m3)))) of
                      Inl e \<Rightarrow> Some (Inl e)
                    | Inr (frame2, sp2, cu2, m3) \<Rightarrow> parse_entities ep baselines oldFrame frame2 sp2 cu2 m3)
                 else
                   (case rbind (case getEntity baselines newNum of Inl e \<Rightarrow> Inl (SnapGameState e) | Inr es \<Rightarrow> Inr es) (\<lambda>es.
                         parseDeltaEntity ep frame1 sp1 (ucast newNum) es False m2) of
                      Inl e \<Rightarrow> Some (Inl e)
                    | Inr (frame2, sp2, m3) \<Rightarrow> parse_entities ep baselines oldFrame frame2 sp2 cu1 m3)))"

definition parsePacketEntities ::
  "entity_parser \<Rightarrow> entity_list \<Rightarrow> rawSnapshot_t option \<Rightarrow> rawSnapshot_t \<Rightarrow> snapshotParm_t \<Rightarrow> msg \<Rightarrow>
   (snap_error + rawSnapshot_t \<times> snapshotParm_t \<times> msg) option" where
  "parsePacketEntities ep baselines oldFrame newFrame sp m =
     (let frame = newFrame\<lparr>rs_parseEntitiesNum := sp_parseEntitiesNum sp, rs_numEntities := 0\<rparr> in
      case (case oldFrame of None \<Rightarrow> Inr \<lparr>cu_oldIndex = 0, cu_oldState = 0, cu_oldNum = 99999\<rparr>
            | Some f \<Rightarrow> cursor_at f sp 0) of
        Inl e \<Rightarrow> Some (Inl e)
      | Inr cu \<Rightarrow>
          (case parse_entities ep baselines oldFrame frame sp cu m of
             None \<Rightarrow> None
           | Some (Inl e) \<Rightarrow> Some (Inl e)
           | Some (Inr (frame1, sp1, cu1, m1)) \<Rightarrow>
               Some (rbind (copy_old ep None oldFrame frame1 sp1 cu1 m1) (\<lambda>(frame2, sp2, cu2, m2).
                 Inr (frame2, sp2, m2)))))"

section \<open>Sounds\<close>

definition read_optional :: "msg \<Rightarrow> snap_error + (bool \<times> u32) \<times> msg" where
  "read_optional m =
     rbind (lift_snap (ReadBool m)) (\<lambda>(has, m1).
       if has then rbind (lift_snap (ReadFloat m1)) (\<lambda>(v, m2). Inr ((True, v), m2))
       else Inr ((False, 0xBF800000), m1))"

definition lift_gs :: "gs_error + 'a \<Rightarrow> snap_error + 'a" where
  "lift_gs r = (case r of Inl e \<Rightarrow> Inl (SnapGameState e) | Inr x \<Rightarrow> Inr x)"

definition lift_cs :: "cs_error + 'a \<Rightarrow> snap_error + 'a" where
  "lift_cs r = (case r of Inl e \<Rightarrow> Inl (SnapConfigstring e) | Inr x \<Rightarrow> Inr x)"

definition parse_stopped_sound :: "entity_parser \<Rightarrow> entity_list \<Rightarrow> sound_t \<Rightarrow> msg \<Rightarrow> snap_error + sound_t \<times> msg" where
  "parse_stopped_sound ep baselines sound m =
     rbind (lift_snap (readEntityNum ep m)) (\<lambda>(entityNum, m1).
     rbind (lift_gs (getEntity baselines entityNum)) (\<lambda>_.
     rbind (lift_snap (ReadNumber 7 m1)) (\<lambda>(channel, m2).
       Inr (sound\<lparr>sd_entity := Some entityNum, sd_channel := channel\<rparr>, m2))))"

definition parse_started_sound :: "gameState_t \<Rightarrow> sound_t \<Rightarrow> msg \<Rightarrow> snap_error + sound_t \<times> msg" where
  "parse_started_sound gameState sound m =
     rbind (lift_snap (ReadBool m)) (\<lambda>(isStreamed, m1).
     rbind (lift_snap (ReadBool m1)) (\<lambda>(isSpatialized, m2).
     rbind (if isSpatialized then lift_snap (ReadVectorFloat m2) else Inr (sd_origin sound, m2)) (\<lambda>(origin, m3).
     rbind (lift_snap (ReadNumber 11 m3)) (\<lambda>(entityNum, m4).
     rbind (lift_gs (getEntity (gs_entityBaselines gameState) entityNum)) (\<lambda>_.
     if unat entityNum \<ge> MAX_GENTITIES then Inl (BadEntityNumberException entityNum)
     else
     rbind (lift_snap (ReadNumber 7 m4)) (\<lambda>(channel, m5).
     rbind (lift_snap (ReadNumber 9 m5)) (\<lambda>(soundIndex, m6).
     rbind (if soundIndex < CS_MAX_SOUNDS
            then rbind (lift_cs (getConfigString soundIndex (gs_csMan gameState))) (\<lambda>name. Inr (Some name))
            else Inr (sd_soundName sound)) (\<lambda>soundName.
     rbind (read_optional m6) (\<lambda>((hasVolume, volume), m7).
     rbind (read_optional m7) (\<lambda>((hasDist, minDist), m8).
     rbind (read_optional m8) (\<lambda>((hasPitch, pitch), m9).
     rbind (lift_snap (ReadFloat m9)) (\<lambda>(maxDist, m10).
       Inr (sound\<lparr>sd_isStreamed := isStreamed, sd_isSpatialized := isSpatialized, sd_origin := origin,
              sd_entity := Some entityNum, sd_channel := channel, sd_soundName := soundName,
              sd_hasVolume := hasVolume, sd_volume := volume, sd_hasDist := hasDist, sd_minDist := minDist,
              sd_hasPitch := hasPitch, sd_pitch := pitch, sd_maxDist := maxDist\<rparr>, m10)))))))))))))"

definition parse_sound :: "entity_parser \<Rightarrow> gameState_t \<Rightarrow> sound_t \<Rightarrow> msg \<Rightarrow> snap_error + sound_t \<times> msg" where
  "parse_sound ep gameState sound m =
     rbind (lift_snap (ReadBool m)) (\<lambda>(hasStopped, m1).
       let sound1 = sound\<lparr>sd_hasStopped := hasStopped\<rparr> in
       if hasStopped then parse_stopped_sound ep (gs_entityBaselines gameState) sound1 m1
       else parse_started_sound gameState sound1 m1)"

text \<open>The number of sounds left, and the index of the next.\<close>

fun parse_sounds :: "entity_parser \<Rightarrow> gameState_t \<Rightarrow> nat \<Rightarrow> nat \<Rightarrow> sound_t list \<Rightarrow> msg \<Rightarrow> snap_error + sound_t list \<times> msg" where
  "parse_sounds ep gameState 0 i sounds m = Inr (sounds, m)"
| "parse_sounds ep gameState (Suc left) i sounds m =
     (if i \<ge> length sounds then Inl SnapBadAccess
      else rbind (parse_sound ep gameState (sounds ! i) m) (\<lambda>(sound, m1).
        parse_sounds ep gameState left (i + 1) (sounds[i := sound]) m1))"

definition parseSounds :: "entity_parser \<Rightarrow> gameState_t \<Rightarrow> rawSnapshot_t \<Rightarrow> msg \<Rightarrow> snap_error + rawSnapshot_t \<times> msg" where
  "parseSounds ep gameState newFrame m =
     rbind (lift_snap (ReadBool m)) (\<lambda>(hasSounds, m1).
       if \<not> hasSounds then Inr (newFrame, m1)
       else rbind (lift_snap (ReadNumber 7 m1)) (\<lambda>(numSounds :: byte, m2).
         if unat numSounds > MAX_SERVER_SOUNDS then Inr (newFrame, m2)
         else rbind (parse_sounds ep gameState (unat numSounds) 0 (rs_sounds newFrame) m2) (\<lambda>(sounds, m3).
           Inr (newFrame\<lparr>rs_numSounds := ucast numSounds, rs_sounds := sounds\<rparr>, m3))))"

section \<open>A snapshot\<close>

record snapshot_parser =
  sn_entityParser :: entity_parser
  sn_playerStateParser :: player_parser

text \<open>The part before the entities.\<close>

definition parse_snapshot_header ::
  "snapshot_parser \<Rightarrow> 'c commands \<Rightarrow> rawSnapshot_t \<Rightarrow> snapshotParm_t \<Rightarrow> u32 \<Rightarrow> msg \<Rightarrow>
   snap_error + (rawSnapshot_t \<times> snapshotParm_t) \<times> msg" where
  "parse_snapshot_header parser serverCommands rawSnapshot sp serverMessageSequence m =
     rbind (lift_snap (ReadUInteger m)) (\<lambda>(serverTime, m1).
     rbind (lift_snap (ReadByte m1)) (\<lambda>(serverTimeResidual, m2).
     rbind (readOldSnapshot
       (rawSnapshot\<lparr>rs_serverCommandNum := getCommandSequence serverCommands, rs_serverTime := serverTime,
          rs_serverTimeResidual := serverTimeResidual, rs_messageNum := serverMessageSequence\<rparr>) sp m2)
       (\<lambda>((snap1, old), m3).
     rbind (lift_snap (ReadByte m3)) (\<lambda>(snapFlags, m4).
     rbind (readAreaMask (snap1\<lparr>rs_snapFlags := snapFlags\<rparr>) m4) (\<lambda>(snap2, m5).
     let oldps = map_option (\<lambda>i. rs_ps (sp_oldSnapshots sp ! i)) old in
     rbind (lift_snap (readDeltaPlayerState (sn_playerStateParser parser) oldps (rs_ps snap2) m5)) (\<lambda>(ps, m6).
       Inr ((snap2\<lparr>rs_ps := ps\<rparr>, sp\<lparr>sp_oldSnap := old\<rparr>), m6)))))))"

definition snapshot_parse ::
  "snapshot_parser \<Rightarrow> gameState_t \<Rightarrow> 'c commands \<Rightarrow> rawSnapshot_t \<Rightarrow> snapshotParm_t \<Rightarrow> u32 \<Rightarrow> msg \<Rightarrow>
   (snap_error + rawSnapshot_t \<times> snapshotParm_t \<times> msg) option" where
  "snapshot_parse parser gameState serverCommands rawSnapshot sp serverMessageSequence m =
     (case parse_snapshot_header parser serverCommands rawSnapshot sp serverMessageSequence m of
        Inl e \<Rightarrow> Some (Inl e)
      | Inr ((snap, sp1), m1) \<Rightarrow>
          (case parsePacketEntities (sn_entityParser parser) (gs_entityBaselines gameState)
                  (map_option (\<lambda>i. sp_oldSnapshots sp ! i) (sp_oldSnap sp1)) snap sp1 m1 of
             None \<Rightarrow> None
           | Some (Inl e) \<Rightarrow> Some (Inl e)
           | Some (Inr (snap1, sp2, m2)) \<Rightarrow>
               Some (rbind (parseSounds (sn_entityParser parser) gameState snap1 m2) (\<lambda>(snap2, m3).
                 Inr (snap2, sp2, m3)))))"

definition Snapshot8 :: snapshot_parser where
  "Snapshot8 = \<lparr>sn_entityParser = Entity8, sn_playerStateParser = PlayerState8\<rparr>"

definition Snapshot17 :: snapshot_parser where
  "Snapshot17 = \<lparr>sn_entityParser = Entity17, sn_playerStateParser = PlayerState17\<rparr>"

definition snapshot8 :: "snapshot_parser singleton" where "snapshot8 = (5, 8, Snapshot8)"
definition snapshot17 :: "snapshot_parser singleton" where "snapshot17 = (15, 17, Snapshot17)"

section \<open>The ring of entities\<close>

text \<open>
  The entities of the old frame are \<open>olds\<close>, those added to the new frame \<open>news\<close>; there is room for
  \<open>room\<close> more before the ring comes round to the old frame.
\<close>

definition old_start :: "rawSnapshot_t option \<Rightarrow> nat \<Rightarrow> nat" where
  "old_start oldFrame P = (case oldFrame of None \<Rightarrow> P | Some f \<Rightarrow> unat (rs_parseEntitiesNum f))"

definition ring_ok ::
  "rawSnapshot_t option \<Rightarrow> entityState_t list \<Rightarrow> nat \<Rightarrow> entityState_t list \<Rightarrow> nat \<Rightarrow> snapshotParm_t \<Rightarrow> bool" where
  "ring_ok oldFrame olds P news room sp \<longleftrightarrow>
     (let M = sp_maxParseEntities sp; Q = old_start oldFrame P in
      0 < M \<and> length (sp_parseEntities sp) = M \<and> unat (sp_parseEntitiesNum sp) = P + length news \<and>
      (case oldFrame of None \<Rightarrow> olds = [] | Some f \<Rightarrow> length olds = unat (rs_numEntities f)) \<and>
      Q + length olds \<le> P \<and> P + length news + room \<le> Q + M \<and> P + length news + room < 2 ^ 32 \<and>
      (\<forall>i < length olds. sp_parseEntities sp ! ((Q + i) mod M) = olds ! i) \<and>
      (\<forall>k < length news. sp_parseEntities sp ! ((P + k) mod M) = news ! k))"

lemma ring_slot_other:
  assumes "i < j" "j < i + M"
  shows "(i :: nat) mod M \<noteq> j mod M"
proof
  assume "i mod M = j mod M"
  then have "M dvd j - i" using assms(1) by (metis less_imp_le mod_eq_dvd_iff_nat)
  with assms show False using nat_dvd_not_less [of "j - i" M] by auto
qed

lemma ring_ok_mono: "ring_ok oldFrame olds P news room sp \<Longrightarrow> room' \<le> room \<Longrightarrow> ring_ok oldFrame olds P news room' sp"
  by (auto simp: ring_ok_def Let_def)

text \<open>What \<open>parseDeltaEntity\<close> does with the state it got.\<close>

definition add_entity :: "entityState_t \<Rightarrow> snapshotParm_t \<Rightarrow> snapshotParm_t" where
  "add_entity es sp =
     (let sp1 = sp\<lparr>sp_parseEntities :=
            (sp_parseEntities sp)[unat (sp_parseEntitiesNum sp) mod sp_maxParseEntities sp := es]\<rparr>
      in if unat (es_number es) = ENTITYNUM_NONE then sp1
         else sp1\<lparr>sp_parseEntitiesNum := sp_parseEntitiesNum sp1 + 1\<rparr>)"

definition kept :: "entityState_t \<Rightarrow> entityState_t list" where
  "kept es = (if unat (es_number es) = ENTITYNUM_NONE then [] else [es])"

lemma ring_ok_add:
  assumes "ring_ok oldFrame olds P news (Suc room) sp"
  shows "ring_ok oldFrame olds P (news @ kept es) room (add_entity es sp)"
proof -
  let ?M = "sp_maxParseEntities sp" and ?Q = "old_start oldFrame P" and ?n = "P + length news"
  let ?ring = "sp_parseEntities sp"
  have a: "0 < ?M" "length ?ring = ?M" "unat (sp_parseEntitiesNum sp) = ?n" "?Q + length olds \<le> P"
    "?n + Suc room \<le> ?Q + ?M" "?n + Suc room < 2 ^ 32" and frame: "case oldFrame of None \<Rightarrow> olds = [] | Some f \<Rightarrow> length olds = unat (rs_numEntities f)"
    and old: "\<And>i. i < length olds \<Longrightarrow> ?ring ! ((?Q + i) mod ?M) = olds ! i"
    and new: "\<And>k. k < length news \<Longrightarrow> ?ring ! ((P + k) mod ?M) = news ! k"
    using assms by (auto simp: ring_ok_def Let_def)
  have other: "?ring[?n mod ?M := es] ! (j mod ?M) = ?ring ! (j mod ?M)" if "?Q \<le> j" "j < ?n" for j
    using ring_slot_other [of j ?n ?M] that a by simp
  have here: "?ring[?n mod ?M := es] ! (?n mod ?M) = es" using a by simp
  have num: "unat (sp_parseEntitiesNum sp + 1) = ?n + 1"
    using a(3,6) by (simp add: unatSuc unat_word_ariths(1))
  have olds: "?ring[?n mod ?M := es] ! ((?Q + i) mod ?M) = olds ! i" if "i < length olds" for i
    using other [of "?Q + i"] old [OF that] that a by simp
  have news: "?ring[?n mod ?M := es] ! ((P + k) mod ?M) = (news @ [es]) ! k" if "k < Suc (length news)" for k
    using other [of "P + k"] new [of k] here that a by (auto simp: nth_append less_Suc_eq)
  show ?thesis
  proof (cases "unat (es_number es) = ENTITYNUM_NONE")
    case True
    then show ?thesis
      using a frame olds news by (auto simp: ring_ok_def Let_def add_entity_def kept_def nth_append dest: less_SucI)
  next
    case False
    then show ?thesis
      using a frame olds news num by (simp add: ring_ok_def Let_def add_entity_def kept_def)
  qed
qed

lemma ring_ok_slot:
  assumes "ring_ok oldFrame olds P news room sp"
  shows "0 < sp_maxParseEntities sp"
    "unat (sp_parseEntitiesNum sp) mod sp_maxParseEntities sp < length (sp_parseEntities sp)"
  using assms by (simp_all add: ring_ok_def Let_def)

lemma ucast_u16_u32 [simp]: "(ucast (ucast n :: u32) :: u16) = n"
  by (intro word_unat_eq_iff [THEN iffD2]) (simp add: unsigned_ucast_eq take_bit_nat_eq_self flip: take_bit_take_bit)

lemma parseDeltaEntity_unchanged:
  assumes "ring_ok oldFrame olds P news room sp"
  shows "parseDeltaEntity ep frame sp newNum es True m =
    Inr (frame\<lparr>rs_numEntities := rs_numEntities frame + of_nat (length (kept es))\<rparr>, add_entity es sp, m)"
  using ring_ok_slot [OF assms] by (simp add: parseDeltaEntity_def add_entity_def kept_def Let_def)

lemma parseDeltaEntity_read:
  assumes "ring_ok oldFrame olds P news room sp"
    and "readDeltaEntity ep (Some old)
      (sp_parseEntities sp ! (unat (sp_parseEntitiesNum sp) mod sp_maxParseEntities sp)) n (sp_deltaTime sp) m = Inr (es, m1)"
  shows "parseDeltaEntity ep frame sp (ucast n) old False m =
    Inr (frame\<lparr>rs_numEntities := rs_numEntities frame + of_nat (length (kept es))\<rparr>, add_entity es sp, m1)"
  using ring_ok_slot [OF assms(1)] assms(2) by (simp add: parseDeltaEntity_def add_entity_def kept_def Let_def)

lemma add_entity_sel [simp]:
  "sp_maxParseEntities (add_entity es sp) = sp_maxParseEntities sp"
  "sp_deltaTime (add_entity es sp) = sp_deltaTime sp"
  "sp_oldSnap (add_entity es sp) = sp_oldSnap sp"
  "sp_oldSnapshots (add_entity es sp) = sp_oldSnapshots sp"
  by (simp_all add: add_entity_def Let_def)

section \<open>Copying old entities\<close>

text \<open>The cursor stands at the first entity of \<open>rest\<close>.\<close>

definition cursor_ok :: "rawSnapshot_t option \<Rightarrow> entityState_t list \<Rightarrow> nat \<Rightarrow> snapshotParm_t \<Rightarrow> entityState_t list \<Rightarrow> old_cursor \<Rightarrow> bool" where
  "cursor_ok oldFrame olds P sp rest cu \<longleftrightarrow>
     (if rest = [] then cu_oldNum cu = 99999
      else rest = drop (cu_oldIndex cu) olds \<and> cu_oldNum cu = ucast (es_number (hd rest)) \<and>
        cu_oldState cu = (old_start oldFrame P + cu_oldIndex cu) mod sp_maxParseEntities sp)"

lemma cursor_ok_add [simp]: "cursor_ok oldFrame olds P (add_entity es sp) rest cu = cursor_ok oldFrame olds P sp rest cu"
  by (simp add: cursor_ok_def)

lemma cursor_ok_num:
  "cursor_ok oldFrame olds P sp rest cu \<Longrightarrow> rest \<noteq> [] \<Longrightarrow> cu_oldNum cu = ucast (es_number (hd rest))"
  by (simp add: cursor_ok_def)

lemma cursor_ok_old_state:
  assumes "ring_ok oldFrame olds P news room sp" "cursor_ok oldFrame olds P sp (e # rest) cu"
  shows "old_state sp cu = Inr e"
proof -
  have "cu_oldIndex cu < length olds" "olds ! cu_oldIndex cu = e"
    using assms(2) by (auto simp: cursor_ok_def) (metis drop_all linorder_not_less list.distinct(1), metis nth_via_drop)
  then show ?thesis using assms by (auto simp: old_state_def cursor_ok_def ring_ok_def Let_def)
qed

lemma cursor_ok_next:
  assumes r: "ring_ok oldFrame olds P news room sp" and c: "cursor_ok oldFrame olds P sp (e # rest) cu"
  shows "\<exists>cu'. next_old oldFrame sp cu = Inr cu' \<and> cursor_ok oldFrame olds P sp rest cu'"
proof -
  let ?i = "cu_oldIndex cu"
  have d: "drop ?i olds = e # rest" using c by (auto simp: cursor_ok_def)
  then have i: "?i < length olds" and rest: "drop (Suc ?i) olds = rest"
    by (metis drop_all linorder_not_less list.distinct(1)) (metis d drop_Suc list.sel(3) tl_drop)
  then obtain f where f: "oldFrame = Some f" "length olds = unat (rs_numEntities f)"
    using r by (cases oldFrame) (auto simp: ring_ok_def Let_def)
  show ?thesis
  proof (cases "Suc ?i < length olds")
    case False
    then have "rest = []" using rest by simp
    then show ?thesis using f False by (simp add: next_old_def cursor_ok_def)
  next
    case True
    let ?s = "(unat (rs_parseEntitiesNum f) + Suc ?i) mod sp_maxParseEntities sp"
    have u: "unat (rs_parseEntitiesNum f + of_nat (Suc ?i)) = unat (rs_parseEntitiesNum f) + Suc ?i"
      using r True f by (subst unat_plus_simple [THEN iffD1]) (auto simp: ring_ok_def Let_def old_start_def word_le_nat_alt
        unat_word_ariths(1) unsigned_of_nat take_bit_nat_eq_self)
    have "rest = olds ! Suc ?i # drop (Suc (Suc ?i)) olds" using rest True by (metis Cons_nth_drop_Suc)
    then have "rest \<noteq> []" "hd rest = olds ! Suc ?i" by auto
    moreover have "sp_parseEntities sp ! ?s = olds ! Suc ?i" "?s < length (sp_parseEntities sp)" "0 < sp_maxParseEntities sp"
      using r True f by (auto simp: ring_ok_def Let_def old_start_def)
    ultimately show ?thesis
      using True f rest u by (auto simp: next_old_def cursor_at_def cursor_ok_def old_start_def Let_def)
  qed
qed

definition same_parm :: "snapshotParm_t \<Rightarrow> snapshotParm_t \<Rightarrow> bool" where
  "same_parm sp sp' \<longleftrightarrow>
     sp' = sp\<lparr>sp_parseEntities := sp_parseEntities sp', sp_parseEntitiesNum := sp_parseEntitiesNum sp'\<rparr>"

lemma same_parm_refl [simp]: "same_parm sp sp"
  by (simp add: same_parm_def)

lemma same_parm_add [simp]: "same_parm sp (add_entity es sp)"
  by (simp add: same_parm_def add_entity_def Let_def)

lemma same_parm_trans: "same_parm sp sp1 \<Longrightarrow> same_parm sp1 sp2 \<Longrightarrow> same_parm sp sp2"
  unfolding same_parm_def by (metis (no_types, lifting) snapshotParm_t.surjective snapshotParm_t.update_convs(3,7))

lemma same_parm_sel:
  "same_parm sp sp' \<Longrightarrow> sp_maxParseEntities sp' = sp_maxParseEntities sp \<and> sp_deltaTime sp' = sp_deltaTime sp \<and>
    sp_oldSnap sp' = sp_oldSnap sp \<and> sp_oldSnapshots sp' = sp_oldSnapshots sp"
  unfolding same_parm_def by (metis snapshotParm_t.select_convs(1,2,5,8) snapshotParm_t.surjective snapshotParm_t.update_convs(3,7))

lemma kept_live: "unat (es_number e) \<noteq> ENTITYNUM_NONE \<Longrightarrow> kept e = [e]"
  by (simp add: kept_def)

lemma copy_old_ok:
  assumes "ring_ok oldFrame olds P news (length xs + room) sp" "cursor_ok oldFrame olds P sp (xs @ ys) cu"
    and "\<forall>e\<in>set xs. old_left lim (ucast (es_number e)) \<and> unat (es_number e) \<noteq> ENTITYNUM_NONE"
    and "ys = [] \<or> \<not> old_left lim (ucast (es_number (hd ys)))"
  shows "\<exists>sp' cu'. copy_old ep lim oldFrame frame sp cu m =
      Inr (frame\<lparr>rs_numEntities := rs_numEntities frame + of_nat (length xs)\<rparr>, sp', cu', m) \<and>
    ring_ok oldFrame olds P (news @ xs) room sp' \<and> cursor_ok oldFrame olds P sp' ys cu' \<and> same_parm sp sp'"
  using assms(1-3)
proof (induction xs arbitrary: news sp cu frame)
  case Nil
  have "\<not> old_left lim (cu_oldNum cu)" using assms(4) Nil.prems(2) by (cases ys) (auto simp: cursor_ok_def)
  then show ?case using Nil.prems by (simp add: copy_old.simps)
next
  case (Cons e xs)
  have c: "cursor_ok oldFrame olds P sp (e # (xs @ ys)) cu" using Cons.prems(2) by simp
  have k: "kept e = [e]" using Cons.prems(3) by (simp add: kept_live)
  have left: "old_left lim (cu_oldNum cu)" using c Cons.prems(3) by (simp add: cursor_ok_def)
  have r: "ring_ok oldFrame olds P (news @ [e]) (length xs + room) (add_entity e sp)"
    using ring_ok_add [of oldFrame olds P news "length xs + room" sp e] Cons.prems(1) k by simp
  have c1: "cursor_ok oldFrame olds P (add_entity e sp) (e # (xs @ ys)) cu" using c by simp
  obtain cu1 where cu1: "next_old oldFrame (add_entity e sp) cu = Inr cu1"
    "cursor_ok oldFrame olds P (add_entity e sp) (xs @ ys) cu1"
    using cursor_ok_next [OF r c1] by blast
  obtain sp' cu' where ih: "copy_old ep lim oldFrame (frame\<lparr>rs_numEntities := rs_numEntities frame + 1\<rparr>) (add_entity e sp) cu1 m =
      Inr (frame\<lparr>rs_numEntities := rs_numEntities frame + 1 + of_nat (length xs)\<rparr>, sp', cu', m)"
    "ring_ok oldFrame olds P ((news @ [e]) @ xs) room sp'" "cursor_ok oldFrame olds P sp' ys cu'"
    "same_parm (add_entity e sp) sp'"
    using Cons.IH [OF r cu1(2), of "frame\<lparr>rs_numEntities := rs_numEntities frame + 1\<rparr>"] Cons.prems(3) by auto
  have "copy_old ep lim oldFrame frame sp cu m =
      Inr (frame\<lparr>rs_numEntities := rs_numEntities frame + of_nat (length (e # xs))\<rparr>, sp', cu', m)"
    using left cursor_ok_old_state [OF Cons.prems(1) c] parseDeltaEntity_unchanged [OF Cons.prems(1)] cu1(1) ih(1) k
    by (subst copy_old.simps) (simp add: add_ac)
  then show ?case
    using ih(2-4) same_parm_trans [OF same_parm_add ih(4)] by auto
qed

section \<open>The merge\<close>

text \<open>The entities of the new frame: \<open>us\<close> are the new states with their numbers.\<close>

definition rest_after :: "u16 \<Rightarrow> entityState_t list \<Rightarrow> entityState_t list" where
  "rest_after n olds =
     (let rest = dropWhile (\<lambda>e. es_number e < n) olds
      in if rest \<noteq> [] \<and> es_number (hd rest) = n then tl rest else rest)"

fun merge_entities :: "entityState_t list \<Rightarrow> (u16 \<times> entityState_t) list \<Rightarrow> entityState_t list" where
  "merge_entities olds [] = olds"
| "merge_entities olds ((n, e) # us) =
     takeWhile (\<lambda>e. es_number e < n) olds @ kept e @ merge_entities (rest_after n olds) us"

text \<open>The state that the entity \<open>n\<close> is a delta from: the old one, or the baseline.\<close>

definition delta_from :: "entity_list \<Rightarrow> entityState_t list \<Rightarrow> u16 \<Rightarrow> entityState_t" where
  "delta_from baselines olds n =
     (let rest = dropWhile (\<lambda>e. es_number e < n) olds
      in if rest \<noteq> [] \<and> es_number (hd rest) = n then hd rest else el_entityList baselines ! unat n)"

text \<open>
  The bits \<open>b\<close> hold the entities \<open>us\<close>, each a number and the state that is read, which may depend
  on what was in the slot of the ring, and the number that ends them.
\<close>

fun sends_entities ::
  "entity_parser \<Rightarrow> entity_list \<Rightarrow> u32 \<Rightarrow> entityState_t list \<Rightarrow> (u16 \<times> (entityState_t \<Rightarrow> entityState_t)) list \<Rightarrow> bool list \<Rightarrow> bool" where
  "sends_entities ep baselines dt olds [] b \<longleftrightarrow> gets (readEntityNum ep) b (of_nat ENTITYNUM_NONE)"
| "sends_entities ep baselines dt olds ((n, read) # us) b \<longleftrightarrow> unat n < ENTITYNUM_NONE \<and>
     (\<exists>b1 b2 b3. b = b1 @ b2 @ b3 \<and> gets (readEntityNum ep) b1 n \<and>
       (\<forall>st. gets (readDeltaEntity ep (Some (delta_from baselines olds n)) st n dt) b2 (read st)) \<and>
       sends_entities ep baselines dt (rest_after n olds) us b3)"

lemma rest_after_subset: "set (rest_after n olds) \<subseteq> set olds"
proof -
  have "set (tl r) \<subseteq> set r" for r :: "entityState_t list" by (cases r) auto
  then show ?thesis using set_dropWhileD [of _ "\<lambda>e. es_number e < n" olds] by (auto simp: rest_after_def Let_def)
qed

lemma length_rest_after: "length (takeWhile (\<lambda>e. es_number e < n) olds) + length (rest_after n olds) \<le> length olds"
proof -
  have "length (rest_after n olds) \<le> length (dropWhile (\<lambda>e. es_number e < n) olds)"
    by (simp add: rest_after_def Let_def)
  then show ?thesis by (metis add_le_cancel_left length_append takeWhile_dropWhile_id)
qed

lemma numeral_NONE: "unat (of_nat ENTITYNUM_NONE :: u16) = ENTITYNUM_NONE"
  by (simp add: ENTITYNUM_NONE_def MAX_GENTITIES_def GENTITYNUM_BITS_def)


lemma parse_entity_ok:
  assumes "ring_ok oldFrame olds P news (length (takeWhile (\<lambda>e. es_number e < n) rest) + Suc room) sp"
    and "cursor_ok oldFrame olds P sp rest cu" "\<forall>e\<in>set rest. unat (es_number e) \<noteq> ENTITYNUM_NONE"
    and base: "el_ok baselines" "ENTITYNUM_NONE \<le> unat (el_maxEntities baselines)" and n: "unat n < ENTITYNUM_NONE"
    and num: "readEntityNum ep m = Inr (n, m1)"
    and delta: "\<And>st. \<exists>m2. readDeltaEntity ep (Some (delta_from baselines rest n)) st n (sp_deltaTime sp) m1 = Inr (read st, m2) \<and> mr m2 b"
  shows "\<exists>st sp' cu' m2. parse_entities ep baselines oldFrame frame sp cu m =
      parse_entities ep baselines oldFrame
        (frame\<lparr>rs_numEntities := rs_numEntities frame +
           of_nat (length (takeWhile (\<lambda>e. es_number e < n) rest @ kept (read st)))\<rparr>) sp' cu' m2 \<and>
    mr m2 b \<and> same_parm sp sp' \<and> cursor_ok oldFrame olds P sp' (rest_after n rest) cu' \<and>
    ring_ok oldFrame olds P (news @ takeWhile (\<lambda>e. es_number e < n) rest @ kept (read st)) room sp'"
proof -
  let ?xs = "takeWhile (\<lambda>e. es_number e < n) rest" and ?ys = "dropWhile (\<lambda>e. es_number e < n) rest"
  have less: "(ucast a :: u32) < ucast n \<longleftrightarrow> a < n" "(ucast a :: u32) = ucast n \<longleftrightarrow> a = n" for a :: u16
    by (simp_all add: word_less_nat_alt unat_u16_u32 word_unat_eq_iff)
  have "ring_ok oldFrame olds P news (length ?xs + Suc room) sp" "cursor_ok oldFrame olds P sp (?xs @ ?ys) cu"
    "\<forall>e\<in>set ?xs. old_left (Some n) (ucast (es_number e)) \<and> unat (es_number e) \<noteq> ENTITYNUM_NONE"
    "?ys = [] \<or> \<not> old_left (Some n) (ucast (es_number (hd ?ys)))"
    using assms(1-3) hd_dropWhile [of "\<lambda>e. es_number e < n" rest] by (auto simp: less dest: set_takeWhileD)
  from copy_old_ok [OF this, of ep frame m1]
  obtain sp1 cu1 where copy: "copy_old ep (Some n) oldFrame frame sp cu m1 =
      Inr (frame\<lparr>rs_numEntities := rs_numEntities frame + of_nat (length ?xs)\<rparr>, sp1, cu1, m1)"
    and r1: "ring_ok oldFrame olds P (news @ ?xs) (Suc room) sp1" and c1: "cursor_ok oldFrame olds P sp1 ?ys cu1"
    and s1: "same_parm sp sp1" by blast
  let ?st = "sp_parseEntities sp1 ! (unat (sp_parseEntitiesNum sp1) mod sp_maxParseEntities sp1)"
  let ?frame1 = "frame\<lparr>rs_numEntities := rs_numEntities frame + of_nat (length ?xs)\<rparr>"
  let ?frame2 = "frame\<lparr>rs_numEntities := rs_numEntities frame + of_nat (length (?xs @ kept (read ?st)))\<rparr>"
  obtain m2 where m2: "readDeltaEntity ep (Some (delta_from baselines rest n)) ?st n (sp_deltaTime sp1) m1 = Inr (read ?st, m2)"
    "mr m2 b" using delta [of ?st] same_parm_sel [OF s1] by auto
  have add: "parseDeltaEntity ep ?frame1 sp1 (ucast n) (delta_from baselines rest n) False m1 =
      Inr (?frame2, add_entity (read ?st) sp1, m2)"
    using parseDeltaEntity_read [OF r1 m2(1), of ?frame1] by (simp add: add_ac)
  have r2: "ring_ok oldFrame olds P (news @ ?xs @ kept (read ?st)) room (add_entity (read ?st) sp1)"
    using ring_ok_add [OF r1] by simp
  have s2: "same_parm sp (add_entity (read ?st) sp1)" using same_parm_trans [OF s1 same_parm_add] .
  have nn: "unat n \<noteq> ENTITYNUM_NONE" using n by simp
  show ?thesis
  proof (cases "?ys \<noteq> [] \<and> es_number (hd ?ys) = n")
    case True
    then have ys: "?ys = hd ?ys # tl ?ys" "delta_from baselines rest n = hd ?ys" "rest_after n rest = tl ?ys"
      by (simp_all add: delta_from_def rest_after_def Let_def)
    have eq: "cu_oldNum cu1 = ucast n" using cursor_ok_num [OF c1] True by simp
    have c2: "cursor_ok oldFrame olds P (add_entity (read ?st) sp1) (hd ?ys # tl ?ys) cu1" using c1 ys(1) by simp
    obtain cu2 where cu2: "next_old oldFrame (add_entity (read ?st) sp1) cu1 = Inr cu2"
      "cursor_ok oldFrame olds P (add_entity (read ?st) sp1) (tl ?ys) cu2"
      using cursor_ok_next [OF r2 c2] by blast
    have "old_state sp1 cu1 = Inr (hd ?ys)" using cursor_ok_old_state [OF r1, of "hd ?ys" "tl ?ys"] c1 ys(1) by simp
    then have run: "parse_entities ep baselines oldFrame frame sp cu m =
        parse_entities ep baselines oldFrame ?frame2 (add_entity (read ?st) sp1) cu2 m2"
      using num nn copy eq add cu2(1) ys(2) by (subst parse_entities.simps) simp
    show ?thesis
      unfolding ys(3) by (intro exI [of _ ?st] exI conjI) (fact run, fact m2(2), fact s2, fact cu2(2), fact r2)
  next
    case False
    then have ys: "delta_from baselines rest n = el_entityList baselines ! unat n" "rest_after n rest = ?ys"
      by (auto simp: delta_from_def rest_after_def Let_def)
    have eq: "cu_oldNum cu1 \<noteq> ucast n"
    proof (cases "?ys = []")
      case True
      have "(99999 :: u32) \<noteq> ucast n" using unsigned_less [of n, where 'a = nat] by (auto simp: word_unat_eq_iff unat_u16_u32)
      then show ?thesis using c1 True by (simp add: cursor_ok_def)
    next
      case False
      then show ?thesis
        using cursor_ok_num [OF c1] \<open>\<not> (?ys \<noteq> [] \<and> es_number (hd ?ys) = n)\<close> by (simp add: less)
    qed
    have "getEntity baselines n = Inr (delta_from baselines rest n)"
      using base n ys(1) by (simp add: word_less_nat_alt)
    then have "parse_entities ep baselines oldFrame frame sp cu m =
        parse_entities ep baselines oldFrame ?frame2 (add_entity (read ?st) sp1) cu1 m2"
      using num nn copy eq add by (subst parse_entities.simps) simp
    moreover have "cursor_ok oldFrame olds P (add_entity (read ?st) sp1) (rest_after n rest) cu1" using c1 ys(2) by simp
    ultimately show ?thesis using m2(2) s2 r2 by (intro exI [of _ ?st]) blast
  qed
qed

text \<open>Every new state is one that was read for its number.\<close>

definition read_states :: "(u16 \<times> (entityState_t \<Rightarrow> entityState_t)) list \<Rightarrow> (u16 \<times> entityState_t) list \<Rightarrow> bool" where
  "read_states us res \<longleftrightarrow> list_all2 (\<lambda>(n, read) (n', e). n' = n \<and> (\<exists>st. e = read st)) us res"

lemma parse_entities_ok:
  assumes "ring_ok oldFrame olds P news (length rest + length us) sp" "cursor_ok oldFrame olds P sp rest cu"
    and "\<forall>e\<in>set rest. unat (es_number e) \<noteq> ENTITYNUM_NONE"
    and base: "el_ok baselines" "ENTITYNUM_NONE \<le> unat (el_maxEntities baselines)"
    and "sends_entities ep baselines (sp_deltaTime sp) rest us b" "mr m (b @ post)" and post: "True \<in> set post"
  shows "\<exists>sp' cu' m' res news' rest'. parse_entities ep baselines oldFrame frame sp cu m =
      Some (Inr (frame\<lparr>rs_numEntities := rs_numEntities frame + of_nat (length news')\<rparr>, sp', cu', m')) \<and>
    mr m' post \<and> read_states us res \<and> news' @ rest' = merge_entities rest res \<and> same_parm sp sp' \<and>
    set rest' \<subseteq> set rest \<and> ring_ok oldFrame olds P (news @ news') (length rest') sp' \<and>
    cursor_ok oldFrame olds P sp' rest' cu'"
  using assms(1-3,6,7)
proof (induction us arbitrary: news rest sp cu frame m b)
  case Nil
  then obtain m1 where "readEntityNum ep m = Inr (of_nat ENTITYNUM_NONE, m1)" "mr m1 post"
    using gets_step post by (metis sends_entities.simps(1))
  moreover have "read_states [] []" by (simp add: read_states_def)
  ultimately show ?case
    using Nil.prems(1,2) numeral_NONE
    by (intro exI [of _ sp] exI [of _ cu] exI [of _ m1] exI [of _ "[]"] exI [of _ "[] :: entityState_t list"] exI [of _ rest])
      (simp add: parse_entities.simps)
next
  case (Cons u us)
  obtain n read where u: "u = (n, read)" by (cases u)
  let ?xs = "takeWhile (\<lambda>e. es_number e < n) rest" and ?rest = "rest_after n rest"
  obtain b1 b2 b3 where n: "unat n < ENTITYNUM_NONE" and b: "b = b1 @ b2 @ b3" "gets (readEntityNum ep) b1 n"
    "\<And>st. gets (readDeltaEntity ep (Some (delta_from baselines rest n)) st n (sp_deltaTime sp)) b2 (read st)"
    "sends_entities ep baselines (sp_deltaTime sp) ?rest us b3"
    using Cons.prems(4) unfolding u by auto
  obtain m1 where m1: "readEntityNum ep m = Inr (n, m1)" "mr m1 (b2 @ b3 @ post)"
    using gets_step [OF b(2), of m "b2 @ b3 @ post"] Cons.prems(5) post b(1) by auto
  have delta: "\<exists>m2. readDeltaEntity ep (Some (delta_from baselines rest n)) st n (sp_deltaTime sp) m1 = Inr (read st, m2) \<and>
      mr m2 (b3 @ post)" for st
    using gets_step [OF b(3) m1(2)] post by simp
  have room: "length ?xs + Suc (length ?rest + length us) \<le> length rest + length (u # us)"
    using length_rest_after [of n rest] by simp
  obtain st sp1 cu1 m2 where step: "parse_entities ep baselines oldFrame frame sp cu m =
      parse_entities ep baselines oldFrame
        (frame\<lparr>rs_numEntities := rs_numEntities frame + of_nat (length (?xs @ kept (read st)))\<rparr>) sp1 cu1 m2"
    and one: "mr m2 (b3 @ post)" "same_parm sp sp1" "cursor_ok oldFrame olds P sp1 ?rest cu1"
    "ring_ok oldFrame olds P (news @ ?xs @ kept (read st)) (length ?rest + length us) sp1"
    using parse_entity_ok [OF ring_ok_mono [OF Cons.prems(1) room] Cons.prems(2,3) base n m1(1) delta, of frame] by blast
  have live: "\<forall>e\<in>set ?rest. unat (es_number e) \<noteq> ENTITYNUM_NONE"
    using Cons.prems(3) rest_after_subset by blast
  have dt: "sends_entities ep baselines (sp_deltaTime sp1) ?rest us b3" using b(4) same_parm_sel [OF one(2)] by simp
  let ?frame = "frame\<lparr>rs_numEntities := rs_numEntities frame + of_nat (length (?xs @ kept (read st)))\<rparr>"
  obtain sp' cu' m' res news' rest' where ih: "parse_entities ep baselines oldFrame ?frame sp1 cu1 m2 =
      Some (Inr (?frame\<lparr>rs_numEntities := rs_numEntities ?frame + of_nat (length news')\<rparr>, sp', cu', m'))"
    "mr m' post" "read_states us res" "news' @ rest' = merge_entities ?rest res" "same_parm sp1 sp'" "set rest' \<subseteq> set ?rest"
    "ring_ok oldFrame olds P ((news @ ?xs @ kept (read st)) @ news') (length rest') sp'"
    "cursor_ok oldFrame olds P sp' rest' cu'"
    using Cons.IH [OF one(4,3) live dt one(1), of ?frame] by blast
  have "read_states (u # us) ((n, read st) # res)" using ih(3) by (auto simp: read_states_def u)
  moreover have "((?xs @ kept (read st)) @ news') @ rest' = merge_entities rest ((n, read st) # res)" using ih(4) by simp
  ultimately show ?case
    using step ih same_parm_trans [OF one(2) ih(5)] rest_after_subset
    by (intro exI [of _ sp'] exI [of _ cu'] exI [of _ m'] exI [of _ "(n, read st) # res"]
        exI [of _ "(?xs @ kept (read st)) @ news'"] exI [of _ rest']) (auto simp: add_ac)
qed

text \<open>The entities of a frame, as \<open>SnapshotInfo\<close> shows them.\<close>

definition frame_entities :: "rawSnapshot_t \<Rightarrow> snapshotParm_t \<Rightarrow> entityState_t list" where
  "frame_entities frame sp =
     map (\<lambda>i. sp_parseEntities sp ! ((unat (rs_parseEntitiesNum frame) + i) mod sp_maxParseEntities sp))
       [0..<unat (rs_numEntities frame)]"

lemma parsePacketEntities_ok:
  assumes old: "case oldFrame of None \<Rightarrow> olds = [] | Some f \<Rightarrow> olds = frame_entities f sp \<and> olds \<noteq> []"
    and sp: "0 < sp_maxParseEntities sp" "length (sp_parseEntities sp) = sp_maxParseEntities sp"
    and room: "old_start oldFrame P + length olds \<le> P" "P + length olds + length us \<le> old_start oldFrame P + sp_maxParseEntities sp"
      "P + length olds + length us < 2 ^ 32" "P = unat (sp_parseEntitiesNum sp)"
    and live: "\<forall>e\<in>set olds. unat (es_number e) \<noteq> ENTITYNUM_NONE"
    and base: "el_ok baselines" "ENTITYNUM_NONE \<le> unat (el_maxEntities baselines)"
    and sent: "sends_entities ep baselines (sp_deltaTime sp) olds us b" "mr m (b @ post)" "True \<in> set post"
  shows "\<exists>frame sp' m' res. parsePacketEntities ep baselines oldFrame newFrame sp m = Some (Inr (frame, sp', m')) \<and>
    mr m' post \<and> read_states us res \<and> same_parm sp sp' \<and> frame_entities frame sp' = merge_entities olds res \<and>
    frame = newFrame\<lparr>rs_parseEntitiesNum := sp_parseEntitiesNum sp,
                     rs_numEntities := of_nat (length (merge_entities olds res))\<rparr> \<and>
    ring_ok oldFrame olds P (merge_entities olds res) 0 sp'"
proof -
  let ?frame = "newFrame\<lparr>rs_parseEntitiesNum := sp_parseEntitiesNum sp, rs_numEntities := 0\<rparr>"
  have r: "ring_ok oldFrame olds P [] (length olds + length us) sp"
    using assms by (cases oldFrame) (auto simp: ring_ok_def Let_def old_start_def frame_entities_def)
  obtain cu where cu: "(case oldFrame of None \<Rightarrow> Inr \<lparr>cu_oldIndex = 0, cu_oldState = 0, cu_oldNum = 99999\<rparr>
      | Some f \<Rightarrow> cursor_at f sp 0) = Inr cu" "cursor_ok oldFrame olds P sp olds cu"
  proof (cases oldFrame)
    case None
    then show ?thesis using that old by (simp add: cursor_ok_def)
  next
    case (Some f)
    then have "olds = frame_entities f sp" "0 < unat (rs_numEntities f)" using old by (auto simp: frame_entities_def)
    then have "hd olds = sp_parseEntities sp ! (unat (rs_parseEntitiesNum f) mod sp_maxParseEntities sp)"
      by (simp add: frame_entities_def hd_map upt_conv_Cons)
    moreover have "\<not> sp_maxParseEntities sp \<le> unat (rs_parseEntitiesNum f) mod sp_maxParseEntities sp"
      using sp(1) by (simp add: not_le)
    ultimately have "cursor_at f sp 0 = Inr \<lparr>cu_oldIndex = 0,
        cu_oldState = unat (rs_parseEntitiesNum f) mod sp_maxParseEntities sp, cu_oldNum = ucast (es_number (hd olds))\<rparr>"
      using Some old sp by (simp add: cursor_at_def Let_def)
    moreover have "cursor_ok oldFrame olds P sp olds \<lparr>cu_oldIndex = 0,
        cu_oldState = unat (rs_parseEntitiesNum f) mod sp_maxParseEntities sp, cu_oldNum = ucast (es_number (hd olds))\<rparr>"
      using Some old by (auto simp: cursor_ok_def old_start_def)
    ultimately show ?thesis using that Some by simp
  qed
  obtain sp1 cu1 m1 res news rest where p: "parse_entities ep baselines oldFrame ?frame sp cu m =
      Some (Inr (?frame\<lparr>rs_numEntities := rs_numEntities ?frame + of_nat (length news)\<rparr>, sp1, cu1, m1))"
    "mr m1 post" "read_states us res" "news @ rest = merge_entities olds res" "same_parm sp sp1" "set rest \<subseteq> set olds"
    "ring_ok oldFrame olds P ([] @ news) (length rest) sp1" "cursor_ok oldFrame olds P sp1 rest cu1"
    using parse_entities_ok [OF r cu(2) live base sent, of ?frame] by blast
  have e: "\<forall>e\<in>set rest. old_left None (ucast (es_number e)) \<and> unat (es_number e) \<noteq> ENTITYNUM_NONE"
  proof
    fix e assume "e \<in> set rest"
    moreover have "(ucast (es_number e) :: u32) \<noteq> 99999"
      using unsigned_less [of "es_number e", where 'a = nat] by (auto simp: word_unat_eq_iff unat_u16_u32)
    ultimately show "old_left None (ucast (es_number e)) \<and> unat (es_number e) \<noteq> ENTITYNUM_NONE" using live p(6) by auto
  qed
  obtain sp2 cu2 where c: "copy_old ep None oldFrame (?frame\<lparr>rs_numEntities := of_nat (length news)\<rparr>) sp1 cu1 m1 =
      Inr (?frame\<lparr>rs_numEntities := of_nat (length news) + of_nat (length rest)\<rparr>, sp2, cu2, m1)"
    "ring_ok oldFrame olds P (news @ rest) 0 sp2" "same_parm sp1 sp2"
    using copy_old_ok [of oldFrame olds P news rest 0 sp1 "[]" cu1 None ep "?frame\<lparr>rs_numEntities := of_nat (length news)\<rparr>" m1]
      p(7,8) e by auto
  let ?all = "merge_entities olds res"
  let ?new = "newFrame\<lparr>rs_parseEntitiesNum := sp_parseEntitiesNum sp, rs_numEntities := of_nat (length ?all)\<rparr>"
  have "of_nat (length news) + of_nat (length rest) = (of_nat (length ?all) :: u32)"
    by (simp flip: p(4))
  then have run: "parsePacketEntities ep baselines oldFrame newFrame sp m = Some (Inr (?new, sp2, m1))"
    using cu(1) p(1) c(1) by (simp add: parsePacketEntities_def Let_def)
  have r2: "ring_ok oldFrame olds P ?all 0 sp2" using c(2) p(4) by simp
  then have "unat (of_nat (length ?all) :: u32) = length ?all"
    by (simp add: ring_ok_def Let_def unsigned_of_nat take_bit_nat_eq_self)
  then have "frame_entities ?new sp2 = ?all"
    using r2 room(4) by (intro nth_equalityI) (auto simp: frame_entities_def ring_ok_def Let_def)
  then show ?thesis using run p(2,3) r2 same_parm_trans [OF p(5) c(3)] by blast
qed

lemma sorted_parts:
  assumes "sorted_wrt (<) (map f xs)"
  shows "sorted_wrt (<) (map f (takeWhile P xs))" "sorted_wrt (<) (map f (dropWhile P xs))"
  using assms by (metis map_append sorted_wrt_append takeWhile_dropWhile_id)+

text \<open>The merge keeps the order and is an update of a map from numbers to entities.\<close>

lemma rest_after_sorted:
  assumes "sorted_wrt (<) (map es_number olds)"
  shows "sorted_wrt (<) (map es_number (rest_after n olds))"
    and "set (rest_after n olds) = {a \<in> set olds. n < es_number a}"
    and "set (takeWhile (\<lambda>e. es_number e < n) olds) = {a \<in> set olds. es_number a < n}"
proof -
  define xs ys where "xs = takeWhile (\<lambda>e. es_number e < n) olds" and "ys = dropWhile (\<lambda>e. es_number e < n) olds"
  have sy: "sorted_wrt (<) (map es_number ys)" unfolding ys_def by (rule sorted_parts [OF assms])
  have o: "set olds = set xs \<union> set ys" unfolding xs_def ys_def by (metis set_append takeWhile_dropWhile_id)
  have below: "es_number a < n" if "a \<in> set xs" for a using that unfolding xs_def by (auto dest: set_takeWhileD)
  have r: "rest_after n olds = (if ys \<noteq> [] \<and> es_number (hd ys) = n then tl ys else ys)"
    by (simp add: rest_after_def ys_def Let_def del: dropWhile_eq_Nil_conv)
  have hd: "n \<le> es_number (hd ys)" if "ys \<noteq> []"
    using that hd_dropWhile [of "\<lambda>e. es_number e < n" olds] unfolding ys_def by (simp add: not_less)
  have above: "n \<le> es_number a" if "a \<in> set ys" for a
    using that sy hd by (cases ys) (auto intro: less_imp_le order_trans)
  have "set (rest_after n olds) = {a \<in> set ys. n < es_number a}"
    using sy hd unfolding r by (cases ys) auto
  moreover have "\<not> n < es_number a" if "a \<in> set xs" for a using below [OF that] by (simp add: not_less less_imp_le)
  ultimately show "set (rest_after n olds) = {a \<in> set olds. n < es_number a}" using o by auto
  show "set (takeWhile (\<lambda>e. es_number e < n) olds) = {a \<in> set olds. es_number a < n}"
    using o below above unfolding xs_def [symmetric] by (auto simp: not_less [symmetric])
  show "sorted_wrt (<) (map es_number (rest_after n olds))" using sy unfolding r by (cases ys) auto
qed

lemma merge_entities_set:
  assumes "sorted_wrt (<) (map es_number olds)" "sorted_wrt (<) (map fst us)"
    and "\<forall>(n, e)\<in>set us. unat (es_number e) \<noteq> ENTITYNUM_NONE \<longrightarrow> es_number e = n"
  shows "set (merge_entities olds us) =
    {e \<in> set olds. es_number e \<notin> fst ` set us} \<union> {e \<in> snd ` set us. unat (es_number e) \<noteq> ENTITYNUM_NONE}"
  using assms
proof (induction olds us rule: merge_entities.induct)
  case (2 olds n e us)
  note rest = rest_after_sorted [OF 2(2), of n]
  have ih: "set (merge_entities (rest_after n olds) us) =
      {e \<in> set (rest_after n olds). es_number e \<notin> fst ` set us} \<union> {e \<in> snd ` set us. unat (es_number e) \<noteq> ENTITYNUM_NONE}"
    using 2 rest(1) by auto
  have us: "\<forall>k\<in>fst ` set us. n < k" using 2(3) by auto
  have "set (merge_entities olds ((n, e) # us)) = {a \<in> set olds. es_number a < n} \<union> set (kept e) \<union>
      {a \<in> set olds. n < es_number a \<and> es_number a \<notin> fst ` set us} \<union>
      {e \<in> snd ` set us. unat (es_number e) \<noteq> ENTITYNUM_NONE}"
    unfolding merge_entities.simps set_append ih rest by auto
  also have "\<dots> = {a \<in> set olds. es_number a \<notin> fst ` set ((n, e) # us)} \<union>
      {a \<in> snd ` set ((n, e) # us). unat (es_number a) \<noteq> ENTITYNUM_NONE}"
    using us by (auto simp: kept_def neq_iff)
  finally show ?case .
qed simp

lemma merge_entities_sorted:
  assumes "sorted_wrt (<) (map es_number olds)" "sorted_wrt (<) (map fst us)"
    and "\<forall>(n, e)\<in>set us. unat (es_number e) \<noteq> ENTITYNUM_NONE \<longrightarrow> es_number e = n"
  shows "sorted_wrt (<) (map es_number (merge_entities olds us))"
  using assms
proof (induction olds us rule: merge_entities.induct)
  case (2 olds n e us)
  let ?xs = "takeWhile (\<lambda>e. es_number e < n) olds"
  note rest = rest_after_sorted [OF 2(2), of n]
  have sx: "sorted_wrt (<) (map es_number ?xs)" by (rule sorted_parts [OF 2(2)])
  have ih: "sorted_wrt (<) (map es_number (merge_entities (rest_after n olds) us))"
    using 2 rest(1) by auto
  have above: "n < es_number a" if "a \<in> set (merge_entities (rest_after n olds) us)" for a
  proof -
    have "a \<in> set (rest_after n olds) \<or> (\<exists>k. (k, a) \<in> set us \<and> unat (es_number a) \<noteq> ENTITYNUM_NONE)"
      using merge_entities_set [OF rest(1), of us] 2(3,4) that by auto
    then show ?thesis using rest(2) 2(3,4) by fastforce
  qed
  have below: "es_number a < n" if "a \<in> set ?xs" for a using that rest(3) by simp
  have k: "es_number b = n" if "b \<in> set (kept e)" for b using that 2(4) by (auto simp: kept_def split: if_splits)
  have sk: "sorted_wrt (<) (map es_number (kept e))" by (simp add: kept_def)
  have "es_number a < es_number b" if "a \<in> set ?xs" "b \<in> set (merge_entities (rest_after n olds) us)" for a b
    by (rule less_trans [OF below above]) (fact that)+
  then show ?case
    unfolding merge_entities.simps map_append sorted_wrt_append
    using sx sk ih above below k by auto
qed simp

section \<open>Properties of snapshots\<close>

text \<open>What was read for a number has that number, or was removed.\<close>

definition keeps_numbers :: "(u16 \<times> (entityState_t \<Rightarrow> entityState_t)) list \<Rightarrow> bool" where
  "keeps_numbers us \<longleftrightarrow>
     (\<forall>(n, read)\<in>set us. \<forall>st. unat (es_number (read st)) \<noteq> ENTITYNUM_NONE \<longrightarrow> es_number (read st) = n)"

lemma read_states_numbers:
  assumes "read_states us res"
  shows "map fst res = map fst us" and
    "keeps_numbers us \<Longrightarrow> \<forall>(n, e)\<in>set res. unat (es_number e) \<noteq> ENTITYNUM_NONE \<longrightarrow> es_number e = n"
  using assms unfolding read_states_def keeps_numbers_def
  by (induction us res rule: list_all2_induct) auto

text \<open>C2: A snapshot whose numbers come in increasing order, sent against an old frame with at least one entity or
  against none, gives the merge of both: the numbers sent have the states that were read for them, those
  that were removed are gone, every other entity of the old frame is kept as it was, and the entities
  are in the order of their numbers. The old frame's are in this order too and are in the ring, which must
  have room for the new ones besides, and whose counter must not reach 2 ^ 32. (An old frame without entities is not merged like this, see
  \<open>empty_frame_revives_entity\<close>.)\<close>

theorem snapshot_entities_merge:
  assumes "case oldFrame of None \<Rightarrow> olds = [] | Some f \<Rightarrow> olds = frame_entities f sp \<and> olds \<noteq> []"
    and "0 < sp_maxParseEntities sp" "length (sp_parseEntities sp) = sp_maxParseEntities sp"
    and "old_start oldFrame P + length olds \<le> P" "P + length olds + length us \<le> old_start oldFrame P + sp_maxParseEntities sp"
      "P + length olds + length us < 2 ^ 32" "P = unat (sp_parseEntitiesNum sp)"
    and "\<forall>e\<in>set olds. unat (es_number e) \<noteq> ENTITYNUM_NONE"
    and "el_ok baselines" "ENTITYNUM_NONE \<le> unat (el_maxEntities baselines)"
    and "sends_entities ep baselines (sp_deltaTime sp) olds us b" "mr m (b @ post)" "True \<in> set post"
    and "sorted_wrt (<) (map es_number olds)" "sorted_wrt (<) (map fst us)" "keeps_numbers us"
  shows "\<exists>frame sp' m' res. parsePacketEntities ep baselines oldFrame newFrame sp m = Some (Inr (frame, sp', m')) \<and>
    mr m' post \<and> read_states us res \<and> sorted_wrt (<) (map es_number (frame_entities frame sp')) \<and>
    set (frame_entities frame sp') = {e \<in> set olds. es_number e \<notin> fst ` set us} \<union>
      {e \<in> snd ` set res. unat (es_number e) \<noteq> ENTITYNUM_NONE}"
proof -
  obtain frame sp' m' res where p: "parsePacketEntities ep baselines oldFrame newFrame sp m = Some (Inr (frame, sp', m'))"
    "mr m' post" "read_states us res" "frame_entities frame sp' = merge_entities olds res"
    using parsePacketEntities_ok [OF assms(1-13), of newFrame] by blast
  note n = read_states_numbers [OF p(3)]
  have s: "sorted_wrt (<) (map fst res)" using n(1) assms(15) by simp
  have "fst ` set res = fst ` set us" using n(1) by (metis set_map)
  then show ?thesis
    using p merge_entities_set [OF assms(14) s n(2)] merge_entities_sorted [OF assms(14) s n(2)] assms(16) by auto
qed

lemma reader_exists:
  assumes "puts op b"
  shows "\<exists>m post. mr m (b @ post) \<and> True \<in> set post"
proof -
  have "\<exists>y. transfer (\<lambda>_. op) (\<lambda>m. Inr (m, m)) () (DynS (dyn_new 0)) = Inr y \<and> (\<exists>post. mr y (b @ post) \<and> True \<in> set post)"
    by (rule transfer_any [where put = "\<lambda>_. op" and x = "()" and R = "length b + 1", OF assms]) auto
  then show ?thesis by blast
qed

lemma two_in_order:
  assumes "sorted_wrt (<) (map es_number xs)" "set xs = {a, b}" "es_number a < es_number b"
  shows "xs = [a, b]"
proof -
  have "distinct xs" using assms(1) by (metis distinct_map strict_sorted_iff)
  moreover have "a \<noteq> b" using assms(3) by auto
  ultimately have "length xs = 2" using assms(2) distinct_card [of xs] by simp
  then obtain x y where xs: "xs = [x, y]" by (auto simp: numeral_2_eq_2 length_Suc_conv)
  then have "es_number x < es_number y" "{x, y} = {a, b}" using assms(1,2) by simp_all
  moreover have "\<not> es_number b < es_number a" using assms(3) by (simp add: not_less less_imp_le)
  ultimately show ?thesis unfolding xs doubleton_eq_iff by blast
qed

definition a_parm :: snapshotParm_t where
  "a_parm = \<lparr>sp_oldSnapshots = [], sp_oldSnap = None,
     sp_parseEntities = (replicate 8 entityState_new)[2 := a_door], sp_numOldSnapshots = 32,
     sp_maxParseEntities = 8, sp_maxSnapshotEntities = 4, sp_parseEntitiesNum = 3, sp_deltaTime = 0\<rparr>"

definition a_frame :: rawSnapshot_t where
  "a_frame = rawSnapshot_new\<lparr>rs_parseEntitiesNum := 2, rs_numEntities := 1\<rparr>"

lemma a_frame_entities: "frame_entities a_frame a_parm = [a_door]"
  by (simp add: frame_entities_def a_frame_def a_parm_def upt_conv_Cons nth_list_update)

theorem snapshot_entities_merge_witness:
  "\<exists>m frame sp' m'. parsePacketEntities Entity8 (EntityList_new 1024) (Some a_frame) rawSnapshot_new a_parm m =
      Some (Inr (frame, sp', m')) \<and>
    frame_entities frame sp' = [a_door, entityState_new\<lparr>es_number := 9\<rparr>]"
proof -
  let ?us = "[(9 :: u16, \<lambda>st :: entityState_t. entityState_new\<lparr>es_number := 9\<rparr>)]"
  have "unat (9 :: u16) < MAX_GENTITIES" "unat (of_nat ENTITYNUM_NONE :: u16) < MAX_GENTITIES"
    by (simp_all add: MAX_GENTITIES_def GENTITYNUM_BITS_def ENTITYNUM_NONE_def)
  note nums = this [THEN entity_number_carries(1)]
  obtain b1 where b1: "puts (WriteEntityNum 9) b1" "gets ReadEntityNum b1 9" using nums(1) by (rule carriesE)
  obtain b3 where b3: "puts (WriteEntityNum (of_nat ENTITYNUM_NONE)) b3" "gets ReadEntityNum b3 (of_nat ENTITYNUM_NONE)"
    using nums(2) by (rule carriesE)
  have from_base: "delta_from (EntityList_new 1024) [a_door] 9 = entityState_new"
    by (simp add: delta_from_def EntityList_new_def a_door_def)
  have b2: "gets (entity_LoadDelta 9 (Some entityState_new) st) [False, False] (entityState_new\<lparr>es_number := 9\<rparr>)" for st
  proof -
    have "gets (entity_LoadDelta 9 (Some entityState_new) st) ([False] @ [False] @ []) (entityState_new\<lparr>es_number := 9\<rparr>)"
      unfolding entity_LoadDelta_def load_entity_def [abs_def] from_entity_def option.case
      by (rule gets_bind [OF ReadBool_gets], simp only: if_False simp_thms, rule gets_bind [OF ReadBool_gets])
        (simp add: gets_return)
    then show ?thesis by simp
  qed
  have sends: "sends_entities Entity8 (EntityList_new 1024) (sp_deltaTime a_parm) [a_door] ?us (b1 @ [False, False] @ b3)"
  proof -
    have "unat (9 :: u16) < ENTITYNUM_NONE" by (simp add: ENTITYNUM_NONE_def MAX_GENTITIES_def GENTITYNUM_BITS_def)
    then show ?thesis
      using b1(2) b2 b3(2) unfolding sends_entities.simps from_base
      by (intro conjI exI [of _ b1] exI [of _ "[False, False]"] exI [of _ b3]) (simp_all add: Entity8_def)
  qed
  have "puts (\<lambda>m. rbind (WriteEntityNum 9 m) (\<lambda>m. rbind (WriteBool False m) (\<lambda>m. rbind (WriteBool False m)
      (WriteEntityNum (of_nat ENTITYNUM_NONE))))) (b1 @ [False] @ [False] @ b3)"
    by (intro puts_bind b1(1) b3(1) WriteBool_puts)
  then obtain m post where m: "mr m ((b1 @ [False, False] @ b3) @ post)" "True \<in> set post"
    using reader_exists by fastforce
  have k: "keeps_numbers ?us" by (simp add: keeps_numbers_def)
  have num: "es_number a_door = 7" "unat (es_number a_door) \<noteq> ENTITYNUM_NONE" 
    by (simp_all add: a_door_def ENTITYNUM_NONE_def MAX_GENTITIES_def GENTITYNUM_BITS_def)
  have ring: "case Some a_frame of None \<Rightarrow> [a_door] = [] | Some f \<Rightarrow> [a_door] = frame_entities f a_parm \<and> [a_door] \<noteq> []"
    by (simp add: a_frame_entities)
  have size: "0 < sp_maxParseEntities a_parm" "length (sp_parseEntities a_parm) = sp_maxParseEntities a_parm"
    by (simp_all add: a_parm_def)
  have place: "old_start (Some a_frame) 3 + length [a_door] \<le> 3"
    "3 + length [a_door] + length ?us \<le> old_start (Some a_frame) 3 + sp_maxParseEntities a_parm"
    "3 + length [a_door] + length ?us < 2 ^ 32" "3 = unat (sp_parseEntitiesNum a_parm)"
    by (simp_all add: old_start_def a_frame_def a_parm_def)
  have live: "\<forall>e\<in>set [a_door]. unat (es_number e) \<noteq> ENTITYNUM_NONE" using num by simp
  have base: "el_ok (EntityList_new 1024)" "ENTITYNUM_NONE \<le> unat (el_maxEntities (EntityList_new 1024))"
    by (simp_all add: EntityList_new_def el_ok_def ENTITYNUM_NONE_def MAX_GENTITIES_def GENTITYNUM_BITS_def)
  have order: "sorted_wrt (<) (map es_number [a_door])" "sorted_wrt (<) (map fst ?us)" by simp_all
  note merged = snapshot_entities_merge [OF ring size place live base sends m order k, where newFrame = rawSnapshot_new]
  obtain frame sp' m' res where p: "parsePacketEntities Entity8 (EntityList_new 1024) (Some a_frame) rawSnapshot_new a_parm m =
      Some (Inr (frame, sp', m'))" "mr m' post" "read_states ?us res" "sorted_wrt (<) (map es_number (frame_entities frame sp'))"
    "set (frame_entities frame sp') = {e \<in> set [a_door]. es_number e \<notin> fst ` set ?us} \<union>
      {e \<in> snd ` set res. unat (es_number e) \<noteq> ENTITYNUM_NONE}"
    using merged by (elim exE conjE) (rule that)
  have res: "res = [(9, entityState_new\<lparr>es_number := 9\<rparr>)]" using p(3) by (auto simp: read_states_def list_all2_Cons1)
  have "{e \<in> set [a_door]. es_number e \<notin> fst ` set ?us} = {a_door}" using num(1) by auto
  moreover have "{e \<in> snd ` set res. unat (es_number e) \<noteq> ENTITYNUM_NONE} = {entityState_new\<lparr>es_number := 9\<rparr>}"
    unfolding res by (auto simp: ENTITYNUM_NONE_def MAX_GENTITIES_def GENTITYNUM_BITS_def)
  ultimately have "set (frame_entities frame sp') = {a_door, entityState_new\<lparr>es_number := 9\<rparr>}"
    unfolding p(5) by (simp add: insert_commute)
  then have "frame_entities frame sp' = [a_door, entityState_new\<lparr>es_number := 9\<rparr>]"
    using two_in_order [OF p(4)] num(1) by simp
  with p(1) show ?thesis by blast
qed

text \<open>C26: A snapshot against an old frame without entities, that sends none, gets one all the same when the state in
  the ring at the start of the old frame, whoever's it is, does not have the number that marks a removed
  entity: it gets that state. The parser looks at the first old entity before it looks at their number.\<close>

theorem empty_frame_revives_entity:
  assumes "rs_numEntities f = 0" "0 < sp_maxParseEntities sp" "length (sp_parseEntities sp) = sp_maxParseEntities sp"
    and "stale = sp_parseEntities sp ! (unat (rs_parseEntitiesNum f) mod sp_maxParseEntities sp)"
    and "unat (es_number stale) \<noteq> ENTITYNUM_NONE"
    and "gets (readEntityNum ep) b (of_nat ENTITYNUM_NONE)" "mr m (b @ post)" "True \<in> set post"
  shows "\<exists>frame sp' m'. parsePacketEntities ep baselines (Some f) newFrame sp m = Some (Inr (frame, sp', m')) \<and>
    mr m' post \<and> frame_entities frame sp' = [stale]"
proof -
  let ?M = "sp_maxParseEntities sp" and ?slot = "unat (rs_parseEntitiesNum f) mod sp_maxParseEntities sp"
  let ?new = "unat (sp_parseEntitiesNum sp) mod sp_maxParseEntities sp"
  let ?frame = "newFrame\<lparr>rs_parseEntitiesNum := sp_parseEntitiesNum sp, rs_numEntities := 0\<rparr>"
  let ?cu = "\<lparr>cu_oldIndex = 0, cu_oldState = ?slot, cu_oldNum = ucast (es_number stale)\<rparr>"
  have lt: "\<not> ?M \<le> k mod ?M" for k using assms(2) by (simp add: not_le)
  obtain m1 where m1: "readEntityNum ep m = Inr (of_nat ENTITYNUM_NONE, m1)" "mr m1 post"
    using gets_step [OF assms(6,7,8)] by blast
  have cu: "cursor_at f sp 0 = Inr ?cu" using lt assms(2-4) by (simp add: cursor_at_def Let_def)
  have p: "parse_entities ep baselines (Some f) ?frame sp ?cu m = Some (Inr (?frame, sp, ?cu, m1))"
    using m1(1) numeral_NONE by (simp add: parse_entities.simps)
  have left: "(ucast (es_number stale) :: u32) \<noteq> 99999"
    using unsigned_less [of "es_number stale", where 'a = nat] by (auto simp: word_unat_eq_iff unat_u16_u32)
  have one: "parseDeltaEntity ep ?frame sp (ucast (es_number stale)) stale True m1 =
      Inr (?frame\<lparr>rs_numEntities := 1\<rparr>, add_entity stale sp, m1)"
    using lt assms(2,3,5) by (simp add: parseDeltaEntity_def add_entity_def Let_def)
  have "old_state sp ?cu = Inr stale" using lt assms(2-4) by (simp add: old_state_def not_le)
  moreover have "next_old (Some f) (add_entity stale sp) ?cu = Inr (?cu\<lparr>cu_oldIndex := 1, cu_oldNum := 99999\<rparr>)"
    using assms(1) by (simp add: next_old_def)
  ultimately have c: "copy_old ep None (Some f) ?frame sp ?cu m1 =
      Inr (?frame\<lparr>rs_numEntities := 1\<rparr>, add_entity stale sp, ?cu\<lparr>cu_oldIndex := 1, cu_oldNum := 99999\<rparr>, m1)"
    using left one by (subst copy_old.simps) (simp add: copy_old.simps)
  have "parsePacketEntities ep baselines (Some f) newFrame sp m =
      Some (Inr (?frame\<lparr>rs_numEntities := 1\<rparr>, add_entity stale sp, m1))"
    using cu p c by (simp add: parsePacketEntities_def Let_def)
  moreover have "frame_entities (?frame\<lparr>rs_numEntities := 1\<rparr>) (add_entity stale sp) = [stale]"
    using assms(2,3,5) by (simp add: frame_entities_def add_entity_def Let_def upt_conv_Cons)
  ultimately show ?thesis using m1(2) by blast
qed

theorem empty_frame_revives_entity_witness:
  "\<exists>m frame sp' m'. parsePacketEntities Entity8 (EntityList_new 1024) (Some (a_frame\<lparr>rs_numEntities := 0\<rparr>))
      rawSnapshot_new a_parm m = Some (Inr (frame, sp', m')) \<and> frame_entities frame sp' = [a_door]"
proof -
  have "unat (of_nat ENTITYNUM_NONE :: u16) < MAX_GENTITIES"
    by (simp add: MAX_GENTITIES_def GENTITYNUM_BITS_def ENTITYNUM_NONE_def)
  then obtain b where b: "puts (WriteEntityNum (of_nat ENTITYNUM_NONE)) b" "gets ReadEntityNum b (of_nat ENTITYNUM_NONE)"
    using entity_number_carries(1) by (metis carriesE)
  then obtain m post where m: "mr m (b @ post)" "True \<in> set post" using reader_exists by blast
  have "a_door = sp_parseEntities a_parm ! (unat (rs_parseEntitiesNum (a_frame\<lparr>rs_numEntities := 0\<rparr>)) mod sp_maxParseEntities a_parm)"
    using a_frame_entities by (simp add: frame_entities_def a_frame_def a_parm_def upt_conv_Cons)
  from empty_frame_revives_entity [OF _ _ _ this a_door_ok(1) _ m, of Entity8] b(2) show ?thesis
    by (fastforce simp: a_parm_def Entity8_def)
qed

end
