(* ===== verification/PVS.thy ===== *)
theory PVS
  imports PlayerDelta
begin

text \<open>
  Players that are not visible (\<open>Parsing/PVS.cpp\<close>): their position relative to the player, sent in the
  32 bits of \<open>radarInfo_t\<close>, of which the theory \<open>PlayerDelta\<close> has the packing.
\<close>

section \<open>Reading and writing\<close>

definition RADAR_PLAYER_FAR :: byte where "RADAR_PLAYER_FAR = 1"

definition getMinCoord :: byte where "getMinCoord = - ucast (drop_bit 1 BIT_COORD)"
definition getMaxCoord :: byte where "getMaxCoord = ucast (drop_bit 1 BIT_COORD)"
definition getCoordPrecision :: u32 where "getCoordPrecision = f32_of_int (uint (drop_bit 1 BIT_COORD))"
definition getYawPrecision :: u32 where
  "getYawPrecision = f32_div (f32_of_int 360) (f32_of_int (uint (BIT_YAW + 1)))"

text \<open>Only the first two coordinates of the origin are used.\<close>

record pvsParm_t =
  pvs_origin :: "u32 \<times> u32"
  pvs_clientNum :: u32
  pvs_radarRange :: u32
  pvs_radarFarMult :: u32

definition pvsParm_new :: "u32 \<times> u32 \<Rightarrow> pvsParm_t" where
  "pvsParm_new origin =
     \<lparr>pvs_origin = origin, pvs_clientNum = 0, pvs_radarRange = f32_of_int 256, pvs_radarFarMult = f32_of_int 1024\<rparr>"

record radarUnpacked_t =
  ru_clientNum :: u32
  ru_x :: u32
  ru_y :: u32
  ru_yaw :: u32

text \<open>\<open>unpacked\<close> is an argument and a result; it gets the number of the client also if that is one's own.\<close>

definition unpackNonPVSClient :: "u32 \<Rightarrow> radarUnpacked_t \<Rightarrow> pvsParm_t \<Rightarrow> bool \<times> radarUnpacked_t" where
  "unpackNonPVSClient radarInfo unpacked parm =
     (let u1 = unpacked\<lparr>ru_clientNum := ucast (radar_clientNum radarInfo)\<rparr> in
      if ru_clientNum u1 = pvs_clientNum parm then (False, u1)
      else
        let radarScaled = f32_div (pvs_radarRange parm) getCoordPrecision;
            x = f32_mul (f32_of_int (sint (radar_x radarInfo))) radarScaled;
            y = f32_mul (f32_of_int (sint (radar_y radarInfo))) radarScaled;
            far = (radar_flags radarInfo AND RADAR_PLAYER_FAR \<noteq> 0)
        in (True, u1\<lparr>ru_x := (if far then f32_mul x (pvs_radarFarMult parm) else x),
                     ru_y := (if far then f32_mul y (pvs_radarFarMult parm) else y),
                     ru_yaw := f32_mul (f32_of_int (sint (radar_yaw radarInfo))) getYawPrecision\<rparr>))"

definition PVS17_readNonPVSClient :: "u32 \<Rightarrow> pvsParm_t \<Rightarrow> radarUnpacked_t \<Rightarrow> bool \<times> radarUnpacked_t" where
  "PVS17_readNonPVSClient radarInfo parm unpacked =
     (let (ok, u) = unpackNonPVSClient radarInfo unpacked parm in
      if ok then (True, u\<lparr>ru_x := f32_add (ru_x u) (fst (pvs_origin parm)), ru_y := f32_add (ru_y u) (snd (pvs_origin parm))\<rparr>)
      else (False, u))"

text \<open>A conversion to a signed byte is the lower byte of the conversion to 32 bits.\<close>

definition f32_to_int8 :: "u32 \<Rightarrow> byte" where
  "f32_to_int8 v = ucast (f32_to_int32 v)"

definition clamp_coord :: "u32 \<Rightarrow> byte" where
  "clamp_coord rel =
     (if f32_less rel (f32_of_int (sint getMinCoord)) then getMinCoord
      else if f32_less (f32_of_int (sint getMaxCoord)) rel then getMaxCoord
      else f32_to_int8 rel)"

definition PVS17_writeNonPVSClient :: "pvsParm_t \<Rightarrow> radarUnpacked_t \<Rightarrow> u32" where
  "PVS17_writeNonPVSClient parm unpacked =
     (let relx = f32_sub (ru_x unpacked) (fst (pvs_origin parm));
          rely = f32_sub (ru_y unpacked) (snd (pvs_origin parm));
          yaw = f32_to_int8 (f32_div (ru_yaw unpacked) getYawPrecision);
          cmin = f32_of_int (sint getMinCoord); cmax = f32_of_int (sint getMaxCoord);
          flags = (if f32_less relx cmin \<or> f32_less rely cmin \<or> f32_less cmax rely \<or> f32_less cmax rely
                   then 0 OR RADAR_PLAYER_FAR else 0)
      in radarInfo_new (ucast (ru_clientNum unpacked)) (clamp_coord relx) (clamp_coord rely) yaw flags)"

record pvs_parser =
  readNonPVSClient :: "u32 \<Rightarrow> pvsParm_t \<Rightarrow> radarUnpacked_t \<Rightarrow> bool \<times> radarUnpacked_t"
  writeNonPVSClient :: "pvsParm_t \<Rightarrow> radarUnpacked_t \<Rightarrow> u32"

definition PVS8 :: pvs_parser where
  "PVS8 = \<lparr>readNonPVSClient = (\<lambda>radarInfo parm unpacked. (False, unpacked)), writeNonPVSClient = (\<lambda>parm unpacked. 0)\<rparr>"

definition PVS17 :: pvs_parser where
  "PVS17 = \<lparr>readNonPVSClient = PVS17_readNonPVSClient, writeNonPVSClient = PVS17_writeNonPVSClient\<rparr>"

definition PVSVersion8 :: "pvs_parser singleton" where "PVSVersion8 = (5, 8, PVS8)"
definition PVSVersion17 :: "pvs_parser singleton" where "PVSVersion17 = (15, 17, PVS17)"

section \<open>The packed value\<close>

lemma radar_masks: "w AND 63 = take_bit 6 w" "w AND 127 = take_bit 7 w" "w AND 31 = take_bit 5 w" for w :: u32
  by (simp_all add: take_bit_eq_mask mask_eq_exp_minus_1)

definition five_fields :: "u32 \<Rightarrow> u32 \<Rightarrow> u32 \<Rightarrow> u32 \<Rightarrow> u32 \<Rightarrow> u32" where
  "five_fields c x y w f =
     take_bit 6 c OR push_bit 6 (take_bit 7 x) OR push_bit 13 (take_bit 7 y) OR push_bit 20 (take_bit 5 w) OR push_bit 25 f"

lemma radarInfo_fields:
  "radarInfo_new c x y yaw fl = five_fields (ucast c) (scast x + 63) (scast y + 63) (scast yaw) (scast fl)"
  by (simp add: radarInfo_new_def five_fields_def BIT_CLIENT_def BIT_COORD_def BIT_YAW_def radar_masks)

lemma five_fields_bit:
  "bit (five_fields c x y w f) n \<longleftrightarrow> n < 32 \<and>
     (if n < 6 then bit c n else if n < 13 then bit x (n - 6) else if n < 20 then bit y (n - 13)
      else if n < 25 then bit w (n - 20) else bit f (n - 25))"
  unfolding five_fields_def
  by (simp only: bit_or_iff bit_push_bit_iff bit_take_bit_iff possible_bit_def) (cases "n < 32"; auto dest: bit_imp_le_length)

lemma five_fields_parts:
  "take_bit 6 (five_fields c x y w f) = take_bit 6 c"
  "take_bit 7 (drop_bit 6 (five_fields c x y w f)) = take_bit 7 x"
  "take_bit 7 (drop_bit 13 (five_fields c x y w f)) = take_bit 7 y"
  "take_bit 5 (drop_bit 20 (five_fields c x y w f)) = take_bit 5 w"
  "drop_bit 25 (five_fields c x y w f) = take_bit 7 f"
  by (rule bit_word_eqI, simp add: bit_take_bit_iff bit_drop_bit_eq five_fields_bit, fastforce?)+

lemma scast_ucast_byte: "(ucast (scast x :: u32) :: byte) = x" for x :: byte
  by (rule bit_word_eqI) (auto simp: bit_unsigned_iff bit_signed_iff possible_bit_def)

lemma coord_byte:
  fixes x :: byte
  assumes "- 63 \<le> sint x" "sint x \<le> 64"
  shows "(ucast (take_bit 7 (scast x + 63 :: u32) - 63) :: byte) = x"
proof -
  have s: "(scast x :: u32) = word_of_int (sint x)" 
    by (rule bit_word_eqI) (auto simp: bit_signed_iff bit_word_of_int_iff bit_sint_iff possible_bit_def)
  have "scast x + 63 = (word_of_int (sint x + 63) :: u32)" by (simp only: s of_int_add of_int_numeral)
  then have "uint (scast x + 63 :: u32) = sint x + 63"
    using assms by (simp only: unsigned_of_int) (simp add: take_bit_int_eq_self)
  then have "take_bit 7 (scast x + 63 :: u32) = scast x + 63"
    using assms by (simp only: word_uint_eq_iff unsigned_take_bit_eq) (simp add: take_bit_int_eq_self)
  then show ?thesis by (simp add: scast_ucast_byte)
qed

text \<open>The parts of a packed value come back.\<close>

lemma radar_roundtrip:
  assumes "- 63 \<le> sint x" "sint x \<le> 64" "- 63 \<le> sint y" "sint y \<le> 64"
  shows "radar_clientNum (radarInfo_new c x y yaw fl) = take_bit 6 c"
    "radar_x (radarInfo_new c x y yaw fl) = x" "radar_y (radarInfo_new c x y yaw fl) = y"
    "radar_yaw (radarInfo_new c x y yaw fl) = take_bit 5 yaw"
    "radar_flags (radarInfo_new c x y yaw fl) = take_bit 7 fl"
proof -
  have t: "(ucast (take_bit n (ucast c :: u32)) :: byte) = take_bit n c" "(ucast (take_bit n (scast c :: u32)) :: byte) = take_bit n c"
    for n and c :: byte
    by (rule bit_word_eqI, auto simp: bit_unsigned_iff bit_take_bit_iff bit_signed_iff possible_bit_def)+
  show "radar_clientNum (radarInfo_new c x y yaw fl) = take_bit 6 c"
    "radar_yaw (radarInfo_new c x y yaw fl) = take_bit 5 yaw"
    "radar_flags (radarInfo_new c x y yaw fl) = take_bit 7 fl"
    by (simp_all add: radar_clientNum_def radar_yaw_def radar_flags_def radar_masks radarInfo_fields five_fields_parts t)
  show "radar_x (radarInfo_new c x y yaw fl) = x" "radar_y (radarInfo_new c x y yaw fl) = y"
    using assms by (simp_all add: radar_x_def radar_y_def radar_masks radarInfo_fields five_fields_parts coord_byte)
qed

section \<open>Properties\<close>

lemma f32_denominator_pos: "0 < snd (f32_val r)"
  by (simp add: f32_val_def scale2_def)

lemma coord_limits:
  "sint getMinCoord = - 63" "sint getMaxCoord = 63"
  "f32_val (f32_of_int (- 63)) = (- 16515072, 262144)" "f32_val (f32_of_int 63) = (16515072, 262144)"
  by code_simp+

text \<open>A player that is too far away in the direction of the first coordinate only is not marked as far:
  the test compares the second coordinate twice. It is received at the edge of the near range.\<close>

theorem far_player_not_flagged:
  assumes "relx = f32_sub (ru_x unpacked) (fst (pvs_origin parm))" "rely = f32_sub (ru_y unpacked) (snd (pvs_origin parm))"
    and "f32_less (f32_of_int 63) relx" "\<not> f32_less rely (f32_of_int (- 63))" "\<not> f32_less (f32_of_int 63) rely"
  shows "radar_flags (PVS17_writeNonPVSClient parm unpacked) = 0 \<and> radar_x (PVS17_writeNonPVSClient parm unpacked) = getMaxCoord"
proof -
  have x: "\<not> f32_less relx (f32_of_int (- 63))"
    using assms(3) f32_denominator_pos [of relx] by (auto simp: f32_less_def coord_limits)
  obtain y where y: "PVS17_writeNonPVSClient parm unpacked =
      radarInfo_new (ucast (ru_clientNum unpacked)) (clamp_coord relx) (clamp_coord rely) y 0"
    using assms(4,5) x by (simp add: PVS17_writeNonPVSClient_def Let_def coord_limits flip: assms(1,2))
  have "clamp_coord relx = getMaxCoord" using x assms(3) by (simp add: clamp_coord_def coord_limits)
  moreover have "(ucast (take_bit 7 (scast getMaxCoord + 63 :: u32) - 63) :: byte) = getMaxCoord"
    by (rule coord_byte) (simp_all add: coord_limits)
  moreover have "(scast (0 :: byte) :: u32) = 0" by simp
  ultimately show ?thesis
    unfolding y by (simp add: radar_flags_def radar_x_def radar_masks radarInfo_fields five_fields_parts)
qed

lemma far_and_near:
  "f32_sub 0x447A0000 0x3F800000 = 0x4479C000" "f32_sub 0x40A00000 0x3F800000 = 0x40800000"
proof -
  have v: "f32_val 0x447A0000 = (16384000, 16384)" "f32_val 0xBF800000 = (- 8388608, 8388608)"
    "f32_val 0x40A00000 = (10485760, 2097152)"
    by code_simp+
  have n: "\<not> f32_is_nan 0x447A0000" "\<not> f32_is_nan 0xBF800000" "\<not> f32_is_nan 0x40A00000"
    "\<not> f32_is_inf 0x447A0000" "\<not> f32_is_inf 0xBF800000" "\<not> f32_is_inf 0x40A00000"
    "\<not> f32_sign 0x447A0000" "\<not> f32_sign 0x40A00000"
    by code_simp+
  have g: "f32_neg 0x3F800000 = 0xBF800000" by (simp add: f32_neg_def)
  have "f32_sub 0x447A0000 0x3F800000 = f32_round False (137301514518528, 137438953472)"
    "f32_sub 0x40A00000 0x3F800000 = f32_round False (70368744177664, 17592186044416)"
    unfolding f32_sub_def g by (simp_all add: f32_add_def v n)
  moreover have "f32_round False (137301514518528, 137438953472) = 0x4479C000"
    "f32_round False (70368744177664, 17592186044416) = 0x40800000"
    by code_simp+
  ultimately show "f32_sub 0x447A0000 0x3F800000 = 0x4479C000" "f32_sub 0x40A00000 0x3F800000 = 0x40800000" by simp_all
qed

theorem far_player_not_flagged_witness:
  "radar_x (PVS17_writeNonPVSClient (pvsParm_new (f32_of_int 1, f32_of_int 1))
     \<lparr>ru_clientNum = 3, ru_x = f32_of_int 1000, ru_y = f32_of_int 5, ru_yaw = 0\<rparr>) = getMaxCoord"
proof -
  let ?u = "\<lparr>ru_clientNum = 3, ru_x = f32_of_int 1000, ru_y = f32_of_int 5, ru_yaw = 0\<rparr>"
  let ?p = "pvsParm_new (f32_of_int 1, f32_of_int 1)"
  have n: "f32_of_int 1000 = 0x447A0000" "f32_of_int 1 = 0x3F800000" "f32_of_int 5 = 0x40A00000" by code_simp+
  have "f32_less (f32_of_int 63) 0x4479C000" "\<not> f32_less 0x40800000 (f32_of_int (- 63))" "\<not> f32_less (f32_of_int 63) 0x40800000"
    by code_simp+
  then have far: "f32_less (f32_of_int 63) (f32_sub (f32_of_int 1000) (f32_of_int 1))"
    and near: "\<not> f32_less (f32_sub (f32_of_int 5) (f32_of_int 1)) (f32_of_int (- 63))"
      "\<not> f32_less (f32_of_int 63) (f32_sub (f32_of_int 5) (f32_of_int 1))"
    by (simp_all only: n far_and_near not_False_eq_True)
  have "f32_sub (f32_of_int 1000) (f32_of_int 1) = f32_sub (ru_x ?u) (fst (pvs_origin ?p))"
    "f32_sub (f32_of_int 5) (f32_of_int 1) = f32_sub (ru_y ?u) (snd (pvs_origin ?p))"
    by (simp_all only: pvsParm_new_def pvsParm_t.select_convs radarUnpacked_t.select_convs fst_conv snd_conv)
  from far_player_not_flagged [OF this far near] show ?thesis by (rule conjunct2)
qed

end
