(* ===== verification/ClientTime.thy ===== *)
theory ClientTime
  imports UserCmd Float32
begin

text \<open>
  The clock of the client (\<open>Client/Time.cpp\<close>): it simulates the time of the server between two snapshots
  and is adjusted by every snapshot. The ticks of the steady clock are nanoseconds, as an \<open>int\<close>; times
  of the server are milliseconds in 32 bits, which wrap around.
\<close>

section \<open>The clock\<close>

datatype extrapolation_e = ExtrapNone | Extrapolate | Catchup

record clientTime =
  ct_realTimeStart :: int
  ct_simulatedServerTime :: int
  ct_oldSimulated :: int
  ct_serverDeltaTime :: int
  ct_serverDeltaTimeSeconds :: u32
  ct_serverStartTime :: u32
  ct_frameServerTime :: u32
  ct_oldFrameServerTime :: u32
  ct_timeNudge :: u32
  ct_extrapolation :: extrapolation_e

datatype time_error = ServerTimeWentBackward u32 u32

text \<open>The cast of a time of the server to ticks.\<close>

definition net_tick :: "u32 \<Rightarrow> int" where
  "net_tick t = of_ms (uint t)"

definition clientTime_new :: clientTime where
  "clientTime_new =
     \<lparr>ct_realTimeStart = 0, ct_simulatedServerTime = 0, ct_oldSimulated = 0, ct_serverDeltaTime = 0,
      ct_serverDeltaTimeSeconds = 0, ct_serverStartTime = 0, ct_frameServerTime = 0, ct_oldFrameServerTime = 0,
      ct_timeNudge = 0, ct_extrapolation = ExtrapNone\<rparr>"

definition setTimeNudge :: "u32 \<Rightarrow> clientTime \<Rightarrow> clientTime" where
  "setTimeNudge timeNudgeValue t = t\<lparr>ct_timeNudge := timeNudgeValue\<rparr>"

definition initRemoteTime :: "int \<Rightarrow> u32 \<Rightarrow> clientTime \<Rightarrow> clientTime" where
  "initRemoteTime currentTime remoteTimeValue t =
     t\<lparr>ct_serverStartTime := remoteTimeValue,
       ct_simulatedServerTime := currentTime - ct_realTimeStart t + net_tick remoteTimeValue\<rparr>"

definition setStartTime :: "int \<Rightarrow> clientTime \<Rightarrow> clientTime" where
  "setStartTime currentTime t = t\<lparr>ct_realTimeStart := currentTime\<rparr>"

definition setRemoteStartTime :: "u32 \<Rightarrow> clientTime \<Rightarrow> clientTime" where
  "setRemoteStartTime remoteTimeValue t = t\<lparr>ct_serverStartTime := remoteTimeValue\<rparr>"

definition setDeltaTime :: "int \<Rightarrow> clientTime \<Rightarrow> clientTime" where
  "setDeltaTime remoteDeltaTime t =
     t\<lparr>ct_serverDeltaTime := remoteDeltaTime,
       ct_serverDeltaTimeSeconds := f32_div (f32_of_int remoteDeltaTime) (f32_of_int 1000000000)\<rparr>"

definition getTimeDelta :: "int \<Rightarrow> u32 \<Rightarrow> int" where
  "getTimeDelta time remoteTime =
     (if net_tick remoteTime < time then time - net_tick remoteTime else net_tick remoteTime - time)"

definition resetTime :: int where "resetTime = of_ms 500"
definition maxDeltaTime :: int where "maxDeltaTime = of_ms 100"

text \<open>The cast to the milliseconds of the server truncates and takes the lower 32 bits.\<close>

definition adjustTimeDelta :: "int \<Rightarrow> u32 \<Rightarrow> clientTime \<Rightarrow> clientTime" where
  "adjustTimeDelta realTime remoteTime t =
     (let deltaDelta = getTimeDelta (ct_simulatedServerTime t) remoteTime in
      if deltaDelta > resetTime then
        t\<lparr>ct_realTimeStart := realTime, ct_serverStartTime := remoteTime,
          ct_simulatedServerTime := net_tick remoteTime, ct_oldSimulated := net_tick remoteTime\<rparr>
      else if deltaDelta > maxDeltaTime then
        t\<lparr>ct_serverStartTime := ct_serverStartTime t - word_of_int ((deltaDelta - maxDeltaTime) div 2 div 1000000)\<rparr>
      else if ct_extrapolation t = Extrapolate then
        t\<lparr>ct_extrapolation := ExtrapNone, ct_serverStartTime := ct_serverStartTime t - 2\<rparr>
      else if ct_extrapolation t = Catchup then t\<lparr>ct_serverStartTime := ct_serverStartTime t + 1\<rparr>
      else t)"

text \<open>The time that the clock shows, before the nudge.\<close>

definition simulated_at :: "int \<Rightarrow> clientTime \<Rightarrow> int" where
  "simulated_at newTime t = net_tick (ct_serverStartTime t) + (newTime - ct_realTimeStart t)"

definition ClientTime_setTime :: "int \<Rightarrow> u32 \<Rightarrow> bool \<Rightarrow> clientTime \<Rightarrow> time_error + clientTime" where
  "ClientTime_setTime newTime remoteTime adjust t =
     (if remoteTime < ct_frameServerTime t then Inl (ServerTimeWentBackward (ct_frameServerTime t) remoteTime)
      else
        let simulated = simulated_at newTime t;
            s1 = simulated - of_ms (sint (ct_timeNudge t));
            s2 = (if s1 < ct_oldSimulated t then ct_oldSimulated t else s1);
            t1 = t\<lparr>ct_oldFrameServerTime := ct_frameServerTime t, ct_frameServerTime := remoteTime,
                   ct_simulatedServerTime := s2, ct_oldSimulated := s2\<rparr>;
            t2 = (if simulated + of_ms 5 \<ge> net_tick remoteTime then t1\<lparr>ct_extrapolation := Extrapolate\<rparr>
                  else if simulated < net_tick remoteTime + of_ms 5 then t1\<lparr>ct_extrapolation := Catchup\<rparr>
                  else t1)
        in Inr (if adjust then adjustTimeDelta newTime remoteTime t2 else t2))"

section \<open>Properties\<close>

lemma of_ms_less [simp]: "of_ms a < of_ms b \<longleftrightarrow> a < b" "of_ms a \<le> of_ms b \<longleftrightarrow> a \<le> b"
  by (simp_all add: of_ms_def)

lemma getTimeDelta_abs: "getTimeDelta time remoteTime = \<bar>time - net_tick remoteTime\<bar>"
  by (simp add: getTimeDelta_def)

text \<open>The two cases of an adjustment for the simulated time.\<close>

lemma adjustTimeDelta_simulated:
  assumes "ct_oldSimulated t = ct_simulatedServerTime t"
  shows "ct_oldSimulated (adjustTimeDelta realTime remoteTime t) = ct_simulatedServerTime (adjustTimeDelta realTime remoteTime t)"
    "\<bar>ct_simulatedServerTime t - net_tick remoteTime\<bar> \<le> resetTime \<Longrightarrow>
     ct_simulatedServerTime (adjustTimeDelta realTime remoteTime t) = ct_simulatedServerTime t"
    "\<bar>ct_simulatedServerTime t - net_tick remoteTime\<bar> > resetTime \<Longrightarrow>
     ct_simulatedServerTime (adjustTimeDelta realTime remoteTime t) = net_tick remoteTime"
  using assms by (auto simp: adjustTimeDelta_def Let_def getTimeDelta_abs)

text \<open>The simulated time before an adjustment.\<close>

definition shown :: "int \<Rightarrow> clientTime \<Rightarrow> int" where
  "shown newTime t = max (ct_oldSimulated t) (simulated_at newTime t - of_ms (sint (ct_timeNudge t)))"

lemma ClientTime_setTime_simulated:
  assumes "ClientTime_setTime newTime remoteTime adjust t = Inr t'"
  shows "ct_oldSimulated t' = ct_simulatedServerTime t'"
    "ct_simulatedServerTime t' =
       (if adjust \<and> \<bar>shown newTime t - net_tick remoteTime\<bar> > resetTime then net_tick remoteTime else shown newTime t)"
  using assms adjustTimeDelta_simulated
  by (auto simp: ClientTime_setTime_def Let_def shown_def max_def split: if_splits)

text \<open>C37: As long as the time of the server does not go back, the simulated time is that of the server at the start
  and what has passed since, less the nudge, but never before the time that was simulated last; only an adjustment that finds this time more than 500 ms away from the time of the
  server sets it to the time of the server. So it goes back only in an adjustment, when the time it would
  have been is more than 500 ms after that of the server; and after an adjustment it is never more than
  500 ms away.\<close>

theorem simulated_time_bounds:
  assumes "ClientTime_setTime newTime remoteTime adjust t = Inr t'"
    and "s = max (ct_oldSimulated t) (simulated_at newTime t - of_ms (sint (ct_timeNudge t)))"
  shows "ct_frameServerTime t \<le> remoteTime \<and> ct_oldSimulated t' = ct_simulatedServerTime t' \<and>
    ct_simulatedServerTime t' = (if adjust \<and> \<bar>s - net_tick remoteTime\<bar> > of_ms 500 then net_tick remoteTime else s) \<and>
    (ct_simulatedServerTime t' < ct_oldSimulated t \<longrightarrow> adjust \<and> s - net_tick remoteTime > of_ms 500) \<and>
    (adjust \<longrightarrow> \<bar>ct_simulatedServerTime t' - net_tick remoteTime\<bar> \<le> of_ms 500)"
proof -
  have "s = shown newTime t" using assms(2) by (simp add: shown_def)
  then show ?thesis using ClientTime_setTime_simulated [OF assms(1)] assms(1)
    by (auto simp: ClientTime_setTime_def shown_def resetTime_def of_ms_def not_less split: if_splits)
qed

theorem simulated_time_bounds_witness:
  "ct_simulatedServerTime (projr (ClientTime_setTime (of_ms 20) 1000 True clientTime_new)) = net_tick 1000"
proof -
  have "ClientTime_setTime (of_ms 20) 1000 True clientTime_new =
      Inr (projr (ClientTime_setTime (of_ms 20) 1000 True clientTime_new))" by code_simp
  moreover have "\<bar>max (ct_oldSimulated clientTime_new) (simulated_at (of_ms 20) clientTime_new -
      of_ms (sint (ct_timeNudge clientTime_new))) - net_tick 1000\<bar> > of_ms 500" by code_simp
  ultimately show ?thesis
    using simulated_time_bounds [of "of_ms 20" 1000 True clientTime_new
        "projr (ClientTime_setTime (of_ms 20) 1000 True clientTime_new)", OF _ refl] by simp
qed

lemma ClientTime_setTime_adjust:
  assumes "ClientTime_setTime newTime remoteTime True t = Inr t'"
  obtains t2 where "t' = adjustTimeDelta newTime remoteTime t2" "ct_simulatedServerTime t2 = shown newTime t"
    "ct_serverStartTime t2 = ct_serverStartTime t" "ct_realTimeStart t2 = ct_realTimeStart t"
proof -
  let ?s = "shown newTime t"
  let ?t1 = "t\<lparr>ct_oldFrameServerTime := ct_frameServerTime t, ct_frameServerTime := remoteTime,
    ct_simulatedServerTime := ?s, ct_oldSimulated := ?s\<rparr>"
  have "(if simulated_at newTime t - of_ms (sint (ct_timeNudge t)) < ct_oldSimulated t then ct_oldSimulated t
      else simulated_at newTime t - of_ms (sint (ct_timeNudge t))) = ?s"
    by (simp add: shown_def)
  then have "\<exists>e. t' = adjustTimeDelta newTime remoteTime (?t1\<lparr>ct_extrapolation := e\<rparr>) \<or> t' = adjustTimeDelta newTime remoteTime ?t1"
    using assms unfolding ClientTime_setTime_def Let_def by (simp only: if_True split: if_splits) blast+
  then show thesis using that by fastforce
qed

text \<open>A clock that is 102 to 500 ms behind the server is moved further behind by the fast adjustment, which
  subtracts half of the difference whatever its sign.\<close>

theorem fast_adjust_moves_away:
  assumes "ClientTime_setTime newTime remoteTime True t = Inr t'"
    and "shown newTime t \<le> net_tick remoteTime - of_ms 102" "net_tick remoteTime - of_ms 500 \<le> shown newTime t"
    and "200 \<le> ct_serverStartTime t"
  shows "simulated_at newTime t' < simulated_at newTime t"
proof -
  let ?d = "net_tick remoteTime - shown newTime t"
  let ?k = "(?d - of_ms 100) div 2 div 1000000"
  have k: "1 \<le> ?k" "?k \<le> 200" using assms(2,3) by (simp_all add: of_ms_def)
  have n: "\<not> net_tick remoteTime < shown newTime t" "of_ms 100 < ?d" "\<not> of_ms 500 < ?d"
    using assms(2,3) by (simp_all add: of_ms_def)
  obtain t2 where t2: "t' = adjustTimeDelta newTime remoteTime t2" "ct_simulatedServerTime t2 = shown newTime t"
    "ct_serverStartTime t2 = ct_serverStartTime t" "ct_realTimeStart t2 = ct_realTimeStart t"
    using ClientTime_setTime_adjust [OF assms(1)] .
  have t': "ct_serverStartTime t' = ct_serverStartTime t - word_of_int ?k" "ct_realTimeStart t' = ct_realTimeStart t"
    unfolding t2(1) using n t2(2-4)
    by (simp_all add: adjustTimeDelta_def getTimeDelta_def resetTime_def maxDeltaTime_def Let_def)
  have "uint (word_of_int ?k :: u32) = ?k" using k by (simp add: unsigned_of_int take_bit_int_eq_self)
  moreover have "(word_of_int ?k :: u32) \<le> ct_serverStartTime t"
    using k assms(4) calculation by (simp add: word_le_def)
  ultimately have "uint (ct_serverStartTime t') = uint (ct_serverStartTime t) - ?k"
    unfolding t' by (simp add: uint_minus_simple_alt)
  then show ?thesis using k t'(2) by (simp add: simulated_at_def net_tick_def)
qed

theorem fast_adjust_moves_away_witness:
  "simulated_at (of_ms 20) (projr (ClientTime_setTime (of_ms 20) 1320 True (clientTime_new\<lparr>ct_serverStartTime := 1000\<rparr>))) <
   simulated_at (of_ms 20) (clientTime_new\<lparr>ct_serverStartTime := 1000\<rparr>)"
proof -
  let ?t = "clientTime_new\<lparr>ct_serverStartTime := 1000\<rparr>"
  have run: "ClientTime_setTime (of_ms 20) 1320 True ?t = Inr (projr (ClientTime_setTime (of_ms 20) 1320 True ?t))"
    and late: "shown (of_ms 20) ?t \<le> net_tick 1320 - of_ms 102" "net_tick 1320 - of_ms 500 \<le> shown (of_ms 20) ?t"
    and start: "200 \<le> ct_serverStartTime ?t"
    by code_simp+
  from fast_adjust_moves_away [OF run late start] show ?thesis .
qed

end
