(* ===== verification/ServerSnapshot.thy ===== *)
theory ServerSnapshot
  imports Snapshot PVS ClientTime
begin

text \<open>
  The snapshots of a client (\<open>Client/ServerSnapshot.cpp\<close>) and the clock they drive
  (\<open>Client/TimeManager.cpp\<close>). The last 32 snapshots are in a ring by their number, their entities in the
  ring of the theory \<open>Snapshot\<close>. What the handlers are called with is a list of events.
\<close>

section \<open>The manager\<close>

definition PACKET_BACKUP :: nat where "PACKET_BACKUP = 2 ^ 5"
definition PACKET_MASK :: "64 word" where "PACKET_MASK = of_nat (PACKET_BACKUP - 1)"
definition MAX_PARSE_ENTITIES :: nat where "MAX_PARSE_ENTITIES = 2048"

datatype snapshot_event =
    PlayerstateRead "playerState_t option" playerState_t
  | SoundPlayed sound_t
  | FirstSnapshot rawSnapshot_t
  | ServerRestarted
  | SnapReceived rawSnapshot_t
  | ReadNonPVSClient radarUnpacked_t

record snapshotManager =
  sm_PVSParser :: pvs_parser
  sm_snapshotParser :: snapshot_parser
  sm_parseEntitiesNum :: u32
  sm_lastSnapFlags :: u32
  sm_currentSnap :: rawSnapshot_t
  sm_snapshots :: "rawSnapshot_t list"
  sm_parseEntities :: "entityState_t list"
  sm_snapActive :: bool
  sm_newSnapshots :: bool
  sm_events :: "snapshot_event list"

definition broadcast :: "snapshot_event \<Rightarrow> snapshotManager \<Rightarrow> snapshotManager" where
  "broadcast e sm = sm\<lparr>sm_events := sm_events sm @ [e]\<rparr>"

definition snapshotManager_new :: "u32 \<Rightarrow> snapshotManager option" where
  "snapshotManager_new version =
     (case (singleton_get [PVSVersion8, PVSVersion17] version, singleton_get [snapshot8, snapshot17] version) of
        (Some pvs, Some parser) \<Rightarrow>
          Some \<lparr>sm_PVSParser = pvs, sm_snapshotParser = parser, sm_parseEntitiesNum = 0, sm_lastSnapFlags = 0,
            sm_currentSnap = rawSnapshot_new, sm_snapshots = replicate PACKET_BACKUP rawSnapshot_new,
            sm_parseEntities = replicate MAX_PARSE_ENTITIES entityState_new, sm_snapActive = False,
            sm_newSnapshots = False, sm_events = []\<rparr>
      | _ \<Rightarrow> None)"

section \<open>Storing a snapshot\<close>

definition snap_slot :: "nat \<Rightarrow> nat" where
  "snap_slot n = unat (of_nat n AND PACKET_MASK)"

text \<open>The numbers between the last snapshot and the new one were lost.\<close>

lemma unat_inc: "a < b \<Longrightarrow> unat (a + 1) = unat a + 1" for a b :: u32
  using unsigned_less [of b, where 'a = nat] by (simp add: word_less_nat_alt unat_word_ariths)

function invalidate :: "u32 \<Rightarrow> u32 \<Rightarrow> rawSnapshot_t list \<Rightarrow> rawSnapshot_t list" where
  "invalidate oldMessageNum newNum snaps =
     (if oldMessageNum < newNum
      then invalidate (oldMessageNum + 1) newNum
        (snaps[snap_slot (unat oldMessageNum) := (snaps ! snap_slot (unat oldMessageNum))\<lparr>rs_valid := False\<rparr>])
      else snaps)"
  by auto
termination
proof (relation "measure (\<lambda>(oldMessageNum, newNum, snaps). unat newNum - unat oldMessageNum)", goal_cases)
  case (2 oldMessageNum newNum snaps)
  then have "unat oldMessageNum < unat newNum" by (simp add: word_less_nat_alt)
  with 2 show ?case by (simp add: unat_inc)
qed simp

declare invalidate.simps [simp del]

definition setNewSnap :: "rawSnapshot_t \<Rightarrow> snapshotManager \<Rightarrow> snapshotManager" where
  "setNewSnap newSnap sm =
     (let old = rs_messageNum (sm_currentSnap sm) + 1;
          old1 = (if unat (rs_messageNum newSnap) \<ge> PACKET_BACKUP + unat old
                  then of_nat (sz_sub (unat (rs_messageNum newSnap)) (PACKET_BACKUP - 1)) else old);
          snaps = invalidate old1 (rs_messageNum newSnap) (sm_snapshots sm)
      in sm\<lparr>sm_currentSnap := newSnap,
            sm_snapshots := snaps[snap_slot (unat (rs_messageNum newSnap)) := newSnap],
            sm_newSnapshots := True\<rparr>)"

section \<open>Parsing a snapshot\<close>

text \<open>The values of \<open>unpacked\<close> are not initialised; they are sent to the handlers only after they were read.\<close>

definition radarUnpacked_any :: radarUnpacked_t where
  "radarUnpacked_any = \<lparr>ru_clientNum = 0, ru_x = 0, ru_y = 0, ru_yaw = 0\<rparr>"

definition snap_parm :: "snapshotManager \<Rightarrow> clientTime \<Rightarrow> snapshotParm_t" where
  "snap_parm sm clientTime =
     \<lparr>sp_oldSnapshots = sm_snapshots sm, sp_oldSnap = None, sp_parseEntities = sm_parseEntities sm,
      sp_numOldSnapshots = PACKET_BACKUP, sp_maxParseEntities = MAX_PARSE_ENTITIES, sp_maxSnapshotEntities = 128,
      sp_parseEntitiesNum = sm_parseEntitiesNum sm, sp_deltaTime = ct_serverDeltaTimeSeconds clientTime\<rparr>"

definition read_radar :: "u32 \<Rightarrow> snapshotManager \<Rightarrow> snapshotManager" where
  "read_radar clientNum sm =
     (let ps = rs_ps (sm_currentSnap sm);
          parm = \<lparr>pvs_origin = (mem_f32 (ps_mem ps (ps_origin 0)), mem_f32 (ps_mem ps (ps_origin 1))), pvs_clientNum = clientNum, pvs_radarRange = getCoordPrecision,
                  pvs_radarFarMult = f32_of_int 1024\<rparr>;
          (read, unpacked) = readNonPVSClient (sm_PVSParser sm) (mem_f32 (ps_mem ps ps_radarInfo)) parm radarUnpacked_any
      in if read then broadcast (ReadNonPVSClient unpacked) sm else sm)"

definition parseSnapshot ::
  "gameState_t \<Rightarrow> u32 \<Rightarrow> 'c commands \<Rightarrow> int \<Rightarrow> u32 \<Rightarrow> snapshotManager \<Rightarrow> clientTime \<Rightarrow> msg \<Rightarrow>
   (snap_error + (snapshotManager \<times> clientTime) \<times> msg) option" where
  "parseSnapshot gameState clientNum serverCommands currentTime serverMessageSequence sm clientTime m =
     (case snapshot_parse (sm_snapshotParser sm) gameState serverCommands rawSnapshot_new (snap_parm sm clientTime)
             serverMessageSequence m of
        None \<Rightarrow> None
      | Some (Inl e) \<Rightarrow> Some (Inl e)
      | Some (Inr (newSnap, sp, m1)) \<Rightarrow>
          (let oldps = map_option (\<lambda>i. rs_ps (sm_snapshots sm ! i)) (sp_oldSnap sp);
               sm1 = broadcast (PlayerstateRead oldps (rs_ps newSnap))
                 (sm\<lparr>sm_parseEntitiesNum := sp_parseEntitiesNum sp, sm_parseEntities := sp_parseEntities sp\<rparr>)
           in if \<not> rs_valid newSnap then Some (Inr ((sm1, clientTime), m1))
              else
                let restarted = rs_valid (sm_currentSnap sm1) \<and>
                      (rs_snapFlags (sm_currentSnap sm1) XOR rs_snapFlags newSnap) AND SNAPFLAG_SERVERCOUNT \<noteq> 0;
                    clientTime1 = (if restarted
                      then setRemoteStartTime (rs_serverTime newSnap) (setStartTime currentTime clientTime) else clientTime);
                    sm2 = read_radar clientNum (setNewSnap newSnap sm1)
                in Some (Inr ((broadcast (SnapReceived (sm_currentSnap sm2)) sm2, clientTime1), m1))))"

text \<open>\<open>notifySounds\<close> is never called.\<close>

definition notifySounds :: "rawSnapshot_t \<Rightarrow> snapshotManager \<Rightarrow> snapshotManager" where
  "notifySounds newFrame sm =
     fold (\<lambda>i. broadcast (SoundPlayed (rs_sounds newFrame ! i))) [0..<unat (rs_numSounds newFrame)] sm"

section \<open>The first snapshot and restarts\<close>

definition updateSnapFlags :: "snapshotManager \<Rightarrow> snapshotManager" where
  "updateSnapFlags sm = sm\<lparr>sm_lastSnapFlags := ucast (rs_snapFlags (sm_currentSnap sm))\<rparr>"

definition firstSnapshot :: "snapshotManager \<Rightarrow> bool \<times> snapshotManager" where
  "firstSnapshot sm =
     (if rs_snapFlags (sm_currentSnap sm) AND SNAPFLAG_NOT_ACTIVE \<noteq> 0 then (False, sm)
      else (True, broadcast (FirstSnapshot (sm_currentSnap sm)) ((updateSnapFlags sm)\<lparr>sm_snapActive := True\<rparr>)))"

definition serverRestarted :: "snapshotManager \<Rightarrow> snapshotManager" where
  "serverRestarted sm = broadcast ServerRestarted (updateSnapFlags sm)"

definition checkTime :: "snapshotManager \<Rightarrow> bool \<times> snapshotManager" where
  "checkTime sm =
     (if \<not> sm_snapActive sm \<and> sm_newSnapshots sm then firstSnapshot (sm\<lparr>sm_newSnapshots := False\<rparr>)
      else
        let restarted = (ucast (rs_snapFlags (sm_currentSnap sm)) XOR sm_lastSnapFlags sm) AND SNAPFLAG_SERVERCOUNT \<noteq> 0
        in (False, (if restarted then serverRestarted sm else sm)\<lparr>sm_newSnapshots := False\<rparr>))"

section \<open>Access\<close>

record snapshotInfo =
  si_serverTime :: u32
  si_numEntities :: nat
  si_numSounds :: nat
  si_numServerCommands :: nat
  si_serverCommandSequence :: nat
  si_snapFlags :: u32
  si_ping :: u32
  si_ps :: playerState_t
  si_entities :: "entityState_t list"
  si_sounds :: "sound_t list"
  si_areamask :: "byte list"

text \<open>The number of sounds is not initialised.\<close>

definition snapshotInfo_new :: snapshotInfo where
  "snapshotInfo_new =
     \<lparr>si_serverTime = 0, si_numEntities = 0, si_numSounds = 0, si_numServerCommands = 0, si_serverCommandSequence = 0,
      si_snapFlags = SNAPFLAG_NOT_ACTIVE, si_ping = 0, si_ps = playerState_new,
      si_entities = replicate MAX_ENTITIES_IN_SNAPSHOT entityState_new, si_sounds = replicate MAX_SERVER_SOUNDS sound_new,
      si_areamask = replicate MAX_MAP_AREA_BYTES 0\<rparr>"

text \<open>\<open>None\<close> is \<open>false\<close>, which leaves \<open>outSnapshot\<close> as it was.\<close>

definition copy_snapshot :: "rawSnapshot_t \<Rightarrow> snapshotManager \<Rightarrow> snapshotInfo \<Rightarrow> snapshotInfo" where
  "copy_snapshot found sm outSnapshot =
     (let count = min (unat (rs_numEntities found)) MAX_ENTITIES_IN_SNAPSHOT;
          slot = (\<lambda>i. unat (of_nat (unat (rs_parseEntitiesNum found) + i) AND (of_nat (MAX_PARSE_ENTITIES - 1) :: 64 word)))
      in outSnapshot\<lparr>si_snapFlags := ucast (rs_snapFlags found),
           si_serverCommandSequence := unat (rs_serverCommandNum found),
           si_serverTime := rs_serverTime found, si_areamask := rs_areamask found, si_ps := rs_ps found,
           si_numEntities := count,
           si_entities := blit (si_entities outSnapshot) 0 (map (\<lambda>i. sm_parseEntities sm ! slot i) [0..<count]),
           si_numSounds := unat (rs_numSounds found),
           si_sounds := blit (si_sounds outSnapshot) 0 (map ((!) (rs_sounds found)) [0..<unat (rs_numSounds found)])\<rparr>)"

definition getSnapshot :: "nat \<Rightarrow> snapshotInfo \<Rightarrow> snapshotManager \<Rightarrow> snapshotInfo option" where
  "getSnapshot snapshotNum outSnapshot sm =
     (if unat (rs_messageNum (sm_currentSnap sm)) \<ge> (PACKET_BACKUP + snapshotNum) mod 2 ^ 64 then None
      else
        let found = sm_snapshots sm ! snap_slot snapshotNum in
        if \<not> rs_valid found then None
        else if unat (sm_parseEntitiesNum sm) \<ge> MAX_PARSE_ENTITIES + unat (rs_parseEntitiesNum found) then None
        else Some (copy_snapshot found sm outSnapshot))"

definition getCurrentSnapNumber :: "snapshotManager \<Rightarrow> u32" where
  "getCurrentSnapNumber sm = rs_messageNum (sm_currentSnap sm)"

definition getSnapshot_current :: "snapshotInfo \<Rightarrow> snapshotManager \<Rightarrow> snapshotInfo option" where
  "getSnapshot_current outSnapshot sm = getSnapshot (unat (getCurrentSnapNumber sm)) outSnapshot sm"

definition isSnapshotValid :: "snapshotManager \<Rightarrow> bool" where
  "isSnapshotValid sm = rs_valid (sm_currentSnap sm)"

definition hasNewSnapshots :: "snapshotManager \<Rightarrow> bool" where
  "hasNewSnapshots sm = sm_newSnapshots sm"

section \<open>The clock and the snapshots\<close>

record timeManager =
  tm_clientTime :: clientTime
  tm_snapshotManager :: snapshotManager
  tm_entered :: bool

text \<open>The changes before an exception remain. (The local manager that the method makes is not used.)\<close>

definition TimeManager_setTime :: "int \<Rightarrow> timeManager \<Rightarrow> timeManager \<times> time_error option" where
  "TimeManager_setTime currentTime tm =
     (let adjustTime = hasNewSnapshots (tm_snapshotManager tm);
          (first, sm) = checkTime (tm_snapshotManager tm);
          remote = rs_serverTime (sm_currentSnap sm);
          tm1 = (if first then tm\<lparr>tm_snapshotManager := sm, tm_entered := True,
                    tm_clientTime := initRemoteTime currentTime remote (tm_clientTime tm)\<rparr>
                 else tm\<lparr>tm_snapshotManager := sm\<rparr>)
      in if \<not> isSnapshotValid sm then (tm1\<lparr>tm_clientTime := setStartTime currentTime (tm_clientTime tm1)\<rparr>, None)
         else
           (case ClientTime_setTime currentTime remote adjustTime (tm_clientTime tm1) of
              Inl e \<Rightarrow> (tm1, Some e)
            | Inr t \<Rightarrow> (tm1\<lparr>tm_clientTime := t\<rparr>, None)))"

section \<open>The ring is a window of the snapshots received\<close>

lemma snap_slot_mod [simp]: "snap_slot n = n mod 32"
proof -
  have "PACKET_MASK = mask 5" by (simp add: PACKET_MASK_def PACKET_BACKUP_def mask_eq_exp_minus_1)
  then have "snap_slot n = unat (take_bit 5 (of_nat n :: 64 word))" by (simp add: snap_slot_def take_bit_eq_mask)
  also have "\<dots> = take_bit 5 n" by (simp add: unsigned_take_bit_eq unsigned_of_nat min_def)
  finally show ?thesis by (simp add: take_bit_eq_mod)
qed

lemma length_invalidate [simp]: "length (invalidate a b snaps) = length snaps"
  by (induction a b snaps rule: invalidate.induct) (subst invalidate.simps, simp)

lemma invalidate_nth:
  assumes "i < length snaps" "length snaps = 32"
  shows "invalidate a b snaps ! i =
    (if \<exists>k. unat a \<le> k \<and> k < unat b \<and> k mod 32 = i then (snaps ! i)\<lparr>rs_valid := False\<rparr> else snaps ! i)"
  using assms
proof (induction a b snaps rule: invalidate.induct)
  case (1 a b snaps)
  show ?case
  proof (cases "a < b")
    case True
    then have le: "unat a < unat b" by (simp add: word_less_nat_alt)
    have first: "unat a \<le> k \<longleftrightarrow> k = unat a \<or> unat a + 1 \<le> k" for k by auto
    define Q where "Q \<longleftrightarrow> (\<exists>k. unat (a + 1) \<le> k \<and> k < unat b \<and> k mod 32 = i)"
    have "(\<exists>k. unat a \<le> k \<and> k < unat b \<and> k mod 32 = i) \<longleftrightarrow> unat a mod 32 = i \<or> Q"
      unfolding Q_def unat_inc [OF True] first using le by blast
    moreover have "invalidate a b snaps ! i = (if Q
        then (if unat a mod 32 = i then (snaps ! i)\<lparr>rs_valid := False\<rparr> else snaps ! i)\<lparr>rs_valid := False\<rparr>
        else if unat a mod 32 = i then (snaps ! i)\<lparr>rs_valid := False\<rparr> else snaps ! i)"
      using 1(1) [OF True, folded Q_def] 1(2,3) True by (subst invalidate.simps) (simp add: nth_list_update)
    ultimately show ?thesis by simp
  next
    case False
    then have "\<not> unat a < unat b" by (simp add: word_less_nat_alt)
    then show ?thesis using False by (subst invalidate.simps) auto
  qed
qed

abbreviation snap_num :: "rawSnapshot_t \<Rightarrow> nat" where
  "snap_num s \<equiv> unat (rs_messageNum s)"

definition snap_at :: "snapshotManager \<Rightarrow> nat \<Rightarrow> rawSnapshot_t option" where
  "snap_at sm n = (let s = sm_snapshots sm ! snap_slot n in if rs_valid s then Some s else None)"

text \<open>The ring holds the snapshots of \<open>log\<close> with the last 32 numbers.\<close>

definition snap_window :: "rawSnapshot_t list \<Rightarrow> snapshotManager \<Rightarrow> bool" where
  "snap_window log sm \<longleftrightarrow>
     length (sm_snapshots sm) = 32 \<and> (\<forall>s\<in>set log. snap_num s \<le> snap_num (sm_currentSnap sm)) \<and>
     (\<forall>n \<le> snap_num (sm_currentSnap sm). snap_num (sm_currentSnap sm) < n + 32 \<longrightarrow>
        snap_at sm n = find (\<lambda>s. snap_num s = n) log)"

lemma snap_window_new:
  assumes "snapshotManager_new version = Some sm"
  shows "snap_window [] sm"
  using assms
  by (auto simp: snapshotManager_new_def snap_window_def snap_at_def Let_def PACKET_BACKUP_def rawSnapshot_new_def
      split: option.splits)

lemma find_snoc: "find P (xs @ [x]) = (case find P xs of None \<Rightarrow> if P x then Some x else None | Some y \<Rightarrow> Some y)"
  by (induction xs) simp_all

lemma setNewSnap_sel [simp]:
  "sm_currentSnap (setNewSnap s sm) = s" "sm_events (setNewSnap s sm) = sm_events sm"
  "sm_snapActive (setNewSnap s sm) = sm_snapActive sm" "sm_newSnapshots (setNewSnap s sm)"
  "sm_parseEntitiesNum (setNewSnap s sm) = sm_parseEntitiesNum sm" "sm_parseEntities (setNewSnap s sm) = sm_parseEntities sm"
  by (simp_all add: setNewSnap_def Let_def)

lemma setNewSnap_snapshots:
  assumes "snap_num (sm_currentSnap sm) < snap_num s"
  shows "\<exists>old. unat old = max (snap_num (sm_currentSnap sm) + 1) (snap_num s - 31) \<and>
    sm_snapshots (setNewSnap s sm) = (invalidate old (rs_messageNum s) (sm_snapshots sm))[snap_num s mod 32 := s]"
proof -
  let ?c = "rs_messageNum (sm_currentSnap sm)" and ?n = "rs_messageNum s"
  have u: "unat (?c + 1) = unat ?c + 1" using assms by (intro unat_inc [of _ ?n]) (simp add: word_less_nat_alt)
  have n: "unat ?n < 2 ^ 32" using unsigned_less [of ?n, where 'a = nat] by simp
  show ?thesis
  proof (cases "32 + unat (?c + 1) \<le> unat ?n")
    case True
    then have "unat (?n - 31) = unat ?n - 31" by (simp add: unat_sub word_le_nat_alt)
    then show ?thesis using True n u
      by (intro exI [of _ "?n - 31"]) (simp add: setNewSnap_def Let_def PACKET_BACKUP_def)
  next
    case False
    then show ?thesis using u
      by (intro exI [of _ "?c + 1"]) (simp add: setNewSnap_def Let_def PACKET_BACKUP_def max_def, arith)
  qed
qed

lemma snap_window_add:
  assumes w: "snap_window log sm" and new: "snap_num (sm_currentSnap sm) < snap_num s" "rs_valid s"
  shows "snap_window (log @ [s]) (setNewSnap s sm)"
proof -
  let ?c = "snap_num (sm_currentSnap sm)" and ?n = "snap_num s" and ?snaps = "sm_snapshots sm"
  obtain old where old: "unat old = max (?c + 1) (?n - 31)"
    "sm_snapshots (setNewSnap s sm) = (invalidate old (rs_messageNum s) ?snaps)[?n mod 32 := s]"
    using setNewSnap_snapshots [OF new(1)] by blast
  have len: "length ?snaps = 32" and log: "\<forall>t\<in>set log. snap_num t \<le> ?c" using w by (simp_all add: snap_window_def)
  have "snap_at (setNewSnap s sm) k = find (\<lambda>t. snap_num t = k) (log @ [s])" if k: "k \<le> ?n" "?n < k + 32" for k
  proof (cases "k = ?n")
    case True
    then have "find (\<lambda>t. snap_num t = k) log = None" using log new(1) by (auto simp: find_None_iff)
    then show ?thesis using True new(2) len by (simp add: snap_at_def old(2) find_snoc)
  next
    case False
    then have other: "k mod 32 \<noteq> ?n mod 32" using k by (intro ring_slot_other) simp_all
    have f: "find (\<lambda>t. snap_num t = k) (log @ [s]) = find (\<lambda>t. snap_num t = k) log"
      using False by (auto simp: find_snoc split: option.splits)
    show ?thesis
    proof (cases "k \<le> ?c")
      case True
      have "j mod 32 \<noteq> k mod 32" if "unat old \<le> j" "j < ?n" for j
        using ring_slot_other [of k j 32] that k True old(1) by fastforce
      then have "snap_at (setNewSnap s sm) k = snap_at sm k"
        using other len by (auto simp: snap_at_def old(2) invalidate_nth)
      also have "\<dots> = find (\<lambda>t. snap_num t = k) log" using w True k new(1) by (simp add: snap_window_def)
      finally show ?thesis using f by simp
    next
      case c: False
      then have "unat old \<le> k" "k < ?n" using k False old(1) by simp_all
      then have "snap_at (setNewSnap s sm) k = None"
        using other len by (auto simp: snap_at_def old(2) invalidate_nth)
      moreover have "find (\<lambda>t. snap_num t = k) log = None" using log c by (auto simp: find_None_iff)
      ultimately show ?thesis using f by simp
    qed
  qed
  then show ?thesis using log new(1) len by (auto simp: snap_window_def old(2))
qed

section \<open>A parsed snapshot has the number of its message\<close>

lemma parseDeltaEntity_num:
  assumes "parseDeltaEntity ep frame sp newNum old unchanged m = Inr (frame1, sp1, m1)"
  shows "rs_messageNum frame1 = rs_messageNum frame"
  using assms by (auto simp: parseDeltaEntity_def Let_def split: if_splits)

lemma copy_old_num:
  "copy_old ep lim oldFrame frame sp cu m = Inr (frame1, sp1, cu1, m1) \<Longrightarrow> rs_messageNum frame1 = rs_messageNum frame"
proof (induction ep lim oldFrame frame sp cu m rule: copy_old.induct)
  case (1 ep lim oldFrame frame sp cu m)
  show ?case
  proof (cases "old_left lim (cu_oldNum cu)")
    case True
    then obtain es frame2 sp2 m2 cu2 where
      es: "old_state sp cu = Inr es" "parseDeltaEntity ep frame sp (cu_oldNum cu) es True m = Inr (frame2, sp2, m2)"
      "next_old oldFrame sp2 cu = Inr cu2" "copy_old ep lim oldFrame frame2 sp2 cu2 m2 = Inr (frame1, sp1, cu1, m1)"
      using "1.prems" by (subst (asm) copy_old.simps) (auto simp:)
    then show ?thesis using "1.IH" [OF _ es(1,2)] True parseDeltaEntity_num [OF es(2)] by simp
  qed (use "1.prems" in \<open>subst (asm) copy_old.simps, simp\<close>)
qed

lemma parse_entities_num:
  assumes "parse_entities ep baselines oldFrame frame sp cu m = Some x"
  shows "x = Inr (frame1, sp1, cu1, m1) \<longrightarrow> rs_messageNum frame1 = rs_messageNum frame"
  using assms
proof (induction rule: parse_entities.raw_induct [rotated 1, consumes 1, case_names step])
  case (step f ep baselines oldFrame frame sp cu m x)
  show ?case
  proof
    assume x: "x = Inr (frame1, sp1, cu1, m1)"
    obtain newNum m2 where n: "readEntityNum ep m = Inr (newNum, m2)"
      using step(2) x by (auto split: sum.splits)
    show "rs_messageNum frame1 = rs_messageNum frame"
    proof (cases "unat newNum = ENTITYNUM_NONE")
      case True
      then show ?thesis using step(2) x n by simp
    next
      case False
      obtain frame2 sp2 cu2 m3 where c: "copy_old ep (Some newNum) oldFrame frame sp cu m2 = Inr (frame2, sp2, cu2, m3)"
        using step(2) x n False by (auto split: sum.splits)
      show ?thesis
      proof (cases "cu_oldNum cu2 = ucast newNum")
        case True
        then obtain y frame3 where "rbind (old_state sp2 cu2) (\<lambda>es.
            rbind (parseDeltaEntity ep frame2 sp2 (ucast newNum) es False m3) (\<lambda>(frame2, sp2, m3).
            rbind (next_old oldFrame sp2 cu2) (\<lambda>cu2. Inr (frame2, sp2, cu2, m3)))) = Inr (frame3, y)"
          "f ep baselines oldFrame frame3 (fst y) (fst (snd y)) (snd (snd y)) = Some x"
          using step(2) x n False c by (simp split: sum.splits prod.splits)
        then show ?thesis
          using step(1) x copy_old_num [OF c] by (auto dest!: parseDeltaEntity_num)
      next
        case other: False
        then obtain y frame3 where "rbind (case getEntity baselines newNum of Inl e \<Rightarrow> Inl (SnapGameState e) | Inr es \<Rightarrow> Inr es) (\<lambda>es.
            parseDeltaEntity ep frame2 sp2 (ucast newNum) es False m3) = Inr (frame3, y)"
          "f ep baselines oldFrame frame3 (fst y) cu2 (snd y) = Some x"
          using step(2) x n False c by (simp split: sum.splits prod.splits)
        then show ?thesis
          using step(1) x copy_old_num [OF c] by (cases y) (auto dest!: parseDeltaEntity_num)
      qed
    qed
  qed
qed

lemma parsePacketEntities_num:
  assumes "parsePacketEntities ep baselines oldFrame newFrame sp m = Some (Inr (frame, sp1, m1))"
  shows "rs_messageNum frame = rs_messageNum newFrame"
proof -
  obtain cu where cu: "(case oldFrame of None \<Rightarrow> Inr \<lparr>cu_oldIndex = 0, cu_oldState = 0, cu_oldNum = 99999\<rparr>
      | Some f \<Rightarrow> cursor_at f sp 0) = Inr cu"
    using assms by (cases "case oldFrame of None \<Rightarrow> Inr \<lparr>cu_oldIndex = 0, cu_oldState = 0, cu_oldNum = 99999\<rparr>
      | Some f \<Rightarrow> cursor_at f sp 0") (simp_all add: parsePacketEntities_def Let_def)
  let ?f = "newFrame\<lparr>rs_parseEntitiesNum := sp_parseEntitiesNum sp, rs_numEntities := 0\<rparr>"
  obtain x where x: "parse_entities ep baselines oldFrame ?f sp cu m = Some x"
    using assms cu by (auto simp: parsePacketEntities_def Let_def split: option.splits)
  obtain frame1 sp2 cu1 m2 cu2 where "x = Inr (frame1, sp2, cu1, m2)" "copy_old ep None oldFrame frame1 sp2 cu1 m2 = Inr (frame, sp1, cu2, m1)"
    using assms cu x by (cases x) (auto simp: parsePacketEntities_def Let_def)
  then show ?thesis using parse_entities_num [OF x] copy_old_num by auto
qed

lemma snapshot_parse_num:
  assumes "snapshot_parse parser gameState commands raw sp seq m = Some (Inr (snap, sp1, m1))"
  shows "rs_messageNum snap = seq"
proof -
  obtain snap1 sp2 m2 where h: "parse_snapshot_header parser commands raw sp seq m = Inr ((snap1, sp2), m2)"
    using assms by (auto simp: snapshot_parse_def split: sum.splits)
  have 1: "rs_messageNum snap1 = seq"
    using h by (auto simp: parse_snapshot_header_def readOldSnapshot_def readAreaMask_def Let_def split: if_splits)
  obtain snap2 sp3 m3 where e: "parsePacketEntities (sn_entityParser parser) (gs_entityBaselines gameState)
      (map_option (\<lambda>i. sp_oldSnapshots sp ! i) (sp_oldSnap sp2)) snap1 sp2 m2 = Some (Inr (snap2, sp3, m3))"
    "parseSounds (sn_entityParser parser) gameState snap2 m3 = Inr (snap, m1)"
    using assms h by (auto simp: snapshot_parse_def split: option.splits sum.splits)
  have "rs_messageNum snap = rs_messageNum snap2"
    using e(2) by (auto simp: parseSounds_def split: if_splits)
  then show ?thesis using parsePacketEntities_num [OF e(1)] 1 by simp
qed

section \<open>Steps of a client\<close>

text \<open>
  A client gets a snapshot, with a number greater than that of the last, or sets the time. \<open>C\<close> are the
  states that the sequence of server commands may have. Two things of the connection are not steps: a
  snapshot whose parsing throws, and a packet with a number that is not greater, which the channel can
  accept. The connection also makes a new \<open>ClientTimeManager\<close> for every time it sets; here one is kept,
  so that \<open>tm_entered\<close> tells if any of them has entered.
\<close>

inductive client_step :: "'c commands set \<Rightarrow> timeManager \<Rightarrow> timeManager \<Rightarrow> bool" for C where
  receive: "client_step C tm (tm\<lparr>tm_snapshotManager := sm, tm_clientTime := ct\<rparr>)"
    if "commands \<in> C" "getCurrentSnapNumber (tm_snapshotManager tm) < serverMessageSequence"
      "parseSnapshot gameState clientNum commands currentTime serverMessageSequence (tm_snapshotManager tm)
         (tm_clientTime tm) m = Some (Inr ((sm, ct), m1))"
| set_time: "client_step C tm (fst (TimeManager_setTime currentTime tm))"

definition timeManager_new :: "clientTime \<Rightarrow> snapshotManager \<Rightarrow> timeManager" where
  "timeManager_new clientTime sm = \<lparr>tm_clientTime = clientTime, tm_snapshotManager = sm, tm_entered = False\<rparr>"

text \<open>The snapshots that the handlers were told, and how often the client was told to have entered.\<close>

fun received :: "snapshot_event list \<Rightarrow> rawSnapshot_t list" where
  "received [] = []"
| "received (SnapReceived s # es) = s # received es"
| "received (_ # es) = received es"

fun entered_times :: "snapshot_event list \<Rightarrow> nat" where
  "entered_times [] = 0"
| "entered_times (FirstSnapshot s # es) = Suc (entered_times es)"
| "entered_times (_ # es) = entered_times es"

lemma received_append [simp]: "received (xs @ ys) = received xs @ received ys"
  by (induction xs rule: received.induct) simp_all

lemma entered_append [simp]: "entered_times (xs @ ys) = entered_times xs + entered_times ys"
  by (induction xs rule: entered_times.induct) simp_all

definition client_ok :: "timeManager \<Rightarrow> bool" where
  "client_ok tm \<longleftrightarrow>
     (let sm = tm_snapshotManager tm in
      snap_window (received (sm_events sm)) sm \<and>
      entered_times (sm_events sm) = (if sm_snapActive sm then 1 else 0) \<and> tm_entered tm = sm_snapActive sm)"

lemma broadcast_sel [simp]:
  "sm_events (broadcast e sm) = sm_events sm @ [e]" "sm_currentSnap (broadcast e sm) = sm_currentSnap sm"
  "sm_snapshots (broadcast e sm) = sm_snapshots sm" "sm_snapActive (broadcast e sm) = sm_snapActive sm"
  "sm_newSnapshots (broadcast e sm) = sm_newSnapshots sm" "sm_parseEntitiesNum (broadcast e sm) = sm_parseEntitiesNum sm"
  by (simp_all add: broadcast_def)

lemma snap_window_cong:
  "sm_snapshots sm1 = sm_snapshots sm \<Longrightarrow> sm_currentSnap sm1 = sm_currentSnap sm \<Longrightarrow> snap_window log sm1 = snap_window log sm"
  by (simp add: snap_window_def snap_at_def)

lemma read_radar_sel [simp]:
  "sm_snapshots (read_radar n sm) = sm_snapshots sm" "sm_currentSnap (read_radar n sm) = sm_currentSnap sm"
  "sm_snapActive (read_radar n sm) = sm_snapActive sm" "received (sm_events (read_radar n sm)) = received (sm_events sm)"
  "entered_times (sm_events (read_radar n sm)) = entered_times (sm_events sm)"
  "sm_newSnapshots (read_radar n sm) = sm_newSnapshots sm" "sm_parseEntitiesNum (read_radar n sm) = sm_parseEntitiesNum sm"
  by (simp_all add: read_radar_def Let_def split: prod.splits)

text \<open>A snapshot that is not valid changes no snapshot of the ring; a valid one is added.\<close>

lemma parseSnapshot_cases:
  assumes "parseSnapshot gameState clientNum commands currentTime seq sm ct m = Some (Inr ((sm1, ct1), m1))"
  obtains (invalid) "sm_snapshots sm1 = sm_snapshots sm" "sm_currentSnap sm1 = sm_currentSnap sm"
      "sm_snapActive sm1 = sm_snapActive sm" "received (sm_events sm1) = received (sm_events sm)"
      "entered_times (sm_events sm1) = entered_times (sm_events sm)"
    | (valid) s sm0 where "rs_valid s" "rs_messageNum s = seq" "sm_currentSnap sm0 = sm_currentSnap sm"
      "sm_snapshots sm0 = sm_snapshots sm" "sm_snapshots sm1 = sm_snapshots (setNewSnap s sm0)" "sm_currentSnap sm1 = s"
      "sm_snapActive sm1 = sm_snapActive sm" "received (sm_events sm1) = received (sm_events sm) @ [s]"
      "entered_times (sm_events sm1) = entered_times (sm_events sm)" "sm_newSnapshots sm1"
proof -
  obtain s sp m2 where p: "snapshot_parse (sm_snapshotParser sm) gameState commands rawSnapshot_new (snap_parm sm ct) seq m =
      Some (Inr (s, sp, m2))"
    using assms by (auto simp: parseSnapshot_def split: option.splits sum.splits)
  let ?sm0 = "broadcast (PlayerstateRead (map_option (\<lambda>i. rs_ps (sm_snapshots sm ! i)) (sp_oldSnap sp)) (rs_ps s))
    (sm\<lparr>sm_parseEntitiesNum := sp_parseEntitiesNum sp, sm_parseEntities := sp_parseEntities sp\<rparr>)"
  show thesis
  proof (cases "rs_valid s")
    case True
    then have "sm1 = broadcast (SnapReceived s) (read_radar clientNum (setNewSnap s ?sm0))"
      using assms p by (simp add: parseSnapshot_def Let_def)
    then show thesis using valid [of s ?sm0] True snapshot_parse_num [OF p] by simp
  next
    case False
    then have "sm1 = ?sm0" using assms p by (simp add: parseSnapshot_def Let_def)
    then show thesis using invalid by simp
  qed
qed

lemma checkTime_cases:
  assumes "checkTime sm = (first, sm1)"
  shows "sm_snapshots sm1 = sm_snapshots sm" "sm_currentSnap sm1 = sm_currentSnap sm"
    "received (sm_events sm1) = received (sm_events sm)" "\<not> sm_newSnapshots sm1"
    "first \<longleftrightarrow> \<not> sm_snapActive sm \<and> sm_newSnapshots sm \<and> rs_snapFlags (sm_currentSnap sm) AND SNAPFLAG_NOT_ACTIVE = 0"
    "sm_snapActive sm1 \<longleftrightarrow> sm_snapActive sm \<or> first"
    "entered_times (sm_events sm1) = entered_times (sm_events sm) + (if first then 1 else 0)"
  using assms
  by (auto simp: checkTime_def firstSnapshot_def serverRestarted_def updateSnapFlags_def broadcast_def Let_def split: if_splits)

lemma TimeManager_setTime_sel:
  "tm_snapshotManager (fst (TimeManager_setTime currentTime tm)) = snd (checkTime (tm_snapshotManager tm))"
  "tm_entered (fst (TimeManager_setTime currentTime tm)) \<longleftrightarrow> fst (checkTime (tm_snapshotManager tm)) \<or> tm_entered tm"
  by (simp_all add: TimeManager_setTime_def Let_def split: prod.splits sum.splits)

lemma client_ok_step:
  assumes "client_step C tm tm1" "client_ok tm"
  shows "client_ok tm1"
  using assms
proof (induction rule: client_step.induct)
  case (receive commands tm seq gameState clientNum currentTime m sm ct m1)
  show ?case
    using receive(3)
  proof (cases rule: parseSnapshot_cases)
    case invalid
    then show ?thesis
      using receive(4) snap_window_cong [OF invalid(1,2)] by (simp add: client_ok_def Let_def)
  next
    case (valid s sm0)
    have "snap_window (received (sm_events (tm_snapshotManager tm))) sm0"
      using receive(4) snap_window_cong [OF valid(4,3)] by (simp add: client_ok_def Let_def)
    then have "snap_window (received (sm_events (tm_snapshotManager tm)) @ [s]) (setNewSnap s sm0)"
      using valid receive(2) by (intro snap_window_add) (simp_all add: getCurrentSnapNumber_def word_less_nat_alt)
    then have "snap_window (received (sm_events sm)) sm"
      using snap_window_cong [of sm "setNewSnap s sm0"] valid by simp
    then show ?thesis using receive(4) valid by (simp add: client_ok_def Let_def)
  qed
next
  case (set_time tm currentTime)
  obtain first sm1 where c: "checkTime (tm_snapshotManager tm) = (first, sm1)" by force
  note s = checkTime_cases [OF c]
  show ?case
    using set_time snap_window_cong [OF s(1,2)] s(3-7)
    by (auto simp: client_ok_def Let_def TimeManager_setTime_sel c)
qed

lemma client_ok_steps:
  assumes "(client_step C)\<^sup>*\<^sup>* tm tm1" "client_ok tm"
  shows "client_ok tm1"
  using assms by (induction rule: rtranclp_induct) (auto intro: client_ok_step)

lemma client_ok_new:
  assumes "snapshotManager_new version = Some sm"
  shows "client_ok (timeManager_new ct sm)"
  using snap_window_new [OF assms] assms
  by (auto simp: client_ok_def timeManager_new_def snapshotManager_new_def split: option.splits)

text \<open>C5: A client whose snapshots came with increasing numbers and were all parsed has a window of those told
  to the handlers: for a number
  up to the current one, the manager gives the snapshot that was received with this number, if there was
  one, it is one of the last 32 and its entities are still there, and otherwise it gives none. (The
  channel also accepts a packet a second time and, from the number 65536 on, older ones; these, and
  snapshots whose parsing throws, are not among the steps here.)\<close>

theorem snapshots_are_a_window:
  assumes "snapshotManager_new version = Some sm0" "(client_step C)\<^sup>*\<^sup>* (timeManager_new ct sm0) tm"
    and "sm = tm_snapshotManager tm" "n \<le> unat (getCurrentSnapNumber sm)"
  shows "getSnapshot n out sm =
    (case if unat (getCurrentSnapNumber sm) < n + 32 then find (\<lambda>s. snap_num s = n) (received (sm_events sm)) else None of
       None \<Rightarrow> None
     | Some s \<Rightarrow> if unat (sm_parseEntitiesNum sm) < 2048 + unat (rs_parseEntitiesNum s) then Some (copy_snapshot s sm out)
         else None)"
proof -
  have w: "snap_window (received (sm_events sm)) sm"
    using client_ok_steps [OF assms(2) client_ok_new [OF assms(1)]] assms(3) by (simp add: client_ok_def Let_def)
  have "n < 2 ^ 32" using assms(4) unsigned_less [of "getCurrentSnapNumber sm", where 'a = nat] by simp
  then have m: "(PACKET_BACKUP + n) mod 2 ^ 64 = n + 32" by (simp add: PACKET_BACKUP_def)
  show ?thesis
  proof (cases "unat (getCurrentSnapNumber sm) < n + 32")
    case True
    then have "find (\<lambda>s. snap_num s = n) (received (sm_events sm)) = snap_at sm n"
      using w assms(4) by (simp add: snap_window_def getCurrentSnapNumber_def)
    then show ?thesis using True m
      by (auto simp: getSnapshot_def snap_at_def Let_def getCurrentSnapNumber_def MAX_PARSE_ENTITIES_def)
  next
    case False
    then show ?thesis using m by (simp add: getSnapshot_def getCurrentSnapNumber_def)
  qed
qed

text \<open>C6: A client that has a new, active snapshot when the time is set enters the game; whatever snapshots of
  increasing numbers and times come later, it has entered, and the handlers are told so exactly once.\<close>

theorem client_enters_once:
  assumes "snapshotManager_new version = Some sm0" "(client_step C)\<^sup>*\<^sup>* (timeManager_new ct sm0) tm"
    and "hasNewSnapshots (tm_snapshotManager tm)"
      "rs_snapFlags (sm_currentSnap (tm_snapshotManager tm)) AND SNAPFLAG_NOT_ACTIVE = 0"
    and "(client_step C)\<^sup>*\<^sup>* (fst (TimeManager_setTime currentTime tm)) tm1"
  shows "tm_entered tm1 \<and> entered_times (sm_events (tm_snapshotManager tm1)) = 1"
proof -
  let ?tm = "fst (TimeManager_setTime currentTime tm)"
  have ok: "client_ok tm" by (rule client_ok_steps [OF assms(2) client_ok_new [OF assms(1)]])
  then have ok1: "client_ok ?tm" by (rule client_ok_step [OF client_step.set_time])
  obtain first sm1 where c: "checkTime (tm_snapshotManager tm) = (first, sm1)" by force
  have "tm_entered ?tm"
    using checkTime_cases(5) [OF c] assms(3,4) ok by (auto simp: TimeManager_setTime_sel c hasNewSnapshots_def client_ok_def Let_def)
  have "client_ok tm1 \<and> tm_entered tm1" using assms(5)
  proof (induction rule: rtranclp_induct)
    case base
    then show ?case using ok1 \<open>tm_entered ?tm\<close> by simp
  next
    case (step a b)
    have "tm_entered b" using step(2) step(3)
      by (cases rule: client_step.cases) (auto simp: TimeManager_setTime_sel)
    then show ?case using step client_ok_step by blast
  qed
  then show ?thesis by (auto simp: client_ok_def Let_def)
qed

section \<open>An empty snapshot\<close>

lemma quiet_player_gets: "\<exists>r. gets (readDeltaPlayerState PlayerState17 from st) (huff_code 0 @ [False]) r"
proof -
  let ?r = "st\<lparr>ps_mem := CopyFields (ps_mem (from_player from)) (ps_mem st) (drop 0 playerStateFields_ver15),
    ps_stats := ps_stats (from_player from)\<rparr>"
  have "gets (load_arrays ps) ([False] @ []) ps" for ps
    unfolding load_arrays_def [abs_def] by (rule gets_bind [OF ReadBool_gets]) (simp add: gets_return)
  then have "gets (player_LoadDelta_ver15 from st) (huff_code 0 @ [False]) ?r"
    unfolding player_LoadDelta_ver15_def [abs_def] Let_def by (intro gets_bind [OF ReadByte_gets]) simp
  then show ?thesis unfolding PlayerState17_def by auto
qed

definition empty_header :: "bool list" where
  "empty_header = code32 0 @ huff_code 0 @ huff_code 0 @ huff_code 0 @ huff_code 0 @ huff_code 0 @ [False]"

lemma empty_header_read:
  assumes "mr m (empty_header @ post)" and one: "True \<in> set post"
  shows "\<exists>ps m'. parse_snapshot_header Snapshot17 commands rawSnapshot_new sp seq m =
    Inr ((rawSnapshot_new\<lparr>rs_serverCommandNum := getCommandSequence commands, rs_serverTime := 0, rs_serverTimeResidual := 0,
      rs_messageNum := seq, rs_deltaNum := - 1, rs_valid := True, rs_snapFlags := 0, rs_ps := ps\<rparr>,
      sp\<lparr>sp_oldSnap := None\<rparr>), m') \<and> mr m' post"
proof -
  obtain ps where ps: "gets (readDeltaPlayerState PlayerState17 None (rs_ps rawSnapshot_new)) (huff_code 0 @ [False]) ps"
    using quiet_player_gets by blast
  have one': "True \<in> set (b @ post)" for b using one by simp
  obtain m1 where 1: "ReadUInteger m = Inr (0, m1)"
    "mr m1 (huff_code 0 @ huff_code 0 @ huff_code 0 @ huff_code 0 @ (huff_code 0 @ [False]) @ post)"
    using gets_step [OF ReadUInteger_gets [of 0]] assms(1) one' unfolding empty_header_def by (metis append.assoc)
  obtain m2 where 2: "ReadByte m1 = Inr (0, m2)" "mr m2 (huff_code 0 @ huff_code 0 @ huff_code 0 @ (huff_code 0 @ [False]) @ post)"
    using gets_step [OF ReadByte_gets 1(2)] one' by (metis append.assoc)
  obtain m3 where 3: "ReadByte m2 = Inr (0, m3)" "mr m3 (huff_code 0 @ huff_code 0 @ (huff_code 0 @ [False]) @ post)"
    using gets_step [OF ReadByte_gets 2(2)] one' by (metis append.assoc)
  obtain m4 where 4: "ReadByte m3 = Inr (0, m4)" "mr m4 (huff_code 0 @ (huff_code 0 @ [False]) @ post)"
    using gets_step [OF ReadByte_gets 3(2)] one' by (metis append.assoc)
  obtain m5 where 5: "ReadByte m4 = Inr (0, m5)" "mr m5 ((huff_code 0 @ [False]) @ post)"
    using gets_step [OF ReadByte_gets 4(2)] one' by (metis append.assoc)
  obtain m6 where 6: "readDeltaPlayerState PlayerState17 None (rs_ps rawSnapshot_new) m5 = Inr (ps, m6)" "mr m6 post"
    using gets_step [OF ps 5(2) one] by blast
  show ?thesis
    by (rule exI [of _ ps], rule exI [of _ m6])
      (use 6 in \<open>simp add: parse_snapshot_header_def readOldSnapshot_def readAreaMask_def Let_def 1(1) 2(1) 3(1) 4(1) 5(1) Snapshot17_def\<close>)
qed

lemma empty_snapshot_read:
  "\<exists>m snap sp1 m'. snapshot_parse Snapshot17 gameState commands rawSnapshot_new sp seq m = Some (Inr (snap, sp1, m')) \<and>
    rs_valid snap \<and> rs_snapFlags snap = 0 \<and> rs_messageNum snap = seq \<and> sp_parseEntitiesNum sp1 = sp_parseEntitiesNum sp"
proof -
  have "unat (of_nat ENTITYNUM_NONE :: u16) < MAX_GENTITIES"
    by (simp add: MAX_GENTITIES_def GENTITYNUM_BITS_def ENTITYNUM_NONE_def)
  from entity_number_carries(2) [OF this] obtain b where b: "puts (WriteEntityNum2 (of_nat ENTITYNUM_NONE)) b"
    "gets ReadEntityNum2 b (of_nat ENTITYNUM_NONE)" by (rule carriesE)
  have "puts (\<lambda>m. rbind (WriteUInteger 0 m) (\<lambda>m. rbind (WriteByte 0 m) (\<lambda>m. rbind (WriteByte 0 m) (\<lambda>m. rbind (WriteByte 0 m)
      (\<lambda>m. rbind (WriteByte 0 m) (\<lambda>m. rbind (WriteByte 0 m) (\<lambda>m. rbind (WriteBool False m)
      (\<lambda>m. rbind (WriteEntityNum2 (of_nat ENTITYNUM_NONE) m) (WriteBool False)))))))))
      (code32 0 @ huff_code 0 @ huff_code 0 @ huff_code 0 @ huff_code 0 @ huff_code 0 @ [False] @ b @ [False])"
    by (intro puts_bind WriteUInteger_puts WriteByte_puts WriteBool_puts b(1))
  then obtain m post where m: "mr m (empty_header @ b @ [False] @ post)" "True \<in> set post"
    using reader_exists unfolding empty_header_def by fastforce
  let ?sp = "sp\<lparr>sp_oldSnap := None\<rparr>"
  obtain ps m1 where h: "parse_snapshot_header Snapshot17 commands rawSnapshot_new sp seq m =
      Inr ((rawSnapshot_new\<lparr>rs_serverCommandNum := getCommandSequence commands, rs_serverTime := 0, rs_serverTimeResidual := 0,
        rs_messageNum := seq, rs_deltaNum := - 1, rs_valid := True, rs_snapFlags := 0, rs_ps := ps\<rparr>, ?sp), m1)"
    "mr m1 (b @ [False] @ post)"
  proof -
    have "True \<in> set (b @ [False] @ post)" using m(2) by simp
    from empty_header_read [OF m(1) this, of commands sp seq] show thesis by (elim exE conjE) (rule that)
  qed
  obtain m2 where e: "ReadEntityNum2 m1 = Inr (of_nat ENTITYNUM_NONE, m2)" "mr m2 ([False] @ post)"
    using gets_step [OF b(2) h(2)] m(2) by auto
  obtain m3 where s: "ReadBool m2 = Inr (False, m3)" using gets_step [OF ReadBool_gets e(2) m(2)] by auto
  have n: "unat (of_nat ENTITYNUM_NONE :: u16) = ENTITYNUM_NONE" by (rule numeral_NONE)
  have ep: "sn_entityParser Snapshot17 = Entity17" "readEntityNum Entity17 = ReadEntityNum2"
    by (simp_all add: Snapshot17_def Entity17_def)
  show ?thesis
    by (rule exI [of _ m])
      (simp add: snapshot_parse_def h(1) parsePacketEntities_def parse_entities.simps copy_old.simps parseSounds_def Let_def
        ep e(1) s n)
qed

text \<open>A client that got one.\<close>

lemma empty_snapshot_received:
  assumes "snapshotManager_new 17 = Some sm" "commands \<in> C"
  shows "\<exists>tm s. client_step C (timeManager_new ct sm) tm \<and> hasNewSnapshots (tm_snapshotManager tm) \<and>
    sm_currentSnap (tm_snapshotManager tm) = s \<and> rs_snapFlags s = 0 \<and> rs_messageNum s = 1 \<and>
    received (sm_events (tm_snapshotManager tm)) = [s] \<and> sm_parseEntitiesNum (tm_snapshotManager tm) = 0"
proof -
  have p: "sm_snapshotParser sm = Snapshot17" "getCurrentSnapNumber sm = 0" "sm_events sm = []" "sm_parseEntitiesNum sm = 0"
    using assms(1) by (auto simp: snapshotManager_new_def singleton_get_def snapshot8_def snapshot17_def
        getCurrentSnapNumber_def rawSnapshot_new_def split: option.splits)
  obtain m snap sp1 m1 where s: "snapshot_parse Snapshot17 gameState_empty commands rawSnapshot_new (snap_parm sm ct) 1 m =
      Some (Inr (snap, sp1, m1))" "rs_valid snap" "rs_snapFlags snap = 0" "rs_messageNum snap = 1"
      "sp_parseEntitiesNum sp1 = sp_parseEntitiesNum (snap_parm sm ct)"
    using empty_snapshot_read by blast
  have "sp_parseEntitiesNum sp1 = 0" using s(5) p(4) by (simp add: snap_parm_def)
  then obtain sm1 ct1 where q: "parseSnapshot gameState_empty 0 commands 0 1 sm ct m = Some (Inr ((sm1, ct1), m1))"
    "sm_currentSnap sm1 = snap" "sm_newSnapshots sm1" "received (sm_events sm1) = [snap]" "sm_parseEntitiesNum sm1 = 0"
    using s p(3) by (simp add: parseSnapshot_def p(1) Let_def)
  have "client_step C (timeManager_new ct sm) ((timeManager_new ct sm)\<lparr>tm_snapshotManager := sm1, tm_clientTime := ct1\<rparr>)"
    using assms(2) q(1) p(2) by (intro client_step.receive) (auto simp: timeManager_new_def)
  then show ?thesis using q s
    by (intro exI [of _ "(timeManager_new ct sm)\<lparr>tm_snapshotManager := sm1, tm_clientTime := ct1\<rparr>"])
      (simp add: hasNewSnapshots_def)
qed

lemma snapshotManager17: "\<exists>sm. snapshotManager_new 17 = Some sm"
  by (simp add: snapshotManager_new_def singleton_get_def snapshot8_def snapshot17_def PVSVersion8_def PVSVersion17_def)

theorem snapshots_are_a_window_witness:
  "\<exists>sm0 tm s. snapshotManager_new 17 = Some sm0 \<and>
    (client_step (UNIV :: unit commands set))\<^sup>*\<^sup>* (timeManager_new clientTime_new sm0) tm \<and>
    received (sm_events (tm_snapshotManager tm)) = [s] \<and> rs_messageNum s = 1 \<and>
    getSnapshot 1 snapshotInfo_new (tm_snapshotManager tm) = Some (copy_snapshot s (tm_snapshotManager tm) snapshotInfo_new)"
proof -
  obtain sm0 where new: "snapshotManager_new 17 = Some sm0" using snapshotManager17 by blast
  obtain tm s where r: "client_step (UNIV :: unit commands set) (timeManager_new clientTime_new sm0) tm"
    "sm_currentSnap (tm_snapshotManager tm) = s" "rs_messageNum s = 1"
    "received (sm_events (tm_snapshotManager tm)) = [s]" "sm_parseEntitiesNum (tm_snapshotManager tm) = 0"
    using empty_snapshot_received [OF new UNIV_I] by blast
  have steps: "(client_step (UNIV :: unit commands set))\<^sup>*\<^sup>* (timeManager_new clientTime_new sm0) tm" using r(1) by (rule r_into_rtranclp)
  have n: "1 \<le> unat (getCurrentSnapNumber (tm_snapshotManager tm))" using r(2,3) by (simp add: getCurrentSnapNumber_def)
  have "getSnapshot 1 snapshotInfo_new (tm_snapshotManager tm) =
      Some (copy_snapshot s (tm_snapshotManager tm) snapshotInfo_new)"
    unfolding snapshots_are_a_window [OF new steps refl n] using r by (simp add: getCurrentSnapNumber_def)
  then show ?thesis using new steps r(3,4) by blast
qed

theorem client_enters_once_witness:
  "\<exists>sm0 tm. snapshotManager_new 17 = Some sm0 \<and>
    client_step (UNIV :: unit commands set) (timeManager_new clientTime_new sm0) tm \<and> \<not> tm_entered tm \<and>
    tm_entered (fst (TimeManager_setTime 0 tm)) \<and>
    entered_times (sm_events (tm_snapshotManager (fst (TimeManager_setTime 0 tm)))) = 1"
proof -
  obtain sm0 where new: "snapshotManager_new 17 = Some sm0" using snapshotManager17 by blast
  obtain tm where r: "client_step (UNIV :: unit commands set) (timeManager_new clientTime_new sm0) tm"
    "hasNewSnapshots (tm_snapshotManager tm)" "rs_snapFlags (sm_currentSnap (tm_snapshotManager tm)) = 0"
    using empty_snapshot_received [OF new UNIV_I] by blast
  have "\<not> sm_newSnapshots (snd (checkTime sm))" for sm by (rule checkTime_cases(4) [OF surjective_pairing])
  note old = this
  from r(1) have "\<not> tm_entered tm"
    by (cases rule: client_step.cases)
      (use old r(2) in \<open>simp_all add: timeManager_new_def TimeManager_setTime_sel hasNewSnapshots_def\<close>)
  moreover have a: "rs_snapFlags (sm_currentSnap (tm_snapshotManager tm)) AND SNAPFLAG_NOT_ACTIVE = 0" by (simp add: r(3))
  have "(client_step (UNIV :: unit commands set))\<^sup>*\<^sup>* (timeManager_new clientTime_new sm0) tm" using r(1) by blast
  note client_enters_once [OF new this r(2) a rtranclp.rtrancl_refl, of 0]
  ultimately show ?thesis using new r(1) by blast
qed

section \<open>What the handlers may be told too early, and numbers that are ahead\<close>

text \<open>A client that has not entered is told that the server restarted as soon as the time is set without a
  new snapshot: the flags of the last snapshot are remembered only when it enters.\<close>

lemma restart_before_entering:
  assumes "\<not> sm_snapActive sm" "\<not> sm_newSnapshots sm" "sm_lastSnapFlags sm = 0"
    and "rs_snapFlags (sm_currentSnap sm) = SNAPFLAG_NOT_ACTIVE OR SNAPFLAG_SERVERCOUNT"
  shows "sm_events (snd (checkTime sm)) = sm_events sm @ [ServerRestarted]"
  using assms by (simp add: checkTime_def serverRestarted_def updateSnapFlags_def broadcast_def Let_def
      SNAPFLAG_NOT_ACTIVE_def SNAPFLAG_SERVERCOUNT_def)

text \<open>The number of a snapshot that was not received yet gives the one of 32 snapshots before.\<close>

lemma future_snapshot_is_old:
  assumes "snap_window log sm" "snap_num (sm_currentSnap sm) < 2 ^ 32 - 1" "31 \<le> snap_num (sm_currentSnap sm)"
    and "find (\<lambda>s. snap_num s = snap_num (sm_currentSnap sm) - 31) log = Some s"
    and "unat (sm_parseEntitiesNum sm) < 2048 + unat (rs_parseEntitiesNum s)"
  shows "getSnapshot (snap_num (sm_currentSnap sm) + 1) out sm = Some (copy_snapshot s sm out)"
proof -
  let ?c = "snap_num (sm_currentSnap sm)"
  have "snap_at sm (?c - 31) = Some s" using assms(1,3,4) by (simp add: snap_window_def)
  moreover have "(?c - 31) mod 32 = (?c + 1) mod 32" using assms(3) mod_add_self2 [of "?c - 31" 32] by simp
  ultimately show ?thesis using assms(2,5)
    by (auto simp: getSnapshot_def snap_at_def Let_def PACKET_BACKUP_def MAX_PARSE_ENTITIES_def split: if_splits)
qed

text \<open>The entities that are copied are those of the frame that was parsed.\<close>

lemma copied_entities:
  assumes "sp_parseEntities sp = sm_parseEntities sm" "sp_maxParseEntities sp = MAX_PARSE_ENTITIES"
  shows "take (si_numEntities (copy_snapshot s sm out)) (si_entities (copy_snapshot s sm out)) =
    take MAX_ENTITIES_IN_SNAPSHOT (frame_entities s sp)"
proof -
  have m: "of_nat (MAX_PARSE_ENTITIES - 1) = (mask 11 :: 64 word)" by (simp add: MAX_PARSE_ENTITIES_def mask_eq_exp_minus_1)
  have slot: "unat (of_nat k AND (of_nat (MAX_PARSE_ENTITIES - 1) :: 64 word)) = k mod MAX_PARSE_ENTITIES" for k
  proof -
    have "unat (of_nat k AND (of_nat (MAX_PARSE_ENTITIES - 1) :: 64 word)) = unat (take_bit 11 (of_nat k :: 64 word))"
      by (simp only: m take_bit_eq_mask)
    also have "\<dots> = take_bit 11 k" by (simp add: unsigned_take_bit_eq unsigned_of_nat min_def)
    finally show ?thesis by (simp add: MAX_PARSE_ENTITIES_def take_bit_eq_mod)
  qed
  show ?thesis
    unfolding copy_snapshot_def Let_def slot frame_entities_def assms by (simp add: blit_def take_map min_def)
qed

end
