(* ===== verification/CGSnapshot.thy ===== *)
theory CGSnapshot
  imports ServerSnapshot Tokens
begin

text \<open>
  The snapshots that the game is shown (\<open>Client/CGame/Snapshot.cpp\<close>): they are read one after the other
  into two slots, the current and the next one, and the entities follow from one to the other. What the
  handlers are called with is a list of events.

  A null pointer and an index out of an array are the error \<open>CgBadAccess\<close>. The test if an entity was
  modified compares it with the memory after a local pointer; its result is the argument \<open>differs\<close>.
\<close>

section \<open>The state\<close>

definition MAX_ACTIVE_SNAPSHOTS :: nat where "MAX_ACTIVE_SNAPSHOTS = 2"
definition EF_TELEPORT_BIT :: u16 where "EF_TELEPORT_BIT = 4"
definition PMF_RESPAWNED :: u16 where "PMF_RESPAWNED = 8"
definition CF_CAMERA_CUT_BIT :: u16 where "CF_CAMERA_CUT_BIT = 128"

datatype cg_error =
    NextSnapTimeWentBackward u32 u32
  | SnapNumWentBackward nat nat
  | NullSnapshot
  | CgToken token_error
  | CgMsg msg_error
  | CgBadAccess

datatype cg_event =
    EntityAdded entityState_t
  | EntityRemoved entityState_t
  | EntityModified entityState_t entityState_t
  | ConfigstringModified u32 "byte list"
  | ProcessedConfigstrings
  | SnapshotParsed
  | CommandExecuted nat tokens
  | CommandNotify "byte list" tokens

record entityInfo =
  ei_currentState :: entityState_t
  ei_nextState :: entityState_t
  ei_snapshotTime :: u32
  ei_currentValid :: bool
  ei_interpolate :: bool
  ei_teleported :: bool

definition entityInfo_new :: entityInfo where
  "entityInfo_new =
     \<lparr>ei_currentState = entityState_new, ei_nextState = entityState_new, ei_snapshotTime = 0, ei_currentValid = False,
      ei_interpolate = False, ei_teleported = False\<rparr>"

text \<open>\<open>snap\<close> and \<open>nextSnap\<close> point to a slot of \<open>activeSnapshots\<close>.\<close>

record processor =
  pr_events :: "cg_event list"
  pr_serverCommandManager :: command_manager
  pr_nextSnap :: "nat option"
  pr_snap :: "nat option"
  pr_oldSnap :: snapshotInfo
  pr_activeSnapshots :: "snapshotInfo list"
  pr_clientEnts :: "entityInfo list"
  pr_processedSnapshotNum :: nat
  pr_latestSnapshotNum :: nat
  pr_latestCommandSequence :: u32
  pr_newConfigstrings :: bool
  pr_nextFrameTeleport :: bool
  pr_nextFrameCameraCut :: bool
  pr_thisFrameTeleport :: bool

definition csModified :: nat where "csModified = 0"

definition processor_new :: processor where
  "processor_new =
     \<lparr>pr_events = [], pr_serverCommandManager = cm_add [99, 115] csModified cm_new, pr_nextSnap = None, pr_snap = None,
      pr_oldSnap = snapshotInfo_new, pr_activeSnapshots = replicate MAX_ACTIVE_SNAPSHOTS snapshotInfo_new,
      pr_clientEnts = replicate MAX_GENTITIES entityInfo_new, pr_processedSnapshotNum = 0, pr_latestSnapshotNum = 0,
      pr_latestCommandSequence = 0, pr_newConfigstrings = False, pr_nextFrameTeleport = False,
      pr_nextFrameCameraCut = False, pr_thisFrameTeleport = False\<rparr>"

definition notify :: "cg_event \<Rightarrow> processor \<Rightarrow> processor" where
  "notify e p = p\<lparr>pr_events := pr_events p @ [e]\<rparr>"

definition getEntityInfo :: "u16 \<Rightarrow> processor \<Rightarrow> entityInfo option" where
  "getEntityInfo num p =
     (if unat num \<ge> MAX_GENTITIES then None
      else let entInfo = pr_clientEnts p ! unat num in if \<not> ei_currentValid entInfo then None else Some entInfo)"

text \<open>An entity of \<open>clientEnts\<close>, and the array with it changed.\<close>

definition client_ent :: "processor \<Rightarrow> u16 \<Rightarrow> cg_error + entityInfo" where
  "client_ent p num = (if unat num < length (pr_clientEnts p) then Inr (pr_clientEnts p ! unat num) else Inl CgBadAccess)"

definition set_client_ent :: "u16 \<Rightarrow> (entityInfo \<Rightarrow> entityInfo) \<Rightarrow> processor \<Rightarrow> cg_error + processor" where
  "set_client_ent num f p =
     rbind (client_ent p num) (\<lambda>e. Inr (p\<lparr>pr_clientEnts := (pr_clientEnts p)[unat num := f e]\<rparr>))"

definition snap_of :: "processor \<Rightarrow> nat option \<Rightarrow> cg_error + snapshotInfo" where
  "snap_of p sl =
     (case sl of
        Some i \<Rightarrow> if i < length (pr_activeSnapshots p) then Inr (pr_activeSnapshots p ! i) else Inl CgBadAccess
      | None \<Rightarrow> Inl CgBadAccess)"

text \<open>The entities of a snapshot, and the first one with a number.\<close>

definition snap_entities :: "snapshotInfo \<Rightarrow> entityState_t list" where
  "snap_entities s = take (si_numEntities s) (si_entities s)"

definition getEntityStateByNumber :: "u16 \<Rightarrow> snapshotInfo \<Rightarrow> entityState_t option" where
  "getEntityStateByNumber entityNum s = find (\<lambda>es. es_number es = entityNum) (snap_entities s)"

fun each :: "('a \<Rightarrow> 'p \<Rightarrow> 'e + 'p) \<Rightarrow> 'a list \<Rightarrow> 'p \<Rightarrow> 'e + 'p" where
  "each f [] p = Inr p"
| "each f (x # xs) p = rbind (f x p) (each f xs)"

section \<open>Reading a snapshot\<close>

function readNextSnapshot :: "snapshotManager \<Rightarrow> processor \<Rightarrow> nat option \<times> processor" where
  "readNextSnapshot sm p =
     (if pr_processedSnapshotNum p < pr_latestSnapshotNum p then
        let dest = pr_processedSnapshotNum p mod MAX_ACTIVE_SNAPSHOTS;
            p1 = p\<lparr>pr_processedSnapshotNum := pr_processedSnapshotNum p + 1\<rparr>
        in (case getSnapshot (pr_processedSnapshotNum p1) (pr_activeSnapshots p1 ! dest) sm of
              Some info \<Rightarrow> (Some dest, p1\<lparr>pr_activeSnapshots := (pr_activeSnapshots p1)[dest := info]\<rparr>)
            | None \<Rightarrow> readNextSnapshot sm p1)
      else (None, p))"
  by auto
termination by (relation "measure (\<lambda>(sm, p). pr_latestSnapshotNum p - pr_processedSnapshotNum p)") auto

declare readNextSnapshot.simps [simp del]

section \<open>The commands of a snapshot\<close>

text \<open>The handler of the command for configuration strings; other handlers are told of the command and leave
  the parser as it is.\<close>

definition configStringModified ::
  "((byte list \<times> byte list) list \<Rightarrow> byte list \<Rightarrow> token_error + byte list) \<Rightarrow> tokens \<Rightarrow> processor \<Rightarrow>
   token_error + tokens \<times> processor" where
  "configStringModified evaluate tokenized p =
     rbind (GetInteger evaluate True tokenized) (\<lambda>(num, tk1).
     rbind (GetString True False False tk1) (\<lambda>(csString, tk2).
       Inr (tk2, (notify (ConfigstringModified num csString) p)\<lparr>pr_newConfigstrings := True\<rparr>)))"

definition cg_handlers ::
  "((byte list \<times> byte list) list \<Rightarrow> byte list \<Rightarrow> token_error + byte list) \<Rightarrow> (token_error, processor) command_handlers" where
  "cg_handlers evaluate =
     \<lparr>execute = (\<lambda>c tk p. if c = csModified then configStringModified evaluate tk p else Inr (tk, notify (CommandExecuted c tk) p)),
      commandNotify = (\<lambda>name tk p. Inr (tk, notify (CommandNotify name tk) p)), raise = (\<lambda>e p. e)\<rparr>"

definition lift_token :: "token_error + 'a \<Rightarrow> cg_error + 'a" where
  "lift_token r = (case r of Inl e \<Rightarrow> Inl (CgToken e) | Inr x \<Rightarrow> Inr x)"

definition lift_cg :: "msg_error + 'a \<Rightarrow> cg_error + 'a" where
  "lift_cg r = (case r of Inl e \<Rightarrow> Inl (CgMsg e) | Inr x \<Rightarrow> Inr x)"

text \<open>What the processor uses: the sequence of commands with its functions, the snapshots and the clock, and
  the computation of macros.\<close>

record 'st cg_imports =
  im_evaluate :: "(byte list \<times> byte list) list \<Rightarrow> byte list \<Rightarrow> token_error + byte list"
  im_ops :: "'st sequence_ops"
  im_commands :: "'st commands"
  im_snapshotManager :: snapshotManager
  im_clientTime :: clientTime
  im_differs :: "entityState_t \<Rightarrow> bool"

fun execute_commands :: "'st cg_imports \<Rightarrow> nat \<Rightarrow> processor \<Rightarrow> cg_error + processor" where
  "execute_commands im 0 p = Inr p"
| "execute_commands im (Suc n) p =
     (let p1 = p\<lparr>pr_latestCommandSequence := pr_latestCommandSequence p + 1\<rparr> in
      rbind (lift_cg (getRemoteSequence (im_ops im) (im_commands im) (pr_latestCommandSequence p1))) (\<lambda>commandString.
      rbind (lift_token (cm_process (im_evaluate im) (cg_handlers (im_evaluate im)) (pr_serverCommandManager p1)
              (c_chars commandString) p1)) (\<lambda>p2.
        execute_commands im n p2)))"

text \<open>The numbers left are those above the last command executed; they are sizes compared with 32 bits.\<close>

definition executeNewServerCommands :: "'st cg_imports \<Rightarrow> nat \<Rightarrow> processor \<Rightarrow> cg_error + processor" where
  "executeNewServerCommands im serverCommandSequence p =
     rbind (execute_commands im (serverCommandSequence - unat (pr_latestCommandSequence p)) p) (\<lambda>p1.
       Inr (if pr_newConfigstrings p1 then notify ProcessedConfigstrings (p1\<lparr>pr_newConfigstrings := False\<rparr>) else p1))"

section \<open>From one snapshot to the next\<close>

definition setInitialSnapshot :: "'st cg_imports \<Rightarrow> nat \<Rightarrow> processor \<Rightarrow> cg_error + processor" where
  "setInitialSnapshot im newSnap p =
     rbind (snap_of p (Some newSnap)) (\<lambda>s.
     rbind (executeNewServerCommands im (si_serverCommandSequence s) (p\<lparr>pr_snap := Some newSnap\<rparr>)) (\<lambda>p1.
       each (\<lambda>state p. rbind (set_client_ent (es_number state)
              (\<lambda>e. e\<lparr>ei_currentState := state, ei_nextState := state, ei_interpolate := False, ei_currentValid := True\<rparr>) p)
            (\<lambda>p. Inr (notify (EntityAdded state) p)))
         (snap_entities s) p1))"

definition next_entity :: "entityState_t \<Rightarrow> entityInfo \<Rightarrow> entityInfo" where
  "next_entity es e =
     (let cur = es_mem (ei_currentState e) in
      if \<not> ei_currentValid e \<or> (mem_u16 (cur es_eFlags) XOR mem_u16 (es_mem es es_eFlags)) AND EF_TELEPORT_BIT \<noteq> 0 \<or>
         cur es_parent \<noteq> es_mem es es_parent \<or> cur es_modelindex \<noteq> es_mem es es_modelindex
      then e\<lparr>ei_nextState := es, ei_interpolate := False,
             ei_teleported := (if ei_currentValid e then True else ei_teleported e)\<rparr>
      else e\<lparr>ei_nextState := es, ei_interpolate := True\<rparr>)"

definition ps_number :: "playerState_t \<Rightarrow> byte" where
  "ps_number ps = hd (ps_mem ps ps_clientNum)"

definition setNextSnap :: "'st cg_imports \<Rightarrow> nat \<Rightarrow> processor \<Rightarrow> cg_error + processor" where
  "setNextSnap im newSnap p =
     rbind (snap_of p (Some newSnap)) (\<lambda>next.
     rbind (set_client_ent (ucast (ps_number (si_ps next))) (\<lambda>e. e\<lparr>ei_interpolate := True\<rparr>) (p\<lparr>pr_nextSnap := Some newSnap\<rparr>)) (\<lambda>p1.
     rbind (each (\<lambda>es. set_client_ent (es_number es) (next_entity es)) (snap_entities next) p1) (\<lambda>p2.
     rbind (snap_of p2 (pr_snap p2)) (\<lambda>s.
       let teleport = mem_u16 (ps_mem (si_ps s) ps_pm_flags) AND PMF_RESPAWNED \<noteq> 0 \<or>
             ps_number (si_ps next) \<noteq> ps_number (si_ps s) \<or> si_serverTime s < ct_serverStartTime (im_clientTime im);
           cut = mem_u16 (ps_mem (si_ps next) ps_camera_flags) AND CF_CAMERA_CUT_BIT \<noteq>
                 mem_u16 (ps_mem (si_ps s) ps_camera_flags) AND CF_CAMERA_CUT_BIT
       in Inr (p2\<lparr>pr_nextFrameTeleport := teleport, pr_nextFrameCameraCut := cut\<rparr>)))))"

definition transitionEntity :: "entityInfo \<Rightarrow> entityInfo" where
  "transitionEntity entInfo =
     entInfo\<lparr>ei_currentState := ei_nextState entInfo, ei_currentValid := True, ei_interpolate := False, ei_teleported := False\<rparr>"

text \<open>The parts of the transition: new entities, modified ones and removed ones.\<close>

definition is_active :: "snapshotInfo \<Rightarrow> bool" where
  "is_active s \<longleftrightarrow> si_snapFlags s AND SNAPFLAG_NOT_ACTIVE = 0"

definition notify_added :: "snapshotInfo \<Rightarrow> snapshotInfo \<Rightarrow> processor \<Rightarrow> cg_error + processor" where
  "notify_added from_snap target p =
     (if is_active from_snap then
        each (\<lambda>es p. Inr (if getEntityStateByNumber (es_number es) from_snap = None then notify (EntityAdded es) p else p))
          (snap_entities target) p
      else
        each (\<lambda>es p. rbind (client_ent p (es_number es)) (\<lambda>e. Inr (notify (EntityAdded (ei_currentState e)) p)))
          (snap_entities target) p)"

definition notify_modified :: "(entityState_t \<Rightarrow> bool) \<Rightarrow> snapshotInfo \<Rightarrow> snapshotInfo \<Rightarrow> processor \<Rightarrow> cg_error + processor" where
  "notify_modified differs from_snap target p =
     each (\<lambda>es p. rbind (client_ent p (es_number es)) (\<lambda>e.
         let current = ei_currentState e in
         case getEntityStateByNumber (es_number current) target of
           Some next \<Rightarrow> Inr (if differs current then notify (EntityModified current next) p else p)
         | None \<Rightarrow> Inr p))
       (snap_entities from_snap) p"

definition notify_removed :: "snapshotInfo \<Rightarrow> snapshotInfo \<Rightarrow> processor \<Rightarrow> cg_error + processor" where
  "notify_removed from_snap target p =
     (if is_active from_snap then
        each (\<lambda>es p. Inr (if getEntityStateByNumber (es_number es) target = None then notify (EntityRemoved es) p else p))
          (snap_entities from_snap) p
      else Inr p)"

definition transitionSnapshot :: "'st cg_imports \<Rightarrow> processor \<Rightarrow> cg_error + processor" where
  "transitionSnapshot im p =
     rbind (snap_of p (pr_nextSnap p)) (\<lambda>next.
     rbind (executeNewServerCommands im (si_serverCommandSequence next) p) (\<lambda>p1.
     rbind (snap_of p1 (pr_snap p1)) (\<lambda>from_snap.
     rbind (snap_of p1 (pr_nextSnap p1)) (\<lambda>target.
     rbind (notify_added from_snap target p1) (\<lambda>p2.
     rbind (notify_modified (im_differs im) from_snap target p2) (\<lambda>p3.
     rbind (each (\<lambda>es. set_client_ent (es_number es) (\<lambda>e. e\<lparr>ei_currentValid := False\<rparr>)) (snap_entities from_snap) p3) (\<lambda>p4.
     rbind (notify_removed from_snap target p4) (\<lambda>p5.
     rbind (each (\<lambda>es. set_client_ent (es_number es) (\<lambda>e. (transitionEntity e)\<lparr>ei_snapshotTime := si_serverTime target\<rparr>))
              (snap_entities target) (p5\<lparr>pr_oldSnap := from_snap, pr_snap := pr_nextSnap p5\<rparr>)) (\<lambda>p6.
       let p7 = p6\<lparr>pr_nextSnap := None\<rparr>
       in Inr (if mem_u16 (ps_mem (si_ps target) ps_pm_flags) AND PMF_RESPAWNED \<noteq> 0
               then p7\<lparr>pr_thisFrameTeleport := True\<rparr> else p7))))))))))"

section \<open>Processing\<close>

lemma each_keeps:
  assumes "each f xs p = Inr p'" "\<And>x p p'. f x p = Inr p' \<Longrightarrow> g p' = g p"
  shows "g p' = g p"
  using assms(1) by (induction xs arbitrary: p) (auto dest: assms(2))

lemma notify_sel [simp]:
  "pr_events (notify e p) = pr_events p @ [e]" "pr_snap (notify e p) = pr_snap p" "pr_nextSnap (notify e p) = pr_nextSnap p"
  "pr_activeSnapshots (notify e p) = pr_activeSnapshots p" "pr_clientEnts (notify e p) = pr_clientEnts p"
  "pr_processedSnapshotNum (notify e p) = pr_processedSnapshotNum p" "pr_latestSnapshotNum (notify e p) = pr_latestSnapshotNum p"
  by (simp_all add: notify_def)

text \<open>What neither commands nor entities change.\<close>

definition place :: "processor \<Rightarrow> nat option \<times> nat option \<times> snapshotInfo list \<times> nat \<times> nat" where
  "place p = (pr_snap p, pr_nextSnap p, pr_activeSnapshots p, pr_processedSnapshotNum p, pr_latestSnapshotNum p)"

lemma place_notify [simp]: "place (notify e p) = place p"
  by (simp add: place_def)

lemma place_update [simp]:
  "place (p\<lparr>pr_newConfigstrings := a\<rparr>) = place p" "place (p\<lparr>pr_thisFrameTeleport := b\<rparr>) = place p"
  "place (p\<lparr>pr_latestCommandSequence := c\<rparr>) = place p" "place (p\<lparr>pr_clientEnts := d\<rparr>) = place p"
  by (simp_all add: place_def)

lemma place_set_client_ent: "set_client_ent n f p = Inr p' \<Longrightarrow> place p' = place p"
  by (auto simp: set_client_ent_def)

lemma place_process:
  assumes "cm_process evaluate (cg_handlers evaluate) cm s p = Inr p'"
  shows "place p' = place p"
  using assms
  by (auto simp: cm_process_def cg_handlers_def configStringModified_def Let_def split: option.splits if_splits)

lemma place_execute: "execute_commands im n p = Inr p' \<Longrightarrow> place p' = place p"
proof (induction n arbitrary: p)
  case (Suc n)
  then obtain p2 s where "lift_token (cm_process (im_evaluate im) (cg_handlers (im_evaluate im)) (pr_serverCommandManager p) s
      (p\<lparr>pr_latestCommandSequence := pr_latestCommandSequence p + 1\<rparr>)) = Inr p2" "execute_commands im n p2 = Inr p'"
    by (auto simp: Let_def)
  then show ?case
    using Suc.IH place_process by (fastforce simp: lift_token_def place_def split: sum.splits)
qed simp

lemma place_commands: "executeNewServerCommands im n p = Inr p' \<Longrightarrow> place p' = place p"
  using place_execute by (auto simp: executeNewServerCommands_def)

lemma place_added: "notify_added s t p = Inr p' \<Longrightarrow> place p' = place p"
  by (auto simp: notify_added_def split: if_splits elim!: each_keeps [where g = place])

lemma place_modified: "notify_modified d s t p = Inr p' \<Longrightarrow> place p' = place p"
  unfolding notify_modified_def
  by (erule each_keeps [where g = place]) (auto simp: Let_def split: option.splits if_splits)

lemma place_removed: "notify_removed s t p = Inr p' \<Longrightarrow> place p' = place p"
  by (auto simp: notify_removed_def split: if_splits elim!: each_keeps [where g = place])

lemma place_ents: "each (\<lambda>es. set_client_ent (n es) (f es)) xs p = Inr p' \<Longrightarrow> place p' = place p"
  by (erule each_keeps [where g = place]) (rule place_set_client_ent)

lemma transitionSnapshot_parts:
  assumes "transitionSnapshot im p = Inr p'"
  obtains s t p1 p2 p3 p4 p5 p6 where
    "executeNewServerCommands im (si_serverCommandSequence t) p = Inr p1" "snap_of p (pr_snap p) = Inr s"
    "snap_of p (pr_nextSnap p) = Inr t" "notify_added s t p1 = Inr p2" "notify_modified (im_differs im) s t p2 = Inr p3"
    "each (\<lambda>es. set_client_ent (es_number es) (\<lambda>e. e\<lparr>ei_currentValid := False\<rparr>)) (snap_entities s) p3 = Inr p4"
    "notify_removed s t p4 = Inr p5"
    "each (\<lambda>es. set_client_ent (es_number es) (\<lambda>e. (transitionEntity e)\<lparr>ei_snapshotTime := si_serverTime t\<rparr>))
       (snap_entities t) (p5\<lparr>pr_oldSnap := s, pr_snap := pr_nextSnap p5\<rparr>) = Inr p6"
    "place p' = place (p6\<lparr>pr_nextSnap := None\<rparr>)" "pr_events p' = pr_events p6"
proof -
  from assms obtain n p1 s t p2 p3 p4 p5 p6 where
    r: "snap_of p (pr_nextSnap p) = Inr n" "executeNewServerCommands im (si_serverCommandSequence n) p = Inr p1"
    "snap_of p1 (pr_snap p1) = Inr s" "snap_of p1 (pr_nextSnap p1) = Inr t" "notify_added s t p1 = Inr p2"
    "notify_modified (im_differs im) s t p2 = Inr p3"
    "each (\<lambda>es. set_client_ent (es_number es) (\<lambda>e. e\<lparr>ei_currentValid := False\<rparr>)) (snap_entities s) p3 = Inr p4"
    "notify_removed s t p4 = Inr p5"
    "each (\<lambda>es. set_client_ent (es_number es) (\<lambda>e. (transitionEntity e)\<lparr>ei_snapshotTime := si_serverTime t\<rparr>))
       (snap_entities t) (p5\<lparr>pr_oldSnap := s, pr_snap := pr_nextSnap p5\<rparr>) = Inr p6"
    "(let p7 = p6\<lparr>pr_nextSnap := None\<rparr> in
      Inr (if mem_u16 (ps_mem (si_ps t) ps_pm_flags) AND PMF_RESPAWNED \<noteq> 0 then p7\<lparr>pr_thisFrameTeleport := True\<rparr> else p7)) =
     (Inr p' :: cg_error + processor)"
    unfolding transitionSnapshot_def rbind_eq_Inr by (elim exE conjE) (rule that)
  have same: "pr_snap p1 = pr_snap p" "pr_nextSnap p1 = pr_nextSnap p" "pr_activeSnapshots p1 = pr_activeSnapshots p"
    using place_commands [OF r(2)] by (simp_all add: place_def)
  have of_same: "snap_of p1 x = snap_of p x" for x by (cases x) (simp_all add: snap_of_def same)
  have "t = n" using r(1,4) unfolding of_same same by simp
  moreover have "place p' = place (p6\<lparr>pr_nextSnap := None\<rparr>)" "pr_events p' = pr_events p6"
    using r(10) by (auto simp: Let_def)
  ultimately show thesis
    using that [of t p1 s p2 p3 p4 p5 p6] r unfolding of_same same by simp
qed

lemma transitionSnapshot_place:
  assumes "transitionSnapshot im p = Inr p'"
  shows "place p' = (pr_nextSnap p, None, pr_activeSnapshots p, pr_processedSnapshotNum p, pr_latestSnapshotNum p)"
  using assms
proof (rule transitionSnapshot_parts)
  fix s t p1 p2 p3 p4 p5 p6
  assume t: "executeNewServerCommands im (si_serverCommandSequence t) p = Inr p1" "notify_added s t p1 = Inr p2"
    "notify_modified (im_differs im) s t p2 = Inr p3"
    "each (\<lambda>es. set_client_ent (es_number es) (\<lambda>e. e\<lparr>ei_currentValid := False\<rparr>)) (snap_entities s) p3 = Inr p4"
    "notify_removed s t p4 = Inr p5"
    "each (\<lambda>es. set_client_ent (es_number es) (\<lambda>e. (transitionEntity e)\<lparr>ei_snapshotTime := si_serverTime t\<rparr>))
       (snap_entities t) (p5\<lparr>pr_oldSnap := s, pr_snap := pr_nextSnap p5\<rparr>) = Inr p6"
    "place p' = place (p6\<lparr>pr_nextSnap := None\<rparr>)"
  have "place p5 = place p"
    using place_commands [OF t(1)] place_added [OF t(2)] place_modified [OF t(3)] place_ents [OF t(4)] place_removed [OF t(5)]
    by simp
  moreover have "place p6 = place (p5\<lparr>pr_oldSnap := s, pr_snap := pr_nextSnap p5\<rparr>)" by (rule place_ents [OF t(6)])
  ultimately show ?thesis using t(7) by (simp add: place_def)
qed

lemma readNextSnapshot_place:
  "readNextSnapshot sm p = (r, p1) \<Longrightarrow>
   pr_snap p1 = pr_snap p \<and> pr_nextSnap p1 = pr_nextSnap p \<and> pr_events p1 = pr_events p \<and>
   pr_latestSnapshotNum p1 = pr_latestSnapshotNum p \<and>
   (r = None \<longrightarrow> pr_latestSnapshotNum p \<le> pr_processedSnapshotNum p1) \<and>
   (r \<noteq> None \<longrightarrow> pr_processedSnapshotNum p < pr_processedSnapshotNum p1 \<and> pr_processedSnapshotNum p1 \<le> pr_latestSnapshotNum p)"
proof (induction sm p rule: readNextSnapshot.induct)
  case (1 sm p)
  show ?case
  proof (cases "pr_processedSnapshotNum p < pr_latestSnapshotNum p")
    case True
    let ?p1 = "p\<lparr>pr_processedSnapshotNum := pr_processedSnapshotNum p + 1\<rparr>"
    let ?dest = "pr_processedSnapshotNum p mod MAX_ACTIVE_SNAPSHOTS"
    show ?thesis
    proof (cases "getSnapshot (pr_processedSnapshotNum ?p1) (pr_activeSnapshots ?p1 ! ?dest) sm")
      case None
      then show ?thesis using "1.IH" [OF True refl refl None] "1.prems" True
        by (subst (asm) (2) readNextSnapshot.simps) (auto simp: Let_def)
    next
      case (Some info)
      then show ?thesis using "1.prems" True by (subst (asm) readNextSnapshot.simps) (auto simp: Let_def)
    qed
  next
    case False
    then show ?thesis using "1.prems" by (subst (asm) readNextSnapshot.simps) auto
  qed
qed

lemma setNextSnap_place:
  assumes "setNextSnap im f p = Inr p'"
  shows "place p' = (pr_snap p, Some f, pr_activeSnapshots p, pr_processedSnapshotNum p, pr_latestSnapshotNum p)"
proof -
  obtain n p1 p2 where r: "set_client_ent (ucast (ps_number (si_ps n))) (\<lambda>e. e\<lparr>ei_interpolate := True\<rparr>) (p\<lparr>pr_nextSnap := Some f\<rparr>) = Inr p1"
    "each (\<lambda>es. set_client_ent (es_number es) (next_entity es)) (snap_entities n) p1 = Inr p2" "place p' = place p2"
    using assms by (auto simp: setNextSnap_def Let_def place_def)
  then show ?thesis using place_set_client_ent [OF r(1)] place_ents [OF r(2)] by (simp add: place_def)
qed

text \<open>The part of the loop that gets a next frame: whether there is one.\<close>

definition next_frame :: "'st cg_imports \<Rightarrow> processor \<Rightarrow> cg_error + bool \<times> processor" where
  "next_frame im p =
     (if pr_nextSnap p \<noteq> None then Inr (True, p)
      else
        (case readNextSnapshot (im_snapshotManager im) p of
           (None, p1) \<Rightarrow> Inr (False, p1)
         | (Some foundSnap, p1) \<Rightarrow>
             rbind (setNextSnap im foundSnap p1) (\<lambda>p2.
             rbind (snap_of p2 (pr_nextSnap p2)) (\<lambda>n.
             rbind (snap_of p2 (pr_snap p2)) (\<lambda>s.
               if si_serverTime n < si_serverTime s
               then Inl (NextSnapTimeWentBackward (si_serverTime s) (si_serverTime n)) else Inr (True, p2))))))"

definition frame_measure :: "processor \<Rightarrow> nat" where
  "frame_measure p = 2 * (pr_latestSnapshotNum p - pr_processedSnapshotNum p) + (if pr_nextSnap p = None then 0 else 1)"

lemma next_frame_measure:
  assumes "next_frame im p = Inr (True, p1)" "transitionSnapshot im p1 = Inr p2"
  shows "frame_measure p2 < frame_measure p"
proof (cases "pr_nextSnap p")
  case None
  obtain f q where q: "readNextSnapshot (im_snapshotManager im) p = (Some f, q)" "setNextSnap im f q = Inr p1"
    using assms(1) None by (auto simp: next_frame_def split: prod.splits option.splits if_splits)
  then show ?thesis
    using readNextSnapshot_place [OF q(1)] setNextSnap_place [OF q(2)] transitionSnapshot_place [OF assms(2)] None
    by (auto simp: place_def frame_measure_def)
next
  case (Some n)
  then have "p1 = p" using assms(1) by (simp add: next_frame_def)
  then show ?thesis using transitionSnapshot_place [OF assms(2)] Some by (simp add: place_def frame_measure_def)
qed

text \<open>The loop, as it is written: the time that is at least and less than the same time.\<close>

function process_frames :: "'st cg_imports \<Rightarrow> int \<Rightarrow> processor \<Rightarrow> cg_error + processor" where
  "process_frames im simulatedRemoteTime p =
     (case next_frame im p of
        Inl e \<Rightarrow> Inl e
      | Inr (found, p1) \<Rightarrow>
          if \<not> found then Inr p1
          else
            rbind (snap_of p1 (pr_snap p1)) (\<lambda>s.
              let snapTime = net_tick (si_serverTime s) in
              if simulatedRemoteTime \<ge> snapTime \<and> simulatedRemoteTime < snapTime \<and>
                 snapTime > net_tick (ct_serverStartTime (im_clientTime im))
              then Inr p1
              else rbind (transitionSnapshot im p1) (\<lambda>p2. process_frames im simulatedRemoteTime p2)))"
  by auto
termination
  by (relation "measure (\<lambda>(im, simulatedRemoteTime, p). frame_measure p)") (auto intro: next_frame_measure)

declare process_frames.simps [simp del]

text \<open>The first snapshot: whether there is one. The loop around it runs once, since it returns if there is
  still none.\<close>

definition first_frame :: "'st cg_imports \<Rightarrow> processor \<Rightarrow> cg_error + bool \<times> processor" where
  "first_frame im p =
     (if pr_snap p \<noteq> None then Inr (True, p)
      else
        (case readNextSnapshot (im_snapshotManager im) p of
           (None, p1) \<Rightarrow> Inr (False, p1)
         | (Some foundSnap, p1) \<Rightarrow>
             rbind (snap_of p1 (Some foundSnap)) (\<lambda>s.
               if is_active s then rbind (setInitialSnapshot im foundSnap p1) (\<lambda>p2. Inr (True, p2)) else Inr (False, p1))))"

definition processSnapshots :: "'st cg_imports \<Rightarrow> int \<Rightarrow> processor \<Rightarrow> cg_error + processor" where
  "processSnapshots im simulatedRemoteTime p =
     (let n = unat (getCurrentSnapNumber (im_snapshotManager im)) in
      if n < pr_latestSnapshotNum p then Inl (SnapNumWentBackward n (pr_latestSnapshotNum p))
      else
        rbind (first_frame im (p\<lparr>pr_latestSnapshotNum := n\<rparr>)) (\<lambda>(found, p1).
          if \<not> found then Inr p1
          else
            rbind (process_frames im simulatedRemoteTime p1) (\<lambda>p2.
              if pr_snap p2 = None then Inl NullSnapshot
              else
                rbind (snap_of p2 (pr_snap p2)) (\<lambda>s.
                  let p3 = (if pr_snap p2 \<noteq> pr_snap p then notify SnapshotParsed p2 else p2);
                      time = max simulatedRemoteTime (net_tick (si_serverTime s))
                  in if pr_nextSnap p3 = None then Inr p3
                     else rbind (snap_of p3 (pr_nextSnap p3)) (\<lambda>next.
                       if net_tick (si_serverTime next) \<le> time
                       then Inl (NextSnapTimeWentBackward (word_of_int (time div 1000000)) (si_serverTime next))
                       else Inr p3)))))"

section \<open>Frames are never kept for interpolation\<close>

lemma process_frames_drain:
  "process_frames im t p = Inr p' \<Longrightarrow>
   pr_nextSnap p' = None \<and> pr_latestSnapshotNum p' = pr_latestSnapshotNum p \<and> pr_latestSnapshotNum p \<le> pr_processedSnapshotNum p'"
proof (induction im t p rule: process_frames.induct)
  case (1 im t p)
  note prem = "1.prems" [unfolded process_frames.simps [of im t p]]
  obtain found p1 where f: "next_frame im p = Inr (found, p1)"
    using prem by (auto split: sum.splits)
  have latest: "pr_latestSnapshotNum p1 = pr_latestSnapshotNum p"
    using f by (auto simp: next_frame_def place_def split: if_splits prod.splits option.splits
        dest!: readNextSnapshot_place setNextSnap_place)
  show ?case
  proof (cases found)
    case False
    then have "p' = p1" using prem f by simp
    moreover have "readNextSnapshot (im_snapshotManager im) p = (None, p1)" "pr_nextSnap p = None"
      using f False by (auto simp: next_frame_def split: if_splits prod.splits option.splits)
    ultimately show ?thesis using readNextSnapshot_place by auto
  next
    case True
    then obtain s p2 where s: "snap_of p1 (pr_snap p1) = Inr s" "transitionSnapshot im p1 = Inr p2" "process_frames im t p2 = Inr p'"
      using prem f by (auto simp: Let_def split: if_splits)
    have "pr_latestSnapshotNum p2 = pr_latestSnapshotNum p" using transitionSnapshot_place [OF s(2)] latest by (simp add: place_def)
    then show ?thesis using "1.IH" [OF f refl _ s(1) refl _ s(2,3)] True by auto
  qed
qed

text \<open>Showing a snapshot that was read to a slot, and all the snapshots of a list of numbers, with no look at the
  time.\<close>

definition show_snapshot :: "'st cg_imports \<Rightarrow> nat \<Rightarrow> processor \<Rightarrow> cg_error + processor" where
  "show_snapshot im dest p =
     rbind (setNextSnap im dest p) (\<lambda>p2.
     rbind (snap_of p2 (pr_nextSnap p2)) (\<lambda>n.
     rbind (snap_of p2 (pr_snap p2)) (\<lambda>s.
       if si_serverTime n < si_serverTime s
       then Inl (NextSnapTimeWentBackward (si_serverTime s) (si_serverTime n)) else transitionSnapshot im p2)))"

fun show_numbers :: "'st cg_imports \<Rightarrow> nat list \<Rightarrow> processor \<Rightarrow> cg_error + processor" where
  "show_numbers im [] p = Inr p"
| "show_numbers im (n # ns) p =
     (let dest = (n - 1) mod 2; p1 = p\<lparr>pr_processedSnapshotNum := n\<rparr> in
      case getSnapshot n (pr_activeSnapshots p ! dest) (im_snapshotManager im) of
        None \<Rightarrow> show_numbers im ns p1
      | Some info \<Rightarrow>
          rbind (show_snapshot im dest (p1\<lparr>pr_activeSnapshots := (pr_activeSnapshots p)[dest := info]\<rparr>)) (show_numbers im ns))"

abbreviation pending :: "processor \<Rightarrow> nat list" where
  "pending p \<equiv> [Suc (pr_processedSnapshotNum p)..<Suc (pr_latestSnapshotNum p)]"

lemma show_pending:
  "show_numbers im (pending p) p =
     (case readNextSnapshot (im_snapshotManager im) p of
        (None, p1) \<Rightarrow> Inr p1
      | (Some dest, p1) \<Rightarrow> rbind (show_snapshot im dest p1) (show_numbers im (pending p1)))"
proof (induction "im_snapshotManager im" p rule: readNextSnapshot.induct)
  case (1 p)
  show ?case
  proof (cases "pr_processedSnapshotNum p < pr_latestSnapshotNum p")
    case True
    let ?p1 = "p\<lparr>pr_processedSnapshotNum := pr_processedSnapshotNum p + 1\<rparr>"
    let ?dest = "pr_processedSnapshotNum p mod MAX_ACTIVE_SNAPSHOTS"
    have u: "pending p = Suc (pr_processedSnapshotNum p) # pending ?p1"
      using True by (simp add: upt_rec [of "Suc (pr_processedSnapshotNum p)"])
    show ?thesis
    proof (cases "getSnapshot (pr_processedSnapshotNum ?p1) (pr_activeSnapshots ?p1 ! ?dest) (im_snapshotManager im)")
      case None
      then show ?thesis unfolding u using "1.hyps" [OF True refl refl None] True
        by (subst readNextSnapshot.simps) (simp add: Let_def MAX_ACTIVE_SNAPSHOTS_def del: upt_Suc)
    next
      case (Some info)
      then show ?thesis unfolding u using True
        by (subst readNextSnapshot.simps) (simp add: Let_def MAX_ACTIVE_SNAPSHOTS_def del: upt_Suc)
    qed
  next
    case False
    then show ?thesis by (subst readNextSnapshot.simps) simp
  qed
qed

lemma show_snapshot_place:
  assumes "show_snapshot im dest p = Inr p'"
  shows "place p' = (Some dest, None, pr_activeSnapshots p, pr_processedSnapshotNum p, pr_latestSnapshotNum p) \<and>
    dest < length (pr_activeSnapshots p)"
proof -
  obtain p2 n where p2: "setNextSnap im dest p = Inr p2" "snap_of p2 (pr_nextSnap p2) = Inr n" "transitionSnapshot im p2 = Inr p'"
    using assms by (auto simp: show_snapshot_def split: if_splits)
  then show ?thesis using setNextSnap_place [OF p2(1)] transitionSnapshot_place [OF p2(3)]
    by (auto simp: place_def snap_of_def split: if_splits)
qed

text \<open>The loop shows what is pending, whatever the time.\<close>

lemma rbind_if: "rbind (if b then r else r') g = (if b then rbind r g else rbind r' g)"
  by simp

lemma process_frames_shows:
  "pr_nextSnap p = None \<Longrightarrow> process_frames im t p = show_numbers im (pending p) p"
proof (induction im t p rule: process_frames.induct)
  case (1 im t p)
  obtain r p1 where r: "readNextSnapshot (im_snapshotManager im) p = (r, p1)" by force
  show ?case
  proof (cases r)
    case None
    then show ?thesis using r "1.prems" unfolding show_pending
      by (subst process_frames.simps) (simp add: next_frame_def)
  next
    case (Some dest)
    then have nf: "next_frame im p = rbind (setNextSnap im dest p1) (\<lambda>p2.
             rbind (snap_of p2 (pr_nextSnap p2)) (\<lambda>n.
             rbind (snap_of p2 (pr_snap p2)) (\<lambda>s.
               if si_serverTime n < si_serverTime s
               then Inl (NextSnapTimeWentBackward (si_serverTime s) (si_serverTime n)) else Inr (True, p2))))"
      using r "1.prems" by (simp add: next_frame_def)
    show ?thesis
    proof (cases "show_snapshot im dest p1")
      case (Inl e)
      moreover have "show_snapshot im dest p1 = rbind (next_frame im p) (\<lambda>(_, p2). transitionSnapshot im p2)"
        unfolding nf show_snapshot_def rbind_assoc rbind_if by (simp cong: if_cong)
      ultimately have "next_frame im p = Inl e \<or>
          (\<exists>found p2. next_frame im p = Inr (found, p2) \<and> transitionSnapshot im p2 = Inl e)"
        by (cases "next_frame im p") auto
      moreover have "found \<and> (\<exists>s. snap_of p2 (pr_snap p2) = Inr s)" if "next_frame im p = Inr (found, p2)" for found p2
        using that unfolding nf by (auto split: if_splits)
      ultimately have "next_frame im p = Inl e \<or> (\<exists>p2 s. next_frame im p = Inr (True, p2) \<and> snap_of p2 (pr_snap p2) = Inr s \<and>
          transitionSnapshot im p2 = Inl e)"
        by (metis (full_types))
      then have "process_frames im t p = Inl e"
        by (subst process_frames.simps) (auto simp: Let_def)
      then show ?thesis unfolding show_pending using r Some Inl by simp
    next
      case (Inr p3)
      then obtain p2 n s where p2: "setNextSnap im dest p1 = Inr p2" "snap_of p2 (pr_nextSnap p2) = Inr n"
          "snap_of p2 (pr_snap p2) = Inr s" "\<not> si_serverTime n < si_serverTime s" "transitionSnapshot im p2 = Inr p3"
        by (auto simp: show_snapshot_def split: if_splits)
      have f: "next_frame im p = Inr (True, p2)" using p2 by (simp add: nf)
      have "pr_nextSnap p3 = None" using show_snapshot_place [OF Inr] by (simp add: place_def)
      then have "process_frames im t p3 = show_numbers im (pending p3) p3"
        using "1.IH" [OF f refl _ p2(3) refl _ p2(5)] by auto
      moreover have "process_frames im t p = process_frames im t p3"
        using f p2(3,5) by (subst process_frames.simps) (auto simp: Let_def)
      moreover have "pending p3 = pending p1" using show_snapshot_place [OF Inr] by (simp add: place_def)
      ultimately show ?thesis unfolding show_pending [of im p] r Some using Inr by simp
    qed
  qed
qed

lemma show_numbers_last:
  assumes "show_numbers im (ns @ [n]) p = Inr p'" "getSnapshot n out (im_snapshotManager im) \<noteq> None"
  shows "\<exists>out' info. getSnapshot n out' (im_snapshotManager im) = Some info \<and> snap_of p' (pr_snap p') = Inr info"
  using assms(1)
proof (induction ns arbitrary: p)
  case Nil
  let ?out = "pr_activeSnapshots p ! ((n - 1) mod 2)"
  obtain info where i: "getSnapshot n ?out (im_snapshotManager im) = Some info"
    using assms(2) by (auto simp: getSnapshot_def Let_def split: if_splits)
  with Nil have "show_snapshot im ((n - 1) mod 2)
      (p\<lparr>pr_processedSnapshotNum := n, pr_activeSnapshots := (pr_activeSnapshots p)[(n - 1) mod 2 := info]\<rparr>) = Inr p'"
    by (simp add: Let_def)
  from show_snapshot_place [OF this] have "snap_of p' (pr_snap p') = Inr info" by (simp add: place_def snap_of_def)
  with i show ?case by blast
next
  case (Cons m ns)
  then show ?case by (auto simp: Let_def split: option.splits)
qed

text \<open>C40: When a snapshot is shown and there is no next one, the processing shows at once everything that
  came: of the numbers after the last one processed up to the current one, in order, every snapshot that the
  manager still has is read, becomes the next one and is made the one shown, whatever the time. After it there is
  never a next frame to interpolate to, all the numbers are processed and, when the manager has the snapshot of the current
  number and it was not yet processed, this is the one shown. (The test that should keep a next frame asks for a
  time that is at least and less than the same time.)\<close>

theorem no_next_frame:
  assumes "processSnapshots im t p = Inr p'" "pr_nextSnap p = None" "pr_snap p \<noteq> None"
    and "N = unat (getCurrentSnapNumber (im_snapshotManager im))"
  shows "pr_nextSnap p' = None \<and> pr_latestSnapshotNum p' = N \<and> N \<le> pr_processedSnapshotNum p' \<and>
    (\<exists>p2. show_numbers im [Suc (pr_processedSnapshotNum p)..<Suc N] (p\<lparr>pr_latestSnapshotNum := N\<rparr>) = Inr p2 \<and>
       p' = (if pr_snap p2 \<noteq> pr_snap p then notify SnapshotParsed p2 else p2)) \<and>
    (pr_processedSnapshotNum p < N \<and> getSnapshot N out (im_snapshotManager im) \<noteq> None \<longrightarrow>
       (\<exists>out' info. getSnapshot N out' (im_snapshotManager im) = Some info \<and> snap_of p' (pr_snap p') = Inr info))"
proof -
  let ?p = "p\<lparr>pr_latestSnapshotNum := N\<rparr>"
  obtain p2 where p2: "process_frames im t ?p = Inr p2"
    using assms by (auto simp: processSnapshots_def first_frame_def Let_def split: if_splits)
  have p': "p' = (if pr_snap p2 \<noteq> pr_snap p then notify SnapshotParsed p2 else p2)"
    using assms p2 process_frames_drain [OF p2] by (auto simp: processSnapshots_def first_frame_def Let_def split: if_splits)
  have sh: "show_numbers im [Suc (pr_processedSnapshotNum p)..<Suc N] ?p = Inr p2"
    using process_frames_shows [of ?p im t] assms(2) p2 by (simp del: upt_Suc)
  have "\<exists>out' info. getSnapshot N out' (im_snapshotManager im) = Some info \<and> snap_of p2 (pr_snap p2) = Inr info"
    if "pr_processedSnapshotNum p < N" "getSnapshot N out (im_snapshotManager im) \<noteq> None"
    using show_numbers_last [of im "[Suc (pr_processedSnapshotNum p)..<N]" N ?p p2 out] sh that by simp
  moreover have "snap_of p' x = snap_of p2 x" "pr_snap p' = pr_snap p2" for x
    unfolding p' by (cases x; simp add: snap_of_def notify_def)+
  ultimately show ?thesis using process_frames_drain [OF p2] p' sh by (auto simp del: upt_Suc)
qed

section \<open>Which entities are told as added and removed\<close>

fun entity_event :: "cg_event \<Rightarrow> bool" where
  "entity_event (EntityAdded es) \<longleftrightarrow> True"
| "entity_event (EntityRemoved es) \<longleftrightarrow> True"
| "entity_event _ \<longleftrightarrow> False"

abbreviation entity_events :: "processor \<Rightarrow> cg_event list" where
  "entity_events p \<equiv> filter entity_event (pr_events p)"

lemma each_notify:
  "each (\<lambda>x p. Inr (if P x then notify (E x) p else p)) xs p = Inr (p\<lparr>pr_events := pr_events p @ map E (filter P xs)\<rparr>)"
  by (induction xs arbitrary: p) (simp_all add: notify_def)

lemma events_process:
  assumes "cm_process evaluate (cg_handlers evaluate) cm s p = Inr p'"
  shows "entity_events p' = entity_events p"
  using assms
  by (auto simp: cm_process_def cg_handlers_def configStringModified_def Let_def split: option.splits if_splits)

lemma events_execute: "execute_commands im n p = Inr p' \<Longrightarrow> entity_events p' = entity_events p"
proof (induction n arbitrary: p)
  case (Suc n)
  then obtain p2 s where "lift_token (cm_process (im_evaluate im) (cg_handlers (im_evaluate im)) (pr_serverCommandManager p) s
      (p\<lparr>pr_latestCommandSequence := pr_latestCommandSequence p + 1\<rparr>)) = Inr p2" "execute_commands im n p2 = Inr p'"
    by (auto simp: Let_def)
  then show ?case
    using Suc.IH events_process by (fastforce simp: lift_token_def split: sum.splits)
qed simp

lemma events_commands: "executeNewServerCommands im n p = Inr p' \<Longrightarrow> entity_events p' = entity_events p"
  using events_execute by (auto simp: executeNewServerCommands_def)

lemma events_set_client_ent: "set_client_ent n f p = Inr p' \<Longrightarrow> entity_events p' = entity_events p"
  by (auto simp: set_client_ent_def)

lemma events_ents: "each (\<lambda>es. set_client_ent (n es) (f es)) xs p = Inr p' \<Longrightarrow> entity_events p' = entity_events p"
  by (erule each_keeps [where g = entity_events]) (rule events_set_client_ent)

lemma events_modified: "notify_modified d s t p = Inr p' \<Longrightarrow> entity_events p' = entity_events p"
  unfolding notify_modified_def
  by (erule each_keeps [where g = entity_events]) (auto simp: Let_def split: option.splits if_splits)

lemma number_absent:
  "getEntityStateByNumber n s = None \<longleftrightarrow> n \<notin> es_number ` set (snap_entities s)"
  by (auto simp: getEntityStateByNumber_def find_None_iff)

definition absent :: "snapshotInfo \<Rightarrow> entityState_t \<Rightarrow> bool" where
  "absent s es \<longleftrightarrow> es_number es \<notin> es_number ` set (snap_entities s)"

lemma filter_entity_map:
  "filter entity_event (map EntityAdded xs) = map EntityAdded xs" "filter entity_event (map EntityRemoved xs) = map EntityRemoved xs"
  by (induction xs) simp_all

text \<open>C8: A transition between two active snapshots tells the handlers, in this order, of exactly the entities of
  the new snapshot whose numbers the old one has not, and of those of the old one whose numbers the new
  one has not; the commands executed before add none.\<close>

theorem transition_events:
  assumes "transitionSnapshot im p = Inr p'" "snap_of p (pr_snap p) = Inr s" "snap_of p (pr_nextSnap p) = Inr t" "is_active s"
  shows "entity_events p' = entity_events p @ map EntityAdded (filter (absent s) (snap_entities t)) @
    map EntityRemoved (filter (absent t) (snap_entities s))"
  using assms(1)
proof (rule transitionSnapshot_parts)
  fix s' t' p1 p2 p3 p4 p5 p6
  assume r: "executeNewServerCommands im (si_serverCommandSequence t') p = Inr p1" "snap_of p (pr_snap p) = Inr s'"
    "snap_of p (pr_nextSnap p) = Inr t'" "notify_added s' t' p1 = Inr p2" "notify_modified (im_differs im) s' t' p2 = Inr p3"
    "each (\<lambda>es. set_client_ent (es_number es) (\<lambda>e. e\<lparr>ei_currentValid := False\<rparr>)) (snap_entities s') p3 = Inr p4"
    "notify_removed s' t' p4 = Inr p5"
    "each (\<lambda>es. set_client_ent (es_number es) (\<lambda>e. (transitionEntity e)\<lparr>ei_snapshotTime := si_serverTime t'\<rparr>))
       (snap_entities t') (p5\<lparr>pr_oldSnap := s', pr_snap := pr_nextSnap p5\<rparr>) = Inr p6"
    "pr_events p' = pr_events p6"
  have st: "s' = s" "t' = t" using r(2,3) assms(2,3) by simp_all
  have "entity_events p2 = entity_events p1 @ map EntityAdded (filter (absent s) (snap_entities t))"
    using r(4) assms(4) by (auto simp: notify_added_def each_notify number_absent absent_def [abs_def] st filter_entity_map)
  moreover have "entity_events p5 = entity_events p4 @ map EntityRemoved (filter (absent t) (snap_entities s))"
    using r(7) assms(4) by (auto simp: notify_removed_def each_notify number_absent absent_def [abs_def] st filter_entity_map)
  moreover have "entity_events p6 = entity_events p5" using events_ents [OF r(8)] by simp
  ultimately show ?thesis
    using events_commands [OF r(1)] events_modified [OF r(5)] events_ents [OF r(6)] r(9) by simp
qed

lemma readNextSnapshot_skips:
  assumes "pr_processedSnapshotNum p = k" "k + 2 \<le> pr_latestSnapshotNum p"
    and "getSnapshot (k + 1) (pr_activeSnapshots p ! (k mod 2)) sm = None"
    and "getSnapshot (k + 2) (pr_activeSnapshots p ! ((k + 1) mod 2)) sm = Some info"
  shows "readNextSnapshot sm p = (Some ((k + 1) mod 2),
    p\<lparr>pr_processedSnapshotNum := k + 2, pr_activeSnapshots := (pr_activeSnapshots p)[(k + 1) mod 2 := info]\<rparr>)"
proof -
  let ?p = "p\<lparr>pr_processedSnapshotNum := k + 1\<rparr>"
  have "readNextSnapshot sm p = readNextSnapshot sm ?p"
    using assms by (subst readNextSnapshot.simps) (simp add: Let_def MAX_ACTIVE_SNAPSHOTS_def)
  also have "\<dots> = (Some ((k + 1) mod 2),
      p\<lparr>pr_processedSnapshotNum := k + 2, pr_activeSnapshots := (pr_activeSnapshots p)[(k + 1) mod 2 := info]\<rparr>)"
    using assms by (subst readNextSnapshot.simps) (simp add: Let_def MAX_ACTIVE_SNAPSHOTS_def)
  finally show ?thesis .
qed

text \<open>C39: When the snapshot after the current one was lost and the one after it is active, this one is read into the
  slot of the current one: the current snapshot is overwritten, it and the next one are the same, and the
  transition tells of no entity that was added or removed, whatever entities the two snapshots held.
  (Slots alternate by the number, not by which one is free.)\<close>

theorem lost_snapshot_hides_entities:
  assumes "pr_processedSnapshotNum p = k" "k + 2 \<le> pr_latestSnapshotNum p" "pr_snap p = Some ((k + 1) mod 2)"
    "length (pr_activeSnapshots p) = 2" "pr_nextSnap p = None"
    and "getSnapshot (k + 1) (pr_activeSnapshots p ! (k mod 2)) (im_snapshotManager im) = None"
    and "getSnapshot (k + 2) (pr_activeSnapshots p ! ((k + 1) mod 2)) (im_snapshotManager im) = Some info" "is_active info"
    and "next_frame im p = Inr (True, p1)" "transitionSnapshot im p1 = Inr p2"
  shows "snap_of p1 (pr_snap p1) = Inr info \<and> pr_snap p1 = pr_nextSnap p1 \<and> entity_events p2 = entity_events p"
proof -
  let ?q = "p\<lparr>pr_processedSnapshotNum := k + 2, pr_activeSnapshots := (pr_activeSnapshots p)[(k + 1) mod 2 := info]\<rparr>"
  note r = readNextSnapshot_skips [OF assms(1,2,6,7)]
  have nx: "setNextSnap im ((k + 1) mod 2) ?q = Inr p1"
    using assms(5,9) r by (auto simp: next_frame_def split: if_splits)
  note pl = setNextSnap_place [OF nx]
  have same: "pr_snap p1 = Some ((k + 1) mod 2)" "pr_nextSnap p1 = Some ((k + 1) mod 2)" "snap_of p1 (Some ((k + 1) mod 2)) = Inr info"
    using pl assms(3,4) by (simp_all add: place_def snap_of_def)
  have events: "entity_events p1 = entity_events p"
  proof -
    obtain n q1 q2 where "set_client_ent (ucast (ps_number (si_ps n))) (\<lambda>e. e\<lparr>ei_interpolate := True\<rparr>)
        (?q\<lparr>pr_nextSnap := Some ((k + 1) mod 2)\<rparr>) = Inr q1"
      "each (\<lambda>es. set_client_ent (es_number es) (next_entity es)) (snap_entities n) q1 = Inr q2" "pr_events p1 = pr_events q2"
      using nx by (auto simp: setNextSnap_def Let_def)
    then show ?thesis by (auto dest!: events_set_client_ent events_ents)
  qed
  have none: "filter (absent info) (snap_entities info) = []" by (auto simp: absent_def filter_empty_conv)
  have "entity_events p2 = entity_events p1"
    using transition_events [OF assms(10), of info info] same assms(8) by (simp add: none)
  then show ?thesis using events same by simp
qed

section \<open>A transition returns\<close>

lemma each_total:
  assumes "\<And>x p. x \<in> set xs \<Longrightarrow> length (pr_clientEnts p) = n \<Longrightarrow> \<exists>p'. f x p = Inr p' \<and> length (pr_clientEnts p') = n"
    and "length (pr_clientEnts p) = n"
  shows "\<exists>p'. each f xs p = Inr p' \<and> length (pr_clientEnts p') = n"
  using assms
proof (induction xs arbitrary: p)
  case (Cons x xs)
  obtain q where q: "f x p = Inr q" "length (pr_clientEnts q) = n" using Cons.prems by force
  then show ?case using Cons.IH [of q] Cons.prems(1) by simp
qed simp

lemma set_client_ent_total:
  "unat k < length (pr_clientEnts p) \<Longrightarrow> \<exists>p'. set_client_ent k f p = Inr p' \<and> length (pr_clientEnts p') = length (pr_clientEnts p)"
  by (simp add: set_client_ent_def client_ent_def)

lemma each_set_total:
  assumes "\<forall>es\<in>set xs. unat (es_number es) < length (pr_clientEnts p)"
  shows "\<exists>p'. each (\<lambda>es. set_client_ent (es_number es) (f es)) xs p = Inr p' \<and> length (pr_clientEnts p') = length (pr_clientEnts p)"
  using assms
proof (induction xs arbitrary: p)
  case (Cons x xs)
  obtain q where "set_client_ent (es_number x) (f x) p = Inr q" "length (pr_clientEnts q) = length (pr_clientEnts p)"
    using set_client_ent_total [of "es_number x" p "f x"] Cons.prems by auto
  then show ?case using Cons.IH [of q] Cons.prems by simp
qed simp

text \<open>When the commands are executed and the numbers of the entities are in the array, nothing else fails.\<close>

lemma transition_returns:
  assumes "executeNewServerCommands im (si_serverCommandSequence t) p = Inr p1"
    and s: "snap_of p (pr_snap p) = Inr s" "snap_of p (pr_nextSnap p) = Inr t"
    and n: "\<forall>es\<in>set (snap_entities s) \<union> set (snap_entities t). unat (es_number es) < length (pr_clientEnts p1)"
  shows "\<exists>p'. transitionSnapshot im p = Inr p'"
proof -
  let ?n = "length (pr_clientEnts p1)"
  have same: "pr_snap p1 = pr_snap p" "pr_nextSnap p1 = pr_nextSnap p" "pr_activeSnapshots p1 = pr_activeSnapshots p"
    using place_commands [OF assms(1)] by (simp_all add: place_def)
  then have "snap_of p1 x = snap_of p x" for x by (cases x) (simp_all add: snap_of_def)
  then have s1: "snap_of p1 (pr_snap p1) = Inr s" "snap_of p1 (pr_nextSnap p1) = Inr t"
    using s by (simp_all only: same)
  obtain p2 where p2: "notify_added s t p1 = Inr p2" "length (pr_clientEnts p2) = ?n"
  proof -
    have "\<exists>p2. notify_added s t p1 = Inr p2 \<and> length (pr_clientEnts p2) = ?n"
      unfolding notify_added_def using n by (simp add: each_notify) (auto simp: client_ent_def intro!: each_total)
    then show thesis using that by blast
  qed
  obtain p3 where p3: "notify_modified (im_differs im) s t p2 = Inr p3" "length (pr_clientEnts p3) = ?n"
  proof -
    have "\<exists>p3. notify_modified (im_differs im) s t p2 = Inr p3 \<and> length (pr_clientEnts p3) = ?n"
      unfolding notify_modified_def using n p2(2) by (intro each_total) (auto simp: client_ent_def Let_def split: option.split)
    then show thesis using that by blast
  qed
  obtain p4 where p4: "each (\<lambda>es. set_client_ent (es_number es) (\<lambda>e. e\<lparr>ei_currentValid := False\<rparr>)) (snap_entities s) p3 = Inr p4"
    "length (pr_clientEnts p4) = ?n"
    using each_set_total [of "snap_entities s" p3 "\<lambda>_ e. e\<lparr>ei_currentValid := False\<rparr>"] n p3(2) by auto
  obtain p5 where p5: "notify_removed s t p4 = Inr p5" "length (pr_clientEnts p5) = ?n"
  proof (cases "is_active s")
    case True
    show thesis
      by (rule that [of "p4\<lparr>pr_events := pr_events p4 @ map EntityRemoved
          (filter (\<lambda>es. getEntityStateByNumber (es_number es) t = None) (snap_entities s))\<rparr>"])
        (simp_all add: notify_removed_def each_notify True p4(2))
  next
    case False
    show thesis by (rule that [of p4]) (simp_all add: notify_removed_def False p4(2))
  qed
  obtain p6 where "each (\<lambda>es. set_client_ent (es_number es) (\<lambda>e. (transitionEntity e)\<lparr>ei_snapshotTime := si_serverTime t\<rparr>))
      (snap_entities t) (p5\<lparr>pr_oldSnap := s, pr_snap := pr_nextSnap p5\<rparr>) = Inr p6"
    using each_set_total [of "snap_entities t" "p5\<lparr>pr_oldSnap := s, pr_snap := pr_nextSnap p5\<rparr>"
        "\<lambda>_ e. (transitionEntity e)\<lparr>ei_snapshotTime := si_serverTime t\<rparr>"] n p5(2) by auto
  then show ?thesis
    using s(2) assms(1) s1 p2(1) p3(1) p4(1) p5(1) by (simp add: transitionSnapshot_def Let_def)
qed

section \<open>A client that lost a snapshot\<close>

text \<open>Snapshot 1, with one entity, is shown; 2 was lost; 3 has no entity.\<close>

definition raw1 :: rawSnapshot_t where
  "raw1 = rawSnapshot_new\<lparr>rs_messageNum := 1, rs_valid := True, rs_numEntities := 1\<rparr>"

definition raw3 :: rawSnapshot_t where
  "raw3 = rawSnapshot_new\<lparr>rs_messageNum := 3, rs_valid := True, rs_parseEntitiesNum := 1\<rparr>"

definition an_entity :: entityState_t where
  "an_entity = entityState_new\<lparr>es_number := 7\<rparr>"

definition a_manager :: snapshotManager where
  "a_manager =
     \<lparr>sm_PVSParser = PVS17, sm_snapshotParser = Snapshot17, sm_parseEntitiesNum = 1, sm_lastSnapFlags = 0,
      sm_currentSnap = raw3, sm_snapshots = (replicate 32 rawSnapshot_new)[1 := raw1, 3 := raw3],
      sm_parseEntities = an_entity # replicate 2047 entityState_new, sm_snapActive = True, sm_newSnapshots = False, sm_events = []\<rparr>"

definition an_import :: "command_array cg_imports" where
  "an_import =
     \<lparr>im_evaluate = (\<lambda>_ _. Inl EndOfFileReached), im_ops = RemoteCommandSequenceTemplate,
      im_commands = ICommandSequence_new (RemoteCommandSequenceTemplate_ver17 0), im_snapshotManager = a_manager,
      im_clientTime = clientTime_new, im_differs = (\<lambda>_. False)\<rparr>"

definition shown1 :: snapshotInfo where "shown1 = copy_snapshot raw1 a_manager snapshotInfo_new"
definition shown3 :: "snapshotInfo \<Rightarrow> snapshotInfo" where "shown3 out = copy_snapshot raw3 a_manager out"

definition a_processor :: processor where
  "a_processor = processor_new\<lparr>pr_snap := Some 0, pr_activeSnapshots := [shown1, snapshotInfo_new],
     pr_clientEnts := replicate 16 entityInfo_new, pr_processedSnapshotNum := 1, pr_latestSnapshotNum := 3\<rparr>"

lemma shown_entities:
  "snap_entities shown1 = [an_entity]" "snap_entities (shown3 out) = []" "is_active shown1" "is_active (shown3 out)"
  "si_serverCommandSequence (shown3 out) = 0" "si_ps (shown3 out) = playerState_new" "si_serverTime (shown3 out) = 0"
proof -
  have "frame_entities raw1 (snap_parm a_manager clientTime_new) = [an_entity]"
    by (simp add: frame_entities_def raw1_def snap_parm_def a_manager_def MAX_PARSE_ENTITIES_def rawSnapshot_new_def)
  moreover have "take (si_numEntities shown1) (si_entities shown1) =
      take MAX_ENTITIES_IN_SNAPSHOT (frame_entities raw1 (snap_parm a_manager clientTime_new))"
    unfolding shown1_def by (rule copied_entities) (simp_all add: snap_parm_def)
  ultimately show "snap_entities shown1 = [an_entity]" by (simp add: snap_entities_def MAX_ENTITIES_IN_SNAPSHOT_def)
  show "snap_entities (shown3 out) = []"
    by (simp add: snap_entities_def shown3_def copy_snapshot_def raw3_def rawSnapshot_new_def Let_def)
  show "is_active shown1" "is_active (shown3 out)" "si_serverCommandSequence (shown3 out) = 0"
    "si_ps (shown3 out) = playerState_new" "si_serverTime (shown3 out) = 0"
    by (simp_all add: is_active_def shown1_def shown3_def copy_snapshot_def raw1_def raw3_def rawSnapshot_new_def Let_def)
qed

lemma a_lost_snapshot:
  "getSnapshot 2 out a_manager = None" "getSnapshot 3 out a_manager = Some (shown3 out)"
  by (simp_all add: getSnapshot_def a_manager_def PACKET_BACKUP_def MAX_PARSE_ENTITIES_def raw3_def rawSnapshot_new_def
      nth_list_update shown3_def Let_def)

lemmas a_lost_snapshot_Suc = a_lost_snapshot [unfolded numeral_2_eq_2 numeral_3_eq_3]

lemma a_processor_reads:
  "\<exists>p1 p2. next_frame an_import a_processor = Inr (True, p1) \<and> transitionSnapshot an_import p1 = Inr p2 \<and>
    place p1 = (Some 0, Some 0, [shown3 shown1, snapshotInfo_new], 3, 3) \<and>
    place p2 = (Some 0, None, [shown3 shown1, snapshotInfo_new], 3, 3)"
proof -
  have n: "ps_number playerState_new = 0" by (simp add: ps_number_def playerState_new_def)
  let ?q = "a_processor\<lparr>pr_processedSnapshotNum := 3, pr_activeSnapshots := [shown3 shown1, snapshotInfo_new]\<rparr>"
  have "readNextSnapshot a_manager a_processor = (Some 0, ?q)"
    using readNextSnapshot_skips [of a_processor 1 a_manager "shown3 shown1"] a_lost_snapshot_Suc
    by (simp add: a_processor_def numeral_3_eq_3)
  moreover have "im_snapshotManager an_import = a_manager" by (simp add: an_import_def)
  ultimately obtain p1 where p1: "next_frame an_import a_processor = Inr (True, p1)"
    "place p1 = (Some 0, Some 0, [shown3 shown1, snapshotInfo_new], 3, 3)"
    by (simp add: next_frame_def place_def setNextSnap_def snap_of_def set_client_ent_def client_ent_def shown_entities n
        a_processor_def processor_new_def Let_def)
  then have "\<exists>p2. transitionSnapshot an_import p1 = Inr p2"
    by (cases "pr_newConfigstrings p1")
      (simp_all add: transitionSnapshot_def executeNewServerCommands_def place_def snap_of_def shown_entities notify_added_def
        notify_modified_def notify_removed_def Let_def)
  then obtain p2 where p2: "transitionSnapshot an_import p1 = Inr p2" by blast
  with p1 transitionSnapshot_place [OF p2] show ?thesis by (auto simp: place_def)
qed

text \<open>The entity is gone from the snapshot that is shown, and no handler was told.\<close>

theorem lost_snapshot_hides_entities_witness:
  "\<exists>p1 p2. transitionSnapshot an_import p1 = Inr p2 \<and> snap_of a_processor (pr_snap a_processor) = Inr shown1 \<and>
    snap_entities shown1 = [an_entity] \<and> snap_of p1 (pr_snap p1) = Inr (shown3 shown1) \<and> snap_entities (shown3 shown1) = [] \<and>
    entity_events p2 = []"
proof -
  obtain p1 p2 where p: "next_frame an_import a_processor = Inr (True, p1)" "transitionSnapshot an_import p1 = Inr p2"
    using a_processor_reads by blast
  have a: "pr_processedSnapshotNum a_processor = 1" "1 + 2 \<le> pr_latestSnapshotNum a_processor"
    "pr_snap a_processor = Some ((1 + 1) mod 2)" "length (pr_activeSnapshots a_processor) = 2" "pr_nextSnap a_processor = None"
    by (simp_all add: a_processor_def processor_new_def)
  have g: "getSnapshot (1 + 1) (pr_activeSnapshots a_processor ! (1 mod 2)) (im_snapshotManager an_import) = None"
    "getSnapshot (1 + 2) (pr_activeSnapshots a_processor ! ((1 + 1) mod 2)) (im_snapshotManager an_import) = Some (shown3 shown1)"
    using a_lost_snapshot_Suc by (simp_all add: an_import_def a_processor_def)
  note t = lost_snapshot_hides_entities [OF a g shown_entities(4) p]
  have "entity_events a_processor = []" "snap_of a_processor (pr_snap a_processor) = Inr shown1"
    by (simp_all add: a_processor_def processor_new_def snap_of_def)
  then show ?thesis using t p(2) shown_entities(1,2) by auto
qed

text \<open>The snapshot of number 3 is shown at the time 0.\<close>

theorem no_next_frame_witness:
  "\<exists>p out. processSnapshots an_import 0 a_processor = Inr p \<and> pr_nextSnap p = None \<and> 3 \<le> pr_processedSnapshotNum p \<and>
    snap_of p (pr_snap p) = Inr (shown3 out)"
proof -
  obtain p1 p2 where p: "next_frame an_import a_processor = Inr (True, p1)" "transitionSnapshot an_import p1 = Inr p2"
    "place p1 = (Some 0, Some 0, [shown3 shown1, snapshotInfo_new], 3, 3)"
    "place p2 = (Some 0, None, [shown3 shown1, snapshotInfo_new], 3, 3)"
    using a_processor_reads by blast
  have latest: "unat (getCurrentSnapNumber (im_snapshotManager an_import)) = 3" "pr_latestSnapshotNum a_processor = 3"
    by (simp_all add: an_import_def a_manager_def getCurrentSnapNumber_def raw3_def a_processor_def)
  have "next_frame an_import p2 = Inr (False, p2)"
    using p(4) by (simp add: next_frame_def place_def readNextSnapshot.simps)
  then have "process_frames an_import 0 p2 = Inr p2" by (subst process_frames.simps) simp
  then have run: "process_frames an_import 0 a_processor = Inr p2"
    using p by (subst process_frames.simps) (simp add: place_def snap_of_def shown_entities net_tick_def of_ms_def Let_def)
  have q: "a_processor\<lparr>pr_latestSnapshotNum := 3\<rparr> = a_processor" "pr_snap a_processor = Some 0" by (simp_all add: a_processor_def)
  have "processSnapshots an_import 0 a_processor = Inr p2"
    unfolding processSnapshots_def Let_def latest(1) q(1) using q(2) run latest(2) p(4)
    by (simp add: first_frame_def snap_of_def place_def)
  then obtain p' where r: "processSnapshots an_import 0 a_processor = Inr p'" by blast
  have a: "pr_nextSnap a_processor = None" "pr_snap a_processor \<noteq> None" by (simp_all add: a_processor_def processor_new_def)
  have sm: "im_snapshotManager an_import = a_manager" "pr_processedSnapshotNum a_processor < 3"
    by (simp_all add: an_import_def a_processor_def)
  from no_next_frame [OF r a latest(1) [symmetric], of shown1] sm a_lost_snapshot(2)
  have "pr_nextSnap p' = None" "3 \<le> pr_processedSnapshotNum p'"
    "\<exists>out. snap_of p' (pr_snap p') = Inr (shown3 out)" by auto
  with r show ?thesis by blast
qed

text \<open>Another one, with two slots: one entity goes and another comes.\<close>

definition shown9 :: snapshotInfo where
  "shown9 = snapshotInfo_new\<lparr>si_snapFlags := 0, si_numEntities := 1, si_entities := [entityState_new\<lparr>es_number := 9\<rparr>]\<rparr>"

definition two_slots :: processor where
  "two_slots = a_processor\<lparr>pr_nextSnap := Some 1, pr_activeSnapshots := [shown1, shown9]\<rparr>"

theorem transition_events_witness:
  "\<exists>p. transitionSnapshot an_import two_slots = Inr p \<and>
    entity_events p = [EntityAdded (entityState_new\<lparr>es_number := 9\<rparr>), EntityRemoved an_entity]"
proof -
  have s: "snap_of two_slots (pr_snap two_slots) = Inr shown1" "snap_of two_slots (pr_nextSnap two_slots) = Inr shown9"
    by (simp_all add: two_slots_def a_processor_def snap_of_def)
  have c: "executeNewServerCommands an_import (si_serverCommandSequence shown9) two_slots = Inr two_slots"
    by (simp add: executeNewServerCommands_def shown9_def snapshotInfo_new_def two_slots_def a_processor_def processor_new_def)
  have e: "snap_entities shown9 = [entityState_new\<lparr>es_number := 9\<rparr>]" by (simp add: snap_entities_def shown9_def)
  have "length (pr_clientEnts two_slots) = 16" by (simp add: two_slots_def a_processor_def)
  then obtain p where r: "transitionSnapshot an_import two_slots = Inr p"
    using transition_returns [OF c s] by (auto simp: e shown_entities an_entity_def)
  have "entity_events two_slots = []" by (simp add: two_slots_def a_processor_def processor_new_def)
  then show ?thesis
    using transition_events [OF r s shown_entities(3)] r by (simp add: e shown_entities absent_def an_entity_def)
qed

end
