(* ===== verification/InfoString.thy ===== *)
theory InfoString
  imports Tokens Msg
begin

text \<open>
  Keys and values in one string, as in \<open>\key1\value1\key2\value2\<close> (\<open>Utility/Info.cpp\<close>, \<open>Info.h\<close>): the
  string that is changed, the one that is only read, the iterator over the pairs, and the text in JSON.

  A buffer is the list of its bytes with the terminator; a pointer into it is an index, and an access past
  its end is the error \<open>InfoBadAccess\<close>.
\<close>

section \<open>Scanning\<close>

datatype info_error = InfoBadAccess

definition mem_at :: "byte list \<Rightarrow> nat \<Rightarrow> info_error + byte" where
  "mem_at buf i = (if i < length buf then Inr (buf ! i) else Inl InfoBadAccess)"

lemma mem_at_Inr: "mem_at buf i = Inr c \<longleftrightarrow> i < length buf \<and> buf ! i = c"
  by (simp add: mem_at_def)

fun cmpn :: "byte list \<Rightarrow> byte list \<Rightarrow> nat \<Rightarrow> int" where
  "cmpn s1 s2 0 = 0"
| "cmpn s1 s2 (Suc n) =
     (if sint (at0 s1) < sint (at0 s2) then - 1 else if sint (at0 s1) > sint (at0 s2) then 1
      else cmpn (tl s1) (tl s2) n)"

text \<open>The end of a word that the terminator or a backslash ends, and of one that a backslash or the end of
  the buffer ends.\<close>

function word_end :: "byte list \<Rightarrow> nat \<Rightarrow> info_error + nat" where
  "word_end buf i = rbind (mem_at buf i) (\<lambda>c. if c \<noteq> 0 \<and> c \<noteq> BACKSLASH then word_end buf (i + 1) else Inr i)"
  by auto
termination by (relation "measure (\<lambda>(buf, i). length buf - i)") (auto simp: mem_at_Inr)

function word_end_n :: "byte list \<Rightarrow> nat \<Rightarrow> nat \<Rightarrow> info_error + nat" where
  "word_end_n buf endBuf i =
     (if i < endBuf then rbind (mem_at buf i) (\<lambda>c. if c \<noteq> BACKSLASH then word_end_n buf endBuf (i + 1) else Inr i)
      else Inr i)"
  by auto
termination by (relation "measure (\<lambda>(buf, endBuf, i). endBuf - i)") auto

function skip_seps :: "byte list \<Rightarrow> nat \<Rightarrow> info_error + nat" where
  "skip_seps buf i = rbind (mem_at buf i) (\<lambda>c. if c = BACKSLASH then skip_seps buf (i + 1) else Inr i)"
  by auto
termination by (relation "measure (\<lambda>(buf, i). length buf - i)") (auto simp: mem_at_Inr)

declare word_end.simps [simp del] word_end_n.simps [simp del] skip_seps.simps [simp del]

lemma word_end_ge: "word_end buf i = Inr j \<Longrightarrow> i \<le> j"
  by (induction buf i rule: word_end.induct, subst (asm) (2) word_end.simps) (fastforce split: if_splits)

lemma word_end_n_ge: "word_end_n buf endBuf i = Inr j \<Longrightarrow> i \<le> j \<and> (j \<noteq> i \<longrightarrow> j \<le> endBuf)"
  by (induction buf endBuf i rule: word_end_n.induct, subst (asm) (2) word_end_n.simps) (fastforce split: if_splits)

lemma skip_seps_ge: "skip_seps buf i = Inr j \<Longrightarrow> i \<le> j"
  by (induction buf i rule: skip_seps.induct, subst (asm) (2) skip_seps.simps) (fastforce split: if_splits)

section \<open>The string that is changed\<close>

record info =
  in_keyBuffer :: "byte list option"
  in_alloced :: nat
  in_size :: nat

definition info_new :: info where
  "info_new = \<lparr>in_keyBuffer = None, in_alloced = 0, in_size = 0\<rparr>"

text \<open>The move gives the value and the emptied source. (The old buffer of the target is not freed.)\<close>

definition info_move :: "info \<Rightarrow> info \<times> info" where
  "info_move other = (other, \<lparr>in_keyBuffer = None, in_alloced = 0, in_size = 0\<rparr>)"

text \<open>One round of the loops over the pairs: the start of the key, its end and the end of the value.\<close>

definition info_pair :: "byte list \<Rightarrow> nat \<Rightarrow> byte \<Rightarrow> info_error + nat \<times> nat \<times> nat" where
  "info_pair buf startKey c =
     (let pkey = (if c = BACKSLASH then startKey + 1 else startKey) in
      rbind (word_end buf pkey) (\<lambda>endKey.
      rbind (word_end buf (endKey + 1)) (\<lambda>endValue. Inr (pkey, endKey, endValue))))"

lemma info_pair_gr: "info_pair buf p c = Inr (pkey, endKey, endValue) \<Longrightarrow> p < endValue"
  by (auto simp: info_pair_def Let_def dest!: word_end_ge split: if_splits)

function remove_loop :: "byte list \<Rightarrow> nat \<Rightarrow> byte list \<Rightarrow> nat \<Rightarrow> nat \<Rightarrow> info_error + byte list \<times> nat" where
  "remove_loop buf sz key keyLen p =
     rbind (mem_at buf p) (\<lambda>c. if c = 0 then Inr (buf, sz) else
     rbind (info_pair buf p c) (\<lambda>(pkey, endKey, endValue).
       if keyLen = endKey - pkey \<and> cmpn (drop pkey buf) key (endKey - pkey) = 0 then
         (if sz < endValue then Inl InfoBadAccess
          else Inr (blit buf p (take (sz - endValue) (drop endValue buf)), sz - (endValue - p)))
       else remove_loop buf sz key keyLen endValue))"
  by auto
termination
  by (relation "measure (\<lambda>(buf, sz, key, keyLen, p). length buf - p)") (auto simp: mem_at_Inr dest: info_pair_gr)

function value_loop :: "byte list \<Rightarrow> byte list \<Rightarrow> nat \<Rightarrow> info_error + byte list" where
  "value_loop buf key p =
     rbind (mem_at buf p) (\<lambda>c. if c = 0 then Inr [] else
     rbind (info_pair buf p c) (\<lambda>(pkey, endKey, endValue).
       if cmpn (drop pkey buf) key (endKey - pkey) = 0 then Inr (take (endValue - (endKey + 1)) (drop (endKey + 1) buf))
       else value_loop buf key endValue))"
  by auto
termination
  by (relation "measure (\<lambda>(buf, key, p). length buf - p)") (auto simp: mem_at_Inr dest: info_pair_gr)

declare remove_loop.simps [simp del] value_loop.simps [simp del]

definition RemoveKey_len :: "byte list \<Rightarrow> nat \<Rightarrow> info \<Rightarrow> info_error + info" where
  "RemoveKey_len key keyLen i =
     (case in_keyBuffer i of
        None \<Rightarrow> Inr i
      | Some buf \<Rightarrow>
          if BACKSLASH \<in> set key then Inr i
          else rbind (remove_loop buf (in_size i) key keyLen 0) (\<lambda>(buf1, size1).
            Inr (i\<lparr>in_keyBuffer := Some buf1, in_size := size1\<rparr>)))"

definition RemoveKey :: "byte list \<Rightarrow> info \<Rightarrow> info_error + info" where
  "RemoveKey key i = RemoveKey_len key (length key) i"

text \<open>A new buffer is filled up to its end by the copies; its bytes before them are zero here.\<close>

definition grow_info :: "nat \<Rightarrow> info \<Rightarrow> info" where
  "grow_info newsz i =
     (if newsz > in_alloced i then
        let newBuf = replicate newsz 0 in
        i\<lparr>in_alloced := newsz,
          in_keyBuffer := Some (case in_keyBuffer i of None \<Rightarrow> newBuf
                                | Some buf \<Rightarrow> blit newBuf 0 (take (sz_sub (in_size i) 1) buf))\<rparr>
      else i)"

definition SetValueForKey :: "byte list \<Rightarrow> byte list \<Rightarrow> info \<Rightarrow> info_error + info" where
  "SetValueForKey key value i =
     (if key = [] then Inr i
      else
        rbind (RemoveKey_len key (length key) i) (\<lambda>i1.
          let sizeNoNul = (if in_size i1 \<noteq> 0 then in_size i1 - 1 else 0);
              newsz = sizeNoNul + 1 + length key + 1 + length value + 1;
              i2 = grow_info newsz i1
          in case in_keyBuffer i2 of
               None \<Rightarrow> Inl InfoBadAccess
             | Some buf \<Rightarrow> Inr (i2\<lparr>in_keyBuffer := Some (blit buf sizeNoNul (BACKSLASH # key @ BACKSLASH # value @ [0])),
                              in_size := newsz\<rparr>)))"

definition info_ValueForKey :: "byte list \<Rightarrow> info \<Rightarrow> info_error + byte list" where
  "info_ValueForKey key i = (case in_keyBuffer i of None \<Rightarrow> Inl InfoBadAccess | Some buf \<Rightarrow> value_loop buf key 0)"

text \<open>The three functions look for the literal \<open>key\<close>.\<close>

definition literal_key :: "byte list" where "literal_key = [107, 101, 121]"

definition info_IntValueForKey :: "byte list \<Rightarrow> info \<Rightarrow> info_error + u32" where
  "info_IntValueForKey key i = rbind (info_ValueForKey literal_key i) (\<lambda>s. Inr (word_of_int (ato_int s)))"

definition info_LongValueForKey :: "byte list \<Rightarrow> info \<Rightarrow> info_error + 64 word" where
  "info_LongValueForKey key i = rbind (info_ValueForKey literal_key i) (\<lambda>s. Inr (word_of_int (ato_int s)))"

definition info_BoolValueForKey :: "byte list \<Rightarrow> info \<Rightarrow> info_error + bool" where
  "info_BoolValueForKey key i = rbind (info_ValueForKey literal_key i) (\<lambda>s. Inr (ato_int s \<noteq> 0))"

section \<open>The string that is only read\<close>

record readOnlyInfo =
  ro_keyBuffer :: "byte list"
  ro_size :: nat

text \<open>The buffer is the memory from the pointer on; without one it is empty.\<close>

definition readOnlyInfo_empty :: readOnlyInfo where
  "readOnlyInfo_empty = \<lparr>ro_keyBuffer = [], ro_size = 0\<rparr>"

definition readOnlyInfo_new :: "byte list \<Rightarrow> nat \<Rightarrow> readOnlyInfo" where
  "readOnlyInfo_new existingBuffer len =
     \<lparr>ro_keyBuffer = existingBuffer,
      ro_size = (if len = 0 \<and> at0 existingBuffer \<noteq> 0 then length (c_chars existingBuffer) + 1 else len)\<rparr>"

text \<open>The pointer that is returned is the memory from it on.\<close>

function ro_loop :: "byte list \<Rightarrow> nat \<Rightarrow> byte list \<Rightarrow> nat \<Rightarrow> info_error + byte list \<times> nat" where
  "ro_loop buf endBuf key p =
     (if p < endBuf then
        rbind (skip_seps buf p) (\<lambda>pkey.
        rbind (word_end_n buf endBuf pkey) (\<lambda>endKey.
        rbind (word_end_n buf endBuf (endKey + 1)) (\<lambda>endValue.
          let keyLen = endKey - pkey in
          if keyLen > 0 \<and> keyLen = length key \<and> cmpn (drop pkey buf) key keyLen = 0
          then Inr (drop (endKey + 1) buf, endValue - (endKey + 1))
          else ro_loop buf endBuf key endValue)))
      else Inr ([0], 0))"
  by auto
termination
  by (relation "measure (\<lambda>(buf, endBuf, key, p). endBuf - p)")
    (auto dest!: skip_seps_ge word_end_n_ge)

declare ro_loop.simps [simp del]

definition ro_ValueForKey_len :: "byte list \<Rightarrow> readOnlyInfo \<Rightarrow> info_error + byte list \<times> nat" where
  "ro_ValueForKey_len key r = ro_loop (ro_keyBuffer r) (ro_size r) key 0"

text \<open>The string made of the pointer ends at its terminator.\<close>

definition ro_ValueForKey :: "byte list \<Rightarrow> readOnlyInfo \<Rightarrow> info_error + byte list" where
  "ro_ValueForKey key r =
     rbind (ro_ValueForKey_len key r) (\<lambda>(foundKey, keyLen).
       Inr (if keyLen \<noteq> 0 then take keyLen (c_chars foundKey) else []))"

definition ro_IntValueForKey :: "byte list \<Rightarrow> readOnlyInfo \<Rightarrow> info_error + u32" where
  "ro_IntValueForKey key r = rbind (ro_ValueForKey key r) (\<lambda>s. Inr (word_of_int (ato_int s)))"

definition ro_LongValueForKey :: "byte list \<Rightarrow> readOnlyInfo \<Rightarrow> info_error + 64 word" where
  "ro_LongValueForKey key r = rbind (ro_ValueForKey key r) (\<lambda>s. Inr (word_of_int (ato_int s)))"

definition ro_BoolValueForKey :: "byte list \<Rightarrow> readOnlyInfo \<Rightarrow> info_error + bool" where
  "ro_BoolValueForKey key r = rbind (ro_ValueForKey literal_key r) (\<lambda>s. Inr (ato_int s \<noteq> 0))"

section \<open>The iterator\<close>

record infoIterator =
  it_keyBuffer :: "byte list"
  it_endBuffer :: nat
  it_tmpKey :: "byte list option"
  it_tmpValue :: "byte list option"
  it_keyPtr :: nat

definition isLast :: "infoIterator \<Rightarrow> bool" where
  "isLast it \<longleftrightarrow> it_keyPtr it \<ge> it_endBuffer it"

definition parseInfo :: "infoIterator \<Rightarrow> info_error + infoIterator" where
  "parseInfo it =
     (if isLast it then Inr (it\<lparr>it_tmpKey := None, it_tmpValue := None\<rparr>)
      else
        let buf = it_keyBuffer it; endBuf = it_endBuffer it; p1 = it_keyPtr it in
        rbind (word_end_n buf endBuf p1) (\<lambda>end_p1.
          let p2 = (if end_p1 < endBuf then end_p1 + 1 else end_p1) in
          rbind (word_end_n buf endBuf p2) (\<lambda>end_p2.
            Inr (it\<lparr>it_keyPtr := (if end_p2 < endBuf then end_p2 + 1 else end_p2),
                    it_tmpKey := Some (take (end_p1 - p1) (drop p1 buf) @ [0]),
                    it_tmpValue := Some (take (end_p2 - p2) (drop p2 buf) @ [0])\<rparr>))))"

definition infoIterator_new :: "byte list \<Rightarrow> nat \<Rightarrow> info_error + infoIterator" where
  "infoIterator_new text sz =
     rbind (skip_seps text 0) (\<lambda>keyPtr.
       parseInfo \<lparr>it_keyBuffer = text, it_endBuffer = sz, it_tmpKey = None, it_tmpValue = None, it_keyPtr = keyPtr\<rparr>)"

definition info_iterator :: "info \<Rightarrow> info_error + infoIterator" where
  "info_iterator i =
     (case in_keyBuffer i of None \<Rightarrow> Inl InfoBadAccess | Some buf \<Rightarrow> infoIterator_new buf (in_size i))"

definition ro_iterator :: "readOnlyInfo \<Rightarrow> info_error + infoIterator" where
  "ro_iterator r = infoIterator_new (ro_keyBuffer r) (ro_size r)"

text \<open>The keys and values that a loop \<open>for (it; it; ++it)\<close> sees.\<close>

lemma parseInfo_progress:
  "parseInfo it = Inr it' \<Longrightarrow>
   it_endBuffer it' = it_endBuffer it \<and> it_keyPtr it \<le> it_keyPtr it' \<and>
   (it_tmpKey it' \<noteq> None \<longrightarrow> it_keyPtr it < it_endBuffer it \<and> it_keyPtr it < it_keyPtr it')"
proof (cases "isLast it")
  case False
  assume "parseInfo it = Inr it'"
  then obtain e1 e2 where e: "word_end_n (it_keyBuffer it) (it_endBuffer it) (it_keyPtr it) = Inr e1"
    "word_end_n (it_keyBuffer it) (it_endBuffer it) (if e1 < it_endBuffer it then e1 + 1 else e1) = Inr e2"
    "it_endBuffer it' = it_endBuffer it" "it_keyPtr it' = (if e2 < it_endBuffer it then e2 + 1 else e2)"
    using False by (auto simp: parseInfo_def Let_def)
  show ?thesis using word_end_n_ge [OF e(1)] word_end_n_ge [OF e(2)] e(3,4) False
    by (simp add: isLast_def split: if_splits)
qed (auto simp: parseInfo_def)

definition iterator_left :: "infoIterator \<Rightarrow> nat" where
  "iterator_left it = 2 * (it_endBuffer it - it_keyPtr it) + (if it_tmpKey it = None then 0 else 1)"

lemma parseInfo_less:
  "parseInfo it = Inr it' \<Longrightarrow> Some k = it_tmpKey it \<Longrightarrow> iterator_left it' < iterator_left it"
  using parseInfo_progress [of it it'] by (auto simp: iterator_left_def)

function info_pairs :: "infoIterator \<Rightarrow> info_error + (byte list \<times> byte list) list" where
  "info_pairs it =
     (case (it_tmpKey it, it_tmpValue it) of
        (Some k, Some v) \<Rightarrow>
          rbind (parseInfo it) (\<lambda>it'. rbind (info_pairs it') (\<lambda>ps. Inr ((c_chars k, c_chars v) # ps)))
      | _ \<Rightarrow> Inr [])"
  by auto
termination by (relation "measure iterator_left") (auto intro: parseInfo_less)

declare info_pairs.simps [simp del]

section \<open>JSON\<close>

record json_style =
  js_scopeBegin :: "byte list"
  js_scopeEnd :: "byte list"
  js_objectBegin :: "byte list"
  js_objectEndLine :: "byte list"
  js_lastObjectEndLine :: "byte list"
  js_objectBeginValue :: "byte list"

definition JsonStyleBeautifier :: json_style where
  "JsonStyleBeautifier =
     \<lparr>js_scopeBegin = [10], js_scopeEnd = [10], js_objectBegin = [32, 32], js_objectEndLine = [10],
      js_lastObjectEndLine = [], js_objectBeginValue = [32]\<rparr>"

definition JsonStyleCompressed :: json_style where
  "JsonStyleCompressed =
     \<lparr>js_scopeBegin = [], js_scopeEnd = [], js_objectBegin = [], js_objectEndLine = [],
      js_lastObjectEndLine = [], js_objectBeginValue = []\<rparr>"

function json_loop :: "json_style \<Rightarrow> infoIterator \<Rightarrow> byte list \<Rightarrow> info_error + byte list" where
  "json_loop style it json =
     (case (it_tmpKey it, it_tmpValue it) of
        (Some k, Some v) \<Rightarrow>
          rbind (parseInfo it) (\<lambda>it'.
            json_loop style it' (json @ js_objectBegin style @ [QUOTE] @ c_chars k @ [QUOTE] @ [58] @ js_objectBeginValue style @
              [QUOTE] @ c_chars v @ [QUOTE] @
              (if \<not> isLast it then TOKENCOMMA # js_objectEndLine style else js_lastObjectEndLine style)))
      | _ \<Rightarrow> Inr json)"
  by auto
termination
proof (relation "measure (\<lambda>(style, it, json). iterator_left it)", goal_cases)
  case (2 style it json x y k v it')
  then show ?case using parseInfo_less [of it it' k] by simp
qed simp

declare json_loop.simps [simp del]

definition toJson :: "json_style \<Rightarrow> byte list \<Rightarrow> nat \<Rightarrow> info_error + byte list" where
  "toJson style infoString len =
     rbind (infoIterator_new infoString len) (\<lambda>it.
     rbind (json_loop style it ([123] @ js_scopeBegin style)) (\<lambda>json.
       Inr (json @ js_scopeEnd style @ [125])))"

section \<open>The string is a list of pairs\<close>

definition word_ok :: "byte list \<Rightarrow> bool" where
  "word_ok w \<longleftrightarrow> 0 \<notin> set w \<and> BACKSLASH \<notin> set w"

fun info_text :: "(byte list \<times> byte list) list \<Rightarrow> byte list" where
  "info_text [] = []"
| "info_text ((k, v) # kvs) = BACKSLASH # k @ BACKSLASH # v @ info_text kvs"

definition pairs_ok :: "(byte list \<times> byte list) list \<Rightarrow> bool" where
  "pairs_ok kvs \<longleftrightarrow> distinct (map fst kvs) \<and> (\<forall>(k, v)\<in>set kvs. k \<noteq> [] \<and> word_ok k \<and> word_ok v)"

lemma info_text_append: "info_text (kvs @ kvs') = info_text kvs @ info_text kvs'"
  by (induction kvs rule: info_text.induct) simp_all

lemma BACKSLASH_neq_0 [simp]: "BACKSLASH \<noteq> 0" "0 \<noteq> BACKSLASH"
  by (simp_all add: BACKSLASH_def)

lemma pairs_ok_Nil [simp]: "pairs_ok []"
  by (simp add: pairs_ok_def)

lemma pairs_ok_Cons [simp]:
  "pairs_ok ((k, v) # kvs) \<longleftrightarrow> k \<noteq> [] \<and> word_ok k \<and> word_ok v \<and> k \<notin> fst ` set kvs \<and> pairs_ok kvs"
  by (auto simp: pairs_ok_def)

text \<open>What follows a word: the terminator or a backslash.\<close>

lemma text_next: "\<exists>c post. info_text kvs @ 0 # z = c # post \<and> (c = 0 \<or> c = BACKSLASH)"
  by (cases kvs rule: info_text.cases) auto

lemma word_end_word:
  assumes "word_ok w" "c = 0 \<or> c = BACKSLASH"
  shows "word_end (pre @ w @ c # post) (length pre) = Inr (length pre + length w)"
  using assms(1)
proof (induction w arbitrary: pre)
  case Nil
  then show ?case using assms(2) by (subst word_end.simps) (auto simp: mem_at_def)
next
  case (Cons x w)
  from Cons.IH [of "pre @ [x]"] Cons.prems show ?case
    by (subst word_end.simps) (auto simp: mem_at_def word_ok_def)
qed

lemma word_end_next:
  assumes "word_ok w" "buf = pre @ w @ info_text kvs @ 0 # z" "n = length pre"
  shows "word_end buf n = Inr (n + length w)"
proof -
  obtain c post where "info_text kvs @ 0 # z = c # post" "c = 0 \<or> c = BACKSLASH" using text_next by blast
  with word_end_word [OF assms(1) this(2), of pre post] assms(2,3) show ?thesis by simp
qed

lemma not_sint_less: "\<not> sint a < sint b \<Longrightarrow> \<not> sint b < sint a \<Longrightarrow> a = b" for a b :: byte
  by (auto intro: signed_word_eqI)

lemma cmpn_0:
  "n \<le> length s1 \<Longrightarrow> 0 \<notin> set (take n s1) \<Longrightarrow> cmpn s1 s2 n = 0 \<longleftrightarrow> take n s1 = take n s2"
proof (induction n arbitrary: s1 s2)
  case (Suc n)
  then obtain a s where s1: "s1 = a # s" by (cases s1) auto
  from Suc.IH [of s "tl s2"] Suc.prems show ?case
    using not_sint_less [of a 0] by (cases s2) (auto simp: s1 at0_def dest: not_sint_less)
qed simp

lemma info_pair_text:
  assumes "word_ok k" "word_ok v" "buf = pre @ info_text ((k, v) # kvs) @ 0 # z" "n = length pre"
  shows "info_pair buf n BACKSLASH = Inr (n + 1, n + 1 + length k, n + 2 + length k + length v)"
proof -
  have "word_end buf (n + 1) = Inr (n + 1 + length k)"
    using word_end_word [OF assms(1), of BACKSLASH "pre @ [BACKSLASH]" "v @ info_text kvs @ 0 # z"] assms(3,4) by simp
  moreover have "word_end buf (n + 1 + length k + 1) = Inr (n + 1 + length k + 1 + length v)"
    using assms by (intro word_end_next [where pre = "pre @ BACKSLASH # k @ [BACKSLASH]"]) simp_all
  ultimately show ?thesis by (simp add: info_pair_def)
qed

definition drop_key :: "byte list \<Rightarrow> (byte list \<times> byte list) list \<Rightarrow> (byte list \<times> byte list) list" where
  "drop_key key kvs = filter (\<lambda>p. fst p \<noteq> key) kvs"

lemma drop_key_simps [simp]:
  "drop_key key [] = []" "drop_key key ((k, v) # kvs) = (if k = key then drop_key key kvs else (k, v) # drop_key key kvs)"
  by (simp_all add: drop_key_def)

lemma drop_key_id: "key \<notin> fst ` set kvs \<Longrightarrow> drop_key key kvs = kvs"
  by (auto simp: drop_key_def filter_id_conv)

lemma word_mid: "take (length w) (drop (length pre) (pre @ w @ post)) = w"
  by simp

lemma remove_loop_text:
  assumes "pairs_ok kvs" "buf = pre @ info_text kvs @ 0 # z" "n = length pre" "sz = n + length (info_text kvs) + 1"
  shows "\<exists>z'. remove_loop buf sz key (length key) n =
    Inr (pre @ info_text (drop_key key kvs) @ 0 # z', n + length (info_text (drop_key key kvs)) + 1) \<and>
    length (pre @ info_text (drop_key key kvs) @ 0 # z') = length buf"
  using assms
proof (induction kvs arbitrary: pre n rule: info_text.induct)
  case 1
  then show ?case by (subst remove_loop.simps) (auto simp: mem_at_def nth_append)
next
  case (2 k v kvs)
  let ?e = "n + 2 + length k + length v"
  have ok: "word_ok k" "word_ok v" "pairs_ok kvs" "k \<noteq> []" "k \<notin> fst ` set kvs" using 2(2) by auto
  have buf: "buf = (pre @ [BACKSLASH]) @ k @ BACKSLASH # v @ info_text kvs @ 0 # z" using 2(3) by simp
  have c: "mem_at buf n = Inr BACKSLASH" using 2(3,4) by (simp add: mem_at_def nth_append)
  have "take (length k) (drop (n + 1) buf) = k" using 2(4) by (simp add: buf)
  then have cmp: "cmpn (drop (n + 1) buf) key (length k) = 0 \<longleftrightarrow> take (length k) key = k"
    using ok(1) 2(4) by (subst cmpn_0) (auto simp: buf word_ok_def)
  have pair: "info_pair buf n BACKSLASH = Inr (n + 1, n + 1 + length k, ?e)"
    using info_pair_text [OF ok(1,2) 2(3,4)] by simp
  have len: "n + 1 + length k - (n + 1) = length k" by simp
  have same: "length key = length k \<and> take (length k) key = k \<longleftrightarrow> k = key" by auto
  have step: "remove_loop buf sz key (length key) n =
      (if k = key then
         if sz < ?e then Inl InfoBadAccess
         else Inr (blit buf n (take (sz - ?e) (drop ?e buf)), sz - (?e - n))
       else remove_loop buf sz key (length key) ?e)"
    using pair len same by (subst remove_loop.simps) (simp add: c cmp del: add_Suc_right One_nat_def)
  show ?case
  proof (cases "k = key")
    case True
    have "drop ?e buf = info_text kvs @ 0 # z" using 2(4) by (simp add: buf)
    moreover have "sz - ?e = length (info_text kvs) + 1" using 2(5) by simp
    ultimately have t: "take (sz - ?e) (drop ?e buf) = info_text kvs @ [0]" by simp
    define z' where "z' = drop (length (info_text kvs) + 1) (drop n buf)"
    have bl: "blit buf n (info_text kvs @ [0]) = pre @ info_text kvs @ 0 # z'"
      using 2(3,4) by (simp add: blit_append z'_def)
    have "\<not> sz < ?e" "sz - (?e - n) = n + length (info_text kvs) + 1" using 2(5) by simp_all
    then have "remove_loop buf sz key (length key) n = Inr (pre @ info_text kvs @ 0 # z', n + length (info_text kvs) + 1)"
      unfolding step t bl using True by (simp only: if_True if_False simp_thms)
    moreover have "length (pre @ info_text kvs @ 0 # z') = length buf" by (simp add: z'_def buf 2(4))
    moreover have "drop_key key ((k, v) # kvs) = kvs" using True ok(5) by (simp add: drop_key_id)
    ultimately show ?thesis by (intro exI [of _ z']) (simp only: simp_thms)
  next
    case False
    have "\<exists>z'. remove_loop buf sz key (length key) ?e =
      Inr ((pre @ BACKSLASH # k @ BACKSLASH # v) @ info_text (drop_key key kvs) @ 0 # z', ?e + length (info_text (drop_key key kvs)) + 1) \<and>
      length ((pre @ BACKSLASH # k @ BACKSLASH # v) @ info_text (drop_key key kvs) @ 0 # z') = length buf"
      using 2(3-5) ok(3) by (intro 2(1)) simp_all
    then show ?thesis using False by (auto simp: step)
  qed
qed

lemma value_loop_text:
  assumes "\<forall>(k, v)\<in>set kvs. k \<noteq> [] \<and> word_ok k \<and> word_ok v" "buf = pre @ info_text kvs @ 0 # z" "n = length pre"
  shows "value_loop buf key n =
    Inr (case find (\<lambda>p. fst p = take (length (fst p)) key) kvs of None \<Rightarrow> [] | Some p \<Rightarrow> snd p)"
  using assms
proof (induction kvs arbitrary: pre n rule: info_text.induct)
  case 1
  then show ?case by (subst value_loop.simps) (auto simp: mem_at_def nth_append)
next
  case (2 k v kvs)
  let ?e = "n + 2 + length k + length v"
  have ok: "word_ok k" "word_ok v" using 2(2) by auto
  have buf: "buf = (pre @ [BACKSLASH]) @ k @ BACKSLASH # v @ info_text kvs @ 0 # z" using 2(3) by simp
  have c: "mem_at buf n = Inr BACKSLASH" using 2(3,4) by (simp add: mem_at_def nth_append)
  have "take (length k) (drop (n + 1) buf) = k" using 2(4) by (simp add: buf)
  then have cmp: "cmpn (drop (n + 1) buf) key (length k) = 0 \<longleftrightarrow> take (length k) key = k"
    using ok(1) 2(4) by (subst cmpn_0) (auto simp: buf word_ok_def)
  have pair: "info_pair buf n BACKSLASH = Inr (n + 1, n + 1 + length k, ?e)"
    using info_pair_text [OF ok 2(3,4)] by simp
  have len: "?e - (n + 1 + length k + 1) = length v" by simp
  have step: "value_loop buf key n =
      (if k = take (length k) key then Inr (take (length v) (drop (n + 2 + length k) buf)) else value_loop buf key ?e)"
    using pair cmp len by (subst value_loop.simps) (simp add: c add.commute add.left_commute)
  show ?case
  proof (cases "k = take (length k) key")
    case True
    have "take (length v) (drop (n + 2 + length k) buf) = v" using 2(4) by (simp add: buf)
    then show ?thesis using True by (simp add: step)
  next
    case False
    have "value_loop buf key ?e = Inr (case find (\<lambda>p. fst p = take (length (fst p)) key) kvs of None \<Rightarrow> [] | Some p \<Rightarrow> snd p)"
      using 2(2-4) by (intro 2(1) [of "pre @ BACKSLASH # k @ BACKSLASH # v"]) simp_all
    then show ?thesis using False by (simp add: step)
  qed
qed

subsection \<open>Scanning up to the end of the buffer\<close>

lemma word_end_n_sep:
  assumes "BACKSLASH \<notin> set w" "buf = pre @ w @ BACKSLASH # post" "n = length pre" "n + length w < endBuf"
  shows "word_end_n buf endBuf n = Inr (n + length w)"
  using assms
proof (induction w arbitrary: pre n)
  case Nil
  then show ?case by (subst word_end_n.simps) (simp add: mem_at_def)
next
  case (Cons x w)
  then have "word_end_n buf endBuf (n + 1) = Inr (n + 1 + length w)" by (intro Cons.IH [of "pre @ [x]"]) simp_all
  with Cons.prems show ?case by (subst word_end_n.simps) (auto simp: mem_at_def nth_append)
qed

lemma word_end_n_end:
  assumes "BACKSLASH \<notin> set w" "buf = pre @ w @ post" "n = length pre" "endBuf = n + length w"
  shows "word_end_n buf endBuf n = Inr endBuf"
  using assms
proof (induction w arbitrary: pre n)
  case Nil
  then show ?case by (subst word_end_n.simps) simp
next
  case (Cons x w)
  then have "word_end_n buf endBuf (n + 1) = Inr endBuf" by (intro Cons.IH [of "pre @ [x]"]) simp_all
  with Cons.prems show ?case by (subst word_end_n.simps) (auto simp: mem_at_def nth_append)
qed

lemma word_end_n_over: "endBuf \<le> n \<Longrightarrow> word_end_n buf endBuf n = Inr n"
  by (subst word_end_n.simps) simp

text \<open>The end of a value: the next pair, or the end of the buffer after the terminator.\<close>

definition value_len :: "byte list \<Rightarrow> (byte list \<times> byte list) list \<Rightarrow> nat" where
  "value_len v kvs = length v + (if kvs = [] then 1 else 0)"

lemma word_end_n_value:
  assumes "word_ok v" "buf = pre @ v @ info_text kvs @ 0 # z" "n = length pre" "endBuf = n + length v + length (info_text kvs) + 1"
  shows "word_end_n buf endBuf n = Inr (n + value_len v kvs)"
proof (cases kvs rule: info_text.cases)
  case 1
  then have "word_end_n buf endBuf n = Inr endBuf" using assms
    by (intro word_end_n_end [where w = "v @ [0]"]) (simp_all add: word_ok_def BACKSLASH_def)
  then show ?thesis using 1 assms(4) by (simp add: value_len_def)
next
  case (2 k' v' kvs')
  then have "word_end_n buf endBuf n = Inr (n + length v)" using assms
    by (intro word_end_n_sep) (simp_all add: word_ok_def)
  then show ?thesis using 2 by (simp add: value_len_def)
qed

lemma take_value:
  assumes "word_ok v"
  shows "take (value_len v kvs) (c_chars (v @ info_text kvs @ 0 # z)) = v"
  using assms by (cases "kvs = []") (auto simp: value_len_def c_chars_def word_ok_def takeWhile_append takeWhile_eq_all_conv)

lemma skip_seps_one:
  "\<lbrakk>mem_at buf n = Inr BACKSLASH; mem_at buf (n + 1) = Inr c; c \<noteq> BACKSLASH\<rbrakk> \<Longrightarrow> skip_seps buf n = Inr (n + 1)"
  by (subst skip_seps.simps, simp, subst skip_seps.simps, simp)

lemma ro_loop_text:
  assumes "\<forall>(k, v)\<in>set kvs. k \<noteq> [] \<and> word_ok k \<and> word_ok v" "buf = pre @ info_text kvs @ 0 # z" "n = length pre"
    and "endBuf = n + length (info_text kvs) + 1" "word_ok key" "kvs \<noteq> []"
  shows "\<exists>s l. ro_loop buf endBuf key n = Inr (s, l) \<and>
    (if l \<noteq> 0 then take l (c_chars s) else []) = (case map_of kvs key of None \<Rightarrow> [] | Some v \<Rightarrow> v)"
  using assms
proof (induction kvs arbitrary: pre n rule: info_text.induct)
  case (2 k v kvs)
  let ?vs = "n + 2 + length k"
  have ok: "word_ok k" "word_ok v" "k \<noteq> []" using 2(2) by auto
  have buf: "buf = (pre @ [BACKSLASH]) @ k @ BACKSLASH # v @ info_text kvs @ 0 # z" using 2(3) by simp
  have c: "mem_at buf n = Inr BACKSLASH" using 2(3,4) by (simp add: mem_at_def nth_append)
  have c1: "mem_at buf (n + 1) = Inr (hd k)" "hd k \<noteq> BACKSLASH"
    using 2(4) ok(1,3) by (cases k; auto simp: buf mem_at_def nth_append word_ok_def)+
  have sk: "skip_seps buf n = Inr (n + 1)" by (rule skip_seps_one [OF c c1])
  have lt: "n < endBuf" using 2(5) by simp
  have ek: "word_end_n buf endBuf (n + 1) = Inr (n + 1 + length k)"
    using ok(1) 2(4,5) by (intro word_end_n_sep [OF _ buf]) (simp_all add: word_ok_def)
  have ev: "word_end_n buf endBuf (n + 1 + length k + 1) = Inr (?vs + value_len v kvs)"
    using word_end_n_value [OF ok(2), of buf "pre @ BACKSLASH # k @ [BACKSLASH]" kvs z ?vs endBuf] 2(4,5)
    by (simp add: buf add.commute add.left_commute)
  have "take (length k) (drop (n + 1) buf) = k" using 2(4) by (simp add: buf)
  then have cmp: "cmpn (drop (n + 1) buf) key (length k) = 0 \<longleftrightarrow> take (length k) key = k"
    using ok(1) 2(4) by (subst cmpn_0) (auto simp: buf word_ok_def)
  have dr: "drop (n + 1 + length k + 1) buf = v @ info_text kvs @ 0 # z" using 2(4) by (simp add: buf)
  have step: "ro_loop buf endBuf key n =
      (if k = key then Inr (drop (n + 1 + length k + 1) buf, value_len v kvs) else ro_loop buf endBuf key (?vs + value_len v kvs))"
    using ok(3) lt cmp by (subst ro_loop.simps) (auto simp: sk ek ev Let_def simp del: add_Suc_right One_nat_def)
  show ?case
  proof (cases "k = key")
    case True
    then show ?thesis using take_value [OF ok(2), of kvs z] dr by (auto simp: step simp del: add_Suc_right One_nat_def)
  next
    case False
    show ?thesis
    proof (cases "kvs = []")
      case True
      then have "ro_loop buf endBuf key (?vs + value_len v kvs) = Inr ([0], 0)"
        using 2(5) by (subst ro_loop.simps) (simp add: value_len_def)
      then show ?thesis using False True by (simp add: step)
    next
      case ne: False
      have "\<exists>s l. ro_loop buf endBuf key (?vs + value_len v kvs) = Inr (s, l) \<and>
        (if l \<noteq> 0 then take l (c_chars s) else []) = (case map_of kvs key of None \<Rightarrow> [] | Some v \<Rightarrow> v)"
        using 2(2-6) ne by (intro 2(1) [of "pre @ BACKSLASH # k @ BACKSLASH # v"]) (simp_all add: value_len_def)
      then show ?thesis using False by (simp add: step)
    qed
  qed
qed simp

subsection \<open>The iterator over the pairs\<close>

definition at_pairs :: "(byte list \<times> byte list) list \<Rightarrow> infoIterator \<Rightarrow> bool" where
  "at_pairs kvs it \<longleftrightarrow>
     (if kvs = [] then it_keyPtr it = it_endBuffer it
      else \<exists>pre z. it_keyBuffer it = pre @ tl (info_text kvs) @ 0 # z \<and> it_keyPtr it = length pre \<and>
        it_endBuffer it = length pre + length (tl (info_text kvs)) + 1)"

lemma parseInfo_Nil: "at_pairs [] it \<Longrightarrow> parseInfo it = Inr (it\<lparr>it_tmpKey := None, it_tmpValue := None\<rparr>)"
  by (simp add: at_pairs_def parseInfo_def isLast_def)

lemma parseInfo_Cons:
  assumes "at_pairs ((k, v) # kvs) it" "word_ok k" "word_ok v"
  shows "\<exists>it' tk tv. parseInfo it = Inr it' \<and> at_pairs kvs it' \<and> it_tmpKey it' = Some tk \<and> it_tmpValue it' = Some tv \<and>
    c_chars tk = k \<and> c_chars tv = v"
proof -
  obtain pre z where buf: "it_keyBuffer it = pre @ k @ BACKSLASH # v @ info_text kvs @ 0 # z"
    and n: "it_keyPtr it = length pre"
    and e: "it_endBuffer it = length pre + length k + 1 + length v + length (info_text kvs) + 1"
    using assms(1) by (auto simp: at_pairs_def)
  let ?n = "length pre" and ?buf = "it_keyBuffer it" and ?e = "it_endBuffer it"
  have 1: "word_end_n ?buf ?e ?n = Inr (?n + length k)"
    using assms(2) e by (intro word_end_n_sep [OF _ buf]) (simp_all add: word_ok_def)
  have 2: "word_end_n ?buf ?e (?n + length k + 1) = Inr (?n + length k + 1 + value_len v kvs)"
    using e buf by (intro word_end_n_value [OF assms(3), where pre = "pre @ k @ [BACKSLASH]"]) simp_all
  have t: "take (length k) (drop ?n ?buf) = k" by (simp add: buf)
  have tv: "take (value_len v kvs) (drop (?n + length k + 1) ?buf) = v @ (if kvs = [] then [0] else [])"
    by (simp add: buf value_len_def)
  define it' where "it' = it\<lparr>it_keyPtr := (if ?n + length k + 1 + value_len v kvs < ?e then ?n + length k + 1 + value_len v kvs + 1
      else ?n + length k + 1 + value_len v kvs), it_tmpKey := Some (k @ [0]),
      it_tmpValue := Some ((v @ (if kvs = [] then [0] else [])) @ [0])\<rparr>"
  have lt: "?n < ?e" "?n + length k < ?e" using e by simp_all
  have p: "parseInfo it = Inr it'"
    using lt 1 2 t tv by (simp add: parseInfo_def isLast_def n Let_def it'_def del: add_Suc_right One_nat_def)
  have at: "at_pairs kvs it'"
  proof (cases kvs rule: info_text.cases)
    case 1
    then show ?thesis using e by (simp add: at_pairs_def it'_def value_len_def)
  next
    case (2 k' v' kvs')
    then show ?thesis using e buf
      unfolding at_pairs_def
      by (simp, intro exI [of _ "pre @ k @ BACKSLASH # v @ [BACKSLASH]"] exI [of _ z]) (simp add: it'_def value_len_def)
  qed
  have "c_chars (k @ [0]) = k" "c_chars ((v @ (if kvs = [] then [0] else [])) @ [0]) = v"
    using assms(2,3) by (auto simp: c_chars_def word_ok_def takeWhile_append)
  with p at show ?thesis by (intro exI [of _ it'] exI) (auto simp: it'_def)
qed

lemma info_pairs_text:
  assumes "\<forall>(k, v)\<in>set kvs. word_ok k \<and> word_ok v" "at_pairs kvs it" "parseInfo it = Inr it'"
  shows "info_pairs it' = Inr kvs"
  using assms
proof (induction kvs arbitrary: it it')
  case Nil
  then show ?case by (subst info_pairs.simps) (auto simp: parseInfo_Nil)
next
  case (Cons p kvs)
  obtain k v where p: "p = (k, v)" by force
  obtain tk tv where it': "at_pairs kvs it'" "it_tmpKey it' = Some tk" "it_tmpValue it' = Some tv" "c_chars tk = k" "c_chars tv = v"
    using parseInfo_Cons [of k v kvs it] Cons.prems by (auto simp: p)
  obtain it2 where it2: "parseInfo it' = Inr it2"
  proof (cases kvs)
    case Nil
    then show ?thesis using it'(1) that parseInfo_Nil by blast
  next
    case (Cons q kvs')
    then show ?thesis using parseInfo_Cons [of "fst q" "snd q" kvs' it'] it'(1) Cons.prems that by (cases q) auto
  qed
  have "info_pairs it2 = Inr kvs" using Cons.prems(1) it'(1) it2 by (intro Cons.IH [of it']) auto
  then show ?case using it' it2 by (subst info_pairs.simps) (simp add: p)
qed

section \<open>An info string implements the list of its pairs\<close>

datatype info_op = InfoSet "byte list" "byte list" | InfoRemove "byte list"

fun info_step :: "info_op \<Rightarrow> info \<Rightarrow> info_error + info" where
  "info_step (InfoSet k v) i = SetValueForKey k v i"
| "info_step (InfoRemove k) i = RemoveKey k i"

fun info_run :: "info_op list \<Rightarrow> info \<Rightarrow> info_error + info" where
  "info_run [] i = Inr i"
| "info_run (op # ops) i = rbind (info_step op i) (info_run ops)"

fun op_ok :: "info_op \<Rightarrow> bool" where
  "op_ok (InfoSet k v) \<longleftrightarrow> word_ok k \<and> word_ok v"
| "op_ok (InfoRemove k) \<longleftrightarrow> word_ok k"

fun pairs_step :: "info_op \<Rightarrow> (byte list \<times> byte list) list \<Rightarrow> (byte list \<times> byte list) list" where
  "pairs_step (InfoSet k v) kvs = (if k = [] then kvs else drop_key k kvs @ [(k, v)])"
| "pairs_step (InfoRemove k) kvs = drop_key k kvs"

definition info_holds :: "(byte list \<times> byte list) list \<Rightarrow> info \<Rightarrow> bool" where
  "info_holds kvs i \<longleftrightarrow> pairs_ok kvs \<and>
     (case in_keyBuffer i of
        None \<Rightarrow> kvs = [] \<and> in_size i = 0 \<and> in_alloced i = 0
      | Some buf \<Rightarrow> (\<exists>z. buf = info_text kvs @ 0 # z) \<and> in_size i = length (info_text kvs) + 1 \<and> in_alloced i = length buf)"

lemma info_holds_new: "info_holds [] info_new"
  by (simp add: info_holds_def info_new_def pairs_ok_def)

lemma pairs_ok_drop: "pairs_ok kvs \<Longrightarrow> pairs_ok (drop_key k kvs)"
  by (induction kvs rule: info_text.induct) (auto simp: drop_key_def)

lemma pairs_ok_add: "pairs_ok kvs \<Longrightarrow> k \<noteq> [] \<Longrightarrow> word_ok k \<Longrightarrow> word_ok v \<Longrightarrow> pairs_ok (drop_key k kvs @ [(k, v)])"
  by (induction kvs rule: info_text.induct) (auto simp: drop_key_def pairs_ok_def)

lemma RemoveKey_holds:
  assumes "info_holds kvs i" "word_ok k"
  shows "\<exists>i'. RemoveKey_len k (length k) i = Inr i' \<and> info_holds (drop_key k kvs) i'"
proof (cases "in_keyBuffer i")
  case None
  then show ?thesis using assms(1) by (simp add: RemoveKey_len_def info_holds_def)
next
  case (Some buf)
  then obtain z where buf: "buf = info_text kvs @ 0 # z" and i: "pairs_ok kvs" "in_size i = length (info_text kvs) + 1"
      "in_alloced i = length buf"
    using assms(1) by (auto simp: info_holds_def)
  obtain z' where "remove_loop buf (in_size i) k (length k) 0 =
      Inr (info_text (drop_key k kvs) @ 0 # z', length (info_text (drop_key k kvs)) + 1)"
    "length (info_text (drop_key k kvs) @ 0 # z') = length buf"
    using remove_loop_text [OF i(1), of buf "[]" z 0 "in_size i" k] buf i(2) by auto
  then show ?thesis using Some assms(2) i pairs_ok_drop
    by (auto simp: RemoveKey_len_def info_holds_def word_ok_def)
qed

lemma grow_holds:
  assumes "info_holds kvs i" "length (info_text kvs) < newsz"
  shows "\<exists>buf. in_keyBuffer (grow_info newsz i) = Some buf \<and> in_alloced (grow_info newsz i) = length buf \<and>
    newsz \<le> length buf \<and> take (length (info_text kvs)) buf = info_text kvs"
proof (cases "in_keyBuffer i")
  case None
  then show ?thesis using assms by (simp add: grow_info_def info_holds_def Let_def)
next
  case (Some buf)
  then obtain z where buf: "buf = info_text kvs @ 0 # z" "in_size i = length (info_text kvs) + 1" "in_alloced i = length buf"
    using assms(1) by (auto simp: info_holds_def)
  show ?thesis
  proof (cases "newsz > in_alloced i")
    case True
    then show ?thesis using assms(2) by (simp add: grow_info_def Let_def Some buf(1,2) blit_def)
  next
    case False
    then show ?thesis using buf by (simp add: grow_info_def Some)
  qed
qed

lemma SetValueForKey_holds:
  assumes "info_holds kvs i" "k \<noteq> []" "word_ok k" "word_ok v"
  shows "\<exists>i'. SetValueForKey k v i = Inr i' \<and> info_holds (drop_key k kvs @ [(k, v)]) i'"
proof -
  obtain i1 where i1: "RemoveKey_len k (length k) i = Inr i1" "info_holds (drop_key k kvs) i1"
    using RemoveKey_holds [OF assms(1,3)] by auto
  define kvs1 where "kvs1 = drop_key k kvs"
  define tail where "tail = BACKSLASH # k @ BACKSLASH # v @ [0]"
  have enc: "info_text (kvs1 @ [(k, v)]) @ [0] = info_text kvs1 @ tail" by (simp add: info_text_append tail_def)
  then have sz: "length (info_text (kvs1 @ [(k, v)])) + 1 = length (info_text kvs1) + length tail"
    by (simp add: info_text_append tail_def)
  have ok: "pairs_ok (kvs1 @ [(k, v)])"
    using assms(1-4) pairs_ok_add by (auto simp: kvs1_def info_holds_def)
  let ?n = "length (info_text kvs1)"
  let ?newsz = "?n + length tail"
  let ?i2 = "grow_info ?newsz i1"
  have n: "in_size i1 = 0 \<and> ?n = 0 \<or> in_size i1 = ?n + 1"
    using i1(2) by (auto simp: info_holds_def kvs1_def split: option.splits)
  obtain buf where b: "in_keyBuffer ?i2 = Some buf" "in_alloced ?i2 = length buf" "?newsz \<le> length buf" "take ?n buf = info_text kvs1"
    using grow_holds [OF i1(2), of ?newsz] by (auto simp: kvs1_def tail_def)
  have "SetValueForKey k v i = Inr (?i2\<lparr>in_keyBuffer := Some (blit buf ?n tail), in_size := ?newsz\<rparr>)"
    using n assms(2) b(1) by (elim disjE) (simp_all add: SetValueForKey_def i1(1) Let_def tail_def add.assoc)
  moreover have "blit buf ?n tail = info_text (kvs1 @ [(k, v)]) @ 0 # drop ?newsz buf"
    using enc b(4) by (simp add: blit_def)
  moreover have "length (blit buf ?n tail) = length buf" using b(3) by simp
  ultimately show ?thesis using ok b(2) sz by (simp add: info_holds_def kvs1_def [symmetric])
qed

lemma info_run_holds:
  assumes "info_holds kvs i" "\<forall>op\<in>set ops. op_ok op"
  shows "\<exists>i'. info_run ops i = Inr i' \<and> info_holds (fold pairs_step ops kvs) i'"
  using assms
proof (induction ops arbitrary: kvs i)
  case (Cons op ops)
  have "\<exists>i1. info_step op i = Inr i1 \<and> info_holds (pairs_step op kvs) i1"
  proof (cases op)
    case (InfoSet k v)
    show ?thesis
    proof (cases "k = []")
      case True
      then show ?thesis using Cons.prems(1) InfoSet by (simp add: SetValueForKey_def)
    next
      case False
      then show ?thesis using SetValueForKey_holds [OF Cons.prems(1) False] Cons.prems(2) InfoSet by simp
    qed
  next
    case (InfoRemove k)
    then show ?thesis using RemoveKey_holds [OF Cons.prems(1)] Cons.prems(2) by (simp add: RemoveKey_def)
  qed
  then show ?case using Cons.IH Cons.prems(2) by fastforce
qed simp

text \<open>C9: After any sequence of values set and keys removed, of words without backslashes and zeros, that leaves at
  least one pair, an info string is well formed: its iterator gives the pairs of a list in which a value
  set replaces the pair of its key and goes to the end, a value set for the empty key changes nothing, and
  a key removed drops its pair; and \<open>ReadOnlyInfo\<close> over the string gives the value of every key of the
  list and an empty string for any other word. (Without a pair left the iterator gives one pair of empty
  words or, before anything was set, reads through a null pointer.)\<close>

theorem info_refines_pairs:
  assumes "\<forall>op\<in>set ops. op_ok op" "kvs = fold pairs_step ops []" "kvs \<noteq> []"
  shows "\<exists>i buf it. info_run ops info_new = Inr i \<and> in_keyBuffer i = Some buf \<and>
    info_iterator i = Inr it \<and> info_pairs it = Inr kvs \<and>
    (\<forall>k. word_ok k \<longrightarrow> ro_ValueForKey k (readOnlyInfo_new buf 0) = Inr (case map_of kvs k of None \<Rightarrow> [] | Some v \<Rightarrow> v))"
proof -
  obtain i where i: "info_run ops info_new = Inr i" "info_holds kvs i"
    using info_run_holds [OF info_holds_new assms(1)] assms(2) by auto
  then obtain buf z where buf: "in_keyBuffer i = Some buf" "buf = info_text kvs @ 0 # z" "in_size i = length (info_text kvs) + 1"
      and ok: "pairs_ok kvs"
    using assms(3) by (auto simp: info_holds_def split: option.splits)
  obtain k v r where kvs: "kvs = (k, v) # r" using assms(3) by (cases kvs) auto
  have "mem_at buf 0 = Inr BACKSLASH" "mem_at buf (0 + 1) = Inr (hd k)" "hd k \<noteq> BACKSLASH"
    using ok by (cases k; auto simp: buf(2) kvs mem_at_def word_ok_def)+
  then have sk: "skip_seps buf 0 = Inr 1" using skip_seps_one by fastforce
  define it0 where "it0 = \<lparr>it_keyBuffer = buf, it_endBuffer = in_size i, it_tmpKey = None, it_tmpValue = None, it_keyPtr = 1\<rparr>"
  have at: "at_pairs kvs it0"
    unfolding at_pairs_def using assms(3)
    by (simp, intro exI [of _ "[BACKSLASH]"] exI [of _ z]) (simp add: it0_def buf(2,3) kvs)
  obtain it where it: "parseInfo it0 = Inr it" using parseInfo_Cons [of k v r it0] at ok by (auto simp: kvs)
  have "info_iterator i = Inr it" using it by (simp add: info_iterator_def buf(1) infoIterator_new_def sk it0_def)
  moreover have "info_pairs it = Inr kvs"
    using ok by (intro info_pairs_text [OF _ at it]) (auto simp: pairs_ok_def)
  moreover have "ro_ValueForKey k (readOnlyInfo_new buf 0) = Inr (case map_of kvs k of None \<Rightarrow> [] | Some v \<Rightarrow> v)"
    if "word_ok k" for k
  proof -
    have "c_chars buf = info_text kvs"
    proof -
      have "0 \<notin> set (info_text kvs)" using ok
        by (induction kvs rule: info_text.induct) (auto simp: word_ok_def BACKSLASH_def)
      then show ?thesis by (auto simp: buf(2) c_chars_def takeWhile_append takeWhile_eq_all_conv)
    qed
    moreover have "at0 buf \<noteq> 0" by (simp add: buf(2) kvs at0_def BACKSLASH_def)
    ultimately show ?thesis
      using ro_loop_text [of kvs buf "[]" z 0 "length (info_text kvs) + 1" k] ok that assms(3)
      by (auto simp: ro_ValueForKey_def ro_ValueForKey_len_def readOnlyInfo_new_def buf(2) pairs_ok_def)
  qed
  ultimately show ?thesis using i(1) buf(1) by blast
qed

theorem info_refines_pairs_witness:
  "\<exists>i. info_run [InfoSet [97] [49], InfoSet [98] [50], InfoSet [97] [51]] info_new = Inr i \<and>
     in_keyBuffer i = Some [92, 98, 92, 50, 92, 97, 92, 51, 0] \<and>
     (\<exists>it. info_iterator i = Inr it \<and> info_pairs it = Inr [([98], [50]), ([97], [51])])"
proof -
  have "\<forall>op\<in>set [InfoSet [97] [49], InfoSet [98] [50], InfoSet [97] [51]]. op_ok op" by code_simp
  from info_refines_pairs [OF this refl] obtain i buf it where
    "info_run [InfoSet [97] [49], InfoSet [98] [50], InfoSet [97] [51]] info_new = Inr i" "in_keyBuffer i = Some buf"
    "info_iterator i = Inr it" "info_pairs it = Inr [([98], [50]), ([97], [51])]"
    by (auto simp: drop_key_def)
  moreover have "map_sum id in_keyBuffer (info_run [InfoSet [97] [49], InfoSet [98] [50], InfoSet [97] [51]] info_new) =
      Inr (Some [92, 98, 92, 50, 92, 97, 92, 51, 0])" by code_simp
  ultimately show ?thesis by auto
qed

text \<open>C36: \<open>Info::ValueForKey\<close> compares only as many characters as the stored key has: it gives the value of
  the first stored key that is a prefix of the one asked for, also when a later pair has the very key.\<close>

theorem info_value_of_prefix:
  assumes "info_holds kvs i" "kvs \<noteq> []"
  shows "info_ValueForKey key i =
    Inr (case find (\<lambda>p. fst p = take (length (fst p)) key) kvs of None \<Rightarrow> [] | Some p \<Rightarrow> snd p)"
proof -
  obtain buf z where "in_keyBuffer i = Some buf" "buf = info_text kvs @ 0 # z"
    using assms by (auto simp: info_holds_def split: option.splits)
  then show ?thesis using value_loop_text [of kvs buf "[]" z 0 key] assms(1)
    by (simp add: info_ValueForKey_def info_holds_def pairs_ok_def)
qed

theorem info_value_of_prefix_witness:
  "info_ValueForKey [97, 98] \<lparr>in_keyBuffer = Some [92, 97, 92, 49, 92, 97, 98, 92, 50, 0], in_alloced = 10, in_size = 10\<rparr> = Inr [49]"
proof -
  have "info_holds [([97], [49]), ([97, 98], [50])]
      \<lparr>in_keyBuffer = Some [92, 97, 92, 49, 92, 97, 98, 92, 50, 0], in_alloced = 10, in_size = 10\<rparr>"
    by (simp add: info_holds_def pairs_ok_def word_ok_def BACKSLASH_def)
  from info_value_of_prefix [OF this, of "[97, 98]"] show ?thesis by simp
qed

text \<open>An info string whose last key was removed still gives one pair, with an empty key.\<close>

lemma emptied_info_has_pair:
  "rbind (info_run [InfoSet [97] [49], InfoRemove [97]] info_new) (\<lambda>i. rbind (info_iterator i) info_pairs) = Inr [([], [])]"
  by code_simp

end
