(* ===== verification/Download.thy ===== *)
theory Download
  imports Packets
begin

text \<open>
  Files from the server (\<open>Client/DownloadManager.cpp\<close>): they come in numbered blocks, each of which the
  client acknowledges with a command. The file name is quoted by \<open>EscapeString\<close> (\<open>Misc/Escape.h\<close>).

  A function returns its state also with an exception. The handlers get the events so far and tell if
  one of them interrupts the download.
\<close>

section \<open>Quoting\<close>

definition shouldEscape :: "byte \<Rightarrow> bool" where
  "shouldEscape c \<longleftrightarrow> c = 34"

fun EscapeStringLen :: "byte list \<Rightarrow> nat" where
  "EscapeStringLen [] = 0"
| "EscapeStringLen (c # s) = (if shouldEscape c then 2 else 1) + EscapeStringLen s"

text \<open>The loop runs over the length of the result, but its index is that of the source.\<close>

fun escape_loop :: "byte list \<Rightarrow> nat list \<Rightarrow> byte list \<Rightarrow> msg_error + byte list" where
  "escape_loop value [] newString = Inr newString"
| "escape_loop value (i # is) newString =
     (if i \<le> length value then
        let character = (value @ [0]) ! i in
        escape_loop value is (newString @ (if shouldEscape character then [92] else []) @ [character])
      else Inl BadBufferAccess)"

definition EscapeString :: "byte list \<Rightarrow> msg_error + byte list" where
  "EscapeString value = escape_loop value [0..<EscapeStringLen value] []"

lemma EscapeStringLen_quotes: "EscapeStringLen s = length s + length (filter shouldEscape s)"
  by (induction s) simp_all

lemma escape_loop_map:
  "\<forall>i\<in>set is. i \<le> length value \<Longrightarrow> escape_loop value is acc =
     Inr (acc @ concat (map (\<lambda>i. let c = (value @ [0]) ! i in (if shouldEscape c then [92] else []) @ [c]) is))"
  by (induction "is" arbitrary: acc) (simp_all add: Let_def)

lemma escape_loop_fails: "i \<in> set is \<Longrightarrow> length value < i \<Longrightarrow> \<exists>e. escape_loop value is acc = Inl e"
  by (induction "is" arbitrary: acc) (auto simp: Let_def)

lemma map_nth_prefix: "map (\<lambda>i. f ((value @ [c]) ! i)) [0..<length value] = map f value"
  by (rule nth_equalityI) (simp_all add: nth_append)

lemma EscapeString_plain:
  assumes "\<forall>c\<in>set s. \<not> shouldEscape c"
  shows "EscapeString s = Inr s"
proof -
  let ?f = "\<lambda>c. (if shouldEscape c then [92] else []) @ [c]"
  have len: "EscapeStringLen s = length s" using assms by (simp add: EscapeStringLen_quotes filter_False)
  have "concat (map ?f s) = s" using assms by (induction s) auto
  then show ?thesis
    using escape_loop_map [of "[0..<length s]" s "[]"] map_nth_prefix [of ?f s 0]
    by (simp add: EscapeString_def len Let_def)
qed

text \<open>A string with two quotes is read past its terminator.\<close>

lemma EscapeString_two_quotes:
  assumes "2 \<le> length (filter shouldEscape s)"
  shows "\<exists>e. EscapeString s = Inl e"
  using escape_loop_fails [of "length s + 1" "[0..<EscapeStringLen s]" s "[]"] assms
  by (simp add: EscapeString_def EscapeStringLen_quotes)

section \<open>The manager\<close>

definition MAX_DOWNLOAD_SIZE :: nat where "MAX_DOWNLOAD_SIZE = 49152"

definition startDownloadCommand :: "byte list" where
  "startDownloadCommand = [100, 111, 119, 110, 108, 111, 97, 100]"
definition nextDownloadCommand :: "byte list" where
  "nextDownloadCommand = [110, 101, 120, 116, 100, 108]"
definition stopdl :: "byte list" where "stopdl = [115, 116, 111, 112, 100, 108]"
definition donedl :: "byte list" where "donedl = [100, 111, 110, 101, 100, 108]"

fun to_string :: "nat \<Rightarrow> byte list" where
  "to_string n = (if n < 10 then [48 + of_nat n] else to_string (n div 10) @ [48 + of_nat (n mod 10)])"

declare to_string.simps [simp del]

datatype download_error =
    UnexpectedDownloadException
  | DownloadException StringMessage
  | DownloadSizeException u16
  | BadDownloadBlockException u16 u16
  | DownloadMsg msg_error

datatype download_event = StartDownload "byte list" | Receive "byte list"

record 'st downloads =
  dl_sequence :: "'st reliable"
  dl_downloadSize :: nat
  dl_downloadName :: "byte list"
  dl_downloadBlock :: u32
  dl_downloadRequested :: bool
  dl_events :: "download_event list"

definition downloads_new :: "'st reliable \<Rightarrow> 'st downloads" where
  "downloads_new sequence =
     \<lparr>dl_sequence = sequence, dl_downloadSize = 0, dl_downloadName = [], dl_downloadBlock = 0,
      dl_downloadRequested = False, dl_events = []\<rparr>"

text \<open>The functions of the manager: a result or an exception, and the state in both cases.\<close>

type_synonym ('st, 'a) dl = "'st downloads \<Rightarrow> (download_error + 'a) \<times> 'st downloads"

definition dl_bind :: "('st, 'a) dl \<Rightarrow> ('a \<Rightarrow> ('st, 'b) dl) \<Rightarrow> ('st, 'b) dl" where
  "dl_bind f g d = (case f d of (Inl e, d') \<Rightarrow> (Inl e, d') | (Inr x, d') \<Rightarrow> g x d')"

definition dl_return :: "'a \<Rightarrow> ('st, 'a) dl" where "dl_return x d = (Inr x, d)"

definition dl_throw :: "download_error \<Rightarrow> ('st, 'a) dl" where "dl_throw e d = (Inl e, d)"

definition dl_lift :: "msg_error + 'a \<Rightarrow> ('st, 'a) dl" where
  "dl_lift r d = (case r of Inl e \<Rightarrow> (Inl (DownloadMsg e), d) | Inr x \<Rightarrow> (Inr x, d))"

definition dl_update :: "('st downloads \<Rightarrow> 'st downloads) \<Rightarrow> ('st, unit) dl" where
  "dl_update f d = (Inr (), f d)"

definition dl_addCommand :: "'st sequence_ops \<Rightarrow> byte list \<Rightarrow> ('st, unit) dl" where
  "dl_addCommand vt command d =
     (case addCommand vt command (dl_sequence d) of
        Inl e \<Rightarrow> (Inl (DownloadMsg e), d)
      | Inr r \<Rightarrow> (Inr (), d\<lparr>dl_sequence := r\<rparr>))"

lemmas dl_simps = dl_bind_def dl_return_def dl_throw_def dl_lift_def dl_update_def dl_addCommand_def

definition clearDownload :: "('st, unit) dl" where
  "clearDownload = dl_update (\<lambda>d. d\<lparr>dl_downloadName := [], dl_downloadRequested := False\<rparr>)"

definition cancelDownload :: "'st sequence_ops \<Rightarrow> ('st, unit) dl" where
  "cancelDownload vt = dl_bind clearDownload (\<lambda>_. dl_addCommand vt stopdl)"

definition downloadsComplete :: "'st sequence_ops \<Rightarrow> ('st, unit) dl" where
  "downloadsComplete vt = dl_addCommand vt donedl"

definition setReliableSequence :: "'st reliable \<Rightarrow> ('st, unit) dl" where
  "setReliableSequence sequencePtr = dl_update (\<lambda>d. d\<lparr>dl_sequence := sequencePtr\<rparr>)"

record download_handlers =
  startDownloadHandler :: "download_event list \<Rightarrow> bool"
  receiveHandler :: "download_event list \<Rightarrow> bool"

definition dl_receive :: "download_handlers \<Rightarrow> byte list \<Rightarrow> ('st, bool) dl" where
  "dl_receive h data d =
     (let events = dl_events d @ [Receive data]
      in (Inr (\<not> receiveHandler h events), d\<lparr>dl_events := events\<rparr>))"

definition startDownload :: "'st sequence_ops \<Rightarrow> download_handlers \<Rightarrow> byte list \<Rightarrow> ('st, unit) dl" where
  "startDownload vt h downloadNameValue d =
     (let events = dl_events d @ [StartDownload downloadNameValue]; d1 = d\<lparr>dl_events := events\<rparr> in
      if startDownloadHandler h events then (Inr (), d1)
      else
        dl_bind (dl_lift (EscapeString downloadNameValue)) (\<lambda>escapedName.
        dl_bind (dl_addCommand vt (startDownloadCommand @ [34] @ escapedName @ [34])) (\<lambda>_.
        dl_update (\<lambda>d. d\<lparr>dl_downloadRequested := True, dl_downloadName := downloadNameValue\<rparr>))) d1)"

text \<open>Block zero starts with the size of the file.\<close>

definition first_block :: "'st sequence_ops \<Rightarrow> string_parser \<Rightarrow> u16 \<Rightarrow> msg \<Rightarrow> ('st, msg) dl" where
  "first_block vt stringParser block m =
     (if block \<noteq> 0 then dl_return m
      else
        dl_bind (dl_lift (ReadInteger m)) (\<lambda>(fileSize, m1).
          if fileSize = 0 \<or> fileSize = - 1 then
            dl_bind (cancelDownload vt) (\<lambda>_.
            dl_bind (dl_lift (readString stringParser m1)) (\<lambda>(reason, _). dl_throw (DownloadException reason)))
          else dl_bind (dl_update (\<lambda>d. d\<lparr>dl_downloadBlock := 0\<rparr>)) (\<lambda>_. dl_return m1)))"

definition take_block :: "'st sequence_ops \<Rightarrow> download_handlers \<Rightarrow> u16 \<Rightarrow> msg \<Rightarrow> ('st, msg) dl" where
  "take_block vt h sz m =
     dl_bind (dl_lift (ReadData (unat sz) m)) (\<lambda>(data, m1).
     dl_bind (dl_receive h data) (\<lambda>ok.
       if \<not> ok then dl_bind (cancelDownload vt) (\<lambda>_. dl_return m1)
       else
         (\<lambda>d. dl_bind (dl_addCommand vt (nextDownloadCommand @ to_string (unat (dl_downloadBlock d)))) (\<lambda>_.
          dl_bind (dl_update (\<lambda>d. d\<lparr>dl_downloadSize := dl_downloadSize d + unat sz,
                                  dl_downloadBlock := dl_downloadBlock d + 1\<rparr>)) (\<lambda>_. dl_return m1)) d)))"

definition processDownload ::
  "'st sequence_ops \<Rightarrow> string_parser \<Rightarrow> download_handlers \<Rightarrow> msg \<Rightarrow> ('st, msg) dl" where
  "processDownload vt stringParser h m d =
     (if \<not> dl_downloadRequested d then
        dl_bind (dl_addCommand vt stopdl) (\<lambda>_. dl_throw UnexpectedDownloadException) d
      else
        dl_bind (dl_lift (ReadUShort m)) (\<lambda>(block, m1).
        dl_bind (first_block vt stringParser block m1) (\<lambda>m2.
        dl_bind (dl_lift (ReadUShort m2)) (\<lambda>(sz, m3).
          if unat sz > MAX_DOWNLOAD_SIZE then dl_throw (DownloadSizeException sz)
          else (\<lambda>d1.
            if dl_downloadBlock d1 \<noteq> ucast block
            then dl_throw (BadDownloadBlockException block (ucast (dl_downloadBlock d1))) d1
            else if sz > 0 then take_block vt h sz m3 d1
            else
              dl_bind clearDownload (\<lambda>_.
              dl_bind (downloadsComplete vt) (\<lambda>_.
              dl_bind (dl_update (\<lambda>d. d\<lparr>dl_downloadBlock := dl_downloadBlock d + 1\<rparr>)) (\<lambda>_. dl_return m3))) d1)))) d)"

section \<open>A file arrives\<close>

text \<open>The format of a block, its number, the size of the file and its data.\<close>

type_synonym block = "u16 \<times> u32 \<times> byte list"

fun put_block :: "block \<Rightarrow> msg \<Rightarrow> msg_error + msg" where
  "put_block (number, fileSize, data) m =
     rbind (WriteUShort number m) (\<lambda>m1.
     rbind ((if number = 0 then WriteInteger fileSize else Inr) m1) (\<lambda>m2.
     rbind (WriteUShort (of_nat (length data)) m2) (WriteData data)))"

fun block_code :: "block \<Rightarrow> bool list" where
  "block_code (number, fileSize, data) =
     code16 number @ (if number = 0 then code32 fileSize else []) @ code16 (of_nat (length data)) @ concat (map huff_code data)"

lemma put_block_puts: "puts (put_block b) (block_code b)"
proof (cases b)
  case (fields number fileSize data)
  have "puts (if number = 0 then WriteInteger fileSize else Inr) (if number = 0 then code32 fileSize else [])"
    using WriteInteger_puts puts_Inr by simp
  then show ?thesis unfolding fields put_block.simps [abs_def] block_code.simps
    by (intro puts_bind WriteUShort_puts WriteData_puts)
qed

text \<open>The blocks of a file cut into \<open>chunks\<close>, from number \<open>i\<close> on, and what the client answers.\<close>

fun file_blocks :: "nat \<Rightarrow> u32 \<Rightarrow> byte list list \<Rightarrow> block list" where
  "file_blocks i fileSize [] = [(of_nat i, fileSize, [])]"
| "file_blocks i fileSize (c # cs) = (of_nat i, fileSize, c) # file_blocks (i + 1) fileSize cs"

fun file_commands :: "nat \<Rightarrow> byte list list \<Rightarrow> byte list list" where
  "file_commands i [] = [donedl]"
| "file_commands i (c # cs) = (nextDownloadCommand @ to_string i) # file_commands (i + 1) cs"

fun add_all :: "'st sequence_ops \<Rightarrow> byte list list \<Rightarrow> 'st reliable \<Rightarrow> msg_error + 'st reliable" where
  "add_all vt [] r = Inr r"
| "add_all vt (c # cs) r = rbind (addCommand vt c r) (add_all vt cs)"

fun process_blocks ::
  "'st sequence_ops \<Rightarrow> string_parser \<Rightarrow> download_handlers \<Rightarrow> nat \<Rightarrow> msg \<Rightarrow> ('st, msg) dl" where
  "process_blocks vt p h 0 m = dl_return m"
| "process_blocks vt p h (Suc n) m = dl_bind (processDownload vt p h m) (process_blocks vt p h n)"

definition chunk_ok :: "byte list \<Rightarrow> bool" where
  "chunk_ok c \<longleftrightarrow> c \<noteq> [] \<and> length c \<le> MAX_DOWNLOAD_SIZE"

lemma unat_of_nat16: "n < 65536 \<Longrightarrow> unat (of_nat n :: u16) = n"
  by (simp add: unat_of_nat)

lemma of_nat16_0: "n < 65536 \<Longrightarrow> (of_nat n :: u16) = 0 \<longleftrightarrow> n = 0"
  by (simp add: word_unat_eq_iff unat_of_nat16)

lemma ucast_of_nat16: "n < 65536 \<Longrightarrow> (ucast (of_nat n :: u16) :: u32) = of_nat n"
  by (simp add: word_unat_eq_iff unat_of_nat16 unsigned_ucast_eq take_bit_eq_mod unat_of_nat)

text \<open>What precedes the data of a block is read.\<close>

lemma block_header:
  assumes "mr m (block_code (of_nat i, fileSize, data) @ post)" "True \<in> set post" "dl_downloadRequested d"
    and "i < 65536" "i = 0 \<or> dl_downloadBlock d = of_nat i" "fileSize \<noteq> 0" "fileSize \<noteq> - 1" "length data \<le> MAX_DOWNLOAD_SIZE"
  shows "\<exists>m3 d1. d1 = d\<lparr>dl_downloadBlock := of_nat i\<rparr> \<and> mr m3 (concat (map huff_code data) @ post) \<and>
    processDownload vt p h m d =
      (if data \<noteq> [] then take_block vt h (of_nat (length data)) m3 d1
       else dl_bind clearDownload (\<lambda>_. dl_bind (downloadsComplete vt) (\<lambda>_.
            dl_bind (dl_update (\<lambda>d. d\<lparr>dl_downloadBlock := dl_downloadBlock d + 1\<rparr>)) (\<lambda>_. dl_return m3))) d1)"
proof -
  let ?b = "of_nat i :: u16" and ?l = "of_nat (length data) :: u16"
  have l: "length data < 65536" using assms(8) by (simp add: MAX_DOWNLOAD_SIZE_def)
  obtain m1 where m1: "ReadUShort m = Inr (?b, m1)"
    "mr m1 ((if ?b = 0 then code32 fileSize else []) @ code16 ?l @ concat (map huff_code data) @ post)"
    using gets_step [OF ReadUShort_gets, of m ?b
      "(if ?b = 0 then code32 fileSize else []) @ code16 ?l @ concat (map huff_code data) @ post"] assms(1,2) by auto
  obtain m2 where m2: "first_block vt p ?b m1 d = (Inr m2, d\<lparr>dl_downloadBlock := of_nat i\<rparr>)"
    "mr m2 (code16 ?l @ concat (map huff_code data) @ post)"
  proof (cases "i = 0")
    case True
    then obtain m2 where "ReadInteger m1 = Inr (fileSize, m2)" "mr m2 (code16 ?l @ concat (map huff_code data) @ post)"
      using gets_step [OF ReadInteger_gets, of m1 fileSize "code16 ?l @ concat (map huff_code data) @ post"] m1(2) assms(2) by auto
    then show ?thesis using that True assms(6,7) by (simp add: first_block_def dl_simps)
  next
    case False
    then have "?b \<noteq> 0" using of_nat16_0 [OF assms(4)] by simp
    then show ?thesis using that m1(2) False assms(5) by (simp add: first_block_def dl_simps)
  qed
  obtain m3 where m3: "ReadUShort m2 = Inr (?l, m3)" "mr m3 (concat (map huff_code data) @ post)"
    using gets_step [OF ReadUShort_gets m2(2)] assms(2) by auto
  have "?l > 0 \<longleftrightarrow> data \<noteq> []" using of_nat16_0 [OF l] by (simp add: word_gt_0)
  then show ?thesis using m1(1) m2(1) m3 assms(3,8) ucast_of_nat16 [OF assms(4)]
    by (intro exI [of _ m3] exI) (simp add: processDownload_def dl_bind_def dl_lift_def unat_of_nat16 [OF l] split: if_splits)
qed

lemma processDownload_chunk:
  assumes "mr m (block_code (of_nat i, fileSize, c) @ post)" "True \<in> set post" "dl_downloadRequested d"
    and "i < 65536" "i = 0 \<or> dl_downloadBlock d = of_nat i" "fileSize \<noteq> 0" "fileSize \<noteq> - 1" "chunk_ok c"
    and "\<not> receiveHandler h (dl_events d @ [Receive c])"
    and "addCommand vt (nextDownloadCommand @ to_string i) (dl_sequence d) = Inr r"
  shows "\<exists>m'. mr m' post \<and> processDownload vt p h m d = (Inr m',
    d\<lparr>dl_sequence := r, dl_downloadSize := dl_downloadSize d + length c, dl_downloadBlock := of_nat i + 1,
      dl_events := dl_events d @ [Receive c]\<rparr>)"
proof -
  have c: "c \<noteq> []" "length c \<le> MAX_DOWNLOAD_SIZE" "length c < 65536"
    using assms(8) by (simp_all add: chunk_ok_def MAX_DOWNLOAD_SIZE_def)
  obtain m3 d1 where d1: "d1 = d\<lparr>dl_downloadBlock := of_nat i\<rparr>" "mr m3 (concat (map huff_code c) @ post)"
    "processDownload vt p h m d = take_block vt h (of_nat (length c)) m3 d1"
    using block_header [OF assms(1-7) c(2), of vt p h] c(1) by auto
  obtain m' where m': "ReadData (length c) m3 = Inr (c, m')" "mr m' post"
    using gets_step [OF ReadData_gets d1(2) assms(2)] by auto
  have u: "unat (of_nat i :: u32) = i" using assms(4) by (simp add: unat_of_nat)
  have "take_block vt h (of_nat (length c)) m3 d1 = (Inr m',
    d\<lparr>dl_sequence := r, dl_downloadSize := dl_downloadSize d + length c, dl_downloadBlock := of_nat i + 1,
      dl_events := dl_events d @ [Receive c]\<rparr>)"
    using assms(9,10) by (simp add: take_block_def dl_simps dl_receive_def unat_of_nat16 [OF c(3)] m'(1) d1(1) u Let_def)
  then show ?thesis using d1(3) m'(2) by simp
qed

lemma processDownload_last:
  assumes "mr m (block_code (of_nat i, fileSize, []) @ post)" "True \<in> set post" "dl_downloadRequested d"
    and "i < 65536" "i = 0 \<or> dl_downloadBlock d = of_nat i" "fileSize \<noteq> 0" "fileSize \<noteq> - 1"
    and "addCommand vt donedl (dl_sequence d) = Inr r"
  shows "\<exists>m'. mr m' post \<and> processDownload vt p h m d = (Inr m',
    d\<lparr>dl_sequence := r, dl_downloadName := [], dl_downloadBlock := of_nat i + 1, dl_downloadRequested := False\<rparr>)"
  using block_header [OF assms(1-7), of vt p h] assms(8)
  by (auto simp: clearDownload_def downloadsComplete_def dl_simps)

lemma process_blocks_file:
  assumes "mr m (concat (map block_code (file_blocks i fileSize chunks)) @ post)" "True \<in> set post" "dl_downloadRequested d"
    and "i + length chunks < 65536" "i = 0 \<or> dl_downloadBlock d = of_nat i" "fileSize \<noteq> 0" "fileSize \<noteq> - 1"
    and "\<forall>c\<in>set chunks. chunk_ok c" "\<And>es. \<not> receiveHandler h es"
    and "add_all vt (file_commands i chunks) (dl_sequence d) = Inr r"
  shows "\<exists>m'. mr m' post \<and> process_blocks vt p h (length chunks + 1) m d = (Inr m',
    d\<lparr>dl_sequence := r, dl_downloadSize := dl_downloadSize d + length (concat chunks), dl_downloadName := [],
      dl_downloadBlock := of_nat (i + length chunks + 1), dl_downloadRequested := False,
      dl_events := dl_events d @ map Receive chunks\<rparr>)"
  using assms
proof (induction chunks arbitrary: i m d)
  case Nil
  then obtain r0 where r0: "addCommand vt donedl (dl_sequence d) = Inr r" by auto
  obtain m' where "mr m' post" "processDownload vt p h m d = (Inr m',
      d\<lparr>dl_sequence := r, dl_downloadName := [], dl_downloadBlock := of_nat i + 1, dl_downloadRequested := False\<rparr>)"
    using processDownload_last [of m i fileSize post d vt r p h] Nil.prems r0 by auto
  then show ?case by (simp add: dl_simps add.commute)
next
  case (Cons c chunks)
  obtain r1 where r1: "addCommand vt (nextDownloadCommand @ to_string i) (dl_sequence d) = Inr r1"
    "add_all vt (file_commands (i + 1) chunks) r1 = Inr r"
    using Cons.prems(10) by auto
  let ?d1 = "d\<lparr>dl_sequence := r1, dl_downloadSize := dl_downloadSize d + length c, dl_downloadBlock := of_nat i + 1,
      dl_events := dl_events d @ [Receive c]\<rparr>"
  have "mr m (block_code (of_nat i, fileSize, c) @ concat (map block_code (file_blocks (i + 1) fileSize chunks)) @ post)"
    using Cons.prems(1) by simp
  from processDownload_chunk [OF this, of d h vt r1 p] obtain m1 where m1:
    "mr m1 (concat (map block_code (file_blocks (i + 1) fileSize chunks)) @ post)" "processDownload vt p h m d = (Inr m1, ?d1)"
    using Cons.prems(2-9) r1(1) by auto
  have "\<exists>m'. mr m' post \<and> process_blocks vt p h (length chunks + 1) m1 ?d1 = (Inr m',
    ?d1\<lparr>dl_sequence := r, dl_downloadSize := dl_downloadSize ?d1 + length (concat chunks), dl_downloadName := [],
      dl_downloadBlock := of_nat (i + 1 + length chunks + 1), dl_downloadRequested := False,
      dl_events := dl_events ?d1 @ map Receive chunks\<rparr>)"
    using m1(1) Cons.prems(2-9) r1(2) by (intro Cons.IH) (simp_all add: add.commute)
  then show ?case using m1(2) by (auto simp: dl_bind_def)
qed

text \<open>The client side of a transfer: \<open>n\<close> blocks are processed.\<close>

definition receive_file ::
  "'st sequence_ops \<Rightarrow> string_parser \<Rightarrow> download_handlers \<Rightarrow> nat \<Rightarrow> 'st downloads \<Rightarrow> msg \<Rightarrow> msg_error + 'st downloads \<times> msg" where
  "receive_file vt p h n d m =
     (case process_blocks vt p h n m d of (Inl e, _) \<Rightarrow> Inl BadBufferAccess | (Inr m', d') \<Rightarrow> Inr (d', m'))"

lemma file_blocks_puts: "puts (put_list put_block bs) (concat (map block_code bs))"
proof (induction bs)
  case Nil
  have "put_list put_block [] = Inr" by (simp add: fun_eq_iff)
  then show ?case using puts_Inr by simp
next
  case (Cons b bs)
  have "put_list put_block (b # bs) = (\<lambda>m. rbind (put_block b m) (put_list put_block bs))" by (simp add: fun_eq_iff)
  then show ?case using puts_bind [OF put_block_puts Cons] by simp
qed

text \<open>C7: A file that a server sends in blocks, from number zero to the empty one that ends it, with a size that is
  neither 0 nor -1, arrives: a client that asked for it and whose handlers do not interrupt it receives
  exactly the chunks in their order, makes the next command of its number for each and the command that
  it is done for the last, and is no longer downloading. The chunks may have any sizes from 1 to 49152 bytes, and
  there may be up to 65535 of them. The commands are added to the reliable sequence as \<open>addCommand\<close> does,
  which drops one when more than 64 are not acknowledged; the run here has no acknowledgements between
  the blocks.\<close>

theorem download_arrives:
  assumes "dl_downloadRequested d" "length chunks < 65536" "\<forall>c\<in>set chunks. chunk_ok c"
    and "fileSize \<noteq> 0" "fileSize \<noteq> - 1" "\<And>es. \<not> receiveHandler h es"
    and "add_all vt (file_commands 0 chunks) (dl_sequence d) = Inr r"
  shows "transfer (put_list put_block) (receive_file vt p h (length chunks + 1) d) (file_blocks 0 fileSize chunks)
      (DynS (dyn_new fresh)) =
    Inr (d\<lparr>dl_sequence := r, dl_downloadSize := dl_downloadSize d + length (concat chunks), dl_downloadName := [],
      dl_downloadBlock := of_nat (length chunks + 1), dl_downloadRequested := False,
      dl_events := dl_events d @ map Receive chunks\<rparr>)"
proof (rule transfer_dyn [where x = "file_blocks 0 fileSize chunks" and put = "put_list put_block", OF file_blocks_puts])
  show "gets (receive_file vt p h (length chunks + 1) d) (concat (map block_code (file_blocks 0 fileSize chunks)))
    (d\<lparr>dl_sequence := r, dl_downloadSize := dl_downloadSize d + length (concat chunks), dl_downloadName := [],
      dl_downloadBlock := of_nat (length chunks + 1), dl_downloadRequested := False,
      dl_events := dl_events d @ map Receive chunks\<rparr>)"
    unfolding gets_def
  proof (intro allI impI)
    fix m post assume "mr m (concat (map block_code (file_blocks 0 fileSize chunks)) @ post)" "True \<in> set post"
    from process_blocks_file [OF this, where d = d and h = h and vt = vt and r = r and p = p] assms
    show "\<exists>m'. receive_file vt p h (length chunks + 1) d m =
        Inr (d\<lparr>dl_sequence := r, dl_downloadSize := dl_downloadSize d + length (concat chunks), dl_downloadName := [],
          dl_downloadBlock := of_nat (length chunks + 1), dl_downloadRequested := False,
          dl_events := dl_events d @ map Receive chunks\<rparr>, m') \<and> mr m' post"
      by (auto simp: receive_file_def)
  qed
qed

definition no_interrupt :: download_handlers where
  "no_interrupt = \<lparr>startDownloadHandler = (\<lambda>_. False), receiveHandler = (\<lambda>_. False)\<rparr>"

definition requested :: "command_array downloads" where
  "requested = (downloads_new (IReliableSequence_new (array_new 4 16 0)))\<lparr>dl_downloadRequested := True\<rparr>"

theorem download_arrives_witness:
  "map_sum id dl_events (transfer (put_list put_block) (receive_file SequenceTemplate String8 no_interrupt 3 requested)
     (file_blocks 0 3 [[1, 2], [3]]) (DynS (dyn_new 0))) = Inr [Receive [1, 2], Receive [3]]"
proof -
  have r: "add_all SequenceTemplate (file_commands 0 [[1, 2], [3]]) (dl_sequence requested) =
    Inr (projr (add_all SequenceTemplate (file_commands 0 [[1, 2], [3]]) (dl_sequence requested)))" by code_simp
  have "\<forall>c\<in>set [[1, 2], [3]]. chunk_ok c" by (simp add: chunk_ok_def MAX_DOWNLOAD_SIZE_def)
  from download_arrives [OF _ _ this _ _ _ r, of 3 no_interrupt String8 0] show ?thesis
    by (simp add: no_interrupt_def requested_def downloads_new_def numeral_3_eq_3)
qed

text \<open>A message that starts with given bits.\<close>

lemma some_reading: "\<exists>m post. mr m (bs @ post) \<and> True \<in> set post"
proof -
  let ?n = "length bs + 1"
  let ?post = "replicate (8 * ?n - length bs) True"
  let ?s = "FixedS (fixed_new (bits_bytes ?n (bs @ ?post)) ?n ?n)"
  have "length (bs @ ?post) = 8 * ?n" by simp
  then have b: "bytes_bits (st_content ?s) = (bs @ ?post) @ []"
    by (simp only: st_content.simps fixed_new_content length_bits_bytes order_refl bytes_bits_bits_bytes append_Nil2)
  have "st_invar ?s" "st_GetPosition ?s = 0" by (simp_all add: fixed_GetPosition_def fixed_new_def fixed_invar_def)
  then obtain m where "mr m (bs @ ?post)" using msg_new_reads [OF _ _ b] by blast
  then show ?thesis by (intro exI [of _ m] exI [of _ ?post]) simp
qed

text \<open>The number of a block has 16 bits, but the number that is expected has 32: after 65536 blocks every
  further block but one with the number zero is refused, whatever the server sends.\<close>

theorem download_stops_after_65536:
  assumes "dl_downloadRequested d" "dl_downloadBlock d \<ge> 65536"
    and "ReadUShort m = Inr (block, m1)" "block \<noteq> 0" "ReadUShort m1 = Inr (sz, m2)" "unat sz \<le> MAX_DOWNLOAD_SIZE"
  shows "processDownload vt p h m d = (Inl (BadDownloadBlockException block (ucast (dl_downloadBlock d))), d)"
proof -
  have "unat block < 65536" using unsigned_less [of block, where 'a = nat] by simp
  then have "(ucast block :: u32) < 65536" by (simp add: word_less_nat_alt unsigned_ucast_eq take_bit_eq_mod)
  then have "dl_downloadBlock d \<noteq> ucast block" using assms(2) by auto
  then show ?thesis using assms by (simp add: processDownload_def dl_simps first_block_def)
qed

theorem download_stops_after_65536_witness:
  "\<exists>m. processDownload SequenceTemplate String8 no_interrupt m (requested\<lparr>dl_downloadBlock := 65536\<rparr>) =
     (Inl (BadDownloadBlockException 5 0), requested\<lparr>dl_downloadBlock := 65536\<rparr>)"
proof -
  obtain m post where m: "mr m (code16 5 @ code16 0 @ post)" "True \<in> set post"
    using some_reading [of "code16 5 @ code16 0"] by auto
  then obtain m1 where m1: "ReadUShort m = Inr (5, m1)" "mr m1 (code16 0 @ post)"
    using gets_step [OF ReadUShort_gets, of m 5 "code16 0 @ post"] by auto
  then obtain m2 where m2: "ReadUShort m1 = Inr (0, m2)"
    using gets_step [OF ReadUShort_gets, of m1 0 post] m(2) by auto
  have "dl_downloadRequested (requested\<lparr>dl_downloadBlock := 65536\<rparr>)"
    "dl_downloadBlock (requested\<lparr>dl_downloadBlock := 65536\<rparr>) = 65536" by (simp_all add: requested_def downloads_new_def)
  from download_stops_after_65536 [OF this(1) _ m1(1) _ m2, of SequenceTemplate String8 no_interrupt] this(2)
  show ?thesis by (intro exI [of _ m]) simp
qed

end
