(* ===== verification/Spec2Isabelle.thy ===== *)
theory Spec2Isabelle
  imports Moh_Prelude Stream HuffmanTable Huffman Codec Msg Wire MsgOps Netchan Reliable Encoding UserCmd
    Packets Connection Configstring Float32 EntityField EntityDelta
    PlayerDelta GameState Snapshot PVS ClientTime ServerSnapshot Tokens CGSnapshot
    InfoString Download
begin

text \<open>
  A verification library for the network protocol of mohpc, a client library for the
  games of the Medal of Honor: Allied Assault family.

  The program's parts and their theories, from the bytes up:

  \<^item> \<open>Moh_Prelude\<close>: machine types, the error monad on a sum type, \<open>memcpy\<close>-like list
    operations, little-endian bytes, the collections of hints.
  \<^item> \<open>Stream\<close> (Utility/Misc/MSG/Stream.cpp, Stream.h): the fixed and the growing message
    stream. Both are records with the bytes and the position; \<open>mstream\<close> is the choice of the
    two that the virtual interface makes; \<open>streamHelpers::Copy\<close> is \<open>st_Copy\<close>.
  \<^item> \<open>HuffmanTable\<close>, \<open>Huffman\<close> (HuffmanTree.h, HuffmanTree.cpp, CodecCompressor.h): the archived
    nodes, the tree that the constructor links from them, transmit and receive.
  \<^item> \<open>Codec\<close> (Codec.cpp): the out-of-band codec and the Huffman codec, the bit buffer, \<open>FlushBits\<close>
    and \<open>ReadBits\<close>.
  \<^item> \<open>Msg\<close>, \<open>MsgOps\<close> (MSG.cpp, MSG.h): class MSG, its reads, writes, strings, deltas and the
    \<open>Serialize\<close> functions that do either. \<open>Wire\<close> is the contract between a writer and a reader.
  \<^item> \<open>Netchan\<close> (Network/Remote/Channel.cpp): the connected channel with its fragments and the
    connectionless channel.

  \<^item> \<open>Reliable\<close> (Types/Reliable.cpp): the reliable commands a peer sends and those it receives, over
    the command arrays of both protocol versions. The operations of an array are a record; the
    locale \<open>command_store\<close> is the contract between an array and the sequence, interpreted for the
    four arrays (\<open>sent8\<close>, \<open>sent17\<close>, \<open>received8\<close>, \<open>received17\<close>).
  \<^item> \<open>Encoding\<close> (Remote/Encoding.cpp, Remote/Chain.cpp, Client/ChainEncode.cpp): the xor of a packet
    with a key made of a secret and a command, and the client's encoding chain.
  \<^item> \<open>UserCmd\<close> (Types/UserInput.cpp, UserButtons.cpp, Serializable/UserInput.cpp,
    Client/UserInput.cpp, WarpArray.h): buttons, movement, commands, eyes, their delta
    serialisation and the ring of the client's commands.
  \<^item> \<open>Packets\<close> (ProtocolSingleton.h, Parsing/String.cpp, Hash.cpp, Input.cpp, Client/InputModule.cpp):
    the choice of a parser by protocol and the parts of a client packet.
  \<^item> \<open>Connection\<close> (Client/ServerConnection.cpp): the channel to the server, the loop over the
    operations of a server message, the commands of the server with the manager that runs them, and
    the packets of the client.

  \<^item> \<open>Configstring\<close> (Types/Configstring.cpp, Configstring_version8.cpp, _version17.cpp): the
    configuration strings in one block of memory, the offsets before the characters, the iterator
    over them and the translation of their numbers by version.
  \<^item> \<open>Float32\<close>: IEEE binary32 numbers as words, their arithmetic with rounding to nearest even and
    the conversions of x86-64, which the fields and coordinates use.
  \<^item> \<open>EntityField\<close> (Serializable/EntityField.cpp, NetField.h, Coord.h, MSGCoord.cpp): how one member
    of an entity is packed, compared, written and read, and the coordinates.
  \<^item> \<open>EntityDelta\<close> (Types/Entity.cpp, Serializable/Entity.cpp, Parsing/Entity.cpp): the state of an
    entity as a memory of members, the two tables of 146 network fields, and the serialisation of
    one state against another for both versions.
  \<^item> \<open>PlayerDelta\<close> (Types/PlayerState.cpp, Serializable/PlayerState.cpp, Parsing/PlayerState.cpp):
    the same for the state of the player, with its arrays of numbers and its flags, which the two
    versions number differently.
  \<^item> \<open>GameState\<close> (Types/GameState.cpp): the baselines of the entities and the state of a game.
  \<^item> \<open>Snapshot\<close> (Types/Snapshot.cpp, Parsing/Snapshot.cpp): the parsing of a snapshot; its entities are
    a range of a ring, merged from those of an older snapshot and the deltas of the message.

  \<^item> \<open>PVS\<close> (Parsing/PVS.cpp): the players out of sight, in the radar value of the player's state.
  \<^item> \<open>ClientTime\<close> (Client/Time.cpp): the clock of a client, which simulates the time of the server.
  \<^item> \<open>ServerSnapshot\<close> (Client/ServerSnapshot.cpp, TimeManager.cpp): the ring of the last 32 snapshots,
    the snapshot given by its number, the entry into the game and the time that drives the clock.
  \<^item> \<open>Tokens\<close> (Utility/TokenParser.cpp, CommandManager.cpp): the tokens of a text and the commands that
    are read from one.
  \<^item> \<open>CGSnapshot\<close> (Client/CGame/Snapshot.cpp): the processor that shows one snapshot after the other to
    the game, with the commands and the entities that come, change and go.
  \<^item> \<open>InfoString\<close> (Utility/Info.cpp, Info.h): keys and values in a string with backslashes, changed,
    read and iterated. An info string implements the list of its pairs.
  \<^item> \<open>Download\<close> (Client/DownloadManager.cpp, Misc/Escape.h): a file from the server in numbered blocks.

  How they interact: a channel receives a datagram, checks its sequence number, puts fragments
  together and hands a stream to the connection. The connection decodes it with the key of the
  command the server acknowledged, and a message reads bits through its codec, which refills a
  buffer of bits from the stream; the codec walks the constant Huffman tree. The connection stores
  each new command of the server and has a command manager run it. A snapshot of the message goes to the snapshot
  manager, whose numbers and times drive the clock and the processor of the game; the processor takes
  the commands up to the one of its snapshot, splits them into tokens and calls their handlers. In the
  other direction the connection writes a header, the commands not yet acknowledged and the movement, encodes the packet and transmits it.

  Exceptions are values of \<open>error + 'a\<close>; a state is returned with the value and is lost with an
  exception where no caller uses it after one. A handler of the connection returns its state with
  an exception, since the connection catches some of them. Machine integers are words of their
  width. A C++ reference parameter is an argument and a result.

  What the lemmas show: each theory of a component first has its definitions, then what each
  operation does, then its properties. The properties are the theorems after a text with a C
  number; a theorem named after one with \<open>_witness\<close> applies it at a concrete input. Lemmas of the
  form \<open>puts (op x) bits\<close> and \<open>gets op bits x\<close> (theory \<open>Wire\<close>) say what an operation appends to a
  message and what its counterpart takes from one; \<open>transfer\<close> composes a write with a read on the
  other side.

  Bounds and fuel: every loop is a total function, with a measure on the bits or bytes left
  where it is not structural, except two that need not end: the loop of \<open>writeCommands\<close> over numbers
  of 32 bits and the loop of \<open>parseServerMessage\<close> over the operations of a message, whose handlers
  are arguments. They are \<open>partial_function (option)\<close>, \<open>None\<close> when they do not end, and the
  properties about them show that they return. The loop of \<open>Netchan::transmit\<close> can fail to progress
  only after an exception, so its measure is the number of bytes not yet sent. The loop of
  \<open>GetToken\<close> over macro definitions has as fuel the characters left, since a definition takes some.
  What the handlers of events are called with is a list of events in the state.

  Parameters: the handlers of the other operations of a message (the game state, a snapshot, a
  download, the game) and of the commands that others register with the connection, which change
  nothing of it but the state of the game, the computation of a macro's formula (\<open>evaluate\<close>),
  the handlers of a download, which can interrupt it, and the memory that a wrong comparison of the
  snapshot processor reads (\<open>differs\<close>).

  Not modelled: sockets, threads and the system clock (their values are arguments); the assets (BSP, TIKI,
  shaders, images, sounds), collision detection and the player movement, which work on floating
  point numbers; the script objects, the managers and the command line tools.
\<close>

end
